(* ===== verification/QC_Prelude.thy ===== *)
theory QC_Prelude
  imports Main "HOL-Library.Word" "HOL-Library.Monad_Syntax"
begin

text \<open>
  Shared vocabulary of the development.

  Rust's fixed-width integers are words.  A Rust function that can panic returns an
  \<open>option\<close>, with \<open>None\<close> for the panic; a function of type \<open>Result<T, E>\<close> returns a value
  of the sum \<open>E + T\<close>, with \<open>Inl\<close> for \<open>Err\<close>.  A function that can do both returns
  \<open>(E + T) option\<close>.  Sequencing of panicking code is the option monad.
\<close>

type_synonym u8 = "8 word"
type_synonym u16 = "16 word"
type_synonym u32 = "32 word"
type_synonym u64 = "64 word"
type_synonym bytes = "u8 list"
type_synonym 'a may_panic = "'a option"

named_theorems ge_simps "algebra of powers of the group generator"
named_theorems poly_intros "closure of the polynomial functions"
named_theorems share_simps "selectors of shares and keys"
named_theorems proto_defs "definitions of the round protocols"
named_theorems store_defs "definitions of the stores of the orchestration layer"

abbreviation Ok :: "'a \<Rightarrow> 'e + 'a" where
  "Ok \<equiv> Inr"

abbreviation Err :: "'e \<Rightarrow> 'e + 'a" where
  "Err \<equiv> Inl"

definition is_ok :: "'e + 'a \<Rightarrow> bool" where
  "is_ok r = (case r of Inl _ \<Rightarrow> False | Inr _ \<Rightarrow> True)"

lemma is_ok_simps [simp]: "is_ok (Ok x)" "\<not> is_ok (Err e)"
  by (simp_all add: is_ok_def)

text \<open>
  Indexing with a share identifier: the code reads \<open>v[(id - 1) as usize]\<close> with \<open>id: u16\<close>.
  Identifier 0 underflows, or in a build without overflow checks wraps to an index no vector of key shares has, and
  an identifier beyond the vector is out of bounds; all of them panic.
\<close>

definition index_by_id :: "'a list \<Rightarrow> u16 \<Rightarrow> 'a may_panic" where
  "index_by_id v sid =
     (if sid = 0 \<or> length v < unat sid then None else Some (v ! (unat sid - 1)))"

lemma index_by_id_Some_iff:
  "index_by_id v sid = Some x \<longleftrightarrow> sid \<noteq> 0 \<and> unat sid \<le> length v \<and> x = v ! (unat sid - 1)"
  by (auto simp: index_by_id_def)

lemma index_by_id_map [simp]:
  "index_by_id (map f v) sid = map_option f (index_by_id v sid)"
  using unat_gt_0 [of sid] by (auto simp: index_by_id_def)

text \<open>Reading a plain vector position, with Rust's bounds check.\<close>

definition index :: "'a list \<Rightarrow> nat \<Rightarrow> 'a may_panic" where
  "index v i = (if i < length v then Some (v ! i) else None)"

lemma index_Some_iff: "index v i = Some x \<longleftrightarrow> i < length v \<and> x = v ! i"
  by (auto simp: index_def)

text \<open>Folding a panicking step over a list.\<close>

fun foldM :: "('s \<Rightarrow> 'a \<Rightarrow> 's may_panic) \<Rightarrow> 's \<Rightarrow> 'a list \<Rightarrow> 's may_panic" where
  "foldM f s [] = Some s"
| "foldM f s (x # xs) = do { s' \<leftarrow> f s x; foldM f s' xs }"

fun mapM :: "('a \<Rightarrow> 'b may_panic) \<Rightarrow> 'a list \<Rightarrow> 'b list may_panic" where
  "mapM f [] = Some []"
| "mapM f (x # xs) = do { y \<leftarrow> f x; ys \<leftarrow> mapM f xs; Some (y # ys) }"

lemma mapM_Some: "(\<And>x. x \<in> set xs \<Longrightarrow> f x = Some (g x)) \<Longrightarrow> mapM f xs = Some (map g xs)"
  by (induction xs) auto

lemma mapM_cong: "(\<And>x. x \<in> set xs \<Longrightarrow> f x = g x) \<Longrightarrow> mapM f xs = mapM g xs"
  by (induction xs) auto

lemma mapM_Some_fun [simp]: "mapM (\<lambda>x. Some (g x)) xs = Some (map g xs)"
  by (rule mapM_Some) simp

lemma mapM_obtain:
  assumes "\<And>x. x \<in> set xs \<Longrightarrow> \<exists>y. f x = Some y \<and> P x y"
  shows "\<exists>ys. mapM f xs = Some ys \<and> list_all2 P xs ys"
  using assms
proof (induction xs)
  case (Cons x xs)
  then obtain y ys where "f x = Some y" "P x y" "mapM f xs = Some ys" "list_all2 P xs ys"
    by (metis list.set_intros(1,2))
  then show ?case by simp
qed simp

lemma foldM_append: "foldM f s (xs @ ys) = do { s' \<leftarrow> foldM f s xs; foldM f s' ys }"
  by (induction xs arbitrary: s) (auto simp: Option.bind_assoc)

lemma foldM_Some:
  "(\<And>s x. x \<in> set xs \<Longrightarrow> f s x = Some (g s x)) \<Longrightarrow> foldM f s xs = Some (foldl g s xs)"
  by (induction xs arbitrary: s) auto

text \<open>Facts on lists with distinct keys.\<close>

lemma distinct_map_nth_eq:
  assumes "distinct (map f xs)" "i < length xs" "j < length xs" "f (xs ! i) = f (xs ! j)"
  shows "i = j"
  using assms by (metis length_map nth_eq_iff_index_eq nth_map)

lemma sum_list_index_filter:
  fixes g :: "'a \<Rightarrow> int"
  shows "(\<Sum>i<length xs. g (xs ! i)) = sum_list (map g xs)"
  by (simp add: sum_list_sum_nth atLeast0LessThan)

end
