(* ===== verification/QC_Types.thy ===== *)
theory QC_Types
  imports QC_Prelude
begin

text \<open>
  The enumerations shared by all layers: groups, schemes and operations (declared in
  \<open>proto/src/scheme_types.proto\<close>, with their numbers), the details attached to them in
  \<open>scheme_types_impl.rs\<close>, and the error types of the scheme and of the protocol layer.
\<close>

datatype group = Bls12381 | Bn254 | Ed25519 | Rsa512 | Rsa1024 | Rsa2048 | Rsa4096

datatype threshold_scheme = Bz03 | Sg02 | Bls04 | Cks05 | Frost | Sh00

datatype threshold_operation = Encryption | Signature | Coin

datatype scheme_error =
    WrongGroup | WrongScheme | WrongKeyProvided | SerializationFailed | DeserializationFailed
  | CurveDoesNotSupportPairings | ParamsNotSet | IdNotFound | IncompatibleGroup | WrongState
  | PreviousRoundNotExecuted | InvalidRound | InvalidShare | ProtocolNotFinished
  | NotReadyForNextRound | MessageNotSpecified | MessageAlreadySpecified
  | SerializationError string | UnknownScheme | UnknownGroupString | UnknownGroup | IOError
  | InvalidParams "string option" | Aborted string | KeyNotFound | MacFailure
  | NoMoreCommitments

datatype protocol_error =
    SchemeError scheme_error | InvalidCiphertext | InstanceNotFound | InternalError
  | NotFinished | InvalidRoundP | InvalidShareP

text \<open>The numbers the protobuf enumerations give their values.\<close>

fun group_code :: "group \<Rightarrow> int" where
  "group_code Bls12381 = 0"
| "group_code Bn254 = 1"
| "group_code Ed25519 = 2"
| "group_code Rsa512 = 3"
| "group_code Rsa1024 = 4"
| "group_code Rsa2048 = 5"
| "group_code Rsa4096 = 6"

definition group_from_i32 :: "int \<Rightarrow> group option" where
  "group_from_i32 i =
     (if i = 0 then Some Bls12381 else if i = 1 then Some Bn254 else if i = 2 then Some Ed25519
      else if i = 3 then Some Rsa512 else if i = 4 then Some Rsa1024
      else if i = 5 then Some Rsa2048 else if i = 6 then Some Rsa4096 else None)"

fun scheme_code :: "threshold_scheme \<Rightarrow> int" where
  "scheme_code Bz03 = 0"
| "scheme_code Sg02 = 1"
| "scheme_code Bls04 = 2"
| "scheme_code Cks05 = 3"
| "scheme_code Frost = 4"
| "scheme_code Sh00 = 5"

definition scheme_from_i32 :: "int \<Rightarrow> threshold_scheme option" where
  "scheme_from_i32 i =
     (if i = 0 then Some Bz03 else if i = 1 then Some Sg02 else if i = 2 then Some Bls04
      else if i = 3 then Some Cks05 else if i = 4 then Some Frost
      else if i = 5 then Some Sh00 else None)"

text \<open>\<open>get_id\<close> and \<open>from_id\<close> of the trait \<open>SchemeDetails\<close>: the scheme as a \<open>u8\<close>.\<close>

definition scheme_get_id :: "threshold_scheme \<Rightarrow> u8" where
  "scheme_get_id s = word_of_int (scheme_code s)"

definition scheme_from_id :: "u8 \<Rightarrow> threshold_scheme option" where
  "scheme_from_id i = scheme_from_i32 (uint i)"

text \<open>\<open>as_str_name\<close> of the generated enumerations: the names of the protobuf file.\<close>

fun scheme_str_name :: "threshold_scheme \<Rightarrow> string" where
  "scheme_str_name Bz03 = ''Bz03''"
| "scheme_str_name Sg02 = ''Sg02''"
| "scheme_str_name Bls04 = ''Bls04''"
| "scheme_str_name Cks05 = ''Cks05''"
| "scheme_str_name Frost = ''Frost''"
| "scheme_str_name Sh00 = ''Sh00''"

fun group_str_name :: "group \<Rightarrow> string" where
  "group_str_name Bls12381 = ''Bls12381''"
| "group_str_name Bn254 = ''Bn254''"
| "group_str_name Ed25519 = ''Ed25519''"
| "group_str_name Rsa512 = ''Rsa512''"
| "group_str_name Rsa1024 = ''Rsa1024''"
| "group_str_name Rsa2048 = ''Rsa2048''"
| "group_str_name Rsa4096 = ''Rsa4096''"

definition scheme_parse_string :: "string \<Rightarrow> scheme_error + threshold_scheme" where
  "scheme_parse_string s =
     (if s = ''Bz03'' then Ok Bz03 else if s = ''Sg02'' then Ok Sg02
      else if s = ''Bls04'' then Ok Bls04 else if s = ''Cks05'' then Ok Cks05
      else if s = ''Frost'' then Ok Frost else if s = ''Sh00'' then Ok Sh00
      else Err UnknownScheme)"

fun is_interactive :: "threshold_scheme \<Rightarrow> bool" where
  "is_interactive Frost = True"
| "is_interactive _ = False"

fun is_dl :: "group \<Rightarrow> bool" where
  "is_dl Bls12381 = True"
| "is_dl Bn254 = True"
| "is_dl Ed25519 = True"
| "is_dl Rsa512 = False"
| "is_dl Rsa1024 = False"
| "is_dl Rsa2048 = False"
| "is_dl Rsa4096 = False"

fun supports_pairings :: "group \<Rightarrow> bool" where
  "supports_pairings Bls12381 = True"
| "supports_pairings Bn254 = True"
| "supports_pairings Ed25519 = False"
| "supports_pairings Rsa512 = False"
| "supports_pairings Rsa1024 = False"
| "supports_pairings Rsa2048 = False"
| "supports_pairings Rsa4096 = False"

fun check_valid_group :: "threshold_scheme \<Rightarrow> group \<Rightarrow> bool" where
  "check_valid_group Bls04 g = (is_dl g \<and> supports_pairings g)"
| "check_valid_group Bz03 g = (is_dl g \<and> supports_pairings g)"
| "check_valid_group Cks05 g = is_dl g"
| "check_valid_group Frost g = (g \<in> set [Ed25519])"
| "check_valid_group Sg02 g = is_dl g"
| "check_valid_group Sh00 g = (\<not> is_dl g)"

fun get_operation :: "threshold_scheme \<Rightarrow> threshold_operation" where
  "get_operation Bz03 = Encryption"
| "get_operation Sg02 = Encryption"
| "get_operation Bls04 = Signature"
| "get_operation Cks05 = Coin"
| "get_operation Frost = Signature"
| "get_operation Sh00 = Signature"

definition group_parse_string :: "string \<Rightarrow> scheme_error + group" where
  "group_parse_string s =
     (if s = ''bls12381'' then Ok Bls12381 else if s = ''bn254'' then Ok Bn254
      else if s = ''ed25519'' then Ok Ed25519 else if s = ''rsa512'' then Ok Rsa512
      else if s = ''rsa1024'' then Ok Rsa1024 else if s = ''rsa2048'' then Ok Rsa2048
      else if s = ''rsa4096'' then Ok Rsa4096 else Err UnknownGroupString)"

lemma group_from_i32_code [simp]: "group_from_i32 (group_code g) = Some g"
  by (cases g) (simp_all add: group_from_i32_def)

lemma scheme_from_i32_code [simp]: "scheme_from_i32 (scheme_code s) = Some s"
  by (cases s) (simp_all add: scheme_from_i32_def)

lemma scheme_from_id_get_id [simp]: "scheme_from_id (scheme_get_id s) = Some s"
  by (cases s) (simp_all add: scheme_from_id_def scheme_get_id_def scheme_from_i32_def)

lemma scheme_from_id_Some: "scheme_from_id b = Some s \<longleftrightarrow> b = scheme_get_id s"
  by (cases s) (auto simp: scheme_from_id_def scheme_get_id_def scheme_from_i32_def
      word_uint_eq_iff split: if_splits)

lemma scheme_parse_string_str_name: "scheme_parse_string (scheme_str_name s) = Ok s"
  by (cases s) (simp_all add: scheme_parse_string_def)

lemma pairings_are_dl: "supports_pairings g \<Longrightarrow> is_dl g"
  by (cases g) simp_all

end
