(* ===== verification/QC_Modular.thy ===== *)
theory QC_Modular
  imports QC_Prelude
begin

text \<open>
  Arithmetic modulo a prime and Lagrange interpolation.

  Polynomials are handled semantically: \<open>polyfun n f\<close> says that \<open>f\<close> is an integer
  polynomial with at most \<open>n\<close> coefficients.  The main facts are that such a function with
  \<open>n\<close> roots that differ modulo a prime vanishes everywhere modulo that prime, and the
  interpolation formula at 0 that all threshold schemes of the code rest on.
\<close>

subsection \<open>Primes and inverses\<close>

definition is_prime :: "int \<Rightarrow> bool" where
  "is_prime q = (1 < q \<and> (\<forall>d\<in>{2..<q}. \<not> d dvd q))"

lemma is_prime_gt_1: "is_prime q \<Longrightarrow> 1 < q"
  by (simp add: is_prime_def)

lemma is_prime_coprime:
  assumes "is_prime q" "\<not> q dvd a"
  shows "coprime a q"
proof -
  let ?d = "gcd a q"
  have "1 < q" using assms(1) by (rule is_prime_gt_1)
  then have pos: "0 < ?d" by simp
  have le: "?d \<le> q" using \<open>1 < q\<close> by (simp add: zdvd_imp_le)
  have "?d \<noteq> q" using assms(2) by (metis gcd_dvd1)
  moreover have "?d \<notin> {2..<q}" using assms(1) by (auto simp: is_prime_def)
  ultimately have "?d = 1" using pos le unfolding atLeastLessThan_iff by linarith
  then show ?thesis by (simp add: coprime_iff_gcd_eq_1)
qed

lemma is_prime_dvd_mult:
  assumes "is_prime q" "q dvd a * b"
  shows "q dvd a \<or> q dvd b"
  using assms is_prime_coprime [of q a] by (metis coprime_commute coprime_dvd_mult_right_iff)

lemma not_dvd_diff_small:
  fixes a b q :: int
  assumes "0 < a" "a < q" "0 < b" "b < q" "a \<noteq> b"
  shows "\<not> q dvd (a - b)"
proof
  assume "q dvd (a - b)"
  then have "q \<le> \<bar>a - b\<bar>" using assms(5) by (meson dvd_imp_le_int right_minus_eq dual_order.trans abs_ge_self)
  then show False using assms by linarith
qed

text \<open>The inverse modulo \<open>m\<close>, by the extended Euclidean algorithm.\<close>

definition inv_mod :: "int \<Rightarrow> int \<Rightarrow> int" where
  "inv_mod a m = fst (bezw (nat (a mod m)) (nat m)) mod m"

lemma inv_mod_mult:
  assumes "1 < m" "coprime a m"
  shows "(a * inv_mod a m) mod m = 1"
proof -
  let ?x = "nat (a mod m)" and ?y = "nat m"
  have "gcd (a mod m) m = 1" using assms(2) by (metis coprime_iff_gcd_eq_1 gcd.commute gcd_red_int)
  then have g: "int (gcd ?x ?y) = 1" using assms(1) by (simp add: gcd_int_int_eq [symmetric])
  have "fst (bezw ?x ?y) * int ?x + snd (bezw ?x ?y) * int ?y = 1"
    using bezw_aux [of ?x ?y] g by simp
  then have "(fst (bezw ?x ?y) * (a mod m) + snd (bezw ?x ?y) * m) mod m = 1 mod m"
    using assms(1) by simp
  then have "(fst (bezw ?x ?y) * (a mod m)) mod m = 1" using assms(1) by simp
  then show ?thesis by (simp add: inv_mod_def mod_mult_right_eq mod_mult_left_eq mult.commute)
qed

lemma inv_mod_range: "0 < m \<Longrightarrow> 0 \<le> inv_mod a m \<and> inv_mod a m < m"
  by (simp add: inv_mod_def)

lemma inv_mod_prime:
  assumes "is_prime q" "\<not> q dvd a"
  shows "(a * inv_mod a q) mod q = 1"
  using assms inv_mod_mult is_prime_coprime is_prime_gt_1 by blast

lemma inv_mod_cong: "a mod q = b mod q \<Longrightarrow> inv_mod a q = inv_mod b q"
  by (simp add: inv_mod_def)

subsection \<open>Polynomial functions\<close>

definition polyfun :: "nat \<Rightarrow> (int \<Rightarrow> int) \<Rightarrow> bool" where
  "polyfun n f = (\<exists>c. \<forall>x. f x = (\<Sum>i<n. c i * x ^ i))"

lemma polyfun_zero [poly_intros]: "polyfun n (\<lambda>_. 0)"
  unfolding polyfun_def by (rule exI [of _ "\<lambda>_. 0"]) simp

lemma polyfun_const [poly_intros]: "polyfun (Suc n) (\<lambda>_. a)"
  unfolding polyfun_def
  by (rule exI [of _ "\<lambda>i. if i = 0 then a else 0"])
    (simp add: sum.lessThan_Suc_shift del: sum.lessThan_Suc)

lemma polyfun_add [poly_intros]:
  assumes "polyfun n f" "polyfun n g"
  shows "polyfun n (\<lambda>x. f x + g x)"
proof -
  obtain c d where "\<forall>x. f x = (\<Sum>i<n. c i * x ^ i)" "\<forall>x. g x = (\<Sum>i<n. d i * x ^ i)"
    using assms by (auto simp: polyfun_def)
  then show ?thesis unfolding polyfun_def
    by (intro exI [of _ "\<lambda>i. c i + d i"]) (simp add: sum.distrib distrib_right)
qed

lemma polyfun_scale [poly_intros]:
  assumes "polyfun n f"
  shows "polyfun n (\<lambda>x. a * f x)"
proof -
  obtain c where "\<forall>x. f x = (\<Sum>i<n. c i * x ^ i)" using assms by (auto simp: polyfun_def)
  then show ?thesis unfolding polyfun_def
    by (intro exI [of _ "\<lambda>i. a * c i"]) (simp add: sum_distrib_left mult.assoc)
qed

lemma polyfun_diff [poly_intros]:
  "polyfun n f \<Longrightarrow> polyfun n g \<Longrightarrow> polyfun n (\<lambda>x. f x - g x)"
  using polyfun_add [of n f "\<lambda>x. (-1) * g x"] polyfun_scale [of n g "-1"] by simp

lemma polyfun_mono: "polyfun n f \<Longrightarrow> n \<le> m \<Longrightarrow> polyfun m f"
proof -
  assume f: "polyfun n f" and le: "n \<le> m"
  obtain c where c: "\<forall>x. f x = (\<Sum>i<n. c i * x ^ i)" using f by (auto simp: polyfun_def)
  have "(\<Sum>i<m. (if i < n then c i else 0) * x ^ i) = (\<Sum>i<n. c i * x ^ i)" for x
    using le by (intro sum.mono_neutral_cong_right) auto
  then show "polyfun m f" unfolding polyfun_def using c
    by (intro exI [of _ "\<lambda>i. if i < n then c i else 0"]) simp
qed

lemma polyfun_shift [poly_intros]:
  assumes "polyfun n f"
  shows "polyfun (Suc n) (\<lambda>x. x * f x)"
proof -
  obtain c where c: "\<forall>x. f x = (\<Sum>i<n. c i * x ^ i)" using assms by (auto simp: polyfun_def)
  have "x * f x = (\<Sum>i<Suc n. (case i of 0 \<Rightarrow> 0 | Suc j \<Rightarrow> c j) * x ^ i)" for x
    by (simp add: c sum.lessThan_Suc_shift sum_distrib_left mult.left_commute del: sum.lessThan_Suc)
  then show ?thesis unfolding polyfun_def by blast
qed

lemma polyfun_linear [poly_intros]:
  assumes "polyfun n f"
  shows "polyfun (Suc n) (\<lambda>x. (a - x) * f x)"
proof -
  have "polyfun (Suc n) (\<lambda>x. a * f x - x * f x)"
    using assms by (intro polyfun_diff polyfun_shift) (simp add: polyfun_mono polyfun_scale)
  then show ?thesis by (simp add: left_diff_distrib)
qed

lemma polyfun_sum_list [poly_intros]:
  "(\<And>i. i \<in> set xs \<Longrightarrow> polyfun n (h i)) \<Longrightarrow> polyfun n (\<lambda>x. \<Sum>i\<leftarrow>xs. h i x)"
  by (induction xs) (auto intro: polyfun_add polyfun_zero)

lemma polyfun_prod_linear:
  "polyfun (Suc (length xs)) (\<lambda>x. \<Prod>j\<leftarrow>xs. (j - x) * c j)"
proof (induction xs)
  case Nil
  show ?case by (simp add: polyfun_const)
next
  case (Cons j xs)
  have "polyfun (Suc (Suc (length xs))) (\<lambda>x. c j * ((j - x) * (\<Prod>j\<leftarrow>xs. (j - x) * c j)))"
    using Cons by (intro polyfun_scale polyfun_linear)
  then show ?case by (simp add: mult.assoc mult.left_commute)
qed

lemma polyfun_cases:
  assumes "polyfun (Suc n) f"
  obtains a h where "polyfun n h" "\<And>x. f x = a + x * h x"
proof -
  obtain c where "\<forall>x. f x = (\<Sum>i<Suc n. c i * x ^ i)" using assms by (auto simp: polyfun_def)
  then have "f x = c 0 + x * (\<Sum>i<n. c (Suc i) * x ^ i)" for x
    by (simp add: sum.lessThan_Suc_shift sum_distrib_left mult.left_commute del: sum.lessThan_Suc)
  moreover have "polyfun n (\<lambda>x. \<Sum>i<n. c (Suc i) * x ^ i)"
    unfolding polyfun_def by (rule exI [of _ "\<lambda>i. c (Suc i)"]) simp
  ultimately show ?thesis using that by blast
qed

lemma polyfun_factor:
  "polyfun (Suc n) f \<Longrightarrow> \<exists>g. polyfun n g \<and> (\<forall>x. f x = f r + (x - r) * g x)"
proof (induction n arbitrary: f)
  case 0
  then obtain a where "\<And>x. f x = a"
    by (auto elim!: polyfun_cases simp: polyfun_def)
  then show ?case by (intro exI [of _ "\<lambda>_. 0"]) (simp add: polyfun_zero)
next
  case (Suc n)
  obtain a h where h: "polyfun (Suc n) h" and f: "\<And>x. f x = a + x * h x"
    using polyfun_cases [OF Suc.prems] by metis
  obtain k where k: "polyfun n k" and hk: "\<And>x. h x = h r + (x - r) * k x"
    using Suc.IH [OF h] by blast
  have "polyfun (Suc n) (\<lambda>x. h x + r * k x)"
    using h k by (intro polyfun_add polyfun_scale) (auto intro: polyfun_mono)
  moreover have "f x = f r + (x - r) * (h x + r * k x)" for x
  proof -
    have "h x - h r = (x - r) * k x" using hk [of x] by linarith
    then have "r * (h x - h r) = r * ((x - r) * k x)" by simp
    then show ?thesis by (simp add: f algebra_simps)
  qed
  ultimately show ?case by blast
qed

lemma polyfun_roots:
  assumes "is_prime q"
  shows "polyfun n f \<Longrightarrow> length rs = n \<Longrightarrow> (\<forall>r\<in>set rs. q dvd f r) \<Longrightarrow>
    (\<forall>i<n. \<forall>j<n. i \<noteq> j \<longrightarrow> \<not> q dvd (rs ! i - rs ! j)) \<Longrightarrow> q dvd f x"
proof (induction n arbitrary: f rs x)
  case 0
  then show ?case by (auto simp: polyfun_def)
next
  case (Suc n)
  obtain r rs' where rs: "rs = r # rs'" "length rs' = n" using Suc.prems(2) by (cases rs) auto
  obtain g where g: "polyfun n g" and fg: "\<And>x. f x = f r + (x - r) * g x"
    using polyfun_factor [OF Suc.prems(1)] by blast
  have fr: "q dvd f r" using Suc.prems(3) rs by simp
  have "\<forall>s\<in>set rs'. q dvd g s"
  proof
    fix s assume "s \<in> set rs'"
    then obtain i where i: "i < n" "s = rs' ! i" using rs by (metis in_set_conv_nth)
    have "q dvd f s" using Suc.prems(3) rs \<open>s \<in> set rs'\<close> by simp
    then have "q dvd (s - r) * g s" using fg [of s] fr by (metis dvd_add_right_iff)
    moreover have "\<not> q dvd (s - r)"
      using Suc.prems(4) [rule_format, of "Suc i" 0] i rs by simp
    ultimately show "q dvd g s" using is_prime_dvd_mult [OF assms] by blast
  qed
  moreover have "\<forall>i<n. \<forall>j<n. i \<noteq> j \<longrightarrow> \<not> q dvd (rs' ! i - rs' ! j)"
  proof (intro allI impI)
    fix i j assume "i < n" "j < n" "i \<noteq> j"
    then show "\<not> q dvd (rs' ! i - rs' ! j)"
      using Suc.prems(4) [rule_format, of "Suc i" "Suc j"] rs by simp
  qed
  ultimately have "q dvd g x" using Suc.IH [OF g] rs(2) by blast
  then show ?case using fg [of x] fr by simp
qed

subsection \<open>Interpolation at zero\<close>

definition lagrange_at_0 :: "int \<Rightarrow> int list \<Rightarrow> int \<Rightarrow> int" where
  "lagrange_at_0 q ids i = (\<Prod>j\<leftarrow>filter (\<lambda>j. j \<noteq> i) ids. j * inv_mod (j - i) q)"

lemma prod_list_zero_factor:
  "j \<in> set xs \<Longrightarrow> f j = (0::int) \<Longrightarrow> (\<Prod>j\<leftarrow>xs. f j) = 0"
  by (induction xs) auto

lemma prod_list_one_mod:
  "1 < (q::int) \<Longrightarrow> (\<And>j. j \<in> set xs \<Longrightarrow> f j mod q = 1) \<Longrightarrow> (\<Prod>j\<leftarrow>xs. f j) mod q = 1"
proof (induction xs)
  case (Cons j xs)
  have "(f j * (\<Prod>j\<leftarrow>xs. f j)) mod q = ((f j mod q) * ((\<Prod>j\<leftarrow>xs. f j) mod q)) mod q"
    by (simp add: mod_simps)
  then show ?case using Cons by simp
qed simp

lemma sum_list_single:
  assumes "distinct xs" "a \<in> set xs" "\<And>i. i \<in> set xs \<Longrightarrow> i \<noteq> a \<Longrightarrow> h i = (0::int)"
  shows "(\<Sum>i\<leftarrow>xs. h i) = h a"
proof -
  have "(\<Sum>i\<leftarrow>xs. h i) = (\<Sum>i\<in>set xs. h i)" using assms(1) by (simp add: sum_list_distinct_conv_sum_set)
  also have "\<dots> = (\<Sum>i\<in>{a}. h i)" using assms by (intro sum.mono_neutral_right) auto
  finally show ?thesis by simp
qed

theorem lagrange_interpolation:
  assumes q: "is_prime q" and dist: "distinct ids" and rng: "\<forall>i\<in>set ids. 0 < i \<and> i < q"
    and f: "polyfun n f" and len: "n \<le> length ids"
  shows "(\<Sum>i\<leftarrow>ids. lagrange_at_0 q ids i * f i) mod q = f 0 mod q"
proof -
  define B where "B i x = (\<Prod>j\<leftarrow>filter (\<lambda>j. j \<noteq> i) ids. (j - x) * inv_mod (j - i) q)" for i x
  define F where "F x = (\<Sum>i\<leftarrow>ids. f i * B i x) - f x" for x
  have "polyfun (length ids) (B i)" if "i \<in> set ids" for i
  proof -
    have "length (filter (\<lambda>j. j \<noteq> i) ids) < length ids"
      using that by (intro length_filter_less [of i]) auto
    then show ?thesis unfolding B_def
      using polyfun_mono [OF polyfun_prod_linear] by (simp add: Suc_le_eq)
  qed
  then have pF: "polyfun (length ids) F" unfolding F_def
    using f len by (intro polyfun_diff polyfun_sum_list polyfun_scale) (auto intro: polyfun_mono)
  have root: "q dvd F a" if a: "a \<in> set ids" for a
  proof -
    have "f i * B i a = 0" if "i \<in> set ids" "i \<noteq> a" for i
    proof -
      have "B i a = 0" unfolding B_def by (rule prod_list_zero_factor [of a]) (use a that in auto)
      then show ?thesis by simp
    qed
    then have s: "(\<Sum>i\<leftarrow>ids. f i * B i a) = f a * B a a"
      using sum_list_single [OF dist a, of "\<lambda>i. f i * B i a"] by blast
    have "B a a mod q = 1" unfolding B_def
    proof (rule prod_list_one_mod)
      show "1 < q" using q by (rule is_prime_gt_1)
      fix j assume "j \<in> set (filter (\<lambda>j. j \<noteq> a) ids)"
      then have "\<not> q dvd (j - a)" using rng a by (intro not_dvd_diff_small) auto
      then show "(j - a) * inv_mod (j - a) q mod q = 1" by (rule inv_mod_prime [OF q])
    qed
    then have "(f a * B a a) mod q = f a mod q"
      by (metis mod_mult_right_eq mult.right_neutral)
    then show ?thesis unfolding F_def s by (simp add: mod_eq_dvd_iff)
  qed
  have "q dvd F 0"
  proof (rule polyfun_roots [OF q pF, of ids])
    show "\<forall>i<length ids. \<forall>j<length ids. i \<noteq> j \<longrightarrow> \<not> q dvd (ids ! i - ids ! j)"
    proof (intro allI impI)
      fix i j assume "i < length ids" "j < length ids" "i \<noteq> j"
      then show "\<not> q dvd (ids ! i - ids ! j)"
        using rng dist by (intro not_dvd_diff_small) (auto simp: nth_eq_iff_index_eq)
    qed
  qed (use root in auto)
  moreover have "B i 0 = lagrange_at_0 q ids i" for i by (simp add: B_def lagrange_at_0_def)
  ultimately show ?thesis by (simp add: F_def mod_eq_dvd_iff mult.commute)
qed

lemma sum_list_mod: "(\<Sum>i\<leftarrow>xs. a i mod q) mod q = (\<Sum>i\<leftarrow>xs. a i) mod (q::int)"
  by (induction xs) (simp_all, metis mod_add_eq mod_mod_trivial)

end
