(* ===== verification/QC_Group.thy ===== *)
theory QC_Group
  imports QC_Types QC_Modular
begin

text \<open>
  Group elements and sized integers (\<open>groups/group.rs\<close>, \<open>integers/sizedint.rs\<close> and the
  implementations the crate \<open>quorum_derive\<close> generates for them).

  The curve arithmetic itself is Miracl Core's.  It enters as a record \<open>'p curve_backend\<close> of
  the functions the wrappers call, for points \<open>'p\<close> taken up to their representation;
  \<open>curve_ok\<close> and \<open>pairing_ok\<close> state what the wrappers' callers rely on: a cyclic group of
  prime order, and a non-degenerate bilinear pairing.
\<close>

record 'p curve_backend =
  cb_order :: "group \<Rightarrow> int"
  cb_gen :: "group \<Rightarrow> nat \<Rightarrow> 'p"
  cb_inf :: "group \<Rightarrow> 'p"
  cb_add :: "group \<Rightarrow> nat \<Rightarrow> 'p \<Rightarrow> 'p \<Rightarrow> 'p"
  cb_sub :: "group \<Rightarrow> nat \<Rightarrow> 'p \<Rightarrow> 'p \<Rightarrow> 'p"
  cb_mul :: "group \<Rightarrow> nat \<Rightarrow> 'p \<Rightarrow> int \<Rightarrow> 'p"
  cb_pair :: "group \<Rightarrow> 'p \<Rightarrow> 'p \<Rightarrow> 'p"
  cb_equals :: "group \<Rightarrow> nat \<Rightarrow> 'p \<Rightarrow> 'p \<Rightarrow> bool"
  cb_tobytes :: "group \<Rightarrow> nat \<Rightarrow> 'p \<Rightarrow> bytes"
  cb_frombytes :: "group \<Rightarrow> nat \<Rightarrow> bytes \<Rightarrow> 'p"

subsection \<open>Sized integers\<close>

text \<open>
  A \<open>SizedBigInt\<close> is tagged with its curve; an operation on integers of two curves panics
  (\<open>"Incompatible big integer implementation!"\<close>).
\<close>

datatype sized_big_int = SBI (sb_group: group) (sb_val: int)

fun modbytes :: "group \<Rightarrow> nat" where
  "modbytes Bls12381 = 48"
| "modbytes Bn254 = 32"
| "modbytes Ed25519 = 32"
| "modbytes _ = 0"

definition sb_new_int :: "group \<Rightarrow> int \<Rightarrow> sized_big_int may_panic" where
  "sb_new_int g i = (if is_dl g then Some (SBI g i) else None)"

definition sb_rmod :: "sized_big_int \<Rightarrow> sized_big_int \<Rightarrow> sized_big_int may_panic" where
  "sb_rmod x y = (if sb_group x = sb_group y
                  then Some (SBI (sb_group x) (sb_val x mod sb_val y)) else None)"

definition sb_mul_mod ::
  "sized_big_int \<Rightarrow> sized_big_int \<Rightarrow> sized_big_int \<Rightarrow> sized_big_int may_panic" where
  "sb_mul_mod x y m = (if sb_group x = sb_group y \<and> sb_group x = sb_group m
                       then Some (SBI (sb_group x) ((sb_val x * sb_val y) mod sb_val m)) else None)"

definition sb_add :: "sized_big_int \<Rightarrow> sized_big_int \<Rightarrow> sized_big_int may_panic" where
  "sb_add x y = (if sb_group x = sb_group y
                 then Some (SBI (sb_group x) (sb_val x + sb_val y)) else None)"

definition sb_sub :: "sized_big_int \<Rightarrow> sized_big_int \<Rightarrow> sized_big_int may_panic" where
  "sb_sub x y = (if sb_group x = sb_group y
                 then Some (SBI (sb_group x) (sb_val x - sb_val y)) else None)"

definition sb_inv_mod :: "sized_big_int \<Rightarrow> sized_big_int \<Rightarrow> sized_big_int may_panic" where
  "sb_inv_mod x m = (if sb_group x = sb_group m
                     then Some (SBI (sb_group x) (inv_mod (sb_val x) (sb_val m))) else None)"

definition sb_pow_mod ::
  "sized_big_int \<Rightarrow> sized_big_int \<Rightarrow> sized_big_int \<Rightarrow> sized_big_int may_panic" where
  "sb_pow_mod x y m = (if sb_group x = sb_group y \<and> sb_group x = sb_group m
                       then Some (SBI (sb_group x) ((sb_val x ^ nat (sb_val y)) mod sb_val m))
                       else None)"

definition sb_equals :: "sized_big_int \<Rightarrow> sized_big_int \<Rightarrow> bool" where
  "sb_equals x y = (sb_group x = sb_group y \<and> sb_val x = sb_val y)"

text \<open>
  \<open>BIG::frombytes\<close> reads exactly \<open>MODBYTES\<close> bytes, most significant first; a shorter slice
  is an out-of-bounds read.  \<open>tobytes\<close> writes \<open>MODBYTES\<close> bytes.
\<close>

definition be_value :: "bytes \<Rightarrow> int" where
  "be_value b = foldl (\<lambda>acc c. acc * 256 + uint c) 0 b"

fun be_bytes :: "nat \<Rightarrow> int \<Rightarrow> bytes" where
  "be_bytes 0 v = []"
| "be_bytes (Suc n) v = be_bytes n (v div 256) @ [word_of_int v]"

definition sb_from_bytes :: "group \<Rightarrow> bytes \<Rightarrow> sized_big_int may_panic" where
  "sb_from_bytes g b = (if is_dl g \<and> modbytes g \<le> length b
                        then Some (SBI g (be_value (take (modbytes g) b))) else None)"

definition sb_to_bytes :: "sized_big_int \<Rightarrow> bytes" where
  "sb_to_bytes x = be_bytes (modbytes (sb_group x)) (sb_val x)"

lemmas sb_defs = sb_new_int_def sb_rmod_def sb_mul_mod_def sb_add_def sb_sub_def sb_inv_mod_def
  sb_pow_mod_def sb_equals_def

lemma be_value_snoc: "be_value (b @ [c]) = be_value b * 256 + uint c"
  by (simp add: be_value_def)

lemma length_be_bytes [simp]: "length (be_bytes n v) = n"
  by (induction n arbitrary: v) auto

lemma be_value_be_bytes: "be_value (be_bytes n v) = v mod 256 ^ n"
proof (induction n arbitrary: v)
  case 0
  show ?case by (simp add: be_value_def)
next
  case (Suc n)
  have "be_value (be_bytes (Suc n) v) = (v div 256) mod 256 ^ n * 256 + v mod 256"
    by (simp add: be_value_snoc Suc uint_word_of_int)
  also have "\<dots> = v mod (256 * 256 ^ n)"
    by (simp add: zmod_zmult2_eq)
  finally show ?case by simp
qed

lemma be_value_nonneg: "0 \<le> be_value b"
  by (induction b rule: rev_induct) (simp_all add: be_value_snoc be_value_def [of "[]"])

lemma be_value_less: "be_value b < 256 ^ length b"
proof (induction b rule: rev_induct)
  case (snoc c b)
  have "uint c < 256" using uint_bounded [of c] by simp
  then have "be_value b * 256 + uint c < (be_value b + 1) * 256" by simp
  also have "\<dots> \<le> 256 ^ length b * 256" using snoc by simp
  finally show ?case by (simp add: be_value_snoc mult.commute)
qed (simp add: be_value_def)

lemma sb_bytes_roundtrip:
  assumes "is_dl g" "0 \<le> v" "v < 256 ^ modbytes g"
  shows "sb_from_bytes g (sb_to_bytes (SBI g v)) = Some (SBI g v)"
  using assms by (simp add: sb_from_bytes_def sb_to_bytes_def be_value_be_bytes)

subsection \<open>Group elements\<close>

text \<open>
  A \<open>GroupElement\<close> carries its curve and, for the pairing curves, the index \<open>i\<close> that says
  which member of the union \<open>ECPoint\<close> is in use: 0 for \<open>ECP\<close>, 1 for \<open>ECP2\<close>, 2 for
  \<open>FP12\<close> (always 0 for Ed25519).  Two elements of different curves make an operation panic;
  reading the union at the wrong member has no defined result and is \<open>None\<close> too.
\<close>

datatype 'p group_element = GE (ge_group: group) (ge_i: nat) (ge_val: 'p)

definition ge_get_order :: "'p curve_backend \<Rightarrow> 'p group_element \<Rightarrow> sized_big_int" where
  "ge_get_order B x = SBI (ge_group x) (cb_order B (ge_group x))"

definition group_get_order :: "'p curve_backend \<Rightarrow> group \<Rightarrow> sized_big_int may_panic" where
  "group_get_order B g = (if is_dl g then Some (SBI g (cb_order B g)) else None)"

definition ge_new :: "'p curve_backend \<Rightarrow> group \<Rightarrow> 'p group_element may_panic" where
  "ge_new B g = (if is_dl g then Some (GE g 0 (cb_gen B g 0)) else None)"

definition ge_identity :: "'p curve_backend \<Rightarrow> group \<Rightarrow> 'p group_element may_panic" where
  "ge_identity B g = (if is_dl g then Some (GE g 0 (cb_inf B g)) else None)"

definition ge_new_ecp2 :: "'p curve_backend \<Rightarrow> group \<Rightarrow> 'p group_element may_panic" where
  "ge_new_ecp2 B g = (if supports_pairings g then Some (GE g 1 (cb_gen B g 1)) else None)"

definition ge_pow ::
  "'p curve_backend \<Rightarrow> 'p group_element \<Rightarrow> sized_big_int \<Rightarrow> 'p group_element may_panic" where
  "ge_pow B x e = (if sb_group e = ge_group x \<and> ge_i x \<le> 2
                   then Some (GE (ge_group x) (ge_i x)
                                 (cb_mul B (ge_group x) (ge_i x) (ge_val x) (sb_val e)))
                   else None)"

definition ge_new_pow_big ::
  "'p curve_backend \<Rightarrow> group \<Rightarrow> sized_big_int \<Rightarrow> 'p group_element may_panic" where
  "ge_new_pow_big B g e = (if is_dl g \<and> sb_group e = g
                           then Some (GE g 0 (cb_mul B g 0 (cb_gen B g 0) (sb_val e))) else None)"

definition ge_new_pow_big_ecp2 ::
  "'p curve_backend \<Rightarrow> group \<Rightarrow> sized_big_int \<Rightarrow> 'p group_element may_panic" where
  "ge_new_pow_big_ecp2 B g e = (if supports_pairings g \<and> sb_group e = g
                                then Some (GE g 1 (cb_mul B g 1 (cb_gen B g 1) (sb_val e)))
                                else None)"

definition ge_mul ::
  "'p curve_backend \<Rightarrow> 'p group_element \<Rightarrow> 'p group_element \<Rightarrow> 'p group_element may_panic" where
  "ge_mul B x y = (if ge_group x = ge_group y \<and> ge_i x = ge_i y \<and> ge_i x \<le> 2
                   then Some (GE (ge_group x) (ge_i x)
                                 (cb_add B (ge_group x) (ge_i x) (ge_val x) (ge_val y)))
                   else None)"

definition ge_div ::
  "'p curve_backend \<Rightarrow> 'p group_element \<Rightarrow> 'p group_element \<Rightarrow> 'p group_element may_panic" where
  "ge_div B x y = (if ge_group x = ge_group y \<and> ge_i x = ge_i y \<and> ge_i x \<le> 1
                   then Some (GE (ge_group x) (ge_i x)
                                 (cb_sub B (ge_group x) (ge_i x) (ge_val x) (ge_val y)))
                   else None)"

definition ge_equals ::
  "'p curve_backend \<Rightarrow> 'p group_element \<Rightarrow> 'p group_element \<Rightarrow> bool" where
  "ge_equals B x y = (ge_group x = ge_group y \<and> ge_i x = ge_i y
                      \<and> cb_equals B (ge_group x) (ge_i x) (ge_val x) (ge_val y))"

definition ge_to_bytes :: "'p curve_backend \<Rightarrow> 'p group_element \<Rightarrow> bytes may_panic" where
  "ge_to_bytes B x = (if ge_i x \<le> 1 then Some (cb_tobytes B (ge_group x) (ge_i x) (ge_val x))
                      else None)"

text \<open>
  The decoders \<open>ECP::frombytes\<close>, \<open>ECP2::frombytes\<close> and \<open>FP12::frombytes\<close> index the slice
  without looking at its length.  \<open>ECP\<close> reads a tag and one coordinate and, for the tag 4 and
  a first coordinate below the field's modulus, a second one; \<open>ECP2\<close> reads a tag and one pair
  of coordinates and, for the tag 4, a second pair; \<open>FP12\<close> reads twelve coordinates.  A slice
  that ends before what is read makes them panic.  What they return for the bytes read is the
  backend's.
\<close>

fun field_modulus :: "group \<Rightarrow> int" where
  "field_modulus Bls12381 = 0x1a0111ea397fe69a4b1ba7b6434bacd764774b84f38512bf6730d2a0f6b0f6241eabfffeb153ffffb9feffffffffaaab"
| "field_modulus Bn254 = 0x2523648240000001ba344d80000000086121000000000013a700000000000013"
| "field_modulus Ed25519 = 0x7fffffffffffffffffffffffffffffffffffffffffffffffffffffffffffffed"
| "field_modulus _ = 0"

definition point_bytes_read :: "group \<Rightarrow> nat \<Rightarrow> bytes \<Rightarrow> nat" where
  "point_bytes_read g i b =
     (let m = modbytes g in
      if i = 0 then (if b \<noteq> [] \<and> hd b = 4 \<and> m < length b \<and> be_value (take m (tl b)) < field_modulus g
                     then 2 * m + 1 else m + 1)
      else if i = 1 then (if b \<noteq> [] \<and> hd b = 4 then 4 * m + 1 else 2 * m + 1)
      else 12 * m)"

definition ge_from_bytes ::
  "'p curve_backend \<Rightarrow> bytes \<Rightarrow> group \<Rightarrow> nat option \<Rightarrow> 'p group_element may_panic" where
  "ge_from_bytes B b g i =
     (let j = (if supports_pairings g then (case i of None \<Rightarrow> 0 | Some k \<Rightarrow> k) else 0) in
      if is_dl g \<and> j \<le> 2 \<and> point_bytes_read g j b \<le> length b
      then Some (GE g j (cb_frombytes B g j b)) else None)"

text \<open>
  \<open>ddh(x, y, z, w)\<close> compares the pairings of \<open>(x, y)\<close> and \<open>(z, w)\<close>; it panics without a
  pairing curve or on mixed curves, and is an error when the elements are on the wrong side.
\<close>

definition ge_ddh ::
  "'p curve_backend \<Rightarrow> 'p group_element \<Rightarrow> 'p group_element \<Rightarrow> 'p group_element \<Rightarrow>
   'p group_element \<Rightarrow> (scheme_error + bool) may_panic" where
  "ge_ddh B x y z w =
     (let g = ge_group x in
      if \<not> supports_pairings g then None
      else if \<not> (ge_group x = ge_group y \<and> ge_group y = ge_group z \<and> ge_group z = ge_group w) then None
      else if ge_i x \<noteq> 1 \<or> ge_i y \<noteq> 0 \<or> ge_i z \<noteq> 1 \<or> ge_i w \<noteq> 0 then Some (Err WrongGroup)
      else Some (Ok (cb_equals B g 2 (cb_pair B g (ge_val x) (ge_val y))
                                     (cb_pair B g (ge_val z) (ge_val w)))))"

subsection \<open>What the schemes rely on\<close>

definition curve_ok :: "'p curve_backend \<Rightarrow> group \<Rightarrow> nat \<Rightarrow> bool" where
  "curve_ok B g i =
     (let q = cb_order B g; P = cb_mul B g i (cb_gen B g i) in
      is_prime q \<and> is_dl g \<and> i \<le> 1 \<and> (i = 1 \<longrightarrow> supports_pairings g)
      \<and> P 1 = cb_gen B g i \<and> (i = 0 \<longrightarrow> P 0 = cb_inf B g)
      \<and> (\<forall>a b. 0 \<le> a \<longrightarrow> 0 \<le> b \<longrightarrow> cb_mul B g i (P a) b = P (a * b))
      \<and> (\<forall>a b. 0 \<le> a \<longrightarrow> 0 \<le> b \<longrightarrow> cb_add B g i (P a) (P b) = P (a + b))
      \<and> (\<forall>a b. 0 \<le> a \<longrightarrow> 0 \<le> b \<longrightarrow> cb_sub B g i (P a) (P b) = P ((a - b) mod q))
      \<and> (\<forall>a b. 0 \<le> a \<longrightarrow> 0 \<le> b \<longrightarrow> (P a = P b \<longleftrightarrow> a mod q = b mod q))
      \<and> (\<forall>x y. cb_equals B g i x y \<longleftrightarrow> x = y)
      \<and> (\<forall>x. length (cb_tobytes B g i x) = (2 + 2 * i) * modbytes g + 1))"

text \<open>Reading back the encoding of a multiple of the generator.\<close>

definition point_codec_ok :: "'p curve_backend \<Rightarrow> group \<Rightarrow> nat \<Rightarrow> bool" where
  "point_codec_ok B g i =
     (\<forall>e. 0 \<le> e \<longrightarrow> (let P = cb_mul B g i (cb_gen B g i) e in
        cb_frombytes B g i (cb_tobytes B g i P) = P))"

definition pairing_ok :: "'p curve_backend \<Rightarrow> group \<Rightarrow> bool" where
  "pairing_ok B g =
     (let q = cb_order B g; P = cb_mul B g 0 (cb_gen B g 0); Q = cb_mul B g 1 (cb_gen B g 1) in
      supports_pairings g
      \<and> (\<forall>a b c d. 0 \<le> a \<longrightarrow> 0 \<le> b \<longrightarrow> 0 \<le> c \<longrightarrow> 0 \<le> d \<longrightarrow>
           (cb_equals B g 2 (cb_pair B g (Q a) (P b)) (cb_pair B g (Q c) (P d))
            \<longleftrightarrow> (a * b) mod q = (c * d) mod q)))"

text \<open>The power \<open>e\<close> of the generator \<open>i\<close> of the group; every element an honest party makes.\<close>

definition gpow :: "'p curve_backend \<Rightarrow> group \<Rightarrow> nat \<Rightarrow> int \<Rightarrow> 'p group_element" where
  "gpow B g i e = GE g i (cb_mul B g i (cb_gen B g i) (e mod cb_order B g))"

text \<open>
  The cyclic subgroup that the generator spans.  The decoders check that a point is on the curve;
  nothing in the program checks that a received point of the second pairing group is in this
  subgroup.
\<close>

definition in_subgroup :: "'p curve_backend \<Rightarrow> group \<Rightarrow> nat \<Rightarrow> 'p group_element \<Rightarrow> bool" where
  "in_subgroup B g i x \<longleftrightarrow> (\<exists>a. x = gpow B g i a)"

lemma in_subgroup_gpow [simp]: "in_subgroup B g i (gpow B g i a)"
  by (auto simp: in_subgroup_def)

lemma in_subgroup_sel: "in_subgroup B g i x \<Longrightarrow> ge_group x = g \<and> ge_i x = i"
  by (auto simp: in_subgroup_def gpow_def)

lemma curve_ok_prime: "curve_ok B g i \<Longrightarrow> is_prime (cb_order B g)"
  by (simp add: curve_ok_def Let_def)

lemma curve_ok_pos: "curve_ok B g i \<Longrightarrow> 0 < cb_order B g"
  using curve_ok_prime is_prime_gt_1 by fastforce

lemma curve_ok_dl: "curve_ok B g i \<Longrightarrow> is_dl g \<and> i \<le> 1 \<and> (i = 1 \<longrightarrow> supports_pairings g)"
  by (simp add: curve_ok_def Let_def)

lemma gpow_sel [simp]: "ge_group (gpow B g i e) = g" "ge_i (gpow B g i e) = i"
  by (simp_all add: gpow_def)

lemma curve_ok_mul_gen:
  assumes "curve_ok B g i" "0 \<le> e"
  shows "GE g i (cb_mul B g i (cb_gen B g i) e) = gpow B g i e"
  using assms curve_ok_pos [OF assms(1)] by (simp add: gpow_def curve_ok_def Let_def)

lemma gpow_eq_iff:
  assumes "curve_ok B g i"
  shows "gpow B g i a = gpow B g i b \<longleftrightarrow> a mod cb_order B g = b mod cb_order B g"
  using assms curve_ok_pos [OF assms] by (simp add: gpow_def curve_ok_def Let_def)

lemma gpow_cong: "a mod cb_order B g = b mod cb_order B g \<Longrightarrow> gpow B g i a = gpow B g i b"
  by (simp add: gpow_def)

lemma gpow_mod [ge_simps]: "gpow B g i (a mod cb_order B g) = gpow B g i a"
  by (simp add: gpow_def)

lemma ge_new_gpow [ge_simps]: "curve_ok B g 0 \<Longrightarrow> ge_new B g = Some (gpow B g 0 1)"
  using curve_ok_mul_gen [of B g 0 1] by (simp add: ge_new_def curve_ok_def Let_def)

lemma ge_identity_gpow [ge_simps]: "curve_ok B g 0 \<Longrightarrow> ge_identity B g = Some (gpow B g 0 0)"
  using curve_ok_mul_gen [of B g 0 0] by (simp add: ge_identity_def curve_ok_def Let_def)

lemma ge_new_ecp2_gpow [ge_simps]: "curve_ok B g 1 \<Longrightarrow> ge_new_ecp2 B g = Some (gpow B g 1 1)"
  using curve_ok_mul_gen [of B g 1 1] by (simp add: ge_new_ecp2_def curve_ok_def Let_def)

lemma ge_new_pow_big_gpow [ge_simps]:
  "curve_ok B g 0 \<Longrightarrow> 0 \<le> e \<Longrightarrow> ge_new_pow_big B g (SBI g e) = Some (gpow B g 0 e)"
  using curve_ok_mul_gen [of B g 0 e] curve_ok_dl [of B g 0] by (simp add: ge_new_pow_big_def)

lemma ge_new_pow_big_ecp2_gpow [ge_simps]:
  "curve_ok B g 1 \<Longrightarrow> 0 \<le> e \<Longrightarrow> ge_new_pow_big_ecp2 B g (SBI g e) = Some (gpow B g 1 e)"
  using curve_ok_mul_gen [of B g 1 e] curve_ok_dl [of B g 1]
  by (simp add: ge_new_pow_big_ecp2_def)

lemma ge_pow_gpow [ge_simps]:
  assumes "curve_ok B g i" "0 \<le> e"
  shows "ge_pow B (gpow B g i a) (SBI g e) = Some (gpow B g i (a * e))"
proof -
  let ?q = "cb_order B g"
  have "cb_mul B g i (cb_mul B g i (cb_gen B g i) (a mod ?q)) e
        = cb_mul B g i (cb_gen B g i) (a mod ?q * e)"
    using assms curve_ok_pos [OF assms(1)] by (simp add: curve_ok_def Let_def)
  moreover have "GE g i (cb_mul B g i (cb_gen B g i) (a mod ?q * e)) = gpow B g i (a mod ?q * e)"
    using assms curve_ok_pos [OF assms(1)] by (intro curve_ok_mul_gen) auto
  ultimately show ?thesis using curve_ok_dl [OF assms(1)]
    by (simp add: ge_pow_def gpow_def mod_mult_left_eq)
qed

lemma ge_mul_gpow [ge_simps]:
  assumes "curve_ok B g i"
  shows "ge_mul B (gpow B g i a) (gpow B g i b) = Some (gpow B g i (a + b))"
proof -
  let ?q = "cb_order B g" and ?P = "cb_mul B g i (cb_gen B g i)"
  have "cb_add B g i (?P (a mod ?q)) (?P (b mod ?q)) = ?P (a mod ?q + b mod ?q)"
    using assms curve_ok_pos [OF assms] by (simp add: curve_ok_def Let_def)
  moreover have "GE g i (?P (a mod ?q + b mod ?q)) = gpow B g i (a mod ?q + b mod ?q)"
    using assms curve_ok_pos [OF assms] by (intro curve_ok_mul_gen) auto
  ultimately show ?thesis using curve_ok_dl [OF assms]
    by (simp add: ge_mul_def gpow_def mod_add_eq)
qed

lemma ge_div_gpow [ge_simps]:
  assumes "curve_ok B g i"
  shows "ge_div B (gpow B g i a) (gpow B g i b) = Some (gpow B g i (a - b))"
proof -
  let ?q = "cb_order B g" and ?P = "cb_mul B g i (cb_gen B g i)"
  have "cb_sub B g i (?P (a mod ?q)) (?P (b mod ?q)) = ?P ((a mod ?q - b mod ?q) mod ?q)"
    using assms curve_ok_pos [OF assms] by (simp add: curve_ok_def Let_def)
  then show ?thesis using curve_ok_dl [OF assms]
    by (simp add: ge_div_def gpow_def mod_diff_eq)
qed

lemma ge_equals_iff [ge_simps]:
  "curve_ok B g i \<Longrightarrow> ge_group x = g \<Longrightarrow> ge_i x = i \<Longrightarrow> ge_equals B x y \<longleftrightarrow> x = y"
  by (cases x; cases y) (auto simp: ge_equals_def curve_ok_def Let_def)

lemma ge_ddh_gpow [ge_simps]:
  assumes "curve_ok B g 0" "curve_ok B g 1" "pairing_ok B g"
  shows "ge_ddh B (gpow B g 1 a) (gpow B g 0 b) (gpow B g 1 c) (gpow B g 0 d)
         = Some (Ok ((a * b) mod cb_order B g = (c * d) mod cb_order B g))"
  using assms curve_ok_pos [OF assms(1)]
  by (simp add: ge_ddh_def gpow_def pairing_ok_def Let_def mod_mult_left_eq mod_mult_right_eq)

lemma ge_to_bytes_gpow [ge_simps]:
  "curve_ok B g i \<Longrightarrow> ge_to_bytes B (gpow B g i a)
     = Some (cb_tobytes B g i (ge_val (gpow B g i a)))"
  using curve_ok_dl [of B g i] by (simp add: ge_to_bytes_def)

lemma length_to_bytes_gpow:
  "curve_ok B g i \<Longrightarrow> length (cb_tobytes B g i x) = (2 + 2 * i) * modbytes g + 1"
  by (simp add: curve_ok_def Let_def)

lemma is_dl_modbytes: "is_dl g \<Longrightarrow> 32 \<le> modbytes g"
  by (cases g) auto

lemma point_bytes_read_le: "i \<le> 1 \<Longrightarrow> point_bytes_read g i b \<le> (2 + 2 * i) * modbytes g + 1"
  by (auto simp: point_bytes_read_def Let_def le_Suc_eq)

lemma point_bytes_read_to_bytes:
  assumes "curve_ok B g i"
  shows "point_bytes_read g i (cb_tobytes B g i x) \<le> length (cb_tobytes B g i x)"
  using point_bytes_read_le curve_ok_dl [OF assms] length_to_bytes_gpow [OF assms] by simp

lemma ge_from_bytes_short:
  "length b \<le> modbytes g \<Longrightarrow> ge_from_bytes B b g i = None"
  by (cases g) (auto simp: ge_from_bytes_def point_bytes_read_def Let_def)

lemma ge_from_to_bytes_gpow:
  assumes "curve_ok B g i" "point_codec_ok B g i"
  shows "ge_from_bytes B (cb_tobytes B g i (ge_val (gpow B g i e))) g (Some i) = Some (gpow B g i e)"
    "i = 0 \<Longrightarrow> ge_from_bytes B (cb_tobytes B g i (ge_val (gpow B g i e))) g None = Some (gpow B g i e)"
  using assms curve_ok_dl [OF assms(1)] curve_ok_pos [OF assms(1)] point_bytes_read_to_bytes [OF assms(1)]
  by (auto simp: ge_from_bytes_def gpow_def point_codec_ok_def Let_def le_Suc_eq)

subsection \<open>A backend that satisfies the laws\<close>

text \<open>
  The integers modulo 11 under addition, with multiplication as the pairing, meet every law
  above for each curve tag; the witnesses of the schemes' theorems run on it.
\<close>

definition z11_backend :: "int curve_backend" where
  "z11_backend = \<lparr>cb_order = (\<lambda>_. 11), cb_gen = (\<lambda>_ _. 1), cb_inf = (\<lambda>_. 0),
     cb_add = (\<lambda>_ _ x y. (x + y) mod 11), cb_sub = (\<lambda>_ _ x y. (x - y) mod 11),
     cb_mul = (\<lambda>_ _ x e. (x * e) mod 11), cb_pair = (\<lambda>_ x y. (x * y) mod 11),
     cb_equals = (\<lambda>_ _ x y. x = y),
     cb_tobytes = (\<lambda>g i x. be_bytes ((2 + 2 * i) * modbytes g + 1) x),
     cb_frombytes = (\<lambda>_ _ b. be_value b)\<rparr>"

lemma z11_order [simp]: "cb_order z11_backend g = 11"
  by (simp add: z11_backend_def)

lemma is_prime_11: "is_prime 11"
  by code_simp

lemma z11_curve_ok:
  assumes "is_dl g" "i \<le> 1" "i = 1 \<longrightarrow> supports_pairings g"
  shows "curve_ok z11_backend g i"
  using assms is_prime_11
  by (simp add: curve_ok_def Let_def z11_backend_def mod_mult_left_eq mod_add_eq mod_diff_eq)

lemma z11_pairing_ok: "supports_pairings g \<Longrightarrow> pairing_ok z11_backend g"
  by (simp add: pairing_ok_def Let_def z11_backend_def mod_mult_eq)

lemma z11_point_codec_ok:
  assumes "is_dl g"
  shows "point_codec_ok z11_backend g i"
proof -
  have "(256::int) ^ 1 \<le> 256 ^ ((2 + 2 * i) * modbytes g + 1)"
    by (rule power_increasing) simp_all
  then have "(x mod 11) mod 256 ^ ((2 + 2 * i) * modbytes g + 1) = x mod 11" for x :: int
    by (intro mod_pos_pos_trivial) (simp, smt (verit) pos_mod_bound power_one_right)
  then show ?thesis by (simp add: point_codec_ok_def z11_backend_def Let_def be_value_be_bytes
    del: be_bytes.simps)
qed

lemmas z11_ok = z11_curve_ok z11_pairing_ok z11_point_codec_ok

end
