(* ===== verification/QC_Hash256.thy ===== *)
theory QC_Hash256
  imports QC_Prelude
begin

text \<open>
  The hash function every scheme uses, \<open>HASH256\<close> of \<open>mcore/src/hash256.rs\<close>: a byte-at-a-time
  SHA-256 over 32-bit words, all of whose additions wrap around.

  The loop of \<open>hash\<close> that pads the last block runs on fuel; \<open>pad_zeros_total\<close> shows that 64
  steps are enough from every state the public operations reach, so \<open>hash\<close> always returns.
\<close>

unbundle bit_operations_syntax

record hash_state =
  hs_length0 :: u32
  hs_length1 :: u32
  hs_h :: "u32 list"
  hs_w :: "u32 list"

definition HASH256_H :: "u32 list" where
  "HASH256_H = [0x6A09E667, 0xBB67AE85, 0x3C6EF372, 0xA54FF53A,
                0x510E527F, 0x9B05688C, 0x1F83D9AB, 0x5BE0CD19]"

definition HASH256_K :: "u32 list" where
  "HASH256_K = concat [
    [0x428a2f98, 0x71374491, 0xb5c0fbcf, 0xe9b5dba5],
    [0x3956c25b, 0x59f111f1, 0x923f82a4, 0xab1c5ed5],
    [0xd807aa98, 0x12835b01, 0x243185be, 0x550c7dc3],
    [0x72be5d74, 0x80deb1fe, 0x9bdc06a7, 0xc19bf174],
    [0xe49b69c1, 0xefbe4786, 0x0fc19dc6, 0x240ca1cc],
    [0x2de92c6f, 0x4a7484aa, 0x5cb0a9dc, 0x76f988da],
    [0x983e5152, 0xa831c66d, 0xb00327c8, 0xbf597fc7],
    [0xc6e00bf3, 0xd5a79147, 0x06ca6351, 0x14292967],
    [0x27b70a85, 0x2e1b2138, 0x4d2c6dfc, 0x53380d13],
    [0x650a7354, 0x766a0abb, 0x81c2c92e, 0x92722c85],
    [0xa2bfe8a1, 0xa81a664b, 0xc24b8b70, 0xc76c51a3],
    [0xd192e819, 0xd6990624, 0xf40e3585, 0x106aa070],
    [0x19a4c116, 0x1e376c08, 0x2748774c, 0x34b0bcb5],
    [0x391c0cb3, 0x4ed8aa4a, 0x5b9cca4f, 0x682e6ff3],
    [0x748f82ee, 0x78a5636f, 0x84c87814, 0x8cc70208],
    [0x90befffa, 0xa4506ceb, 0xbef9a3f7, 0xc67178f2]]"

definition hash_s :: "nat \<Rightarrow> u32 \<Rightarrow> u32" where
  "hash_s n x = (drop_bit n x OR push_bit (32 - n) x)"

definition hash_r :: "nat \<Rightarrow> u32 \<Rightarrow> u32" where
  "hash_r n x = drop_bit n x"

definition hash_ch :: "u32 \<Rightarrow> u32 \<Rightarrow> u32 \<Rightarrow> u32" where
  "hash_ch x y z = ((x AND y) XOR (NOT x AND z))"

definition hash_maj :: "u32 \<Rightarrow> u32 \<Rightarrow> u32 \<Rightarrow> u32" where
  "hash_maj x y z = ((x AND y) XOR (x AND z) XOR (y AND z))"

definition hash_sig0 :: "u32 \<Rightarrow> u32" where
  "hash_sig0 x = (hash_s 2 x XOR hash_s 13 x XOR hash_s 22 x)"

definition hash_sig1 :: "u32 \<Rightarrow> u32" where
  "hash_sig1 x = (hash_s 6 x XOR hash_s 11 x XOR hash_s 25 x)"

definition hash_theta0 :: "u32 \<Rightarrow> u32" where
  "hash_theta0 x = (hash_s 7 x XOR hash_s 18 x XOR hash_r 3 x)"

definition hash_theta1 :: "u32 \<Rightarrow> u32" where
  "hash_theta1 x = (hash_s 17 x XOR hash_s 19 x XOR hash_r 10 x)"

text \<open>The message schedule fills \<open>w[16..64]\<close>; a round updates the eight working variables.\<close>

definition schedule_step :: "u32 list \<Rightarrow> nat \<Rightarrow> u32 list" where
  "schedule_step w j =
     w[j := hash_theta1 (w ! (j - 2)) + w ! (j - 7) + hash_theta0 (w ! (j - 15)) + w ! (j - 16)]"

definition hash_round :: "u32 list \<Rightarrow> u32 list \<Rightarrow> nat \<Rightarrow> u32 list" where
  "hash_round w v j =
     (let a = v ! 0; b = v ! 1; c = v ! 2; d = v ! 3; e = v ! 4; f = v ! 5; g = v ! 6; hh = v ! 7;
          t1 = hh + hash_sig1 e + hash_ch e f g + HASH256_K ! j + w ! j;
          t2 = hash_sig0 a + hash_maj a b c
      in [t1 + t2, a, b, c, d + t1, e, f, g])"

definition transform :: "hash_state \<Rightarrow> hash_state" where
  "transform s =
     (let w = foldl schedule_step (hs_w s) [16..<64];
          v = foldl (hash_round w) (hs_h s) [0..<64]
      in s\<lparr>hs_w := w, hs_h := map2 (+) (hs_h s) v\<rparr>)"

definition hash_init :: hash_state where
  "hash_init = \<lparr>hs_length0 = 0, hs_length1 = 0, hs_h = HASH256_H, hs_w = replicate 64 0\<rparr>"

definition process :: "hash_state \<Rightarrow> u8 \<Rightarrow> hash_state" where
  "process s byt =
     (let cnt = unat (hs_length0 s div 32 mod 16);
          w = (hs_w s)[cnt := push_bit 8 (hs_w s ! cnt) OR ucast byt];
          len0 = hs_length0 s + 8;
          s1 = s\<lparr>hs_w := w, hs_length0 := len0,
                 hs_length1 := (if len0 = 0 then hs_length1 s + 1 else hs_length1 s)\<rparr>
      in if len0 mod 512 = 0 then transform s1 else s1)"

definition process_array :: "hash_state \<Rightarrow> bytes \<Rightarrow> hash_state" where
  "process_array s b = foldl process s b"

fun pad_zeros :: "nat \<Rightarrow> hash_state \<Rightarrow> hash_state option" where
  "pad_zeros fuel s =
     (if hs_length0 s mod 512 = 448 then Some s
      else case fuel of 0 \<Rightarrow> None | Suc n \<Rightarrow> pad_zeros n (process s 0))"

declare pad_zeros.simps [simp del]

definition digest_byte :: "u32 list \<Rightarrow> nat \<Rightarrow> u8" where
  "digest_byte h i = ucast (drop_bit (8 * (3 - i mod 4)) (h ! (i div 4)) AND 0xff)"

text \<open>\<open>hash\<close> returns the digest and leaves the state freshly initialised.\<close>

definition hash :: "hash_state \<Rightarrow> (bytes \<times> hash_state) option" where
  "hash s = do {
     s1 \<leftarrow> pad_zeros 64 (process s 0x80);
     let s2 = transform (s1\<lparr>hs_w := (hs_w s1)[14 := hs_length1 s, 15 := hs_length0 s]\<rparr>);
     Some (map (digest_byte (hs_h s2)) [0..<32], hash_init)
   }"

definition hash256 :: "bytes \<Rightarrow> bytes option" where
  "hash256 b = map_option fst (hash (process_array hash_init b))"

subsection \<open>The hash always returns 32 bytes\<close>

definition hash_wf :: "hash_state \<Rightarrow> bool" where
  "hash_wf s = (hs_length0 s mod 8 = 0 \<and> length (hs_h s) = 8 \<and> length (hs_w s) = 64)"

lemma length_schedule [simp]: "length (foldl schedule_step w js) = length w"
  by (induction js arbitrary: w) (simp_all add: schedule_step_def)

lemma length_hash_round [simp]: "length (hash_round w v j) = 8"
  by (simp add: hash_round_def Let_def)

lemma length_rounds [simp]: "length v = 8 \<Longrightarrow> length (foldl (hash_round w) v js) = 8"
  by (induction js arbitrary: v) simp_all

lemma transform_sel [simp]:
  "hs_length0 (transform s) = hs_length0 s" "hs_length1 (transform s) = hs_length1 s"
  "length (hs_w (transform s)) = length (hs_w s)"
  "length (hs_h s) = 8 \<Longrightarrow> length (hs_h (transform s)) = 8"
  by (simp_all add: transform_def Let_def del: upt_rec_numeral upt_conv_Cons_Cons)

lemma process_length0 [simp]: "hs_length0 (process s b) = hs_length0 s + 8"
  by (simp add: process_def Let_def)

lemma u32_mod_add:
  fixes x y :: u32 and m :: nat
  assumes "m dvd 2 ^ 32" "m < 2 ^ 32" "0 < m"
  shows "unat ((x + y) mod of_nat m) = (unat x + unat y) mod m"
proof -
  have m: "unat (of_nat m :: u32) = m" using assms by (simp add: unat_of_nat)
  have "unat ((x + y) mod of_nat m) = (unat x + unat y) mod 2 ^ 32 mod m"
    by (simp add: unat_mod m unat_word_ariths)
  then show ?thesis using assms by (simp add: mod_mod_cancel)
qed

lemma process_wf: "hash_wf s \<Longrightarrow> hash_wf (process s b)"
proof -
  assume wf: "hash_wf s"
  have "unat (hs_length0 s mod of_nat 8) = 0" using wf by (simp add: hash_wf_def)
  then have "unat ((hs_length0 s + 8) mod of_nat 8) = 0"
    using u32_mod_add [of 8 "hs_length0 s" 8] by (simp add: unat_mod)
  then have "(hs_length0 s + 8) mod 8 = 0" by (simp add: unat_eq_0)
  then show ?thesis using wf by (auto simp: hash_wf_def process_def Let_def)
qed

lemma process_array_wf: "hash_wf s \<Longrightarrow> hash_wf (process_array s b)"
  unfolding process_array_def by (induction b arbitrary: s) (simp_all add: process_wf)

lemma hash_init_wf: "hash_wf hash_init"
  by (simp add: hash_wf_def hash_init_def HASH256_H_def)

lemma pad_distance_0:
  fixes l :: nat
  assumes "l < 512" "(448 + 512 - l) mod 512 = 0"
  shows "l = 448"
proof (cases "l \<le> 448")
  case True
  then have e: "448 + 512 - l = (448 - l) + 512" by simp
  have "(448 + 512 - l) mod 512 = 448 - l" unfolding e by simp
  then show ?thesis using assms True by simp
next
  case False
  then show ?thesis using assms by simp
qed

lemma pad_distance_step:
  fixes l n :: nat
  assumes "l < 512" "l mod 8 = 0" "l \<noteq> 448" "(448 + 512 - l) mod 512 \<le> 8 * Suc n"
  shows "(448 + 512 - (l + 8) mod 512) mod 512 \<le> 8 * n"
proof -
  obtain m where l: "l = 8 * m" using assms(2) by (auto simp: mod_eq_0_iff_dvd)
  consider "m < 56" | "56 < m" "m < 63" | "m = 63" using assms l by linarith
  then show ?thesis
  proof cases
    case 1
    have e: "960 - 8 * m = (448 - 8 * m) + 512" "952 - 8 * m = (440 - 8 * m) + 512"
      using 1 by simp_all
    have "(960 - 8 * m) mod 512 = 448 - 8 * m" "(952 - 8 * m) mod 512 = 440 - 8 * m"
      unfolding e by simp_all
    then show ?thesis using assms(4) 1 l by simp
  next
    case 2
    then have "(960 - 8 * m) mod 512 = 960 - 8 * m" "(952 - 8 * m) mod 512 = 952 - 8 * m"
      by simp_all
    then show ?thesis using assms(4) 2 l by simp
  next
    case 3
    then show ?thesis using assms(4) l by simp
  qed
qed

lemma pad_zeros_total:
  assumes "hash_wf s" "(448 + 512 - unat (hs_length0 s mod 512)) mod 512 \<le> 8 * fuel"
  shows "\<exists>s'. pad_zeros fuel s = Some s' \<and> hash_wf s' \<and> hs_length0 s' mod 512 = 448"
  using assms
proof (induction fuel arbitrary: s)
  case 0
  have "unat (hs_length0 s mod 512) < 512"
    using word_mod_less_divisor [of 512 "hs_length0 s"] by (simp add: word_less_nat_alt)
  then have "unat (hs_length0 s mod 512) = 448" using pad_distance_0 0(2) by simp
  then have "hs_length0 s mod 512 = 448" by (simp add: word_unat_eq_iff)
  then show ?case using 0 by (simp add: pad_zeros.simps)
next
  case (Suc n)
  show ?case
  proof (cases "hs_length0 s mod 512 = 448")
    case True
    then show ?thesis using Suc.prems by (simp add: pad_zeros.simps)
  next
    case False
    let ?l = "unat (hs_length0 s mod 512)"
    have l512: "?l < 512"
      using word_mod_less_divisor [of 512 "hs_length0 s"] by (simp add: word_less_nat_alt)
    have ne: "?l \<noteq> 448" using False by (auto simp: word_unat_eq_iff)
    have "unat (hs_length0 s) mod 8 = 0"
      using Suc.prems(1) unat_mod [of "hs_length0 s" 8] by (simp add: hash_wf_def)
    moreover have lm: "?l = unat (hs_length0 s) mod 512" by (simp add: unat_mod)
    ultimately have d8: "?l mod 8 = 0" by (simp add: mod_mod_cancel)
    have "unat ((hs_length0 s + 8) mod 512) = (?l + 8) mod 512"
      using u32_mod_add [of 512 "hs_length0 s" 8] lm by (simp add: mod_add_left_eq)
    then have "(448 + 512 - unat ((hs_length0 s + 8) mod 512)) mod 512 \<le> 8 * n"
      using pad_distance_step [OF l512 d8 ne Suc.prems(2)] by simp
    then have "\<exists>s'. pad_zeros n (process s 0) = Some s' \<and> hash_wf s' \<and> hs_length0 s' mod 512 = 448"
      by (intro Suc.IH) (simp_all add: process_wf Suc.prems(1))
    then show ?thesis using False by (simp add: pad_zeros.simps)
  qed
qed

lemma hash_total:
  assumes "hash_wf s"
  shows "\<exists>d. hash s = Some (d, hash_init) \<and> length d = 32"
proof -
  have "(448 + 512 - unat (hs_length0 (process s 0x80) mod 512)) mod 512 \<le> 8 * (64 :: nat)"
    by (rule order_trans [OF less_imp_le [OF mod_less_divisor]]) auto
  then obtain s' where "pad_zeros 64 (process s 0x80) = Some s'"
    using pad_zeros_total [OF process_wf [OF assms]] by blast
  then show ?thesis by (simp add: hash_def del: upt_rec_numeral)
qed

lemma hash256_total: "\<exists>d. hash256 b = Some d \<and> length d = 32"
  using hash_total [OF process_array_wf [OF hash_init_wf], of b] unfolding hash256_def by fastforce

definition sha :: "bytes \<Rightarrow> bytes" where
  "sha b = the (hash256 b)"

lemma hash256_sha [simp]: "hash256 b = Some (sha b)"
  using hash256_total [of b] by (auto simp: sha_def)

lemma length_sha [simp]: "length (sha b) = 32"
  using hash256_total [of b] by simp

end
