(* ===== verification/QC_Codec.thy ===== *)
theory QC_Codec
  imports QC_Group QC_Hash256
begin

text \<open>
  What the schemes use of other crates to put values on the wire, and the way the
  \<open>Serializable\<close> implementations use it.

  Every \<open>to_bytes\<close> writes one ASN.1 \<open>SEQUENCE\<close> of integers and octet strings, and every
  \<open>from_bytes\<close> reads its elements one at a time and requires that nothing is left.  The DER
  reader and writer of the crate \<open>asn1\<close> are the parameters \<open>asn_write\<close> and \<open>asn_parse\<close>;
  \<open>asn_parse\<close> yields the elements up to the first one that is not well formed, which reads as
  \<open>AMalformed\<close>.  \<open>codec_ok\<close> states that reading inverts writing and that base64 is text.  The other two parameters are
  the URL-safe base64 encoder and decoder.  A Rust \<open>String\<close> is represented by its UTF-8 bytes.
\<close>

datatype asn1_element = AInteger int | AOctets bytes | AMalformed

record codec =
  asn_write :: "asn1_element list \<Rightarrow> bytes option"
  asn_parse :: "bytes \<Rightarrow> asn1_element list"
  b64_url :: "bytes \<Rightarrow> bytes"
  b64_decode :: "bytes \<Rightarrow> bytes option"

text \<open>Well-formed UTF-8, as \<open>String::from_utf8\<close> accepts it.\<close>

abbreviation "utf8_cont (b :: u8) \<equiv> 0x80 \<le> b \<and> b \<le> 0xBF"

fun utf8_valid :: "bytes \<Rightarrow> bool" where
  "utf8_valid [] = True"
| "utf8_valid (b # bs) =
    (if b \<le> 0x7F then utf8_valid bs
     else if 0xC2 \<le> b \<and> b \<le> 0xDF then
       (case bs of c # cs \<Rightarrow> utf8_cont c \<and> utf8_valid cs | _ \<Rightarrow> False)
     else if 0xE0 \<le> b \<and> b \<le> 0xEF then
       (case bs of c # d # ds \<Rightarrow>
          (if b = 0xE0 then 0xA0 \<le> c \<and> c \<le> 0xBF else if b = 0xED then 0x80 \<le> c \<and> c \<le> 0x9F
           else utf8_cont c) \<and> utf8_cont d \<and> utf8_valid ds
        | _ \<Rightarrow> False)
     else if 0xF0 \<le> b \<and> b \<le> 0xF4 then
       (case bs of c # d # e # es \<Rightarrow>
          (if b = 0xF0 then 0x90 \<le> c \<and> c \<le> 0xBF else if b = 0xF4 then 0x80 \<le> c \<and> c \<le> 0x8F
           else utf8_cont c) \<and> utf8_cont d \<and> utf8_cont e \<and> utf8_valid es
        | _ \<Rightarrow> False)
     else False)"

definition codec_ok :: "codec \<Rightarrow> bool" where
  "codec_ok C = ((\<forall>es. AMalformed \<notin> set es \<longrightarrow>
     (\<exists>b. asn_write C es = Some b \<and> asn_parse C b = es))
     \<and> (\<forall>b. utf8_valid (b64_url C b) \<and> b64_decode C (b64_url C b) = Some b))"

lemma codec_okE:
  assumes "codec_ok C" "AMalformed \<notin> set es"
  obtains b where "asn_write C es = Some b" "asn_parse C b = es"
  using assms by (auto simp: codec_ok_def)

subsection \<open>Writing\<close>

definition write_seq :: "codec \<Rightarrow> asn1_element list \<Rightarrow> scheme_error + bytes" where
  "write_seq C es = (case asn_write C es of None \<Rightarrow> Err SerializationFailed | Some b \<Rightarrow> Ok b)"

lemma write_seq_okE:
  assumes "codec_ok C" "AMalformed \<notin> set es"
  obtains b where "write_seq C es = Ok b" "asn_parse C b = es"
  using codec_okE [OF assms] that by (metis option.simps(5) write_seq_def)

text \<open>
  A nested value is written as the octet string of its own encoding; the closure fails when the
  nested \<open>to_bytes\<close> fails.
\<close>

definition write_seq_nested ::
  "codec \<Rightarrow> asn1_element list \<Rightarrow> (scheme_error + bytes) \<Rightarrow> scheme_error + bytes" where
  "write_seq_nested C es inner =
     (case inner of Inl _ \<Rightarrow> Err SerializationFailed | Inr b \<Rightarrow> write_seq C (es @ [AOctets b]))"

definition unwrap :: "'e + 'a \<Rightarrow> 'a may_panic" where
  "unwrap r = (case r of Inl _ \<Rightarrow> None | Inr x \<Rightarrow> Some x)"

lemma unwrap_simps [simp]: "unwrap (Inl e) = None" "unwrap (Inr x) = Some x"
  by (simp_all add: unwrap_def)

lemma unwrap_Some_iff: "unwrap r = Some x \<longleftrightarrow> r = Ok x"
  by (cases r) simp_all

subsection \<open>Reading\<close>

text \<open>
  The closure given to \<open>asn1::parse\<close> reads elements in order.  Its outcome is a value, a parse
  error, or a panic of the code it calls.  A reader takes its continuation as an argument.
\<close>

datatype 'a read_result = ROk 'a | RErr | RPanic

type_synonym 'a reader = "asn1_element list \<Rightarrow> 'a read_result"

fun read_i32 :: "(int \<Rightarrow> 'a reader) \<Rightarrow> 'a reader" where
  "read_i32 k (AInteger v # es) = (if - (2 ^ 31) \<le> v \<and> v < 2 ^ 31 then k v es else RErr)"
| "read_i32 k _ = RErr"

fun read_u64 :: "(int \<Rightarrow> 'a reader) \<Rightarrow> 'a reader" where
  "read_u64 k (AInteger v # es) = (if 0 \<le> v \<and> v < 2 ^ 64 then k v es else RErr)"
| "read_u64 k _ = RErr"

fun read_u8 :: "(int \<Rightarrow> 'a reader) \<Rightarrow> 'a reader" where
  "read_u8 k (AInteger v # es) = (if 0 \<le> v \<and> v < 2 ^ 8 then k v es else RErr)"
| "read_u8 k _ = RErr"

fun read_octets :: "(bytes \<Rightarrow> 'a reader) \<Rightarrow> 'a reader" where
  "read_octets k (AOctets b # es) = k b es"
| "read_octets k _ = RErr"

definition read_fail :: "'a reader" where
  "read_fail es = RErr"

definition read_call :: "'b may_panic \<Rightarrow> ('b \<Rightarrow> 'a reader) \<Rightarrow> 'a reader" where
  "read_call m k es = (case m of None \<Rightarrow> RPanic | Some x \<Rightarrow> k x es)"

text \<open>\<open>n\<close> octet strings, each given to a conversion, as the loops over verification keys do.\<close>

fun read_many :: "nat \<Rightarrow> (bytes \<Rightarrow> 'b may_panic) \<Rightarrow> ('b list \<Rightarrow> 'a reader) \<Rightarrow> 'a reader" where
  "read_many 0 f k = k []"
| "read_many (Suc n) f k =
     read_octets (\<lambda>b. read_call (f b) (\<lambda>x. read_many n f (\<lambda>xs. k (x # xs))))"

fun read_end :: "'a \<Rightarrow> 'a reader" where
  "read_end x [] = ROk x"
| "read_end x (_ # _) = RErr"

definition parse_seq :: "codec \<Rightarrow> bytes \<Rightarrow> 'a reader \<Rightarrow> (scheme_error + 'a) may_panic" where
  "parse_seq C b r =
     (case r (asn_parse C b) of
        ROk x \<Rightarrow> Some (Ok x)
      | RErr \<Rightarrow> Some (Err DeserializationFailed)
      | RPanic \<Rightarrow> None)"

lemma read_call_simps [simp]:
  "read_call (Some x) k = k x" "read_call None k es = RPanic"
  by (auto simp: read_call_def)

lemma read_many_map:
  assumes "\<And>x. x \<in> set xs \<Longrightarrow> f (e x) = Some x"
  shows "read_many (length xs) f k (map (\<lambda>x. AOctets (e x)) xs @ es) = k xs es"
  using assms by (induction xs arbitrary: k) simp_all

subsection \<open>Integers and strings in the encoding\<close>

abbreviation "AU16 (x :: u16) \<equiv> AInteger (uint x)"

abbreviation "AGroup g \<equiv> AInteger (group_code g)"

lemma uint_u16_bounds: "0 \<le> uint (x :: u16) \<and> uint x < 18446744073709551616"
  using uint_bounded [of x] by simp

lemma read_u64_u16 [simp]: "read_u64 k (AU16 x # es) = k (uint x) es"
  using uint_u16_bounds [of x] by simp

lemma read_i32_group [simp]: "read_i32 k (AGroup g # es) = k (group_code g) es"
  by (cases g) simp_all

lemma read_u8_u8 [simp]: "read_u8 k (AInteger (uint (x :: u8)) # es) = k (uint x) es"
  using uint_bounded [of x] by simp

declare read_i32.simps(1) [simp del] read_u64.simps(1) [simp del] read_u8.simps(1) [simp del]

text \<open>\<open>calc_key_id\<close> of \<open>keys/keys.rs\<close>: the base64 of the hash of the key's encoding.\<close>

definition calc_key_id :: "codec \<Rightarrow> bytes \<Rightarrow> bytes may_panic" where
  "calc_key_id C b = map_option (b64_url C) (hash256 b)"

lemma calc_key_id_eq: "calc_key_id C b = Some (b64_url C (sha b))"
  by (simp add: calc_key_id_def)

subsection \<open>Authenticated encryption\<close>

text \<open>
  \<open>ChaCha20Poly1305\<close> of the crate \<open>chacha20poly1305\<close>.  \<open>Key::from_slice\<close> and
  \<open>Nonce::from_slice\<close> panic unless they are given 32 and 12 bytes.  The law: a message within
  the cipher's limit encrypts, and decrypts to itself under the same key and nonce.
\<close>

record aead =
  aead_encrypt :: "bytes \<Rightarrow> bytes \<Rightarrow> bytes \<Rightarrow> bytes option"
  aead_decrypt :: "bytes \<Rightarrow> bytes \<Rightarrow> bytes \<Rightarrow> bytes option"

definition aead_ok :: "aead \<Rightarrow> bool" where
  "aead_ok A = (\<forall>k n m. length k = 32 \<longrightarrow> length n = 12 \<longrightarrow> length m < 2 ^ 36 \<longrightarrow>
     (\<exists>c. aead_encrypt A k n m = Some c \<and> aead_decrypt A k n c = Some m))"

definition cipher_encrypt :: "aead \<Rightarrow> bytes \<Rightarrow> bytes \<Rightarrow> bytes \<Rightarrow> bytes may_panic" where
  "cipher_encrypt A k n m =
     (if length k = 32 \<and> length n = 12 then aead_encrypt A k n m else None)"

definition cipher_decrypt ::
  "aead \<Rightarrow> bytes \<Rightarrow> bytes \<Rightarrow> bytes \<Rightarrow> (scheme_error + bytes) may_panic" where
  "cipher_decrypt A k n c =
     (if length k = 32 \<and> length n = 12
      then Some (case aead_decrypt A k n c of None \<Rightarrow> Err MacFailure | Some m \<Rightarrow> Ok m)
      else None)"

text \<open>The slice \<open>b[0..12]\<close>.\<close>

definition nonce_of :: "bytes \<Rightarrow> bytes may_panic" where
  "nonce_of b = (if 12 \<le> length b then Some (take 12 b) else None)"

lemma cipher_roundtrip:
  assumes "aead_ok A" "length k = 32" "length n = 12" "length m < 2 ^ 36"
  shows "\<exists>c. cipher_encrypt A k n m = Some c \<and> cipher_decrypt A k n c = Some (Ok m)"
proof -
  obtain c where "aead_encrypt A k n m = Some c" "aead_decrypt A k n c = Some m"
    using assms unfolding aead_ok_def by blast
  then show ?thesis using assms by (simp add: cipher_encrypt_def cipher_decrypt_def)
qed

definition plain_aead :: aead where
  "plain_aead = \<lparr>aead_encrypt = (\<lambda>_ _ m. Some m), aead_decrypt = (\<lambda>_ _ c. Some c)\<rparr>"

lemma plain_aead_ok: "aead_ok plain_aead"
  by (simp add: aead_ok_def plain_aead_def)

subsection \<open>A codec that satisfies the law\<close>

text \<open>A unary length-prefixed encoding, on which the witnesses run.\<close>

fun unary_write :: "asn1_element list \<Rightarrow> bytes" where
  "unary_write [] = []"
| "unary_write (AInteger v # es) =
     (if 0 \<le> v then 0 else 1) # replicate (nat \<bar>v\<bar>) 1 @ [0] @ unary_write es"
| "unary_write (AOctets b # es) = 2 # replicate (length b) 1 @ [0] @ b @ unary_write es"
| "unary_write (AMalformed # es) = [3]"

function unary_parse :: "bytes \<Rightarrow> asn1_element list" where
  "unary_parse [] = []"
| "unary_parse (t # bs) =
     (let n = length (takeWhile (\<lambda>b. b = 1) bs); r = drop (Suc n) bs in
      if t = 0 then AInteger (int n) # unary_parse r
      else if t = 1 then AInteger (- int n) # unary_parse r
      else if t = 2 then AOctets (take n r) # unary_parse (drop n r)
      else [AMalformed])"
  by pat_completeness auto

termination unary_parse
  by (relation "measure length") auto

lemma takeWhile_replicate_ones:
  "takeWhile (\<lambda>b. b = (1::u8)) (replicate n 1 @ 0 # rest) = replicate n 1"
  by (induction n) simp_all

lemma unary_parse_write: "AMalformed \<notin> set es \<Longrightarrow> unary_parse (unary_write es) = es"
  by (induction es rule: unary_write.induct)
    (simp_all add: takeWhile_replicate_ones Let_def)

text \<open>Numbers in unary, each closed by a zero: a text for any octets.\<close>

definition unary_numbers :: "nat list \<Rightarrow> bytes" where
  "unary_numbers vs = concat (map (\<lambda>v. replicate v 1 @ [0]) vs)"

fun read_unary :: "nat \<Rightarrow> bytes \<Rightarrow> nat list" where
  "read_unary v [] = []"
| "read_unary v (b # bs) = (if b = 0 then v # read_unary 0 bs else read_unary (Suc v) bs)"

lemma read_unary_numbers [simp]: "read_unary 0 (unary_numbers vs) = vs"
proof (induction vs)
  case (Cons v vs)
  have "read_unary a (replicate v 1 @ 0 # bs) = (a + v) # read_unary 0 bs" for a bs by (induction v arbitrary: a) auto
  from this [of 0] Cons.IH show ?case by (simp add: unary_numbers_def)
qed (simp add: unary_numbers_def)

lemma utf8_valid_unary [simp]: "utf8_valid (unary_numbers vs)"
proof -
  have "utf8_valid bs" if "set bs \<subseteq> {0, 1}" for bs using that by (induction bs) auto
  moreover have "set (unary_numbers vs) \<subseteq> {0, 1}" by (auto simp: unary_numbers_def)
  ultimately show ?thesis .
qed

definition unary_codec :: codec where
  "unary_codec = \<lparr>asn_write = (\<lambda>es. Some (unary_write es)), asn_parse = unary_parse,
                  b64_url = (\<lambda>b. unary_numbers (map unat b)), b64_decode = (\<lambda>t. Some (map of_nat (read_unary 0 t)))\<rparr>"

lemma unary_codec_ok: "codec_ok unary_codec"
  by (simp add: codec_ok_def unary_codec_def unary_parse_write comp_def)

end
