(* ===== verification/QC_RsaCommon.thy ===== *)
theory QC_RsaCommon
  imports QC_Codec
begin

text \<open>
  Big integers (\<open>integers/bigint.rs\<close>) and the shared routines of the RSA schemes
  (\<open>rsa_schemes/common.rs\<close>).

  A \<open>BigInt\<close> wraps a GMP integer and is an \<open>int\<close> here, so that \<open>add\<close>, \<open>sub\<close> and \<open>mul\<close> are
  those of \<open>int\<close>.  \<open>mpz_mod\<close> takes the remainder in \<open>[0, |m|)\<close>; \<open>Integer::div\<close>
  truncates; \<open>pow_mod\<close> inverts the base for a negative exponent and panics when it cannot.
  \<open>mpz_invert\<close> leaves its result undefined when there is no inverse, which is \<open>None\<close> here, as
  is a division by zero.
\<close>

definition bi_rmod :: "int \<Rightarrow> int \<Rightarrow> int may_panic" where
  "bi_rmod x m = (if m = 0 then None else Some (x mod \<bar>m\<bar>))"

definition bi_mul_mod :: "int \<Rightarrow> int \<Rightarrow> int \<Rightarrow> int may_panic" where
  "bi_mul_mod x y m = bi_rmod (x * y) m"

definition bi_div :: "int \<Rightarrow> int \<Rightarrow> int may_panic" where
  "bi_div x y = (if y = 0 then None else Some (sgn x * sgn y * (\<bar>x\<bar> div \<bar>y\<bar>)))"

definition bi_inv_mod :: "int \<Rightarrow> int \<Rightarrow> int may_panic" where
  "bi_inv_mod x m = (if 1 < \<bar>m\<bar> \<and> coprime x m then Some (inv_mod x \<bar>m\<bar>) else None)"

definition bi_pow_mod :: "int \<Rightarrow> int \<Rightarrow> int \<Rightarrow> int may_panic" where
  "bi_pow_mod x e m =
     (if 0 \<le> e then bi_rmod (x ^ nat e) m
      else do { y \<leftarrow> bi_inv_mod x m; bi_rmod (y ^ nat (- e)) m })"

text \<open>\<open>mpz_export\<close> writes the absolute value, most significant byte first, with no leading zero.\<close>

fun nat_bytes :: "nat \<Rightarrow> bytes" where
  "nat_bytes v = (if v = 0 then [] else nat_bytes (v div 256) @ [of_nat (v mod 256)])"

declare nat_bytes.simps [simp del]

definition bi_to_bytes :: "int \<Rightarrow> bytes" where
  "bi_to_bytes x = nat_bytes (nat \<bar>x\<bar>)"

definition bi_from_bytes :: "bytes \<Rightarrow> int" where
  "bi_from_bytes b = be_value b"

definition bi_to_sized_bytes :: "int \<Rightarrow> nat \<Rightarrow> string + bytes" where
  "bi_to_sized_bytes x len =
     (let b = bi_to_bytes x in
      if len < length b then Inl ''Value is too big to fit into required size''
      else Inr (replicate (len - length b) 0 @ b))"

subsection \<open>Arithmetic of the RSA schemes\<close>

function fac :: "int \<Rightarrow> int" where
  "fac x = (if x < 2 then 1 else x * fac (x - 1))"
  by auto

termination fac
  by (relation "measure nat") auto

declare fac.simps [simp del]

definition lag_step :: "int \<Rightarrow> int \<times> int \<Rightarrow> u8 \<Rightarrow> int \<times> int" where
  "lag_step i acc b =
     (let j = uint b; (ln, ld) = acc in
      if i \<noteq> j then (ln * (- j), ld * (i - j)) else (ln, ld))"

definition lag_coeff :: "u8 list \<Rightarrow> int \<Rightarrow> int \<Rightarrow> int may_panic" where
  "lag_coeff indices i d =
     (let (ln, ld) = foldl (lag_step i) (d, 1) indices in do {
        l \<leftarrow> bi_div ln ld;
        Some (l + l)
      })"

function ext_euclid :: "int \<Rightarrow> int \<Rightarrow> int \<times> int" where
  "ext_euclid x y =
     (if x = 0 then (0, 1)
      else let (x1, y1) = ext_euclid (y mod \<bar>x\<bar>) x in
           (y1 - sgn y * sgn x * (\<bar>y\<bar> div \<bar>x\<bar>) * x1, x1))"
  by auto

termination ext_euclid
  by (relation "measure (\<lambda>(x, y). nat \<bar>x\<bar>)") auto

declare ext_euclid.simps [simp del]

text \<open>
  \<open>shamir_share_rsa\<close>: the shares of \<open>d\<close> modulo \<open>m\<close>, each multiplied by the inverse of \<open>n!\<close>,
  and their verification keys.  The coefficients \<open>rnd 1, ..., rnd (k - 1)\<close> are drawn.
\<close>

definition shamir_rsa_term :: "int \<Rightarrow> int list \<Rightarrow> int \<Rightarrow> int \<Rightarrow> nat \<Rightarrow> int may_panic" where
  "shamir_rsa_term m fk i t j = do {
     p \<leftarrow> bi_pow_mod i (int j) m;
     q \<leftarrow> bi_mul_mod p (fk ! j) m;
     Some (q + t)
   }"

definition shamir_share_rsa ::
  "int \<Rightarrow> nat \<Rightarrow> nat \<Rightarrow> int \<Rightarrow> int \<Rightarrow> int \<Rightarrow> (nat \<Rightarrow> int) \<Rightarrow>
   ((u16 \<times> int) list \<times> int list) may_panic" where
  "shamir_share_rsa d k n N m v rnd = do {
     let fk = d # map rnd [1..<k];
     d_inv \<leftarrow> bi_inv_mod (fac (int n)) m;
     ds \<leftarrow> mapM (\<lambda>i. do {
       t \<leftarrow> foldM (shamir_rsa_term m fk (int i + 1)) 0 [0..<k];
       bi_mul_mod t d_inv m }) [0..<n];
     vk \<leftarrow> mapM (\<lambda>s. bi_pow_mod v s N) ds;
     Some (zip (map (\<lambda>i. of_nat (i + 1)) [0..<n]) ds, vk)
   }"

text \<open>
  One round of \<open>gen_strong_prime\<close> on a drawn candidate; \<open>is_prime_test\<close> is GMP's test.  The
  code reads its table \<open>PRIMES\<close> at the indices 1 to \<open>BOUND - 1\<close> only, with \<open>BOUND = 100\<close>; the
  list below is that part of it.
\<close>

definition PRIMES :: "int list" where
  "PRIMES = [
    2, 3, 5, 7, 11, 13, 17, 19, 23, 29, 31, 37, 41, 43, 47, 53, 59, 61, 67, 71, 73, 79, 83, 89, 97,
    101, 103, 107, 109, 113, 127, 131, 137, 139, 149, 151, 157, 163, 167, 173, 179, 181, 191, 193,
    197, 199, 211, 223, 227, 229, 233, 239, 241, 251, 257, 263, 269, 271, 277, 281, 283, 293, 307,
    311, 313, 317, 331, 337, 347, 349, 353, 359, 367, 373, 379, 383, 389, 397, 401, 409, 419, 421,
    431, 433, 439, 443, 449, 457, 461, 463, 467, 479, 487, 491, 499, 503, 509, 521, 523, 541]"

definition strong_prime_round ::
  "(int \<Rightarrow> bool) \<Rightarrow> int \<Rightarrow> int \<Rightarrow> int \<Rightarrow> (int \<times> int \<times> bool) may_panic" where
  "strong_prime_round is_prime_test e p_old cand =
     (let p1 = (if even cand then cand + 1 else cand);
          ok1 = (\<forall>r\<in>set (tl PRIMES). \<not> r dvd p1);
          p = (if ok1 then p1 + p1 + 1 else p_old);
          ok2 = (ok1 \<and> (\<forall>r\<in>set (tl PRIMES). \<not> r dvd p) \<and> p \<noteq> e)
      in do {
        ok3 \<leftarrow> (if ok2 then do { a \<leftarrow> bi_pow_mod 2 p1 p1; Some (a = 2) } else Some False);
        ok4 \<leftarrow> (if ok3 then do { t \<leftarrow> bi_pow_mod 2 p1 p; Some (t = 1 \<or> t = p - 1) } else Some False);
        Some (p1, p, ok4 \<and> is_prime_test p1)
      })"

fun gen_strong_prime ::
  "(int \<Rightarrow> bool) \<Rightarrow> int \<Rightarrow> int \<Rightarrow> int list \<Rightarrow> (int \<times> int) may_panic" where
  "gen_strong_prime is_prime_test e p_old [] = None"
| "gen_strong_prime is_prime_test e p_old (cand # cands) = do {
     (p1, p, ok) \<leftarrow> strong_prime_round is_prime_test e p_old cand;
     if ok then Some (p1, p) else gen_strong_prime is_prime_test e p cands
   }"

end
