(* ===== verification/QC_Fermat.thy ===== *)
theory QC_Fermat
  imports QC_Modular
begin

text \<open>
  The number theory the RSA scheme rests on: Fermat's little theorem, the exponent of the squares
  modulo a product of two safe primes, and Lagrange interpolation over the integers with the
  factor \<open>n!\<close> that makes the coefficients integral.
\<close>

subsection \<open>Prime divisors\<close>

lemma is_prime_divisor:
  assumes "1 < (m::int)"
  shows "\<exists>q. is_prime q \<and> q dvd m"
  using assms
proof (induction "nat m" arbitrary: m rule: less_induct)
  case less
  show ?case
  proof (cases "is_prime m")
    case True
    then show ?thesis by (intro exI [of _ m]) simp
  next
    case False
    then obtain d where d: "2 \<le> d" "d < m" "d dvd m" using less.prems by (auto simp: is_prime_def)
    then have "nat d < nat m" by simp
    then obtain q where "is_prime q" "q dvd d" using less.hyps [of d] d(1) by auto
    then show ?thesis using d(3) dvd_trans by blast
  qed
qed

lemma is_prime_unbounded: "\<exists>q. is_prime q \<and> int b < q"
proof -
  have "1 < (fact b + 1 :: int)" by (simp add: add_pos_pos)
  then obtain q where q: "is_prime q" "q dvd fact b + 1" using is_prime_divisor by blast
  have "int b < q"
  proof (rule ccontr)
    assume "\<not> int b < q"
    then have "nat q \<le> b" "1 \<le> nat q" using is_prime_gt_1 [OF q(1)] by auto
    then have "int (nat q) dvd int (fact b)"
      using dvd_fact [of "nat q" b] by (simp only: int_dvd_int_iff)
    then have "q dvd fact b" using is_prime_gt_1 [OF q(1)] by simp
    then have "q dvd 1" using q(2) by (simp add: dvd_add_right_iff)
    then show False using is_prime_gt_1 [OF q(1)] by simp
  qed
  then show ?thesis using q(1) by blast
qed

subsection \<open>Fermat's little theorem\<close>

lemma prime_dvd_choose:
  assumes "is_prime (int p)" "0 < k" "k < p"
  shows "int p dvd int (p choose k)"
proof -
  have "k * (p choose k) = p * ((p - 1) choose (k - 1))"
    using times_binomial_minus1_eq [OF assms(2), of p] by simp
  then have "int p dvd int k * int (p choose k)" by (metis dvd_triv_left of_nat_mult)
  moreover have "\<not> int p dvd int k" using assms(2,3) by (auto dest: zdvd_imp_le)
  ultimately show ?thesis using is_prime_dvd_mult [OF assms(1)] by blast
qed

lemma fermat_nat:
  assumes "is_prime (int p)"
  shows "(int a ^ p) mod int p = int a mod int p"
proof (induction a)
  case 0
  have "0 < p" using is_prime_gt_1 [OF assms] by simp
  then show ?case by (simp add: power_0_left)
next
  case (Suc a)
  have p1: "1 < p" using is_prime_gt_1 [OF assms] by simp
  have "(int a + 1) ^ p = (\<Sum>k\<le>p. int (p choose k) * int a ^ k)"
    by (simp add: binomial_ring)
  also have "{..p} = insert 0 (insert p {1..<p})" using p1 by auto
  also have "(\<Sum>k\<in>insert 0 (insert p {1..<p}). int (p choose k) * int a ^ k)
      = 1 + int a ^ p + (\<Sum>k\<in>{1..<p}. int (p choose k) * int a ^ k)"
    using p1 by (subst sum.insert; simp)+
  finally have e: "(int a + 1) ^ p = 1 + int a ^ p + (\<Sum>k\<in>{1..<p}. int (p choose k) * int a ^ k)" .
  have "int p dvd (\<Sum>k\<in>{1..<p}. int (p choose k) * int a ^ k)"
    using prime_dvd_choose [OF assms] by (intro dvd_sum dvd_mult2) auto
  then obtain c where "(\<Sum>k\<in>{1..<p}. int (p choose k) * int a ^ k) = int p * c" by (rule dvdE)
  then have "(int a + 1) ^ p mod int p = (1 + int a ^ p) mod int p" by (simp add: e)
  also have "\<dots> = (1 + int a) mod int p" using Suc by (intro mod_add_cong) simp_all
  finally show ?case by (simp add: add.commute)
qed

lemma fermat:
  assumes "is_prime p" "\<not> p dvd a"
  shows "a ^ (nat p - 1) mod p = 1"
proof -
  let ?b = "nat (a mod p)" and ?n = "nat p"
  have p1: "1 < p" using is_prime_gt_1 [OF assms(1)] .
  have b: "int ?b = a mod p" "int ?n = p" using p1 by simp_all
  have "(a mod p) ^ ?n mod p = a mod p"
    using fermat_nat [of ?n ?b] assms(1) b p1 by simp
  then have "a ^ ?n mod p = a mod p" by (simp add: power_mod)
  moreover have "a ^ ?n = a * a ^ (?n - 1)" using p1 by (simp flip: power_Suc)
  ultimately have "p dvd a * a ^ (?n - 1) - a" by (metis mod_eq_dvd_iff)
  then have "p dvd a * (a ^ (?n - 1) - 1)" by (simp add: algebra_simps)
  then have "p dvd a ^ (?n - 1) - 1" using is_prime_dvd_mult [OF assms(1)] assms(2) by blast
  then have "a ^ (?n - 1) mod p = 1 mod p" by (simp add: mod_eq_dvd_iff)
  then show ?thesis using p1 by simp
qed

subsection \<open>Products of two safe primes\<close>

lemma is_prime_coprime_pair:
  assumes "is_prime p" "is_prime q" "p \<noteq> q"
  shows "coprime p q"
proof (rule is_prime_coprime [OF assms(2)])
  show "\<not> q dvd p"
  proof
    assume d: "q dvd p"
    then have "q \<le> p" using is_prime_gt_1 [OF assms(1)] by (simp add: zdvd_imp_le)
    then have "q \<in> {2..<p}" using assms(3) is_prime_gt_1 [OF assms(2)] by simp
    then show False using d assms(1) by (auto simp: is_prime_def)
  qed
qed

lemma safe_prime_exponent:
  assumes "is_prime p" "p = 2 * p1 + 1" "0 \<le> p1" "0 \<le> q1" "\<not> p dvd x"
  shows "x ^ nat (2 * (p1 * q1)) mod p = 1"
proof -
  have "nat p - 1 = nat (2 * p1)" using assms(2,3) by simp
  then have "x ^ nat (2 * p1) mod p = 1" using fermat [OF assms(1,5)] by simp
  then have "(x ^ nat (2 * p1)) ^ nat q1 mod p = 1"
    by (metis power_mod power_one is_prime_gt_1 [OF assms(1)] mod_pos_pos_trivial zero_le_one)
  moreover have "nat (2 * (p1 * q1)) = nat (2 * p1) * nat q1"
    using assms(3,4) by (simp add: nat_mult_distrib mult.assoc flip: mult.assoc)
  ultimately show ?thesis by (simp add: power_mult)
qed

lemma rsa_exponent:
  assumes "is_prime p" "is_prime q" "p \<noteq> q" "p = 2 * p1 + 1" "q = 2 * q1 + 1" "coprime x (p * q)"
  shows "x ^ nat (2 * (p1 * q1)) mod (p * q) = 1"
proof -
  have p0: "0 \<le> p1" "0 \<le> q1" using is_prime_gt_1 [OF assms(1)] is_prime_gt_1 [OF assms(2)] assms(4,5) by auto
  have nd: "\<not> p dvd x" "\<not> q dvd x"
    using assms(6) is_prime_gt_1 [OF assms(1)] is_prime_gt_1 [OF assms(2)]
    by (metis coprime_common_divisor dvd_triv_left dvd_triv_right zdvd1_eq abs_of_pos less_trans zero_less_one less_irrefl)+
  let ?e = "nat (2 * (p1 * q1))"
  have "x ^ ?e mod p = 1 mod p" "x ^ ?e mod q = 1 mod q"
    using safe_prime_exponent [OF assms(1,4) p0 nd(1)] safe_prime_exponent [OF assms(2,5) p0(2,1) nd(2)]
      is_prime_gt_1 [OF assms(1)] is_prime_gt_1 [OF assms(2)] by (simp_all add: mult.commute [of q1])
  then have "p dvd x ^ ?e - 1" "q dvd x ^ ?e - 1" by (simp_all add: mod_eq_dvd_iff)
  then have "p * q dvd x ^ ?e - 1"
    using is_prime_coprime_pair [OF assms(1-3)] by (simp add: divides_mult)
  then have "x ^ ?e mod (p * q) = 1 mod (p * q)" by (simp add: mod_eq_dvd_iff)
  moreover have "1 < p * q" using is_prime_gt_1 [OF assms(1)] is_prime_gt_1 [OF assms(2)] by (simp add: less_1_mult)
  ultimately show ?thesis by simp
qed

subsection \<open>Interpolation over the integers\<close>

text \<open>\<open>n!\<close> times the Lagrange coefficient at 0, computed as the code computes it.\<close>

definition lag_int :: "int \<Rightarrow> int list \<Rightarrow> int \<Rightarrow> int" where
  "lag_int d ids i = (d * (\<Prod>j\<leftarrow>filter (\<lambda>j. j \<noteq> i) ids. - j)) div (\<Prod>j\<leftarrow>filter (\<lambda>j. j \<noteq> i) ids. i - j)"

lemma prod_below_fact: "(\<Prod>j\<in>{1..<I}. \<bar>int I - int j\<bar>) = fact (I - 1)"
proof -
  have "(\<Prod>j\<in>{1..<I}. \<bar>int I - int j\<bar>) = (\<Prod>k\<in>{1..I - 1}. int k)"
    by (rule prod.reindex_bij_witness [of _ "\<lambda>k. I - k" "\<lambda>j. I - j"]) auto
  then show ?thesis by (simp add: fact_prod)
qed

lemma prod_above_fact: "(\<Prod>j\<in>{I<..n}. \<bar>int I - int j\<bar>) = fact (n - I)"
proof -
  have "(\<Prod>j\<in>{I<..n}. \<bar>int I - int j\<bar>) = (\<Prod>k\<in>{1..n - I}. int k)"
    by (rule prod.reindex_bij_witness [of _ "\<lambda>k. k + I" "\<lambda>j. j - I"]) auto
  then show ?thesis by (simp add: fact_prod)
qed

lemma abs_prod_int: "\<bar>\<Prod>x\<in>A. f x :: int\<bar> = (\<Prod>x\<in>A. \<bar>f x\<bar>)"
  by (induction A rule: infinite_finite_induct) (simp_all add: abs_mult)

lemma prod_diff_dvd_fact:
  assumes "1 \<le> I" "I \<le> n" "S \<subseteq> {1..n} - {I}"
  shows "(\<Prod>j\<in>S. int I - int j) dvd fact n"
proof -
  have fin: "finite ({1..n} - {I})" by simp
  have "(\<Prod>j\<in>S. \<bar>int I - int j\<bar>) dvd (\<Prod>j\<in>{1..n} - {I}. \<bar>int I - int j\<bar>)"
    by (rule prod_dvd_prod_subset [OF fin assms(3)])
  also have "{1..n} - {I} = {1..<I} \<union> {I<..n}" using assms(1,2) by auto
  also have "(\<Prod>j\<in>{1..<I} \<union> {I<..n}. \<bar>int I - int j\<bar>) = fact (I - 1) * fact (n - I)"
    unfolding prod_below_fact [of I, symmetric] prod_above_fact [of I n, symmetric]
    by (rule prod.union_disjoint) auto
  also have "\<dots> dvd (fact (I - 1 + (n - I)) :: int)" by (rule fact_fact_dvd_fact)
  also have "\<dots> dvd fact n" by (rule fact_dvd) (use assms in simp)
  finally have "\<bar>\<Prod>j\<in>S. int I - int j\<bar> dvd fact n" by (simp only: abs_prod_int)
  then show ?thesis by simp
qed

lemma lag_den_dvd_fact:
  assumes "distinct ids" "\<forall>j\<in>set ids. 1 \<le> j \<and> j \<le> int n" "1 \<le> i" "i \<le> int n"
  shows "(\<Prod>j\<leftarrow>filter (\<lambda>j. j \<noteq> i) ids. i - j) dvd fact n"
proof -
  let ?S = "nat ` (set ids - {i})"
  have inj: "inj_on nat (set ids - {i})" using assms(2) by (auto simp: inj_on_def)
  have "(\<Prod>j\<leftarrow>filter (\<lambda>j. j \<noteq> i) ids. i - j) = (\<Prod>j\<in>set (filter (\<lambda>j. j \<noteq> i) ids). i - j)"
    by (rule prod.distinct_set_conv_list [symmetric]) (simp add: assms(1))
  also have "set (filter (\<lambda>j. j \<noteq> i) ids) = set ids - {i}" by auto
  also have "(\<Prod>j\<in>set ids - {i}. i - j) = (\<Prod>j\<in>?S. int (nat i) - int j)"
    using assms(2,3) by (subst prod.reindex [OF inj]) (auto intro!: prod.cong)
  also have "\<dots> dvd fact n"
    using assms(2-4) by (intro prod_diff_dvd_fact) (force simp: nat_le_iff)+
  finally show ?thesis .
qed

lemma prod_list_neg: "(\<Prod>j\<leftarrow>xs. - f j) = (-1) ^ length xs * (\<Prod>j\<leftarrow>xs. f j :: int)"
  by (induction xs) simp_all

lemma lag_int_exact:
  assumes "distinct ids" "\<forall>j\<in>set ids. 1 \<le> j \<and> j \<le> int n" "1 \<le> i" "i \<le> int n"
  shows "lag_int (fact n) ids i * (\<Prod>j\<leftarrow>filter (\<lambda>j. j \<noteq> i) ids. j - i)
     = fact n * (\<Prod>j\<leftarrow>filter (\<lambda>j. j \<noteq> i) ids. j)"
proof -
  let ?xs = "filter (\<lambda>j. j \<noteq> i) ids"
  have "lag_int (fact n) ids i * (\<Prod>j\<leftarrow>?xs. i - j) = fact n * (\<Prod>j\<leftarrow>?xs. - j)"
    unfolding lag_int_def using lag_den_dvd_fact [OF assms] by (simp add: dvd_div_mult_self)
  moreover have "(\<Prod>j\<leftarrow>?xs. i - j) = (-1) ^ length ?xs * (\<Prod>j\<leftarrow>?xs. j - i)"
    using prod_list_neg [of "\<lambda>j. j - i" ?xs] by simp
  ultimately have "(-1) ^ length ?xs * (lag_int (fact n) ids i * (\<Prod>j\<leftarrow>?xs. j - i))
      = (-1) ^ length ?xs * (fact n * (\<Prod>j\<leftarrow>?xs. j))"
    using prod_list_neg [of "\<lambda>j. j" ?xs] by (simp add: ac_simps)
  then show ?thesis by simp
qed

lemma lag_int_mod:
  assumes "distinct ids" "\<forall>j\<in>set ids. 1 \<le> j \<and> j \<le> int n" "1 \<le> i" "i \<le> int n"
    "is_prime q" "int n < q"
  shows "lag_int (fact n) ids i mod q = (fact n * lagrange_at_0 q ids i) mod q"
proof -
  let ?xs = "filter (\<lambda>j. j \<noteq> i) ids" and ?l = "lag_int (fact n) ids i"
  let ?V = "\<Prod>j\<leftarrow>?xs. inv_mod (j - i) q"
  have "\<not> q dvd j - i" if "j \<in> set ?xs" for j
    using that assms by (intro not_dvd_diff_small) auto
  then have "(\<Prod>j\<leftarrow>?xs. (j - i) * inv_mod (j - i) q) mod q = 1"
    using assms(5) by (intro prod_list_one_mod inv_mod_prime is_prime_gt_1) auto
  moreover have split: "(\<Prod>j\<leftarrow>xs. a j * b j) = (\<Prod>j\<leftarrow>xs. a j) * (\<Prod>j\<leftarrow>xs. b j)"
    for a b :: "int \<Rightarrow> int" and xs by (induction xs) simp_all
  ultimately have one: "((\<Prod>j\<leftarrow>?xs. j - i) * ?V) mod q = 1" by simp
  have "?l mod q = (?l * (((\<Prod>j\<leftarrow>?xs. j - i) * ?V) mod q)) mod q" by (simp add: one)
  also have "\<dots> = ((?l * (\<Prod>j\<leftarrow>?xs. j - i)) * ?V) mod q" by (simp add: mod_mult_right_eq mult.assoc)
  also have "\<dots> = (fact n * ((\<Prod>j\<leftarrow>?xs. j) * ?V)) mod q"
    by (simp only: lag_int_exact [OF assms(1-4)] mult.assoc)
  finally show ?thesis by (simp add: lagrange_at_0_def split)
qed

theorem lagrange_interpolation_int:
  assumes "distinct ids" "\<forall>j\<in>set ids. 1 \<le> j \<and> j \<le> int n" "polyfun k f" "k \<le> length ids"
  shows "(\<Sum>i\<leftarrow>ids. lag_int (fact n) ids i * f i) = fact n * f 0"
proof -
  let ?D = "(\<Sum>i\<leftarrow>ids. lag_int (fact n) ids i * f i) - fact n * f 0"
  obtain q where q: "is_prime q" "int (n + nat \<bar>?D\<bar>) < q" using is_prime_unbounded by blast
  have "(\<Sum>i\<leftarrow>ids. lag_int (fact n) ids i * f i) mod q
      = (\<Sum>i\<leftarrow>ids. lag_int (fact n) ids i * f i mod q) mod q"
    by (rule sum_list_mod [symmetric])
  also have "(\<Sum>i\<leftarrow>ids. lag_int (fact n) ids i * f i mod q)
      = (\<Sum>i\<leftarrow>ids. (fact n * lagrange_at_0 q ids i) * f i mod q)"
    using lag_int_mod [OF assms(1,2) _ _ q(1)] q(2) assms(2)
    by (intro arg_cong [where f = sum_list] map_cong refl mod_mult_cong) auto
  also have "\<dots> mod q = (\<Sum>i\<leftarrow>ids. fact n * (lagrange_at_0 q ids i * f i)) mod q"
    by (simp add: sum_list_mod mult.assoc)
  also have "(\<Sum>i\<leftarrow>ids. fact n * (lagrange_at_0 q ids i * f i))
      = fact n * (\<Sum>i\<leftarrow>ids. lagrange_at_0 q ids i * f i)"
    by (rule sum_list_const_mult)
  also have "\<dots> mod q = (fact n * f 0) mod q"
    using lagrange_interpolation [OF q(1) assms(1) _ assms(3,4)] assms(2) q(2)
    by (intro mod_mult_cong refl) fastforce+
  finally have "q dvd ?D" by (simp add: mod_eq_dvd_iff)
  moreover have "\<bar>?D\<bar> < q" using q(2) by simp
  ultimately have "?D = 0" using zdvd_imp_le [of q "\<bar>?D\<bar>"] by fastforce
  then show ?thesis by simp
qed

subsection \<open>Powers with an exponent modulo the group's exponent\<close>

text \<open>
  \<open>rsa_group N M\<close>: every unit modulo \<open>N\<close> has order dividing \<open>M\<close>.  \<open>rpow N M x e\<close> is then the
  power of \<open>x\<close> with the integer exponent \<open>e\<close>, and depends on \<open>e\<close> modulo \<open>M\<close> only.
\<close>

definition rsa_group :: "int \<Rightarrow> int \<Rightarrow> bool" where
  "rsa_group N M = (1 < N \<and> 0 < M \<and> (\<forall>x. coprime x N \<longrightarrow> x ^ nat M mod N = 1))"

definition rpow :: "int \<Rightarrow> int \<Rightarrow> int \<Rightarrow> int \<Rightarrow> int" where
  "rpow N M x e = x ^ nat (e mod M) mod N"

lemma rsa_group_safe_primes:
  assumes "is_prime p" "is_prime q" "p \<noteq> q" "p = 2 * p1 + 1" "q = 2 * q1 + 1"
  shows "rsa_group (p * q) (2 * (p1 * q1))"
proof -
  have "1 < p" "1 < q" using assms(1,2) by (simp_all add: is_prime_gt_1)
  moreover from this have "0 < p1" "0 < q1" using assms(4,5) by auto
  ultimately show ?thesis
    using rsa_exponent [OF assms] by (simp add: rsa_group_def less_1_mult)
qed

lemma rpow_cong: "a mod M = b mod M \<Longrightarrow> rpow N M x a = rpow N M x b"
  by (simp add: rpow_def)

lemma rpow_nat:
  assumes "rsa_group N M" "coprime x N" "0 \<le> e"
  shows "x ^ nat e mod N = rpow N M x e"
proof -
  have NM: "1 < N" "0 < M" "x ^ nat M mod N = 1 mod N" using assms(1,2) by (auto simp: rsa_group_def)
  have "e = M * (e div M) + e mod M" by simp
  moreover have "0 \<le> e div M" "0 \<le> e mod M"
    using assms(3) NM(2) by (simp_all add: pos_imp_zdiv_nonneg_iff)
  ultimately have "nat e = nat M * nat (e div M) + nat (e mod M)"
    using NM(2) by (metis nat_add_distrib nat_mult_distrib mult_nonneg_nonneg less_imp_le)
  then have "x ^ nat e = (x ^ nat M) ^ nat (e div M) * x ^ nat (e mod M)"
    by (simp add: power_add power_mult)
  moreover have "(x ^ nat M) ^ nat (e div M) mod N = 1 mod N"
    using NM(3) power_mod [of "x ^ nat M" N "nat (e div M)"] power_mod [of 1 N] by simp
  ultimately show ?thesis unfolding rpow_def by (metis mod_mult_left_eq mult_1)
qed

lemma rpow_mod [simp]: "rpow N M x a mod N = rpow N M x a"
  by (simp add: rpow_def)

lemma rpow_0: "rsa_group N M \<Longrightarrow> rpow N M x 0 = 1"
  by (simp add: rpow_def rsa_group_def)

lemma rpow_1: "rsa_group N M \<Longrightarrow> coprime x N \<Longrightarrow> rpow N M x 1 = x mod N"
  using rpow_nat [of N M x 1] by simp

lemma rpow_add:
  assumes "rsa_group N M" "coprime x N"
  shows "(rpow N M x a * rpow N M x b) mod N = rpow N M x (a + b)"
proof -
  have M: "0 < M" using assms(1) by (simp add: rsa_group_def)
  then have "(rpow N M x a * rpow N M x b) mod N = x ^ nat (a mod M + b mod M) mod N"
    by (simp add: rpow_def mod_mult_eq nat_add_distrib power_add)
  also have "\<dots> = rpow N M x (a mod M + b mod M)" using M by (intro rpow_nat assms) simp
  also have "\<dots> = rpow N M x (a + b)" by (rule rpow_cong) (simp add: mod_add_eq)
  finally show ?thesis .
qed

lemma coprime_rpow: "coprime x N \<Longrightarrow> coprime (rpow N M x a) N"
  unfolding rpow_def by (metis coprime_mod_left_iff coprime_power_left_iff mod_by_0 mod_0)

lemma rpow_pow:
  assumes "rsa_group N M" "coprime x N" "0 \<le> b"
  shows "rpow N M x a ^ nat b mod N = rpow N M x (a * b)"
proof -
  have M: "0 < M" using assms(1) by (simp add: rsa_group_def)
  then have "rpow N M x a ^ nat b mod N = x ^ nat (a mod M * b) mod N"
    by (simp add: rpow_def power_mod power_mult nat_mult_distrib)
  also have "\<dots> = rpow N M x (a mod M * b)" using M assms(3) by (intro rpow_nat assms) simp
  also have "\<dots> = rpow N M x (a * b)" by (rule rpow_cong) (simp add: mod_mult_left_eq)
  finally show ?thesis .
qed

lemma inv_mod_rpow:
  assumes "rsa_group N M" "coprime x N"
  shows "inv_mod (rpow N M x a) N = rpow N M x (- a)"
proof -
  let ?y = "rpow N M x a" and ?z = "rpow N M x (- a)"
  have N: "1 < N" using assms(1) by (simp add: rsa_group_def)
  have "(?y * ?z) mod N = 1" using rpow_add [OF assms] rpow_0 [OF assms(1)] by simp
  then have "inv_mod ?y N mod N = (inv_mod ?y N * (?y * ?z)) mod N"
    by (metis mod_mult_right_eq mult.right_neutral)
  also have "\<dots> = ((?y * inv_mod ?y N) * ?z) mod N" by (simp add: ac_simps)
  also have "\<dots> = ?z"
    using inv_mod_mult [OF N coprime_rpow [OF assms(2)]] by (metis mod_mult_left_eq mult_1 rpow_mod)
  finally show ?thesis using inv_mod_range [of N ?y] N by simp
qed

lemma rpow_prod_list:
  assumes "rsa_group N M" "coprime x N"
  shows "foldl (\<lambda>w i. (w * rpow N M x (f i)) mod N) (rpow N M x a) is = rpow N M x (a + (\<Sum>i\<leftarrow>is. f i))"
  by (induction "is" arbitrary: a) (simp_all add: rpow_add [OF assms] add.assoc)

end
