(* ===== verification/QC_StrongPrime.thy ===== *)
theory QC_StrongPrime
  imports QC_RsaCommon QC_Fermat
begin

text \<open>
  \<open>gen_strong_prime\<close> of \<open>rsa_schemes/common.rs\<close>: the sieve and the two exponentiations it does
  before it asks for the primality of \<open>p1\<close> are enough for \<open>p = 2 * p1 + 1\<close> to be prime when \<open>p1\<close> is,
  although the code never tests \<open>p\<close>.
\<close>

lemma rsa_group_prime:
  assumes "is_prime r"
  shows "rsa_group r (r - 1)"
proof -
  have r: "1 < r" using assms by (rule is_prime_gt_1)
  have "x ^ nat (r - 1) mod r = 1" if "coprime x r" for x
  proof -
    have "\<not> r dvd x" using that r coprime_common_divisor [of x r r] by auto
    from fermat [OF assms this] show ?thesis using r by (simp add: nat_diff_distrib)
  qed
  then show ?thesis using r by (simp add: rsa_group_def)
qed

lemma pocklington_divisor:
  assumes "is_prime p1" "odd p" "\<not> 3 dvd p" "2 ^ nat (2 * p1) mod p = 1" "is_prime r" "r dvd p"
  shows "p1 < r"
proof -
  have r: "1 < r" "r \<noteq> 2" using assms(2,5,6) by (auto simp: is_prime_gt_1)
  have p1: "1 < p1" using assms(1) by (rule is_prime_gt_1)
  have rg: "rsa_group r (r - 1)" by (rule rsa_group_prime [OF assms(5)])
  have c2: "coprime 2 r" using assms(2,6) by (metis coprime_left_2_iff_odd dvd_trans)
  have "2 ^ nat (2 * p1) mod r = (1::int)"
    using assms(4,6) r(1) by (metis mod_mod_cancel mod_pos_pos_trivial zero_le_one)
  then have one: "rpow r (r - 1) 2 (2 * p1) = 1" using rpow_nat [OF rg c2, of "2 * p1"] p1 by simp
  have "p1 dvd r - 1"
  proof (rule ccontr)
    assume "\<not> p1 dvd r - 1"
    then have "coprime p1 (r - 1)" by (metis is_prime_coprime [OF assms(1)] coprime_commute)
    then have i: "(p1 * inv_mod p1 (r - 1)) mod (r - 1) = 1" using r by (intro inv_mod_mult) auto
    let ?i = "inv_mod p1 (r - 1)"
    have "rpow r (r - 1) 2 (2 * p1 * ?i) = rpow r (r - 1) 2 2"
      using mod_mult_right_eq [of 2 "p1 * ?i" "r - 1"] i by (intro rpow_cong) (simp add: mult.assoc)
    moreover have "rpow r (r - 1) 2 (2 * p1 * ?i) = 1"
      using rpow_pow [OF rg c2, of ?i "2 * p1"] one inv_mod_range [of "r - 1" p1] r by simp
    moreover have "rpow r (r - 1) 2 2 = 2 ^ nat 2 mod r" by (rule rpow_nat [OF rg c2, symmetric]) simp
    ultimately have "4 mod r = 1 mod r" using r(1) by simp
    then have "r dvd 3" by (simp add: mod_eq_dvd_iff)
    then have "r \<le> 3" by (rule zdvd_imp_le) simp
    with r have "r = 3" by simp
    then show False using assms(3,6) by simp
  qed
  then have "p1 \<le> r - 1" using r(1) by (intro zdvd_imp_le) auto
  then show ?thesis by simp
qed

lemma pocklington:
  assumes "is_prime p1" "p = 2 * p1 + 1" "\<not> 3 dvd p" "2 ^ nat (2 * p1) mod p = 1"
  shows "is_prime p"
proof (rule ccontr)
  assume "\<not> is_prime p"
  have p1: "1 < p1" using assms(1) by (rule is_prime_gt_1)
  then obtain d where d: "2 \<le> d" "d < p" "d dvd p"
    using \<open>\<not> is_prime p\<close> assms(2) by (auto simp: is_prime_def)
  then obtain c where c: "p = d * c" by (auto elim: dvdE)
  have odd: "odd p" using assms(2) by simp
  have "d * 1 < d * c" using c d(2) by simp
  then have "1 < c" using d(1) by (simp only: mult_less_cancel_left_pos)
  have big: "p1 < x" if "1 < x" "x dvd p" for x
  proof -
    obtain r where r: "is_prime r" "r dvd x" using is_prime_divisor \<open>1 < x\<close> by blast
    then have "p1 < r" using pocklington_divisor [OF assms(1) odd assms(3,4)] that(2) dvd_trans by blast
    also have "r \<le> x" using r(2) that(1) by (intro zdvd_imp_le) auto
    finally show ?thesis .
  qed
  have "p1 < d" "p1 < c" using big [of d] big [of c] d \<open>1 < c\<close> c by auto
  then have "(p1 + 1) * (p1 + 1) \<le> d * c" using p1 by (intro mult_mono) auto
  moreover have "(p1 + 1) * (p1 + 1) = p1 * p1 + (2 * p1 + 1)" by (simp add: algebra_simps)
  moreover have "0 < p1 * p1" using p1 by simp
  ultimately show False using c assms(2) by linarith
qed

lemma square_root_of_one:
  assumes "is_prime p" "(y * y) mod p = 1"
  shows "y mod p = 1 \<or> y mod p = p - 1"
proof -
  have p: "1 < p" using assms(1) by (rule is_prime_gt_1)
  have "(y * y) mod p = 1 mod p" using assms(2) p by simp
  then have "p dvd (y - 1) * (y + 1)" by (simp add: mod_eq_dvd_iff algebra_simps)
  then have "p dvd y - 1 \<or> p dvd y + 1" by (rule is_prime_dvd_mult [OF assms(1)])
  moreover have "p dvd y + 1 \<Longrightarrow> p dvd (y + 1) - p" by simp
  moreover have "(y + 1) - p = y - (p - 1)" by simp
  ultimately have "y mod p = 1 mod p \<or> y mod p = (p - 1) mod p" by (auto simp only: mod_eq_dvd_iff)
  moreover have "1 mod p = 1" "(p - 1) mod p = p - 1" 
    using p by (simp, intro mod_pos_pos_trivial, linarith+)
  ultimately show ?thesis by (simp only:)
qed

lemma power_double: "(x::int) ^ nat p1 * x ^ nat p1 = x ^ nat (2 * p1)"
proof -
  have "nat (2 * p1) = nat p1 + nat p1" by simp
  then show ?thesis by (simp only: power_add)
qed

lemma fermat_of_root:
  assumes "2 ^ nat p1 mod p = (1::int) \<or> 2 ^ nat p1 mod p = p - 1" "1 < p"
  shows "2 ^ nat (2 * p1) mod p = 1"
proof -
  have "(p - 1) * (p - 1) = 1 + p * (p - 2)" by (simp add: algebra_simps)
  then have "((p - 1) * (p - 1)) mod p = 1 mod p" by (simp only: mod_mult_self2)
  then have "((2 ^ nat p1 mod p) * (2 ^ nat p1 mod p)) mod p = 1" using assms by auto
  then show ?thesis by (simp only: power_double [symmetric] mod_mult_eq)
qed

lemma safe_prime_tests:
  assumes "is_prime p1" "odd p1" "p = 2 * p1 + 1" "\<not> 3 dvd p"
  shows "(2 ^ nat p1 mod p1 = (2::int) \<and> (2 ^ nat p1 mod p = 1 \<or> 2 ^ nat p1 mod p = p - 1))
     \<longleftrightarrow> is_prime p"
proof
  have p1: "1 < p1" using assms(1) by (rule is_prime_gt_1)
  assume "2 ^ nat p1 mod p1 = (2::int) \<and> (2 ^ nat p1 mod p = 1 \<or> 2 ^ nat p1 mod p = p - 1)"
  then have y: "2 ^ nat p1 mod p = 1 \<or> 2 ^ nat p1 mod p = p - 1" by simp
  show "is_prime p" by (rule pocklington [OF assms(1,3,4) fermat_of_root [OF y]]) (use p1 assms(3) in simp)
next
  have p1: "1 < p1" "p1 \<noteq> 2" using assms(1,2) by (auto simp: is_prime_gt_1)
  assume p: "is_prime p"
  have nd: "\<not> p1 dvd 2" "\<not> p dvd 2" using p1 assms(3) zdvd_imp_le [of p1 2] zdvd_imp_le [of p 2] by auto
  have "(2 ^ nat p1 :: int) = 2 * 2 ^ (nat p1 - 1)" using p1 by (simp flip: power_Suc)
  then have "(2 ^ nat p1 :: int) mod p1 = (2 * (2 ^ (nat p1 - 1) mod p1)) mod p1" by (simp add: mod_mult_right_eq)
  then have "(2 ^ nat p1 :: int) mod p1 = 2" using fermat [OF assms(1) nd(1)] p1 by simp
  moreover have "nat p - 1 = nat (2 * p1)" using assms(3) p1 by simp
  then have "(2 ^ nat p1 * 2 ^ nat p1) mod p = (1::int)" using fermat [OF p nd(2)] by (simp add: power_double)
  ultimately show "2 ^ nat p1 mod p1 = (2::int) \<and> (2 ^ nat p1 mod p = 1 \<or> 2 ^ nat p1 mod p = p - 1)"
    using square_root_of_one [OF p] by simp
qed

subsection \<open>What the generator returns\<close>

definition make_odd :: "int \<Rightarrow> int" where
  "make_odd c = (if even c then c + 1 else c)"

definition strong_prime :: "int \<Rightarrow> int \<Rightarrow> bool" where
  "strong_prime e p1 = (is_prime p1 \<and> is_prime (2 * p1 + 1) \<and> 2 * p1 + 1 \<noteq> e
     \<and> (\<forall>r\<in>set (tl PRIMES). \<not> r dvd p1 \<and> \<not> r dvd 2 * p1 + 1))"

text \<open>What an accepted candidate \<open>p1\<close> satisfies, given that GMP's test answers no only for composite numbers.\<close>

definition accepted_half :: "(int \<Rightarrow> bool) \<Rightarrow> int \<Rightarrow> int \<Rightarrow> bool" where
  "accepted_half is_prime_test e p1 \<longleftrightarrow> is_prime_test p1 \<and> 2 * p1 + 1 \<noteq> e \<and> 2 ^ nat (2 * p1) mod (2 * p1 + 1) = (1::int)
     \<and> (is_prime p1 \<longrightarrow> strong_prime e p1)"

lemma strong_prime_round_eq:
  assumes "\<forall>x. is_prime x \<longrightarrow> is_prime_test x" "0 \<le> c"
  shows "\<exists>p' ok. strong_prime_round is_prime_test e p_old c = Some (make_odd c, p', ok)
    \<and> (strong_prime e (make_odd c) \<longrightarrow> ok) \<and> (ok \<longrightarrow> p' = 2 * make_odd c + 1 \<and> accepted_half is_prime_test e (make_odd c))"
proof -
  let ?p1 = "make_odd c"
  let ?ok1 = "\<forall>r\<in>set (tl PRIMES). \<not> r dvd ?p1" and ?ok2 = "\<forall>r\<in>set (tl PRIMES). \<not> r dvd 2 * ?p1 + 1"
  let ?roots = "2 ^ nat ?p1 mod ?p1 = 2 \<and> (2 ^ nat ?p1 mod (2 * ?p1 + 1) = 1 \<or> 2 ^ nat ?p1 mod (2 * ?p1 + 1) = 2 * ?p1 + 1 - 1)"
  have odd: "odd ?p1" "0 < ?p1" using assms(2) by (auto simp: make_odd_def order_less_le)
  have three: "\<not> 3 dvd 2 * ?p1 + 1" if ?ok2 using that by (auto simp: PRIMES_def)
  have pm: "bi_pow_mod 2 ?p1 ?p1 = Some (2 ^ nat ?p1 mod ?p1)"
    "bi_pow_mod 2 ?p1 (2 * ?p1 + 1) = Some (2 ^ nat ?p1 mod (2 * ?p1 + 1))"
    using odd(2) by (simp_all add: bi_pow_mod_def bi_rmod_def)
  consider "\<not> ?ok1" | "?ok1" "\<not> (?ok2 \<and> 2 * ?p1 + 1 \<noteq> e)" | "?ok1" "?ok2" "2 * ?p1 + 1 \<noteq> e" by blast
  then show ?thesis
  proof cases
    case 3
    have "strong_prime_round is_prime_test e p_old c = Some (?p1, 2 * ?p1 + 1, ?roots \<and> is_prime_test ?p1)"
      using 3 pm by (auto simp: strong_prime_round_def Let_def make_odd_def [symmetric] mult_2 [symmetric])
    moreover have "strong_prime e ?p1 \<longleftrightarrow> is_prime ?p1 \<and> ?roots"
      using 3 safe_prime_tests [OF _ odd(1) refl three] by (auto simp: strong_prime_def)
    moreover have "?roots \<Longrightarrow> 2 ^ nat (2 * ?p1) mod (2 * ?p1 + 1) = (1::int)" using odd(2) by (intro fermat_of_root) auto
    ultimately show ?thesis using 3(3) assms(1) by (auto simp: accepted_half_def)
  qed (auto simp: strong_prime_round_def strong_prime_def Let_def make_odd_def [symmetric] mult_2 [symmetric])
qed

text \<open>
  C10.  Let GMP's probabilistic test answer yes for every prime, as documented; it may err on composite
  numbers.  Then \<open>gen_strong_prime\<close> skips no draw that, made odd, is the half \<open>p1\<close> of a safe prime
  outside the sieve and different from \<open>e\<close>: it returns at the latest at the first of them.  What it
  returns is a draw, made odd, that the test accepts, with \<open>p = 2 * p1 + 1\<close>, which passes Fermat's test
  to base 2 and differs from \<open>e\<close>; and unless the test erred on \<open>p1\<close>, \<open>p\<close> is prime, although the code does
  not test it.
\<close>

theorem gen_strong_prime_refines:
  assumes "\<forall>x. is_prime x \<longrightarrow> is_prime_test x" "\<forall>c\<in>set cands. 0 \<le> c"
  shows "case gen_strong_prime is_prime_test e p_old cands of
      None \<Rightarrow> \<forall>c\<in>set cands. \<not> strong_prime e (make_odd c)
    | Some (p1, p) \<Rightarrow> p = 2 * p1 + 1 \<and> is_prime_test p1 \<and> p \<noteq> e \<and> 2 ^ nat (2 * p1) mod p = 1
        \<and> (is_prime p1 \<longrightarrow> is_prime p \<and> strong_prime e p1)
        \<and> (\<exists>cs c ds. cands = cs @ c # ds \<and> p1 = make_odd c \<and> (\<forall>c\<in>set cs. \<not> strong_prime e (make_odd c)))"
  using assms(2)
proof (induction cands arbitrary: p_old)
  case (Cons c cands)
  then obtain p' ok where r: "strong_prime_round is_prime_test e p_old c = Some (make_odd c, p', ok)"
      "strong_prime e (make_odd c) \<longrightarrow> ok" "ok \<longrightarrow> p' = 2 * make_odd c + 1 \<and> accepted_half is_prime_test e (make_odd c)"
    using strong_prime_round_eq [OF assms(1), of c e p_old] by auto
  show ?case
  proof (cases ok)
    case True
    have "\<exists>cs c' ds. c # cands = cs @ c' # ds \<and> make_odd c = make_odd c' \<and> (\<forall>c\<in>set cs. \<not> strong_prime e (make_odd c))"
      by (rule exI [of _ "[]"]) simp
    then show ?thesis using r True by (auto simp: accepted_half_def strong_prime_def)
  next
    case False
    have "\<exists>cs' c' ds'. c # cs @ c1 # ds = cs' @ c' # ds' \<and> make_odd c1 = make_odd c' \<and> (\<forall>c\<in>set cs'. \<not> strong_prime e (make_odd c))"
      if "\<forall>c\<in>set cs. \<not> strong_prime e (make_odd c)" for cs c1 ds
      using r(2) False that by (intro exI [of _ "c # cs"] exI [of _ c1] exI [of _ ds]) simp
    then show ?thesis using Cons.IH [of p'] Cons.prems r False by (auto split: option.splits)
  qed
qed simp

lemma strong_prime_593: "strong_prime 65537 593" "\<not> strong_prime 65537 599" "is_prime 599"
  by code_simp+

text \<open>A test that errs on a composite number.\<close>

definition erring_test :: "int \<Rightarrow> bool" where
  "erring_test x \<longleftrightarrow> is_prime x \<or> x = 341"

theorem gen_strong_prime_refines_witness:
  "gen_strong_prime erring_test 65537 0 [598, 592] = Some (593, 1187) \<and> is_prime 1187 \<and> erring_test 341"
proof -
  have "\<forall>x. is_prime x \<longrightarrow> erring_test x" "\<forall>c\<in>set [598, 592]. (0::int) \<le> c" by (simp_all add: erring_test_def)
  note g = gen_strong_prime_refines [OF this, of 65537 0]
  have o: "make_odd 598 = 599" "make_odd 592 = 593" by (simp_all add: make_odd_def)
  show ?thesis
  proof (cases "gen_strong_prime erring_test 65537 0 [598, 592]")
    case None
    then show ?thesis using g strong_prime_593 by (simp add: o)
  next
    case (Some pp)
    then obtain p1 p where pp: "pp = (p1, p)" by (cases pp)
    then obtain cs c ds where *: "p = 2 * p1 + 1" "is_prime p1 \<longrightarrow> is_prime p \<and> strong_prime 65537 p1"
        "[598, 592] = cs @ c # ds" "p1 = make_odd c"
      using g Some by (simp del: gen_strong_prime.simps) blast
    have "c \<in> set [598, 592]" unfolding *(3) by simp
    then have "p1 = 593" using *(2,4) strong_prime_593 by (auto simp: o)
    with *(1,2) pp Some strong_prime_593(1) show ?thesis by (simp add: strong_prime_def erring_test_def)
  qed
qed

end
