(* ===== verification/QC_Hash512.thy ===== *)
theory QC_Hash512
  imports QC_Prelude
begin

text \<open>
  The hash5 function FROST uses, \<open>HASH512\<close> of \<open>mcore/src/hash512.rs\<close>: the 64-bit sibling of
  \<open>HASH256\<close>.  128 steps of fuel are enough for its padding loop.
\<close>

unbundle bit_operations_syntax

record hash_state5 =
  hs5_length0 :: u64
  hs5_length1 :: u64
  hs5_h :: "u64 list"
  hs5_w :: "u64 list"

definition HASH512_H :: "u64 list" where
  "HASH512_H = [0x6a09e667f3bcc908, 0xbb67ae8584caa73b,
    0x3c6ef372fe94f82b, 0xa54ff53a5f1d36f1,
    0x510e527fade682d1, 0x9b05688c2b3e6c1f,
    0x1f83d9abfb41bd6b, 0x5be0cd19137e2179]"

definition HASH512_K :: "u64 list" where
  "HASH512_K = concat [
    [0x428a2f98d728ae22, 0x7137449123ef65cd, 0xb5c0fbcfec4d3b2f, 0xe9b5dba58189dbbc],
    [0x3956c25bf348b538, 0x59f111f1b605d019, 0x923f82a4af194f9b, 0xab1c5ed5da6d8118],
    [0xd807aa98a3030242, 0x12835b0145706fbe, 0x243185be4ee4b28c, 0x550c7dc3d5ffb4e2],
    [0x72be5d74f27b896f, 0x80deb1fe3b1696b1, 0x9bdc06a725c71235, 0xc19bf174cf692694],
    [0xe49b69c19ef14ad2, 0xefbe4786384f25e3, 0x0fc19dc68b8cd5b5, 0x240ca1cc77ac9c65],
    [0x2de92c6f592b0275, 0x4a7484aa6ea6e483, 0x5cb0a9dcbd41fbd4, 0x76f988da831153b5],
    [0x983e5152ee66dfab, 0xa831c66d2db43210, 0xb00327c898fb213f, 0xbf597fc7beef0ee4],
    [0xc6e00bf33da88fc2, 0xd5a79147930aa725, 0x06ca6351e003826f, 0x142929670a0e6e70],
    [0x27b70a8546d22ffc, 0x2e1b21385c26c926, 0x4d2c6dfc5ac42aed, 0x53380d139d95b3df],
    [0x650a73548baf63de, 0x766a0abb3c77b2a8, 0x81c2c92e47edaee6, 0x92722c851482353b],
    [0xa2bfe8a14cf10364, 0xa81a664bbc423001, 0xc24b8b70d0f89791, 0xc76c51a30654be30],
    [0xd192e819d6ef5218, 0xd69906245565a910, 0xf40e35855771202a, 0x106aa07032bbd1b8],
    [0x19a4c116b8d2d0c8, 0x1e376c085141ab53, 0x2748774cdf8eeb99, 0x34b0bcb5e19b48a8],
    [0x391c0cb3c5c95a63, 0x4ed8aa4ae3418acb, 0x5b9cca4f7763e373, 0x682e6ff3d6b2b8a3],
    [0x748f82ee5defb2fc, 0x78a5636f43172f60, 0x84c87814a1f0ab72, 0x8cc702081a6439ec],
    [0x90befffa23631e28, 0xa4506cebde82bde9, 0xbef9a3f7b2c67915, 0xc67178f2e372532b],
    [0xca273eceea26619c, 0xd186b8c721c0c207, 0xeada7dd6cde0eb1e, 0xf57d4f7fee6ed178],
    [0x06f067aa72176fba, 0x0a637dc5a2c898a6, 0x113f9804bef90dae, 0x1b710b35131c471b],
    [0x28db77f523047d84, 0x32caab7b40c72493, 0x3c9ebe0a15c9bebc, 0x431d67c49c100d4c],
    [0x4cc5d4becb3e42b6, 0x597f299cfc657e2a, 0x5fcb6fab3ad6faec, 0x6c44198c4a475817]]"

definition hash_s5 :: "nat \<Rightarrow> u64 \<Rightarrow> u64" where
  "hash_s5 n x = (drop_bit n x OR push_bit (64 - n) x)"

definition hash_r5 :: "nat \<Rightarrow> u64 \<Rightarrow> u64" where
  "hash_r5 n x = drop_bit n x"

definition hash_ch5 :: "u64 \<Rightarrow> u64 \<Rightarrow> u64 \<Rightarrow> u64" where
  "hash_ch5 x y z = ((x AND y) XOR (NOT x AND z))"

definition hash_maj5 :: "u64 \<Rightarrow> u64 \<Rightarrow> u64 \<Rightarrow> u64" where
  "hash_maj5 x y z = ((x AND y) XOR (x AND z) XOR (y AND z))"

definition hash_sig05 :: "u64 \<Rightarrow> u64" where
  "hash_sig05 x = (hash_s5 28 x XOR hash_s5 34 x XOR hash_s5 39 x)"

definition hash_sig15 :: "u64 \<Rightarrow> u64" where
  "hash_sig15 x = (hash_s5 14 x XOR hash_s5 18 x XOR hash_s5 41 x)"

definition hash_theta05 :: "u64 \<Rightarrow> u64" where
  "hash_theta05 x = (hash_s5 1 x XOR hash_s5 8 x XOR hash_r5 7 x)"

definition hash_theta15 :: "u64 \<Rightarrow> u64" where
  "hash_theta15 x = (hash_s5 19 x XOR hash_s5 61 x XOR hash_r5 6 x)"

text \<open>The message schedule fills \<open>w[16..80]\<close>; a round updates the eight working variables.\<close>

definition schedule_step5 :: "u64 list \<Rightarrow> nat \<Rightarrow> u64 list" where
  "schedule_step5 w j =
     w[j := hash_theta15 (w ! (j - 2)) + w ! (j - 7) + hash_theta05 (w ! (j - 15)) + w ! (j - 16)]"

definition hash_round5 :: "u64 list \<Rightarrow> u64 list \<Rightarrow> nat \<Rightarrow> u64 list" where
  "hash_round5 w v j =
     (let a = v ! 0; b = v ! 1; c = v ! 2; d = v ! 3; e = v ! 4; f = v ! 5; g = v ! 6; hh = v ! 7;
          t1 = hh + hash_sig15 e + hash_ch5 e f g + HASH512_K ! j + w ! j;
          t2 = hash_sig05 a + hash_maj5 a b c
      in [t1 + t2, a, b, c, d + t1, e, f, g])"

definition transform5 :: "hash_state5 \<Rightarrow> hash_state5" where
  "transform5 s =
     (let w = foldl schedule_step5 (hs5_w s) [16..<80];
          v = foldl (hash_round5 w) (hs5_h s) [0..<80]
      in s\<lparr>hs5_w := w, hs5_h := map2 (+) (hs5_h s) v\<rparr>)"

definition hash_reset5 :: "hash_state5 \<Rightarrow> hash_state5" where
  "hash_reset5 s = \<lparr>hs5_length0 = 0, hs5_length1 = 0, hs5_h = HASH512_H,
                   hs5_w = replicate 64 0 @ drop 64 (hs5_w s)\<rparr>"

definition hash_init5 :: hash_state5 where
  "hash_init5 = hash_reset5 \<lparr>hs5_length0 = 0, hs5_length1 = 0, hs5_h = replicate 8 0, hs5_w = replicate 80 0\<rparr>"

definition process5 :: "hash_state5 \<Rightarrow> u8 \<Rightarrow> hash_state5" where
  "process5 s byt =
     (let cnt = unat (hs5_length0 s div 64 mod 16);
          w = (hs5_w s)[cnt := push_bit 8 (hs5_w s ! cnt) OR ucast byt];
          len0 = hs5_length0 s + 8;
          s1 = s\<lparr>hs5_w := w, hs5_length0 := len0,
                 hs5_length1 := (if len0 = 0 then hs5_length1 s + 1 else hs5_length1 s)\<rparr>
      in if len0 mod 1024 = 0 then transform5 s1 else s1)"

definition process_array5 :: "hash_state5 \<Rightarrow> bytes \<Rightarrow> hash_state5" where
  "process_array5 s b = foldl process5 s b"

fun pad_zeros5 :: "nat \<Rightarrow> hash_state5 \<Rightarrow> hash_state5 option" where
  "pad_zeros5 fuel s =
     (if hs5_length0 s mod 1024 = 896 then Some s
      else case fuel of 0 \<Rightarrow> None | Suc n \<Rightarrow> pad_zeros5 n (process5 s 0))"

declare pad_zeros5.simps [simp del]

definition digest_byte5 :: "u64 list \<Rightarrow> nat \<Rightarrow> u8" where
  "digest_byte5 h i = ucast (drop_bit (8 * (7 - i mod 8)) (h ! (i div 8)) AND 0xff)"

text \<open>\<open>hash5\<close> returns the digest and resets the state; \<open>init\<close> clears only the first 64 words of \<open>w\<close>.\<close>

definition hash5 :: "hash_state5 \<Rightarrow> (bytes \<times> hash_state5) option" where
  "hash5 s = do {
     s1 \<leftarrow> pad_zeros5 128 (process5 s 0x80);
     let s2 = transform5 (s1\<lparr>hs5_w := (hs5_w s1)[14 := hs5_length1 s, 15 := hs5_length0 s]\<rparr>);
     Some (map (digest_byte5 (hs5_h s2)) [0..<64], hash_reset5 s2)
   }"

definition hash512 :: "bytes \<Rightarrow> bytes option" where
  "hash512 b = map_option fst (hash5 (process_array5 hash_init5 b))"

subsection \<open>The hash always returns 64 bytes\<close>

definition hash5_wf :: "hash_state5 \<Rightarrow> bool" where
  "hash5_wf s = (hs5_length0 s mod 8 = 0 \<and> length (hs5_h s) = 8 \<and> length (hs5_w s) = 80)"

lemma length_schedule5 [simp]: "length (foldl schedule_step5 w js) = length w"
  by (induction js arbitrary: w) (simp_all add: schedule_step5_def)

lemma length_hash_round5 [simp]: "length (hash_round5 w v j) = 8"
  by (simp add: hash_round5_def Let_def)

lemma length_rounds5 [simp]: "length v = 8 \<Longrightarrow> length (foldl (hash_round5 w) v js) = 8"
  by (induction js arbitrary: v) simp_all

lemma transform5_sel [simp]:
  "hs5_length0 (transform5 s) = hs5_length0 s" "hs5_length1 (transform5 s) = hs5_length1 s"
  "length (hs5_w (transform5 s)) = length (hs5_w s)"
  "length (hs5_h s) = 8 \<Longrightarrow> length (hs5_h (transform5 s)) = 8"
  by (simp_all add: transform5_def Let_def del: upt_rec_numeral upt_conv_Cons_Cons)

lemma process_length05 [simp]: "hs5_length0 (process5 s b) = hs5_length0 s + 8"
  by (simp add: process5_def Let_def)

lemma u64_mod_add5:
  fixes x y :: u64 and m :: nat
  assumes "m dvd 2 ^ 64" "m < 2 ^ 64" "0 < m"
  shows "unat ((x + y) mod of_nat m) = (unat x + unat y) mod m"
proof -
  have m: "unat (of_nat m :: u64) = m" using assms by (simp add: unat_of_nat)
  have "unat ((x + y) mod of_nat m) = (unat x + unat y) mod 2 ^ 64 mod m"
    by (simp add: unat_mod m unat_word_ariths)
  then show ?thesis using assms by (simp add: mod_mod_cancel)
qed

lemma process5_wf: "hash5_wf s \<Longrightarrow> hash5_wf (process5 s b)"
proof -
  assume wf: "hash5_wf s"
  have "unat (hs5_length0 s mod of_nat 8) = 0" using wf by (simp add: hash5_wf_def)
  then have "unat ((hs5_length0 s + 8) mod of_nat 8) = 0"
    using u64_mod_add5 [of 8 "hs5_length0 s" 8] by (simp add: unat_mod)
  then have "(hs5_length0 s + 8) mod 8 = 0" by (simp add: unat_eq_0)
  then show ?thesis using wf by (auto simp: hash5_wf_def process5_def Let_def)
qed

lemma process_array5_wf: "hash5_wf s \<Longrightarrow> hash5_wf (process_array5 s b)"
  unfolding process_array5_def by (induction b arbitrary: s) (simp_all add: process5_wf)

lemma hash_init5_wf: "hash5_wf hash_init5"
  by (simp add: hash5_wf_def hash_init5_def hash_reset5_def HASH512_H_def)

lemma pad_distance_05:
  fixes l :: nat
  assumes "l < 1024" "(896 + 1024 - l) mod 1024 = 0"
  shows "l = 896"
proof (cases "l \<le> 896")
  case True
  then have e: "896 + 1024 - l = (896 - l) + 1024" by simp
  have "(896 + 1024 - l) mod 1024 = 896 - l" unfolding e by simp
  then show ?thesis using assms True by simp
next
  case False
  then show ?thesis using assms by simp
qed

lemma pad_distance_step5:
  fixes l n :: nat
  assumes "l < 1024" "l mod 8 = 0" "l \<noteq> 896" "(896 + 1024 - l) mod 1024 \<le> 8 * Suc n"
  shows "(896 + 1024 - (l + 8) mod 1024) mod 1024 \<le> 8 * n"
proof -
  obtain m where l: "l = 8 * m" using assms(2) by (auto simp: mod_eq_0_iff_dvd)
  consider "m < 112" | "112 < m" "m < 127" | "m = 127" using assms l by linarith
  then show ?thesis
  proof cases
    case 1
    have e: "1920 - 8 * m = (896 - 8 * m) + 1024" "1912 - 8 * m = (888 - 8 * m) + 1024"
      using 1 by simp_all
    have "(1920 - 8 * m) mod 1024 = 896 - 8 * m" "(1912 - 8 * m) mod 1024 = 888 - 8 * m"
      unfolding e by simp_all
    then show ?thesis using assms(4) 1 l by simp
  next
    case 2
    then have "(1920 - 8 * m) mod 1024 = 1920 - 8 * m" "(1912 - 8 * m) mod 1024 = 1912 - 8 * m"
      by simp_all
    then show ?thesis using assms(4) 2 l by simp
  next
    case 3
    then show ?thesis using assms(4) l by simp
  qed
qed

lemma pad_zeros5_total:
  assumes "hash5_wf s" "(896 + 1024 - unat (hs5_length0 s mod 1024)) mod 1024 \<le> 8 * fuel"
  shows "\<exists>s'. pad_zeros5 fuel s = Some s' \<and> hash5_wf s' \<and> hs5_length0 s' mod 1024 = 896"
  using assms
proof (induction fuel arbitrary: s)
  case 0
  have "unat (hs5_length0 s mod 1024) < 1024"
    using word_mod_less_divisor [of 1024 "hs5_length0 s"] by (simp add: word_less_nat_alt)
  then have "unat (hs5_length0 s mod 1024) = 896" using pad_distance_05 0(2) by simp
  then have "hs5_length0 s mod 1024 = 896" by (simp add: word_unat_eq_iff)
  then show ?case using 0 by (simp add: pad_zeros5.simps)
next
  case (Suc n)
  show ?case
  proof (cases "hs5_length0 s mod 1024 = 896")
    case True
    then show ?thesis using Suc.prems by (simp add: pad_zeros5.simps)
  next
    case False
    let ?l = "unat (hs5_length0 s mod 1024)"
    have l1024: "?l < 1024"
      using word_mod_less_divisor [of 1024 "hs5_length0 s"] by (simp add: word_less_nat_alt)
    have ne: "?l \<noteq> 896" using False by (auto simp: word_unat_eq_iff)
    have "unat (hs5_length0 s) mod 8 = 0"
      using Suc.prems(1) unat_mod [of "hs5_length0 s" 8] by (simp add: hash5_wf_def)
    moreover have lm: "?l = unat (hs5_length0 s) mod 1024" by (simp add: unat_mod)
    ultimately have d8: "?l mod 8 = 0" by (simp add: mod_mod_cancel)
    have "unat ((hs5_length0 s + 8) mod 1024) = (?l + 8) mod 1024"
      using u64_mod_add5 [of 1024 "hs5_length0 s" 8] lm by (simp add: mod_add_left_eq)
    then have "(896 + 1024 - unat ((hs5_length0 s + 8) mod 1024)) mod 1024 \<le> 8 * n"
      using pad_distance_step5 [OF l1024 d8 ne Suc.prems(2)] by simp
    then have "\<exists>s'. pad_zeros5 n (process5 s 0) = Some s' \<and> hash5_wf s' \<and> hs5_length0 s' mod 1024 = 896"
      by (intro Suc.IH) (simp_all add: process5_wf Suc.prems(1))
    then show ?thesis using False by (simp add: pad_zeros5.simps)
  qed
qed

lemma hash5_total:
  assumes "hash5_wf s"
  shows "\<exists>d s'. hash5 s = Some (d, s') \<and> length d = 64"
proof -
  have "(896 + 1024 - unat (hs5_length0 (process5 s 0x80) mod 1024)) mod 1024 \<le> 8 * (128 :: nat)"
    by (rule order_trans [OF less_imp_le [OF mod_less_divisor]]) auto
  then obtain s' where "pad_zeros5 128 (process5 s 0x80) = Some s'"
    using pad_zeros5_total [OF process5_wf [OF assms]] by blast
  then show ?thesis by (simp add: hash5_def Let_def del: upt_rec_numeral)
qed

lemma hash512_total: "\<exists>d. hash512 b = Some d \<and> length d = 64"
  using hash5_total [OF process_array5_wf [OF hash_init5_wf], of b] unfolding hash512_def by fastforce

definition sha5 :: "bytes \<Rightarrow> bytes" where
  "sha5 b = the (hash512 b)"

lemma hash512_sha [simp]: "hash512 b = Some (sha5 b)"
  using hash512_total [of b] by (auto simp: sha5_def)

lemma length_sha5 [simp]: "length (sha5 b) = 64"
  using hash512_total [of b] by simp

end
