(* ===== verification/QC_Sha3.thy ===== *)
theory QC_Sha3
  imports QC_Hash512
begin

text \<open>
  The other hash functions of \<open>mcore\<close> that its general-purpose hash dispatches to.  \<open>HASH384\<close>
  (\<open>mcore/src/hash384.rs\<close>) repeats \<open>hash512.rs\<close> line by line but for its initial value and the length of
  its digest, so it shares the functions of \<open>HASH512\<close>.  \<open>SHA3\<close> (\<open>mcore/src/sha3.rs\<close>) is Keccak with
  a rate of \<open>200 - 2 * len\<close> octets.  Its padding loop runs on fuel 400 and its squeezing loop on one
  step per octet; \<open>sha3_hash_total\<close> shows that this is enough.
\<close>

unbundle bit_operations_syntax

subsection \<open>HASH384\<close>

definition HASH384_H :: "u64 list" where
  "HASH384_H = [0xcbbb9d5dc1059ed8, 0x629a292a367cd507,
    0x9159015a3070dd17, 0x152fecd8f70e5939,
    0x67332667ffc00b31, 0x8eb44a8768581511,
    0xdb0c2e0d64f98fa7, 0x47b5481dbefa4fa4]"

definition hash_reset3 :: "hash_state5 \<Rightarrow> hash_state5" where
  "hash_reset3 s = (hash_reset5 s)\<lparr>hs5_h := HASH384_H\<rparr>"

definition hash_init3 :: hash_state5 where
  "hash_init3 = hash_reset3 \<lparr>hs5_length0 = 0, hs5_length1 = 0, hs5_h = replicate 8 0, hs5_w = replicate 80 0\<rparr>"

definition hash3 :: "hash_state5 \<Rightarrow> (bytes \<times> hash_state5) option" where
  "hash3 s = do {
     s1 \<leftarrow> pad_zeros5 128 (process5 s 0x80);
     let s2 = transform5 (s1\<lparr>hs5_w := (hs5_w s1)[14 := hs5_length1 s, 15 := hs5_length0 s]\<rparr>);
     Some (map (digest_byte5 (hs5_h s2)) [0..<48], hash_reset3 s2)
   }"

subsection \<open>SHA3\<close>

record sha3_state =
  s3_length :: u64
  s3_rate :: nat
  s3_len :: nat
  s3_s :: "u64 list list"

definition sha3_RC :: "u64 list" where
  "sha3_RC = [
    0x0000000000000001, 0x0000000000008082, 0x800000000000808A, 0x8000000080008000,
    0x000000000000808B, 0x0000000080000001, 0x8000000080008081, 0x8000000000008009,
    0x000000000000008A, 0x0000000000000088, 0x0000000080008009, 0x000000008000000A,
    0x000000008000808B, 0x800000000000008B, 0x8000000000008089, 0x8000000000008003,
    0x8000000000008002, 0x8000000000000080, 0x000000000000800A, 0x800000008000000A,
    0x8000000080008081, 0x8000000000008080, 0x0000000080000001, 0x8000000080008008]"

definition rotl :: "u64 \<Rightarrow> nat \<Rightarrow> u64" where
  "rotl x n = (push_bit n x OR drop_bit (64 - n) x)"

text \<open>The assignments \<open>b[i][j] = rotl(s[k][l], n)\<close> in their order.\<close>

definition sha3_rho :: "((nat \<times> nat) \<times> (nat \<times> nat) \<times> nat) list" where
  "sha3_rho = [
    ((0, 0), (0, 0), 0), ((1, 3), (0, 1), 36), ((2, 1), (0, 2), 3), ((3, 4), (0, 3), 41), ((4, 2), (0, 4), 18),
    ((0, 2), (1, 0), 1), ((1, 0), (1, 1), 44), ((2, 3), (1, 2), 10), ((3, 1), (1, 3), 45), ((4, 4), (1, 4), 2),
    ((0, 4), (2, 0), 62), ((1, 2), (2, 1), 6), ((2, 0), (2, 2), 43), ((3, 3), (2, 3), 15), ((4, 1), (2, 4), 61),
    ((0, 1), (3, 0), 28), ((1, 4), (3, 1), 55), ((2, 2), (3, 2), 25), ((3, 0), (3, 3), 21), ((4, 3), (3, 4), 56),
    ((0, 3), (4, 0), 27), ((1, 1), (4, 1), 20), ((2, 4), (4, 2), 39), ((3, 2), (4, 3), 8), ((4, 0), (4, 4), 14)]"

definition set2 :: "'a list list \<Rightarrow> nat \<Rightarrow> nat \<Rightarrow> 'a \<Rightarrow> 'a list list" where
  "set2 m i j x = m[i := (m ! i)[j := x]]"

definition sha3_round :: "u64 list list \<Rightarrow> nat \<Rightarrow> u64 list list" where
  "sha3_round s k =
     (let c = map (\<lambda>i. s ! i ! 0 XOR s ! i ! 1 XOR s ! i ! 2 XOR s ! i ! 3 XOR s ! i ! 4) [0..<5];
          d = map (\<lambda>i. c ! ((i + 4) mod 5) XOR rotl (c ! ((i + 1) mod 5)) 1) [0..<5];
          s1 = map (\<lambda>i. map (\<lambda>j. s ! i ! j XOR d ! i) [0..<5]) [0..<5];
          b = foldl (\<lambda>b ((i, j), (k, l), n). set2 b i j (rotl (s1 ! k ! l) n)) (replicate 5 (replicate 5 0)) sha3_rho;
          s2 = map (\<lambda>i. map (\<lambda>j. b ! i ! j XOR (NOT (b ! ((i + 1) mod 5) ! j) AND b ! ((i + 2) mod 5) ! j)) [0..<5]) [0..<5]
      in set2 s2 0 0 (s2 ! 0 ! 0 XOR sha3_RC ! k))"

definition sha3_transform :: "sha3_state \<Rightarrow> sha3_state" where
  "sha3_transform st = st\<lparr>s3_s := foldl sha3_round (s3_s st) [0..<24]\<rparr>"

definition sha3_new :: "nat \<Rightarrow> sha3_state may_panic" where
  "sha3_new olen =
     (if 200 < 2 * olen then None
      else Some \<lparr>s3_length = 0, s3_rate = 200 - 2 * olen, s3_len = olen, s3_s = replicate 5 (replicate 5 0)\<rparr>)"

definition sha3_process :: "sha3_state \<Rightarrow> u8 \<Rightarrow> sha3_state may_panic" where
  "sha3_process st byt =
     (if s3_rate st = 0 then None
      else let cnt = unat (s3_length st) mod s3_rate st;
               b = cnt mod 8; ind = cnt div 8; i = ind mod 5; j = ind div 5;
               st' = st\<lparr>s3_s := set2 (s3_s st) i j (s3_s st ! i ! j XOR push_bit (8 * b) (ucast byt)),
                        s3_length := s3_length st + 1\<rparr>
           in Some (if cnt + 1 = s3_rate st then sha3_transform st' else st'))"

definition sha3_process_array :: "sha3_state \<Rightarrow> bytes \<Rightarrow> sha3_state may_panic" where
  "sha3_process_array = foldM sha3_process"

text \<open>One octet of the squeezed output; \<open>done\<close> skips the rest of the state.\<close>

definition squeeze_step :: "nat \<Rightarrow> nat \<Rightarrow> bytes \<times> nat \<times> bool \<Rightarrow> u8 \<Rightarrow> (bytes \<times> nat \<times> bool) may_panic" where
  "squeeze_step rate olen = (\<lambda>(buff, m, done) byt.
     if done then Some (buff, m, done)
     else if length buff \<le> m then None
     else Some (buff[m := byt], m + 1, olen \<le> m + 1 \<or> (m + 1) mod rate = 0))"

definition sha3_bytes :: "u64 list list \<Rightarrow> bytes" where
  "sha3_bytes s = concat (map (\<lambda>j. concat (map (\<lambda>i. map (\<lambda>b. ucast (drop_bit (8 * b) (s ! i ! j) AND 0xff)) [0..<8]) [0..<5])) [0..<5])"

fun squeeze_loop :: "nat \<Rightarrow> nat \<Rightarrow> sha3_state \<Rightarrow> bytes \<Rightarrow> nat \<Rightarrow> (sha3_state \<times> bytes) may_panic" where
  "squeeze_loop 0 olen st buff m = None"
| "squeeze_loop (Suc fuel) olen st buff m = do {
     (buff', m', _) \<leftarrow> foldM (squeeze_step (s3_rate st) olen) (buff, m, False) (sha3_bytes (s3_s st));
     if olen \<le> m' then Some (st, buff') else squeeze_loop fuel olen (sha3_transform st) buff' m'
   }"

definition squeeze :: "sha3_state \<Rightarrow> bytes \<Rightarrow> nat \<Rightarrow> (sha3_state \<times> bytes) may_panic" where
  "squeeze st buff olen = squeeze_loop (olen + 1) olen st buff 0"

fun sha3_pad :: "nat \<Rightarrow> sha3_state \<Rightarrow> sha3_state may_panic" where
  "sha3_pad fuel st =
     (if unat (s3_length st) mod s3_rate st = s3_rate st - 1 then Some st
      else case fuel of 0 \<Rightarrow> None | Suc n \<Rightarrow> do { st' \<leftarrow> sha3_process st 0; sha3_pad n st' })"

declare sha3_pad.simps [simp del]

definition sha3_finish :: "u8 \<Rightarrow> u8 \<Rightarrow> sha3_state \<Rightarrow> sha3_state may_panic" where
  "sha3_finish first only st =
     (if s3_rate st = 0 then None
      else if s3_rate st - unat (s3_length st) mod s3_rate st = 1 then sha3_process st only
      else do { st1 \<leftarrow> sha3_process st first; st2 \<leftarrow> sha3_pad 400 st1; sha3_process st2 0x80 })"

definition sha3_hash :: "sha3_state \<Rightarrow> bytes \<Rightarrow> (sha3_state \<times> bytes) may_panic" where
  "sha3_hash st digest = do { st' \<leftarrow> sha3_finish 0x06 0x86 st; squeeze st' digest (s3_len st') }"

definition shake :: "sha3_state \<Rightarrow> bytes \<Rightarrow> nat \<Rightarrow> (sha3_state \<times> bytes) may_panic" where
  "shake st digest olen = do { st' \<leftarrow> sha3_finish 0x1f 0x9f st; squeeze st' digest olen }"

subsection \<open>Digests have their length\<close>

lemma hash_init3_wf: "hash5_wf hash_init3"
  by (simp add: hash5_wf_def hash_init3_def hash_reset3_def hash_reset5_def HASH384_H_def)

lemma hash3_total:
  assumes "hash5_wf s"
  shows "\<exists>d s'. hash3 s = Some (d, s') \<and> length d = 48"
proof -
  have "(896 + 1024 - unat (hs5_length0 (process5 s 0x80) mod 1024)) mod 1024 \<le> 8 * (128 :: nat)"
    by (rule order_trans [OF less_imp_le [OF mod_less_divisor]]) auto
  then obtain s' where "pad_zeros5 128 (process5 s 0x80) = Some s'"
    using pad_zeros5_total [OF process5_wf [OF assms]] by blast
  then show ?thesis by (simp add: hash3_def Let_def del: upt_rec_numeral)
qed

lemma sha3_transform_sel [simp]:
  "s3_rate (sha3_transform st) = s3_rate st" "s3_len (sha3_transform st) = s3_len st" "s3_length (sha3_transform st) = s3_length st"
  by (simp_all add: sha3_transform_def)

lemma sha3_process_total:
  assumes "0 < s3_rate st"
  shows "\<exists>st'. sha3_process st b = Some st' \<and> s3_rate st' = s3_rate st \<and> s3_len st' = s3_len st \<and> s3_length st' = s3_length st + 1"
  using assms by (simp add: sha3_process_def Let_def)

lemma sha3_process_array_total:
  assumes "0 < s3_rate st"
  shows "\<exists>st'. sha3_process_array st b = Some st' \<and> s3_rate st' = s3_rate st \<and> s3_len st' = s3_len st
    \<and> s3_length st' = s3_length st + of_nat (length b)"
  using assms
proof (induction b arbitrary: st)
  case (Cons a b)
  obtain s1 where s1: "sha3_process st a = Some s1" "s3_rate s1 = s3_rate st" "s3_len s1 = s3_len st" "s3_length s1 = s3_length st + 1"
    using sha3_process_total [OF Cons.prems] by blast
  from Cons.IH [of s1] Cons.prems s1 show ?case by (auto simp: sha3_process_array_def)
qed (simp add: sha3_process_array_def)

lemma unat_add1_u64: "unat x + 1 < 2 ^ 64 \<Longrightarrow> unat (x + 1 :: u64) = unat x + 1"
  by (simp add: unat_word_ariths)

lemma sha3_pad_total:
  assumes "0 < s3_rate st" "unat (s3_length st) + fuel < 2 ^ 64" "s3_rate st - 1 - unat (s3_length st) mod s3_rate st \<le> fuel"
  shows "\<exists>st'. sha3_pad fuel st = Some st' \<and> s3_rate st' = s3_rate st \<and> s3_len st' = s3_len st"
  using assms
proof (induction fuel arbitrary: st)
  case 0
  moreover have "unat (s3_length st) mod s3_rate st < s3_rate st" using "0.prems"(1) by simp
  ultimately have "unat (s3_length st) mod s3_rate st = s3_rate st - 1" by linarith
  then show ?case by (simp add: sha3_pad.simps)
next
  case (Suc n)
  let ?l = "unat (s3_length st)" and ?r = "s3_rate st"
  show ?case
  proof (cases "?l mod ?r = ?r - 1")
    case True
    then show ?thesis by (simp add: sha3_pad.simps)
  next
    case False
    obtain s1 where s1: "sha3_process st 0 = Some s1" "s3_rate s1 = ?r" "s3_len s1 = s3_len st" "s3_length s1 = s3_length st + 1"
      using sha3_process_total [OF Suc.prems(1)] by blast
    have u: "unat (s3_length s1) = ?l + 1" unfolding s1(4) by (rule unat_add1_u64) (use Suc.prems(2) in simp)
    have "?l mod ?r < ?r" using Suc.prems(1) by simp
    then have "(?l + 1) mod ?r = ?l mod ?r + 1" using False by (simp add: mod_Suc)
    with u Suc.prems s1(2) have "s3_rate s1 - 1 - unat (s3_length s1) mod s3_rate s1 \<le> n" "unat (s3_length s1) + n < 2 ^ 64" by simp_all
    from Suc.IH [OF _ this(2,1)] s1 Suc.prems(1) False show ?thesis by (auto simp: sha3_pad.simps [of "Suc n"])
  qed
qed

lemma sha3_finish_total:
  assumes "0 < s3_rate st" "s3_rate st \<le> 200" "unat (s3_length st) + 401 < 2 ^ 64"
  shows "\<exists>st'. sha3_finish a b st = Some st' \<and> s3_rate st' = s3_rate st \<and> s3_len st' = s3_len st"
proof (cases "s3_rate st - unat (s3_length st) mod s3_rate st = 1")
  case True
  then show ?thesis using assms(1) sha3_process_total [OF assms(1), of b] by (auto simp: sha3_finish_def)
next
  case False
  obtain s1 where s1: "sha3_process st a = Some s1" "s3_rate s1 = s3_rate st" "s3_len s1 = s3_len st" "s3_length s1 = s3_length st + 1"
    using sha3_process_total [OF assms(1)] by blast
  have "unat (s3_length s1) = unat (s3_length st) + 1" unfolding s1(4) by (rule unat_add1_u64) (use assms(3) in simp)
  then have "unat (s3_length s1) + 400 < 2 ^ 64" using assms(3) by simp
  moreover have "s3_rate s1 - 1 - unat (s3_length s1) mod s3_rate s1 \<le> 400" using s1(2) assms(2) by simp
  ultimately obtain s2 where s2: "sha3_pad 400 s1 = Some s2" "s3_rate s2 = s3_rate st" "s3_len s2 = s3_len st"
    using sha3_pad_total [of s1 400] s1(2,3) assms(1) by metis
  obtain s3 where "sha3_process s2 0x80 = Some s3" "s3_rate s3 = s3_rate st" "s3_len s3 = s3_len st"
    using sha3_process_total [of s2 "0x80"] s2 assms(1) by auto
  then show ?thesis using False assms(1) s1(1) s2(1) by (simp add: sha3_finish_def)
qed

lemma squeeze_fold:
  assumes "done \<or> m < olen" "m \<le> olen" "olen \<le> length buff"
  shows "\<exists>buff' m' done'. foldM (squeeze_step rate olen) (buff, m, done) xs = Some (buff', m', done')
    \<and> length buff' = length buff \<and> m \<le> m' \<and> m' \<le> olen \<and> (\<not> done \<and> xs \<noteq> [] \<longrightarrow> m < m')"
  using assms
proof (induction xs arbitrary: buff m "done")
  case (Cons x xs)
  show ?case
  proof (cases "done")
    case True
    then show ?thesis using Cons.IH [of True m buff] Cons.prems by (simp add: squeeze_step_def)
  next
    case False
    let ?d = "olen \<le> m + 1 \<or> (m + 1) mod rate = 0"
    have "squeeze_step rate olen (buff, m, done) x = Some (buff[m := x], m + 1, ?d)"
      using False Cons.prems by (simp add: squeeze_step_def)
    moreover have "?d \<or> m + 1 < olen" "m + 1 \<le> olen" "olen \<le> length (buff[m := x])" using False Cons.prems by auto
    ultimately show ?thesis using Cons.IH [of ?d "m + 1" "buff[m := x]"] by fastforce
  qed
qed simp

lemma squeeze_loop_total:
  assumes "m < olen" "olen \<le> length buff" "olen - m \<le> fuel"
  shows "\<exists>st' buff'. squeeze_loop fuel olen st buff m = Some (st', buff') \<and> length buff' = length buff"
  using assms
proof (induction fuel arbitrary: st buff m)
  case (Suc fuel)
  have "sha3_bytes (s3_s st) \<noteq> []" by (simp add: sha3_bytes_def upt_rec)
  with squeeze_fold [of False m olen buff "s3_rate st" "sha3_bytes (s3_s st)"] Suc.prems
  obtain buff' m' d where f: "foldM (squeeze_step (s3_rate st) olen) (buff, m, False) (sha3_bytes (s3_s st)) = Some (buff', m', d)"
      "length buff' = length buff" "m < m'" "m' \<le> olen" by auto
  then show ?case using Suc.IH [of m' buff' "sha3_transform st"] Suc.prems by auto
qed simp

lemma sha3_hash_total:
  assumes "0 < s3_rate st" "s3_rate st \<le> 200" "unat (s3_length st) + 401 < 2 ^ 64" "0 < s3_len st" "s3_len st \<le> length digest"
  shows "\<exists>st' d. sha3_hash st digest = Some (st', d) \<and> length d = length digest"
proof -
  obtain s1 where s1: "sha3_finish 0x06 0x86 st = Some s1" "s3_len s1 = s3_len st"
    using sha3_finish_total [OF assms(1-3)] by blast
  from squeeze_loop_total [of 0 "s3_len st" digest "s3_len st + 1" s1] assms(4,5) s1 show ?thesis
    by (simp add: sha3_hash_def squeeze_def del: squeeze_loop.simps)
qed

end
