(* ===== verification/QC_Hkdf.thy ===== *)
theory QC_Hkdf
  imports QC_Hash256 QC_Sha3
begin

text \<open>
  The key derivation of \<open>mcore/src/hmac.rs\<close>: the general-purpose hash \<open>GPhashit\<close>, HMAC and the two
  halves of HKDF.  The functions write into slices of their caller, so a model returns the slice as
  written, or \<open>None\<close> when an index is out of bounds.  The functions of \<open>hmac.rs\<close> that the
  repository does not call (padding schemes, \<open>kdf2\<close>, \<open>pbkdf2\<close>, expanders) are left out.
\<close>

unbundle bit_operations_syntax

definition MC_SHA2 :: nat where
  "MC_SHA2 = 2"

definition MC_SHA3 :: nat where
  "MC_SHA3 = 3"

subsection \<open>Writing into slices\<close>

text \<open>\<open>for i in 0..n { w[off + i] = r[i] }\<close>\<close>

definition copy_at :: "bytes \<Rightarrow> nat \<Rightarrow> bytes \<Rightarrow> nat \<Rightarrow> bytes may_panic" where
  "copy_at w off r n =
     (if n = 0 then Some w
      else if length w < off + n \<or> length r < n then None
      else Some (take off w @ take n r @ drop (off + n) w))"

lemma copy_at_0: "n \<le> length w \<Longrightarrow> n \<le> length r \<Longrightarrow> copy_at w 0 r n = Some (take n r @ drop n w)"
  by (simp add: copy_at_def)

subsection \<open>The general-purpose hash\<close>

definition num_bytes :: "int \<Rightarrow> bytes" where
  "num_bytes n = (let w = word_of_int n :: u32 in
     [ucast (drop_bit 24 w AND 0xff), ucast (drop_bit 16 w AND 0xff), ucast (drop_bit 8 w AND 0xff), ucast (w AND 0xff)])"

text \<open>What is fed to the hash: \<open>zpad\<close> zeros, then \<open>a\<close>, then \<open>n\<close> unless it is negative, then \<open>b\<close>.\<close>

definition gp_input :: "nat \<Rightarrow> bytes option \<Rightarrow> int \<Rightarrow> bytes option \<Rightarrow> bytes" where
  "gp_input zpad a n b = replicate zpad 0 @ (case a of None \<Rightarrow> [] | Some x \<Rightarrow> x)
     @ (if 0 \<le> n then num_bytes n else []) @ (case b of None \<Rightarrow> [] | Some x \<Rightarrow> x)"

definition gp_digest :: "nat \<Rightarrow> nat \<Rightarrow> bytes \<Rightarrow> bytes may_panic" where
  "gp_digest hsh sz msg =
     (let r = replicate 64 0 in
      if hsh = MC_SHA2 then
        if sz = 32 then do { (hs, _) \<leftarrow> hash (process_array hash_init msg); copy_at r 0 hs sz }
        else if sz = 48 then do { (hs, _) \<leftarrow> hash3 (process_array5 hash_init3 msg); copy_at r 0 hs sz }
        else if sz = 64 then do { (hs, _) \<leftarrow> hash5 (process_array5 hash_init5 msg); copy_at r 0 hs sz }
        else Some r
      else if hsh = MC_SHA3 then do {
        h \<leftarrow> sha3_new sz;
        h' \<leftarrow> sha3_process_array h msg;
        (_, r') \<leftarrow> sha3_hash h' r;
        Some r'
      }
      else Some r)"

definition GPhashit ::
  "nat \<Rightarrow> nat \<Rightarrow> bytes \<Rightarrow> nat \<Rightarrow> nat \<Rightarrow> bytes option \<Rightarrow> int \<Rightarrow> bytes option \<Rightarrow> bytes may_panic" where
  "GPhashit hsh sz w pad zpad a n b = do {
     r \<leftarrow> gp_digest hsh sz (gp_input zpad a n b);
     if pad = 0 then copy_at w 0 r sz
     else if pad \<le> sz then copy_at w 0 r pad
     else do {
       w' \<leftarrow> copy_at w (pad - sz) r sz;
       copy_at w' 0 (replicate (pad - sz) 0) (pad - sz)
     }
   }"

definition SPhashit :: "nat \<Rightarrow> nat \<Rightarrow> bytes \<Rightarrow> bytes option \<Rightarrow> bytes may_panic" where
  "SPhashit hsh sz w a = GPhashit hsh sz w 0 0 a (- 1) None"

definition blksize :: "nat \<Rightarrow> nat \<Rightarrow> nat may_panic" where
  "blksize hsh sz =
     (if hsh = MC_SHA3 then (if 200 < 2 * sz then None else Some (200 - 2 * sz))
      else if hsh = MC_SHA2 then Some (if 32 < sz then 128 else 64)
      else Some 0)"

subsection \<open>HMAC and HKDF\<close>

definition hmac1 :: "nat \<Rightarrow> nat \<Rightarrow> bytes \<Rightarrow> nat \<Rightarrow> bytes \<Rightarrow> bytes \<Rightarrow> (bytes \<times> bool) may_panic" where
  "hmac1 hsh sz tag olen k m = do {
     lb \<leftarrow> blksize hsh sz;
     if lb = 0 then Some (tag, False)
     else if 128 < lb then None
     else do {
       k0 \<leftarrow> (if lb < length k
               then do { b \<leftarrow> SPhashit hsh sz (replicate 64 0) (Some k); copy_at (replicate 128 0) 0 b sz }
               else copy_at (replicate 128 0) 0 k (length k));
       let k1 = map (\<lambda>x. x XOR 0x36) (take lb k0);
       b \<leftarrow> GPhashit hsh sz (replicate 64 0) 0 0 (Some k1) (- 1) (Some m);
       let k2 = map (\<lambda>x. x XOR 0x6a) k1;
       tag' \<leftarrow> GPhashit hsh sz tag olen 0 (Some k2) (- 1) (Some (take sz b));
       Some (tag', True)
     }
   }"

definition hkdf_extract :: "nat \<Rightarrow> nat \<Rightarrow> bytes \<Rightarrow> bytes option \<Rightarrow> bytes \<Rightarrow> bytes may_panic" where
  "hkdf_extract hsh hlen prk salt ikm =
     (case salt of
        Some x \<Rightarrow> map_option fst (hmac1 hsh hlen prk hlen x ikm)
      | None \<Rightarrow> if 64 < hlen then None else map_option fst (hmac1 hsh hlen prk hlen (replicate hlen 0) ikm))"

text \<open>
  The buffer \<open>t\<close> has 1024 octets; \<open>prev\<close> are the octets of the last block it starts with.  A counter
  is truncated to 8 bits.
\<close>

definition expand_block :: "nat \<Rightarrow> nat \<Rightarrow> nat \<Rightarrow> bytes \<Rightarrow> bytes \<Rightarrow> bytes \<Rightarrow> bytes \<Rightarrow> nat \<Rightarrow> bytes may_panic" where
  "expand_block hsh hlen olen prk info prev k i =
     (let t = prev @ info @ [of_nat i] in
      if 1024 < length t then None else map_option fst (hmac1 hsh hlen k olen prk t))"

fun expand_loop ::
  "nat \<Rightarrow> nat \<Rightarrow> bytes \<Rightarrow> bytes \<Rightarrow> nat list \<Rightarrow> bytes \<times> bytes \<times> bytes \<times> nat \<Rightarrow> (bytes \<times> bytes \<times> bytes \<times> nat) may_panic" where
  "expand_loop hsh hlen prk info [] (okm, k, prev, m) = Some (okm, k, prev, m)"
| "expand_loop hsh hlen prk info (i # is) (okm, k, prev, m) = do {
     k' \<leftarrow> expand_block hsh hlen hlen prk info prev k i;
     okm' \<leftarrow> copy_at okm m k' hlen;
     expand_loop hsh hlen prk info is (okm', k', take hlen k', m + hlen)
   }"

definition hkdf_expand :: "nat \<Rightarrow> nat \<Rightarrow> bytes \<Rightarrow> nat \<Rightarrow> bytes \<Rightarrow> bytes \<Rightarrow> bytes may_panic" where
  "hkdf_expand hsh hlen okm olen prk info =
     (if hlen = 0 then None
      else do {
        let n = olen div hlen;
        let flen = olen mod hlen;
        (okm', k, prev, m) \<leftarrow> expand_loop hsh hlen prk info [1..<n + 1] (okm, replicate 64 0, [], 0);
        if flen = 0 then Some okm'
        else do {
          k' \<leftarrow> expand_block hsh hlen flen prk info prev k (n + 1);
          copy_at okm' m k' flen
        }
      })"

subsection \<open>The standards\<close>

text \<open>HMAC of RFC 2104 and HKDF of RFC 5869 over SHA-256, with its blocks of 64 octets.\<close>

definition rfc_hmac :: "bytes \<Rightarrow> bytes \<Rightarrow> bytes" where
  "rfc_hmac k m =
     (let k' = (if 64 < length k then sha k else k);
          k0 = k' @ replicate (64 - length k') 0
      in sha (map (\<lambda>x. x XOR 0x5c) k0 @ sha (map (\<lambda>x. x XOR 0x36) k0 @ m)))"

fun rfc_T :: "bytes \<Rightarrow> bytes \<Rightarrow> nat \<Rightarrow> bytes" where
  "rfc_T prk info 0 = []"
| "rfc_T prk info (Suc i) = rfc_hmac prk (rfc_T prk info i @ info @ [of_nat (Suc i)])"

definition rfc_expand :: "bytes \<Rightarrow> bytes \<Rightarrow> nat \<Rightarrow> bytes" where
  "rfc_expand prk info len = take len (concat (map (rfc_T prk info) [1..<(len + 31) div 32 + 1]))"

lemma length_rfc_hmac [simp]: "length (rfc_hmac k m) = 32"
  by (simp add: rfc_hmac_def Let_def)

lemma gp_digest_sha256: "gp_digest MC_SHA2 32 msg = Some (sha msg @ replicate 32 0)"
proof -
  obtain st where "hash (process_array hash_init msg) = Some (sha msg, st)"
    using hash256_sha [of msg] unfolding hash256_def by fastforce
  then show ?thesis by (simp add: gp_digest_def copy_at_def MC_SHA2_def)
qed

lemma GPhashit_sha256:
  assumes "olen \<le> 32" "32 \<le> length w \<or> 0 < olen \<and> olen \<le> length w"
  shows "GPhashit MC_SHA2 32 w olen 0 (Some a) (- 1) (Some b)
    = Some (let l = (if olen = 0 then 32 else olen) in take l (sha (a @ b)) @ drop l w)"
proof -
  have "gp_input 0 (Some a) (- 1) (Some b) = a @ b" by (simp add: gp_input_def)
  then show ?thesis using assms by (auto simp: GPhashit_def gp_digest_sha256 copy_at_def)
qed

lemma SPhashit_sha256: "SPhashit MC_SHA2 32 (replicate 64 0) (Some a) = Some (sha a @ replicate 32 0)"
  by (simp add: SPhashit_def GPhashit_def gp_input_def gp_digest_sha256 copy_at_def)

lemma hmac1_sha256:
  assumes "0 < olen" "olen \<le> 32" "olen \<le> length tag"
  shows "hmac1 MC_SHA2 32 tag olen k m = Some (take olen (rfc_hmac k m) @ drop olen tag, True)"
proof -
  let ?k' = "if 64 < length k then sha k else k"
  let ?k0 = "?k' @ replicate (64 - length ?k') 0"
  have k0: "(if 64 < length k
       then do { b \<leftarrow> SPhashit MC_SHA2 32 (replicate 64 0) (Some k); copy_at (replicate 128 0) 0 b 32 }
       else copy_at (replicate 128 0) 0 k (length k)) = Some (?k' @ replicate (128 - length ?k') 0)"
    by (auto simp: SPhashit_sha256 copy_at_def)
  have t: "take 64 (?k' @ replicate (128 - length ?k') 0) = ?k0" by (simp add: min_def)
  have x: "map (\<lambda>x. x XOR 0x6a) (map (\<lambda>x. x XOR 0x36) ?k0) = map (\<lambda>x :: u8. x XOR 0x5c) ?k0"
    by (simp add: xor.assoc)
  have b: "blksize MC_SHA2 32 = Some 64" by (simp add: blksize_def MC_SHA2_def MC_SHA3_def)
  show ?thesis unfolding hmac1_def b
    using assms k0 t x by (simp add: GPhashit_sha256 rfc_hmac_def Let_def del: map_map)
qed

lemma length_rfc_T: "0 < i \<Longrightarrow> length (rfc_T prk info i) = 32"
  by (cases i) simp_all

lemma length_rfc_T_le: "length (rfc_T prk info i) \<le> 32"
  by (cases i) simp_all

lemma length_rfc_blocks: "length (concat (map (rfc_T prk info) [Suc j..<Suc n])) = 32 * (n - j)"
proof -
  have "map (length \<circ> rfc_T prk info) [Suc j..<Suc n] = replicate (n - j) 32"
    by (intro nth_equalityI) (auto simp: length_rfc_T simp del: upt_Suc)
  then show ?thesis by (simp add: length_concat sum_list_replicate del: upt_Suc)
qed

lemma expand_block_sha256:
  assumes "0 < olen" "olen \<le> 32" "length k = 64" "length info \<le> 991"
  shows "expand_block MC_SHA2 32 olen prk info (rfc_T prk info i) k (Suc i)
    = Some (take olen (rfc_T prk info (Suc i)) @ drop olen k)"
  using assms length_rfc_T_le [of prk info i] by (simp add: expand_block_def hmac1_sha256)

lemma expand_loop_sha256:
  assumes "j \<le> n" "length k = 64" "m + 32 * (n - j) \<le> length okm" "length info \<le> 991"
  shows "\<exists>k'. expand_loop MC_SHA2 32 prk info [Suc j..<Suc n] (okm, k, rfc_T prk info j, m)
    = Some (take m okm @ concat (map (rfc_T prk info) [Suc j..<Suc n]) @ drop (m + 32 * (n - j)) okm,
            k', rfc_T prk info n, m + 32 * (n - j)) \<and> length k' = 64"
  using assms
proof (induction "n - j" arbitrary: j okm k m)
  case 0
  then show ?case by (simp del: upt_Suc)
next
  case (Suc d)
  let ?T = "rfc_T prk info"
  have j: "j < n" and upt: "[Suc j..<Suc n] = Suc j # [Suc (Suc j)..<Suc n]" using Suc.hyps(2) by (simp_all add: upt_rec del: upt_Suc)
  let ?k = "?T (Suc j) @ drop 32 k" and ?okm = "take m okm @ ?T (Suc j) @ drop (m + 32) okm"
  have len: "length (?T (Suc j)) = 32" by (simp add: length_rfc_T)
  have b: "expand_block MC_SHA2 32 32 prk info (?T j) k (Suc j) = Some ?k"
    using expand_block_sha256 [of 32 k info prk j] Suc.prems len by simp
  have c: "copy_at okm m ?k 32 = Some ?okm" using Suc.prems j len by (simp add: copy_at_def del: rfc_T.simps)
  have "d = n - Suc j" "Suc j \<le> n" "length ?k = 64" "m + 32 + 32 * (n - Suc j) \<le> length ?okm"
    using Suc.hyps(2) Suc.prems j len by (simp_all del: rfc_T.simps)
  from Suc.hyps(1) [OF this Suc.prems(4)] obtain k' where
    "expand_loop MC_SHA2 32 prk info [Suc (Suc j)..<Suc n] (?okm, ?k, ?T (Suc j), m + 32)
      = Some (take (m + 32) ?okm @ concat (map ?T [Suc (Suc j)..<Suc n]) @ drop (m + 32 + 32 * (n - Suc j)) ?okm,
              k', ?T n, m + 32 + 32 * (n - Suc j))" "length k' = 64" by blast
  moreover have "take (m + 32) ?okm = take m okm @ ?T (Suc j)" using Suc.prems(3) j len by (simp del: rfc_T.simps)
  moreover have "drop (m + 32 + 32 * (n - Suc j)) ?okm = drop (m + 32 * (n - j)) okm"
    using Suc.prems(3) j len by (simp add: algebra_simps Suc_diff_le del: rfc_T.simps)
  moreover have "m + 32 + 32 * (n - Suc j) = m + 32 * (n - j)" using j by simp
  ultimately show ?case using b c len upt by (simp del: upt_Suc rfc_T.simps)
qed

lemma hkdf_extract_sha256:
  "32 \<le> length prk \<Longrightarrow> hkdf_extract MC_SHA2 32 prk (Some salt) ikm = Some (rfc_hmac salt ikm @ drop 32 prk)"
  by (simp add: hkdf_extract_def hmac1_sha256)

lemma hkdf_expand_sha256:
  assumes "olen \<le> length okm" "length info \<le> 991"
  shows "hkdf_expand MC_SHA2 32 okm olen key info = Some (rfc_expand key info olen @ drop olen okm)"
proof -
  let ?n = "olen div 32" and ?f = "olen mod 32" and ?T = "rfc_T key info"
  let ?bs = "concat (map ?T [Suc 0..<Suc ?n])"
  have len: "length ?bs = 32 * ?n" using length_rfc_blocks [of key info 0 ?n] by simp
  have o: "32 * ?n + ?f = olen" by simp
  have "0 + 32 * (?n - 0) \<le> length okm" using assms(1) o by linarith
  from expand_loop_sha256 [of 0 ?n "replicate 64 0" 0 okm, OF _ _ this assms(2), of key]
  obtain k where k: "expand_loop MC_SHA2 32 key info [1..<?n + 1] (okm, replicate 64 0, [], 0)
      = Some (?bs @ drop (32 * ?n) okm, k, ?T ?n, 32 * ?n)" "length k = 64" by (auto simp del: upt_Suc)
  show ?thesis
  proof (cases "?f = 0")
    case True
    then have "olen = 32 * ?n" "(olen + 31) div 32 = ?n" using o by linarith+
    then show ?thesis using True k(1) len by (simp add: hkdf_expand_def rfc_expand_def del: upt_Suc)
  next
    case False
    have n: "(olen + 31) div 32 = Suc ?n" using False o by linarith
    have "expand_block MC_SHA2 32 ?f key info (?T ?n) k (Suc ?n) = Some (take ?f (?T (Suc ?n)) @ drop ?f k)"
      using False k(2) assms(2) by (intro expand_block_sha256) simp_all
    moreover have "take olen (?bs @ ?T (Suc ?n)) = ?bs @ take ?f (?T (Suc ?n))"
      using len minus_mult_div_eq_mod [of olen 32] by (simp del: upt_Suc rfc_T.simps)
    moreover have T: "length (?T (Suc ?n)) = 32" "?f < 32" by (simp_all add: length_rfc_T)
    moreover have "copy_at (?bs @ drop (32 * ?n) okm) (32 * ?n) (take ?f (?T (Suc ?n)) @ drop ?f k) ?f
        = Some (?bs @ take ?f (?T (Suc ?n)) @ drop olen okm)"
      using False T k(2) len assms(1) by (simp add: copy_at_def del: upt_Suc rfc_T.simps)
    ultimately show ?thesis using False k(1) n
      by (simp add: hkdf_expand_def rfc_expand_def upt_Suc_append Let_def del: upt_Suc rfc_T.simps)
  qed
qed

text \<open>
  C38.  The key derivation follows its standards.  With SHA-256, \<open>hmac1\<close> computes HMAC of RFC 2104,
  \<open>hkdf_extract\<close> and \<open>hkdf_expand\<close> compute the two functions of RFC 5869, written into the front of
  the output slice, whenever the slice is long enough and the info string fits the internal buffer.
\<close>

theorem hkdf_follows_rfc:
  assumes "olen \<le> length okm" "length info \<le> 991" "32 \<le> length prk"
  shows "hkdf_extract MC_SHA2 32 prk (Some salt) ikm = Some (rfc_hmac salt ikm @ drop 32 prk)
    \<and> hkdf_expand MC_SHA2 32 okm olen key info = Some (rfc_expand key info olen @ drop olen okm)"
  using assms by (simp add: hkdf_extract_sha256 hkdf_expand_sha256)

theorem hkdf_follows_rfc_witness:
  "hkdf_expand MC_SHA2 32 (replicate 40 0) 33 [1, 2] [3] = Some (rfc_expand [1, 2] [3] 33 @ replicate 7 0)"
  using hkdf_follows_rfc [of 33 "replicate 40 0" "[3]" "replicate 32 0" "[]" "[]" "[1, 2]"] by simp

end
