(* ===== verification/QC_Rand.thy ===== *)
theory QC_Rand
  imports QC_Hkdf
begin

text \<open>
  Random octets: the Marsaglia-Zaman generator of \<open>mcore/src/rand.rs\<close>, the repository's choice of
  generators (\<open>schemes/src/rand.rs\<close>) and the symmetric keys derived from them
  (\<open>gen_symm_key\<close> of \<open>dl_schemes/common.rs\<close>).  The operating system's generator is the sequence
  of words it returns, the clock is an argument and so is hexadecimal decoding.
\<close>

unbundle bit_operations_syntax

subsection \<open>The Marsaglia-Zaman generator\<close>

definition RAND_NK :: nat where
  "RAND_NK = 21"

definition RAND_NJ :: nat where
  "RAND_NJ = 6"

definition RAND_NV :: nat where
  "RAND_NV = 8"

record rand_impl =
  rd_ira :: "u32 list"
  rd_rndptr :: nat
  rd_borrow :: u32
  rd_pool_ptr :: nat
  rd_pool :: bytes

definition rand_new :: rand_impl where
  "rand_new = \<lparr>rd_ira = replicate RAND_NK 0, rd_rndptr = 0, rd_borrow = 0, rd_pool_ptr = 0, rd_pool = replicate 32 0\<rparr>"

definition rand_clean :: "rand_impl \<Rightarrow> rand_impl" where
  "rand_clean r = r\<lparr>rd_pool_ptr := 0, rd_rndptr := 0, rd_pool := replicate 32 0, rd_ira := replicate RAND_NK 0, rd_borrow := 0\<rparr>"

text \<open>One value of the next generation; the borrow is kept when the difference equals the minuend.\<close>

definition sbrand_step :: "u32 list \<times> u32 \<times> nat \<Rightarrow> nat \<Rightarrow> u32 list \<times> u32 \<times> nat" where
  "sbrand_step = (\<lambda>(ira, borrow, k) i.
     let k' = (if k = RAND_NK then 0 else k);
         t = ira ! k';
         pdiff = t - ira ! i - borrow;
         borrow' = (if pdiff < t then 0 else if t < pdiff then 1 else borrow)
     in (ira[i := pdiff], borrow', k' + 1))"

definition sbrand :: "rand_impl \<Rightarrow> rand_impl \<times> u32" where
  "sbrand r =
     (let p = rd_rndptr r + 1 in
      if p < RAND_NK then (r\<lparr>rd_rndptr := p\<rparr>, rd_ira r ! p)
      else let (ira, borrow, _) = foldl sbrand_step (rd_ira r, rd_borrow r, RAND_NK - RAND_NJ) [0..<RAND_NK]
           in (r\<lparr>rd_rndptr := 0, rd_ira := ira, rd_borrow := borrow\<rparr>, ira ! 0))"

definition sirand_step :: "u32 list \<times> u32 \<times> u32 \<Rightarrow> nat \<Rightarrow> u32 list \<times> u32 \<times> u32" where
  "sirand_step = (\<lambda>(ira, m, sd) i.
     let inn = (RAND_NV * i) mod RAND_NK in (ira[inn := ira ! inn XOR m], sd - m, m))"

definition sirand :: "u32 \<Rightarrow> rand_impl \<Rightarrow> rand_impl" where
  "sirand seed r =
     (let ira0 = (rd_ira r)[0 := rd_ira r ! 0 XOR seed];
          (ira, _, _) = foldl sirand_step (ira0, 1, seed) [1..<RAND_NK]
      in ((fst \<circ> sbrand) ^^ 10000) (r\<lparr>rd_borrow := 0, rd_rndptr := 0, rd_ira := ira\<rparr>))"

fun sbrand_bytes :: "nat \<Rightarrow> rand_impl \<Rightarrow> rand_impl \<times> bytes" where
  "sbrand_bytes 0 r = (r, [])"
| "sbrand_bytes (Suc n) r =
     (let (r1, x) = sbrand r; (r2, bs) = sbrand_bytes n r1 in (r2, ucast (x AND 0xff) # bs))"

definition fill_pool :: "rand_impl \<Rightarrow> rand_impl may_panic" where
  "fill_pool r = do {
     let (r1, bs) = sbrand_bytes 128 r;
     (w, _) \<leftarrow> hash (process_array hash_init bs);
     Some (r1\<lparr>rd_pool := w, rd_pool_ptr := 0\<rparr>)
   }"

definition pack :: "bytes \<Rightarrow> u32" where
  "pack b = (push_bit 24 (ucast (b ! 3)) OR push_bit 16 (ucast (b ! 2)) OR push_bit 8 (ucast (b ! 1)) OR ucast (b ! 0))"

definition rand_seed :: "nat \<Rightarrow> bytes \<Rightarrow> rand_impl \<Rightarrow> rand_impl may_panic" where
  "rand_seed rawlen raw r = do {
     let r0 = r\<lparr>rd_pool_ptr := 0, rd_ira := replicate RAND_NK 0\<rparr>;
     r1 \<leftarrow> (if rawlen = 0 then Some r0
             else if length raw < rawlen then None
             else do {
               (digest, _) \<leftarrow> hash (process_array hash_init (take rawlen raw));
               Some (foldl (\<lambda>r i. sirand (pack (take 4 (drop (4 * i) digest))) r) r0 [0..<8])
             });
     fill_pool r1
   }"

definition rand_getbyte :: "rand_impl \<Rightarrow> (rand_impl \<times> u8) may_panic" where
  "rand_getbyte r = do {
     b \<leftarrow> index (rd_pool r) (rd_pool_ptr r);
     let r1 = r\<lparr>rd_pool_ptr := rd_pool_ptr r + 1\<rparr>;
     r2 \<leftarrow> (if 32 \<le> rd_pool_ptr r1 then fill_pool r1 else Some r1);
     Some (r2, b)
   }"

subsection \<open>The choice of generators\<close>

record static_rng =
  sr_seed :: bytes
  sr_index :: nat

definition static_new :: "(string \<Rightarrow> bytes option) \<Rightarrow> string \<Rightarrow> bool \<Rightarrow> static_rng" where
  "static_new hex_decode seed little_endian =
     \<lparr>sr_seed = (case hex_decode seed of None \<Rightarrow> [] | Some s \<Rightarrow> if little_endian then rev s else s), sr_index = 0\<rparr>"

definition static_getbyte :: "static_rng \<Rightarrow> (static_rng \<times> u8) may_panic" where
  "static_getbyte r = do {
     b \<leftarrow> index (sr_seed r) (sr_index r);
     let i = sr_index r + 1;
     Some (r\<lparr>sr_index := (if length (sr_seed r) \<le> i then 0 else i)\<rparr>, b)
   }"

datatype rng_algorithm = AlgMarsagliaZaman | AlgStatic string | AlgOsRng

datatype rng = RngMarsagliaZaman rand_impl | RngOs "nat \<Rightarrow> u32" | RngStatic static_rng

fun rng_getbyte :: "rng \<Rightarrow> (rng \<times> u8) may_panic" where
  "rng_getbyte (RngMarsagliaZaman r) = map_option (\<lambda>(r, b). (RngMarsagliaZaman r, b)) (rand_getbyte r)"
| "rng_getbyte (RngOs f) = Some (RngOs (\<lambda>i. f (Suc i)), ucast (drop_bit 24 (f 0)))"
| "rng_getbyte (RngStatic r) = map_option (\<lambda>(r, b). (RngStatic r, b)) (static_getbyte r)"

fun rng_seed :: "nat \<Rightarrow> bytes \<Rightarrow> rng \<Rightarrow> rng may_panic" where
  "rng_seed rawlen raw (RngMarsagliaZaman r) = map_option RngMarsagliaZaman (rand_seed rawlen raw r)"
| "rng_seed rawlen raw r = Some r"

definition time_raw :: "nat \<Rightarrow> bytes" where
  "time_raw ms = map (\<lambda>i. of_nat (ms * 2 ^ i)) [0..<15] @ replicate 85 0"

definition rng_new :: "(string \<Rightarrow> bytes option) \<Rightarrow> (nat \<Rightarrow> u32) \<Rightarrow> nat option \<Rightarrow> rng_algorithm \<Rightarrow> rng may_panic" where
  "rng_new hex_decode os now alg = do {
     ms \<leftarrow> now;
     case alg of
       AlgMarsagliaZaman \<Rightarrow> map_option RngMarsagliaZaman (rand_seed 16 (time_raw ms) (rand_clean rand_new))
     | AlgOsRng \<Rightarrow> Some (RngOs os)
     | AlgStatic seed \<Rightarrow> Some (RngStatic (static_new hex_decode seed True))
   }"

fun random_bytes :: "nat \<Rightarrow> rng \<Rightarrow> (rng \<times> bytes) may_panic" where
  "random_bytes 0 r = Some (r, [])"
| "random_bytes (Suc n) r = do {
     (r1, b) \<leftarrow> rng_getbyte r;
     (r2, bs) \<leftarrow> random_bytes n r1;
     Some (r2, b # bs)
   }"

definition gen_symm_key :: "rng \<Rightarrow> (rng \<times> bytes) may_panic" where
  "gen_symm_key r = do {
     (r', ikm) \<leftarrow> random_bytes 32 r;
     prk \<leftarrow> hkdf_extract MC_SHA2 32 (replicate 32 0) (Some []) ikm;
     k \<leftarrow> hkdf_expand MC_SHA2 32 (replicate 32 0) 16 prk [0];
     Some (r', k)
   }"

subsection \<open>How many keys there are\<close>

lemma random_bytes_length: "random_bytes n r = Some (r', bs) \<Longrightarrow> length bs = n"
  by (induction n arbitrary: r r' bs) (auto simp: bind_eq_Some_conv)

lemma random_bytes_os: "random_bytes n (RngOs f) = Some (RngOs (\<lambda>i. f (i + n)), map (\<lambda>i. ucast (drop_bit 24 (f i))) [0..<n])"
proof (induction n arbitrary: f)
  case (Suc n)
  have "map (\<lambda>i. ucast (drop_bit 24 (f i)) :: u8) [0..<Suc n]
      = ucast (drop_bit 24 (f 0)) # map (\<lambda>i. ucast (drop_bit 24 (f (Suc i)))) [0..<n]"
    by (simp add: upt_conv_Cons map_Suc_upt [symmetric] comp_def del: upt_Suc)
  then show ?case using Suc [of "\<lambda>i. f (Suc i)"] by simp
qed simp

lemma length_rfc_expand_16: "length (rfc_expand prk info 16) = 16"
  using length_rfc_blocks [of prk info 0 1] by (simp add: rfc_expand_def)

lemma gen_symm_key_eq:
  "gen_symm_key r = map_option (\<lambda>(r', ikm). (r', rfc_expand (rfc_hmac [] ikm) [0] 16 @ replicate 16 0)) (random_bytes 32 r)"
  by (cases "random_bytes 32 r") (auto simp: gen_symm_key_def hkdf_extract_sha256 hkdf_expand_sha256)

lemma time_raw_mod: "time_raw ms = time_raw (ms mod 256)"
proof -
  have "(of_nat ms :: u8) = of_nat (ms mod 256)" by (simp add: word_of_nat_eq_iff take_bit_eq_mod)
  then show ?thesis by (simp add: time_raw_def)
qed

lemma rng_new_mod: "rng_new hex os (Some ms) AlgMarsagliaZaman = rng_new hex os (Some (ms mod 256)) AlgMarsagliaZaman"
  by (simp add: rng_new_def time_raw_mod [of ms])

text \<open>
  C39.  Symmetric keys have half their entropy, or none.  Whatever the generator, the last 16 of the 32 octets
  of a symmetric key are zero, because only 16 octets are expanded.  With the Marsaglia-Zaman
  generator there are at most 256 different keys, since its seed depends on the last 8 bits of the
  time in milliseconds only.
\<close>

theorem symm_key_space:
  "(\<forall>r r' k. gen_symm_key r = Some (r', k) \<longrightarrow> length k = 32 \<and> drop 16 k = replicate 16 0)
   \<and> card {k. \<exists>ms r r'. rng_new hex os (Some ms) AlgMarsagliaZaman = Some r \<and> gen_symm_key r = Some (r', k)} \<le> 256"
proof
  show "\<forall>r r' k. gen_symm_key r = Some (r', k) \<longrightarrow> length k = 32 \<and> drop 16 k = replicate 16 0"
    by (auto simp: gen_symm_key_eq length_rfc_expand_16)
  let ?key = "\<lambda>ms. snd (the (rng_new hex os (Some ms) AlgMarsagliaZaman \<bind> gen_symm_key))"
  have "{k. \<exists>ms r r'. rng_new hex os (Some ms) AlgMarsagliaZaman = Some r \<and> gen_symm_key r = Some (r', k)} \<subseteq> ?key ` {..<256}"
  proof (rule subsetI, elim CollectE exE conjE)
    fix k ms r r'
    assume "rng_new hex os (Some ms) AlgMarsagliaZaman = Some r" "gen_symm_key r = Some (r', k)"
    then have "k = ?key (ms mod 256)" using rng_new_mod [of hex os ms] by simp
    then show "k \<in> ?key ` {..<256}" by simp
  qed
  then show "card {k. \<exists>ms r r'. rng_new hex os (Some ms) AlgMarsagliaZaman = Some r \<and> gen_symm_key r = Some (r', k)} \<le> 256"
    using surj_card_le [of "{..<256 :: nat}" _ ?key] by simp
qed

theorem symm_key_space_witness:
  "\<exists>r' k. gen_symm_key (RngOs (\<lambda>_. 5)) = Some (r', k) \<and> length k = 32 \<and> drop 16 k = replicate 16 0"
proof -
  obtain r' k where k: "gen_symm_key (RngOs (\<lambda>_. 5)) = Some (r', k)" by (auto simp: gen_symm_key_eq random_bytes_os)
  from symm_key_space k show ?thesis by blast
qed

subsection \<open>Digest lengths\<close>

text \<open>
  C40.  Every hash function returns a digest of its length.  The three SHA-2 functions return 32, 48
  and 64 octets on every input; SHA-3 with a digest of \<open>n\<close> octets, \<open>0 < n < 100\<close>, ends without
  overrunning a buffer of at least \<open>n\<close> octets on inputs below \<open>2 ^ 63\<close> octets.
\<close>

theorem digest_lengths:
  "(\<exists>d s. hash (process_array hash_init b) = Some (d, s) \<and> length d = 32)
   \<and> (\<exists>d s. hash3 (process_array5 hash_init3 b) = Some (d, s) \<and> length d = 48)
   \<and> (\<exists>d s. hash5 (process_array5 hash_init5 b) = Some (d, s) \<and> length d = 64)
   \<and> (0 < n \<and> n < 100 \<and> length b < 2 ^ 63 \<and> n \<le> length buff \<longrightarrow>
        (\<exists>s s' s'' d. sha3_new n = Some s \<and> sha3_process_array s b = Some s' \<and> sha3_hash s' buff = Some (s'', d)
          \<and> length d = length buff))"
proof (intro conjI impI)
  show "\<exists>d s. hash (process_array hash_init b) = Some (d, s) \<and> length d = 32"
    using hash_total [OF process_array_wf [OF hash_init_wf]] by blast
  show "\<exists>d s. hash3 (process_array5 hash_init3 b) = Some (d, s) \<and> length d = 48"
    using hash3_total [OF process_array5_wf [OF hash_init3_wf]] by blast
  show "\<exists>d s. hash5 (process_array5 hash_init5 b) = Some (d, s) \<and> length d = 64"
    using hash5_total [OF process_array5_wf [OF hash_init5_wf]] by blast
  assume n: "0 < n \<and> n < 100 \<and> length b < 2 ^ 63 \<and> n \<le> length buff"
  obtain s where s: "sha3_new n = Some s" "s3_rate s = 200 - 2 * n" "s3_len s = n" "s3_length s = 0"
    using n by (simp add: sha3_new_def)
  obtain s' where s': "sha3_process_array s b = Some s'" "s3_rate s' = s3_rate s" "s3_len s' = n" "s3_length s' = of_nat (length b)"
    using sha3_process_array_total [of s b] s n by auto
  have "unat (of_nat (length b) :: u64) = length b" using n by (simp add: unat_of_nat)
  then have "\<exists>s'' d. sha3_hash s' buff = Some (s'', d) \<and> length d = length buff"
    using s s' n by (intro sha3_hash_total) simp_all
  with s(1) s'(1) show "\<exists>s s' s'' d. sha3_new n = Some s \<and> sha3_process_array s b = Some s' \<and> sha3_hash s' buff = Some (s'', d)
      \<and> length d = length buff" by blast
qed

theorem digest_lengths_witness:
  "\<exists>s s' s'' d. sha3_new 32 = Some s \<and> sha3_process_array s [1, 2, 3] = Some s' \<and> sha3_hash s' (replicate 64 0) = Some (s'', d)
     \<and> length d = 64"
  using digest_lengths [of "[1, 2, 3]" 32 "replicate 64 0"] by simp

end
