(* ===== verification/QC_RoundProtocol.thy ===== *)
theory QC_RoundProtocol
  imports QC_Codec "HOL-Library.Sublist"
begin

text \<open>
  Round protocols and their executor (\<open>network/src/types/message.rs\<close>,
  \<open>protocols/src/interface.rs\<close>, \<open>orchestration/.../protocol_executor.rs\<close>).

  The trait \<open>ThresholdRoundProtocol\<close> is the record \<open>round_protocol\<close> of its five methods and of the
  three methods of its message type; a method on \<open>&mut self\<close> returns the new state.  What a round
  draws is an argument of \<open>rp_do_round\<close>.  The executor's input channel is the list of the messages
  it will deliver and whether the sender then closes it: the loop of \<open>run\<close> either returns or has
  used up an open channel and waits.  Messages sent and events emitted are recorded in order.  The
  receiving ends of those two channels stay open, so that sending on them does not fail.
\<close>

datatype channel = Gossip | TOB | PointToPoint "u32 list"

record net_message_metadata =
  md_sender_id :: u16
  md_channel :: channel

record net_message =
  nm_instance_id :: bytes
  nm_metadata :: net_message_metadata
  nm_message_data :: bytes

definition metadata_new :: "channel \<Rightarrow> net_message_metadata" where
  "metadata_new c = \<lparr>md_sender_id = 0, md_channel = c\<rparr>"

text \<open>Timestamps are left out; a failure carries the phase it happened in and the error printed.\<close>

datatype event =
    StartedInstance bytes
  | FinishedInstance bytes
  | FailedInstance bytes string "protocol_error option"

subsection \<open>Messages on the wire\<close>

text \<open>
  The JSON reader and writer of \<open>serde_json\<close> are a parameter.  Shares sit in a message as the octets
  of their own encoding, so a message type has a wire form; reading it back can fail or panic.
\<close>

record 'w json =
  js_write :: "'w \<Rightarrow> bytes"
  js_parse :: "bytes \<Rightarrow> 'w option"

definition json_ok :: "'w json \<Rightarrow> bool" where
  "json_ok J = (\<forall>w. utf8_valid (js_write J w) \<and> js_parse J (js_write J w) = Some w)"

definition unwrap_net ::
  "'w json \<Rightarrow> ('w \<Rightarrow> (scheme_error + 'm) may_panic) \<Rightarrow> net_message \<Rightarrow> (protocol_error + 'm) may_panic" where
  "unwrap_net J from_wire m =
     (if \<not> utf8_valid (nm_message_data m) then None
      else case js_parse J (nm_message_data m) of
        None \<Rightarrow> Some (Err InternalError)
      | Some w \<Rightarrow> map_option (map_sum (\<lambda>_. InternalError) (\<lambda>x. x)) (from_wire w))"

definition wrap_net ::
  "'w json \<Rightarrow> ('m \<Rightarrow> 'w may_panic) \<Rightarrow> bytes \<Rightarrow> 'm \<Rightarrow> (string + net_message) may_panic" where
  "wrap_net J to_wire iid m = do {
     w \<leftarrow> to_wire m;
     Some (Ok \<lparr>nm_instance_id = iid, nm_metadata = metadata_new Gossip, nm_message_data = js_write J w\<rparr>)
   }"

subsection \<open>The executor\<close>

record ('s, 'm, 'd) round_protocol =
  rp_unwrap :: "net_message \<Rightarrow> (protocol_error + 'm) may_panic"
  rp_wrap :: "bytes \<Rightarrow> 'm \<Rightarrow> (string + net_message) may_panic"
  rp_is_default :: "'m \<Rightarrow> bool"
  rp_do_round :: "'d \<Rightarrow> 's \<Rightarrow> ('s \<times> (protocol_error + 'm)) may_panic"
  rp_is_ready_for_next_round :: "'s \<Rightarrow> bool"
  rp_is_ready_to_finalize :: "'s \<Rightarrow> bool"
  rp_finalize :: "'s \<Rightarrow> ('s \<times> (protocol_error + bytes)) may_panic"
  rp_update :: "'s \<Rightarrow> 'm \<Rightarrow> ('s \<times> (protocol_error + unit)) may_panic"

record 's executor =
  ex_instance_id :: bytes
  ex_protocol :: 's
  ex_rounds :: nat
  ex_sent :: "net_message list"
  ex_events :: "event list"

datatype outcome = Waiting | Returned "protocol_error + bytes"

definition executor_new :: "bytes \<Rightarrow> 's \<Rightarrow> 's executor" where
  "executor_new iid s = \<lparr>ex_instance_id = iid, ex_protocol = s, ex_rounds = 0, ex_sent = [], ex_events = []\<rparr>"

definition ex_emit :: "event \<Rightarrow> 's executor \<Rightarrow> 's executor" where
  "ex_emit e ex = ex\<lparr>ex_events := ex_events ex @ [e]\<rparr>"

definition ex_fail :: "string \<Rightarrow> protocol_error \<Rightarrow> 's executor \<Rightarrow> 's executor \<times> outcome" where
  "ex_fail phase e ex = (ex_emit (FailedInstance (ex_instance_id ex) phase (Some e)) ex, Returned (Err e))"

text \<open>One \<open>do_round\<close>: its message is sent unless it is the default one.\<close>

definition ex_do_round ::
  "('s, 'm, 'd) round_protocol \<Rightarrow> (nat \<Rightarrow> 'd) \<Rightarrow> string \<Rightarrow> 's executor \<Rightarrow>
   ('s executor \<times> outcome) may_panic" where
  "ex_do_round P draws phase ex = do {
     (s, r) \<leftarrow> rp_do_round P (draws (ex_rounds ex)) (ex_protocol ex);
     let ex' = ex\<lparr>ex_protocol := s, ex_rounds := Suc (ex_rounds ex)\<rparr>;
     case r of
       Inl e \<Rightarrow> Some (ex_fail phase e ex')
     | Inr m \<Rightarrow>
         if rp_is_default P m then Some (ex', Waiting)
         else do {
           w \<leftarrow> rp_wrap P (ex_instance_id ex) m;
           n \<leftarrow> unwrap w;
           Some (ex'\<lparr>ex_sent := ex_sent ex' @ [n]\<rparr>, Waiting)
         }
   }"

text \<open>One message of the input channel.\<close>

definition ex_deliver ::
  "('s, 'm, 'd) round_protocol \<Rightarrow> (nat \<Rightarrow> 'd) \<Rightarrow> 's executor \<Rightarrow> net_message \<Rightarrow>
   ('s executor \<times> outcome) may_panic" where
  "ex_deliver P draws ex t = do {
     u \<leftarrow> rp_unwrap P t;
     m \<leftarrow> unwrap u;
     (s, r) \<leftarrow> rp_update P (ex_protocol ex) m;
     let ex' = ex\<lparr>ex_protocol := s\<rparr>;
     case r of
       Inl e \<Rightarrow> Some (ex_fail ''Error during update: '' e ex')
     | Inr _ \<Rightarrow>
         if rp_is_ready_to_finalize P s then do {
           (s', v) \<leftarrow> rp_finalize P s;
           let ex'' = ex'\<lparr>ex_protocol := s'\<rparr>;
           case v of
             Inl e \<Rightarrow> Some (ex_fail ''Error during finalization: '' e ex'')
           | Inr value \<Rightarrow> Some (ex_emit (FinishedInstance (ex_instance_id ex)) ex'', Returned (Ok value))
         }
         else if rp_is_ready_for_next_round P s then ex_do_round P draws ''Error during round: '' ex'
         else Some (ex', Waiting)
   }"

fun ex_loop ::
  "('s, 'm, 'd) round_protocol \<Rightarrow> (nat \<Rightarrow> 'd) \<Rightarrow> bool \<Rightarrow> 's executor \<Rightarrow> net_message list \<Rightarrow>
   ('s executor \<times> outcome) may_panic" where
  "ex_loop P draws closed ex [] =
     (if closed
      then Some (ex_emit (FailedInstance (ex_instance_id ex) ''Channel for receiving closed.'' None) ex,
                 Returned (Err NotFinished))
      else Some (ex, Waiting))"
| "ex_loop P draws closed ex (t # ts) = do {
     (ex', r) \<leftarrow> ex_deliver P draws ex t;
     case r of Returned v \<Rightarrow> Some (ex', Returned v) | Waiting \<Rightarrow> ex_loop P draws closed ex' ts
   }"

definition executor_run ::
  "('s, 'm, 'd) round_protocol \<Rightarrow> (nat \<Rightarrow> 'd) \<Rightarrow> bytes \<Rightarrow> 's \<Rightarrow> net_message list \<Rightarrow> bool \<Rightarrow>
   ('s executor \<times> outcome) may_panic" where
  "executor_run P draws iid s inbox closed = do {
     let ex = ex_emit (StartedInstance iid) (executor_new iid s);
     (ex', r) \<leftarrow> ex_do_round P draws ''Error during initial round: '' ex;
     case r of Returned v \<Rightarrow> Some (ex', Returned v) | Waiting \<Rightarrow> ex_loop P draws closed ex' inbox
   }"

lemma ex_emit_sel [simp]:
  "ex_instance_id (ex_emit e ex) = ex_instance_id ex" "ex_protocol (ex_emit e ex) = ex_protocol ex"
  "ex_rounds (ex_emit e ex) = ex_rounds ex" "ex_sent (ex_emit e ex) = ex_sent ex"
  "ex_events (ex_emit e ex) = ex_events ex @ [e]"
  by (simp_all add: ex_emit_def)

lemma wrap_unwrap_net:
  assumes "json_ok J" "to_wire m = Some w" "from_wire w = Some (Ok m)"
  shows "\<exists>n. wrap_net J to_wire iid m = Some (Ok n) \<and> nm_instance_id n = iid
     \<and> unwrap_net J from_wire n = Some (Ok m)"
  using assms by (simp add: wrap_net_def unwrap_net_def json_ok_def)

subsection \<open>Events\<close>

text \<open>What a run emits is fixed by how it ends.\<close>

fun outcome_events :: "bytes \<Rightarrow> outcome \<Rightarrow> event list \<Rightarrow> bool" where
  "outcome_events iid Waiting es = (es = [])"
| "outcome_events iid (Returned r) es =
     (case r of
        Inr _ \<Rightarrow> es = [FinishedInstance iid]
      | Inl e \<Rightarrow> \<exists>phase. es = [FailedInstance iid phase (Some e)]
                  \<or> e = NotFinished \<and> es = [FailedInstance iid phase None])"

lemma ex_do_roundE:
  assumes "ex_do_round P draws phase ex = Some (ex', r)"
  obtains (fail) s e where "rp_do_round P (draws (ex_rounds ex)) (ex_protocol ex) = Some (s, Err e)"
      "r = Returned (Err e)"
      "ex' = ex_emit (FailedInstance (ex_instance_id ex) phase (Some e))
         (ex\<lparr>ex_protocol := s, ex_rounds := Suc (ex_rounds ex)\<rparr>)"
    | (silent) s m where "rp_do_round P (draws (ex_rounds ex)) (ex_protocol ex) = Some (s, Ok m)"
      "rp_is_default P m" "r = Waiting" "ex' = ex\<lparr>ex_protocol := s, ex_rounds := Suc (ex_rounds ex)\<rparr>"
    | (sent) s m n where "rp_do_round P (draws (ex_rounds ex)) (ex_protocol ex) = Some (s, Ok m)"
      "\<not> rp_is_default P m" "rp_wrap P (ex_instance_id ex) m = Some (Ok n)" "r = Waiting"
      "ex' = ex\<lparr>ex_protocol := s, ex_rounds := Suc (ex_rounds ex), ex_sent := ex_sent ex @ [n]\<rparr>"
proof -
  obtain s b where d: "rp_do_round P (draws (ex_rounds ex)) (ex_protocol ex) = Some (s, b)"
    using assms by (auto simp: ex_do_round_def bind_eq_Some_conv)
  show thesis
  proof (cases b)
    case (Inl e)
    then show thesis using assms d by (intro fail) (auto simp: ex_do_round_def ex_fail_def Let_def)
  next
    case (Inr m)
    show thesis
    proof (cases "rp_is_default P m")
      case True
      then show thesis using assms d Inr by (intro silent) (auto simp: ex_do_round_def Let_def)
    next
      case False
      then show thesis using assms d Inr
        by (auto simp: ex_do_round_def Let_def bind_eq_Some_conv unwrap_Some_iff intro: sent)
    qed
  qed
qed

lemma ex_deliverE:
  assumes "ex_deliver P draws ex t = Some (ex', r)"
  obtains (bad) m s e where "rp_unwrap P t = Some (Ok m)" "rp_update P (ex_protocol ex) m = Some (s, Err e)"
      "r = Returned (Err e)"
      "ex' = ex_emit (FailedInstance (ex_instance_id ex) ''Error during update: '' (Some e)) (ex\<lparr>ex_protocol := s\<rparr>)"
    | (final) m s s' v where "rp_unwrap P t = Some (Ok m)" "rp_update P (ex_protocol ex) m = Some (s, Ok ())"
      "rp_is_ready_to_finalize P s" "rp_finalize P s = Some (s', v)" "r = Returned v" "ex_protocol ex' = s'"
      "ex_instance_id ex' = ex_instance_id ex" "ex_rounds ex' = ex_rounds ex" "ex_sent ex' = ex_sent ex"
      "ex_events ex' = ex_events ex @ [case v of Inr _ \<Rightarrow> FinishedInstance (ex_instance_id ex)
         | Inl e \<Rightarrow> FailedInstance (ex_instance_id ex) ''Error during finalization: '' (Some e)]"
    | (round) m s where "rp_unwrap P t = Some (Ok m)" "rp_update P (ex_protocol ex) m = Some (s, Ok ())"
      "\<not> rp_is_ready_to_finalize P s" "rp_is_ready_for_next_round P s"
      "ex_do_round P draws ''Error during round: '' (ex\<lparr>ex_protocol := s\<rparr>) = Some (ex', r)"
    | (stay) m s where "rp_unwrap P t = Some (Ok m)" "rp_update P (ex_protocol ex) m = Some (s, Ok ())"
      "\<not> rp_is_ready_to_finalize P s" "\<not> rp_is_ready_for_next_round P s" "ex' = ex\<lparr>ex_protocol := s\<rparr>" "r = Waiting"
proof -
  obtain m s b where d: "rp_unwrap P t = Some (Ok m)" "rp_update P (ex_protocol ex) m = Some (s, b)"
    using assms by (auto simp: ex_deliver_def bind_eq_Some_conv unwrap_Some_iff)
  show thesis
  proof (cases b)
    case (Inl e)
    then show thesis using assms d by (intro bad) (auto simp: ex_deliver_def ex_fail_def Let_def)
  next
    case (Inr u)
    show thesis
    proof (cases "rp_is_ready_to_finalize P s")
      case True
      then obtain s' v where f: "rp_finalize P s = Some (s', v)"
        using assms d Inr by (auto simp: ex_deliver_def Let_def bind_eq_Some_conv)
      then show thesis using assms d Inr True
        by (intro final [of m s s' v]; cases v) (auto simp: ex_deliver_def ex_fail_def Let_def)
    next
      case False
      then show thesis using assms d Inr round [of m s] stay [of m s]
        by (auto simp: ex_deliver_def Let_def split: if_splits)
    qed
  qed
qed

lemma ex_do_round_events:
  assumes "ex_do_round P draws phase ex = Some (ex', r)"
  shows "ex_instance_id ex' = ex_instance_id ex
    \<and> (\<exists>es. ex_events ex' = ex_events ex @ es \<and> outcome_events (ex_instance_id ex) r es)"
  using assms by (cases rule: ex_do_roundE) auto

lemma ex_deliver_events:
  assumes "ex_deliver P draws ex t = Some (ex', r)"
  shows "ex_instance_id ex' = ex_instance_id ex
    \<and> (\<exists>es. ex_events ex' = ex_events ex @ es \<and> outcome_events (ex_instance_id ex) r es)"
  using assms
proof (cases rule: ex_deliverE)
  case (final m s s' v)
  then show ?thesis by (cases v) auto
next
  case (round m s)
  from ex_do_round_events [OF round(5)] show ?thesis by simp
qed auto

lemma ex_loop_events:
  assumes "ex_loop P draws closed ex ts = Some (ex', r)"
  shows "ex_instance_id ex' = ex_instance_id ex
    \<and> (\<exists>es. ex_events ex' = ex_events ex @ es \<and> outcome_events (ex_instance_id ex) r es)"
  using assms
proof (induction ts arbitrary: ex)
  case Nil
  then show ?case by (auto split: if_splits)
next
  case (Cons t ts)
  obtain ex1 r1 where d: "ex_deliver P draws ex t = Some (ex1, r1)"
    using Cons.prems by (auto simp: bind_eq_Some_conv)
  note e1 = ex_deliver_events [OF d]
  show ?case
  proof (cases r1)
    case Waiting
    then have "ex_loop P draws closed ex1 ts = Some (ex', r)" using Cons.prems d by simp
    from Cons.IH [OF this] show ?thesis using e1 Waiting by simp
  next
    case (Returned v)
    then show ?thesis using Cons.prems d e1 by simp
  qed
qed

subsection \<open>The contract of a round protocol\<close>

text \<open>
  What an executor relies on: an invariant of the protocol's state that its methods keep, and a
  property that \<open>finalize\<close> promises of a result computed in such a state.  The executor passes the
  promise on, whatever messages it receives.
\<close>

locale round_contract =
  fixes P :: "('s, 'm, 'd) round_protocol" and init :: "'s \<Rightarrow> bool" and inv :: "'s \<Rightarrow> bool"
    and allowed :: "'m \<Rightarrow> bool" and good :: "'s \<Rightarrow> bytes \<Rightarrow> bool"
  assumes first_round: "init s \<Longrightarrow> rp_do_round P d s = Some (s', Ok m) \<Longrightarrow> inv s'"
    and next_round: "inv s \<Longrightarrow> rp_is_ready_for_next_round P s \<Longrightarrow> \<not> rp_is_ready_to_finalize P s
      \<Longrightarrow> rp_do_round P d s = Some (s', Ok m) \<Longrightarrow> inv s'"
    and update_inv: "inv s \<Longrightarrow> allowed m \<Longrightarrow> rp_update P s m = Some (s', u) \<Longrightarrow> inv s'"
    and finalize_good: "inv s \<Longrightarrow> rp_is_ready_to_finalize P s \<Longrightarrow> rp_finalize P s = Some (s', Ok v) \<Longrightarrow> good s v"
begin

lemma round_kept:
  assumes "ex_do_round P draws phase ex = Some (ex', r)"
    "init (ex_protocol ex) \<or> inv (ex_protocol ex) \<and> rp_is_ready_for_next_round P (ex_protocol ex)
       \<and> \<not> rp_is_ready_to_finalize P (ex_protocol ex)"
  shows "(r = Waiting \<longrightarrow> inv (ex_protocol ex')) \<and> (\<forall>v. r \<noteq> Returned (Ok v))"
  using assms(1) by (cases rule: ex_do_roundE) (use assms(2) first_round next_round in auto)

definition clean :: "net_message \<Rightarrow> bool" where
  "clean t = (\<forall>m. rp_unwrap P t = Some (Ok m) \<longrightarrow> allowed m)"

lemma deliver_kept:
  assumes "ex_deliver P draws ex t = Some (ex', r)" "inv (ex_protocol ex)" "clean t"
  shows "(r = Waiting \<longrightarrow> inv (ex_protocol ex')) \<and> (\<forall>v. r = Returned (Ok v) \<longrightarrow> (\<exists>s. inv s \<and> good s v))"
  using assms(1)
proof (cases rule: ex_deliverE)
  case (final m s s' v)
  then have "inv s" using update_inv [OF assms(2)] assms(3) by (auto simp: clean_def)
  then show ?thesis using final finalize_good by auto
next
  case (round m s)
  then have "inv s" using update_inv [OF assms(2)] assms(3) by (auto simp: clean_def)
  then show ?thesis using round_kept [OF round(5)] round(3,4) by simp
qed (use update_inv [OF assms(2)] assms(3) in \<open>auto simp: clean_def\<close>)

lemma loop_kept:
  assumes "ex_loop P draws closed ex ts = Some (ex', Returned (Ok v))" "inv (ex_protocol ex)" "\<forall>t\<in>set ts. clean t"
  shows "\<exists>s. inv s \<and> good s v"
  using assms
proof (induction ts arbitrary: ex)
  case Nil
  then show ?case by (simp split: if_splits)
next
  case (Cons t ts)
  obtain ex1 r1 where d: "ex_deliver P draws ex t = Some (ex1, r1)"
    using Cons.prems by (auto simp: bind_eq_Some_conv)
  show ?case using deliver_kept [OF d Cons.prems(2)] Cons d by (cases r1) auto
qed

lemma run_good:
  assumes "executor_run P draws iid s inbox closed = Some (ex, Returned (Ok v))" "init s" "\<forall>t\<in>set inbox. clean t"
  shows "\<exists>s'. inv s' \<and> good s' v"
proof -
  obtain ex1 r1 where d: "ex_do_round P draws ''Error during initial round: ''
      (ex_emit (StartedInstance iid) (executor_new iid s)) = Some (ex1, r1)"
    using assms(1) by (auto simp: executor_run_def Let_def bind_eq_Some_conv)
  have i: "init (ex_protocol (ex_emit (StartedInstance iid) (executor_new iid s)))"
    using assms(2) by (simp add: executor_new_def)
  show ?thesis using round_kept [OF d] i d assms(1,3) loop_kept
    by (cases r1) (auto simp: executor_run_def Let_def)
qed

end

text \<open>
  C17.  The executor's events.  Every run emits \<open>StartedInstance\<close> first, and after it nothing while
  the instance waits, exactly one \<open>FinishedInstance\<close> when \<open>run\<close> returns a result, and exactly one
  \<open>FailedInstance\<close> when \<open>run\<close> returns an error, whatever the protocol and the messages.
\<close>

theorem executor_events:
  assumes "executor_run P draws iid s inbox closed = Some (ex, r)"
  shows "\<exists>es. ex_events ex = StartedInstance iid # es \<and> outcome_events iid r es"
proof -
  obtain ex1 r1 where d: "ex_do_round P draws ''Error during initial round: ''
      (ex_emit (StartedInstance iid) (executor_new iid s)) = Some (ex1, r1)"
    using assms by (auto simp: executor_run_def Let_def bind_eq_Some_conv)
  have e1: "ex_instance_id ex1 = iid \<and> (\<exists>es. ex_events ex1 = StartedInstance iid # es \<and> outcome_events iid r1 es)"
    using ex_do_round_events [OF d] by (auto simp: executor_new_def)
  show ?thesis
  proof (cases r1)
    case Waiting
    then have "ex_loop P draws closed ex1 inbox = Some (ex, r)"
      using assms d by (simp add: executor_run_def)
    from ex_loop_events [OF this] show ?thesis using e1 Waiting by auto
  next
    case (Returned v)
    then show ?thesis using assms d e1 by (simp add: executor_run_def)
  qed
qed

text \<open>A protocol that sends nothing and finishes on the first message.\<close>

definition echo_protocol :: "(nat, unit, unit) round_protocol" where
  "echo_protocol = \<lparr>rp_unwrap = (\<lambda>m. Some (Ok ())), rp_wrap = (\<lambda>_ _. None), rp_is_default = (\<lambda>_. True),
     rp_do_round = (\<lambda>_ s. Some (s, Ok ())), rp_is_ready_for_next_round = (\<lambda>_. False),
     rp_is_ready_to_finalize = (\<lambda>s. 0 < s), rp_finalize = (\<lambda>s. Some (s, Ok [7])),
     rp_update = (\<lambda>s _. Some (Suc s, Ok ()))\<rparr>"

definition empty_message :: net_message where
  "empty_message = \<lparr>nm_instance_id = [1], nm_metadata = metadata_new Gossip, nm_message_data = []\<rparr>"

theorem executor_events_witness:
  "\<exists>ex. executor_run echo_protocol (\<lambda>_. ()) [1] 0 [empty_message] False = Some (ex, Returned (Ok [7]))
   \<and> ex_events ex = [StartedInstance [1], FinishedInstance [1]]"
proof -
  obtain ex where "executor_run echo_protocol (\<lambda>_. ()) [1] 0 [empty_message] False = Some (ex, Returned (Ok [7]))"
    by (auto simp: executor_run_def ex_do_round_def ex_deliver_def echo_protocol_def Let_def executor_new_def)
  from this executor_events [OF this] show ?thesis by auto
qed

end
