(* ===== verification/QC_InstanceCache.thy ===== *)
theory QC_InstanceCache
  imports QC_RoundProtocol "HOL-Library.AList"
begin

text \<open>
  Instances and their cache (\<open>orchestration/src/instance_manager\<close>): the bookkeeping record of one
  protocol run, and the store of such records that ejects terminated instances when it is at
  capacity.  The hash map is an association list, and \<open>None\<close> is a panic.  What the instance manager
  relies on is the locale \<open>instance_store\<close>, interpreted on the cache at the end.
\<close>

subsection \<open>Instances\<close>

type_synonym prot_result = "protocol_error + bytes"

record instance_data =
  in_id :: bytes
  in_scheme :: threshold_scheme
  in_group :: group
  in_message_channel_sender :: bool
  in_status :: string
  in_finished :: bool
  in_result :: "prot_result option"
  in_result_sender :: "nat option"

definition instance_new ::
  "bytes \<Rightarrow> threshold_scheme \<Rightarrow> group \<Rightarrow> bool \<Rightarrow> nat option \<Rightarrow> instance_data" where
  "instance_new i scheme g sender result_sender = \<lparr>in_id = i, in_scheme = scheme, in_group = g,
     in_message_channel_sender = sender, in_status = ''created'', in_finished = False, in_result = None,
     in_result_sender = result_sender\<rparr>"

definition set_status :: "string \<Rightarrow> instance_data \<Rightarrow> instance_data" where
  "set_status st i = i\<lparr>in_status := st\<rparr>"

definition set_result :: "prot_result \<Rightarrow> instance_data \<Rightarrow> instance_data" where
  "set_result r i = i\<lparr>in_result := Some r, in_finished := True, in_message_channel_sender := False\<rparr>"

definition get_result_sender :: "instance_data \<Rightarrow> instance_data \<times> nat option" where
  "get_result_sender i = (i\<lparr>in_result_sender := None\<rparr>, in_result_sender i)"

subsection \<open>The cache\<close>

definition DEFAULT_INSTANCE_CACHE_SIZE :: nat where
  "DEFAULT_INSTANCE_CACHE_SIZE = 10000"

definition INSTANCE_CACHE_CLEANUP_SCAN_LENGTH :: nat where
  "INSTANCE_CACHE_CLEANUP_SCAN_LENGTH = 5000"

record instance_cache =
  ic_instance_data :: "(bytes \<times> instance_data) list"
  ic_capacity :: nat
  ic_terminated_instances :: "bytes list"

definition ic_new :: "nat option \<Rightarrow> instance_cache" where
  "ic_new capacity = \<lparr>ic_instance_data = [],
     ic_capacity = (case capacity of None \<Rightarrow> DEFAULT_INSTANCE_CACHE_SIZE | Some c \<Rightarrow> c),
     ic_terminated_instances = []\<rparr>"

definition ic_get :: "instance_cache \<Rightarrow> bytes \<Rightarrow> instance_data option" where
  "ic_get c i = map_of (ic_instance_data c) i"

definition ic_contains_key :: "instance_cache \<Rightarrow> bytes \<Rightarrow> bool" where
  "ic_contains_key c i = (i \<in> set (map fst (ic_instance_data c)))"

definition ic_put :: "instance_cache \<Rightarrow> bytes \<Rightarrow> instance_data \<Rightarrow> instance_cache" where
  "ic_put c i x = c\<lparr>ic_instance_data := AList.update i x (ic_instance_data c)\<rparr>"

fun eject_loop :: "nat \<Rightarrow> instance_cache \<Rightarrow> instance_cache may_panic" where
  "eject_loop 0 c = Some c"
| "eject_loop (Suc n) c =
     (case ic_terminated_instances c of
        [] \<Rightarrow> None
      | candidate_id # rest \<Rightarrow>
          eject_loop n (c\<lparr>ic_instance_data := AList.delete candidate_id (ic_instance_data c),
                          ic_terminated_instances := rest\<rparr>))"

definition attempt_eject :: "instance_cache \<Rightarrow> (instance_cache \<times> nat) may_panic" where
  "attempt_eject c = do {
     let max_iterations = (if length (ic_terminated_instances c) < INSTANCE_CACHE_CLEANUP_SCAN_LENGTH
       then length (ic_terminated_instances c) else INSTANCE_CACHE_CLEANUP_SCAN_LENGTH);
     c' \<leftarrow> eject_loop max_iterations c;
     Some (c', max_iterations)
   }"

definition ic_insert :: "instance_cache \<Rightarrow> bytes \<Rightarrow> instance_data \<Rightarrow> instance_cache may_panic" where
  "ic_insert c i x = do {
     c' \<leftarrow> (if ic_capacity c \<le> length (ic_instance_data c) then map_option fst (attempt_eject c) else Some c);
     Some (ic_put c' i x)
   }"

text \<open>The result goes to the responder of a synchronous request, once.\<close>

definition inform_of_termination ::
  "instance_cache \<Rightarrow> bytes \<Rightarrow> (instance_cache \<times> (nat \<times> prot_result) option) may_panic" where
  "inform_of_termination c i =
     (case ic_get c i of
        None \<Rightarrow> Some (c, None)
      | Some inst \<Rightarrow> do {
          result \<leftarrow> in_result inst;
          let (inst', sender) = get_result_sender inst;
          Some ((ic_put c i inst')\<lparr>ic_terminated_instances := ic_terminated_instances c @ [i]\<rparr>,
                map_option (\<lambda>s. (s, result)) sender)
        })"

subsection \<open>What the cache promises\<close>

text \<open>
  \<open>finish\<close> stores the record of an instance that has just got its result and announces its
  termination.  Insertion may forget instances, but only finished ones.
\<close>

locale instance_store =
  fixes ok :: "'c \<Rightarrow> bool" and lookup :: "'c \<Rightarrow> bytes \<Rightarrow> instance_data option"
    and insert_new :: "'c \<Rightarrow> bytes \<Rightarrow> instance_data \<Rightarrow> 'c may_panic"
    and finish :: "'c \<Rightarrow> bytes \<Rightarrow> instance_data \<Rightarrow> ('c \<times> (nat \<times> prot_result) option) may_panic"
  assumes insert_new: "ok c \<Longrightarrow> lookup c i = None \<Longrightarrow> \<not> in_finished x \<Longrightarrow>
      \<exists>c'. insert_new c i x = Some c' \<and> ok c' \<and> lookup c' i = Some x
        \<and> (\<forall>j. j \<noteq> i \<longrightarrow> lookup c' j = lookup c j \<or> lookup c' j = None \<and> (\<exists>y. lookup c j = Some y \<and> in_finished y))"
    and finish: "ok c \<Longrightarrow> lookup c i = Some y \<Longrightarrow> \<not> in_finished y \<Longrightarrow> in_finished x \<Longrightarrow> in_result x = Some r \<Longrightarrow>
      \<exists>c'. finish c i x = Some (c', map_option (\<lambda>s. (s, r)) (in_result_sender x)) \<and> ok c'
        \<and> lookup c' = (lookup c)(i \<mapsto> x\<lparr>in_result_sender := None\<rparr>)"
begin

definition running :: "'c \<Rightarrow> bytes set" where
  "running c = {i. \<exists>x. lookup c i = Some x \<and> \<not> in_finished x}"

lemma running_iff: "i \<in> running c \<longleftrightarrow> (\<exists>x. lookup c i = Some x \<and> \<not> in_finished x)"
  by (simp add: running_def)

lemma running_insert_new:
  assumes "ok c" "lookup c i = None" "\<not> in_finished x" "insert_new c i x = Some c'"
  shows "running c' = insert i (running c)"
proof -
  have i: "lookup c' i = Some x" and
    j: "\<And>j. j \<noteq> i \<Longrightarrow> lookup c' j = lookup c j \<or> lookup c' j = None \<and> (\<exists>y. lookup c j = Some y \<and> in_finished y)"
    using insert_new [OF assms(1-3)] assms(4) by auto
  have "k \<in> running c' \<longleftrightarrow> k \<in> insert i (running c)" for k
    using i j [of k] assms(3) by (cases "k = i") (simp_all add: running_iff, metis option.inject option.distinct(1))
  then show ?thesis by blast
qed

lemma running_finish:
  assumes "ok c" "lookup c i = Some y" "\<not> in_finished y" "in_finished x" "in_result x = Some r" "finish c i x = Some (c', s)"
  shows "running c' = running c - {i}"
proof -
  have "lookup c' = (lookup c)(i \<mapsto> x\<lparr>in_result_sender := None\<rparr>)" using finish [OF assms(1-5)] assms(6) by auto
  then show ?thesis using assms(4) by (auto simp: running_def)
qed

lemma insert_new_keeps:
  assumes "ok c" "lookup c i = None" "\<not> in_finished x" "insert_new c i x = Some c'" "lookup c j = Some y"
  shows "lookup c' j = Some y \<or> lookup c' j = None \<and> in_finished y"
  using insert_new [OF assms(1-3)] assms(2,4,5) by (metis option.inject option.distinct(1))

lemma insert_new_lookup:
  assumes "ok c" "lookup c i = None" "\<not> in_finished x" "insert_new c i x = Some c'" "lookup c' j = Some y"
  shows "lookup c j = Some y \<or> j = i \<and> y = x"
  using insert_new [OF assms(1-3)] assms(4,5) by (metis option.inject option.distinct(1))

end

text \<open>The cache's invariant: the queue holds the finished instances, each once.\<close>

definition ic_ok :: "instance_cache \<Rightarrow> bool" where
  "ic_ok c \<longleftrightarrow> distinct (map fst (ic_instance_data c)) \<and> distinct (ic_terminated_instances c)
     \<and> (\<forall>i. i \<in> set (ic_terminated_instances c) \<longleftrightarrow> (\<exists>x. ic_get c i = Some x \<and> in_finished x))"

definition ic_finish ::
  "instance_cache \<Rightarrow> bytes \<Rightarrow> instance_data \<Rightarrow> (instance_cache \<times> (nat \<times> prot_result) option) may_panic" where
  "ic_finish c i x = inform_of_termination (ic_put c i x) i"

lemma ic_get_put [simp]: "ic_get (ic_put c i x) j = (if j = i then Some x else ic_get c j)"
  by (simp add: ic_get_def ic_put_def update_conv')

lemma ic_put_terminated [simp]: "ic_terminated_instances (ic_put c i x) = ic_terminated_instances c"
  by (simp add: ic_put_def)

lemma ic_contains_key_iff: "ic_contains_key c i \<longleftrightarrow> ic_get c i \<noteq> None"
  by (simp add: ic_contains_key_def ic_get_def map_of_eq_None_iff)

lemma ic_new_ok: "ic_ok (ic_new cap)"
  by (simp add: ic_ok_def ic_new_def ic_get_def)

lemma ic_put_ok:
  assumes "ic_ok c" "\<not> in_finished x" "\<And>y. ic_get c i = Some y \<Longrightarrow> \<not> in_finished y"
  shows "ic_ok (ic_put c i x)"
  using assms distinct_update [of "ic_instance_data c" i x]
  by (auto simp: ic_ok_def) (auto simp: ic_put_def)

text \<open>The ejection loop removes the first \<open>n\<close> terminated instances and never runs out of them.\<close>

lemma eject_loop_spec:
  assumes "ic_ok c" "n \<le> length (ic_terminated_instances c)"
  shows "\<exists>c'. eject_loop n c = Some c' \<and> ic_ok c' \<and> ic_capacity c' = ic_capacity c
    \<and> ic_terminated_instances c' = drop n (ic_terminated_instances c)
    \<and> (\<forall>i. ic_get c' i = (if i \<in> set (take n (ic_terminated_instances c)) then None else ic_get c i))"
  using assms
proof (induction n arbitrary: c)
  case (Suc n)
  obtain i q where q: "ic_terminated_instances c = i # q" using Suc.prems(2) by (cases "ic_terminated_instances c") auto
  let ?c = "c\<lparr>ic_instance_data := AList.delete i (ic_instance_data c), ic_terminated_instances := q\<rparr>"
  have get: "ic_get ?c j = (if j = i then None else ic_get c j)" for j
    by (simp add: ic_get_def delete_conv')
  have "ic_ok ?c" using Suc.prems(1) q distinct_delete [of "ic_instance_data c" i]
    unfolding ic_ok_def get by (auto split: if_splits)
  from Suc.IH [OF this] Suc.prems(2) q get show ?case by auto
qed simp

lemma attempt_eject_spec:
  assumes "ic_ok c"
  shows "\<exists>c'. attempt_eject c = Some (c', min (length (ic_terminated_instances c)) INSTANCE_CACHE_CLEANUP_SCAN_LENGTH)
    \<and> ic_ok c' \<and> ic_capacity c' = ic_capacity c
    \<and> ic_terminated_instances c' = drop INSTANCE_CACHE_CLEANUP_SCAN_LENGTH (ic_terminated_instances c)
    \<and> (\<forall>i. ic_get c' i = (if i \<in> set (take INSTANCE_CACHE_CLEANUP_SCAN_LENGTH (ic_terminated_instances c)) then None else ic_get c i))"
proof -
  let ?q = "ic_terminated_instances c" and ?L = INSTANCE_CACHE_CLEANUP_SCAN_LENGTH
  have m: "(if length ?q < ?L then length ?q else ?L) = min (length ?q) ?L" by simp
  have t: "take (min (length ?q) ?L) ?q = take ?L ?q" "drop (min (length ?q) ?L) ?q = drop ?L ?q" by (auto simp: min_def)
  from eject_loop_spec [OF assms, of "min (length ?q) ?L"] show ?thesis
    unfolding attempt_eject_def Let_def m t by auto
qed

lemma ic_insert_spec:
  assumes "ic_ok c" "ic_get c i = None" "\<not> in_finished x"
  shows "\<exists>c'. ic_insert c i x = Some c' \<and> ic_ok c' \<and> ic_get c' i = Some x
    \<and> (\<forall>j. j \<noteq> i \<longrightarrow> ic_get c' j = ic_get c j \<or> ic_get c' j = None \<and> (\<exists>y. ic_get c j = Some y \<and> in_finished y))"
proof -
  obtain c1 where c1: "(if ic_capacity c \<le> length (ic_instance_data c) then map_option fst (attempt_eject c) else Some c) = Some c1"
      "ic_ok c1" and sub: "\<And>j. ic_get c1 j = ic_get c j \<or> j \<in> set (ic_terminated_instances c) \<and> ic_get c1 j = None"
  proof (cases "ic_capacity c \<le> length (ic_instance_data c)")
    case True
    from attempt_eject_spec [OF assms(1)] show ?thesis
      by (elim exE conjE, intro that) (use True in \<open>auto dest: in_set_takeD split: if_splits\<close>)
  qed (use assms(1) that [of c] in auto)
  have "ic_get c1 i = None" using sub [of i] assms(2) by auto
  with c1(2) assms(3) have "ic_ok (ic_put c1 i x)" by (intro ic_put_ok) auto
  moreover have "ic_insert c i x = Some (ic_put c1 i x)" using c1(1) by (simp add: ic_insert_def)
  ultimately show ?thesis using sub assms(1) by (auto simp: ic_ok_def)
qed

lemma ic_finish_spec:
  assumes "ic_ok c" "ic_get c i = Some y" "\<not> in_finished y" "in_finished x" "in_result x = Some r"
  shows "\<exists>c'. ic_finish c i x = Some (c', map_option (\<lambda>s. (s, r)) (in_result_sender x)) \<and> ic_ok c'
    \<and> ic_get c' = (ic_get c)(i \<mapsto> x\<lparr>in_result_sender := None\<rparr>)"
proof -
  let ?x = "x\<lparr>in_result_sender := None\<rparr>"
  let ?c = "(ic_put (ic_put c i x) i ?x)\<lparr>ic_terminated_instances := ic_terminated_instances c @ [i]\<rparr>"
  have get: "ic_get ?c j = ((ic_get c)(i \<mapsto> ?x)) j" for j by (simp add: ic_get_def ic_put_def update_conv')
  have "distinct (map fst (ic_instance_data ?c))" using assms(1) by (simp add: ic_ok_def ic_put_def distinct_update)
  moreover have "i \<notin> set (ic_terminated_instances c)" using assms(1-3) by (auto simp: ic_ok_def)
  ultimately have "ic_ok ?c" using assms(1,4) unfolding ic_ok_def get by auto
  then show ?thesis using assms(5) get
    by (auto simp: ic_finish_def inform_of_termination_def get_result_sender_def)
qed

interpretation ic: instance_store ic_ok ic_get ic_insert ic_finish
  by unfold_locales (rule ic_insert_spec ic_finish_spec; assumption)+

end
