(* ===== verification/QC_Common.thy ===== *)
theory QC_Common
  imports QC_Codec
begin

text \<open>
  Shared routines of the discrete-logarithm schemes (\<open>dl_schemes/common.rs\<close>) and the trait
  \<open>DlShare\<close> they are generic in: Shamir sharing, the two polynomial evaluations, Lagrange
  coefficients and interpolation in the exponent, and the expansion of a digest to an exponent
  that the schemes repeat.

  Random draws are explicit: \<open>rnd i\<close> is the value of the \<open>i\<close>-th call of
  \<open>SizedBigInt::new_rand\<close>, which is below the bound it is given (\<open>draws_ok\<close>).
\<close>

definition draws_ok :: "int \<Rightarrow> (nat \<Rightarrow> int) \<Rightarrow> bool" where
  "draws_ok q rnd = (\<forall>i. 0 \<le> rnd i \<and> rnd i < q)"

unbundle bit_operations_syntax

subsection \<open>Polynomial evaluation and Shamir sharing\<close>

fun horner_loop :: "sized_big_int \<Rightarrow> sized_big_int \<Rightarrow> sized_big_int \<Rightarrow> sized_big_int list \<Rightarrow>
    sized_big_int may_panic" where
  "horner_loop x order result [] = Some result"
| "horner_loop x order result (c # cs) = do {
     r1 \<leftarrow> sb_mul_mod result x order;
     r2 \<leftarrow> sb_add r1 c;
     r3 \<leftarrow> sb_rmod r2 order;
     horner_loop x order r3 cs
   }"

definition horner ::
  "'p curve_backend \<Rightarrow> sized_big_int \<Rightarrow> sized_big_int list \<Rightarrow> sized_big_int may_panic" where
  "horner B x a = (case a of [] \<Rightarrow> None | c # cs \<Rightarrow> do {
     order \<leftarrow> group_get_order B (sb_group x);
     horner_loop x order c cs
   })"

definition eval_pol_step ::
  "sized_big_int \<Rightarrow> sized_big_int \<Rightarrow> sized_big_int list \<Rightarrow> sized_big_int \<Rightarrow> nat \<Rightarrow>
   sized_big_int may_panic" where
  "eval_pol_step x q a vl i = do {
     e \<leftarrow> sb_new_int (sb_group x) (int (length a) - int i - 1);
     xi \<leftarrow> sb_pow_mod x e q;
     tmp \<leftarrow> sb_mul_mod (a ! i) xi q;
     v \<leftarrow> sb_add vl tmp;
     sb_rmod v q
   }"

definition eval_pol ::
  "'p curve_backend \<Rightarrow> sized_big_int \<Rightarrow> sized_big_int list \<Rightarrow> sized_big_int may_panic" where
  "eval_pol B x a = do {
     v0 \<leftarrow> sb_new_int (sb_group x) 0;
     q \<leftarrow> group_get_order B (sb_group x);
     vl \<leftarrow> foldM (eval_pol_step x q a) v0 [0..<length a - 1];
     c \<leftarrow> (if a = [] then None else Some (last a));
     v \<leftarrow> sb_add vl c;
     sb_rmod v q
   }"

text \<open>
  For threshold 0 the bound \<open>k - 1\<close> of the first loop underflows and panics; without overflow checks it wraps and the
  loop draws coefficients until memory is exhausted.
\<close>

definition shamir_share ::
  "'p curve_backend \<Rightarrow> sized_big_int \<Rightarrow> nat \<Rightarrow> nat \<Rightarrow> (nat \<Rightarrow> int) \<Rightarrow>
   (sized_big_int list \<times> 'p group_element list) may_panic" where
  "shamir_share B x k n rnd =
     (let g = sb_group x in
      if k = 0 then None
      else do {
        let coeff = map (\<lambda>i. SBI g (rnd i)) [0..<k - 1] @ [x];
        shares \<leftarrow> mapM (\<lambda>j. do { xj \<leftarrow> sb_new_int g (int j); horner B xj coeff }) [1..<n + 1];
        h \<leftarrow> mapM (\<lambda>xi. do { hi \<leftarrow> ge_new B g; ge_pow B hi xi }) shares;
        Some (shares, h)
      })"

definition xor_bytes :: "bytes \<Rightarrow> bytes \<Rightarrow> bytes" where
  "xor_bytes v1 v2 = map2 (\<lambda>x y. x XOR y) v1 v2"

subsection \<open>Lagrange coefficients and interpolation\<close>

definition lagrange_step ::
  "group \<Rightarrow> sized_big_int \<Rightarrow> int \<Rightarrow> sized_big_int \<Rightarrow> u16 \<Rightarrow> sized_big_int may_panic" where
  "lagrange_step g q i pr sid =
     (let j = uint sid in
      if i \<noteq> j then do {
        vl \<leftarrow> sb_new_int g \<bar>j - i\<bar>;
        ij \<leftarrow> (if j < i then sb_sub q vl else Some vl);
        ij \<leftarrow> sb_inv_mod ij q;
        jv \<leftarrow> sb_new_int g j;
        ij \<leftarrow> sb_mul_mod ij jv q;
        pr \<leftarrow> sb_rmod pr q;
        sb_mul_mod pr ij q
      } else Some pr)"

definition lagrange_coeff ::
  "'p curve_backend \<Rightarrow> group \<Rightarrow> u16 list \<Rightarrow> int \<Rightarrow> sized_big_int may_panic" where
  "lagrange_coeff B g indices i = do {
     pr \<leftarrow> sb_new_int g 1;
     q \<leftarrow> group_get_order B g;
     pr \<leftarrow> foldM (lagrange_step g q i) pr indices;
     sb_rmod pr q
   }"

text \<open>
  \<open>interpolate\<close> is generic in \<open>T: DlShare\<close>; the three accessors of the trait are its first
  arguments.  The first share initialises the accumulator, so an empty vector panics.
\<close>

definition interpolate_term ::
  "'p curve_backend \<Rightarrow> ('s \<Rightarrow> u16) \<Rightarrow> ('s \<Rightarrow> 'p group_element) \<Rightarrow> group \<Rightarrow> u16 list \<Rightarrow> 's \<Rightarrow>
   'p group_element may_panic" where
  "interpolate_term B get_id get_data g ids s = do {
     l \<leftarrow> lagrange_coeff B g ids (uint (get_id s));
     ge_pow B (get_data s) l
   }"

definition interpolate ::
  "'p curve_backend \<Rightarrow> ('s \<Rightarrow> u16) \<Rightarrow> ('s \<Rightarrow> 'p group_element) \<Rightarrow> ('s \<Rightarrow> group) \<Rightarrow> 's list \<Rightarrow>
   'p group_element may_panic" where
  "interpolate B get_id get_data get_group shares =
     (case shares of [] \<Rightarrow> None | s0 # rest \<Rightarrow> do {
        let ids = map get_id shares;
        ry \<leftarrow> interpolate_term B get_id get_data (get_group s0) ids s0;
        foldM (\<lambda>ry s. do { ui \<leftarrow> interpolate_term B get_id get_data (get_group s0) ids s;
                           ge_mul B ry ui }) ry rest
      })"

subsection \<open>Digest to exponent\<close>

text \<open>
  The tail of \<open>h1\<close> and \<open>h2\<close> of SG02 and of the hash functions of BLS04 and CKS05: blocks
  \<open>H(h || le64(i))\<close> are appended to the digest \<open>h\<close>, then \<open>MODBYTES\<close> bytes are read as an
  integer, which SG02 reduces.  BLS04 and CKS05 also call \<open>rmod\<close> but drop its result, so
  their integer is not reduced.  \<open>q.nbytes()\<close> is the constant \<open>MODBYTES\<close> of the curve.
\<close>

definition le64 :: "int \<Rightarrow> bytes" where
  "le64 i = rev (be_bytes 8 i)"

definition expand_digest :: "nat \<Rightarrow> bytes \<Rightarrow> bytes option" where
  "expand_digest nbytes h =
     (let nbits = nbytes * 8 in
      if length h * 4 < nbits
      then do {
        gs \<leftarrow> mapM (\<lambda>i. hash256 (h @ le64 (int i))) [1..<(nbits - length h * 4) div length h * 8];
        Some (h @ concat gs)
      }
      else Some h)"

definition hash_to_big :: "group \<Rightarrow> bytes \<Rightarrow> sized_big_int may_panic" where
  "hash_to_big g buf = do {
     h \<leftarrow> hash256 buf;
     b \<leftarrow> expand_digest (modbytes g) h;
     sb_from_bytes g b
   }"

definition hash_to_exponent :: "'p curve_backend \<Rightarrow> group \<Rightarrow> bytes \<Rightarrow> sized_big_int may_panic" where
  "hash_to_exponent B g buf = do {
     e \<leftarrow> hash_to_big g buf;
     q \<leftarrow> group_get_order B g;
     sb_rmod e q
   }"

subsection \<open>Facts on evaluation\<close>

definition hpoly :: "int list \<Rightarrow> int \<Rightarrow> int" where
  "hpoly a x = foldl (\<lambda>r c. r * x + c) 0 a"

lemma hpoly_snoc [simp]: "hpoly (a @ [c]) x = hpoly a x * x + c"
  by (simp add: hpoly_def)

lemma hpoly_Nil [simp]: "hpoly [] x = 0"
  by (simp add: hpoly_def)

lemma hpoly_single [simp]: "hpoly [c] x = c"
  by (simp add: hpoly_def)

lemma polyfun_hpoly: "polyfun (length a) (hpoly a)"
proof (induction a rule: rev_induct)
  case Nil
  show ?case using polyfun_zero by (simp add: hpoly_def [abs_def])
next
  case (snoc c a)
  have "polyfun (Suc (length a)) (\<lambda>x. x * hpoly a x + c)"
    by (intro polyfun_add polyfun_shift snoc polyfun_const)
  moreover have "(\<lambda>x. x * hpoly a x + c) = hpoly (a @ [c])" by (rule ext) simp
  ultimately show ?case by (simp only: length_append_singleton)
qed

lemma hpoly_0: "a \<noteq> [] \<Longrightarrow> hpoly a 0 = last a"
  by (induction a rule: rev_induct) simp_all

lemma hpoly_Cons: "hpoly (c # cs) x = foldl (\<lambda>r c. r * x + c) c cs"
  by (simp add: hpoly_def)

lemma foldl_poly_shift:
  "foldl (\<lambda>r c. r * x + c) r cs = r * x ^ length cs + hpoly cs (x::int)"
  by (induction cs rule: rev_induct) (simp_all add: algebra_simps)

lemma foldl_poly_mod:
  "foldl (\<lambda>r c. r * x + c) (r mod q) cs mod q = foldl (\<lambda>r c. r * x + c) r cs mod (q::int)"
  unfolding foldl_poly_shift by (metis mod_add_left_eq mod_mult_left_eq)

lemma horner_loop_SBI:
  "horner_loop (SBI g x) (SBI g q) (SBI g r) (map (SBI g) cs)
   = Some (SBI g (if cs = [] then r else foldl (\<lambda>r c. r * x + c) r cs mod q))"
proof (induction cs arbitrary: r)
  case (Cons c cs)
  show ?case by (auto simp: Cons sb_defs mod_add_left_eq foldl_poly_mod)
qed simp

lemma horner_SBI:
  assumes "is_dl g" "a \<noteq> []" "\<forall>c\<in>set a. 0 \<le> c \<and> c < cb_order B g"
  shows "horner B (SBI g x) (map (SBI g) a) = Some (SBI g (hpoly a x mod cb_order B g))"
  using assms horner_loop_SBI [of g x "cb_order B g"]
  by (cases a) (auto simp: horner_def group_get_order_def hpoly_Cons)

lemma eval_pol_loop:
  assumes "is_dl g" "m < length a"
  shows "foldM (eval_pol_step (SBI g x) (SBI g q) (map (SBI g) a)) (SBI g 0) [0..<m]
         = Some (SBI g ((if m = 0 then 0 else hpoly (take m a) x * x ^ (length a - m) mod q)))"
  using assms
proof (induction m)
  case (Suc m)
  have "hpoly (take (Suc m) a) x = hpoly (take m a) x * x + a ! m"
    using Suc.prems by (simp add: take_Suc_conv_app_nth)
  moreover have "x ^ (length a - m) = x * x ^ (length a - Suc m)"
    using Suc.prems by (simp add: Suc_diff_Suc flip: power_Suc)
  ultimately have "hpoly (take (Suc m) a) x * x ^ (length a - Suc m)
      = hpoly (take m a) x * x ^ (length a - m) + a ! m * x ^ (length a - Suc m)"
    by (simp add: algebra_simps)
  moreover have "nat (int (length a) - int m - 1) = length a - Suc m" using Suc.prems by simp
  ultimately show ?case using Suc
    by (simp add: foldM_append eval_pol_step_def sb_defs mod_simps)
qed simp

lemma eval_pol_SBI:
  assumes "is_dl g" "a \<noteq> []"
  shows "eval_pol B (SBI g x) (map (SBI g) a) = Some (SBI g (hpoly a x mod cb_order B g))"
proof -
  have a: "a = take (length a - 1) a @ [last a]"
    using assms(2) by (metis append_butlast_last_id butlast_conv_take)
  have "hpoly a x = hpoly (take (length a - 1) a) x * x + last a"
    by (subst a, subst hpoly_snoc) simp
  then show ?thesis
    using assms eval_pol_loop [of g "length a - 1" a x "cb_order B g"]
    by (auto simp: eval_pol_def group_get_order_def sb_defs last_map mod_add_left_eq)
qed

subsection \<open>Facts on Lagrange coefficients\<close>

lemma inv_mod_abs:
  assumes "0 < q"
  shows "inv_mod (if j < i then q - \<bar>j - i\<bar> else \<bar>j - i\<bar>) q = inv_mod (j - i) q"
  by (rule inv_mod_cong) auto

lemma lagrange_step_SBI:
  assumes "is_dl g" "0 < q"
  shows "lagrange_step g (SBI g q) i (SBI g p) sid =
     Some (SBI g (if uint sid = i then p else p * (uint sid * inv_mod (uint sid - i) q) mod q))"
proof -
  have "p mod q * (inv_mod d q * uint sid mod q) mod q = p * (uint sid * inv_mod d q) mod q" for d
    by (metis mod_mult_eq mult.commute mod_mod_trivial)
  then show ?thesis
    using assms inv_mod_abs [of q "uint sid" i]
    by (auto simp: lagrange_step_def sb_defs Let_def split: if_splits)
qed

lemma lagrange_loop_SBI:
  assumes "is_dl g" "0 < q"
  shows "\<exists>r. foldM (lagrange_step g (SBI g q) i) (SBI g p) ids = Some (SBI g r)
     \<and> r mod q = (p * lagrange_at_0 q (map uint ids) i) mod q"
proof (induction ids arbitrary: p)
  case Nil
  show ?case by (simp add: lagrange_at_0_def)
next
  case (Cons sid ids)
  let ?p = "if uint sid = i then p else p * (uint sid * inv_mod (uint sid - i) q) mod q"
  obtain r where r: "foldM (lagrange_step g (SBI g q) i) (SBI g ?p) ids = Some (SBI g r)"
      "r mod q = (?p * lagrange_at_0 q (map uint ids) i) mod q"
    using Cons by blast
  have "(?p * lagrange_at_0 q (map uint ids) i) mod q
        = (p * lagrange_at_0 q (map uint (sid # ids)) i) mod q"
    by (simp add: lagrange_at_0_def mod_mult_left_eq mult.assoc)
  then show ?case using r by (simp add: lagrange_step_SBI [OF assms])
qed

lemma lagrange_coeff_SBI:
  assumes "is_dl g" "0 < cb_order B g"
  shows "lagrange_coeff B g ids i
     = Some (SBI g (lagrange_at_0 (cb_order B g) (map uint ids) i mod cb_order B g))"
  using lagrange_loop_SBI [OF assms, of i 1 ids] assms(1)
  by (auto simp: lagrange_coeff_def sb_defs group_get_order_def)

subsection \<open>Identifiers of parties\<close>

lemma uint_share_id:
  assumes "i < n" "n \<le> 65535"
  shows "uint (of_nat (i + 1) :: u16) = int i + 1" "uint (1 + of_nat i :: u16) = int i + 1"
proof -
  show "uint (of_nat (i + 1) :: u16) = int i + 1"
    using assms by (simp only: uint_nat unat_of_nat) simp
  then show "uint (1 + of_nat i :: u16) = int i + 1" by (simp add: add.commute)
qed

lemma distinct_share_ids:
  assumes "distinct js" "\<forall>j\<in>set js. j < n" "n \<le> 65535"
  shows "distinct (map (\<lambda>j. of_nat (j + 1) :: u16) js)"
proof -
  have "inj_on (\<lambda>j. of_nat (j + 1) :: u16) (set js)"
  proof (rule inj_onI)
    fix i j assume ij: "i \<in> set js" "j \<in> set js" and "(of_nat (i + 1) :: u16) = of_nat (j + 1)"
    then have "uint (of_nat (i + 1) :: u16) = uint (of_nat (j + 1) :: u16)" by simp
    then have "int i + 1 = int j + 1" using uint_share_id(1) [OF _ assms(3)] ij assms(2) by simp
    then show "i = j" by simp
  qed
  then show ?thesis using assms(1) by (simp add: distinct_map)
qed

subsection \<open>The trait \<open>DlShare\<close>\<close>

text \<open>
  What \<open>interpolate\<close> relies on: \<open>get_group\<close> is the group of the share's data, as the
  derive macro generates it.  In this interface the interpolation of shares of a polynomial in
  the exponent is the value at 0.
\<close>

locale dl_share =
  fixes get_id :: "'s \<Rightarrow> u16"
    and get_data :: "'s \<Rightarrow> 'p group_element"
    and get_group :: "'s \<Rightarrow> group"
  assumes get_group_data: "get_group s = ge_group (get_data s)"
begin

lemma interpolate_term_gpow:
  assumes "curve_ok B g i" "get_data s = gpow B g i a"
  shows "interpolate_term B get_id get_data g ids s
     = Some (gpow B g i (lagrange_at_0 (cb_order B g) (map uint ids) (uint (get_id s)) * a))"
  using assms curve_ok_dl [OF assms(1)] curve_ok_pos [OF assms(1)]
  by (simp add: interpolate_term_def lagrange_coeff_SBI ge_simps)
    (rule gpow_cong, simp add: mod_mult_right_eq mult.commute)

lemma interpolate_fold:
  assumes "curve_ok B g i" "\<forall>s\<in>set shares. get_data s = gpow B g i (a s)"
  shows "foldM (\<lambda>ry s. do { ui \<leftarrow> interpolate_term B get_id get_data g ids s; ge_mul B ry ui })
           (gpow B g i r) shares
     = Some (gpow B g i (r + (\<Sum>s\<leftarrow>shares.
         lagrange_at_0 (cb_order B g) (map uint ids) (uint (get_id s)) * a s)))"
  using assms(2)
proof (induction shares arbitrary: r)
  case (Cons s ss)
  then show ?case using assms(1) by (simp add: interpolate_term_gpow ge_simps add.assoc)
qed simp

lemma interpolate_gpow:
  assumes "curve_ok B g i" "shares \<noteq> []" "\<forall>s\<in>set shares. get_data s = gpow B g i (a s)"
  shows "interpolate B get_id get_data get_group shares
     = Some (gpow B g i (\<Sum>s\<leftarrow>shares.
         lagrange_at_0 (cb_order B g) (map (uint \<circ> get_id) shares) (uint (get_id s)) * a s))"
proof (cases shares)
  case (Cons s ss)
  have "get_group s = g" using assms(3) Cons by (simp add: get_group_data)
  then show ?thesis using assms Cons interpolate_fold [OF assms(1), of ss a "map get_id shares"]
    by (simp add: interpolate_def interpolate_term_gpow)
qed (use assms(2) in simp)

lemma interpolate_poly:
  assumes "curve_ok B g i" "polyfun k f" "k \<le> length shares" "shares \<noteq> []"
    "distinct (map get_id shares)"
    "\<forall>s\<in>set shares. 0 < uint (get_id s) \<and> uint (get_id s) < cb_order B g
       \<and> get_data s = gpow B g i (u * f (uint (get_id s)))"
  shows "interpolate B get_id get_data get_group shares = Some (gpow B g i (u * f 0))"
proof -
  let ?q = "cb_order B g" and ?ids = "map (uint \<circ> get_id) shares"
  have inj: "inj_on uint (set (map get_id shares))" by (auto simp: inj_on_def word_uint_eq_iff)
  have "distinct ?ids"
    using assms(5) inj distinct_map [of uint "map get_id shares"] by simp
  then have "(\<Sum>j\<leftarrow>?ids. lagrange_at_0 ?q ?ids j * (u * f j)) mod ?q = (u * f 0) mod ?q"
    using assms curve_ok_prime [OF assms(1)] polyfun_scale [OF assms(2), of u]
    by (intro lagrange_interpolation [where n = k]) auto
  then have "gpow B g i (\<Sum>s\<leftarrow>shares. lagrange_at_0 ?q ?ids (uint (get_id s)) * (u * f (uint (get_id s))))
      = gpow B g i (u * f 0)"
    by (intro gpow_cong) (simp add: comp_def)
  then show ?thesis
    using interpolate_gpow [OF assms(1,4), of "\<lambda>s. u * f (uint (get_id s))"] assms(6) by simp
qed

text \<open>The same, for the shares of a list of parties counted from 0.\<close>

lemma interpolate_parties:
  assumes "curve_ok B g i" "polyfun k f" "0 < k" "n \<le> 65535" "int n < cb_order B g"
    "distinct js" "\<forall>j\<in>set js. j < n" "k \<le> length js"
    "list_all2 (\<lambda>j sh. get_id sh = of_nat (j + 1) \<and> get_data sh = gpow B g i (u * f (int j + 1)))
       js shares"
  shows "interpolate B get_id get_data get_group shares = Some (gpow B g i (u * f 0))"
proof (rule interpolate_poly [OF assms(1,2)])
  show "k \<le> length shares" "shares \<noteq> []"
    using assms(3,8) list_all2_lengthD [OF assms(9)] by auto
  have "map get_id shares = map (\<lambda>j. of_nat (j + 1)) js"
    using assms(9) by (induction rule: list_all2_induct) simp_all
  then show "distinct (map get_id shares)" using distinct_share_ids [OF assms(6,7,4)] by simp
  have "\<exists>j<n. get_id sh = of_nat (j + 1) \<and> get_data sh = gpow B g i (u * f (int j + 1))"
    if "sh \<in> set shares" for sh
    using assms(9,7) that by (induction rule: list_all2_induct) auto
  then show "\<forall>s\<in>set shares. 0 < uint (get_id s) \<and> uint (get_id s) < cb_order B g
      \<and> get_data s = gpow B g i (u * f (uint (get_id s)))"
    using uint_share_id(1) [OF _ assms(4)] assms(5) by fastforce
qed

end

subsection \<open>Facts on Shamir sharing\<close>

text \<open>The polynomial of a sharing, as a function on the integers; the secret is its value at 0.\<close>

definition shamir_poly :: "int \<Rightarrow> nat \<Rightarrow> (nat \<Rightarrow> int) \<Rightarrow> int \<Rightarrow> int" where
  "shamir_poly x k rnd = hpoly (map rnd [0..<k - 1] @ [x])"

lemma shamir_poly_0 [simp]: "shamir_poly x k rnd 0 = x"
  by (simp add: shamir_poly_def)

lemma polyfun_shamir: "0 < k \<Longrightarrow> polyfun k (shamir_poly x k rnd)"
  using polyfun_hpoly [of "map rnd [0..<k - 1] @ [x]"] by (simp add: shamir_poly_def)

text \<open>The shares of parties 1 to \<open>n\<close>, and their verification keys.\<close>

definition shares_of :: "group \<Rightarrow> int \<Rightarrow> (int \<Rightarrow> int) \<Rightarrow> nat \<Rightarrow> sized_big_int list" where
  "shares_of g q f n = map (\<lambda>j. SBI g (f (int j) mod q)) [1..<n + 1]"

definition vk_of :: "'p curve_backend \<Rightarrow> group \<Rightarrow> (int \<Rightarrow> int) \<Rightarrow> nat \<Rightarrow> 'p group_element list" where
  "vk_of B g f n = map (\<lambda>j. gpow B g 0 (f (int j))) [1..<n + 1]"

lemma length_shares_of [simp]: "length (shares_of g q f n) = n"
  by (simp add: shares_of_def del: upt_Suc)

lemma length_vk_of [simp]: "length (vk_of B g f n) = n"
  by (simp add: vk_of_def del: upt_Suc)

lemma vk_of_eq_Nil [simp]: "vk_of B g f n = [] \<longleftrightarrow> n = 0"
  by (metis length_0_conv length_vk_of)

lemma nth_shares_of [simp]: "i < n \<Longrightarrow> shares_of g q f n ! i = SBI g (f (int (i + 1)) mod q)"
  by (simp add: shares_of_def del: upt_Suc)

lemma nth_vk_of [simp]: "i < n \<Longrightarrow> vk_of B g f n ! i = gpow B g 0 (f (int (i + 1)))"
  by (simp add: vk_of_def del: upt_Suc)

lemma hd_vk_of [simp]: "0 < n \<Longrightarrow> ge_group (hd (vk_of B g f n)) = g"
  by (simp add: hd_conv_nth)

lemma vk_ofD: "v \<in> set (vk_of B g f n) \<Longrightarrow> \<exists>a. v = gpow B g 0 a"
  by (auto simp: vk_of_def)

lemma index_vk_of:
  assumes "0 < uint sid" "uint sid \<le> int n"
  shows "index_by_id (vk_of B g f n) sid = Some (gpow B g 0 (f (uint sid)))"
proof -
  have u: "int (unat sid) = uint sid" by simp
  have "sid \<noteq> 0" using assms by auto
  moreover have "unat sid \<le> n" using assms u by linarith
  moreover have "0 < unat sid" using assms u by linarith
  ultimately have "index_by_id (vk_of B g f n) sid = Some (gpow B g 0 (f (int (unat sid))))"
    by (simp add: index_by_id_Some_iff del: of_nat_unat)
  then show ?thesis using u by simp
qed

lemma index_by_id_vk_ofD:
  assumes "index_by_id (vk_of B g f n) sid = Some v"
  shows "0 < uint sid \<and> uint sid \<le> int n"
proof -
  have "sid \<noteq> 0" "unat sid \<le> n" using assms by (auto simp: index_by_id_Some_iff)
  moreover have "int (unat sid) = uint sid" by simp
  moreover have "0 < unat sid" using \<open>sid \<noteq> 0\<close> by (simp add: unat_gt_0)
  ultimately show ?thesis by linarith
qed

lemma mapM_to_bytes_vk_of [ge_simps]:
  assumes "curve_ok B g 0"
  shows "mapM (ge_to_bytes B) (vk_of B g f n)
     = Some (map (\<lambda>v. cb_tobytes B g 0 (ge_val v)) (vk_of B g f n))"
  using assms by (intro mapM_Some) (auto dest!: vk_ofD simp: ge_simps)

lemma shamir_share_eq:
  assumes "curve_ok B g 0" "0 < k" "draws_ok (cb_order B g) rnd" "0 \<le> x" "x < cb_order B g"
  shows "shamir_share B (SBI g x) k n rnd
    = Some (shares_of g (cb_order B g) (shamir_poly x k rnd) n, vk_of B g (shamir_poly x k rnd) n)"
proof -
  let ?q = "cb_order B g" and ?a = "map rnd [0..<k - 1] @ [x]" and ?f = "shamir_poly x k rnd"
  have dl: "is_dl g" and q0: "0 < ?q" using curve_ok_dl [OF assms(1)] curve_ok_pos [OF assms(1)] by auto
  have a: "\<forall>c\<in>set ?a. 0 \<le> c \<and> c < ?q" using assms by (auto simp: draws_ok_def)
  have "map (SBI g) ?a = map (\<lambda>i. SBI g (rnd i)) [0..<k - 1] @ [SBI g x]" by simp
  moreover have "horner B (SBI g (int j)) (map (SBI g) ?a) = Some (SBI g (?f (int j) mod ?q))"
    for j using horner_SBI [OF dl _ a] by (simp add: shamir_poly_def del: map_map)
  ultimately have "mapM (\<lambda>j. do { xj \<leftarrow> sb_new_int g (int j);
        horner B xj (map (\<lambda>i. SBI g (rnd i)) [0..<k - 1] @ [SBI g x]) }) [1..<n + 1]
      = Some (shares_of g ?q ?f n)"
    unfolding shares_of_def using dl by (intro mapM_Some) (simp add: sb_new_int_def comp_def)
  moreover have "mapM (\<lambda>xi. do { hi \<leftarrow> ge_new B g; ge_pow B hi xi }) (shares_of g ?q ?f n)
      = Some (map (\<lambda>xi. gpow B g 0 (sb_val xi)) (shares_of g ?q ?f n))"
    using assms(1) q0 by (intro mapM_Some) (auto simp: ge_simps shares_of_def)
  ultimately show ?thesis using assms(2)
    by (simp add: shamir_share_def Let_def ge_simps vk_of_def shares_of_def comp_def del: upt_Suc)
qed

lemma shamir_share_zero_threshold: "shamir_share B x 0 n rnd = None"
  by (simp add: shamir_share_def Let_def)

subsection \<open>Facts on masks and digests\<close>

text \<open>The response \<open>s + e r\<close> of a proof of knowledge, checked against \<open>e\<close> and \<open>g^r\<close>.\<close>

lemma gpow_response:
  "gpow B g i (t * ((s + e * r mod cb_order B g) mod cb_order B g) - t * r * e) = gpow B g i (t * s)"
  (is "gpow B g i (t * ?f - _) = _")
proof (rule gpow_cong)
  let ?q = "cb_order B g"
  have "(t * ?f) mod ?q = (t * (s + e * r)) mod ?q" by (simp add: mod_simps)
  then have "(t * ?f - t * r * e) mod ?q = (t * (s + e * r) - t * r * e) mod ?q"
    by (metis mod_diff_left_eq)
  then show "(t * ?f - t * r * e) mod ?q = (t * s) mod ?q" by (simp add: algebra_simps)
qed

lemma gpow_response_1:
  "gpow B g i ((s + e * r mod cb_order B g) mod cb_order B g - r * e) = gpow B g i s"
  using gpow_response [where t = 1] by simp


lemma length_xor_bytes [simp]: "length (xor_bytes a b) = min (length a) (length b)"
  by (simp add: xor_bytes_def)

lemma xor_bytes_cancel: "length a = length b \<Longrightarrow> xor_bytes a (xor_bytes a b) = b"
  by (rule nth_equalityI) (simp_all add: xor_bytes_def flip: xor.assoc)

lemma hash_to_big_total:
  assumes "is_dl g"
  shows "\<exists>e. hash_to_big g buf = Some (SBI g e) \<and> 0 \<le> e"
proof -
  have m: "length (concat (map (\<lambda>i. sha (f i)) js)) = 32 * length js" for f and js :: "nat list"
    by (induction js) simp_all
  have "modbytes g = 48 \<or> modbytes g = 32" using assms by (cases g) auto
  then obtain b where b: "expand_digest (modbytes g) (sha buf) = Some b" "modbytes g \<le> length b"
    by (auto simp: expand_digest_def Let_def m simp del: length_concat)
  then show ?thesis using assms by (simp add: hash_to_big_def sb_from_bytes_def be_value_nonneg)
qed

definition hash_big :: "group \<Rightarrow> bytes \<Rightarrow> int" where
  "hash_big g buf = sb_val (the (hash_to_big g buf))"

lemma hash_to_big_SBI [ge_simps]: "is_dl g \<Longrightarrow> hash_to_big g buf = Some (SBI g (hash_big g buf))"
  using hash_to_big_total [of g buf] by (auto simp: hash_big_def)

lemma hash_big_nonneg: "is_dl g \<Longrightarrow> 0 \<le> hash_big g buf"
  using hash_to_big_total [of g buf] by (auto simp: hash_big_def)

lemma hash_to_exponent_total:
  assumes "curve_ok B g i"
  shows "\<exists>e. hash_to_exponent B g buf = Some (SBI g e) \<and> 0 \<le> e \<and> e < cb_order B g"
  using hash_to_big_total [of g buf] curve_ok_dl [OF assms] curve_ok_pos [OF assms]
  by (auto simp: hash_to_exponent_def group_get_order_def sb_rmod_def)

definition hash_exp :: "'p curve_backend \<Rightarrow> group \<Rightarrow> bytes \<Rightarrow> int" where
  "hash_exp B g buf = sb_val (the (hash_to_exponent B g buf))"

lemma hash_to_exponent_SBI [ge_simps]:
  "curve_ok B g i \<Longrightarrow> hash_to_exponent B g buf = Some (SBI g (hash_exp B g buf))"
  using hash_to_exponent_total [of B g i buf] by (auto simp: hash_exp_def)

lemma hash_exp_range:
  "curve_ok B g i \<Longrightarrow> 0 \<le> hash_exp B g buf \<and> hash_exp B g buf < cb_order B g"
  using hash_to_exponent_total [of B g i buf] by (auto simp: hash_exp_def)

end
