(* ===== verification/QC_Sg02.thy ===== *)
theory QC_Sg02
  imports QC_Common
begin

text \<open>
  The threshold cipher SG02 (\<open>dl_schemes/ciphers/sg02.rs\<close>) and its arm of
  \<open>KeyGenerator::generate_keys\<close>.  The values drawn from the generator are arguments: the
  exponents \<open>r\<close>, \<open>s\<close> and the symmetric key of an encryption, the exponent of a share.
\<close>

record 'p sg02_public_key =
  sg02pk_n :: u16
  sg02pk_k :: u16
  sg02pk_group :: group
  sg02pk_y :: "'p group_element"
  sg02pk_verification_key :: "'p group_element list"
  sg02pk_g_bar :: "'p group_element"
  sg02pk_id :: bytes

record 'p sg02_private_key =
  sg02sk_id :: u16
  sg02sk_xi :: sized_big_int
  sg02sk_pubkey :: "'p sg02_public_key"

record 'p sg02_ciphertext =
  sg02ct_label :: bytes
  sg02ct_ctxt :: bytes
  sg02ct_u :: "'p group_element"
  sg02ct_u_bar :: "'p group_element"
  sg02ct_e :: sized_big_int
  sg02ct_f :: sized_big_int
  sg02ct_c_k :: bytes
  sg02ct_key_id :: bytes

record 'p sg02_decryption_share =
  sg02sh_id :: u16
  sg02sh_label :: bytes
  sg02sh_data :: "'p group_element"
  sg02sh_ei :: sized_big_int
  sg02sh_fi :: sized_big_int

subsection \<open>Encodings\<close>

definition sg02_pk_elements ::
  "'p curve_backend \<Rightarrow> 'p sg02_public_key \<Rightarrow> asn1_element list may_panic" where
  "sg02_pk_elements B pk = do {
     yb \<leftarrow> ge_to_bytes B (sg02pk_y pk);
     vk \<leftarrow> mapM (ge_to_bytes B) (sg02pk_verification_key pk);
     gb \<leftarrow> ge_to_bytes B (sg02pk_g_bar pk);
     Some ([AGroup (sg02pk_group pk), AU16 (sg02pk_n pk), AU16 (sg02pk_k pk), AOctets yb]
           @ map AOctets vk @ [AOctets gb])
   }"

definition sg02_pk_to_bytes ::
  "codec \<Rightarrow> 'p curve_backend \<Rightarrow> 'p sg02_public_key \<Rightarrow> (scheme_error + bytes) may_panic" where
  "sg02_pk_to_bytes C B pk = map_option (write_seq C) (sg02_pk_elements B pk)"

definition sg02_pk_from_bytes ::
  "codec \<Rightarrow> 'p curve_backend \<Rightarrow> bytes \<Rightarrow> (scheme_error + 'p sg02_public_key) may_panic" where
  "sg02_pk_from_bytes C B bs = parse_seq C bs
     (read_i32 (\<lambda>gc. case group_from_i32 gc of None \<Rightarrow> read_fail | Some g \<Rightarrow>
      read_u64 (\<lambda>n. read_u64 (\<lambda>k.
      read_octets (\<lambda>b. read_call (ge_from_bytes B b g None) (\<lambda>y.
      read_many (unat (word_of_int n :: u16)) (\<lambda>b. ge_from_bytes B b g None) (\<lambda>vk.
      read_octets (\<lambda>b. read_call (ge_from_bytes B b g None) (\<lambda>g_bar.
      read_call (calc_key_id C bs) (\<lambda>i.
      read_end \<lparr>sg02pk_n = word_of_int n, sg02pk_k = word_of_int k, sg02pk_group = g, sg02pk_y = y,
        sg02pk_verification_key = vk, sg02pk_g_bar = g_bar, sg02pk_id = i\<rparr>))))))))))"

definition sg02_sk_to_bytes ::
  "codec \<Rightarrow> 'p curve_backend \<Rightarrow> 'p sg02_private_key \<Rightarrow> (scheme_error + bytes) may_panic" where
  "sg02_sk_to_bytes C B sk = do {
     pb \<leftarrow> sg02_pk_to_bytes C B (sg02sk_pubkey sk);
     Some (write_seq_nested C [AU16 (sg02sk_id sk), AOctets (sb_to_bytes (sg02sk_xi sk))] pb)
   }"

text \<open>Running a nested \<open>from_bytes\<close> inside a reader: its error is a parse error.\<close>

definition sg02_sk_from_bytes ::
  "codec \<Rightarrow> 'p curve_backend \<Rightarrow> bytes \<Rightarrow> (scheme_error + 'p sg02_private_key) may_panic" where
  "sg02_sk_from_bytes C B bs = parse_seq C bs
     (read_u64 (\<lambda>i. read_octets (\<lambda>b. read_octets (\<lambda>pb.
      read_call (sg02_pk_from_bytes C B pb) (\<lambda>res. case res of Inl _ \<Rightarrow> read_fail | Inr pk \<Rightarrow>
      read_call (sb_from_bytes (sg02pk_group pk) b) (\<lambda>xi.
      read_end \<lparr>sg02sk_id = word_of_int i, sg02sk_xi = xi, sg02sk_pubkey = pk\<rparr>))))))"

definition sg02_ct_to_bytes ::
  "codec \<Rightarrow> 'p curve_backend \<Rightarrow> 'p sg02_ciphertext \<Rightarrow> (scheme_error + bytes) may_panic" where
  "sg02_ct_to_bytes C B ct = do {
     ub \<leftarrow> ge_to_bytes B (sg02ct_u ct);
     u_barb \<leftarrow> ge_to_bytes B (sg02ct_u_bar ct);
     Some (write_seq C [AGroup (sb_group (sg02ct_e ct)), AOctets (sg02ct_label ct),
       AOctets (sg02ct_ctxt ct), AOctets ub, AOctets u_barb, AOctets (sb_to_bytes (sg02ct_e ct)),
       AOctets (sb_to_bytes (sg02ct_f ct)), AOctets (sg02ct_c_k ct), AOctets (sg02ct_key_id ct)])
   }"

definition sg02_ct_from_bytes ::
  "codec \<Rightarrow> 'p curve_backend \<Rightarrow> bytes \<Rightarrow> (scheme_error + 'p sg02_ciphertext) may_panic" where
  "sg02_ct_from_bytes C B bs = parse_seq C bs
     (read_i32 (\<lambda>gc. case group_from_i32 gc of None \<Rightarrow> read_fail | Some g \<Rightarrow>
      read_octets (\<lambda>label. read_octets (\<lambda>msg.
      read_octets (\<lambda>b. read_call (ge_from_bytes B b g None) (\<lambda>u.
      read_octets (\<lambda>b. read_call (ge_from_bytes B b g None) (\<lambda>u_bar.
      read_octets (\<lambda>b. read_call (sb_from_bytes g b) (\<lambda>e.
      read_octets (\<lambda>b. read_call (sb_from_bytes g b) (\<lambda>f.
      read_octets (\<lambda>c_k. read_octets (\<lambda>kid. if \<not> utf8_valid kid then read_fail else
      read_end \<lparr>sg02ct_label = label, sg02ct_ctxt = msg, sg02ct_u = u, sg02ct_u_bar = u_bar,
        sg02ct_e = e, sg02ct_f = f, sg02ct_c_k = c_k, sg02ct_key_id = kid\<rparr>))))))))))))))"

definition sg02_share_to_bytes ::
  "codec \<Rightarrow> 'p curve_backend \<Rightarrow> 'p sg02_decryption_share \<Rightarrow> (scheme_error + bytes) may_panic" where
  "sg02_share_to_bytes C B sh = do {
     db \<leftarrow> ge_to_bytes B (sg02sh_data sh);
     Some (write_seq C [AU16 (sg02sh_id sh), AGroup (ge_group (sg02sh_data sh)),
       AOctets (sg02sh_label sh), AOctets db, AOctets (sb_to_bytes (sg02sh_ei sh)),
       AOctets (sb_to_bytes (sg02sh_fi sh))])
   }"

definition sg02_share_from_bytes ::
  "codec \<Rightarrow> 'p curve_backend \<Rightarrow> bytes \<Rightarrow> (scheme_error + 'p sg02_decryption_share) may_panic" where
  "sg02_share_from_bytes C B bs = parse_seq C bs
     (read_u64 (\<lambda>i. read_i32 (\<lambda>gc. case group_from_i32 gc of None \<Rightarrow> read_fail | Some g \<Rightarrow>
      read_octets (\<lambda>label.
      read_octets (\<lambda>b. read_call (ge_from_bytes B b g None) (\<lambda>d.
      read_octets (\<lambda>b. read_call (sb_from_bytes g b) (\<lambda>ei.
      read_octets (\<lambda>b. read_call (sb_from_bytes g b) (\<lambda>fi.
      read_end \<lparr>sg02sh_id = word_of_int i, sg02sh_label = label, sg02sh_data = d,
        sg02sh_ei = ei, sg02sh_fi = fi\<rparr>))))))))))"

subsection \<open>Keys\<close>

definition sg02_pk_new ::
  "codec \<Rightarrow> 'p curve_backend \<Rightarrow> nat \<Rightarrow> nat \<Rightarrow> group \<Rightarrow> 'p group_element \<Rightarrow>
   'p group_element list \<Rightarrow> 'p group_element \<Rightarrow> 'p sg02_public_key may_panic" where
  "sg02_pk_new C B n k g y vk g_bar =
     (if ge_group y \<noteq> g \<or> vk = [] \<or> ge_group (hd vk) \<noteq> g \<or> ge_group g_bar \<noteq> g then None
      else do {
        let key = \<lparr>sg02pk_n = of_nat n, sg02pk_k = of_nat k, sg02pk_group = g, sg02pk_y = y,
                   sg02pk_verification_key = vk, sg02pk_g_bar = g_bar, sg02pk_id = []\<rparr>;
        res \<leftarrow> sg02_pk_to_bytes C B key;
        bs \<leftarrow> unwrap res;
        i \<leftarrow> calc_key_id C bs;
        Some (key\<lparr>sg02pk_id := i\<rparr>)
      })"

definition sg02_sk_new ::
  "u16 \<Rightarrow> sized_big_int \<Rightarrow> 'p sg02_public_key \<Rightarrow> 'p sg02_private_key" where
  "sg02_sk_new i xi pk = \<lparr>sg02sk_id = i, sg02sk_xi = xi, sg02sk_pubkey = pk\<rparr>"

definition sg02_generate_keys ::
  "codec \<Rightarrow> 'p curve_backend \<Rightarrow> nat \<Rightarrow> nat \<Rightarrow> group \<Rightarrow> int \<Rightarrow> (nat \<Rightarrow> int) \<Rightarrow> int \<Rightarrow>
   (scheme_error + 'p sg02_private_key list) may_panic" where
  "sg02_generate_keys C B k n g x rnd t =
     (if \<not> is_dl g then Some (Err IncompatibleGroup)
      else do {
        y \<leftarrow> ge_new_pow_big B g (SBI g x);
        (shares, h) \<leftarrow> shamir_share B (SBI g x) k n rnd;
        g_bar \<leftarrow> ge_new_pow_big B g (SBI g t);
        pk \<leftarrow> sg02_pk_new C B n k g y h g_bar;
        if 65535 < length shares then None
        else Some (Ok (map (\<lambda>i. sg02_sk_new (of_nat (i + 1)) (shares ! i) pk) [0..<length shares]))
      })"

subsection \<open>The cipher\<close>

definition sg02_h :: "'p curve_backend \<Rightarrow> 'p group_element \<Rightarrow> bytes may_panic" where
  "sg02_h B x = do { buf \<leftarrow> ge_to_bytes B x; hash256 buf }"

definition sg02_h1 ::
  "'p curve_backend \<Rightarrow> bytes \<Rightarrow> bytes \<Rightarrow> 'p group_element \<Rightarrow> 'p group_element \<Rightarrow>
   'p group_element \<Rightarrow> 'p group_element \<Rightarrow> sized_big_int may_panic" where
  "sg02_h1 B m1 m2 g1 g2 g3 g4 = do {
     b1 \<leftarrow> ge_to_bytes B g1;
     b2 \<leftarrow> ge_to_bytes B g2;
     b3 \<leftarrow> ge_to_bytes B g3;
     b4 \<leftarrow> ge_to_bytes B g4;
     hash_to_exponent B (ge_group g1) (m1 @ m2 @ b1 @ b2 @ b3 @ b4)
   }"

definition sg02_h2 ::
  "'p curve_backend \<Rightarrow> 'p group_element \<Rightarrow> 'p group_element \<Rightarrow> 'p group_element \<Rightarrow>
   sized_big_int may_panic" where
  "sg02_h2 B g1 g2 g3 = do {
     b1 \<leftarrow> ge_to_bytes B g1;
     b2 \<leftarrow> ge_to_bytes B g2;
     b3 \<leftarrow> ge_to_bytes B g3;
     hash_to_exponent B (ge_group g1) (b1 @ b2 @ b3)
   }"

definition sg02_encrypt ::
  "'p curve_backend \<Rightarrow> aead \<Rightarrow> bytes \<Rightarrow> bytes \<Rightarrow> 'p sg02_public_key \<Rightarrow> int \<Rightarrow> bytes \<Rightarrow> int \<Rightarrow>
   'p sg02_ciphertext may_panic" where
  "sg02_encrypt B A msg label pk r symm_key s = do {
     let g = sg02pk_group pk;
     order \<leftarrow> group_get_order B g;
     u \<leftarrow> ge_new_pow_big B g (SBI g r);
     ry \<leftarrow> ge_pow B (sg02pk_y pk) (SBI g r);
     ryb \<leftarrow> ge_to_bytes B ry;
     nonce \<leftarrow> nonce_of ryb;
     encryption \<leftarrow> cipher_encrypt A symm_key nonce msg;
     hry \<leftarrow> sg02_h B ry;
     let c_k = xor_bytes hry symm_key;
     w \<leftarrow> ge_new_pow_big B g (SBI g s);
     w_bar \<leftarrow> ge_pow B (sg02pk_g_bar pk) (SBI g s);
     u_bar \<leftarrow> ge_pow B (sg02pk_g_bar pk) (SBI g r);
     e \<leftarrow> sg02_h1 B c_k label u w u_bar w_bar;
     er \<leftarrow> sb_mul_mod e (SBI g r) order;
     f0 \<leftarrow> sb_add (SBI g s) er;
     f \<leftarrow> sb_rmod f0 order;
     Some \<lparr>sg02ct_label = label, sg02ct_ctxt = encryption, sg02ct_u = u, sg02ct_u_bar = u_bar,
           sg02ct_e = e, sg02ct_f = f, sg02ct_c_k = c_k, sg02ct_key_id = sg02pk_id pk\<rparr>
   }"

definition sg02_verify_ciphertext ::
  "'p curve_backend \<Rightarrow> 'p sg02_ciphertext \<Rightarrow> 'p sg02_public_key \<Rightarrow> bool may_panic" where
  "sg02_verify_ciphertext B ct pk = do {
     gf \<leftarrow> ge_new_pow_big B (sg02pk_group pk) (sg02ct_f ct);
     ue \<leftarrow> ge_pow B (sg02ct_u ct) (sg02ct_e ct);
     w \<leftarrow> ge_div B gf ue;
     gbf \<leftarrow> ge_pow B (sg02pk_g_bar pk) (sg02ct_f ct);
     ube \<leftarrow> ge_pow B (sg02ct_u_bar ct) (sg02ct_e ct);
     w_bar \<leftarrow> ge_div B gbf ube;
     e2 \<leftarrow> sg02_h1 B (sg02ct_c_k ct) (sg02ct_label ct) (sg02ct_u ct) w (sg02ct_u_bar ct) w_bar;
     Some (sb_equals (sg02ct_e ct) e2)
   }"

definition sg02_partial_decrypt ::
  "'p curve_backend \<Rightarrow> 'p sg02_ciphertext \<Rightarrow> 'p sg02_private_key \<Rightarrow> int \<Rightarrow>
   'p sg02_decryption_share may_panic" where
  "sg02_partial_decrypt B ct sk si = do {
     let g = sg02pk_group (sg02sk_pubkey sk);
     order \<leftarrow> group_get_order B g;
     d \<leftarrow> ge_pow B (sg02ct_u ct) (sg02sk_xi sk);
     ui_bar \<leftarrow> ge_pow B (sg02ct_u ct) (SBI g si);
     gen \<leftarrow> ge_new B g;
     hi_bar \<leftarrow> ge_pow B gen (SBI g si);
     ei \<leftarrow> sg02_h2 B d ui_bar hi_bar;
     xe \<leftarrow> sb_mul_mod (sg02sk_xi sk) ei order;
     f0 \<leftarrow> sb_add (SBI g si) xe;
     fi \<leftarrow> sb_rmod f0 order;
     Some \<lparr>sg02sh_id = sg02sk_id sk, sg02sh_label = sg02ct_label ct, sg02sh_data = d,
           sg02sh_ei = ei, sg02sh_fi = fi\<rparr>
   }"

definition sg02_verify_share ::
  "'p curve_backend \<Rightarrow> 'p sg02_decryption_share \<Rightarrow> 'p sg02_ciphertext \<Rightarrow> 'p sg02_public_key \<Rightarrow>
   bool may_panic" where
  "sg02_verify_share B sh ct pk = do {
     uf \<leftarrow> ge_pow B (sg02ct_u ct) (sg02sh_fi sh);
     de \<leftarrow> ge_pow B (sg02sh_data sh) (sg02sh_ei sh);
     ui_bar \<leftarrow> ge_div B uf de;
     gen \<leftarrow> ge_new B (sg02pk_group pk);
     gf \<leftarrow> ge_pow B gen (sg02sh_fi sh);
     vk \<leftarrow> index_by_id (sg02pk_verification_key pk) (sg02sh_id sh);
     vke \<leftarrow> ge_pow B vk (sg02sh_ei sh);
     hi_bar \<leftarrow> ge_div B gf vke;
     ei2 \<leftarrow> sg02_h2 B (sg02sh_data sh) ui_bar hi_bar;
     Some (sb_equals (sg02sh_ei sh) ei2)
   }"

definition sg02_assemble ::
  "'p curve_backend \<Rightarrow> aead \<Rightarrow> 'p sg02_decryption_share list \<Rightarrow> 'p sg02_ciphertext \<Rightarrow>
   (scheme_error + bytes) may_panic" where
  "sg02_assemble B A shares ct = do {
     ry \<leftarrow> interpolate B sg02sh_id sg02sh_data (\<lambda>sh. ge_group (sg02sh_data sh)) shares;
     hry \<leftarrow> sg02_h B ry;
     let key = xor_bytes hry (sg02ct_c_k ct);
     if length key \<noteq> 32 then None
     else do {
       ryb \<leftarrow> ge_to_bytes B ry;
       nonce \<leftarrow> nonce_of ryb;
       cipher_decrypt A key nonce (sg02ct_ctxt ct)
     }
   }"

interpretation sg02_dl: dl_share sg02sh_id sg02sh_data "\<lambda>sh. ge_group (sg02sh_data sh)"
  by unfold_locales simp

subsection \<open>Keys that come from one sharing\<close>

text \<open>
  \<open>sg02_key_ok B g f n pk\<close>: the key is one of a sharing of \<open>f\<close> among \<open>n\<close> parties in \<open>g\<close>.
\<close>

definition sg02_key_ok ::
  "'p curve_backend \<Rightarrow> group \<Rightarrow> (int \<Rightarrow> int) \<Rightarrow> nat \<Rightarrow> 'p sg02_public_key \<Rightarrow> bool" where
  "sg02_key_ok B g f n pk =
     (sg02pk_group pk = g \<and> sg02pk_y pk = gpow B g 0 (f 0)
      \<and> (\<exists>t. sg02pk_g_bar pk = gpow B g 0 t)
      \<and> sg02pk_verification_key pk = vk_of B g f n)"

lemma sg02_pk_elements_ok:
  assumes "curve_ok B g 0" "sg02_key_ok B g f n pk"
  shows "sg02_pk_elements B pk = Some ([AGroup g, AU16 (sg02pk_n pk),
      AU16 (sg02pk_k pk), AOctets (cb_tobytes B g 0 (ge_val (sg02pk_y pk)))]
      @ map (\<lambda>v. AOctets (cb_tobytes B g 0 (ge_val v))) (vk_of B g f n)
      @ [AOctets (cb_tobytes B g 0 (ge_val (sg02pk_g_bar pk)))])"
  using assms by (auto simp: sg02_pk_elements_def sg02_key_ok_def ge_simps)

lemma sg02_generate_keys_ok:
  assumes "curve_ok B g 0" "codec_ok C" "0 < k" "0 < n" "n \<le> 65535"
    "draws_ok (cb_order B g) rnd" "0 \<le> x" "x < cb_order B g" "0 \<le> t"
  shows "\<exists>pk. sg02_generate_keys C B k n g x rnd t
      = Some (Ok (map (\<lambda>i. sg02_sk_new (of_nat (i + 1))
           (SBI g (shamir_poly x k rnd (int (i + 1)) mod cb_order B g)) pk) [0..<n]))
    \<and> sg02_key_ok B g (shamir_poly x k rnd) n pk \<and> sg02pk_n pk = of_nat n \<and> sg02pk_k pk = of_nat k
    \<and> (\<exists>bs. sg02_pk_to_bytes C B pk = Some (Ok bs) \<and> calc_key_id C bs = Some (sg02pk_id pk))"
proof -
  let ?vk = "vk_of B g (shamir_poly x k rnd) n"
  let ?pk = "\<lparr>sg02pk_n = of_nat n, sg02pk_k = of_nat k, sg02pk_group = g,
      sg02pk_y = gpow B g 0 x, sg02pk_verification_key = ?vk, sg02pk_g_bar = gpow B g 0 t,
      sg02pk_id = []\<rparr>"
  have ok: "sg02_key_ok B g (shamir_poly x k rnd) n (?pk\<lparr>sg02pk_id := i\<rparr>)" for i
    by (auto simp: sg02_key_ok_def)
  obtain es where es: "sg02_pk_elements B ?pk = Some es" "AMalformed \<notin> set es"
    using sg02_pk_elements_ok [OF assms(1) ok [of "[]"]] by auto
  obtain bs where bs: "asn_write C es = Some bs" using codec_okE [OF assms(2) es(2)] .
  have "sg02_pk_new C B n k g (gpow B g 0 x) ?vk (gpow B g 0 t)
      = Some (?pk\<lparr>sg02pk_id := b64_url C (sha bs)\<rparr>)"
    using es(1) bs assms(4)
    by (simp add: sg02_pk_new_def sg02_pk_to_bytes_def write_seq_def calc_key_id_eq)
  then have "sg02_generate_keys C B k n g x rnd t
      = Some (Ok (map (\<lambda>i. sg02_sk_new (of_nat (i + 1))
           (SBI g (shamir_poly x k rnd (int (i + 1)) mod cb_order B g))
           (?pk\<lparr>sg02pk_id := b64_url C (sha bs)\<rparr>)) [0..<n]))"
    using assms(1,3-9) curve_ok_dl [OF assms(1)]
    by (simp add: sg02_generate_keys_def ge_simps shamir_share_eq cong: map_cong)
  moreover have "sg02_pk_to_bytes C B (?pk\<lparr>sg02pk_id := i\<rparr>) = Some (Ok bs)" for i
    using es(1) bs by (simp add: sg02_pk_to_bytes_def sg02_pk_elements_def write_seq_def)
  ultimately show ?thesis using ok calc_key_id_eq [of C bs]
    by (intro exI [of _ "?pk\<lparr>sg02pk_id := b64_url C (sha bs)\<rparr>"]) auto
qed

subsection \<open>Encryption, shares and assembly in the exponent\<close>

text \<open>The values an encryption computes, on a key of a sharing.\<close>

lemma sg02_encrypt_eq:
  assumes "curve_ok B g 0" "sg02_key_ok B g f n pk" "aead_ok A" "length symm_key = 32"
    "length msg < 2 ^ 36" "0 \<le> r" "0 \<le> s"
  shows "\<exists>ct. sg02_encrypt B A msg label pk r symm_key s = Some ct
    \<and> sg02_verify_ciphertext B ct pk = Some True
    \<and> sg02ct_u ct = gpow B g 0 r
    \<and> sg02ct_c_k ct = xor_bytes (sha (cb_tobytes B g 0 (ge_val (gpow B g 0 (r * f 0))))) symm_key
    \<and> cipher_decrypt A symm_key (take 12 (cb_tobytes B g 0 (ge_val (gpow B g 0 (r * f 0)))))
        (sg02ct_ctxt ct) = Some (Ok msg)
    \<and> sg02ct_label ct = label"
proof -
  let ?q = "cb_order B g" and ?ry = "cb_tobytes B g 0 (ge_val (gpow B g 0 (r * f 0)))"
  obtain t where t: "sg02pk_g_bar pk = gpow B g 0 t" using assms(2) by (auto simp: sg02_key_ok_def)
  note pk = assms(2) [unfolded sg02_key_ok_def]
  have "12 \<le> length ?ry"
    using length_to_bytes_gpow [OF assms(1)] is_dl_modbytes curve_ok_dl [OF assms(1)] by fastforce
  then have nonce: "nonce_of ?ry = Some (take 12 ?ry)" "length (take 12 ?ry) = 12"
    by (simp_all add: nonce_of_def)
  obtain c where c: "cipher_encrypt A symm_key (take 12 ?ry) msg = Some c"
      "cipher_decrypt A symm_key (take 12 ?ry) c = Some (Ok msg)"
    using cipher_roundtrip [OF assms(3,4) nonce(2) assms(5)] by blast
  have q0: "0 < ?q" using curve_ok_pos [OF assms(1)] .
  define c_k where "c_k = xor_bytes (sha ?ry) symm_key"
  define e where "e = hash_exp B g (c_k @ label
      @ cb_tobytes B g 0 (ge_val (gpow B g 0 r)) @ cb_tobytes B g 0 (ge_val (gpow B g 0 s))
      @ cb_tobytes B g 0 (ge_val (gpow B g 0 (t * r))) @ cb_tobytes B g 0 (ge_val (gpow B g 0 (t * s))))"
  define ff where "ff = (s + e * r mod ?q) mod ?q"
  have e0: "0 \<le> e" "0 \<le> ff" using hash_exp_range [OF assms(1)] q0 by (simp_all add: e_def ff_def)
  have w: "gpow B g 0 (ff - r * e) = gpow B g 0 s"
    by (simp add: ff_def gpow_response_1)
  have wb: "gpow B g 0 (t * ff - t * r * e) = gpow B g 0 (t * s)"
    by (simp add: ff_def gpow_response)
  have "sg02_encrypt B A msg label pk r symm_key s = Some \<lparr>sg02ct_label = label, sg02ct_ctxt = c,
      sg02ct_u = gpow B g 0 r, sg02ct_u_bar = gpow B g 0 (t * r), sg02ct_e = SBI g e,
      sg02ct_f = SBI g ff, sg02ct_c_k = c_k, sg02ct_key_id = sg02pk_id pk\<rparr>"
    using assms pk t nonce c curve_ok_dl [OF assms(1)]
    by (simp add: sg02_encrypt_def ge_simps group_get_order_def sg02_h_def sg02_h1_def
        mult.commute [of "f 0"] sb_defs c_k_def e_def ff_def Let_def)
  moreover have "sg02_verify_ciphertext B \<lparr>sg02ct_label = label, sg02ct_ctxt = c,
      sg02ct_u = gpow B g 0 r, sg02ct_u_bar = gpow B g 0 (t * r), sg02ct_e = SBI g e,
      sg02ct_f = SBI g ff, sg02ct_c_k = c_k, sg02ct_key_id = sg02pk_id pk\<rparr> pk = Some True"
    using assms(1) pk t e0
    by (simp add: sg02_verify_ciphertext_def ge_simps sg02_h1_def w wb sb_defs e_def [symmetric])
  ultimately show ?thesis using c(2) by (simp add: c_k_def)
qed

text \<open>An honest share of a ciphertext whose \<open>u\<close> is in the group: its data, and that it verifies.\<close>

lemma sg02_partial_decrypt_eq:
  assumes "curve_ok B g 0" "sg02_key_ok B g f n (sg02sk_pubkey sk)" "sg02ct_u ct = gpow B g 0 r"
    "sg02sk_xi sk = SBI g (f (uint (sg02sk_id sk)) mod cb_order B g)"
    "0 < uint (sg02sk_id sk)" "uint (sg02sk_id sk) \<le> int n" "0 \<le> si"
  shows "\<exists>sh. sg02_partial_decrypt B ct sk si = Some sh
    \<and> sg02_verify_share B sh ct (sg02sk_pubkey sk) = Some True
    \<and> sg02sh_id sh = sg02sk_id sk \<and> sg02sh_data sh = gpow B g 0 (r * f (uint (sg02sk_id sk)))
    \<and> sg02sh_label sh = sg02ct_label ct"
proof -
  let ?q = "cb_order B g" and ?x = "f (uint (sg02sk_id sk))"
  have q0: "0 < ?q" using curve_ok_pos [OF assms(1)] .
  define ei where "ei = hash_exp B g (cb_tobytes B g 0 (ge_val (gpow B g 0 (r * ?x)))
      @ cb_tobytes B g 0 (ge_val (gpow B g 0 (r * si))) @ cb_tobytes B g 0 (ge_val (gpow B g 0 si)))"
  define fi where "fi = (si + ei * ?x mod ?q) mod ?q"
  have e0: "0 \<le> ei" "0 \<le> fi" using hash_exp_range [OF assms(1)] q0 by (simp_all add: ei_def fi_def)
  have data: "gpow B g 0 (r * (?x mod ?q)) = gpow B g 0 (r * ?x)"
    by (rule gpow_cong) (simp add: mod_mult_right_eq)
  have xe: "?x mod ?q * ei mod ?q = ei * ?x mod ?q" by (metis mod_mult_left_eq mult.commute)
  have dec: "sg02_partial_decrypt B ct sk si = Some \<lparr>sg02sh_id = sg02sk_id sk,
      sg02sh_label = sg02ct_label ct, sg02sh_data = gpow B g 0 (r * ?x), sg02sh_ei = SBI g ei,
      sg02sh_fi = SBI g fi\<rparr>"
    using assms(1-4,7) q0 curve_ok_dl [OF assms(1)]
    by (simp add: sg02_partial_decrypt_def ge_simps group_get_order_def sg02_h2_def sb_defs
        sg02_key_ok_def data xe fi_def ei_def [symmetric])
  have "gpow B g 0 (r * fi - r * ?x * ei) = gpow B g 0 (r * si)"
    by (simp only: fi_def gpow_response)
  moreover have "gpow B g 0 (fi - ?x * ei) = gpow B g 0 si"
    by (simp add: fi_def gpow_response_1)
  ultimately have "sg02_verify_share B \<lparr>sg02sh_id = sg02sk_id sk,
      sg02sh_label = sg02ct_label ct, sg02sh_data = gpow B g 0 (r * ?x), sg02sh_ei = SBI g ei,
      sg02sh_fi = SBI g fi\<rparr> ct (sg02sk_pubkey sk) = Some True"
    using assms(1-3,5,6) e0
    by (simp add: sg02_verify_share_def ge_simps sg02_key_ok_def index_vk_of sg02_h2_def sb_defs ei_def [symmetric])
  then show ?thesis using dec by simp
qed

lemma sg02_assemble_eq:
  assumes "curve_ok B g 0"
    "interpolate B sg02sh_id sg02sh_data (\<lambda>sh. ge_group (sg02sh_data sh)) shares = Some (gpow B g 0 a)"
    "length symm_key = 32"
    "sg02ct_c_k ct = xor_bytes (sha (cb_tobytes B g 0 (ge_val (gpow B g 0 a)))) symm_key"
  shows "sg02_assemble B A shares ct = cipher_decrypt A symm_key
     (take 12 (cb_tobytes B g 0 (ge_val (gpow B g 0 a)))) (sg02ct_ctxt ct)"
proof -
  have "12 \<le> length (cb_tobytes B g 0 (ge_val (gpow B g 0 a)))"
    using length_to_bytes_gpow [OF assms(1)] is_dl_modbytes curve_ok_dl [OF assms(1)] by fastforce
  then show ?thesis using assms
    by (simp add: sg02_assemble_def sg02_h_def ge_simps xor_bytes_cancel nonce_of_def)
qed

subsection \<open>Properties\<close>

text \<open>
  C1.  Threshold decryption of SG02 is correct.  For keys generated with threshold \<open>k\<close> among
  \<open>n\<close> parties and every random choice, an encryption under the public key returns a ciphertext
  that \<open>verify_ciphertext\<close> accepts; the parties \<open>js\<close> (at least \<open>k\<close> of them, no two the same)
  each return a share that \<open>verify_share\<close> accepts, and \<open>assemble\<close> returns the message.
\<close>

theorem sg02_threshold_decryption:
  assumes ok: "curve_ok B g 0" "codec_ok C" "aead_ok A"
    and kn: "0 < k" "k \<le> n" "n \<le> 65535" "int n < cb_order B g"
    and draws: "draws_ok (cb_order B g) rnd" "0 \<le> x" "x < cb_order B g" "0 \<le> t" "0 \<le> r" "0 \<le> s"
      "\<forall>j. 0 \<le> si j" "length symm_key = 32"
    and msg: "length msg < 2 ^ 36"
    and keys: "sg02_generate_keys C B k n g x rnd t = Some (Ok keys)"
    and js: "distinct js" "\<forall>j\<in>set js. j < n" "k \<le> length js"
  shows "\<exists>ct shares. sg02_encrypt B A msg label (sg02sk_pubkey (keys ! 0)) r symm_key s = Some ct
    \<and> sg02_verify_ciphertext B ct (sg02sk_pubkey (keys ! 0)) = Some True
    \<and> mapM (\<lambda>j. sg02_partial_decrypt B ct (keys ! j) (si j)) js = Some shares
    \<and> (\<forall>sh\<in>set shares. sg02_verify_share B sh ct (sg02sk_pubkey (keys ! 0)) = Some True)
    \<and> sg02_assemble B A shares ct = Some (Ok msg)"
proof -
  let ?f = "shamir_poly x k rnd"
  have n0: "0 < n" using kn by simp
  obtain pk where pk: "sg02_key_ok B g ?f n pk" and ks: "keys = map (\<lambda>i. sg02_sk_new (of_nat (i + 1))
      (SBI g (?f (int (i + 1)) mod cb_order B g)) pk) [0..<n]"
    using sg02_generate_keys_ok [OF ok(1,2) kn(1) n0 kn(3) draws(1-4)] keys by auto
  have pk0: "sg02sk_pubkey (keys ! 0) = pk" using n0 by (simp add: ks sg02_sk_new_def)
  obtain ct where ct: "sg02_encrypt B A msg label pk r symm_key s = Some ct"
      "sg02_verify_ciphertext B ct pk = Some True" "sg02ct_u ct = gpow B g 0 r"
      "sg02ct_c_k ct = xor_bytes (sha (cb_tobytes B g 0 (ge_val (gpow B g 0 (r * ?f 0))))) symm_key"
      "cipher_decrypt A symm_key (take 12 (cb_tobytes B g 0 (ge_val (gpow B g 0 (r * ?f 0)))))
        (sg02ct_ctxt ct) = Some (Ok msg)"
    using sg02_encrypt_eq [OF ok(1) pk ok(3) draws(8) msg draws(5,6)] by blast
  let ?P = "\<lambda>j sh. sg02_verify_share B sh ct pk = Some True \<and> sg02sh_id sh = of_nat (j + 1)
      \<and> sg02sh_data sh = gpow B g 0 (r * ?f (int j + 1))"
  have "\<exists>sh. sg02_partial_decrypt B ct (keys ! j) (si j) = Some sh \<and> ?P j sh" if "j \<in> set js" for j
    using sg02_partial_decrypt_eq [OF ok(1) _ ct(3), of ?f n "keys ! j" "si j"] that js(2) pk draws(7)
      uint_share_id [of j n] kn(3)
    by (simp add: ks sg02_sk_new_def algebra_simps) fastforce
  then obtain shares where sh: "mapM (\<lambda>j. sg02_partial_decrypt B ct (keys ! j) (si j)) js = Some shares"
      "list_all2 ?P js shares"
    using mapM_obtain [of js "\<lambda>j. sg02_partial_decrypt B ct (keys ! j) (si j)" ?P] by blast
  have "interpolate B sg02sh_id sg02sh_data (\<lambda>sh. ge_group (sg02sh_data sh)) shares
      = Some (gpow B g 0 (r * ?f 0))"
    by (rule sg02_dl.interpolate_parties [OF ok(1) polyfun_shamir [OF kn(1)] kn(1,3,4) js])
      (rule list_all2_mono [OF sh(2)], simp)
  then have "sg02_assemble B A shares ct = Some (Ok msg)"
    using sg02_assemble_eq [OF ok(1) _ draws(8) ct(4)] ct(5) by simp
  moreover have "\<forall>sh\<in>set shares. sg02_verify_share B sh ct pk = Some True"
    using sh(2) by (auto simp: list_all2_conv_all_nth in_set_conv_nth)
  ultimately show ?thesis using ct(1,2) sh(1) pk0 by metis
qed

theorem sg02_threshold_decryption_witness:
  "\<exists>keys ct shares.
     sg02_generate_keys unary_codec z11_backend 2 3 Ed25519 5 (\<lambda>i. 3) 2 = Some (Ok keys)
   \<and> sg02_encrypt z11_backend plain_aead [104, 105] [1] (sg02sk_pubkey (keys ! 0)) 4 (replicate 32 7) 6
       = Some ct
   \<and> mapM (\<lambda>j. sg02_partial_decrypt z11_backend ct (keys ! j) (int j)) [2, 0] = Some shares
   \<and> sg02_assemble z11_backend plain_aead shares ct = Some (Ok [104, 105])"
proof -
  have c: "curve_ok z11_backend Ed25519 0" by (rule z11_curve_ok) simp_all
  have d: "draws_ok (cb_order z11_backend Ed25519) (\<lambda>i. 3)" by (simp add: draws_ok_def)
  obtain keys where k: "sg02_generate_keys unary_codec z11_backend 2 3 Ed25519 5 (\<lambda>i. 3) 2 = Some (Ok keys)"
    using sg02_generate_keys_ok [OF c unary_codec_ok, of 2 3 "\<lambda>i. 3" 5 2] d by auto
  show ?thesis
    using sg02_threshold_decryption [OF c unary_codec_ok plain_aead_ok _ _ _ _ d _ _ _ _ _ _ _ _ k,
        of 4 6 "\<lambda>j. int j" "replicate 32 7" "[104, 105]" "[2, 0]" "[1]"] k
    by fastforce
qed

end
