(* ===== verification/QC_DlKeys.thy ===== *)
theory QC_DlKeys
  imports QC_Common
begin

text \<open>
  Key material of BZ03, BLS04, CKS05 and FROST.  The four files declare the same two structures and
  the same encodings, but for the member of the point union that \<open>y\<close> and the verification keys
  are read into (\<open>yi\<close> and \<open>vi\<close> below); the schemes' theories instantiate them.
\<close>

declare One_nat_def [simp del]

record 'p dl_public_key =
  dlpk_id :: bytes
  dlpk_group :: group
  dlpk_n :: u16
  dlpk_k :: u16
  dlpk_y :: "'p group_element"
  dlpk_verification_key :: "'p group_element list"

record 'p dl_private_key =
  dlsk_id :: u16
  dlsk_xi :: sized_big_int
  dlsk_pubkey :: "'p dl_public_key"

definition dl_pk_elements ::
  "'p curve_backend \<Rightarrow> 'p dl_public_key \<Rightarrow> asn1_element list may_panic" where
  "dl_pk_elements B pk = do {
     yb \<leftarrow> ge_to_bytes B (dlpk_y pk);
     vk \<leftarrow> mapM (ge_to_bytes B) (dlpk_verification_key pk);
     Some ([AGroup (dlpk_group pk), AU16 (dlpk_n pk), AU16 (dlpk_k pk), AOctets yb] @ map AOctets vk)
   }"

definition dl_pk_to_bytes ::
  "codec \<Rightarrow> 'p curve_backend \<Rightarrow> 'p dl_public_key \<Rightarrow> (scheme_error + bytes) may_panic" where
  "dl_pk_to_bytes C B pk = map_option (write_seq C) (dl_pk_elements B pk)"

definition dl_pk_from_bytes ::
  "codec \<Rightarrow> 'p curve_backend \<Rightarrow> nat option \<Rightarrow> nat option \<Rightarrow> bytes \<Rightarrow>
   (scheme_error + 'p dl_public_key) may_panic" where
  "dl_pk_from_bytes C B yi vi bs = parse_seq C bs
     (read_i32 (\<lambda>gc. case group_from_i32 gc of None \<Rightarrow> read_fail | Some g \<Rightarrow>
      read_u64 (\<lambda>n. read_u64 (\<lambda>k.
      read_octets (\<lambda>b. read_call (ge_from_bytes B b g yi) (\<lambda>y.
      read_many (unat (word_of_int n :: u16)) (\<lambda>b. ge_from_bytes B b g vi) (\<lambda>vk.
      read_call (calc_key_id C bs) (\<lambda>i.
      read_end \<lparr>dlpk_id = i, dlpk_group = g, dlpk_n = word_of_int n, dlpk_k = word_of_int k,
        dlpk_y = y, dlpk_verification_key = vk\<rparr>))))))))"

definition dl_pk_new ::
  "codec \<Rightarrow> 'p curve_backend \<Rightarrow> group \<Rightarrow> nat \<Rightarrow> nat \<Rightarrow> 'p group_element \<Rightarrow>
   'p group_element list \<Rightarrow> 'p dl_public_key may_panic" where
  "dl_pk_new C B g n k y vk = do {
     let key = \<lparr>dlpk_id = [], dlpk_group = g, dlpk_n = of_nat n, dlpk_k = of_nat k, dlpk_y = y,
                dlpk_verification_key = vk\<rparr>;
     res \<leftarrow> dl_pk_to_bytes C B key;
     bs \<leftarrow> unwrap res;
     i \<leftarrow> calc_key_id C bs;
     Some (key\<lparr>dlpk_id := i\<rparr>)
   }"

definition dl_sk_new :: "u16 \<Rightarrow> sized_big_int \<Rightarrow> 'p dl_public_key \<Rightarrow> 'p dl_private_key" where
  "dl_sk_new i xi pk = \<lparr>dlsk_id = i, dlsk_xi = xi, dlsk_pubkey = pk\<rparr>"

definition dl_sk_to_bytes ::
  "codec \<Rightarrow> 'p curve_backend \<Rightarrow> 'p dl_private_key \<Rightarrow> (scheme_error + bytes) may_panic" where
  "dl_sk_to_bytes C B sk = do {
     pb \<leftarrow> dl_pk_to_bytes C B (dlsk_pubkey sk);
     Some (write_seq_nested C [AU16 (dlsk_id sk), AOctets (sb_to_bytes (dlsk_xi sk))] pb)
   }"

definition dl_sk_from_bytes ::
  "codec \<Rightarrow> 'p curve_backend \<Rightarrow> nat option \<Rightarrow> nat option \<Rightarrow> bytes \<Rightarrow>
   (scheme_error + 'p dl_private_key) may_panic" where
  "dl_sk_from_bytes C B yi vi bs = parse_seq C bs
     (read_u64 (\<lambda>i. read_octets (\<lambda>b. read_octets (\<lambda>pb.
      read_call (dl_pk_from_bytes C B yi vi pb) (\<lambda>res. case res of Inl _ \<Rightarrow> read_fail | Inr pk \<Rightarrow>
      read_call (sb_from_bytes (dlpk_group pk) b) (\<lambda>xi.
      read_end \<lparr>dlsk_id = word_of_int i, dlsk_xi = xi, dlsk_pubkey = pk\<rparr>))))))"

text \<open>
  The part of \<open>generate_keys\<close> the schemes share: sharing \<open>x\<close> and making one private key per
  share, with identifiers \<open>(i + 1) as u16\<close>.
\<close>

definition dl_make_keys ::
  "codec \<Rightarrow> 'p curve_backend \<Rightarrow> nat \<Rightarrow> nat \<Rightarrow> group \<Rightarrow> int \<Rightarrow> (nat \<Rightarrow> int) \<Rightarrow> 'p group_element \<Rightarrow>
   'p dl_private_key list may_panic" where
  "dl_make_keys C B k n g x rnd y = do {
     (shares, h) \<leftarrow> shamir_share B (SBI g x) k n rnd;
     pk \<leftarrow> dl_pk_new C B g n k y h;
     Some (map (\<lambda>i. dl_sk_new (of_nat (i + 1)) (shares ! i) pk) [0..<length shares])
   }"

subsection \<open>Keys of one sharing\<close>

text \<open>
  \<open>dl_key_ok B g yi f n pk\<close>: \<open>pk\<close> is the public key of a sharing of \<open>f\<close> among \<open>n\<close> parties,
  with \<open>y\<close> a power of generator \<open>yi\<close>.
\<close>

definition dl_key_ok ::
  "'p curve_backend \<Rightarrow> group \<Rightarrow> nat \<Rightarrow> (int \<Rightarrow> int) \<Rightarrow> nat \<Rightarrow> 'p dl_public_key \<Rightarrow> bool" where
  "dl_key_ok B g yi f n pk =
     (dlpk_group pk = g \<and> dlpk_y pk = gpow B g yi (f 0) \<and> dlpk_verification_key pk = vk_of B g f n)"

definition party_key ::
  "'p curve_backend \<Rightarrow> (int \<Rightarrow> int) \<Rightarrow> 'p dl_public_key \<Rightarrow> nat \<Rightarrow> 'p dl_private_key" where
  "party_key B f pk i = dl_sk_new (of_nat (i + 1))
     (SBI (dlpk_group pk) (f (int i + 1) mod cb_order B (dlpk_group pk))) pk"

lemma party_key_sel [simp]:
  "dlsk_id (party_key B f pk i) = of_nat (i + 1)" "dlsk_pubkey (party_key B f pk i) = pk"
  "dlsk_xi (party_key B f pk i)
     = SBI (dlpk_group pk) (f (int i + 1) mod cb_order B (dlpk_group pk))"
  by (simp_all add: party_key_def dl_sk_new_def)

lemma dl_pk_elements_ok:
  assumes "curve_ok B g 0" "curve_ok B g yi" "dl_key_ok B g yi f n pk"
  shows "dl_pk_elements B pk = Some ([AGroup g, AU16 (dlpk_n pk), AU16 (dlpk_k pk),
      AOctets (cb_tobytes B g yi (ge_val (gpow B g yi (f 0))))]
      @ map (\<lambda>v. AOctets (cb_tobytes B g 0 (ge_val v))) (vk_of B g f n))"
  using assms by (simp add: dl_pk_elements_def dl_key_ok_def ge_simps comp_def)

lemma dl_pk_to_bytes_ok:
  assumes "curve_ok B g 0" "curve_ok B g yi" "dl_key_ok B g yi f n pk" "codec_ok C"
  obtains bs where "dl_pk_to_bytes C B pk = Some (Ok bs)"
    "asn_parse C bs = [AGroup g, AU16 (dlpk_n pk), AU16 (dlpk_k pk),
      AOctets (cb_tobytes B g yi (ge_val (gpow B g yi (f 0))))]
      @ map (\<lambda>v. AOctets (cb_tobytes B g 0 (ge_val v))) (vk_of B g f n)"
proof -
  obtain bs where "asn_write C (the (dl_pk_elements B pk)) = Some bs"
      "asn_parse C bs = the (dl_pk_elements B pk)"
    using codec_okE [OF assms(4), of "the (dl_pk_elements B pk)"] dl_pk_elements_ok [OF assms(1-3)]
    by auto
  then show ?thesis using that dl_pk_elements_ok [OF assms(1-3)]
    by (simp add: dl_pk_to_bytes_def write_seq_def)
qed

lemma dl_make_keys_ok:
  assumes "curve_ok B g 0" "curve_ok B g yi" "codec_ok C" "0 < k"
    "draws_ok (cb_order B g) rnd" "0 \<le> x" "x < cb_order B g"
  shows "\<exists>pk. dl_make_keys C B k n g x rnd (gpow B g yi x)
      = Some (map (party_key B (shamir_poly x k rnd) pk) [0..<n])
    \<and> dl_key_ok B g yi (shamir_poly x k rnd) n pk \<and> dlpk_n pk = of_nat n \<and> dlpk_k pk = of_nat k
    \<and> (\<exists>bs. dl_pk_to_bytes C B pk = Some (Ok bs) \<and> calc_key_id C bs = Some (dlpk_id pk))"
proof -
  let ?f = "shamir_poly x k rnd"
  let ?pk = "\<lambda>i. \<lparr>dlpk_id = i, dlpk_group = g, dlpk_n = of_nat n, dlpk_k = of_nat k,
      dlpk_y = gpow B g yi x, dlpk_verification_key = vk_of B g ?f n\<rparr>"
  have ok: "dl_key_ok B g yi ?f n (?pk i)" for i by (simp add: dl_key_ok_def)
  obtain bs where bs: "dl_pk_to_bytes C B (?pk []) = Some (Ok bs)"
    using dl_pk_to_bytes_ok [OF assms(1,2) ok assms(3)] .
  then have bs': "dl_pk_to_bytes C B (?pk i) = Some (Ok bs)" for i
    by (simp add: dl_pk_to_bytes_def dl_pk_elements_def)
  have "dl_pk_new C B g n k (gpow B g yi x) (vk_of B g ?f n) = Some (?pk (b64_url C (sha bs)))"
    using bs by (simp add: dl_pk_new_def calc_key_id_eq)
  then have "dl_make_keys C B k n g x rnd (gpow B g yi x)
      = Some (map (party_key B ?f (?pk (b64_url C (sha bs)))) [0..<n])"
    using assms by (simp add: dl_make_keys_def shamir_share_eq party_key_def add.commute [of 1])
  then show ?thesis using ok bs' calc_key_id_eq [of C bs] by (intro exI conjI) auto
qed

subsection \<open>Encodings of the keys\<close>

lemma dl_pk_roundtrip:
  fixes B :: "'p curve_backend"
  assumes "curve_ok B g 0" "curve_ok B g yi" "dl_key_ok B g yi f n pk" "codec_ok C"
    "point_codec_ok B g 0" "point_codec_ok B g yi" "n = unat (dlpk_n pk)"
    "bi = Some yi \<or> yi = 0 \<and> bi = None" "vi = None \<or> vi = Some 0"
    "dl_pk_to_bytes C B pk = Some (Ok bs)" "calc_key_id C bs = Some (dlpk_id pk)"
  shows "dl_pk_from_bytes C B bi vi bs = Some (Ok pk)"
proof -
  obtain bs' where bs': "dl_pk_to_bytes C B pk = Some (Ok bs')"
    "asn_parse C bs' = [AGroup g, AU16 (dlpk_n pk), AU16 (dlpk_k pk),
      AOctets (cb_tobytes B g yi (ge_val (gpow B g yi (f 0))))]
      @ map (\<lambda>v. AOctets (cb_tobytes B g 0 (ge_val v))) (vk_of B g f n)"
    using dl_pk_to_bytes_ok [OF assms(1-4)] .
  have y: "ge_from_bytes B (cb_tobytes B g yi (ge_val (gpow B g yi (f 0)))) g bi = Some (gpow B g yi (f 0))"
    using ge_from_to_bytes_gpow [OF assms(2,6)] assms(8) by auto
  have v: "ge_from_bytes B (cb_tobytes B g 0 (ge_val v)) g vi = Some v" if "v \<in> set (vk_of B g f n)" for v
    using that ge_from_to_bytes_gpow [OF assms(1,5)] assms(9) by (auto dest!: vk_ofD)
  have "read_many (unat (dlpk_n pk)) (\<lambda>b. ge_from_bytes B b g vi) k
      (map (\<lambda>v. AOctets (cb_tobytes B g 0 (ge_val v))) (vk_of B g f n)) = k (vk_of B g f n) []"
    for k :: "'p group_element list \<Rightarrow> 'p dl_public_key reader"
    using read_many_map [of "vk_of B g f n" "\<lambda>b. ge_from_bytes B b g vi"
        "\<lambda>v. cb_tobytes B g 0 (ge_val v)" k "[]"] v assms(7) by simp
  then show ?thesis using bs' assms(3,10,11) y
    by (simp add: dl_pk_from_bytes_def parse_seq_def dl_key_ok_def)
qed

lemma dl_sk_roundtrip:
  assumes "curve_ok B g 0" "curve_ok B g yi" "dl_key_ok B g yi f n (dlsk_pubkey sk)" "codec_ok C"
    "point_codec_ok B g 0" "point_codec_ok B g yi" "n = unat (dlpk_n (dlsk_pubkey sk))"
    "bi = Some yi \<or> yi = 0 \<and> bi = None" "vi = None \<or> vi = Some 0"
    "dl_pk_to_bytes C B (dlsk_pubkey sk) = Some (Ok pb)"
    "calc_key_id C pb = Some (dlpk_id (dlsk_pubkey sk))"
    "dlsk_xi sk = SBI g xi" "0 \<le> xi" "xi < 256 ^ modbytes g"
  shows "\<exists>bs. dl_sk_to_bytes C B sk = Some (Ok bs) \<and> dl_sk_from_bytes C B bi vi bs = Some (Ok sk)"
proof -
  obtain bs where bs: "asn_write C [AU16 (dlsk_id sk), AOctets (sb_to_bytes (SBI g xi)), AOctets pb] = Some bs"
      "asn_parse C bs = [AU16 (dlsk_id sk), AOctets (sb_to_bytes (SBI g xi)), AOctets pb]"
    using codec_okE [OF assms(4), of "[AU16 (dlsk_id sk), AOctets (sb_to_bytes (SBI g xi)), AOctets pb]"]
    by auto
  have "sb_from_bytes g (sb_to_bytes (SBI g xi)) = Some (SBI g xi)"
    using sb_bytes_roundtrip [OF _ assms(13,14)] curve_ok_dl [OF assms(1)] by simp
  then show ?thesis using bs assms(3,10,12) dl_pk_roundtrip [OF assms(1-11)]
    by (simp add: dl_sk_to_bytes_def write_seq_nested_def write_seq_def dl_sk_from_bytes_def
        parse_seq_def dl_key_ok_def)
qed

end
