(* ===== verification/QC_Bz03.thy ===== *)
theory QC_Bz03
  imports QC_DlKeys
begin

text \<open>
  The pairing-based threshold cipher BZ03 (\<open>dl_schemes/ciphers/bz03.rs\<close>) and its arm of
  \<open>KeyGenerator::generate_keys\<close>.  The public key's \<open>y\<close>, the ciphertext's \<open>u\<close> and the shares
  are in the second pairing group.
\<close>

type_synonym 'p bz03_public_key = "'p dl_public_key"
type_synonym 'p bz03_private_key = "'p dl_private_key"

record 'p bz03_decryption_share =
  bz03sh_group :: group
  bz03sh_id :: u16
  bz03sh_data :: "'p group_element"
  bz03sh_label :: bytes

record 'p bz03_ciphertext =
  bz03ct_label :: bytes
  bz03ct_ctxt :: bytes
  bz03ct_c_k :: bytes
  bz03ct_u :: "'p group_element"
  bz03ct_hr :: "'p group_element"
  bz03ct_key_id :: bytes

subsection \<open>Encodings\<close>

definition bz03_pk_from_bytes ::
  "codec \<Rightarrow> 'p curve_backend \<Rightarrow> bytes \<Rightarrow> (scheme_error + 'p bz03_public_key) may_panic" where
  "bz03_pk_from_bytes C B bs = dl_pk_from_bytes C B (Some 1) None bs"

definition bz03_sk_from_bytes ::
  "codec \<Rightarrow> 'p curve_backend \<Rightarrow> bytes \<Rightarrow> (scheme_error + 'p bz03_private_key) may_panic" where
  "bz03_sk_from_bytes C B bs = dl_sk_from_bytes C B (Some 1) None bs"

definition bz03_share_to_bytes ::
  "codec \<Rightarrow> 'p curve_backend \<Rightarrow> 'p bz03_decryption_share \<Rightarrow> (scheme_error + bytes) may_panic" where
  "bz03_share_to_bytes C B sh = do {
     db \<leftarrow> ge_to_bytes B (bz03sh_data sh);
     Some (write_seq C [AU16 (bz03sh_id sh), AGroup (ge_group (bz03sh_data sh)),
       AOctets (bz03sh_label sh), AOctets db])
   }"

definition bz03_share_from_bytes ::
  "codec \<Rightarrow> 'p curve_backend \<Rightarrow> bytes \<Rightarrow> (scheme_error + 'p bz03_decryption_share) may_panic" where
  "bz03_share_from_bytes C B bs = parse_seq C bs
     (read_u64 (\<lambda>i. read_i32 (\<lambda>gc. case group_from_i32 gc of None \<Rightarrow> read_fail | Some g \<Rightarrow>
      read_octets (\<lambda>label.
      read_octets (\<lambda>b. read_call (ge_from_bytes B b g (Some 1)) (\<lambda>d.
      read_end \<lparr>bz03sh_group = g, bz03sh_id = word_of_int i, bz03sh_data = d,
        bz03sh_label = label\<rparr>))))))"

definition bz03_ct_to_bytes ::
  "codec \<Rightarrow> 'p curve_backend \<Rightarrow> 'p bz03_ciphertext \<Rightarrow> (scheme_error + bytes) may_panic" where
  "bz03_ct_to_bytes C B ct = do {
     ub \<leftarrow> ge_to_bytes B (bz03ct_u ct);
     hrb \<leftarrow> ge_to_bytes B (bz03ct_hr ct);
     Some (write_seq C [AGroup (ge_group (bz03ct_u ct)), AOctets (bz03ct_label ct),
       AOctets (bz03ct_ctxt ct), AOctets ub, AOctets hrb, AOctets (bz03ct_c_k ct),
       AOctets (bz03ct_key_id ct)])
   }"

definition bz03_ct_from_bytes ::
  "codec \<Rightarrow> 'p curve_backend \<Rightarrow> bytes \<Rightarrow> (scheme_error + 'p bz03_ciphertext) may_panic" where
  "bz03_ct_from_bytes C B bs = parse_seq C bs
     (read_i32 (\<lambda>gc. case group_from_i32 gc of None \<Rightarrow> read_fail | Some g \<Rightarrow>
      read_octets (\<lambda>label. read_octets (\<lambda>msg.
      read_octets (\<lambda>b. read_call (ge_from_bytes B b g (Some 1)) (\<lambda>u.
      read_octets (\<lambda>b. read_call (ge_from_bytes B b g (Some 0)) (\<lambda>hr.
      read_octets (\<lambda>c_k. read_octets (\<lambda>kid. if \<not> utf8_valid kid then read_fail else
      read_end \<lparr>bz03ct_label = label, bz03ct_ctxt = msg, bz03ct_c_k = c_k, bz03ct_u = u,
        bz03ct_hr = hr, bz03ct_key_id = kid\<rparr>))))))))))"

subsection \<open>Keys and the cipher\<close>

definition bz03_generate_keys ::
  "codec \<Rightarrow> 'p curve_backend \<Rightarrow> nat \<Rightarrow> nat \<Rightarrow> group \<Rightarrow> int \<Rightarrow> (nat \<Rightarrow> int) \<Rightarrow>
   (scheme_error + 'p bz03_private_key list) may_panic" where
  "bz03_generate_keys C B k n g x rnd =
     (if \<not> supports_pairings g then Some (Err CurveDoesNotSupportPairings)
      else if \<not> is_dl g then Some (Err IncompatibleGroup)
      else do {
        y \<leftarrow> ge_new_pow_big_ecp2 B g (SBI g x);
        keys \<leftarrow> dl_make_keys C B k n g x rnd y;
        Some (Ok keys)
      })"

text \<open>
  \<open>h\<close> pads the digest with \<open>big::MODBYTES - 32\<close> zero bytes, where \<open>big\<close> is always that of
  BLS12-381 (48 bytes), and reads \<open>MODBYTES\<close> bytes of the element's own curve from the front.
\<close>

definition bz03_h :: "'p curve_backend \<Rightarrow> 'p group_element \<Rightarrow> bytes \<Rightarrow> 'p group_element may_panic" where
  "bz03_h B x m = do {
     b \<leftarrow> ge_to_bytes B x;
     d \<leftarrow> hash256 (b @ m);
     s0 \<leftarrow> sb_from_bytes (ge_group x) (replicate (modbytes Bls12381 - 32) 0 @ d);
     q \<leftarrow> group_get_order B (ge_group x);
     s \<leftarrow> sb_rmod s0 q;
     gen \<leftarrow> ge_new B (ge_group x);
     ge_pow B gen s
   }"

definition bz03_g :: "'p curve_backend \<Rightarrow> 'p group_element \<Rightarrow> bytes may_panic" where
  "bz03_g B x = do { b \<leftarrow> ge_to_bytes B x; hash256 b }"

definition bz03_encrypt ::
  "'p curve_backend \<Rightarrow> aead \<Rightarrow> bytes \<Rightarrow> bytes \<Rightarrow> 'p bz03_public_key \<Rightarrow> int \<Rightarrow> bytes \<Rightarrow>
   'p bz03_ciphertext may_panic" where
  "bz03_encrypt B A msg label pk r symm_key = do {
     let g = dlpk_group pk;
     gen2 \<leftarrow> ge_new_ecp2 B g;
     u \<leftarrow> ge_pow B gen2 (SBI g r);
     rY \<leftarrow> ge_pow B (dlpk_y pk) (SBI g r);
     rYb \<leftarrow> ge_to_bytes B rY;
     nonce \<leftarrow> nonce_of rYb;
     encryption \<leftarrow> cipher_encrypt A symm_key nonce msg;
     grY \<leftarrow> bz03_g B rY;
     let c_k = xor_bytes grY symm_key;
     hu \<leftarrow> bz03_h B u c_k;
     hr \<leftarrow> ge_pow B hu (SBI g r);
     Some \<lparr>bz03ct_label = label, bz03ct_ctxt = encryption, bz03ct_c_k = c_k, bz03ct_u = u,
           bz03ct_hr = hr, bz03ct_key_id = dlpk_id pk\<rparr>
   }"

definition bz03_verify_ciphertext ::
  "'p curve_backend \<Rightarrow> 'p bz03_ciphertext \<Rightarrow> 'p bz03_public_key \<Rightarrow>
   (scheme_error + bool) may_panic" where
  "bz03_verify_ciphertext B ct pk = do {
     h \<leftarrow> bz03_h B (bz03ct_u ct) (bz03ct_c_k ct);
     gen2 \<leftarrow> ge_new_ecp2 B (ge_group (bz03ct_u ct));
     ge_ddh B (bz03ct_u ct) h gen2 (bz03ct_hr ct)
   }"

definition bz03_verify_share ::
  "'p curve_backend \<Rightarrow> 'p bz03_decryption_share \<Rightarrow> 'p bz03_ciphertext \<Rightarrow> 'p bz03_public_key \<Rightarrow>
   (scheme_error + bool) may_panic" where
  "bz03_verify_share B sh ct pk = do {
     gen \<leftarrow> ge_new B (bz03sh_group sh);
     vk \<leftarrow> index_by_id (dlpk_verification_key pk) (bz03sh_id sh);
     ge_ddh B (bz03sh_data sh) gen (bz03ct_u ct) vk
   }"

definition bz03_partial_decrypt ::
  "'p curve_backend \<Rightarrow> 'p bz03_ciphertext \<Rightarrow> 'p bz03_private_key \<Rightarrow>
   'p bz03_decryption_share may_panic" where
  "bz03_partial_decrypt B ct sk = do {
     d \<leftarrow> ge_pow B (bz03ct_u ct) (dlsk_xi sk);
     Some \<lparr>bz03sh_group = ge_group d, bz03sh_id = dlsk_id sk, bz03sh_data = d,
           bz03sh_label = bz03ct_label ct\<rparr>
   }"

definition bz03_assemble ::
  "'p curve_backend \<Rightarrow> aead \<Rightarrow> 'p bz03_decryption_share list \<Rightarrow> 'p bz03_ciphertext \<Rightarrow>
   (scheme_error + bytes) may_panic" where
  "bz03_assemble B A shares ct = do {
     rY \<leftarrow> interpolate B bz03sh_id bz03sh_data (\<lambda>sh. ge_group (bz03sh_data sh)) shares;
     grY \<leftarrow> bz03_g B rY;
     let key = xor_bytes grY (bz03ct_c_k ct);
     if length key \<noteq> 32 then None
     else do {
       rYb \<leftarrow> ge_to_bytes B rY;
       nonce \<leftarrow> nonce_of rYb;
       cipher_decrypt A key nonce (bz03ct_ctxt ct)
     }
   }"

interpretation bz03_dl: dl_share bz03sh_id bz03sh_data "\<lambda>sh. ge_group (bz03sh_data sh)"
  by unfold_locales simp

subsection \<open>Facts in the exponent\<close>

lemma bz03_generate_keys_ok:
  assumes "curve_ok B g 0" "curve_ok B g 1" "codec_ok C" "0 < k"
    "draws_ok (cb_order B g) rnd" "0 \<le> x" "x < cb_order B g"
  shows "\<exists>pk. bz03_generate_keys C B k n g x rnd
      = Some (Ok (map (party_key B (shamir_poly x k rnd) pk) [0..<n]))
    \<and> dl_key_ok B g 1 (shamir_poly x k rnd) n pk \<and> dlpk_k pk = of_nat k \<and> (\<exists>bs. calc_key_id C bs = Some (dlpk_id pk))"
  using dl_make_keys_ok [OF assms, of n] assms(2,6) curve_ok_dl [OF assms(2)]
  by (auto simp: bz03_generate_keys_def ge_simps)

lemma bz03_h_gpow:
  assumes "curve_ok B g 0" "curve_ok B g 1"
  shows "\<exists>e. bz03_h B (gpow B g 1 a) m = Some (gpow B g 0 e) \<and> 0 \<le> e"
proof -
  have "is_dl g" "0 < cb_order B g" using curve_ok_dl [OF assms(1)] curve_ok_pos [OF assms(1)] by auto
  moreover have "modbytes g \<le> 48" by (cases g) simp_all
  ultimately show ?thesis using assms
    by (simp add: bz03_h_def ge_simps sb_from_bytes_def sb_defs group_get_order_def)
      (rule exI, rule conjI, rule refl, rule be_value_nonneg)
qed

lemma bz03_encrypt_eq:
  assumes "curve_ok B g 0" "curve_ok B g 1" "pairing_ok B g" "dl_key_ok B g 1 f n pk" "aead_ok A"
    "length symm_key = 32" "length msg < 2 ^ 36" "0 \<le> r"
  shows "\<exists>ct. bz03_encrypt B A msg label pk r symm_key = Some ct
    \<and> bz03_verify_ciphertext B ct pk = Some (Ok True)
    \<and> bz03ct_u ct = gpow B g 1 r
    \<and> bz03ct_c_k ct = xor_bytes (sha (cb_tobytes B g 1 (ge_val (gpow B g 1 (r * f 0))))) symm_key
    \<and> cipher_decrypt A symm_key (take 12 (cb_tobytes B g 1 (ge_val (gpow B g 1 (r * f 0)))))
        (bz03ct_ctxt ct) = Some (Ok msg)
    \<and> (\<exists>e. bz03ct_hr ct = gpow B g 0 e) \<and> bz03ct_key_id ct = dlpk_id pk"
proof -
  let ?rY = "cb_tobytes B g 1 (ge_val (gpow B g 1 (r * f 0)))"
  have "12 \<le> length ?rY"
    using length_to_bytes_gpow [OF assms(2)] is_dl_modbytes curve_ok_dl [OF assms(2)] by fastforce
  then have nonce: "nonce_of ?rY = Some (take 12 ?rY)" "length (take 12 ?rY) = 12"
    by (simp_all add: nonce_of_def)
  obtain c where c: "cipher_encrypt A symm_key (take 12 ?rY) msg = Some c"
      "cipher_decrypt A symm_key (take 12 ?rY) c = Some (Ok msg)"
    using cipher_roundtrip [OF assms(5,6) nonce(2) assms(7)] by blast
  define c_k where "c_k = xor_bytes (sha ?rY) symm_key"
  obtain e where e: "bz03_h B (gpow B g 1 r) c_k = Some (gpow B g 0 e)"
    using bz03_h_gpow [OF assms(1,2)] by blast
  let ?ct = "\<lparr>bz03ct_label = label, bz03ct_ctxt = c, bz03ct_c_k = c_k, bz03ct_u = gpow B g 1 r,
      bz03ct_hr = gpow B g 0 (e * r), bz03ct_key_id = dlpk_id pk\<rparr>"
  have "bz03_encrypt B A msg label pk r symm_key = Some ?ct"
    using assms(1,2,4,8) nonce c e
    by (simp add: bz03_encrypt_def dl_key_ok_def ge_simps bz03_g_def mult.commute [of "f 0"]
        Let_def c_k_def)
  moreover have "bz03_verify_ciphertext B ?ct pk = Some (Ok True)"
    using assms(1-3) e by (simp add: bz03_verify_ciphertext_def ge_simps mult.commute)
  ultimately show ?thesis using c(2) by (intro exI [of _ ?ct]) (auto simp: c_k_def)
qed

lemma bz03_assemble_eq:
  assumes "curve_ok B g 1"
    "interpolate B bz03sh_id bz03sh_data (\<lambda>sh. ge_group (bz03sh_data sh)) shares = Some (gpow B g 1 a)"
    "length symm_key = 32"
    "bz03ct_c_k ct = xor_bytes (sha (cb_tobytes B g 1 (ge_val (gpow B g 1 a)))) symm_key"
  shows "bz03_assemble B A shares ct = cipher_decrypt A symm_key
     (take 12 (cb_tobytes B g 1 (ge_val (gpow B g 1 a)))) (bz03ct_ctxt ct)"
proof -
  have "12 \<le> length (cb_tobytes B g 1 (ge_val (gpow B g 1 a)))"
    using length_to_bytes_gpow [OF assms(1)] is_dl_modbytes curve_ok_dl [OF assms(1)] by fastforce
  then show ?thesis using assms
    by (simp add: bz03_assemble_def bz03_g_def ge_simps xor_bytes_cancel nonce_of_def)
qed

text \<open>On group elements, \<open>verify_share\<close> decides whether the share is the right power of \<open>u\<close>.\<close>

lemma bz03_verify_share_iff:
  assumes "curve_ok B g 0" "curve_ok B g 1" "pairing_ok B g" "dl_key_ok B g 1 f n pk"
    "bz03ct_u ct = gpow B g 1 r" "bz03sh_group sh = g" "bz03sh_data sh = gpow B g 1 a"
    "0 < uint (bz03sh_id sh)" "uint (bz03sh_id sh) \<le> int n"
  shows "bz03_verify_share B sh ct pk
     = Some (Ok (bz03sh_data sh = gpow B g 1 (r * f (uint (bz03sh_id sh)))))"
  using assms by (simp add: bz03_verify_share_def dl_key_ok_def index_vk_of ge_simps gpow_eq_iff)

text \<open>
  An accepted share has the group of the key and an identifier of one of its parties; a share of
  another group makes \<open>verify_share\<close> panic.
\<close>

lemma bz03_verify_share_accepted:
  assumes "dl_key_ok B g 1 f n pk" "bz03ct_u ct = gpow B g 1 r" "bz03_verify_share B sh ct pk = Some (Ok True)"
  shows "bz03sh_group sh = g" "ge_group (bz03sh_data sh) = g"
    "0 < uint (bz03sh_id sh) \<and> uint (bz03sh_id sh) \<le> int n"
proof -
  obtain v where v: "index_by_id (vk_of B g f n) (bz03sh_id sh) = Some v"
    using assms by (auto simp: bz03_verify_share_def dl_key_ok_def bind_eq_Some_conv)
  then show "bz03sh_group sh = g" "ge_group (bz03sh_data sh) = g"
    using assms by (auto simp: bz03_verify_share_def dl_key_ok_def bind_eq_Some_conv ge_ddh_def Let_def
        ge_new_def split: if_splits)
  show "0 < uint (bz03sh_id sh) \<and> uint (bz03sh_id sh) \<le> int n" using index_by_id_vk_ofD [OF v] by auto
qed

lemma bz03_verify_share_total:
  assumes "curve_ok B g 0" "pairing_ok B g" "dl_key_ok B g 1 f n pk" "bz03ct_u ct = gpow B g 1 r"
    "bz03sh_group sh = g" "ge_group (bz03sh_data sh) = g" "0 < uint (bz03sh_id sh)" "uint (bz03sh_id sh) \<le> int n"
  shows "bz03_verify_share B sh ct pk \<noteq> None"
  using assms by (auto simp: bz03_verify_share_def dl_key_ok_def index_vk_of ge_simps ge_ddh_def Let_def pairing_ok_def)

text \<open>Encryption under a key of the sharing \<open>f\<close>, and what any accepted shares assemble to.\<close>

lemma bz03_cipher_core:
  fixes x :: int and k :: nat and rnd :: "nat \<Rightarrow> int"
  defines "f \<equiv> shamir_poly x k rnd"
  assumes ok: "curve_ok B g 0" "curve_ok B g 1" "pairing_ok B g" "aead_ok A"
    and kn: "0 < k" "int n < cb_order B g" and pk: "dl_key_ok B g 1 f n pk"
    and draws: "0 \<le> r" "length symm_key = 32" and msg: "length msg < 2 ^ 36"
  shows "\<exists>ct. bz03_encrypt B A msg label pk r symm_key = Some ct
    \<and> bz03_verify_ciphertext B ct pk = Some (Ok True) \<and> bz03ct_u ct = gpow B g 1 r
    \<and> (\<forall>shares. k \<le> length shares \<and> distinct (map bz03sh_id shares)
         \<and> (\<forall>sh\<in>set shares. in_subgroup B g 1 (bz03sh_data sh)
              \<and> bz03_verify_share B sh ct pk = Some (Ok True))
        \<longrightarrow> bz03_assemble B A shares ct = Some (Ok msg))"
proof -
  obtain ct where ct: "bz03_encrypt B A msg label pk r symm_key = Some ct"
      "bz03_verify_ciphertext B ct pk = Some (Ok True)" "bz03ct_u ct = gpow B g 1 r"
      "bz03ct_c_k ct = xor_bytes (sha (cb_tobytes B g 1 (ge_val (gpow B g 1 (r * f 0))))) symm_key"
      "cipher_decrypt A symm_key (take 12 (cb_tobytes B g 1 (ge_val (gpow B g 1 (r * f 0)))))
        (bz03ct_ctxt ct) = Some (Ok msg)"
    using bz03_encrypt_eq [OF ok(1-3) pk ok(4) draws(2) msg draws(1)] by blast
  have "bz03_assemble B A shares ct = Some (Ok msg)"
    if sh: "k \<le> length shares" "distinct (map bz03sh_id shares)" "\<forall>sh\<in>set shares. in_subgroup B g 1 (bz03sh_data sh)
        \<and> bz03_verify_share B sh ct pk = Some (Ok True)" for shares
  proof -
    have "0 < uint (bz03sh_id s) \<and> uint (bz03sh_id s) < cb_order B g
       \<and> bz03sh_data s = gpow B g 1 (r * f (uint (bz03sh_id s)))" if s: "s \<in> set shares" for s
    proof -
      obtain a where a: "bz03sh_data s = gpow B g 1 a" and v: "bz03_verify_share B s ct pk = Some (Ok True)"
        using sh(3) s by (auto simp: in_subgroup_def)
      note acc = bz03_verify_share_accepted [OF pk ct(3) v]
      then show ?thesis using bz03_verify_share_iff [OF ok(1-3) pk ct(3) acc(1) a] v kn(2) by auto
    qed
    then have "interpolate B bz03sh_id bz03sh_data (\<lambda>sh. ge_group (bz03sh_data sh)) shares
        = Some (gpow B g 1 (r * f 0))"
      using sh(1,2) kn(1)
      by (intro bz03_dl.interpolate_poly [OF ok(2) polyfun_shamir [OF kn(1), of x rnd, folded f_def]]) auto
    then show ?thesis using bz03_assemble_eq [OF ok(2) _ draws(2) ct(4)] ct(5) by simp
  qed
  then show ?thesis using ct(1-3) by blast
qed

lemma bz03_honest_share:
  assumes ok: "curve_ok B g 0" "curve_ok B g 1" "pairing_ok B g" and pk: "dl_key_ok B g 1 f n pk"
    and kn: "n \<le> 65535" "j < n" and u: "bz03ct_u ct = gpow B g 1 r"
  shows "\<exists>sh. bz03_partial_decrypt B ct (party_key B f pk j) = Some sh
    \<and> bz03_verify_share B sh ct pk = Some (Ok True) \<and> bz03sh_id sh = of_nat (j + 1)
    \<and> bz03sh_label sh = bz03ct_label ct \<and> bz03sh_group sh = g \<and> in_subgroup B g 1 (bz03sh_data sh)"
proof -
  let ?sh = "\<lparr>bz03sh_group = g, bz03sh_id = of_nat (j + 1), bz03sh_data = gpow B g 1 (r * f (int j + 1)),
      bz03sh_label = bz03ct_label ct\<rparr>"
  have "gpow B g 1 (r * (f (int j + 1) mod cb_order B g)) = gpow B g 1 (r * f (int j + 1))"
    by (rule gpow_cong) (simp add: mod_mult_right_eq)
  then have dec: "bz03_partial_decrypt B ct (party_key B f pk j) = Some ?sh"
    using ok(2) u pk curve_ok_pos [OF ok(2)]
    by (simp add: bz03_partial_decrypt_def dl_key_ok_def ge_simps)
  have "bz03_verify_share B ?sh ct pk = Some (Ok True)"
    using bz03_verify_share_iff [OF ok(1-3) pk u, of ?sh "r * f (int j + 1)"]
      uint_share_id [OF kn(2,1)] kn(2) by simp
  then show ?thesis using dec by auto
qed

subsection \<open>Properties\<close>

text \<open>
  C2.  Threshold decryption of BZ03 is correct and robust up to the subgroup check the code does
  not make.  An encryption under generated keys returns a ciphertext that \<open>verify_ciphertext\<close>
  accepts, and any shares with distinct identifiers, at least \<open>k\<close> of them, which
  \<open>verify_share\<close> accepts (whoever made them, whatever their tags) assemble to the message, or one
  of the accepted shares carries a point outside the subgroup of the generator:
  \<open>ECP2::frombytes\<close> and \<open>verify_share\<close> do not exclude such points.
\<close>

theorem bz03_robust_decryption:
  assumes ok: "curve_ok B g 0" "curve_ok B g 1" "pairing_ok B g" "codec_ok C" "aead_ok A"
    and kn: "0 < k" "int n < cb_order B g"
    and draws: "draws_ok (cb_order B g) rnd" "0 \<le> x" "x < cb_order B g" "0 \<le> r"
      "length symm_key = 32"
    and msg: "length msg < 2 ^ 36"
    and keys: "bz03_generate_keys C B k n g x rnd = Some (Ok keys)" "keys \<noteq> []"
  shows "\<exists>ct. bz03_encrypt B A msg label (dlsk_pubkey (keys ! 0)) r symm_key = Some ct
    \<and> bz03_verify_ciphertext B ct (dlsk_pubkey (keys ! 0)) = Some (Ok True)
    \<and> (\<forall>shares. k \<le> length shares \<and> distinct (map bz03sh_id shares)
         \<and> (\<forall>sh\<in>set shares. bz03_verify_share B sh ct (dlsk_pubkey (keys ! 0)) = Some (Ok True))
        \<longrightarrow> bz03_assemble B A shares ct = Some (Ok msg)
          \<or> (\<exists>sh\<in>set shares. \<not> in_subgroup B g 1 (bz03sh_data sh)))"
proof -
  let ?f = "shamir_poly x k rnd"
  obtain pk where pk: "dl_key_ok B g 1 ?f n pk" and ks: "keys = map (party_key B ?f pk) [0..<n]"
    using bz03_generate_keys_ok [OF ok(1,2,4) kn(1) draws(1-3), of n] keys(1) by auto
  have pk0: "dlsk_pubkey (keys ! 0) = pk" using keys(2) by (auto simp: ks)
  show ?thesis
    using bz03_cipher_core [OF ok(1-3,5) kn pk draws(4,5) msg, of label] unfolding pk0 by blast
qed

theorem bz03_robust_decryption_witness:
  "\<exists>keys ct shares. bz03_generate_keys unary_codec z11_backend 2 3 Bn254 5 (\<lambda>i. 3) = Some (Ok keys)
   \<and> bz03_encrypt z11_backend plain_aead [104, 105] [1] (dlsk_pubkey (keys ! 0)) 4 (replicate 32 7) = Some ct
   \<and> bz03_verify_ciphertext z11_backend ct (dlsk_pubkey (keys ! 0)) = Some (Ok True)
   \<and> mapM (\<lambda>j. bz03_partial_decrypt z11_backend ct (keys ! j)) [0, 2] = Some shares
   \<and> bz03_assemble z11_backend plain_aead shares ct = Some (Ok [104, 105])"
proof -
  let ?f = "shamir_poly 5 2 (\<lambda>i. 3)"
  have c: "curve_ok z11_backend Bn254 0" "curve_ok z11_backend Bn254 1" "pairing_ok z11_backend Bn254"
    by (simp_all add: z11_ok)
  have d: "draws_ok (cb_order z11_backend Bn254) (\<lambda>i. 3)" by (simp add: draws_ok_def)
  obtain pk where pk: "dl_key_ok z11_backend Bn254 1 ?f 3 pk"
    and k: "bz03_generate_keys unary_codec z11_backend 2 3 Bn254 5 (\<lambda>i. 3)
      = Some (Ok (map (party_key z11_backend ?f pk) [0..<3]))"
    using bz03_generate_keys_ok [OF c(1,2) unary_codec_ok _ d, of 2 5 3] by auto
  let ?keys = "map (party_key z11_backend ?f pk) [0..<3]"
  have pk0: "dlsk_pubkey (?keys ! 0) = pk" by simp
  obtain ct where ct: "bz03_encrypt z11_backend plain_aead [104, 105] [1] pk 4 (replicate 32 7) = Some ct"
      "bz03ct_u ct = gpow z11_backend Bn254 1 4"
    using bz03_encrypt_eq [OF c pk plain_aead_ok, of "replicate 32 7" "[104, 105]" 4 "[1]"] by auto
  let ?P = "\<lambda>j sh. bz03_verify_share z11_backend sh ct pk = Some (Ok True)
      \<and> bz03sh_id sh = of_nat (j + 1) \<and> in_subgroup z11_backend Bn254 1 (bz03sh_data sh)"
  have "\<exists>sh. bz03_partial_decrypt z11_backend ct (?keys ! j) = Some sh \<and> ?P j sh" if "j \<in> set [0, 2]" for j
  proof -
    have "j < 3" using that by auto
    then have "?keys ! j = party_key z11_backend ?f pk j" by simp
    then show ?thesis using bz03_honest_share [OF c pk _ \<open>j < 3\<close> ct(2)] by fastforce
  qed
  then obtain shares where sh: "mapM (\<lambda>j. bz03_partial_decrypt z11_backend ct (?keys ! j)) [0, 2] = Some shares"
      "list_all2 ?P [0, 2] shares"
    using mapM_obtain [of "[0, 2]" "\<lambda>j. bz03_partial_decrypt z11_backend ct (?keys ! j)" ?P] by blast
  then obtain a b where s: "shares = [a, b]" "?P 0 a" "?P 2 b" by (auto simp: list_all2_Cons1)
  have "bz03_verify_ciphertext z11_backend ct pk = Some (Ok True)
      \<and> (bz03_assemble z11_backend plain_aead shares ct = Some (Ok [104, 105])
         \<or> (\<exists>sh\<in>set shares. \<not> in_subgroup z11_backend Bn254 1 (bz03sh_data sh)))"
    using bz03_robust_decryption [OF c unary_codec_ok plain_aead_ok _ _ d _ _ _ _ _ k,
        of 4 "replicate 32 7" "[104, 105]" "[1]", unfolded pk0] ct(1) s by (auto dest!: spec [of _ "[a, b]"])
  then show ?thesis using k ct(1) s sh(1) pk0 by (intro exI [of _ ?keys] exI [of _ ct] exI [of _ shares]) auto
qed

text \<open>
  Every party's decryption share of a ciphertext whose \<open>u\<close> is in the second group is
  accepted by \<open>verify_share\<close> and carries the party's identifier and the ciphertext's label.
\<close>

theorem bz03_honest_share_accepted:
  assumes ok: "curve_ok B g 0" "curve_ok B g 1" "pairing_ok B g" "codec_ok C"
    and kn: "0 < k" "n \<le> 65535" "j < n"
    and draws: "draws_ok (cb_order B g) rnd" "0 \<le> x" "x < cb_order B g"
    and keys: "bz03_generate_keys C B k n g x rnd = Some (Ok keys)"
    and u: "bz03ct_u ct = gpow B g 1 r"
  shows "\<exists>sh. bz03_partial_decrypt B ct (keys ! j) = Some sh
    \<and> bz03_verify_share B sh ct (dlsk_pubkey (keys ! j)) = Some (Ok True)
    \<and> bz03sh_id sh = of_nat (j + 1) \<and> bz03sh_label sh = bz03ct_label ct"
proof -
  let ?f = "shamir_poly x k rnd"
  obtain pk where pk: "dl_key_ok B g 1 ?f n pk" and ks: "keys = map (party_key B ?f pk) [0..<n]"
    using bz03_generate_keys_ok [OF ok(1,2,4) kn(1) draws, of n] keys by auto
  have "keys ! j = party_key B ?f pk j" using kn(3) by (simp add: ks)
  then show ?thesis using bz03_honest_share [OF ok(1-3) pk kn(2,3) u] by auto
qed

theorem bz03_honest_share_accepted_witness:
  "\<exists>keys sh. bz03_generate_keys unary_codec z11_backend 2 3 Bn254 5 (\<lambda>i. 3) = Some (Ok keys)
   \<and> bz03_partial_decrypt z11_backend
       \<lparr>bz03ct_label = [1], bz03ct_ctxt = [], bz03ct_c_k = [], bz03ct_u = gpow z11_backend Bn254 1 6,
        bz03ct_hr = gpow z11_backend Bn254 0 0, bz03ct_key_id = []\<rparr> (keys ! 2) = Some sh
   \<and> bz03sh_id sh = 3"
proof -
  have c: "curve_ok z11_backend Bn254 0" "curve_ok z11_backend Bn254 1" "pairing_ok z11_backend Bn254"
    by (simp_all add: z11_ok)
  have d: "draws_ok (cb_order z11_backend Bn254) (\<lambda>i. 3)" by (simp add: draws_ok_def)
  obtain keys where k: "bz03_generate_keys unary_codec z11_backend 2 3 Bn254 5 (\<lambda>i. 3) = Some (Ok keys)"
    using bz03_generate_keys_ok [OF c(1,2) unary_codec_ok _ d, of 2 5 3] by auto
  show ?thesis
    using bz03_honest_share_accepted [OF c unary_codec_ok _ _ _ d _ _ k, of 2
        "\<lparr>bz03ct_label = [1], bz03ct_ctxt = [], bz03ct_c_k = [], bz03ct_u = gpow z11_backend Bn254 1 6,
          bz03ct_hr = gpow z11_backend Bn254 0 0, bz03ct_key_id = []\<rparr>" 6] k
    by auto
qed

end
