(* ===== verification/QC_Bls04.thy ===== *)
theory QC_Bls04
  imports QC_DlKeys
begin

text \<open>
  The threshold signature BLS04 (\<open>dl_schemes/signatures/bls04.rs\<close>) and its arm of
  \<open>KeyGenerator::generate_keys\<close>.  Public keys are in the first pairing group, hashes of
  messages, shares and signatures in the second.
\<close>

type_synonym 'p bls04_public_key = "'p dl_public_key"
type_synonym 'p bls04_private_key = "'p dl_private_key"

record 'p bls04_signature_share =
  bls04sh_group :: group
  bls04sh_id :: u16
  bls04sh_label :: bytes
  bls04sh_data :: "'p group_element"

record 'p bls04_signature =
  bls04sig_group :: group
  bls04sig_sig :: "'p group_element"

subsection \<open>Encodings\<close>

definition bls04_pk_from_bytes ::
  "codec \<Rightarrow> 'p curve_backend \<Rightarrow> bytes \<Rightarrow> (scheme_error + 'p bls04_public_key) may_panic" where
  "bls04_pk_from_bytes C B bs = dl_pk_from_bytes C B None (Some 0) bs"

definition bls04_sk_from_bytes ::
  "codec \<Rightarrow> 'p curve_backend \<Rightarrow> bytes \<Rightarrow> (scheme_error + 'p bls04_private_key) may_panic" where
  "bls04_sk_from_bytes C B bs = dl_sk_from_bytes C B None (Some 0) bs"

definition bls04_share_to_bytes ::
  "codec \<Rightarrow> 'p curve_backend \<Rightarrow> 'p bls04_signature_share \<Rightarrow> (scheme_error + bytes) may_panic" where
  "bls04_share_to_bytes C B sh = do {
     db \<leftarrow> ge_to_bytes B (bls04sh_data sh);
     Some (write_seq C [AU16 (bls04sh_id sh), AGroup (ge_group (bls04sh_data sh)),
       AOctets (bls04sh_label sh), AOctets db])
   }"

definition bls04_share_from_bytes ::
  "codec \<Rightarrow> 'p curve_backend \<Rightarrow> bytes \<Rightarrow> (scheme_error + 'p bls04_signature_share) may_panic" where
  "bls04_share_from_bytes C B bs = parse_seq C bs
     (read_u64 (\<lambda>i. read_i32 (\<lambda>gc. case group_from_i32 gc of None \<Rightarrow> read_fail | Some g \<Rightarrow>
      read_octets (\<lambda>label.
      read_octets (\<lambda>b. read_call (ge_from_bytes B b g (Some 1)) (\<lambda>d.
      read_end \<lparr>bls04sh_group = g, bls04sh_id = word_of_int i, bls04sh_label = label,
        bls04sh_data = d\<rparr>))))))"

definition bls04_sig_to_bytes ::
  "codec \<Rightarrow> 'p curve_backend \<Rightarrow> 'p bls04_signature \<Rightarrow> (scheme_error + bytes) may_panic" where
  "bls04_sig_to_bytes C B sig = do {
     sb \<leftarrow> ge_to_bytes B (bls04sig_sig sig);
     Some (write_seq C [AGroup (bls04sig_group sig), AOctets sb])
   }"

definition bls04_sig_from_bytes ::
  "codec \<Rightarrow> 'p curve_backend \<Rightarrow> bytes \<Rightarrow> (scheme_error + 'p bls04_signature) may_panic" where
  "bls04_sig_from_bytes C B bs = parse_seq C bs
     (read_i32 (\<lambda>gc. case group_from_i32 gc of None \<Rightarrow> read_fail | Some g \<Rightarrow>
      read_octets (\<lambda>b. read_call (ge_from_bytes B b g (Some 1)) (\<lambda>s.
      read_end \<lparr>bls04sig_group = g, bls04sig_sig = s\<rparr>))))"

subsection \<open>Keys and the signature scheme\<close>

definition bls04_generate_keys ::
  "codec \<Rightarrow> 'p curve_backend \<Rightarrow> nat \<Rightarrow> nat \<Rightarrow> group \<Rightarrow> int \<Rightarrow> (nat \<Rightarrow> int) \<Rightarrow>
   (scheme_error + 'p bls04_private_key list) may_panic" where
  "bls04_generate_keys C B k n g x rnd =
     (if \<not> supports_pairings g then Some (Err CurveDoesNotSupportPairings)
      else if \<not> is_dl g then Some (Err IncompatibleGroup)
      else do {
        y \<leftarrow> ge_new_pow_big B g (SBI g x);
        keys \<leftarrow> dl_make_keys C B k n g x rnd y;
        Some (Ok keys)
      })"

definition bls04_H :: "'p curve_backend \<Rightarrow> bytes \<Rightarrow> group \<Rightarrow> 'p group_element may_panic" where
  "bls04_H B m g = do {
     res \<leftarrow> hash_to_big g m;
     ge_new_pow_big_ecp2 B g res
   }"

definition bls04_verify ::
  "'p curve_backend \<Rightarrow> 'p bls04_signature \<Rightarrow> 'p bls04_public_key \<Rightarrow> bytes \<Rightarrow>
   (scheme_error + bool) may_panic" where
  "bls04_verify B sig pk msg = do {
     h \<leftarrow> bls04_H B msg (dlpk_group pk);
     gen \<leftarrow> ge_new B (bls04sig_group sig);
     ge_ddh B h (dlpk_y pk) (bls04sig_sig sig) gen
   }"

definition bls04_partial_sign ::
  "'p curve_backend \<Rightarrow> bytes \<Rightarrow> bytes \<Rightarrow> 'p bls04_private_key \<Rightarrow>
   'p bls04_signature_share may_panic" where
  "bls04_partial_sign B msg label sk = do {
     h \<leftarrow> bls04_H B msg (dlpk_group (dlsk_pubkey sk));
     d \<leftarrow> ge_pow B h (dlsk_xi sk);
     Some \<lparr>bls04sh_group = ge_group d, bls04sh_id = dlsk_id sk, bls04sh_label = label,
           bls04sh_data = d\<rparr>
   }"

definition bls04_verify_share ::
  "'p curve_backend \<Rightarrow> 'p bls04_signature_share \<Rightarrow> bytes \<Rightarrow> 'p bls04_public_key \<Rightarrow>
   (scheme_error + bool) may_panic" where
  "bls04_verify_share B sh msg pk = do {
     h \<leftarrow> bls04_H B msg (ge_group (bls04sh_data sh));
     vk \<leftarrow> index_by_id (dlpk_verification_key pk) (bls04sh_id sh);
     gen \<leftarrow> ge_new B (ge_group (bls04sh_data sh));
     ge_ddh B h vk (bls04sh_data sh) gen
   }"

definition bls04_assemble ::
  "'p curve_backend \<Rightarrow> 'p bls04_signature_share list \<Rightarrow> bytes \<Rightarrow> 'p bls04_public_key \<Rightarrow>
   'p bls04_signature may_panic" where
  "bls04_assemble B shares msg pk = do {
     sig \<leftarrow> interpolate B bls04sh_id bls04sh_data (\<lambda>sh. ge_group (bls04sh_data sh)) shares;
     Some \<lparr>bls04sig_group = ge_group sig, bls04sig_sig = sig\<rparr>
   }"

interpretation bls04_dl: dl_share bls04sh_id bls04sh_data "\<lambda>sh. ge_group (bls04sh_data sh)"
  by unfold_locales simp

subsection \<open>Facts in the exponent\<close>

lemma bls04_generate_keys_ok:
  assumes "curve_ok B g 0" "supports_pairings g" "codec_ok C" "0 < k"
    "draws_ok (cb_order B g) rnd" "0 \<le> x" "x < cb_order B g"
  shows "\<exists>pk. bls04_generate_keys C B k n g x rnd
      = Some (Ok (map (party_key B (shamir_poly x k rnd) pk) [0..<n]))
    \<and> dl_key_ok B g 0 (shamir_poly x k rnd) n pk \<and> dlpk_k pk = of_nat k"
  using dl_make_keys_ok [OF assms(1,1,3-7), of n] assms(1,2,6) curve_ok_dl [OF assms(1)]
  by (auto simp: bls04_generate_keys_def ge_simps)

lemma bls04_H_gpow [ge_simps]:
  "curve_ok B g 1 \<Longrightarrow> bls04_H B m g = Some (gpow B g 1 (hash_big g m))"
  using curve_ok_dl [of B g 1] by (simp add: bls04_H_def ge_simps hash_big_nonneg)

lemma bls04_verify_iff:
  assumes "curve_ok B g 0" "curve_ok B g 1" "pairing_ok B g" "dl_key_ok B g 0 f n pk"
    "bls04sig_group sig = g" "bls04sig_sig sig = gpow B g 1 a"
  shows "bls04_verify B sig pk msg = Some (Ok (gpow B g 1 (hash_big g msg * f 0) = gpow B g 1 a))"
  using assms by (simp add: bls04_verify_def dl_key_ok_def ge_simps gpow_eq_iff)

lemma bls04_verify_share_iff:
  assumes "curve_ok B g 0" "curve_ok B g 1" "pairing_ok B g" "dl_key_ok B g 0 f n pk"
    "bls04sh_data sh = gpow B g 1 a" "0 < uint (bls04sh_id sh)" "uint (bls04sh_id sh) \<le> int n"
  shows "bls04_verify_share B sh msg pk
     = Some (Ok (bls04sh_data sh = gpow B g 1 (hash_big g msg * f (uint (bls04sh_id sh)))))"
  using assms
  by (auto simp: bls04_verify_share_def dl_key_ok_def index_vk_of ge_simps gpow_eq_iff)

text \<open>An accepted share has the group of the key and an identifier of one of its parties.\<close>

lemma bls04_verify_share_accepted:
  assumes "dl_key_ok B g 0 f n pk" "bls04_verify_share B sh msg pk = Some (Ok True)"
  shows "ge_group (bls04sh_data sh) = g" "0 < uint (bls04sh_id sh) \<and> uint (bls04sh_id sh) \<le> int n"
proof -
  obtain v where v: "index_by_id (vk_of B g f n) (bls04sh_id sh) = Some v"
    using assms by (auto simp: bls04_verify_share_def dl_key_ok_def bind_eq_Some_conv)
  then show r: "0 < uint (bls04sh_id sh) \<and> uint (bls04sh_id sh) \<le> int n" using index_by_id_vk_ofD [OF v] by auto
  then have "v = gpow B g 0 (f (uint (bls04sh_id sh)))" using v by (simp add: index_vk_of)
  then show "ge_group (bls04sh_data sh) = g"
    using assms v by (auto simp: bls04_verify_share_def dl_key_ok_def bind_eq_Some_conv ge_ddh_def Let_def
        ge_new_def split: if_splits)
qed

lemma bls04_honest_share:
  assumes "curve_ok B g 0" "curve_ok B g 1" "pairing_ok B g" "dl_key_ok B g 0 f n pk"
    "n \<le> 65535" "j < n"
  shows "\<exists>sh. bls04_partial_sign B msg label (party_key B f pk j) = Some sh
    \<and> bls04_verify_share B sh msg pk = Some (Ok True)
    \<and> bls04sh_id sh = of_nat (j + 1) \<and> bls04sh_label sh = label
    \<and> bls04sh_data sh = gpow B g 1 (hash_big g msg * f (int j + 1))"
proof -
  let ?h = "hash_big g msg"
  let ?sh = "\<lparr>bls04sh_group = g, bls04sh_id = of_nat (j + 1), bls04sh_label = label,
      bls04sh_data = gpow B g 1 (?h * f (int j + 1))\<rparr>"
  have "gpow B g 1 (?h * (f (int j + 1) mod cb_order B g)) = gpow B g 1 (?h * f (int j + 1))"
    by (rule gpow_cong) (simp add: mod_mult_right_eq)
  then have "bls04_partial_sign B msg label (party_key B f pk j) = Some ?sh"
    using assms(2,4) curve_ok_pos [OF assms(2)]
    by (simp add: bls04_partial_sign_def dl_key_ok_def ge_simps)
  moreover have "bls04_verify_share B ?sh msg pk = Some (Ok True)"
    using bls04_verify_share_iff [OF assms(1-4), of ?sh "?h * f (int j + 1)"]
      uint_share_id [OF assms(6,5)] assms(6) by simp
  ultimately show ?thesis by simp
qed

lemma bls04_assemble_core:
  fixes x :: int and k :: nat and rnd :: "nat \<Rightarrow> int"
  defines "f \<equiv> shamir_poly x k rnd"
  assumes ok: "curve_ok B g 0" "curve_ok B g 1" "pairing_ok B g"
    and kn: "0 < k" "int n < cb_order B g" and pk: "dl_key_ok B g 0 f n pk"
    and shares: "k \<le> length shares" "distinct (map bls04sh_id shares)"
      "\<forall>sh\<in>set shares. in_subgroup B g 1 (bls04sh_data sh) \<and> bls04_verify_share B sh msg pk = Some (Ok True)"
  shows "\<exists>sig. bls04_assemble B shares msg pk = Some sig \<and> bls04_verify B sig pk msg = Some (Ok True)
    \<and> bls04sig_group sig = g \<and> in_subgroup B g 1 (bls04sig_sig sig)"
proof -
  let ?h = "hash_big g msg"
  have "0 < uint (bls04sh_id s) \<and> uint (bls04sh_id s) < cb_order B g
     \<and> bls04sh_data s = gpow B g 1 (?h * f (uint (bls04sh_id s)))" if s: "s \<in> set shares" for s
  proof -
    obtain a where a: "bls04sh_data s = gpow B g 1 a" and v: "bls04_verify_share B s msg pk = Some (Ok True)"
      using shares(3) s by (auto simp: in_subgroup_def)
    then show ?thesis
      using bls04_verify_share_iff [OF ok(1-3) pk a] bls04_verify_share_accepted [OF pk v] kn(2) by auto
  qed
  then have "interpolate B bls04sh_id bls04sh_data (\<lambda>sh. ge_group (bls04sh_data sh)) shares
      = Some (gpow B g 1 (?h * f 0))"
    using shares(1,2) kn(1)
    by (intro bls04_dl.interpolate_poly [OF ok(2) polyfun_shamir [OF kn(1), of x rnd, folded f_def]]) auto
  then show ?thesis
    using bls04_verify_iff [OF ok(1-3) pk, of "\<lparr>bls04sig_group = g, bls04sig_sig = gpow B g 1 (?h * f 0)\<rparr>"]
    using pk by (auto simp: bls04_assemble_def dl_key_ok_def)
qed

subsection \<open>Properties\<close>

text \<open>
  C4.  Threshold signing of BLS04 is correct and robust up to the subgroup check the code does not
  make.  Any shares with distinct identifiers, at least \<open>k\<close> of them, which \<open>verify_share\<close>
  accepts for a message (whoever made them, whatever their tags) assemble to a signature that
  \<open>verify\<close> accepts for that message, or one of the accepted shares carries a point outside the
  subgroup of the generator; the comment in \<open>verify\<close> says that this check is still to be done.
\<close>

theorem bls04_robust_signing:
  assumes ok: "curve_ok B g 0" "curve_ok B g 1" "pairing_ok B g" "codec_ok C"
    and kn: "0 < k" "int n < cb_order B g"
    and draws: "draws_ok (cb_order B g) rnd" "0 \<le> x" "x < cb_order B g"
    and keys: "bls04_generate_keys C B k n g x rnd = Some (Ok keys)" "keys \<noteq> []"
    and shares: "k \<le> length shares" "distinct (map bls04sh_id shares)"
      "\<forall>sh\<in>set shares. bls04_verify_share B sh msg (dlsk_pubkey (keys ! 0)) = Some (Ok True)"
  shows "(\<exists>sig. bls04_assemble B shares msg (dlsk_pubkey (keys ! 0)) = Some sig
      \<and> bls04_verify B sig (dlsk_pubkey (keys ! 0)) msg = Some (Ok True))
    \<or> (\<exists>sh\<in>set shares. \<not> in_subgroup B g 1 (bls04sh_data sh))"
proof -
  let ?f = "shamir_poly x k rnd"
  have sp: "supports_pairings g" using curve_ok_dl [OF ok(2)] by simp
  obtain pk where pk: "dl_key_ok B g 0 ?f n pk" and ks: "keys = map (party_key B ?f pk) [0..<n]"
    using bls04_generate_keys_ok [OF ok(1) sp ok(4) kn(1) draws, of n] keys(1) by auto
  have pk0: "dlsk_pubkey (keys ! 0) = pk" using keys(2) by (auto simp: ks)
  show ?thesis using bls04_assemble_core [OF ok(1-3) kn pk shares(1,2)] shares(3) unfolding pk0 by blast
qed

theorem bls04_robust_signing_witness:
  "\<exists>keys shares sig. bls04_generate_keys unary_codec z11_backend 2 3 Bn254 5 (\<lambda>i. 3) = Some (Ok keys)
   \<and> mapM (\<lambda>j. bls04_partial_sign z11_backend [9] [1] (keys ! j)) [0, 2] = Some shares
   \<and> bls04_assemble z11_backend shares [9] (dlsk_pubkey (keys ! 0)) = Some sig
   \<and> bls04_verify z11_backend sig (dlsk_pubkey (keys ! 0)) [9] = Some (Ok True)"
proof -
  have c: "curve_ok z11_backend Bn254 0" "curve_ok z11_backend Bn254 1" "pairing_ok z11_backend Bn254"
    by (simp_all add: z11_ok)
  have d: "draws_ok (cb_order z11_backend Bn254) (\<lambda>i. 3)" by (simp add: draws_ok_def)
  obtain pk where pk: "dl_key_ok z11_backend Bn254 0 (shamir_poly 5 2 (\<lambda>i. 3)) 3 pk"
    and k: "bls04_generate_keys unary_codec z11_backend 2 3 Bn254 5 (\<lambda>i. 3)
      = Some (Ok (map (party_key z11_backend (shamir_poly 5 2 (\<lambda>i. 3)) pk) [0..<3]))"
    using bls04_generate_keys_ok [OF c(1) _ unary_codec_ok _ d, of 2 5 3] by auto
  let ?keys = "map (party_key z11_backend (shamir_poly 5 2 (\<lambda>i. 3)) pk) [0..<3]"
  let ?P = "\<lambda>j sh. bls04_verify_share z11_backend sh [9] pk = Some (Ok True)
      \<and> bls04sh_id sh = of_nat (j + 1) \<and> in_subgroup z11_backend Bn254 1 (bls04sh_data sh)"
  have "\<exists>sh. bls04_partial_sign z11_backend [9] [1] (?keys ! j) = Some sh \<and> ?P j sh"
    if "j \<in> set [0, 2]" for j
  proof -
    have "j < 3" using that by auto
    then have "?keys ! j = party_key z11_backend (shamir_poly 5 2 (\<lambda>i. 3)) pk j" by simp
    then show ?thesis using bls04_honest_share [OF c pk _ \<open>j < 3\<close>, of "[9]" "[1]"] by fastforce
  qed
  then obtain shares where sh: "mapM (\<lambda>j. bls04_partial_sign z11_backend [9] [1] (?keys ! j)) [0, 2] = Some shares"
      "list_all2 ?P [0, 2] shares"
    using mapM_obtain [of "[0, 2]" "\<lambda>j. bls04_partial_sign z11_backend [9] [1] (?keys ! j)" ?P] by blast
  then obtain a b where s: "shares = [a, b]" "?P 0 a" "?P 2 b" by (auto simp: list_all2_Cons1)
  have "dlsk_pubkey (?keys ! 0) = pk" by simp
  then show ?thesis
    using bls04_robust_signing [OF c unary_codec_ok _ _ d _ _ k, of shares "[9]"] s k sh(1) by auto
qed

text \<open>
  Every party's signature share of every message is accepted by \<open>verify_share\<close>.
\<close>

theorem bls04_honest_share_accepted:
  assumes ok: "curve_ok B g 0" "curve_ok B g 1" "pairing_ok B g" "codec_ok C"
    and kn: "0 < k" "n \<le> 65535" "j < n"
    and draws: "draws_ok (cb_order B g) rnd" "0 \<le> x" "x < cb_order B g"
    and keys: "bls04_generate_keys C B k n g x rnd = Some (Ok keys)"
  shows "\<exists>sh. bls04_partial_sign B msg label (keys ! j) = Some sh
    \<and> bls04_verify_share B sh msg (dlsk_pubkey (keys ! j)) = Some (Ok True)
    \<and> bls04sh_id sh = of_nat (j + 1) \<and> bls04sh_label sh = label"
proof -
  let ?f = "shamir_poly x k rnd"
  have sp: "supports_pairings g" using curve_ok_dl [OF ok(2)] by simp
  obtain pk where pk: "dl_key_ok B g 0 ?f n pk" and ks: "keys = map (party_key B ?f pk) [0..<n]"
    using bls04_generate_keys_ok [OF ok(1) sp ok(4) kn(1) draws, of n] keys(1) by auto
  have "keys ! j = party_key B ?f pk j" using kn(3) by (simp add: ks)
  then show ?thesis using bls04_honest_share [OF ok(1-3) pk kn(2,3), of msg label] by auto
qed

theorem bls04_honest_share_accepted_witness:
  "\<exists>keys sh. bls04_generate_keys unary_codec z11_backend 2 3 Bn254 5 (\<lambda>i. 3) = Some (Ok keys)
   \<and> bls04_partial_sign z11_backend [9] [1] (keys ! 2) = Some sh
   \<and> bls04_verify_share z11_backend sh [9] (dlsk_pubkey (keys ! 2)) = Some (Ok True)"
proof -
  have c: "curve_ok z11_backend Bn254 0" "curve_ok z11_backend Bn254 1" "pairing_ok z11_backend Bn254"
    by (simp_all add: z11_ok)
  have d: "draws_ok (cb_order z11_backend Bn254) (\<lambda>i. 3)" by (simp add: draws_ok_def)
  obtain keys where k: "bls04_generate_keys unary_codec z11_backend 2 3 Bn254 5 (\<lambda>i. 3) = Some (Ok keys)"
    using bls04_generate_keys_ok [OF c(1) _ unary_codec_ok _ d, of 2 5 3] by auto
  show ?thesis
    using bls04_honest_share_accepted [OF c unary_codec_ok _ _ _ d _ _ k, of 2 "[9]" "[1]"] k by auto
qed

text \<open>
  C6.  BLS04 signatures can be forged from one valid signature.  \<open>H\<close> maps a message to a known
  power of the generator, so from a signature of \<open>msg\<close> anyone computes a signature that
  \<open>verify\<close> accepts for any other message, with no secret key, unless the hash of \<open>msg\<close> is a
  multiple of the group order.
\<close>

theorem bls04_forgery:
  assumes ok: "curve_ok B g 0" "curve_ok B g 1" "pairing_ok B g"
    and pk: "dl_key_ok B g 0 f n pk"
    and sig: "bls04_verify B sig pk msg = Some (Ok True)" "bls04sig_group sig = g"
      "\<exists>a. bls04sig_sig sig = gpow B g 1 a"
    and h: "hash_to_big g msg = Some (SBI g h)" "hash_to_big g msg' = Some (SBI g h')"
  shows "cb_order B g dvd h
    \<or> (\<exists>s. ge_pow B (bls04sig_sig sig) (SBI g (h' * inv_mod h (cb_order B g))) = Some s
         \<and> bls04_verify B \<lparr>bls04sig_group = g, bls04sig_sig = s\<rparr> pk msg' = Some (Ok True))"
proof (cases "cb_order B g dvd h")
  case nd: False
  let ?q = "cb_order B g"
  have dl: "is_dl g" using curve_ok_dl [OF ok(1)] by simp
  have hh: "h = hash_big g msg" "h' = hash_big g msg'" using h by (simp_all add: hash_big_def)
  obtain a where a: "bls04sig_sig sig = gpow B g 1 a" using sig(3) by blast
  then have sa: "gpow B g 1 (h * f 0) = gpow B g 1 a"
    using bls04_verify_iff [OF ok pk sig(2) a, of msg] sig(1) hh by simp
  have "(h * inv_mod h ?q) mod ?q = 1" using inv_mod_prime [OF curve_ok_prime [OF ok(1)] nd] .
  then have "((h * inv_mod h ?q) * (h' * f 0)) mod ?q = (h' * f 0) mod ?q"
    by (metis mod_mult_left_eq mult_1)
  then have "(h * f 0 * (h' * inv_mod h ?q)) mod ?q = (h' * f 0) mod ?q"
    by (simp add: ac_simps)
  moreover have "(h * f 0 * (h' * inv_mod h ?q)) mod ?q = (a * (h' * inv_mod h ?q)) mod ?q"
    using sa by (metis gpow_eq_iff [OF ok(2)] mod_mult_left_eq)
  ultimately have e: "gpow B g 1 (h' * f 0) = gpow B g 1 (a * (h' * inv_mod h ?q))"
    by (intro gpow_cong) simp
  have "0 \<le> h' * inv_mod h ?q"
    using inv_mod_range [OF curve_ok_pos [OF ok(1)]] hash_big_nonneg [OF dl] hh by simp
  then have "ge_pow B (bls04sig_sig sig) (SBI g (h' * inv_mod h ?q))
      = Some (gpow B g 1 (a * (h' * inv_mod h ?q)))"
    using ok(2) a by (simp add: ge_simps)
  moreover have "bls04_verify B \<lparr>bls04sig_group = g, bls04sig_sig = gpow B g 1 (a * (h' * inv_mod h ?q))\<rparr>
      pk msg' = Some (Ok True)"
    using bls04_verify_iff [OF ok pk, of "\<lparr>bls04sig_group = g,
        bls04sig_sig = gpow B g 1 (a * (h' * inv_mod h ?q))\<rparr>" "a * (h' * inv_mod h ?q)" msg'] e hh
    by simp
  ultimately show ?thesis by blast
qed simp

theorem bls04_forgery_witness:
  "\<exists>pk sig h h'. bls04_verify z11_backend sig pk [9] = Some (Ok True)
    \<and> hash_to_big Bn254 [9] = Some (SBI Bn254 h) \<and> hash_to_big Bn254 [8] = Some (SBI Bn254 h')
    \<and> (11 dvd h \<or> (\<exists>s. ge_pow z11_backend (bls04sig_sig sig) (SBI Bn254 (h' * inv_mod h 11)) = Some s
         \<and> bls04_verify z11_backend \<lparr>bls04sig_group = Bn254, bls04sig_sig = s\<rparr> pk [8] = Some (Ok True)))"
proof -
  have c: "curve_ok z11_backend Bn254 0" "curve_ok z11_backend Bn254 1" "pairing_ok z11_backend Bn254"
    by (simp_all add: z11_ok)
  let ?pk = "\<lparr>dlpk_id = [], dlpk_group = Bn254, dlpk_n = 3, dlpk_k = 2,
      dlpk_y = gpow z11_backend Bn254 0 5, dlpk_verification_key = vk_of z11_backend Bn254 (\<lambda>x. 5 + x) 3\<rparr>"
  let ?sig = "\<lparr>bls04sig_group = Bn254, bls04sig_sig = gpow z11_backend Bn254 1 (hash_big Bn254 [9] * 5)\<rparr>"
  have pk: "dl_key_ok z11_backend Bn254 0 (\<lambda>x. 5 + x) 3 ?pk" by (simp add: dl_key_ok_def)
  have sig: "bls04_verify z11_backend ?sig ?pk [9] = Some (Ok True)"
    using bls04_verify_iff [OF c pk, of ?sig "hash_big Bn254 [9] * 5" "[9]"] by simp
  have h: "hash_to_big Bn254 m = Some (SBI Bn254 (hash_big Bn254 m))" for m
    by (simp add: ge_simps)
  show ?thesis
    using bls04_forgery [OF c pk sig _ _ h h, of "[8]"] sig h by fastforce
qed

end
