(* ===== verification/QC_Cks05.thy ===== *)
theory QC_Cks05
  imports QC_DlKeys
begin

text \<open>
  The threshold coin CKS05 (\<open>dl_schemes/coins/cks05.rs\<close>) and its arm of
  \<open>KeyGenerator::generate_keys\<close>.
\<close>

unbundle bit_operations_syntax

type_synonym 'p cks05_public_key = "'p dl_public_key"
type_synonym 'p cks05_private_key = "'p dl_private_key"

record 'p cks05_coin_share =
  cks05sh_id :: u16
  cks05sh_data :: "'p group_element"
  cks05sh_c :: sized_big_int
  cks05sh_z :: sized_big_int

subsection \<open>Encodings\<close>

definition cks05_pk_from_bytes ::
  "codec \<Rightarrow> 'p curve_backend \<Rightarrow> bytes \<Rightarrow> (scheme_error + 'p cks05_public_key) may_panic" where
  "cks05_pk_from_bytes C B bs = dl_pk_from_bytes C B None None bs"

definition cks05_sk_from_bytes ::
  "codec \<Rightarrow> 'p curve_backend \<Rightarrow> bytes \<Rightarrow> (scheme_error + 'p cks05_private_key) may_panic" where
  "cks05_sk_from_bytes C B bs = dl_sk_from_bytes C B None None bs"

definition cks05_share_to_bytes ::
  "codec \<Rightarrow> 'p curve_backend \<Rightarrow> 'p cks05_coin_share \<Rightarrow> (scheme_error + bytes) may_panic" where
  "cks05_share_to_bytes C B sh = do {
     db \<leftarrow> ge_to_bytes B (cks05sh_data sh);
     Some (write_seq C [AU16 (cks05sh_id sh), AGroup (ge_group (cks05sh_data sh)), AOctets db,
       AOctets (sb_to_bytes (cks05sh_c sh)), AOctets (sb_to_bytes (cks05sh_z sh))])
   }"

definition cks05_share_from_bytes ::
  "codec \<Rightarrow> 'p curve_backend \<Rightarrow> bytes \<Rightarrow> (scheme_error + 'p cks05_coin_share) may_panic" where
  "cks05_share_from_bytes C B bs = parse_seq C bs
     (read_u64 (\<lambda>i. read_i32 (\<lambda>gc. case group_from_i32 gc of None \<Rightarrow> read_fail | Some g \<Rightarrow>
      read_octets (\<lambda>b. read_call (ge_from_bytes B b g None) (\<lambda>d.
      read_octets (\<lambda>b. read_call (sb_from_bytes g b) (\<lambda>c.
      read_octets (\<lambda>b. read_call (sb_from_bytes g b) (\<lambda>z.
      read_end \<lparr>cks05sh_id = word_of_int i, cks05sh_data = d, cks05sh_c = c, cks05sh_z = z\<rparr>)))))))))"

subsection \<open>Keys and the coin\<close>

definition cks05_generate_keys ::
  "codec \<Rightarrow> 'p curve_backend \<Rightarrow> nat \<Rightarrow> nat \<Rightarrow> group \<Rightarrow> int \<Rightarrow> (nat \<Rightarrow> int) \<Rightarrow>
   (scheme_error + 'p cks05_private_key list) may_panic" where
  "cks05_generate_keys C B k n g x rnd =
     (if \<not> is_dl g then Some (Err IncompatibleGroup)
      else do {
        y \<leftarrow> ge_new_pow_big B g (SBI g x);
        keys \<leftarrow> dl_make_keys C B k n g x rnd y;
        Some (Ok keys)
      })"

definition cks05_H :: "'p curve_backend \<Rightarrow> bytes \<Rightarrow> group \<Rightarrow> 'p group_element may_panic" where
  "cks05_H B name g = do {
     res \<leftarrow> hash_to_big g name;
     ge_new_pow_big B g res
   }"

definition cks05_H1 ::
  "'p curve_backend \<Rightarrow> 'p group_element \<Rightarrow> 'p group_element \<Rightarrow> 'p group_element \<Rightarrow>
   'p group_element \<Rightarrow> 'p group_element \<Rightarrow> 'p group_element \<Rightarrow> sized_big_int may_panic" where
  "cks05_H1 B g1 g2 g3 g4 g5 g6 = do {
     bs \<leftarrow> mapM (ge_to_bytes B) [g1, g2, g3, g4, g5, g6];
     hash_to_big (ge_group g1) (concat bs)
   }"

definition cks05_MASK :: bytes where
  "cks05_MASK = [
    0xdc, 0x57, 0x26, 0x74, 0x23, 0x1d, 0xad, 0x95, 0xe9, 0x9d, 0x24, 0x80, 0x61, 0x1e, 0x59, 0x26,
    0xbd, 0x54, 0x9a, 0x18, 0x7c, 0x0, 0xad, 0x99, 0xab, 0x38, 0xe7, 0x46, 0xd2, 0xaa, 0xf5, 0x56,
    0x3a, 0xe9, 0x58, 0x98, 0xf2, 0x6, 0x8c, 0x6, 0x9d, 0xce, 0xd7, 0x4d, 0x82, 0xd2, 0xb0, 0x6f,
    0xae, 0xbb, 0xb1, 0xaa, 0xd2, 0x9a, 0x37, 0xcc, 0xdc, 0xcf, 0xf4, 0x1, 0x7, 0xca, 0xae, 0xe4,
    0x89, 0x9f, 0x34, 0xaf, 0xc7, 0x87, 0x8d, 0x1, 0x5c, 0xed, 0xbc, 0xc8, 0x82, 0x75, 0x9f, 0x97,
    0x6a, 0xde, 0xa5, 0x30, 0xd2, 0x5e, 0x3f, 0x4a, 0xd9, 0x5a, 0x56, 0x4c, 0x98, 0xe4, 0x34, 0x61,
    0x36, 0xc4, 0xf6, 0xcb, 0x2c, 0xd1, 0x30, 0xda, 0x99, 0x6c, 0xb6, 0x74, 0xc0, 0x2b, 0x3d, 0x7a,
    0xe4, 0xad, 0x11, 0x38, 0xc6, 0x36, 0x32, 0x10, 0xc, 0xcc, 0xdf, 0xa1, 0x41, 0x92, 0xeb, 0xe9,
    0xe9, 0x2f, 0x4a, 0xee, 0xca, 0x65, 0x8c, 0xef, 0xec, 0xed, 0xaf, 0x81, 0xe, 0x31, 0x6c, 0x21,
    0x7d, 0xf3, 0xf3, 0x1b, 0x19, 0x85, 0x56, 0x48, 0xf0, 0x9d, 0xc2, 0x41, 0xcc, 0xd5, 0xd1, 0x86,
    0x82, 0x83, 0xad, 0x36, 0x91, 0xf6, 0xa6, 0x43, 0x92, 0xae, 0xc, 0x39, 0xf1, 0x89, 0x4, 0xe4,
    0xc8, 0xc2, 0xf5, 0xd4, 0x3a, 0x9e, 0xc4, 0xf9, 0x2, 0x2f, 0x3d, 0xb3, 0x49, 0xca, 0x2b, 0xa4,
    0x1e, 0x9d, 0x42, 0x13, 0xb8, 0xff, 0x70, 0x8a, 0x97, 0x7f, 0x3a, 0xb6, 0x15, 0x36, 0xde, 0x8c,
    0xd8, 0xdc, 0xb7, 0x5d, 0x4d, 0x1e, 0x9d, 0x76, 0x9d, 0x88, 0xa0, 0x2e, 0xe5, 0xab, 0xd3, 0xae,
    0x43, 0xd5, 0x22, 0x22, 0xff, 0xed, 0xda, 0x48, 0x2b, 0x10, 0x6d, 0x4a, 0xda, 0x37, 0x8, 0x6c,
    0xf3, 0xdc, 0xd, 0x22, 0x38, 0x88, 0x45, 0x78, 0x4c, 0xc9, 0xa5, 0x63, 0xbb, 0x73, 0x90, 0x56]"

definition popcount :: "u8 \<Rightarrow> nat" where
  "popcount b = length (filter (bit b) [0..<8])"

definition cks05_H2 :: "'p curve_backend \<Rightarrow> 'p group_element \<Rightarrow> u8 may_panic" where
  "cks05_H2 B x = do {
     bs \<leftarrow> ge_to_bytes B x;
     foldM (\<lambda>b i. do {
       m \<leftarrow> index cks05_MASK i;
       Some (b XOR (of_nat (popcount (bs ! i AND m)) mod 2))
     }) 0 [0..<length bs]
   }"

definition cks05_create_share ::
  "'p curve_backend \<Rightarrow> bytes \<Rightarrow> 'p cks05_private_key \<Rightarrow> int \<Rightarrow> 'p cks05_coin_share may_panic" where
  "cks05_create_share B name sk s = do {
     let g = dlpk_group (dlsk_pubkey sk);
     let q = ge_get_order B (dlpk_y (dlsk_pubkey sk));
     c_bar \<leftarrow> cks05_H B name g;
     d \<leftarrow> ge_pow B c_bar (dlsk_xi sk);
     gen \<leftarrow> ge_new B g;
     h \<leftarrow> ge_pow B gen (SBI g s);
     h_bar \<leftarrow> ge_pow B c_bar (SBI g s);
     vk \<leftarrow> index_by_id (dlpk_verification_key (dlsk_pubkey sk)) (dlsk_id sk);
     c \<leftarrow> cks05_H1 B gen vk h c_bar d h_bar;
     cx \<leftarrow> sb_mul_mod c (dlsk_xi sk) q;
     z0 \<leftarrow> sb_add (SBI g s) cx;
     z \<leftarrow> sb_rmod z0 q;
     Some \<lparr>cks05sh_id = dlsk_id sk, cks05sh_data = d, cks05sh_c = c, cks05sh_z = z\<rparr>
   }"

definition cks05_verify_share ::
  "'p curve_backend \<Rightarrow> 'p cks05_coin_share \<Rightarrow> bytes \<Rightarrow> 'p cks05_public_key \<Rightarrow> bool may_panic" where
  "cks05_verify_share B sh name pk = do {
     c_bar \<leftarrow> cks05_H B name (ge_group (cks05sh_data sh));
     gen \<leftarrow> ge_new B (dlpk_group pk);
     gz \<leftarrow> ge_pow B gen (cks05sh_z sh);
     vk \<leftarrow> index_by_id (dlpk_verification_key pk) (cks05sh_id sh);
     vkc \<leftarrow> ge_pow B vk (cks05sh_c sh);
     h \<leftarrow> ge_div B gz vkc;
     cz \<leftarrow> ge_pow B c_bar (cks05sh_z sh);
     dc \<leftarrow> ge_pow B (cks05sh_data sh) (cks05sh_c sh);
     h_bar \<leftarrow> ge_div B cz dc;
     c \<leftarrow> cks05_H1 B gen vk h c_bar (cks05sh_data sh) h_bar;
     Some (sb_equals (cks05sh_c sh) c)
   }"

definition cks05_assemble ::
  "'p curve_backend \<Rightarrow> 'p cks05_coin_share list \<Rightarrow> u8 may_panic" where
  "cks05_assemble B shares = do {
     coin \<leftarrow> interpolate B cks05sh_id cks05sh_data (\<lambda>sh. ge_group (cks05sh_data sh)) shares;
     cks05_H2 B coin
   }"

interpretation cks05_dl: dl_share cks05sh_id cks05sh_data "\<lambda>sh. ge_group (cks05sh_data sh)"
  by unfold_locales simp

subsection \<open>Facts in the exponent\<close>

lemma cks05_generate_keys_ok:
  assumes "curve_ok B g 0" "codec_ok C" "0 < k"
    "draws_ok (cb_order B g) rnd" "0 \<le> x" "x < cb_order B g"
  shows "\<exists>pk. cks05_generate_keys C B k n g x rnd
      = Some (Ok (map (party_key B (shamir_poly x k rnd) pk) [0..<n]))
    \<and> dl_key_ok B g 0 (shamir_poly x k rnd) n pk \<and> dlpk_k pk = of_nat k"
  using dl_make_keys_ok [OF assms(1,1,2-6), of n] assms(1,5) curve_ok_dl [OF assms(1)]
  by (auto simp: cks05_generate_keys_def ge_simps)

lemma cks05_H_gpow [ge_simps]:
  "curve_ok B g 0 \<Longrightarrow> cks05_H B m g = Some (gpow B g 0 (hash_big g m))"
  using curve_ok_dl [of B g 0] by (simp add: cks05_H_def ge_simps hash_big_nonneg)

lemma cks05_H1_gpow:
  assumes "curve_ok B g 0"
  shows "\<exists>e\<ge>0. cks05_H1 B (gpow B g 0 a1) (gpow B g 0 a2) (gpow B g 0 a3) (gpow B g 0 a4)
     (gpow B g 0 a5) (gpow B g 0 a6) = Some (SBI g e)"
  using assms curve_ok_dl [OF assms] by (simp add: cks05_H1_def ge_simps hash_big_nonneg)

lemma length_cks05_MASK [simp]: "length cks05_MASK = 256"
  by (simp add: cks05_MASK_def)

lemma foldM_total:
  assumes "\<And>s x. x \<in> set xs \<Longrightarrow> \<exists>s'. f s x = Some s' \<and> (P s \<longrightarrow> P s')" "P s"
  shows "\<exists>s'. foldM f s xs = Some s' \<and> P s'"
  using assms
proof (induction xs arbitrary: s)
  case (Cons x xs)
  obtain s' where "f s x = Some s'" "P s'" using Cons.prems by (meson list.set_intros(1))
  then show ?case using Cons by auto
qed simp

text \<open>The hash to a bit never runs off the mask, and its value is a bit.\<close>

lemma cks05_H2_bit:
  assumes "curve_ok B g 0"
  shows "\<exists>b. cks05_H2 B (gpow B g 0 a) = Some b \<and> (b = 0 \<or> b = 1)"
proof -
  let ?bs = "cb_tobytes B g 0 (ge_val (gpow B g 0 a))"
  have len: "length ?bs \<le> 97"
    using length_to_bytes_gpow [OF assms] curve_ok_dl [OF assms] by (cases g) auto
  have par: "of_nat n mod 2 = (0 :: u8) \<or> of_nat n mod 2 = (1 :: u8)" for n
    by (metis not_mod_2_eq_0_eq_1)
  have "\<exists>b. foldM (\<lambda>b i. do { m \<leftarrow> index cks05_MASK i;
      Some (b XOR (of_nat (popcount (?bs ! i AND m)) mod 2)) }) 0 [0..<length ?bs] = Some b
      \<and> (b = (0 :: u8) \<or> b = 1)"
  proof (rule foldM_total)
    fix b :: u8 and i assume "i \<in> set [0..<length ?bs]"
    then have "index cks05_MASK i = Some (cks05_MASK ! i)" using len by (simp add: index_def)
    moreover define p :: u8 where "p = of_nat (popcount (?bs ! i AND cks05_MASK ! i)) mod 2"
    moreover have "p = 0 \<or> p = 1" unfolding p_def by (rule par)
    ultimately show "\<exists>s'. index cks05_MASK i \<bind> (\<lambda>m. Some (b XOR of_nat (popcount (?bs ! i AND m)) mod 2)) = Some s'
        \<and> (b = 0 \<or> b = 1 \<longrightarrow> s' = 0 \<or> s' = 1)"
      by (auto simp flip: p_def)
  qed simp
  then show ?thesis using assms by (simp add: cks05_H2_def ge_simps)
qed

lemma cks05_create_share_eq:
  assumes "curve_ok B g 0" "dl_key_ok B g 0 f n pk" "n \<le> 65535" "j < n" "0 \<le> s"
  shows "\<exists>sh. cks05_create_share B name (party_key B f pk j) s = Some sh
    \<and> cks05_verify_share B sh name pk = Some True \<and> cks05sh_id sh = of_nat (j + 1)
    \<and> cks05sh_data sh = gpow B g 0 (hash_big g name * f (int j + 1))"
proof -
  let ?q = "cb_order B g" and ?x = "f (int j + 1)" and ?h = "hash_big g name"
  have q0: "0 < ?q" using curve_ok_pos [OF assms(1)] .
  have h0: "0 \<le> ?h" using hash_big_nonneg curve_ok_dl [OF assms(1)] by simp
  have vk: "index_by_id (vk_of B g f n) (of_nat (j + 1)) = Some (gpow B g 0 ?x)"
    using index_vk_of [of "of_nat (j + 1)" n B g f] uint_share_id [OF assms(4,3)] assms(4) by simp
  obtain e where e: "0 \<le> e" "cks05_H1 B (gpow B g 0 1) (gpow B g 0 ?x) (gpow B g 0 s)
      (gpow B g 0 ?h) (gpow B g 0 (?h * ?x)) (gpow B g 0 (?h * s)) = Some (SBI g e)"
    using cks05_H1_gpow [OF assms(1)] by blast
  define z where "z = (s + e * ?x mod ?q) mod ?q"
  have z0: "0 \<le> z" using q0 by (simp add: z_def)
  have d: "gpow B g 0 (?h * (?x mod ?q)) = gpow B g 0 (?h * ?x)"
    by (rule gpow_cong) (simp add: mod_mult_right_eq)
  let ?sh = "\<lparr>cks05sh_id = of_nat (j + 1), cks05sh_data = gpow B g 0 (?h * ?x),
      cks05sh_c = SBI g e, cks05sh_z = SBI g z\<rparr>"
  have "cks05_create_share B name (party_key B f pk j) s = Some ?sh"
    using assms(1,2,5) q0 h0 vk e
    by (simp add: cks05_create_share_def dl_key_ok_def ge_simps ge_get_order_def sb_defs d z_def
        mod_mult_right_eq Let_def)
  moreover have "gpow B g 0 (z - ?x * e) = gpow B g 0 s" by (simp add: z_def gpow_response_1)
  moreover have "gpow B g 0 (?h * z - ?h * ?x * e) = gpow B g 0 (?h * s)"
    by (simp only: z_def gpow_response)
  ultimately show ?thesis using assms(1,2) q0 h0 vk e z0
    by (simp add: cks05_verify_share_def dl_key_ok_def ge_simps sb_defs)
qed

text \<open>Shares that all carry their party's power of \<open>H(name)\<close> give one coin, fixed by the key.\<close>

lemma cks05_assemble_core:
  assumes "curve_ok B g 0" "0 < k" "int n < cb_order B g"
  shows "\<exists>b. (b = 0 \<or> b = 1) \<and> (\<forall>shares. k \<le> length shares \<and> distinct (map cks05sh_id shares)
    \<and> (\<forall>sh\<in>set shares. 0 < uint (cks05sh_id sh) \<and> uint (cks05sh_id sh) \<le> int n
         \<and> cks05sh_data sh = gpow B g 0 (hash_big g name * shamir_poly x k rnd (uint (cks05sh_id sh))))
    \<longrightarrow> cks05_assemble B shares = Some b)"
proof -
  let ?f = "shamir_poly x k rnd" and ?h = "hash_big g name"
  obtain b where b: "cks05_H2 B (gpow B g 0 (?h * ?f 0)) = Some b" "b = 0 \<or> b = 1"
    using cks05_H2_bit [OF assms(1)] by blast
  have "cks05_assemble B shares = Some b" if s: "k \<le> length shares" "distinct (map cks05sh_id shares)"
    "\<forall>sh\<in>set shares. 0 < uint (cks05sh_id sh) \<and> uint (cks05sh_id sh) \<le> int n
       \<and> cks05sh_data sh = gpow B g 0 (?h * ?f (uint (cks05sh_id sh)))" for shares
  proof -
    have "interpolate B cks05sh_id cks05sh_data (\<lambda>sh. ge_group (cks05sh_data sh)) shares = Some (gpow B g 0 (?h * ?f 0))"
      using s assms(2,3) by (intro cks05_dl.interpolate_poly [OF assms(1) polyfun_shamir [OF assms(2)]]) force+
    then show ?thesis using b by (simp add: cks05_assemble_def)
  qed
  then show ?thesis using b(2) by blast
qed

subsection \<open>Properties\<close>

text \<open>
  C7.  The coin of CKS05.  Every party's share is accepted by \<open>verify_share\<close>, and the shares of
  any parties \<open>js\<close> (at least \<open>k\<close>, no two the same) assemble to a bit that does not depend on
  the parties nor on their random choices.  It is moreover a function of the public key and the
  name alone, \<open>H2(y^h)\<close> with \<open>h\<close> the hash of the name: the coin can be computed before any
  share is released.
\<close>

theorem cks05_coin_agreement:
  assumes ok: "curve_ok B g 0" "codec_ok C"
    and kn: "0 < k" "k \<le> n" "n \<le> 65535" "int n < cb_order B g"
    and draws: "draws_ok (cb_order B g) rnd" "0 \<le> x" "x < cb_order B g" "\<forall>j. 0 \<le> s j"
    and keys: "cks05_generate_keys C B k n g x rnd = Some (Ok keys)"
    and js: "distinct js" "\<forall>j\<in>set js. j < n" "k \<le> length js"
  shows "\<exists>shares. mapM (\<lambda>j. cks05_create_share B name (keys ! j) (s j)) js = Some shares
    \<and> (\<forall>sh\<in>set shares. cks05_verify_share B sh name (dlsk_pubkey (keys ! 0)) = Some True)
    \<and> (\<exists>h coin b. hash_to_big g name = Some h \<and> ge_pow B (dlpk_y (dlsk_pubkey (keys ! 0))) h = Some coin
         \<and> cks05_H2 B coin = Some b \<and> (b = 0 \<or> b = 1) \<and> cks05_assemble B shares = Some b)"
proof -
  let ?f = "shamir_poly x k rnd" and ?h = "hash_big g name"
  obtain pk where pk: "dl_key_ok B g 0 ?f n pk" and ks: "keys = map (party_key B ?f pk) [0..<n]"
    using cks05_generate_keys_ok [OF ok kn(1) draws(1-3), of n] keys(1) by auto
  have pk0: "dlsk_pubkey (keys ! 0) = pk" using kn by (simp add: ks)
  let ?P = "\<lambda>j sh. cks05_verify_share B sh name pk = Some True \<and> cks05sh_id sh = of_nat (j + 1)
      \<and> cks05sh_data sh = gpow B g 0 (?h * ?f (int j + 1))"
  have "\<exists>sh. cks05_create_share B name (keys ! j) (s j) = Some sh \<and> ?P j sh" if "j \<in> set js" for j
    using cks05_create_share_eq [OF ok(1) pk kn(3), of j "s j" name] that js(2) draws(4) by (auto simp: ks)
  then obtain shares where sh: "mapM (\<lambda>j. cks05_create_share B name (keys ! j) (s j)) js = Some shares"
      "list_all2 ?P js shares"
    using mapM_obtain [of js "\<lambda>j. cks05_create_share B name (keys ! j) (s j)" ?P] by blast
  have "interpolate B cks05sh_id cks05sh_data (\<lambda>sh. ge_group (cks05sh_data sh)) shares
      = Some (gpow B g 0 (?h * ?f 0))"
    by (rule cks05_dl.interpolate_parties [OF ok(1) polyfun_shamir [OF kn(1)] kn(1,3,4) js])
      (rule list_all2_mono [OF sh(2)], simp)
  moreover obtain b where b: "cks05_H2 B (gpow B g 0 (?h * x)) = Some b" "b = 0 \<or> b = 1"
    using cks05_H2_bit [OF ok(1)] by blast
  ultimately have asm: "cks05_assemble B shares = Some b" by (simp add: cks05_assemble_def)
  have "ge_pow B (dlpk_y pk) (SBI g ?h) = Some (gpow B g 0 (?h * x))"
    using ok(1) pk hash_big_nonneg curve_ok_dl [OF ok(1)]
    by (simp add: dl_key_ok_def ge_simps mult.commute)
  moreover have "hash_to_big g name = Some (SBI g ?h)" using curve_ok_dl [OF ok(1)] by (simp add: ge_simps)
  moreover have "\<forall>sh\<in>set shares. cks05_verify_share B sh name pk = Some True"
    using sh(2) by (auto simp: list_all2_conv_all_nth in_set_conv_nth)
  ultimately show ?thesis unfolding pk0 using sh(1) asm b by blast
qed

theorem cks05_coin_agreement_witness:
  "\<exists>keys shares. cks05_generate_keys unary_codec z11_backend 2 3 Ed25519 5 (\<lambda>i. 3) = Some (Ok keys)
   \<and> mapM (\<lambda>j. cks05_create_share z11_backend [110] (keys ! j) 6) [1, 2] = Some shares
   \<and> (cks05_assemble z11_backend shares = Some 0 \<or> cks05_assemble z11_backend shares = Some 1)"
proof -
  have c: "curve_ok z11_backend Ed25519 0" by (simp add: z11_ok)
  have d: "draws_ok (cb_order z11_backend Ed25519) (\<lambda>i. 3)" by (simp add: draws_ok_def)
  obtain keys where k: "cks05_generate_keys unary_codec z11_backend 2 3 Ed25519 5 (\<lambda>i. 3) = Some (Ok keys)"
    using cks05_generate_keys_ok [OF c unary_codec_ok _ d, of 2 5 3] by auto
  show ?thesis
    using cks05_coin_agreement [OF c unary_codec_ok _ _ _ _ d _ _ _ k, of "\<lambda>_. 6" "[1, 2]" "[110]"] k
    by fastforce
qed

end
