(* ===== verification/QC_Frost.thy ===== *)
theory QC_Frost
  imports QC_DlKeys QC_Hash512
begin

text \<open>
  The two-round Schnorr threshold signature FROST (\<open>dl_schemes/signatures/frost.rs\<close>) and its arm
  of \<open>KeyGenerator::generate_keys\<close>.  Functions that take the commitment list as
  \<open>&mut [PublicCommitment]\<close> sort it in place; here they return the sorted list beside their
  result.  The random bytes of a nonce are arguments.
\<close>

unbundle bit_operations_syntax

type_synonym 'p frost_public_key = "'p dl_public_key"
type_synonym 'p frost_private_key = "'p dl_private_key"

record 'p public_commitment =
  pc_id :: u16
  pc_hiding :: "'p group_element"
  pc_binding :: "'p group_element"

record nonce =
  nonce_hiding :: sized_big_int
  nonce_binding :: sized_big_int

record binding_factor =
  bf_id :: u16
  bf_factor :: sized_big_int

record frost_signature_share =
  frostsh_id :: u16
  frostsh_data :: sized_big_int

record 'p frost_signature =
  frostsig_R :: "'p group_element"
  frostsig_z :: sized_big_int

datatype frost_options = PrecomputeOnly | Precomputation | NoPrecomputation

definition NUM_PRECOMPUTATIONS :: nat where
  "NUM_PRECOMPUTATIONS = 10"

subsection \<open>Encodings\<close>

definition frost_pk_from_bytes ::
  "codec \<Rightarrow> 'p curve_backend \<Rightarrow> bytes \<Rightarrow> (scheme_error + 'p frost_public_key) may_panic" where
  "frost_pk_from_bytes C B bs = dl_pk_from_bytes C B None None bs"

definition frost_sk_from_bytes ::
  "codec \<Rightarrow> 'p curve_backend \<Rightarrow> bytes \<Rightarrow> (scheme_error + 'p frost_private_key) may_panic" where
  "frost_sk_from_bytes C B bs = dl_sk_from_bytes C B None None bs"

definition commitment_to_bytes ::
  "codec \<Rightarrow> 'p curve_backend \<Rightarrow> 'p public_commitment \<Rightarrow> (scheme_error + bytes) may_panic" where
  "commitment_to_bytes C B c = do {
     hb \<leftarrow> ge_to_bytes B (pc_hiding c);
     bb \<leftarrow> ge_to_bytes B (pc_binding c);
     Some (write_seq C [AU16 (pc_id c), AGroup (ge_group (pc_hiding c)), AOctets hb, AOctets bb])
   }"

definition commitment_from_bytes ::
  "codec \<Rightarrow> 'p curve_backend \<Rightarrow> bytes \<Rightarrow> (scheme_error + 'p public_commitment) may_panic" where
  "commitment_from_bytes C B bs = parse_seq C bs
     (read_u64 (\<lambda>i. read_i32 (\<lambda>gc. case group_from_i32 gc of None \<Rightarrow> read_fail | Some g \<Rightarrow>
      read_octets (\<lambda>b. read_call (ge_from_bytes B b g None) (\<lambda>h.
      read_octets (\<lambda>b. read_call (ge_from_bytes B b g None) (\<lambda>bd.
      read_end \<lparr>pc_id = word_of_int i, pc_hiding = h, pc_binding = bd\<rparr>)))))))"

definition nonce_to_bytes :: "codec \<Rightarrow> nonce \<Rightarrow> scheme_error + bytes" where
  "nonce_to_bytes C nc = write_seq C [AGroup (sb_group (nonce_hiding nc)),
     AOctets (sb_to_bytes (nonce_hiding nc)), AOctets (sb_to_bytes (nonce_binding nc))]"

definition nonce_from_bytes :: "codec \<Rightarrow> bytes \<Rightarrow> (scheme_error + nonce) may_panic" where
  "nonce_from_bytes C bs = parse_seq C bs
     (read_i32 (\<lambda>gc. case group_from_i32 gc of None \<Rightarrow> read_fail | Some g \<Rightarrow>
      read_octets (\<lambda>b. read_call (sb_from_bytes g b) (\<lambda>h.
      read_octets (\<lambda>b. read_call (sb_from_bytes g b) (\<lambda>bd.
      read_end \<lparr>nonce_hiding = h, nonce_binding = bd\<rparr>))))))"

definition frost_share_to_bytes :: "codec \<Rightarrow> frost_signature_share \<Rightarrow> scheme_error + bytes" where
  "frost_share_to_bytes C sh = write_seq C [AU16 (frostsh_id sh), AGroup (sb_group (frostsh_data sh)),
     AOctets (sb_to_bytes (frostsh_data sh))]"

definition frost_share_from_bytes ::
  "codec \<Rightarrow> bytes \<Rightarrow> (scheme_error + frost_signature_share) may_panic" where
  "frost_share_from_bytes C bs = parse_seq C bs
     (read_u64 (\<lambda>i. read_i32 (\<lambda>gc. case group_from_i32 gc of None \<Rightarrow> read_fail | Some g \<Rightarrow>
      read_octets (\<lambda>b. read_call (sb_from_bytes g b) (\<lambda>d.
      read_end \<lparr>frostsh_id = word_of_int i, frostsh_data = d\<rparr>)))))"

definition frost_sig_to_bytes ::
  "codec \<Rightarrow> 'p curve_backend \<Rightarrow> 'p frost_signature \<Rightarrow> (scheme_error + bytes) may_panic" where
  "frost_sig_to_bytes C B s = do {
     rb \<leftarrow> ge_to_bytes B (frostsig_R s);
     Some (write_seq C [AGroup (ge_group (frostsig_R s)), AOctets rb,
       AOctets (sb_to_bytes (frostsig_z s))])
   }"

definition frost_sig_from_bytes ::
  "codec \<Rightarrow> 'p curve_backend \<Rightarrow> bytes \<Rightarrow> (scheme_error + 'p frost_signature) may_panic" where
  "frost_sig_from_bytes C B bs = parse_seq C bs
     (read_i32 (\<lambda>gc. case group_from_i32 gc of None \<Rightarrow> read_fail | Some g \<Rightarrow>
      read_octets (\<lambda>b. read_call (ge_from_bytes B b g None) (\<lambda>r.
      read_octets (\<lambda>b. read_call (sb_from_bytes g b) (\<lambda>z.
      read_end \<lparr>frostsig_R = r, frostsig_z = z\<rparr>))))))"

subsection \<open>Hash functions\<close>

definition ascii :: "string \<Rightarrow> bytes" where
  "ascii s = map (\<lambda>c. of_nat (of_char c)) s"

definition get_context_string :: "group \<Rightarrow> scheme_error + bytes" where
  "get_context_string g =
     (case g of Ed25519 \<Rightarrow> Ok (ascii ''FROST-ED25519-SHA512-v1'') | _ \<Rightarrow> Err IncompatibleGroup)"

definition frost_h1 :: "'p curve_backend \<Rightarrow> bytes \<Rightarrow> group \<Rightarrow> sized_big_int may_panic" where
  "frost_h1 B bs g = do {
     ctx \<leftarrow> unwrap (get_context_string g);
     h \<leftarrow> hash512 (ctx @ ascii ''rho'' @ bs);
     res \<leftarrow> sb_from_bytes g h;
     q \<leftarrow> group_get_order B g;
     sb_rmod res q
   }"

definition frost_h2 :: "'p curve_backend \<Rightarrow> bytes \<Rightarrow> group \<Rightarrow> sized_big_int may_panic" where
  "frost_h2 B bs g = do {
     h \<leftarrow> hash512 bs;
     res \<leftarrow> sb_from_bytes g h;
     q \<leftarrow> group_get_order B g;
     sb_rmod res q
   }"

definition ED25519_ORDER :: int where
  "ED25519_ORDER = 0x1000000000000000000000000000000014DEF9DEA2F79CD65812631A5CF5D3ED"

definition frost_h3 :: "bytes \<Rightarrow> group \<Rightarrow> sized_big_int may_panic" where
  "frost_h3 bs g = do {
     ctx \<leftarrow> unwrap (get_context_string g);
     h \<leftarrow> hash512 (ctx @ ascii ''nonce'' @ bs);
     sb_from_bytes g (be_bytes 32 (be_value h mod ED25519_ORDER))
   }"

definition frost_h4 :: "bytes \<Rightarrow> group \<Rightarrow> bytes may_panic" where
  "frost_h4 bs g = do {
     ctx \<leftarrow> unwrap (get_context_string g);
     hash512 (ctx @ ascii ''msg'' @ bs)
   }"

definition frost_h5 :: "bytes \<Rightarrow> group \<Rightarrow> bytes may_panic" where
  "frost_h5 bs g = do {
     ctx \<leftarrow> unwrap (get_context_string g);
     hash512 (ctx @ ascii ''com'' @ bs)
   }"

definition serialize_scalar :: "sized_big_int \<Rightarrow> bytes" where
  "serialize_scalar s =
     (let bs = rev (sb_to_bytes s); i = length bs - 1 in bs[i := bs ! i AND 0x1f])"

definition deserialize_scalar :: "group \<Rightarrow> bytes \<Rightarrow> sized_big_int may_panic" where
  "deserialize_scalar g bs = sb_from_bytes g (rev bs)"

definition nonce_generate :: "sized_big_int \<Rightarrow> bytes \<Rightarrow> sized_big_int may_panic" where
  "nonce_generate secret random_bytes =
     frost_h3 (random_bytes @ serialize_scalar secret) (sb_group secret)"

definition encode_uint16 :: "u16 \<Rightarrow> bytes" where
  "encode_uint16 v = be_bytes 2 (uint v)"

subsection \<open>Keys and the signature scheme\<close>

definition frost_generate_keys ::
  "codec \<Rightarrow> 'p curve_backend \<Rightarrow> nat \<Rightarrow> nat \<Rightarrow> group \<Rightarrow> int \<Rightarrow> (nat \<Rightarrow> int) \<Rightarrow>
   (scheme_error + 'p frost_private_key list) may_panic" where
  "frost_generate_keys C B k n g x rnd = do {
     y \<leftarrow> ge_new_pow_big B g (SBI g x);
     keys \<leftarrow> dl_make_keys C B k n g x rnd y;
     Some (Ok keys)
   }"

definition encode_group_commitment_list ::
  "'p curve_backend \<Rightarrow> 'p public_commitment list \<Rightarrow> bytes may_panic" where
  "encode_group_commitment_list B cl = do {
     es \<leftarrow> mapM (\<lambda>c. do {
       hb \<leftarrow> ge_to_bytes B (pc_hiding c);
       bb \<leftarrow> ge_to_bytes B (pc_binding c);
       Some (encode_uint16 (pc_id c) @ hb @ bb) }) cl;
     Some (concat es)
   }"

definition sort_commitments :: "'p public_commitment list \<Rightarrow> 'p public_commitment list" where
  "sort_commitments cl = sort_key (\<lambda>c. unat (pc_id c)) cl"

definition compute_binding_factors ::
  "'p curve_backend \<Rightarrow> 'p frost_public_key \<Rightarrow> 'p public_commitment list \<Rightarrow> bytes \<Rightarrow> group \<Rightarrow>
   ('p public_commitment list \<times> binding_factor list) may_panic" where
  "compute_binding_factors B pk cl0 msg g = do {
     pubkey_enc \<leftarrow> ge_to_bytes B (dlpk_y pk);
     msg_hash \<leftarrow> frost_h4 msg g;
     let cl = sort_commitments cl0;
     enc \<leftarrow> encode_group_commitment_list B cl;
     enc_hash \<leftarrow> frost_h5 enc g;
     bfs \<leftarrow> mapM (\<lambda>c. do {
       f \<leftarrow> frost_h1 B ((pubkey_enc @ msg_hash @ enc_hash) @ encode_uint16 (pc_id c)) g;
       Some \<lparr>bf_id = pc_id c, bf_factor = f\<rparr> }) cl;
     Some (cl, bfs)
   }"

definition binding_factor_for_participant ::
  "binding_factor list \<Rightarrow> u16 \<Rightarrow> scheme_error + binding_factor" where
  "binding_factor_for_participant bfs i =
     (case find (\<lambda>f. i = bf_id f) bfs of Some f \<Rightarrow> Ok f | None \<Rightarrow> Err IdNotFound)"

definition commitment_for_participant ::
  "'p public_commitment list \<Rightarrow> u16 \<Rightarrow> scheme_error + 'p public_commitment" where
  "commitment_for_participant cl i =
     (case find (\<lambda>c. i = pc_id c) cl of Some c \<Rightarrow> Ok c | None \<Rightarrow> Err IdNotFound)"

fun group_commitment_loop ::
  "'p curve_backend \<Rightarrow> binding_factor list \<Rightarrow> 'p group_element \<Rightarrow> 'p public_commitment list \<Rightarrow>
   (scheme_error + 'p group_element) may_panic" where
  "group_commitment_loop B bfs gc [] = Some (Ok gc)"
| "group_commitment_loop B bfs gc (c # cs) =
     (case binding_factor_for_participant bfs (pc_id c) of
        Inl _ \<Rightarrow> Some (Err IdNotFound)
      | Inr f \<Rightarrow> do {
          bc \<leftarrow> ge_pow B (pc_binding c) (bf_factor f);
          g1 \<leftarrow> ge_mul B gc (pc_hiding c);
          g2 \<leftarrow> ge_mul B g1 bc;
          group_commitment_loop B bfs g2 cs
        })"

definition compute_group_commitment ::
  "'p curve_backend \<Rightarrow> 'p public_commitment list \<Rightarrow> binding_factor list \<Rightarrow> group \<Rightarrow>
   (scheme_error + 'p group_element) may_panic" where
  "compute_group_commitment B cl bfs g = do {
     gc \<leftarrow> ge_identity B g;
     group_commitment_loop B bfs gc cl
   }"

definition compute_challenge ::
  "'p curve_backend \<Rightarrow> 'p group_element \<Rightarrow> 'p frost_public_key \<Rightarrow> bytes \<Rightarrow>
   sized_big_int may_panic" where
  "compute_challenge B gc pk msg = do {
     gb \<leftarrow> ge_to_bytes B gc;
     yb \<leftarrow> ge_to_bytes B (dlpk_y pk);
     frost_h2 B (gb @ yb @ msg) (dlpk_group pk)
   }"

definition get_group_commitment ::
  "'p curve_backend \<Rightarrow> 'p public_commitment list \<Rightarrow> bytes \<Rightarrow> 'p frost_private_key \<Rightarrow>
   ('p public_commitment list \<times> (scheme_error + 'p group_element)) may_panic" where
  "get_group_commitment B cl0 msg key = do {
     (cl, bfs) \<leftarrow> compute_binding_factors B (dlsk_pubkey key) cl0 msg (dlpk_group (dlsk_pubkey key));
     r \<leftarrow> compute_group_commitment B cl bfs (dlpk_group (dlsk_pubkey key));
     Some (cl, r)
   }"

definition frost_partial_sign ::
  "'p curve_backend \<Rightarrow> nonce \<Rightarrow> 'p public_commitment list \<Rightarrow> bytes \<Rightarrow> 'p frost_private_key \<Rightarrow> u16 \<Rightarrow>
   ('p public_commitment list \<times> (scheme_error + (frost_signature_share \<times> 'p group_element))) may_panic"
where
  "frost_partial_sign B nc cl0 msg key node_id = do {
     let g = sb_group (nonce_binding nc);
     order \<leftarrow> group_get_order B g;
     (cl, bfs) \<leftarrow> compute_binding_factors B (dlsk_pubkey key) cl0 msg g;
     case binding_factor_for_participant bfs node_id of
       Inl e \<Rightarrow> Some (cl, Err e)
     | Inr bf \<Rightarrow> do {
         r \<leftarrow> compute_group_commitment B cl bfs g;
         case r of
           Inl e \<Rightarrow> Some (cl, Err e)
         | Inr gc \<Rightarrow> do {
             lambda_i \<leftarrow> lagrange_coeff B g (map pc_id cl) (uint node_id);
             challenge \<leftarrow> compute_challenge B gc (dlsk_pubkey key) msg;
             br \<leftarrow> sb_mul_mod (nonce_binding nc) (bf_factor bf) order;
             s1 \<leftarrow> sb_add (nonce_hiding nc) br;
             s2 \<leftarrow> sb_rmod s1 order;
             lx \<leftarrow> sb_mul_mod lambda_i (dlsk_xi key) order;
             lxc \<leftarrow> sb_mul_mod lx challenge order;
             s3 \<leftarrow> sb_add s2 lxc;
             share \<leftarrow> sb_rmod s3 order;
             Some (cl, Ok (\<lparr>frostsh_id = node_id, frostsh_data = share\<rparr>, gc))
           }
       }
   }"

definition frost_commit ::
  "'p curve_backend \<Rightarrow> 'p frost_private_key \<Rightarrow> bytes \<Rightarrow> bytes \<Rightarrow>
   ('p public_commitment \<times> nonce) may_panic" where
  "frost_commit B key rb1 rb2 = do {
     hn \<leftarrow> nonce_generate (dlsk_xi key) rb1;
     bn \<leftarrow> nonce_generate (dlsk_xi key) rb2;
     hc \<leftarrow> ge_new_pow_big B (dlpk_group (dlsk_pubkey key)) hn;
     bc \<leftarrow> ge_new_pow_big B (dlpk_group (dlsk_pubkey key)) bn;
     Some (\<lparr>pc_id = dlsk_id key, pc_hiding = hc, pc_binding = bc\<rparr>,
           \<lparr>nonce_hiding = hn, nonce_binding = bn\<rparr>)
   }"

definition frost_assemble ::
  "'p curve_backend \<Rightarrow> 'p group_element \<Rightarrow> 'p frost_private_key \<Rightarrow> frost_signature_share list \<Rightarrow>
   'p frost_signature may_panic" where
  "frost_assemble B gc key shares = do {
     z0 \<leftarrow> sb_new_int (dlpk_group (dlsk_pubkey key)) 0;
     z \<leftarrow> foldM (\<lambda>z i. do {
       sh \<leftarrow> index shares i;
       q \<leftarrow> group_get_order B (sb_group (frostsh_data sh));
       z1 \<leftarrow> sb_add z (frostsh_data sh);
       sb_rmod z1 q }) z0 [0..<unat (dlpk_k (dlsk_pubkey key))];
     Some \<lparr>frostsig_R = gc, frostsig_z = z\<rparr>
   }"

definition frost_verify_share ::
  "'p curve_backend \<Rightarrow> frost_signature_share \<Rightarrow> 'p frost_public_key \<Rightarrow> bytes \<Rightarrow>
   'p public_commitment list \<Rightarrow> ('p public_commitment list \<times> (scheme_error + bool)) may_panic" where
  "frost_verify_share B sh pk msg cl0 =
     (case commitment_for_participant cl0 (frostsh_id sh) of
        Inl e \<Rightarrow> Some (cl0, Err e)
      | Inr sc \<Rightarrow> do {
          (cl, bfs) \<leftarrow> compute_binding_factors B pk cl0 msg (dlpk_group pk);
          case binding_factor_for_participant bfs (frostsh_id sh) of
            Inl e \<Rightarrow> Some (cl, Err e)
          | Inr bf \<Rightarrow> do {
              r \<leftarrow> compute_group_commitment B cl bfs (dlpk_group pk);
              case r of
                Inl e \<Rightarrow> Some (cl, Err e)
              | Inr gc \<Rightarrow> do {
                  bp \<leftarrow> ge_pow B (pc_binding sc) (bf_factor bf);
                  rci \<leftarrow> ge_mul B (pc_hiding sc) bp;
                  challenge \<leftarrow> compute_challenge B gc pk msg;
                  lambda_i \<leftarrow> lagrange_coeff B (dlpk_group pk) (map pc_id cl) (uint (frostsh_id sh));
                  l \<leftarrow> ge_new_pow_big B (dlpk_group pk) (frostsh_data sh);
                  order \<leftarrow> group_get_order B (dlpk_group pk);
                  lc \<leftarrow> sb_mul_mod lambda_i challenge order;
                  vk \<leftarrow> index_by_id (dlpk_verification_key pk) (frostsh_id sh);
                  vkl \<leftarrow> ge_pow B vk lc;
                  rr \<leftarrow> ge_mul B rci vkl;
                  Some (cl, Ok (ge_equals B l rr))
                }
            }
        })"

definition frost_verify ::
  "'p curve_backend \<Rightarrow> 'p frost_signature \<Rightarrow> 'p frost_public_key \<Rightarrow> bytes \<Rightarrow> bool may_panic" where
  "frost_verify B sig pk msg = do {
     challenge \<leftarrow> compute_challenge B (frostsig_R sig) pk msg;
     l \<leftarrow> ge_new_pow_big B (dlpk_group pk) (frostsig_z sig);
     yc \<leftarrow> ge_pow B (dlpk_y pk) challenge;
     r \<leftarrow> ge_mul B (frostsig_R sig) yc;
     Some (ge_equals B l r)
   }"

subsection \<open>Facts in the exponent\<close>

lemma get_context_string_Ed25519 [simp]:
  "get_context_string Ed25519 = Ok (ascii ''FROST-ED25519-SHA512-v1'')"
  by (simp add: get_context_string_def)

lemma sb_from_sha5: "is_dl g \<Longrightarrow> \<exists>e\<ge>0. sb_from_bytes g (sha5 b) = Some (SBI g e)"
  by (cases g) (auto simp: sb_from_bytes_def be_value_nonneg)

lemma frost_h1_total:
  assumes "curve_ok B Ed25519 0"
  shows "\<exists>e\<ge>0. frost_h1 B bs Ed25519 = Some (SBI Ed25519 e)"
proof -
  obtain e where "0 \<le> e" "sb_from_bytes Ed25519 (sha5 (ascii ''FROST-ED25519-SHA512-v1'' @ ascii ''rho'' @ bs))
      = Some (SBI Ed25519 e)"
    using sb_from_sha5 [of Ed25519] by auto
  then show ?thesis using curve_ok_pos [OF assms]
    by (simp add: frost_h1_def group_get_order_def sb_rmod_def)
qed

lemma frost_h2_total:
  assumes "curve_ok B g 0"
  shows "\<exists>e\<ge>0. frost_h2 B bs g = Some (SBI g e)"
proof -
  obtain e where "0 \<le> e" "sb_from_bytes g (sha5 bs) = Some (SBI g e)"
    using sb_from_sha5 curve_ok_dl [OF assms] by blast
  then show ?thesis using curve_ok_dl [OF assms] curve_ok_pos [OF assms]
    by (simp add: frost_h2_def group_get_order_def sb_rmod_def)
qed

lemma frost_h3_total: "\<exists>e\<ge>0. frost_h3 bs Ed25519 = Some (SBI Ed25519 e)"
  by (simp add: frost_h3_def sb_from_bytes_def be_value_nonneg)

definition comm ::
  "'p curve_backend \<Rightarrow> group \<Rightarrow> (u16 \<Rightarrow> int) \<Rightarrow> (u16 \<Rightarrow> int) \<Rightarrow> u16 \<Rightarrow> 'p public_commitment" where
  "comm B g d e i = \<lparr>pc_id = i, pc_hiding = gpow B g 0 (d i), pc_binding = gpow B g 0 (e i)\<rparr>"

lemma comm_sel [simp]: "pc_id (comm B g d e i) = i" "pc_hiding (comm B g d e i) = gpow B g 0 (d i)"
  "pc_binding (comm B g d e i) = gpow B g 0 (e i)"
  by (simp_all add: comm_def)

lemma insort_key_map: "insort_key k (h x) (map h xs) = map h (insort_key (\<lambda>x. k (h x)) x xs)"
  by (induction xs) simp_all

lemma sort_commitments_comm:
  "sort_commitments (map (comm B g d e) ids) = map (comm B g d e) (sort_key unat ids)"
  unfolding sort_commitments_def
  by (induction ids) (simp_all add: insort_key_map)

lemma find_map_id:
  "i \<in> set ids \<Longrightarrow> (\<And>x. sel (h x) = x) \<Longrightarrow> find (\<lambda>f. i = sel f) (map h ids) = Some (h i)"
  by (induction ids) auto

text \<open>All the parties compute the same factors from the same commitments.\<close>

lemma compute_binding_factors_comm:
  assumes "curve_ok B Ed25519 0" "dlpk_y pk = gpow B Ed25519 0 a"
  shows "\<exists>\<rho>. (\<forall>i. 0 \<le> \<rho> i) \<and> compute_binding_factors B pk (map (comm B Ed25519 d e) ids) msg Ed25519
    = Some (map (comm B Ed25519 d e) (sort_key unat ids),
            map (\<lambda>i. \<lparr>bf_id = i, bf_factor = SBI Ed25519 (\<rho> i)\<rparr>) (sort_key unat ids))"
proof -
  let ?cl = "map (comm B Ed25519 d e) (sort_key unat ids)"
  have "mapM (\<lambda>c. do { hb \<leftarrow> ge_to_bytes B (pc_hiding c); bb \<leftarrow> ge_to_bytes B (pc_binding c);
        Some (encode_uint16 (pc_id c) @ hb @ bb) }) ?cl
      = Some (map (\<lambda>c. encode_uint16 (pc_id c) @ cb_tobytes B Ed25519 0 (ge_val (pc_hiding c))
          @ cb_tobytes B Ed25519 0 (ge_val (pc_binding c))) ?cl)"
    using assms(1) by (intro mapM_Some) (auto simp: ge_simps)
  then obtain enc where enc: "encode_group_commitment_list B ?cl = Some enc"
    by (simp add: encode_group_commitment_list_def)
  obtain h4 h5 where h: "frost_h4 msg Ed25519 = Some h4" "frost_h5 enc Ed25519 = Some h5"
    by (simp add: frost_h4_def frost_h5_def)
  let ?in = "\<lambda>i. (cb_tobytes B Ed25519 0 (ge_val (gpow B Ed25519 0 a)) @ h4 @ h5) @ encode_uint16 i"
  define \<rho> where "\<rho> i = sb_val (the (frost_h1 B (?in i) Ed25519))" for i
  have \<rho>: "frost_h1 B (?in i) Ed25519 = Some (SBI Ed25519 (\<rho> i)) \<and> 0 \<le> \<rho> i" for i
    using frost_h1_total [OF assms(1), of "?in i"] by (auto simp: \<rho>_def)
  have "mapM (\<lambda>c. do { f \<leftarrow> frost_h1 B (?in (pc_id c)) Ed25519; Some \<lparr>bf_id = pc_id c, bf_factor = f\<rparr> }) ?cl
      = Some (map (\<lambda>c. \<lparr>bf_id = pc_id c, bf_factor = SBI Ed25519 (\<rho> (pc_id c))\<rparr>) ?cl)"
    using \<rho> by (intro mapM_Some) simp
  then show ?thesis using assms enc h \<rho>
    by (intro exI [of _ \<rho>])
      (simp add: compute_binding_factors_def sort_commitments_comm ge_simps comp_def)
qed

lemma group_commitment_loop_comm:
  assumes "curve_ok B g 0" "\<forall>i. 0 \<le> \<rho> i" "set is \<subseteq> set ids"
  shows "group_commitment_loop B (map (\<lambda>i. \<lparr>bf_id = i, bf_factor = SBI g (\<rho> i)\<rparr>) ids) (gpow B g 0 r)
      (map (comm B g d e) is) = Some (Ok (gpow B g 0 (r + (\<Sum>i\<leftarrow>is. d i + e i * \<rho> i))))"
  using assms(3)
proof (induction "is" arbitrary: r)
  case (Cons i js)
  then show ?case using assms(1,2)
    by (simp add: binding_factor_for_participant_def find_map_id ge_simps algebra_simps)
qed simp

lemma compute_group_commitment_comm:
  assumes "curve_ok B g 0" "\<forall>i. 0 \<le> \<rho> i"
  shows "compute_group_commitment B (map (comm B g d e) ids)
      (map (\<lambda>i. \<lparr>bf_id = i, bf_factor = SBI g (\<rho> i)\<rparr>) ids) g
    = Some (Ok (gpow B g 0 (\<Sum>i\<leftarrow>ids. d i + e i * \<rho> i)))"
  using assms group_commitment_loop_comm [OF assms subset_refl, of ids 0 d e]
  by (simp add: compute_group_commitment_def ge_simps)

lemma compute_challenge_total:
  assumes "curve_ok B g 0" "dlpk_group pk = g" "dlpk_y pk = gpow B g 0 a"
  shows "\<exists>c\<ge>0. compute_challenge B (gpow B g 0 r) pk msg = Some (SBI g c)"
  using assms frost_h2_total [OF assms(1)] by (simp add: compute_challenge_def ge_simps)

lemma frost_generate_keys_ok:
  assumes "curve_ok B g 0" "codec_ok C" "0 < k"
    "draws_ok (cb_order B g) rnd" "0 \<le> x" "x < cb_order B g"
  shows "\<exists>pk. frost_generate_keys C B k n g x rnd
      = Some (Ok (map (party_key B (shamir_poly x k rnd) pk) [0..<n]))
    \<and> dl_key_ok B g 0 (shamir_poly x k rnd) n pk \<and> dlpk_k pk = of_nat k"
  using dl_make_keys_ok [OF assms(1,1,2-6), of n] assms(1,5)
  by (auto simp: frost_generate_keys_def ge_simps)

lemma frost_commit_ok:
  assumes "curve_ok B Ed25519 0" "dl_key_ok B Ed25519 0 f n pk"
  shows "\<exists>d e. 0 \<le> d \<and> 0 \<le> e \<and> frost_commit B (party_key B f pk j) rb1 rb2
    = Some (\<lparr>pc_id = of_nat (j + 1), pc_hiding = gpow B Ed25519 0 d, pc_binding = gpow B Ed25519 0 e\<rparr>,
            \<lparr>nonce_hiding = SBI Ed25519 d, nonce_binding = SBI Ed25519 e\<rparr>)"
proof -
  let ?s = "serialize_scalar (dlsk_xi (party_key B f pk j))"
  obtain d e where "0 \<le> d" "frost_h3 (rb1 @ ?s) Ed25519 = Some (SBI Ed25519 d)"
      "0 \<le> e" "frost_h3 (rb2 @ ?s) Ed25519 = Some (SBI Ed25519 e)"
    using frost_h3_total by metis
  then show ?thesis using assms
    by (intro exI [of _ d] exI [of _ e])
      (simp add: frost_commit_def nonce_generate_def dl_key_ok_def ge_simps)
qed

subsection \<open>Signing and verification in the exponent\<close>

text \<open>The exponent of the share of participant \<open>i\<close>, before reduction.\<close>

definition frost_z ::
  "int \<Rightarrow> (u16 \<Rightarrow> int) \<Rightarrow> (u16 \<Rightarrow> int) \<Rightarrow> (u16 \<Rightarrow> int) \<Rightarrow> (int \<Rightarrow> int) \<Rightarrow> u16 list \<Rightarrow> int \<Rightarrow> u16 \<Rightarrow> int" where
  "frost_z q d e \<rho> f sids c i
     = d i + e i * \<rho> i + lagrange_at_0 q (map uint sids) (uint i) * f (uint i) * c"

lemma frost_z_mod:
  "((d + e * r mod q) mod q + (l mod q * (x mod q) mod q) * c mod q) mod q
   = (d + e * r + l * x * c) mod (q::int)"
proof -
  have "(l mod q * (x mod q) mod q) * c mod q = l * x * c mod q"
    by (metis mod_mult_eq mod_mult_left_eq)
  then show ?thesis by (metis mod_add_cong mod_add_eq mod_add_right_eq mod_mod_trivial)
qed

lemma frost_partial_sign_eq:
  assumes ok: "curve_ok B Ed25519 0" "dl_key_ok B Ed25519 0 f n pk" "n \<le> 65535" "j < n"
    and i: "i = of_nat (j + 1)" "i \<in> set ids"
    and \<rho>: "\<forall>i. 0 \<le> \<rho> i"
    and bf: "compute_binding_factors B pk (map (comm B Ed25519 d e) ids) msg Ed25519
      = Some (map (comm B Ed25519 d e) sids, map (\<lambda>i. \<lparr>bf_id = i, bf_factor = SBI Ed25519 (\<rho> i)\<rparr>) sids)"
    and s: "set sids = set ids"
    and c: "compute_challenge B (gpow B Ed25519 0 (\<Sum>i\<leftarrow>sids. d i + e i * \<rho> i)) pk msg = Some (SBI Ed25519 c)"
  shows "frost_partial_sign B \<lparr>nonce_hiding = SBI Ed25519 (d i), nonce_binding = SBI Ed25519 (e i)\<rparr>
      (map (comm B Ed25519 d e) ids) msg (party_key B f pk j) i
    = Some (map (comm B Ed25519 d e) sids,
        Ok (\<lparr>frostsh_id = i,
             frostsh_data = SBI Ed25519 (frost_z (cb_order B Ed25519) d e \<rho> f sids c i mod cb_order B Ed25519)\<rparr>,
            gpow B Ed25519 0 (\<Sum>i\<leftarrow>sids. d i + e i * \<rho> i)))"
proof -
  have "uint i = int j + 1" using uint_share_id(1) [OF ok(4,3)] i(1) by simp
  then show ?thesis
    using ok(1,2) i s bf c compute_group_commitment_comm [OF ok(1) \<rho>] curve_ok_pos [OF ok(1)]
    by (simp add: frost_partial_sign_def binding_factor_for_participant_def find_map_id
        group_get_order_def lagrange_coeff_SBI sb_defs frost_z_mod frost_z_def dl_key_ok_def comp_def)
qed

lemma frost_verify_share_eq:
  assumes ok: "curve_ok B Ed25519 0" "dl_key_ok B Ed25519 0 f n pk"
    and i: "0 < uint i" "uint i \<le> int n" "i \<in> set ids"
    and \<rho>: "\<forall>i. 0 \<le> \<rho> i"
    and bf: "compute_binding_factors B pk (map (comm B Ed25519 d e) ids) msg Ed25519
      = Some (map (comm B Ed25519 d e) sids, map (\<lambda>i. \<lparr>bf_id = i, bf_factor = SBI Ed25519 (\<rho> i)\<rparr>) sids)"
    and s: "set sids = set ids"
    and c: "compute_challenge B (gpow B Ed25519 0 (\<Sum>i\<leftarrow>sids. d i + e i * \<rho> i)) pk msg = Some (SBI Ed25519 c)"
    and z: "0 \<le> z"
  shows "frost_verify_share B \<lparr>frostsh_id = i, frostsh_data = SBI Ed25519 z\<rparr> pk msg (map (comm B Ed25519 d e) ids)
    = Some (map (comm B Ed25519 d e) sids,
        Ok (z mod cb_order B Ed25519
            = frost_z (cb_order B Ed25519) d e \<rho> f sids c i mod cb_order B Ed25519))"
proof -
  let ?q = "cb_order B Ed25519"
  let ?L = "lagrange_at_0 ?q (map uint sids) (uint i)"
  have q0: "0 < ?q" using curve_ok_pos [OF ok(1)] .
  have "(f (uint i) * (?L mod ?q * c mod ?q)) mod ?q = (?L * f (uint i) * c) mod ?q"
    by (simp add: mod_mult_left_eq mod_mult_right_eq ac_simps)
  then have "(d i + e i * \<rho> i + f (uint i) * (?L mod ?q * c mod ?q)) mod ?q = frost_z ?q d e \<rho> f sids c i mod ?q"
    unfolding frost_z_def by (metis mod_add_right_eq)
  then show ?thesis
    using ok i s bf c \<rho> z q0 compute_group_commitment_comm [OF ok(1) \<rho>]
    by (simp add: frost_verify_share_def commitment_for_participant_def binding_factor_for_participant_def
        find_map_id dl_key_ok_def ge_simps index_vk_of group_get_order_def lagrange_coeff_SBI sb_defs
        comp_def gpow_eq_iff)
qed

lemma frost_assemble_eq:
  assumes "is_dl g" "dlpk_group (dlsk_pubkey key) = g" "m \<le> length zs"
  shows "foldM (\<lambda>z i. do { sh \<leftarrow> index (map (\<lambda>(i, z). \<lparr>frostsh_id = i, frostsh_data = SBI g z\<rparr>) zs) i;
       q \<leftarrow> group_get_order B (sb_group (frostsh_data sh)); z1 \<leftarrow> sb_add z (frostsh_data sh);
       sb_rmod z1 q }) (SBI g 0) [0..<m]
    = Some (SBI g ((if m = 0 then 0 else (\<Sum>z\<leftarrow>take m (map snd zs). z) mod cb_order B g)))"
  using assms(3)
proof (induction m)
  case (Suc m)
  have "take (Suc m) (map snd zs) = take m (map snd zs) @ [snd (zs ! m)]"
    using Suc.prems by (simp add: take_Suc_conv_app_nth)
  then show ?case using Suc assms(1)
    by (auto simp: foldM_append index_def group_get_order_def sb_defs mod_add_left_eq split_beta
        take_map)
qed simp

lemma sum_list_affine:
  fixes a l :: "'a \<Rightarrow> int"
  shows "(\<Sum>i\<leftarrow>xs. a i + l i * c) = (\<Sum>i\<leftarrow>xs. a i) + (\<Sum>i\<leftarrow>xs. l i) * c"
  by (induction xs) (simp_all add: algebra_simps)

lemma frost_z_sum:
  assumes "is_prime q" "distinct sids" "\<forall>i\<in>set sids. 0 < uint i \<and> uint i < q" "polyfun (length sids) f"
    "distinct ids" "set ids = set sids"
  shows "(\<Sum>i\<leftarrow>ids. frost_z q d e \<rho> f sids c i) mod q
    = ((\<Sum>i\<leftarrow>sids. d i + e i * \<rho> i) + f 0 * c) mod q"
proof -
  let ?L = "lagrange_at_0 q (map uint sids)"
  have inj: "inj_on uint (set sids)" by (auto simp: inj_on_def word_uint_eq_iff)
  have "(\<Sum>i\<leftarrow>map uint sids. ?L i * f i) mod q = f 0 mod q"
    using assms inj by (intro lagrange_interpolation [where n = "length sids"]) (auto simp: distinct_map)
  then have "(\<Sum>i\<leftarrow>sids. ?L (uint i) * f (uint i)) mod q = f 0 mod q" by (simp add: comp_def)
  then have c: "((\<Sum>i\<leftarrow>sids. ?L (uint i) * f (uint i)) * c) mod q = (f 0 * c) mod q"
    by (rule mod_mult_cong) simp
  have "(\<Sum>i\<leftarrow>ids. frost_z q d e \<rho> f sids c i) = (\<Sum>i\<leftarrow>sids. frost_z q d e \<rho> f sids c i)"
    using assms(2,5,6) by (simp add: sum_list_distinct_conv_sum_set)
  also have "\<dots>
      = (\<Sum>i\<leftarrow>sids. d i + e i * \<rho> i) + (\<Sum>i\<leftarrow>sids. ?L (uint i) * f (uint i)) * c"
    unfolding frost_z_def
    by (rule sum_list_affine [of "\<lambda>i. d i + e i * \<rho> i" "\<lambda>i. ?L (uint i) * f (uint i)" c sids])
  finally show ?thesis using mod_add_cong [OF refl c] by simp
qed

lemma frost_round_ok:
  assumes ok: "curve_ok B Ed25519 0" "dl_key_ok B Ed25519 0 f n pk" "polyfun k f"
    and kn: "0 < k" "unat (dlpk_k pk) = k" "n \<le> 65535" "int n < cb_order B Ed25519"
    and js: "distinct js" "\<forall>j\<in>set js. j < n" "length js = k"
    and ids: "ids = map (\<lambda>j. of_nat (j + 1)) js"
  shows "\<exists>cl' R shares sig. mapM (\<lambda>j. frost_partial_sign B
          \<lparr>nonce_hiding = SBI Ed25519 (d (of_nat (j + 1))), nonce_binding = SBI Ed25519 (e (of_nat (j + 1)))\<rparr>
          (map (comm B Ed25519 d e) ids) msg (party_key B f pk j) (of_nat (j + 1))) js
        = Some (map (\<lambda>sh. (cl', Ok (sh, R))) shares)
    \<and> (\<forall>sh\<in>set shares. frost_verify_share B sh pk msg (map (comm B Ed25519 d e) ids) = Some (cl', Ok True))
    \<and> frost_assemble B R (party_key B f pk j0) shares = Some sig
    \<and> frost_verify B sig pk msg = Some True"
proof -
  let ?g = "Ed25519" and ?q = "cb_order B Ed25519" and ?id = "\<lambda>j. of_nat (j + 1) :: u16"
  let ?sids = "sort_key unat ids" and ?cl = "map (comm B Ed25519 d e)"
  have q0: "0 < ?q" using curve_ok_pos [OF ok(1)] .
  have pkg: "dlpk_group pk = ?g" "dlpk_y pk = gpow B ?g 0 (f 0)" using ok(2) by (simp_all add: dl_key_ok_def)
  obtain \<rho> where \<rho>: "\<forall>i. 0 \<le> \<rho> i" and bf: "compute_binding_factors B pk (?cl ids) msg ?g
      = Some (?cl ?sids, map (\<lambda>i. \<lparr>bf_id = i, bf_factor = SBI ?g (\<rho> i)\<rparr>) ?sids)"
    using compute_binding_factors_comm [OF ok(1) pkg(2)] by blast
  let ?r = "\<Sum>i\<leftarrow>?sids. d i + e i * \<rho> i"
  obtain c where c0: "0 \<le> c" and c: "compute_challenge B (gpow B ?g 0 ?r) pk msg = Some (SBI ?g c)"
    using compute_challenge_total [OF ok(1) pkg] by blast
  define z where "z i = frost_z ?q d e \<rho> f ?sids c i mod ?q" for i
  let ?sh = "\<lambda>i. \<lparr>frostsh_id = i, frostsh_data = SBI ?g (z i)\<rparr>"
  have rng: "0 < uint i \<and> uint i \<le> int n" if "i \<in> set ids" for i
    using that uint_share_id(1) [OF _ kn(3)] js(2) by (fastforce simp: ids)
  have set: "set ?sids = set ids" by simp
  have "mapM (\<lambda>j. frost_partial_sign B \<lparr>nonce_hiding = SBI ?g (d (?id j)), nonce_binding = SBI ?g (e (?id j))\<rparr>
        (?cl ids) msg (party_key B f pk j) (?id j)) js
      = Some (map (\<lambda>j. (?cl ?sids, Ok (?sh (?id j), gpow B ?g 0 ?r))) js)"
    using js(2) unfolding z_def
    by (intro mapM_Some frost_partial_sign_eq [OF ok(1,2) kn(3) _ refl _ \<rho> bf set c]) (auto simp: ids)
  moreover have "\<forall>sh\<in>set (map ?sh ids). frost_verify_share B sh pk msg (?cl ids) = Some (?cl ?sids, Ok True)"
    using frost_verify_share_eq [OF ok(1,2) _ _ _ \<rho> bf set c] rng q0 by (auto simp: z_def)
  moreover have "frost_assemble B (gpow B ?g 0 ?r) (party_key B f pk j0) (map ?sh ids)
      = Some \<lparr>frostsig_R = gpow B ?g 0 ?r, frostsig_z = SBI ?g ((\<Sum>i\<leftarrow>ids. z i) mod ?q)\<rparr>"
    using frost_assemble_eq [of ?g "party_key B f pk j0" k "map (\<lambda>i. (i, z i)) ids" B] pkg kn(1,2) js(3)
    by (simp add: frost_assemble_def sb_new_int_def ids comp_def)
  moreover have "frost_verify B \<lparr>frostsig_R = gpow B ?g 0 ?r, frostsig_z = SBI ?g ((\<Sum>i\<leftarrow>ids. z i) mod ?q)\<rparr>
      pk msg = Some True"
  proof -
    have dist: "distinct ids" using distinct_share_ids [OF js(1,2) kn(3)] by (simp add: ids)
    have "(\<Sum>i\<leftarrow>ids. z i) mod ?q = (\<Sum>i\<leftarrow>ids. frost_z ?q d e \<rho> f ?sids c i) mod ?q"
      unfolding z_def by (rule sum_list_mod)
    also have "\<dots> = (?r + f 0 * c) mod ?q"
      using ok(3) js(3) rng kn(4) dist
      by (intro frost_z_sum [OF curve_ok_prime [OF ok(1)]]) (fastforce simp: ids)+
    finally have "gpow B ?g 0 ((\<Sum>i\<leftarrow>ids. z i) mod ?q) = gpow B ?g 0 (?r + f 0 * c)"
      by (intro gpow_cong) simp
    then show ?thesis using ok(1) pkg c c0 q0 by (simp add: frost_verify_def ge_simps)
  qed
  ultimately show ?thesis
    by (intro exI [of _ "?cl ?sids"] exI [of _ "gpow B ?g 0 ?r"] exI [of _ "map ?sh ids"] exI conjI)
      (simp add: ids comp_def, assumption, assumption, assumption)
qed

lemma mapM_zip_map: "mapM f (zip js (map h js)) = mapM (\<lambda>j. f (j, h j)) js"
  by (induction js) simp_all

subsection \<open>Properties\<close>

text \<open>
  C8.  FROST signing is correct.  Let the parties \<open>js\<close>, exactly \<open>k\<close> of them and no two the
  same, commit with any random bytes, and let each sign a message with its own nonce against the
  list of all the commitments.  Then every call returns; every share is accepted by
  \<open>verify_share\<close>; all the parties compute the same group commitment; and \<open>assemble\<close> makes of
  the shares a signature that \<open>verify\<close> accepts under the public key.
\<close>

theorem frost_signing_correct:
  assumes ok: "curve_ok B Ed25519 0" "codec_ok C"
    and kn: "0 < k" "n \<le> 65535" "int n < cb_order B Ed25519"
    and draws: "draws_ok (cb_order B Ed25519) rnd" "0 \<le> x" "x < cb_order B Ed25519"
    and keys: "frost_generate_keys C B k n Ed25519 x rnd = Some (Ok keys)"
    and js: "distinct js" "\<forall>j\<in>set js. j < n" "length js = k"
  shows "\<exists>cns cl' R shares sig. mapM (\<lambda>j. frost_commit B (keys ! j) (rb1 j) (rb2 j)) js = Some cns
    \<and> mapM (\<lambda>(j, cn). frost_partial_sign B (snd cn) (map fst cns) msg (keys ! j) (of_nat (j + 1))) (zip js cns)
        = Some (map (\<lambda>sh. (cl', Ok (sh, R))) shares)
    \<and> (\<forall>sh\<in>set shares. frost_verify_share B sh (dlsk_pubkey (keys ! 0)) msg (map fst cns) = Some (cl', Ok True))
    \<and> frost_assemble B R (keys ! 0) shares = Some sig
    \<and> frost_verify B sig (dlsk_pubkey (keys ! 0)) msg = Some True"
proof -
  let ?g = "Ed25519" and ?q = "cb_order B Ed25519" and ?f = "shamir_poly x k rnd"
  let ?id = "\<lambda>j. of_nat (j + 1) :: u16"
  obtain pk where pk: "dl_key_ok B ?g 0 ?f n pk" and pkk: "dlpk_k pk = of_nat k"
    and ks: "keys = map (party_key B ?f pk) [0..<n]"
    using frost_generate_keys_ok [OF ok kn(1) draws, of n] keys by auto
  have k: "keys ! j = party_key B ?f pk j" if "j < n" for j using that by (simp add: ks)
  have "js \<noteq> []" using js(3) kn(1) by auto
  then have n0: "0 < n" using js(2) by (cases js) auto
  have kle: "k \<le> n"
    using js card_mono [of "{..<n}" "set js"] distinct_card [OF js(1)] by auto
  have uk: "unat (dlpk_k pk) = k" using kle kn(2) by (simp add: pkk unat_of_nat)
  have cm: "\<exists>d e. 0 \<le> d \<and> 0 \<le> e \<and> frost_commit B (party_key B ?f pk j) (rb1 j) (rb2 j)
      = Some (\<lparr>pc_id = ?id j, pc_hiding = gpow B ?g 0 d, pc_binding = gpow B ?g 0 e\<rparr>,
              \<lparr>nonce_hiding = SBI ?g d, nonce_binding = SBI ?g e\<rparr>)" for j
    using frost_commit_ok [OF ok(1) pk] by blast
  then obtain D E where DE: "\<And>j. 0 \<le> D j \<and> 0 \<le> E j \<and> frost_commit B (party_key B ?f pk j) (rb1 j) (rb2 j)
      = Some (\<lparr>pc_id = ?id j, pc_hiding = gpow B ?g 0 (D j), pc_binding = gpow B ?g 0 (E j)\<rparr>,
              \<lparr>nonce_hiding = SBI ?g (D j), nonce_binding = SBI ?g (E j)\<rparr>)" by metis
  define d where "d i = D (unat i - 1)" for i :: u16
  define e where "e i = E (unat i - 1)" for i :: u16
  have u: "d (?id j) = D j" "e (?id j) = E j" if "j < n" for j
    using that kn(2) by (simp_all only: d_def e_def unat_of_nat) simp_all
  let ?cns = "map (\<lambda>j. (comm B ?g d e (?id j), \<lparr>nonce_hiding = SBI ?g (d (?id j)), nonce_binding = SBI ?g (e (?id j))\<rparr>)) js"
  have "mapM (\<lambda>j. frost_commit B (keys ! j) (rb1 j) (rb2 j)) js = Some ?cns"
    using DE k u js(2) by (intro mapM_Some) (simp add: comm_def)
  moreover have "map fst ?cns = map (comm B ?g d e) (map ?id js)" by simp
  moreover have "mapM (\<lambda>(j, cn). frost_partial_sign B (snd cn) cl msg (keys ! j) (?id j)) (zip js ?cns)
      = mapM (\<lambda>j. frost_partial_sign B \<lparr>nonce_hiding = SBI ?g (d (?id j)), nonce_binding = SBI ?g (e (?id j))\<rparr>
          cl msg (party_key B ?f pk j) (?id j)) js" for cl
    using k js(2) by (subst mapM_zip_map) (auto intro!: mapM_cong)
  ultimately show ?thesis
    using frost_round_ok [OF ok(1) pk polyfun_shamir [OF kn(1)] kn(1) uk kn(2,3) js refl, of d e msg 0] k [OF n0]
    by (simp add: comp_def)
qed

theorem frost_signing_correct_witness:
  "\<exists>keys cns R shares sig cl'.
     frost_generate_keys unary_codec z11_backend 2 3 Ed25519 5 (\<lambda>i. 3) = Some (Ok keys)
   \<and> mapM (\<lambda>j. frost_commit z11_backend (keys ! j) [1] [2]) [2, 0] = Some cns
   \<and> mapM (\<lambda>(j, cn). frost_partial_sign z11_backend (snd cn) (map fst cns) [9] (keys ! j) (of_nat (j + 1)))
       (zip [2, 0] cns) = Some (map (\<lambda>sh. (cl', Ok (sh, R))) shares)
   \<and> frost_assemble z11_backend R (keys ! 0) shares = Some sig
   \<and> frost_verify z11_backend sig (dlsk_pubkey (keys ! 0)) [9] = Some True"
proof -
  have c: "curve_ok z11_backend Ed25519 0" by (simp add: z11_ok)
  have d: "draws_ok (cb_order z11_backend Ed25519) (\<lambda>i. 3)" by (simp add: draws_ok_def)
  obtain keys where k: "frost_generate_keys unary_codec z11_backend 2 3 Ed25519 5 (\<lambda>i. 3) = Some (Ok keys)"
    using frost_generate_keys_ok [OF c unary_codec_ok _ d, of 2 5 3] by auto
  show ?thesis
    using frost_signing_correct [OF c unary_codec_ok _ _ _ d _ _ k, of "[2, 0]" "\<lambda>_. [1]" "\<lambda>_. [2]" "[9]"] k
    by fastforce
qed

end
