(* ===== verification/QC_Sh00.thy ===== *)
theory QC_Sh00
  imports QC_RsaCommon QC_Fermat QC_Common
begin

text \<open>
  The SH00 threshold RSA signature (\<open>rsa_schemes/signatures/sh00.rs\<close>) and its arm of
  \<open>generate_keys\<close>.

  The Jacobi symbol is GMP's and a parameter \<open>jac\<close>; \<open>jacobi_ok\<close> states what the code relies
  on.  Everything the code draws is an argument: the primes, the base of \<open>v\<close>, the coefficients
  of the sharing, the value of \<open>u\<close> the loop stops at, and the exponent \<open>r\<close> of a share.
\<close>

record sh00_verification_key =
  sh00vk_v :: int
  sh00vk_vi :: "int list"
  sh00vk_u :: int

record sh00_public_key =
  sh00pk_id :: bytes
  sh00pk_t :: u16
  sh00pk_n :: u16
  sh00pk_N :: int
  sh00pk_e :: int
  sh00pk_verification_key :: sh00_verification_key
  sh00pk_delta :: int
  sh00pk_modbits :: nat
  sh00pk_group :: group

record sh00_private_key =
  sh00sk_id :: u16
  sh00sk_m :: int
  sh00sk_si :: int
  sh00sk_pubkey :: sh00_public_key

record sh00_signature_share =
  sh00sh_group :: group
  sh00sh_id :: u16
  sh00sh_label :: bytes
  sh00sh_xi :: int
  sh00sh_z :: int
  sh00sh_c :: int

record sh00_signature =
  sh00sig_sig :: int

definition mb2group :: "nat \<Rightarrow> group may_panic" where
  "mb2group modbits =
     (if modbits = 512 then Some Rsa512 else if modbits = 1024 then Some Rsa1024
      else if modbits = 2048 then Some Rsa2048 else if modbits = 4096 then Some Rsa4096 else None)"

subsection \<open>Encodings\<close>

abbreviation "ABig x \<equiv> AOctets (bi_to_bytes x)"

definition sh00_vk_to_bytes :: "codec \<Rightarrow> sh00_verification_key \<Rightarrow> scheme_error + bytes" where
  "sh00_vk_to_bytes C vk = write_seq C
     ([ABig (sh00vk_v vk), AInteger (int (length (sh00vk_vi vk)))]
      @ map ABig (sh00vk_vi vk) @ [ABig (sh00vk_u vk)])"

definition sh00_vk_from_bytes ::
  "codec \<Rightarrow> bytes \<Rightarrow> (scheme_error + sh00_verification_key) may_panic" where
  "sh00_vk_from_bytes C bs = parse_seq C bs
     (read_octets (\<lambda>v. read_u64 (\<lambda>len.
      read_many (unat (word_of_int len :: u16)) (\<lambda>b. Some (bi_from_bytes b)) (\<lambda>vi.
      read_octets (\<lambda>u.
      read_end \<lparr>sh00vk_v = bi_from_bytes v, sh00vk_vi = vi, sh00vk_u = bi_from_bytes u\<rparr>)))))"

definition sh00_pk_to_bytes :: "codec \<Rightarrow> sh00_public_key \<Rightarrow> scheme_error + bytes" where
  "sh00_pk_to_bytes C pk =
     (case sh00_vk_to_bytes C (sh00pk_verification_key pk) of
        Inl _ \<Rightarrow> Err SerializationFailed
      | Inr vb \<Rightarrow> write_seq C
          [AU16 (sh00pk_n pk), AU16 (sh00pk_t pk), ABig (sh00pk_N pk), ABig (sh00pk_e pk),
           AOctets vb, ABig (sh00pk_delta pk), AInteger (int (sh00pk_modbits pk))])"

definition sh00_pk_from_bytes ::
  "codec \<Rightarrow> bytes \<Rightarrow> (scheme_error + sh00_public_key) may_panic" where
  "sh00_pk_from_bytes C bs = parse_seq C bs
     (read_u64 (\<lambda>n. read_u64 (\<lambda>t. read_octets (\<lambda>N. read_octets (\<lambda>e. read_octets (\<lambda>vb.
      read_call (sh00_vk_from_bytes C vb) (\<lambda>res. case res of Inl _ \<Rightarrow> read_fail | Inr vk \<Rightarrow>
      read_octets (\<lambda>delta. read_u64 (\<lambda>modbits.
      read_call (mb2group (nat modbits)) (\<lambda>g.
      read_call (calc_key_id C bs) (\<lambda>i.
      read_end \<lparr>sh00pk_id = i, sh00pk_t = word_of_int t, sh00pk_n = word_of_int n,
        sh00pk_N = bi_from_bytes N, sh00pk_e = bi_from_bytes e, sh00pk_verification_key = vk,
        sh00pk_delta = bi_from_bytes delta, sh00pk_modbits = nat modbits, sh00pk_group = g\<rparr>)))))))))))"

definition sh00_pk_new ::
  "codec \<Rightarrow> u16 \<Rightarrow> u16 \<Rightarrow> int \<Rightarrow> int \<Rightarrow> sh00_verification_key \<Rightarrow> int \<Rightarrow> nat \<Rightarrow>
   sh00_public_key may_panic" where
  "sh00_pk_new C n t N e vk delta modbits = do {
     g \<leftarrow> mb2group modbits;
     let k = \<lparr>sh00pk_id = [], sh00pk_t = t, sh00pk_n = n, sh00pk_N = N, sh00pk_e = e,
              sh00pk_verification_key = vk, sh00pk_delta = delta, sh00pk_modbits = modbits,
              sh00pk_group = g\<rparr>;
     bs \<leftarrow> unwrap (sh00_pk_to_bytes C k);
     i \<leftarrow> calc_key_id C bs;
     Some (k\<lparr>sh00pk_id := i\<rparr>)
   }"

definition sh00_sk_new :: "u16 \<Rightarrow> int \<Rightarrow> int \<Rightarrow> sh00_public_key \<Rightarrow> sh00_private_key" where
  "sh00_sk_new i m si pk = \<lparr>sh00sk_id = i, sh00sk_m = m, sh00sk_si = si, sh00sk_pubkey = pk\<rparr>"

definition sh00_sk_to_bytes :: "codec \<Rightarrow> sh00_private_key \<Rightarrow> scheme_error + bytes" where
  "sh00_sk_to_bytes C sk =
     write_seq_nested C [AU16 (sh00sk_id sk), ABig (sh00sk_m sk), ABig (sh00sk_si sk)]
       (sh00_pk_to_bytes C (sh00sk_pubkey sk))"

definition sh00_sk_from_bytes ::
  "codec \<Rightarrow> bytes \<Rightarrow> (scheme_error + sh00_private_key) may_panic" where
  "sh00_sk_from_bytes C bs = parse_seq C bs
     (read_u64 (\<lambda>i. read_octets (\<lambda>m. read_octets (\<lambda>si. read_octets (\<lambda>pb.
      read_call (sh00_pk_from_bytes C pb) (\<lambda>res. case res of Inl _ \<Rightarrow> read_fail | Inr pk \<Rightarrow>
      read_end \<lparr>sh00sk_id = word_of_int i, sh00sk_m = bi_from_bytes m,
        sh00sk_si = bi_from_bytes si, sh00sk_pubkey = pk\<rparr>))))))"

definition sh00_share_to_bytes :: "codec \<Rightarrow> sh00_signature_share \<Rightarrow> scheme_error + bytes" where
  "sh00_share_to_bytes C sh = write_seq C
     [AU16 (sh00sh_id sh), AGroup (sh00sh_group sh), AOctets (sh00sh_label sh), ABig (sh00sh_xi sh),
      ABig (sh00sh_z sh), ABig (sh00sh_c sh)]"

definition sh00_share_from_bytes ::
  "codec \<Rightarrow> bytes \<Rightarrow> (scheme_error + sh00_signature_share) may_panic" where
  "sh00_share_from_bytes C bs = parse_seq C bs
     (read_u64 (\<lambda>i. read_i32 (\<lambda>gc. case group_from_i32 gc of None \<Rightarrow> read_fail | Some g \<Rightarrow>
      read_octets (\<lambda>label. read_octets (\<lambda>xi. read_octets (\<lambda>z. read_octets (\<lambda>c.
      read_end \<lparr>sh00sh_group = g, sh00sh_id = word_of_int i, sh00sh_label = label,
        sh00sh_xi = bi_from_bytes xi, sh00sh_z = bi_from_bytes z, sh00sh_c = bi_from_bytes c\<rparr>)))))))"

definition sh00_sig_to_bytes :: "codec \<Rightarrow> sh00_signature \<Rightarrow> scheme_error + bytes" where
  "sh00_sig_to_bytes C sig = write_seq C [ABig (sh00sig_sig sig)]"

definition sh00_sig_from_bytes ::
  "codec \<Rightarrow> bytes \<Rightarrow> (scheme_error + sh00_signature) may_panic" where
  "sh00_sig_from_bytes C bs = parse_seq C bs
     (read_octets (\<lambda>b. read_end \<lparr>sh00sig_sig = bi_from_bytes b\<rparr>))"

subsection \<open>Hash functions\<close>

text \<open>\<open>H1\<close> stretches a digest of 32 bytes; \<open>blen\<close> is four times its length.\<close>

definition sh00_H1 :: "bytes \<Rightarrow> int \<Rightarrow> nat \<Rightarrow> int may_panic" where
  "sh00_H1 m n modbits = do {
     h \<leftarrow> hash256 m;
     let blen = length h * 4;
     if modbits < blen then None
     else do {
       let mx = (modbits - blen) div length h;
       ext \<leftarrow> (if blen < modbits then mapM (\<lambda>i. hash256 (h @ le64 (int i))) [1..<mx] else Some []);
       bi_rmod (bi_from_bytes (h @ concat ext)) n
     }
   }"

definition sh00_H2 :: "int \<Rightarrow> int \<Rightarrow> int \<Rightarrow> int \<Rightarrow> int \<Rightarrow> int \<Rightarrow> int may_panic" where
  "sh00_H2 g1 g2 g3 g4 g5 g6 =
     map_option bi_from_bytes (hash256 (concat (map bi_to_bytes [g1, g2, g3, g4, g5, g6])))"

definition sh00_H :: "(int \<Rightarrow> int \<Rightarrow> int) \<Rightarrow> bytes \<Rightarrow> sh00_public_key \<Rightarrow> (int \<times> int) may_panic" where
  "sh00_H jac m pk = do {
     x \<leftarrow> sh00_H1 m (sh00pk_N pk) (sh00pk_modbits pk);
     let j = jac x (sh00pk_N pk);
     if j = - 1 then do {
       ue \<leftarrow> bi_pow_mod (sh00vk_u (sh00pk_verification_key pk)) (sh00pk_e pk) (sh00pk_N pk);
       x' \<leftarrow> bi_mul_mod ue x (sh00pk_N pk);
       Some (x', j)
     }
     else if j = 0 then None
     else Some (x, j)
   }"

subsection \<open>Operations\<close>

definition sh00_verify :: "sh00_signature \<Rightarrow> sh00_public_key \<Rightarrow> bytes \<Rightarrow> bool may_panic" where
  "sh00_verify sig pk msg = do {
     y \<leftarrow> bi_pow_mod (sh00sig_sig sig) (sh00pk_e pk) (sh00pk_N pk);
     h \<leftarrow> sh00_H1 msg (sh00pk_N pk) (sh00pk_modbits pk);
     Some (y = h)
   }"

definition sh00_partial_sign ::
  "(int \<Rightarrow> int \<Rightarrow> int) \<Rightarrow> bytes \<Rightarrow> bytes \<Rightarrow> sh00_private_key \<Rightarrow> int \<Rightarrow>
   sh00_signature_share may_panic" where
  "sh00_partial_sign jac msg label sk r = do {
     let pk = sh00sk_pubkey sk;
     let N = sh00pk_N pk;
     let v = sh00vk_v (sh00pk_verification_key pk);
     vi \<leftarrow> index_by_id (sh00vk_vi (sh00pk_verification_key pk)) (sh00sk_id sk);
     let si = sh00sk_si sk;
     (x, _) \<leftarrow> sh00_H jac msg pk;
     xi \<leftarrow> bi_pow_mod x (si + si) N;
     x_hat \<leftarrow> bi_pow_mod x 4 N;
     v1 \<leftarrow> bi_pow_mod v r N;
     x1 \<leftarrow> bi_pow_mod x_hat r N;
     xi2 \<leftarrow> bi_rmod (xi ^ 2) N;
     c \<leftarrow> sh00_H2 v x_hat vi xi2 v1 x1;
     let z = si * c + r;
     Some \<lparr>sh00sh_group = sh00pk_group pk, sh00sh_id = sh00sk_id sk, sh00sh_label = label,
           sh00sh_xi = xi, sh00sh_z = z, sh00sh_c = c\<rparr>
   }"

definition sh00_verify_share ::
  "(int \<Rightarrow> int \<Rightarrow> int) \<Rightarrow> sh00_signature_share \<Rightarrow> bytes \<Rightarrow> sh00_public_key \<Rightarrow> bool may_panic" where
  "sh00_verify_share jac sh msg pk = do {
     let N = sh00pk_N pk;
     let v = sh00vk_v (sh00pk_verification_key pk);
     vi \<leftarrow> index_by_id (sh00vk_vi (sh00pk_verification_key pk)) (sh00sh_id sh);
     (x, _) \<leftarrow> sh00_H jac msg pk;
     let z = sh00sh_z sh;
     let c = sh00sh_c sh;
     let xi = sh00sh_xi sh;
     x_hat \<leftarrow> bi_pow_mod x 4 N;
     xi2 \<leftarrow> bi_rmod (xi ^ 2) N;
     p1 \<leftarrow> bi_pow_mod vi c N;
     d1 \<leftarrow> bi_inv_mod p1 N;
     w1 \<leftarrow> bi_pow_mod v z N;
     v1 \<leftarrow> bi_mul_mod w1 d1 N;
     p2 \<leftarrow> bi_pow_mod xi (c + c) N;
     d2 \<leftarrow> bi_inv_mod p2 N;
     w2 \<leftarrow> bi_pow_mod x_hat z N;
     x1 \<leftarrow> bi_mul_mod w2 d2 N;
     c2 \<leftarrow> sh00_H2 v x_hat vi xi2 v1 x1;
     Some (c2 = c)
   }"

text \<open>\<open>interpolate\<close> of \<open>rsa_schemes/common.rs\<close>: the identifiers are narrowed to \<open>u8\<close>.\<close>

definition rsa_interpolate :: "sh00_signature_share list \<Rightarrow> int \<Rightarrow> int \<Rightarrow> int may_panic" where
  "rsa_interpolate shares N delta =
     (let ids = map (\<lambda>s. ucast (sh00sh_id s) :: u8) shares in
      foldM (\<lambda>w s. do {
        l \<leftarrow> lag_coeff ids (uint (sh00sh_id s)) delta;
        wj \<leftarrow> bi_pow_mod (sh00sh_xi s) l N;
        bi_mul_mod w wj N }) 1 shares)"

definition sh00_assemble ::
  "(int \<Rightarrow> int \<Rightarrow> int) \<Rightarrow> sh00_signature_share list \<Rightarrow> bytes \<Rightarrow> sh00_public_key \<Rightarrow>
   sh00_signature may_panic" where
  "sh00_assemble jac shares msg pk = do {
     let u = sh00vk_u (sh00pk_verification_key pk);
     let N = sh00pk_N pk;
     let (a, b) = ext_euclid 4 (sh00pk_e pk);
     (x, j) \<leftarrow> sh00_H jac msg pk;
     w0 \<leftarrow> rsa_interpolate shares N (sh00pk_delta pk);
     w \<leftarrow> bi_pow_mod w0 a N;
     xb \<leftarrow> bi_pow_mod x b N;
     y \<leftarrow> bi_mul_mod w xb N;
     y' \<leftarrow> (if j = - 1 then do { ui \<leftarrow> bi_inv_mod u N; bi_mul_mod ui y N } else Some y);
     Some \<lparr>sh00sig_sig = y'\<rparr>
   }"

subsection \<open>Key generation\<close>

text \<open>The loop that draws \<open>u\<close>, on the list of its draws.\<close>

fun sh00_find_u :: "int \<Rightarrow> int \<Rightarrow> int \<Rightarrow> int \<Rightarrow> int list \<Rightarrow> int may_panic" where
  "sh00_find_u p1 p q1 q [] = None"
| "sh00_find_u p1 p q1 q (u # us) = do {
     up \<leftarrow> bi_pow_mod u p1 p;
     uq \<leftarrow> bi_pow_mod u q1 q;
     if (up = 1) \<noteq> (uq = 1) then Some u else sh00_find_u p1 p q1 q us
   }"

text \<open>The part of the arm after the primes are found.\<close>

definition sh00_make_keys ::
  "codec \<Rightarrow> nat \<Rightarrow> nat \<Rightarrow> nat \<Rightarrow> int \<Rightarrow> int \<times> int \<Rightarrow> int \<times> int \<Rightarrow> int \<Rightarrow> (nat \<Rightarrow> int) \<Rightarrow> int list \<Rightarrow>
   sh00_private_key list may_panic" where
  "sh00_make_keys C k n modsize e pp qq v0 rnd us = do {
     let (p1, p) = pp;
     let (q1, q) = qq;
     let N = p * q;
     let m = p1 * q1;
     v \<leftarrow> bi_rmod (v0 ^ 2) N;
     d \<leftarrow> bi_inv_mod e m;
     let delta = fac (int n);
     (xi, vi) \<leftarrow> shamir_share_rsa d k n N m v rnd;
     u \<leftarrow> sh00_find_u p1 p q1 q us;
     pk \<leftarrow> sh00_pk_new C (of_nat n) (of_nat k) N e \<lparr>sh00vk_v = v, sh00vk_vi = vi, sh00vk_u = u\<rparr>
             delta modsize;
     Some (map (\<lambda>i. sh00_sk_new (fst (xi ! i)) m (snd (xi ! i)) pk) [0..<n])
   }"

fun rsa_modsize :: "group \<Rightarrow> nat option" where
  "rsa_modsize Rsa512 = Some 512"
| "rsa_modsize Rsa1024 = Some 1024"
| "rsa_modsize Rsa2048 = Some 2048"
| "rsa_modsize Rsa4096 = Some 4096"
| "rsa_modsize _ = None"

definition sh00_generate_keys ::
  "codec \<Rightarrow> (int \<Rightarrow> bool) \<Rightarrow> nat \<Rightarrow> nat \<Rightarrow> group \<Rightarrow> int option \<Rightarrow> int list \<Rightarrow> int list \<Rightarrow> int \<Rightarrow>
   (nat \<Rightarrow> int) \<Rightarrow> int list \<Rightarrow> (scheme_error + sh00_private_key list) may_panic" where
  "sh00_generate_keys C is_prime_test k n g params pcands qcands v0 rnd us =
     (if is_dl g then Some (Err IncompatibleGroup)
      else let e = (case params of None \<Rightarrow> 65537 | Some e' \<Rightarrow> e') in
        case rsa_modsize g of None \<Rightarrow> Some (Err WrongGroup)
        | Some modsize \<Rightarrow> do {
            pp \<leftarrow> gen_strong_prime is_prime_test e 0 pcands;
            qq \<leftarrow> gen_strong_prime is_prime_test e 0 qcands;
            ks \<leftarrow> sh00_make_keys C k n modsize e pp qq v0 rnd us;
            Some (Ok ks)
          })"

subsection \<open>Arithmetic of the big integers\<close>

named_theorems rsa_simps "big-integer operations on powers of one base"

lemma bi_rmod_pos: "1 < N \<Longrightarrow> bi_rmod x N = Some (x mod N)"
  by (simp add: bi_rmod_def)

lemma bi_pow_mod_rpow [rsa_simps]:
  assumes "rsa_group N M" "coprime x N"
  shows "bi_pow_mod x e N = Some (rpow N M x e)"
proof (cases "0 \<le> e")
  case True
  then show ?thesis using assms rpow_nat [OF assms] by (simp add: bi_pow_mod_def bi_rmod_pos rsa_group_def)
next
  case False
  have N: "1 < N" using assms(1) by (simp add: rsa_group_def)
  have i: "inv_mod x N = rpow N M x (- 1)"
    using inv_mod_rpow [OF assms, of 1] rpow_1 [OF assms] inv_mod_cong [of "x mod N" N x] by simp
  have "bi_pow_mod x e N = Some (rpow N M x (- 1) ^ nat (- e) mod N)"
    using False assms(2) N i by (simp add: bi_pow_mod_def bi_inv_mod_def bi_rmod_pos)
  also have "\<dots> = Some (rpow N M x e)" using rpow_pow [OF assms, of "- e" "- 1"] False by simp
  finally show ?thesis .
qed

lemma bi_pow_mod_rpow2 [rsa_simps]:
  assumes "rsa_group N M" "coprime x N"
  shows "bi_pow_mod (rpow N M x a) e N = Some (rpow N M x (a * e))"
proof -
  have r: "rpow N M (rpow N M x a) e = rpow N M x (a * e)"
  proof -
    have M: "0 < M" using assms(1) by (simp add: rsa_group_def)
    then have "rpow N M (rpow N M x a) e = rpow N M x (a * (e mod M))"
      using rpow_pow [OF assms, of "e mod M" a] by (simp add: rpow_def)
    also have "\<dots> = rpow N M x (a * e)" by (rule rpow_cong) (simp add: mod_mult_right_eq)
    finally show ?thesis .
  qed
  show ?thesis using bi_pow_mod_rpow [OF assms(1) coprime_rpow [OF assms(2)]] r by simp
qed

lemma bi_mul_mod_rpow [rsa_simps]:
  assumes "rsa_group N M" "coprime x N"
  shows "bi_mul_mod (rpow N M x a) (rpow N M x b) N = Some (rpow N M x (a + b))"
  using assms rpow_add [OF assms] by (simp add: bi_mul_mod_def bi_rmod_pos rsa_group_def)

lemma bi_inv_mod_rpow [rsa_simps]:
  assumes "rsa_group N M" "coprime x N"
  shows "bi_inv_mod (rpow N M x a) N = Some (rpow N M x (- a))"
  using assms inv_mod_rpow [OF assms] coprime_rpow [OF assms(2)]
  by (simp add: bi_inv_mod_def rsa_group_def)

lemma bi_square_rpow [rsa_simps]:
  assumes "rsa_group N M" "coprime x N"
  shows "bi_rmod ((rpow N M x a)\<^sup>2) N = Some (rpow N M x (2 * a))"
  using assms rpow_pow [OF assms, of 2 a] by (simp add: bi_rmod_pos rsa_group_def mult.commute)

lemma fac_fact: "fac (int n) = fact n"
proof (induction n)
  case (Suc n)
  have "fac (int (Suc n)) = (if n = 0 then 1 else int (Suc n) * fac (int n))"
    by (subst fac.simps) auto
  then show ?case using Suc by simp
qed (simp add: fac.simps)

lemma ext_euclid_bezout:
  assumes "0 \<le> x" "0 \<le> y" "ext_euclid x y = (a, b)"
  shows "a * x + b * y = gcd x y"
  using assms
proof (induction x y arbitrary: a b rule: ext_euclid.induct)
  case (1 x y)
  show ?case
  proof (cases "x = 0")
    case True
    then show ?thesis using 1(3,4) by (simp add: ext_euclid.simps)
  next
    case False
    obtain x1 y1 where e: "ext_euclid (y mod \<bar>x\<bar>) x = (x1, y1)" by force
    have IH: "x1 * (y mod x) + y1 * x = gcd (y mod x) x"
      using 1(1) [OF False, of x1 y1] e 1(2) False by simp
    have "a = y1 - (y div x) * x1" "b = x1"
      using 1(4) e False 1(2,3) by (auto simp: ext_euclid.simps [of x y] sgn_if split: if_splits)
    then have "a * x + b * y = y1 * x + x1 * (y - (y div x) * x)"
      by (simp only: ring_distribs) (simp add: ac_simps)
    also have "\<dots> = x1 * (y mod x) + y1 * x" by (simp add: minus_div_mult_eq_mod)
    also have "\<dots> = gcd x y" using IH gcd_red_int [of y x] gcd.commute [of y x] gcd.commute [of x "y mod x"] by simp
    finally show ?thesis .
  qed
qed

subsection \<open>Interpolation in the exponent\<close>

lemma lag_steps:
  "foldl (lag_step i) (ln, ld) bs
     = (ln * (\<Prod>j\<leftarrow>filter (\<lambda>j. j \<noteq> i) (map uint bs). - j),
        ld * (\<Prod>j\<leftarrow>filter (\<lambda>j. j \<noteq> i) (map uint bs). i - j))"
  by (induction bs arbitrary: ln ld) (auto simp: lag_step_def Let_def ac_simps)

lemma sgn_div_exact:
  fixes x y :: int
  assumes "y dvd x" "y \<noteq> 0"
  shows "sgn x * sgn y * (\<bar>x\<bar> div \<bar>y\<bar>) = x div y"
proof -
  obtain c where c: "x = y * c" using assms(1) by (auto elim: dvdE)
  then have "\<bar>x\<bar> div \<bar>y\<bar> = \<bar>c\<bar>" using assms(2) by (simp add: abs_mult)
  then show ?thesis using c assms(2)
    by (cases y "0::int" rule: linorder_cases; cases c "0::int" rule: linorder_cases)
      (simp_all add: sgn_mult)
qed

lemma lag_coeff_int:
  assumes "distinct ids" "\<forall>j\<in>set ids. 1 \<le> j \<and> j \<le> int n" "i \<in> set ids" "n \<le> 255"
    "map uint bs = ids"
  shows "lag_coeff bs i (fact n) = Some (2 * lag_int (fact n) ids i)"
proof -
  let ?xs = "filter (\<lambda>j. j \<noteq> i) ids"
  let ?d = "\<Prod>j\<leftarrow>?xs. i - j"
  have i: "1 \<le> i" "i \<le> int n" using assms(2,3) by auto
  have "?d \<noteq> 0" by (auto simp: prod_list_zero_iff)
  moreover have "?d dvd fact n * (\<Prod>j\<leftarrow>?xs. - j)"
    using lag_den_dvd_fact [OF assms(1,2) i] by (rule dvd_mult2)
  ultimately show ?thesis
    using assms(5) by (simp add: lag_coeff_def lag_steps bi_div_def sgn_div_exact lag_int_def)
qed

subsection \<open>Keys of one sharing\<close>

text \<open>What the code relies on of the Jacobi symbol: it is 0 exactly on the non-units.\<close>

definition jacobi_ok :: "(int \<Rightarrow> int \<Rightarrow> int) \<Rightarrow> int \<Rightarrow> bool" where
  "jacobi_ok jac N = (\<forall>x. jac x N \<in> {- 1, 0, 1} \<and> (jac x N = 0 \<longleftrightarrow> \<not> coprime x N))"

text \<open>
  \<open>sh00_key_ok m s k n pk\<close>: the shares \<open>s i\<close>, times \<open>n!\<close>, are the values modulo \<open>m\<close> of a
  polynomial of degree below \<open>k\<close> whose value at 0 inverts the public exponent.
\<close>

definition sh00_key_ok :: "int \<Rightarrow> (nat \<Rightarrow> int) \<Rightarrow> nat \<Rightarrow> nat \<Rightarrow> sh00_public_key \<Rightarrow> bool" where
  "sh00_key_ok m s k n pk =
     (rsa_group (sh00pk_N pk) (2 * m) \<and> sh00pk_delta pk = fact n \<and> odd (sh00pk_e pk)
      \<and> 0 < sh00pk_e pk \<and> coprime (sh00vk_u (sh00pk_verification_key pk)) (sh00pk_N pk)
      \<and> coprime (sh00vk_v (sh00pk_verification_key pk)) (sh00pk_N pk)
      \<and> sh00vk_vi (sh00pk_verification_key pk)
          = map (\<lambda>i. rpow (sh00pk_N pk) (2 * m) (sh00vk_v (sh00pk_verification_key pk)) (s i)) [0..<n]
      \<and> coprime (fact n) m \<and> 128 \<le> sh00pk_modbits pk
      \<and> (\<exists>f. polyfun k f \<and> (\<forall>i<n. (fact n * s i) mod m = f (int i + 1) mod m)
           \<and> (sh00pk_e pk * f 0) mod m = 1 mod m))"

definition sh00_party_key :: "int \<Rightarrow> (nat \<Rightarrow> int) \<Rightarrow> sh00_public_key \<Rightarrow> nat \<Rightarrow> sh00_private_key" where
  "sh00_party_key m s pk i = sh00_sk_new (of_nat (i + 1)) m (s i) pk"

lemma sh00_party_key_sel [simp]:
  "sh00sk_id (sh00_party_key m s pk i) = of_nat (i + 1)" "sh00sk_si (sh00_party_key m s pk i) = s i"
  "sh00sk_pubkey (sh00_party_key m s pk i) = pk"
  by (simp_all add: sh00_party_key_def sh00_sk_new_def)

lemma sh00_exponent:
  fixes e m :: int
  assumes "polyfun k f" "\<forall>i<n. (fact n * s i) mod m = f (int i + 1) mod m" "(e * f 0) mod m = 1 mod m"
    "coprime (fact n) m" "distinct js" "set js \<subseteq> {..<n}" "k \<le> length js"
  defines "ids \<equiv> map (\<lambda>j. int j + 1) js"
  shows "(e * (\<Sum>j\<leftarrow>js. lag_int (fact n) ids (int j + 1) * s j)) mod m = 1 mod m"
proof -
  let ?L = "\<lambda>j. lag_int (fact n) ids (int j + 1)"
  let ?S = "\<Sum>j\<leftarrow>js. ?L j * s j"
  have "(fact n * ?S) mod m = (\<Sum>j\<leftarrow>js. ?L j * (fact n * s j)) mod m"
    by (simp only: sum_list_const_mult [symmetric] mult.left_commute)
  also have "\<dots> = (\<Sum>j\<leftarrow>js. ?L j * (fact n * s j) mod m) mod m" by (simp add: sum_list_mod)
  also have "(\<Sum>j\<leftarrow>js. ?L j * (fact n * s j) mod m) = (\<Sum>j\<leftarrow>js. ?L j * f (int j + 1) mod m)"
    using assms(2,6) by (intro arg_cong [where f = sum_list] map_cong mod_mult_cong refl) auto
  also have "\<dots> mod m = (\<Sum>i\<leftarrow>ids. lag_int (fact n) ids i * f i) mod m"
    by (simp add: sum_list_mod ids_def comp_def)
  also have "(\<Sum>i\<leftarrow>ids. lag_int (fact n) ids i * f i) = fact n * f 0"
    using assms(1,5-7) by (intro lagrange_interpolation_int) (auto simp: ids_def distinct_map inj_on_def)
  finally have "m dvd fact n * (?S - f 0)" by (simp add: mod_eq_dvd_iff right_diff_distrib)
  then have "m dvd ?S - f 0"
    using assms(4) by (simp only: coprime_commute [of "fact n"] coprime_dvd_mult_right_iff)
  then have "(e * ?S) mod m = (e * f 0) mod m"
    by (intro mod_mult_cong refl) (simp only: mod_eq_dvd_iff)
  then show ?thesis using assms(3) by simp
qed

subsection \<open>Hashing to a unit\<close>

lemma sh00_H1_Some:
  assumes "1 < N" "128 \<le> modbits"
  obtains h where "sh00_H1 msg N modbits = Some h" "0 \<le> h" "h < N"
proof -
  have m: "mapM (\<lambda>i. hash256 (sha msg @ le64 (int i))) xs = Some (map (\<lambda>i. sha (sha msg @ le64 (int i))) xs)"
    for xs by (rule mapM_Some) simp
  show ?thesis using assms that
    by (cases "128 < modbits") (auto simp: sh00_H1_def m bi_rmod_pos Let_def)
qed

lemma sh00_H_unit:
  assumes "sh00_key_ok m s k n pk" "jacobi_ok jac (sh00pk_N pk)"
    "sh00_H1 msg (sh00pk_N pk) (sh00pk_modbits pk) = Some h" "coprime h (sh00pk_N pk)"
    "0 \<le> h" "h < sh00pk_N pk"
  obtains x j where "sh00_H jac msg pk = Some (x, j)" "coprime x (sh00pk_N pk)" "0 \<le> x" "x < sh00pk_N pk"
    "x = (if j = - 1 then sh00vk_u (sh00pk_verification_key pk) ^ nat (sh00pk_e pk) * h mod sh00pk_N pk else h)"
proof -
  let ?N = "sh00pk_N pk" and ?u = "sh00vk_u (sh00pk_verification_key pk)" and ?e = "sh00pk_e pk"
  have N: "1 < ?N" and e: "0 < ?e" and u: "coprime ?u ?N"
    using assms(1) by (simp_all add: sh00_key_ok_def rsa_group_def)
  have j: "jac h ?N = - 1 \<or> jac h ?N = 1"
    using assms(2,4) by (auto simp: jacobi_ok_def)
  have c: "coprime (?u ^ nat ?e * h mod ?N) ?N"
    using u assms(4) N by simp
  show ?thesis using j
  proof
    assume "jac h ?N = - 1"
    then have "sh00_H jac msg pk = Some (?u ^ nat ?e * h mod ?N, - 1)"
      using assms(3) N e by (simp add: sh00_H_def bi_pow_mod_def bi_rmod_pos bi_mul_mod_def mod_mult_left_eq)
    then show ?thesis using that c N by simp
  next
    assume "jac h ?N = 1"
    then have "sh00_H jac msg pk = Some (h, 1)" using assms(3) by (simp add: sh00_H_def)
    then show ?thesis using that assms(4-6) by simp
  qed
qed

lemma sh00_H_non_unit:
  assumes "jacobi_ok jac (sh00pk_N pk)" "sh00_H1 msg (sh00pk_N pk) (sh00pk_modbits pk) = Some h"
    "\<not> coprime h (sh00pk_N pk)"
  shows "sh00_H jac msg pk = None"
proof -
  have "jac h (sh00pk_N pk) = 0" using assms(1,3) by (simp add: jacobi_ok_def)
  then show ?thesis using assms(2) by (simp add: sh00_H_def)
qed

subsection \<open>Honest shares\<close>

declare One_nat_def [simp del]

lemmas rsa_ops = bi_pow_mod_rpow bi_pow_mod_rpow2 bi_mul_mod_rpow bi_inv_mod_rpow bi_square_rpow

lemma index_by_share_id:
  assumes "i < length v" "length v \<le> 65535"
  shows "index_by_id v (of_nat (i + 1)) = Some (v ! i)"
proof -
  have u: "unat (of_nat (i + 1) :: u16) = i + 1" using assms by (simp only: unat_of_nat) simp
  moreover from u have "(of_nat (i + 1) :: u16) \<noteq> 0" by (metis unat_0 add_is_0 zero_neq_one)
  ultimately show ?thesis using assms by (simp add: index_by_id_def del: of_nat_add)
qed

lemma sh00_H2_Some: obtains c where "sh00_H2 g1 g2 g3 g4 g5 g6 = Some c"
  using that by (simp add: sh00_H2_def)

lemma sh00_honest_share:
  assumes key: "sh00_key_ok m s k n pk" and H: "sh00_H jac msg pk = Some (x, j)" "coprime x (sh00pk_N pk)"
    and i: "i < n" "n \<le> 65535"
  shows "\<exists>sh. sh00_partial_sign jac msg label (sh00_party_key m s pk i) r = Some sh
    \<and> sh00_verify_share jac sh msg pk = Some True \<and> sh00sh_id sh = of_nat (i + 1)
    \<and> sh00sh_label sh = label \<and> sh00sh_xi sh = rpow (sh00pk_N pk) (2 * m) x (2 * s i)"
proof -
  let ?N = "sh00pk_N pk" and ?v = "sh00vk_v (sh00pk_verification_key pk)"
  let ?x = "rpow ?N (2 * m) x" and ?w = "rpow ?N (2 * m) ?v"
  have rg: "rsa_group ?N (2 * m)" and cv: "coprime ?v ?N"
    using key by (simp_all add: sh00_key_ok_def)
  note X = rsa_ops [OF rg H(2)] and V = rsa_ops [OF rg cv]
  have vi: "index_by_id (sh00vk_vi (sh00pk_verification_key pk)) (of_nat (i + 1)) = Some (?w (s i))"
    using key i index_by_share_id [of i "[0..<n]"] by (simp add: sh00_key_ok_def del: of_nat_add)
  obtain c where c: "sh00_H2 ?v (?x 4) (?w (s i)) (?x (2 * (s i + s i))) (?w r) (?x (4 * r)) = Some c"
    by (rule sh00_H2_Some)
  let ?sh = "\<lparr>sh00sh_group = sh00pk_group pk, sh00sh_id = of_nat (i + 1), sh00sh_label = label,
      sh00sh_xi = ?x (s i + s i), sh00sh_z = s i * c + r, sh00sh_c = c\<rparr>"
  have "sh00_partial_sign jac msg label (sh00_party_key m s pk i) r = Some ?sh"
    using H(1) c vi by (simp add: sh00_partial_sign_def X V Let_def del: of_nat_add)
  moreover have "sh00_verify_share jac ?sh msg pk = Some True"
  proof -
    have "s i * c + r + - (s i * c) = r"
      "4 * (s i * c + r) + - ((s i + s i) * (c + c)) = 4 * r" by (simp_all add: algebra_simps)
    then show ?thesis using H(1) c vi by (simp add: sh00_verify_share_def X V Let_def del: of_nat_add)
  qed
  ultimately show ?thesis by simp
qed

subsection \<open>Assembling\<close>

definition share_of_party :: "int \<Rightarrow> int \<Rightarrow> int \<Rightarrow> (nat \<Rightarrow> int) \<Rightarrow> nat \<Rightarrow> sh00_signature_share \<Rightarrow> bool" where
  "share_of_party N m x s j sh =
     (sh00sh_id sh = of_nat (j + 1) \<and> sh00sh_xi sh = rpow N (2 * m) x (2 * s j))"

lemma uint_narrow_id:
  assumes "j < 255"
  shows "uint (ucast (of_nat (j + 1) :: u16) :: u8) = int j + 1"
  using assms uint_share_id(1) [of j 255] by (simp add: unsigned_ucast_eq take_bit_int_eq_self del: of_nat_add)

lemma rsa_interpolate_honest:
  assumes rg: "rsa_group N (2 * m)" and x: "coprime x N"
    and js: "distinct js" "set js \<subseteq> {..<n}" "n \<le> 255" "list_all2 (share_of_party N m x s) js shares"
  shows "rsa_interpolate shares N (fact n) = Some (rpow N (2 * m) x
    (4 * (\<Sum>j\<leftarrow>js. lag_int (fact n) (map (\<lambda>j. int j + 1) js) (int j + 1) * s j)))"
proof -
  let ?ids = "map (\<lambda>s. ucast (sh00sh_id s) :: u8) shares"
  let ?L = "\<lambda>j. lag_int (fact n) (map (\<lambda>j. int j + 1) js) (int j + 1)"
  let ?f = "\<lambda>w s. do { l \<leftarrow> lag_coeff ?ids (uint (sh00sh_id s)) (fact n);
        wj \<leftarrow> bi_pow_mod (sh00sh_xi s) l N; bi_mul_mod w wj N }"
  have "map uint ?ids = map (\<lambda>j. int j + 1) js"
    using js(4) js(2,3)
    by (induction rule: list_all2_induct) (auto simp: share_of_party_def uint_narrow_id simp del: of_nat_add)
  then have lag: "lag_coeff ?ids (int j + 1) (fact n) = Some (2 * ?L j)" if "j \<in> set js" for j
    using that js(1-3) by (intro lag_coeff_int) (auto simp: distinct_map inj_on_def)
  have "foldM ?f (rpow N (2 * m) x a) shs = Some (rpow N (2 * m) x (a + (\<Sum>j\<leftarrow>is. 4 * (?L j * s j))))"
    if "list_all2 (share_of_party N m x s) is shs" "set is \<subseteq> set js" for "is" shs a
    using that
  proof (induction "is" shs arbitrary: a rule: list_all2_induct)
    case (Cons j "is" sh shs)
    have sh: "sh00sh_id sh = of_nat (j + 1)" "sh00sh_xi sh = rpow N (2 * m) x (2 * s j)"
      using Cons(1) by (simp_all add: share_of_party_def)
    moreover have "uint (of_nat (j + 1) :: u16) = int j + 1"
      using Cons(4) js(2,3) by (intro uint_share_id [of j 255]) auto
    ultimately have "?f (rpow N (2 * m) x a) sh = Some (rpow N (2 * m) x (a + 4 * (?L j * s j)))"
      using lag [of j] Cons(4) by (simp add: rsa_ops [OF rg x] mult.commute [of "s j"] del: of_nat_add)
    then show ?case using Cons by (simp add: add.assoc)
  qed simp
  from this [OF js(4), of 0] show ?thesis
    by (simp add: rsa_interpolate_def Let_def rpow_0 [OF rg] sum_list_const_mult)
qed

lemma bezout_exponent:
  fixes a b e S m :: int
  assumes "a * 4 + b * e = 1" "(e * S) mod m = 1 mod m"
  shows "((4 * S * a + b) * e) mod (2 * m) = 1 mod (2 * m)"
proof -
  obtain t where "e * S - 1 = m * t" using assms(2) by (auto simp: mod_eq_dvd_iff elim: dvdE)
  then have "e * S = 1 + m * t" by simp
  then have "4 * a * (e * S) = 4 * a * (1 + m * t)" by simp
  then have "(4 * S * a + b) * e = (a * 4 + b * e) + (2 * m) * (2 * t * a)" by (simp add: algebra_simps)
  then show ?thesis using assms(1) by (simp only: mod_mult_self2)
qed

lemma mod_power_mult_cancel:
  fixes u w x h N :: int
  assumes "(u * w) mod N = 1 mod N" "x = (u ^ k * h) mod N" "y ^ k mod N = x"
  shows "(w * y) ^ k mod N = h mod N"
proof -
  have "(w * y) ^ k mod N = (w ^ k * (y ^ k mod N)) mod N"
    by (simp add: power_mult_distrib mod_mult_right_eq)
  also have "\<dots> = ((u * w) ^ k * h) mod N"
    by (simp add: assms(2,3) mod_mult_right_eq power_mult_distrib ac_simps)
  also have "\<dots> = (((u * w) mod N) ^ k mod N * h) mod N" by (simp add: power_mod mod_mult_left_eq)
  also have "\<dots> = h mod N" by (simp add: assms(1) power_mod mod_mult_left_eq)
  finally show ?thesis .
qed

lemma sh00_assemble_honest:
  assumes key: "sh00_key_ok m s k n pk" and H1: "sh00_H1 msg (sh00pk_N pk) (sh00pk_modbits pk) = Some h"
      "0 \<le> h" "h < sh00pk_N pk"
    and H: "sh00_H jac msg pk = Some (x, j)" "coprime x (sh00pk_N pk)" "0 \<le> x" "x < sh00pk_N pk"
      "x = (if j = - 1 then sh00vk_u (sh00pk_verification_key pk) ^ nat (sh00pk_e pk) * h mod sh00pk_N pk else h)"
    and js: "distinct js" "set js \<subseteq> {..<n}" "n \<le> 255" "k \<le> length js"
      "list_all2 (share_of_party (sh00pk_N pk) m x s) js shares"
  shows "\<exists>sig. sh00_assemble jac shares msg pk = Some sig \<and> sh00_verify sig pk msg = Some True"
proof -
  let ?N = "sh00pk_N pk" and ?e = "sh00pk_e pk" and ?u = "sh00vk_u (sh00pk_verification_key pk)"
  let ?x = "rpow ?N (2 * m) x"
  have rg: "rsa_group ?N (2 * m)" and u: "coprime ?u ?N" and e: "0 < ?e" "odd ?e"
    and d: "sh00pk_delta pk = fact n" and N: "1 < ?N" and cf: "coprime (fact n) m"
    using key by (simp_all add: sh00_key_ok_def rsa_group_def)
  obtain f where f: "polyfun k f" "\<forall>i<n. (fact n * s i) mod m = f (int i + 1) mod m"
      "(?e * f 0) mod m = 1 mod m" using key by (auto simp: sh00_key_ok_def)
  define S where "S = (\<Sum>j\<leftarrow>js. lag_int (fact n) (map (\<lambda>j. int j + 1) js) (int j + 1) * s j)"
  have S: "(?e * S) mod m = 1 mod m" unfolding S_def by (rule sh00_exponent [OF f cf js(1,2,4)])
  obtain a b where ab: "ext_euclid 4 ?e = (a, b)" by force
  have "coprime (2 ^ 2 :: int) ?e" using e(2) by (simp only: coprime_power_left_iff) (simp add: coprime_left_2_iff_odd)
  then have "a * 4 + b * ?e = 1" using ext_euclid_bezout [OF _ _ ab] e(1) by (simp add: coprime_iff_gcd_eq_1)
  then have y: "?x (4 * S * a + b) ^ nat ?e mod ?N = x"
    using rpow_pow [OF rg H(2), of ?e] rpow_1 [OF rg H(2)] e(1) H(3,4)
      rpow_cong [OF bezout_exponent [OF _ S]] by simp
  have w: "rsa_interpolate shares ?N (sh00pk_delta pk) = Some (?x (4 * S))"
    using rsa_interpolate_honest [OF rg H(2) js(1-3,5)] by (simp add: S_def d)
  let ?ui = "inv_mod ?u ?N"
  let ?sig = "if j = - 1 then (?ui * ?x (4 * S * a + b)) mod ?N else ?x (4 * S * a + b)"
  have asm: "sh00_assemble jac shares msg pk = Some \<lparr>sh00sig_sig = ?sig\<rparr>"
    using H(1) w ab u N 
    by (simp add: sh00_assemble_def rsa_ops [OF rg H(2)] rpow_add [OF rg H(2)] bi_inv_mod_def bi_mul_mod_def
        bi_rmod_pos Let_def)
  have "?sig ^ nat ?e mod ?N = h"
  proof (cases "j = - 1")
    case True
    have "(?u * ?ui) mod ?N = 1 mod ?N" using inv_mod_mult [OF N u] N by simp
    from mod_power_mult_cancel [OF this _ y] show ?thesis using True H(5) H1(2,3) by (simp add: power_mod)
  qed (use y H(5) in simp)
  then have "sh00_verify \<lparr>sh00sig_sig = ?sig\<rparr> pk msg = Some True"
    using e(1) N H1 by (simp add: sh00_verify_def bi_pow_mod_def bi_rmod_pos)
  with asm show ?thesis by blast
qed

subsection \<open>Generated keys\<close>

definition rsa_poly :: "int \<Rightarrow> nat \<Rightarrow> (nat \<Rightarrow> int) \<Rightarrow> int \<Rightarrow> int" where
  "rsa_poly d k rnd x = (\<Sum>j\<leftarrow>[0..<k]. x ^ j * (d # map rnd [1..<k]) ! j)"

definition rsa_share :: "int \<Rightarrow> int \<Rightarrow> nat \<Rightarrow> (nat \<Rightarrow> int) \<Rightarrow> nat \<Rightarrow> nat \<Rightarrow> int" where
  "rsa_share m d k rnd n i =
     (\<Sum>j\<leftarrow>[0..<k]. ((int i + 1) ^ j mod m * (d # map rnd [1..<k]) ! j) mod m) * inv_mod (fact n) m mod m"

lemma shamir_rsa_terms:
  assumes "1 < m"
  shows "foldM (shamir_rsa_term m fk i) t js = Some (t + (\<Sum>j\<leftarrow>js. (i ^ j mod m * fk ! j) mod m))"
  using assms
  by (induction js arbitrary: t)
    (simp_all add: shamir_rsa_term_def bi_pow_mod_def bi_rmod_pos bi_mul_mod_def algebra_simps)

lemma shamir_share_rsa_eq:
  assumes "1 < m" "coprime (fact n) m" "rsa_group N M" "coprime v N"
  shows "shamir_share_rsa d k n N m v rnd
    = Some (map (\<lambda>i. (of_nat (i + 1), rsa_share m d k rnd n i)) [0..<n],
            map (\<lambda>i. rpow N M v (rsa_share m d k rnd n i)) [0..<n])"
proof -
  have z: "zip (map f xs) (map g xs) = map (\<lambda>i. (f i, g i)) xs" for f g and xs :: "nat list"
    by (induction xs) simp_all
  show ?thesis using assms
    by (simp add: shamir_share_rsa_def fac_fact bi_inv_mod_def shamir_rsa_terms bi_mul_mod_def bi_rmod_pos
        rsa_share_def [symmetric] rsa_ops [OF assms(3,4)] z comp_def Let_def)
qed

lemma rsa_share_poly:
  assumes "1 < m" "coprime (fact n) m"
  shows "(fact n * rsa_share m d k rnd n i) mod m = rsa_poly d k rnd (int i + 1) mod m"
proof -
  let ?fk = "d # map rnd [1..<k]"
  let ?T = "\<Sum>j\<leftarrow>[0..<k]. ((int i + 1) ^ j mod m * ?fk ! j) mod m"
  have "(fact n * rsa_share m d k rnd n i) mod m = (?T * (fact n * inv_mod (fact n) m mod m)) mod m"
    by (simp add: rsa_share_def mod_mult_right_eq mod_mult_left_eq ac_simps)
  also have "\<dots> = ?T mod m" using inv_mod_mult [OF assms] by simp
  also have "\<dots> = rsa_poly d k rnd (int i + 1) mod m"
    by (simp add: rsa_poly_def sum_list_mod mod_mult_left_eq)
  finally show ?thesis .
qed

lemma polyfun_rsa_poly: "polyfun k (rsa_poly d k rnd)"
  unfolding polyfun_def
  by (rule exI [of _ "\<lambda>i. (d # map rnd [1..<k]) ! i"])
    (simp add: rsa_poly_def interv_sum_list_conv_sum_set_nat atLeast0LessThan mult.commute)

lemma rsa_poly_0:
  assumes "0 < k"
  shows "rsa_poly d k rnd 0 = d"
proof -
  have "[0..<k] = 0 # [1..<k]" using assms by (simp add: upt_conv_Cons One_nat_def)
  moreover have "(\<Sum>j\<leftarrow>[1..<k]. (0::int) ^ j * g j) = 0" for g
    by (rule sum_list_0 [THEN [2] trans], rule arg_cong [where f = sum_list]) (auto intro!: map_cong)
  ultimately show ?thesis by (simp add: rsa_poly_def)
qed

lemma sh00_find_u_Some:
  assumes "0 < p1" "0 < q1" "1 < p" "1 < q" "\<exists>u\<in>set us. (u ^ nat p1 mod p = 1) \<noteq> (u ^ nat q1 mod q = 1)"
  obtains u where "sh00_find_u p1 p q1 q us = Some u" "u \<in> set us"
proof -
  have "\<exists>u\<in>set us. sh00_find_u p1 p q1 q us = Some u"
    using assms by (induction us) (auto simp: bi_pow_mod_def bi_rmod_pos)
  then show ?thesis using that by blast
qed

lemma sh00_vk_to_bytes_ok:
  assumes "codec_ok C"
  obtains vb where "sh00_vk_to_bytes C vk = Ok vb"
    "asn_parse C vb = [ABig (sh00vk_v vk), AInteger (int (length (sh00vk_vi vk)))]
      @ map ABig (sh00vk_vi vk) @ [ABig (sh00vk_u vk)]"
  by (rule write_seq_okE [OF assms, of "[ABig (sh00vk_v vk), AInteger (int (length (sh00vk_vi vk)))]
      @ map ABig (sh00vk_vi vk) @ [ABig (sh00vk_u vk)]"]) (auto simp: sh00_vk_to_bytes_def that)

lemma sh00_pk_to_bytes_ok:
  assumes "codec_ok C"
  obtains bs vb where "sh00_pk_to_bytes C pk = Ok bs"
    "sh00_vk_to_bytes C (sh00pk_verification_key pk) = Ok vb"
    "asn_parse C bs = [AU16 (sh00pk_n pk), AU16 (sh00pk_t pk), ABig (sh00pk_N pk), ABig (sh00pk_e pk),
      AOctets vb, ABig (sh00pk_delta pk), AInteger (int (sh00pk_modbits pk))]"
proof -
  obtain vb where vb: "sh00_vk_to_bytes C (sh00pk_verification_key pk) = Ok vb"
    using sh00_vk_to_bytes_ok [OF assms] .
  show ?thesis
    by (rule write_seq_okE [OF assms, of "[AU16 (sh00pk_n pk), AU16 (sh00pk_t pk), ABig (sh00pk_N pk),
        ABig (sh00pk_e pk), AOctets vb, ABig (sh00pk_delta pk), AInteger (int (sh00pk_modbits pk))]"])
      (auto simp: sh00_pk_to_bytes_def vb that)
qed

lemma sh00_make_keys_ok:
  assumes primes: "is_prime p" "is_prime q" "p \<noteq> q" "p = 2 * p1 + 1" "q = 2 * q1 + 1"
    and e: "odd e" "0 < e" "coprime e (p1 * q1)" and C: "codec_ok C" and mb: "modsize \<in> {512, 1024, 2048, 4096}"
    and kn: "0 < k" "coprime (fact n) (p1 * q1)" "1 < p1 * q1"
    and v0: "coprime v0 (p * q)" and us: "\<forall>u\<in>set us. coprime u (p * q)"
      "\<exists>u\<in>set us. (u ^ nat p1 mod p = 1) \<noteq> (u ^ nat q1 mod q = 1)"
  shows "\<exists>pk. sh00_make_keys C k n modsize e (p1, p) (q1, q) v0 rnd us
      = Some (map (sh00_party_key (p1 * q1) (rsa_share (p1 * q1) (inv_mod e (p1 * q1)) k rnd n) pk) [0..<n])
    \<and> sh00_key_ok (p1 * q1) (rsa_share (p1 * q1) (inv_mod e (p1 * q1)) k rnd n) k n pk
    \<and> sh00pk_modbits pk = modsize \<and> sh00pk_N pk = p * q \<and> sh00pk_e pk = e
    \<and> sh00pk_n pk = of_nat n \<and> sh00pk_t pk = of_nat k"
proof -
  let ?m = "p1 * q1" and ?N = "p * q" and ?d = "inv_mod e (p1 * q1)"
  let ?s = "rsa_share ?m ?d k rnd n" and ?v = "v0\<^sup>2 mod (p * q)"
  have rg: "rsa_group ?N (2 * ?m)" by (rule rsa_group_safe_primes [OF primes])
  then have N: "1 < ?N" by (simp add: rsa_group_def)
  have "coprime (a\<^sup>2 mod M) M" if "coprime a M" "1 < M" for a M :: int using that by simp
  from this [OF v0 N] have cv: "coprime ?v ?N" .
  have "1 < p" "1 < q" using primes(1,2) by (simp_all add: is_prime_gt_1)
  then have "0 < p1" "0 < q1" using primes(4,5) by auto
  then obtain u where u: "sh00_find_u p1 p q1 q us = Some u" "u \<in> set us"
    using sh00_find_u_Some [OF _ _ \<open>1 < p\<close> \<open>1 < q\<close> us(2)] by blast
  obtain g where g: "mb2group modsize = Some g" using mb by (auto simp: mb2group_def)
  let ?vk = "\<lparr>sh00vk_v = ?v, sh00vk_vi = map (\<lambda>i. rpow ?N (2 * ?m) ?v (?s i)) [0..<n], sh00vk_u = u\<rparr>"
  let ?pk = "\<lambda>i. \<lparr>sh00pk_id = i, sh00pk_t = of_nat k, sh00pk_n = of_nat n, sh00pk_N = ?N, sh00pk_e = e,
      sh00pk_verification_key = ?vk, sh00pk_delta = fact n, sh00pk_modbits = modsize, sh00pk_group = g\<rparr>"
  obtain bs where "sh00_pk_to_bytes C (?pk []) = Ok bs" using sh00_pk_to_bytes_ok [OF C] .
  then have new: "sh00_pk_new C (of_nat n) (of_nat k) ?N e ?vk (fact n) modsize = Some (?pk (b64_url C (sha bs)))"
    by (simp add: sh00_pk_new_def g Let_def calc_key_id_eq)
  have "sh00_make_keys C k n modsize e (p1, p) (q1, q) v0 rnd us
      = Some (map (sh00_party_key ?m ?s (?pk (b64_url C (sha bs)))) [0..<n])"
    using N e(3) kn(3) u(1) new shamir_share_rsa_eq [OF kn(3,2) rg cv, of ?d k rnd]
    by (simp add: sh00_make_keys_def Let_def bi_rmod_pos bi_inv_mod_def fac_fact sh00_party_key_def)
  moreover have "(e * rsa_poly ?d k rnd 0) mod ?m = 1 mod ?m"
    using inv_mod_mult [OF kn(3) e(3)] kn(1,3) by (simp add: rsa_poly_0)
  then have "sh00_key_ok ?m ?s k n (?pk i)" for i
    using rg e(1,2) us(1) u(2) cv kn(2) mb polyfun_rsa_poly rsa_share_poly [OF kn(3,2)]
    by (auto simp: sh00_key_ok_def intro!: exI [of _ "rsa_poly ?d k rnd"])
  ultimately show ?thesis by (intro exI [of _ "?pk (b64_url C (sha bs))"]) simp
qed

subsection \<open>Properties\<close>

text \<open>
  C9.  Threshold signing of SH00 is correct for every message.  With keys made from two different
  safe primes, \<open>assemble\<close> panics if the digest of the message shares a factor with the modulus.
  Otherwise every party produces a share, \<open>verify_share\<close> accepts it, and the shares of any
  \<open>k\<close> or more different parties assemble to a signature that \<open>verify\<close> accepts.  The bound of 255
  parties is needed: \<open>interpolate\<close> narrows the identifiers to 8 bits.
\<close>

theorem sh00_threshold_signing:
  assumes primes: "is_prime p" "is_prime q" "p \<noteq> q" "p = 2 * p1 + 1" "q = 2 * q1 + 1"
    and e: "odd e" "0 < e" "coprime e (p1 * q1)" and C: "codec_ok C" and mb: "modsize \<in> {512, 1024, 2048, 4096}"
    and kn: "0 < k" "n \<le> 255" "coprime (fact n) (p1 * q1)" "1 < p1 * q1"
    and v0: "coprime v0 (p * q)" and us: "\<forall>u\<in>set us. coprime u (p * q)"
      "\<exists>u\<in>set us. (u ^ nat p1 mod p = 1) \<noteq> (u ^ nat q1 mod q = 1)"
    and jac: "jacobi_ok jac (p * q)"
    and js: "distinct js" "js \<noteq> []" "set js \<subseteq> {..<n}" "k \<le> length js"
  shows "\<exists>keys pk h. sh00_make_keys C k n modsize e (p1, p) (q1, q) v0 rnd us = Some keys
    \<and> length keys = n \<and> pk = sh00sk_pubkey (keys ! 0) \<and> sh00_H1 msg (p * q) modsize = Some h
    \<and> (if coprime h (p * q)
       then (\<exists>shares. mapM (\<lambda>j. sh00_partial_sign jac msg label (keys ! j) (r j)) js = Some shares
         \<and> (\<forall>sh\<in>set shares. sh00_verify_share jac sh msg pk = Some True)
         \<and> (\<exists>sig. sh00_assemble jac shares msg pk = Some sig \<and> sh00_verify sig pk msg = Some True))
       else sh00_assemble jac shares' msg pk = None)"
proof -
  let ?m = "p1 * q1" and ?s = "rsa_share (p1 * q1) (inv_mod e (p1 * q1)) k rnd n"
  obtain pk where pk: "sh00_make_keys C k n modsize e (p1, p) (q1, q) v0 rnd us
        = Some (map (sh00_party_key ?m ?s pk) [0..<n])"
      "sh00_key_ok ?m ?s k n pk" "sh00pk_modbits pk = modsize" "sh00pk_N pk = p * q"
    using sh00_make_keys_ok [OF primes e C mb kn(1,3,4) v0 us] by blast
  let ?keys = "map (sh00_party_key ?m ?s pk) [0..<n]"
  have n0: "0 < n" using js(2,3) by (cases js) auto
  have N: "1 < p * q" "128 \<le> modsize" using pk(2,4) mb by (auto simp: sh00_key_ok_def rsa_group_def)
  obtain h where h: "sh00_H1 msg (p * q) modsize = Some h" "0 \<le> h" "h < p * q" using sh00_H1_Some [OF N] .
  have "if coprime h (p * q)
       then (\<exists>shares. mapM (\<lambda>j. sh00_partial_sign jac msg label (?keys ! j) (r j)) js = Some shares
         \<and> (\<forall>sh\<in>set shares. sh00_verify_share jac sh msg pk = Some True)
         \<and> (\<exists>sig. sh00_assemble jac shares msg pk = Some sig \<and> sh00_verify sig pk msg = Some True))
       else sh00_assemble jac shares' msg pk = None"
  proof (cases "coprime h (p * q)")
    case True
    obtain x j where x: "sh00_H jac msg pk = Some (x, j)" "coprime x (p * q)" "0 \<le> x" "x < p * q"
      "x = (if j = - 1 then sh00vk_u (sh00pk_verification_key pk) ^ nat (sh00pk_e pk) * h mod (p * q) else h)"
      using sh00_H_unit [OF pk(2), unfolded pk(3,4), OF jac h(1) True h(2,3)] .
    define P where "P j sh = (sh00_verify_share jac sh msg pk = Some True \<and> share_of_party (p * q) ?m x ?s j sh)"
      for j sh
    let ?f = "\<lambda>j. sh00_partial_sign jac msg label (?keys ! j) (r j)"
    have f: "\<exists>sh. ?f i = Some sh \<and> P i sh" if "i \<in> set js" for i
    proof -
      have "i < n" using that js(3) by auto
      then show ?thesis using sh00_honest_share [OF pk(2) x(1), of i label "r i"] pk(4) x(2) kn(2)
        by (auto simp: P_def share_of_party_def)
    qed
    obtain shares where sh: "mapM ?f js = Some shares" "list_all2 P js shares"
      using mapM_obtain [of js ?f P, OF f] by blast
    moreover have "\<forall>sh\<in>set shares. sh00_verify_share jac sh msg pk = Some True"
      using sh(2) by (auto simp: P_def list_all2_conv_all_nth in_set_conv_nth)
    moreover have "list_all2 (share_of_party (p * q) ?m x ?s) js shares"
      using sh(2) by (rule list_all2_mono) (simp add: P_def)
    from sh00_assemble_honest [OF pk(2), unfolded pk(3,4), OF h x js(1,3) kn(2) js(4) this]
    have "\<exists>sig. sh00_assemble jac shares msg pk = Some sig \<and> sh00_verify sig pk msg = Some True" .
    ultimately show ?thesis using True by auto
  next
    case False
    then have "sh00_H jac msg pk = None" using sh00_H_non_unit [of jac pk msg h] jac h(1) pk(3,4) by simp
    then show ?thesis using False by (simp add: sh00_assemble_def Let_def case_prod_beta)
  qed
  then show ?thesis using pk(1) h(1) n0 by (intro exI [of _ ?keys] exI [of _ pk] exI [of _ h]) simp
qed

definition unit_symbol :: "int \<Rightarrow> int \<Rightarrow> int" where
  "unit_symbol x N = (if coprime x N then 1 else 0)"

theorem sh00_threshold_signing_witness:
  "\<exists>keys pk h. sh00_make_keys unary_codec 2 2 512 17 (3, 7) (5, 11) 2 (\<lambda>_. 4) [2] = Some keys
    \<and> length keys = 2 \<and> pk = sh00sk_pubkey (keys ! 0) \<and> sh00_H1 [1, 2] (7 * 11) 512 = Some h
    \<and> (if coprime h (7 * 11)
       then (\<exists>shares. mapM (\<lambda>j. sh00_partial_sign unit_symbol [1, 2] [] (keys ! j) 9) [1, 0] = Some shares
         \<and> (\<forall>sh\<in>set shares. sh00_verify_share unit_symbol sh [1, 2] pk = Some True)
         \<and> (\<exists>sig. sh00_assemble unit_symbol shares [1, 2] pk = Some sig \<and> sh00_verify sig pk [1, 2] = Some True))
       else sh00_assemble unit_symbol [] [1, 2] pk = None)"
proof -
  have jac: "jacobi_ok unit_symbol (7 * 11)" by (auto simp: jacobi_ok_def unit_symbol_def)
  have p: "is_prime 7" "is_prime 11" by code_simp+
  have c: "coprime (17::int) (3 * 5)" "coprime (2::int) (7 * 11)" "coprime (fact 2 :: int) (3 * 5)"
    by code_simp+
  have u: "\<exists>u\<in>set [2::int]. (u ^ nat 3 mod 7 = 1) \<noteq> (u ^ nat 5 mod 11 = 1)" by simp
  have cu: "\<forall>u\<in>set [2::int]. coprime u (7 * 11)" using c(2) by simp
  show ?thesis
    by (rule sh00_threshold_signing [OF p _ _ _ _ _ c(1) unary_codec_ok _ _ _ c(3) _ c(2) cu u jac]) simp_all
qed

end
