(* ===== verification/QC_Keys.thy ===== *)
theory QC_Keys
  imports QC_Sg02 QC_Bz03 QC_Bls04 QC_Cks05 QC_Frost QC_Sh00
begin

text \<open>
  The unions over the schemes' keys (\<open>keys/keys.rs\<close>), their encodings and identifiers, and the
  dispatcher of \<open>KeyGenerator::generate_keys\<close> (\<open>keys/key_generator.rs\<close>).
\<close>

datatype 'p private_key_share =
    SkSg02 "'p sg02_private_key" | SkBz03 "'p dl_private_key" | SkBls04 "'p dl_private_key"
  | SkCks05 "'p dl_private_key" | SkSh00 sh00_private_key | SkFrost "'p dl_private_key"

datatype 'p public_key =
    PkSg02 "'p sg02_public_key" | PkBz03 "'p dl_public_key" | PkBls04 "'p dl_public_key"
  | PkCks05 "'p dl_public_key" | PkSh00 sh00_public_key | PkFrost "'p dl_public_key"

subsection \<open>Selectors\<close>

fun sk_get_scheme :: "'p private_key_share \<Rightarrow> threshold_scheme" where
  "sk_get_scheme (SkSg02 _) = Sg02"
| "sk_get_scheme (SkBz03 _) = Bz03"
| "sk_get_scheme (SkBls04 _) = Bls04"
| "sk_get_scheme (SkCks05 _) = Cks05"
| "sk_get_scheme (SkSh00 _) = Sh00"
| "sk_get_scheme (SkFrost _) = Frost"

fun sk_get_public_key :: "'p private_key_share \<Rightarrow> 'p public_key" where
  "sk_get_public_key (SkSg02 k) = PkSg02 (sg02sk_pubkey k)"
| "sk_get_public_key (SkBz03 k) = PkBz03 (dlsk_pubkey k)"
| "sk_get_public_key (SkBls04 k) = PkBls04 (dlsk_pubkey k)"
| "sk_get_public_key (SkCks05 k) = PkCks05 (dlsk_pubkey k)"
| "sk_get_public_key (SkSh00 k) = PkSh00 (sh00sk_pubkey k)"
| "sk_get_public_key (SkFrost k) = PkFrost (dlsk_pubkey k)"

fun sk_get_share_id :: "'p private_key_share \<Rightarrow> u16" where
  "sk_get_share_id (SkSg02 k) = sg02sk_id k"
| "sk_get_share_id (SkBz03 k) = dlsk_id k"
| "sk_get_share_id (SkBls04 k) = dlsk_id k"
| "sk_get_share_id (SkCks05 k) = dlsk_id k"
| "sk_get_share_id (SkSh00 k) = sh00sk_id k"
| "sk_get_share_id (SkFrost k) = dlsk_id k"

fun pk_get_key_id :: "'p public_key \<Rightarrow> bytes" where
  "pk_get_key_id (PkSg02 k) = sg02pk_id k"
| "pk_get_key_id (PkBz03 k) = dlpk_id k"
| "pk_get_key_id (PkBls04 k) = dlpk_id k"
| "pk_get_key_id (PkCks05 k) = dlpk_id k"
| "pk_get_key_id (PkSh00 k) = sh00pk_id k"
| "pk_get_key_id (PkFrost k) = dlpk_id k"

fun pk_get_scheme :: "'p public_key \<Rightarrow> threshold_scheme" where
  "pk_get_scheme (PkSg02 _) = Sg02"
| "pk_get_scheme (PkBz03 _) = Bz03"
| "pk_get_scheme (PkBls04 _) = Bls04"
| "pk_get_scheme (PkCks05 _) = Cks05"
| "pk_get_scheme (PkSh00 _) = Sh00"
| "pk_get_scheme (PkFrost _) = Frost"

definition pk_get_operation :: "'p public_key \<Rightarrow> threshold_operation" where
  "pk_get_operation k = get_operation (pk_get_scheme k)"

fun pk_get_group :: "'p public_key \<Rightarrow> group" where
  "pk_get_group (PkSg02 k) = sg02pk_group k"
| "pk_get_group (PkBz03 k) = dlpk_group k"
| "pk_get_group (PkBls04 k) = dlpk_group k"
| "pk_get_group (PkCks05 k) = dlpk_group k"
| "pk_get_group (PkSh00 k) = sh00pk_group k"
| "pk_get_group (PkFrost k) = dlpk_group k"

fun pk_get_threshold :: "'p public_key \<Rightarrow> u16" where
  "pk_get_threshold (PkSg02 k) = sg02pk_k k"
| "pk_get_threshold (PkBz03 k) = dlpk_k k"
| "pk_get_threshold (PkBls04 k) = dlpk_k k"
| "pk_get_threshold (PkCks05 k) = dlpk_k k"
| "pk_get_threshold (PkSh00 k) = sh00pk_t k"
| "pk_get_threshold (PkFrost k) = dlpk_k k"

fun pk_get_n :: "'p public_key \<Rightarrow> u16" where
  "pk_get_n (PkSg02 k) = sg02pk_n k"
| "pk_get_n (PkBz03 k) = dlpk_n k"
| "pk_get_n (PkBls04 k) = dlpk_n k"
| "pk_get_n (PkCks05 k) = dlpk_n k"
| "pk_get_n (PkSh00 k) = sh00pk_n k"
| "pk_get_n (PkFrost k) = dlpk_n k"

text \<open>The private key's identifier, group and threshold are those of its public key.\<close>

definition sk_get_key_id :: "'p private_key_share \<Rightarrow> bytes" where
  "sk_get_key_id k = pk_get_key_id (sk_get_public_key k)"

definition sk_get_group :: "'p private_key_share \<Rightarrow> group" where
  "sk_get_group k = pk_get_group (sk_get_public_key k)"

definition sk_get_threshold :: "'p private_key_share \<Rightarrow> u16" where
  "sk_get_threshold k = pk_get_threshold (sk_get_public_key k)"

subsection \<open>Encodings\<close>

fun sk_inner_to_bytes ::
  "codec \<Rightarrow> 'p curve_backend \<Rightarrow> 'p private_key_share \<Rightarrow> (scheme_error + bytes) may_panic" where
  "sk_inner_to_bytes C B (SkSg02 k) = sg02_sk_to_bytes C B k"
| "sk_inner_to_bytes C B (SkBz03 k) = dl_sk_to_bytes C B k"
| "sk_inner_to_bytes C B (SkBls04 k) = dl_sk_to_bytes C B k"
| "sk_inner_to_bytes C B (SkCks05 k) = dl_sk_to_bytes C B k"
| "sk_inner_to_bytes C B (SkSh00 k) = Some (sh00_sk_to_bytes C k)"
| "sk_inner_to_bytes C B (SkFrost k) = dl_sk_to_bytes C B k"

fun pk_inner_to_bytes ::
  "codec \<Rightarrow> 'p curve_backend \<Rightarrow> 'p public_key \<Rightarrow> (scheme_error + bytes) may_panic" where
  "pk_inner_to_bytes C B (PkSg02 k) = sg02_pk_to_bytes C B k"
| "pk_inner_to_bytes C B (PkBz03 k) = dl_pk_to_bytes C B k"
| "pk_inner_to_bytes C B (PkBls04 k) = dl_pk_to_bytes C B k"
| "pk_inner_to_bytes C B (PkCks05 k) = dl_pk_to_bytes C B k"
| "pk_inner_to_bytes C B (PkSh00 k) = Some (sh00_pk_to_bytes C k)"
| "pk_inner_to_bytes C B (PkFrost k) = dl_pk_to_bytes C B k"

abbreviation "AU8 (x :: u8) \<equiv> AInteger (uint x)"

definition sk_to_bytes ::
  "codec \<Rightarrow> 'p curve_backend \<Rightarrow> 'p private_key_share \<Rightarrow> (scheme_error + bytes) may_panic" where
  "sk_to_bytes C B k =
     map_option (write_seq_nested C [AU8 (scheme_get_id (sk_get_scheme k))]) (sk_inner_to_bytes C B k)"

definition pk_to_bytes ::
  "codec \<Rightarrow> 'p curve_backend \<Rightarrow> 'p public_key \<Rightarrow> (scheme_error + bytes) may_panic" where
  "pk_to_bytes C B k =
     map_option (write_seq_nested C [AU8 (scheme_get_id (pk_get_scheme k))]) (pk_inner_to_bytes C B k)"

definition wrap_key :: "('a \<Rightarrow> 'b) \<Rightarrow> (scheme_error + 'a) may_panic \<Rightarrow> (scheme_error + 'b) may_panic" where
  "wrap_key f = map_option (map_sum (\<lambda>e. e) f)"

fun sk_inner_from_bytes ::
  "codec \<Rightarrow> 'p curve_backend \<Rightarrow> threshold_scheme \<Rightarrow> bytes \<Rightarrow>
   (scheme_error + 'p private_key_share) may_panic" where
  "sk_inner_from_bytes C B Sg02 b = wrap_key SkSg02 (sg02_sk_from_bytes C B b)"
| "sk_inner_from_bytes C B Bz03 b = wrap_key SkBz03 (bz03_sk_from_bytes C B b)"
| "sk_inner_from_bytes C B Cks05 b = wrap_key SkCks05 (cks05_sk_from_bytes C B b)"
| "sk_inner_from_bytes C B Bls04 b = wrap_key SkBls04 (bls04_sk_from_bytes C B b)"
| "sk_inner_from_bytes C B Frost b = wrap_key SkFrost (frost_sk_from_bytes C B b)"
| "sk_inner_from_bytes C B Sh00 b = wrap_key SkSh00 (sh00_sk_from_bytes C b)"

fun pk_inner_from_bytes ::
  "codec \<Rightarrow> 'p curve_backend \<Rightarrow> threshold_scheme \<Rightarrow> bytes \<Rightarrow>
   (scheme_error + 'p public_key) may_panic" where
  "pk_inner_from_bytes C B Sg02 b = wrap_key PkSg02 (sg02_pk_from_bytes C B b)"
| "pk_inner_from_bytes C B Bz03 b = wrap_key PkBz03 (bz03_pk_from_bytes C B b)"
| "pk_inner_from_bytes C B Cks05 b = wrap_key PkCks05 (cks05_pk_from_bytes C B b)"
| "pk_inner_from_bytes C B Bls04 b = wrap_key PkBls04 (bls04_pk_from_bytes C B b)"
| "pk_inner_from_bytes C B Frost b = wrap_key PkFrost (frost_pk_from_bytes C B b)"
| "pk_inner_from_bytes C B Sh00 b = wrap_key PkSh00 (sh00_pk_from_bytes C b)"

definition sk_from_bytes ::
  "codec \<Rightarrow> 'p curve_backend \<Rightarrow> bytes \<Rightarrow> (scheme_error + 'p private_key_share) may_panic" where
  "sk_from_bytes C B bs = parse_seq C bs
     (read_u8 (\<lambda>i. read_octets (\<lambda>b.
      case scheme_from_id (word_of_int i) of None \<Rightarrow> read_fail | Some s \<Rightarrow>
      read_call (sk_inner_from_bytes C B s b) (\<lambda>r. case r of Inl _ \<Rightarrow> read_fail | Inr k \<Rightarrow> read_end k))))"

definition pk_from_bytes ::
  "codec \<Rightarrow> 'p curve_backend \<Rightarrow> bytes \<Rightarrow> (scheme_error + 'p public_key) may_panic" where
  "pk_from_bytes C B bs = parse_seq C bs
     (read_u8 (\<lambda>i. read_octets (\<lambda>b.
      case scheme_from_id (word_of_int i) of None \<Rightarrow> read_fail | Some s \<Rightarrow>
      read_call (pk_inner_from_bytes C B s b) (\<lambda>r. case r of Inl _ \<Rightarrow> read_fail | Inr k \<Rightarrow> read_end k))))"

definition sk_pem ::
  "codec \<Rightarrow> 'p curve_backend \<Rightarrow> 'p private_key_share \<Rightarrow> (scheme_error + bytes) may_panic" where
  "sk_pem C B k = map_option (map_sum (\<lambda>e. e) (b64_url C)) (sk_to_bytes C B k)"

definition pk_pem ::
  "codec \<Rightarrow> 'p curve_backend \<Rightarrow> 'p public_key \<Rightarrow> (scheme_error + bytes) may_panic" where
  "pk_pem C B k = map_option (map_sum (\<lambda>e. e) (b64_url C)) (pk_to_bytes C B k)"

definition sk_from_pem ::
  "codec \<Rightarrow> 'p curve_backend \<Rightarrow> bytes \<Rightarrow> (scheme_error + 'p private_key_share) may_panic" where
  "sk_from_pem C B pem =
     (case b64_decode C pem of None \<Rightarrow> Some (Err DeserializationFailed) | Some b \<Rightarrow> sk_from_bytes C B b)"

definition pk_from_pem ::
  "codec \<Rightarrow> 'p curve_backend \<Rightarrow> bytes \<Rightarrow> (scheme_error + 'p public_key) may_panic" where
  "pk_from_pem C B pem =
     (case b64_decode C pem of None \<Rightarrow> Some (Err DeserializationFailed) | Some b \<Rightarrow> pk_from_bytes C B b)"

definition key2id :: "codec \<Rightarrow> 'p curve_backend \<Rightarrow> 'p public_key \<Rightarrow> bytes may_panic" where
  "key2id C B k = do {
     res \<leftarrow> pk_to_bytes C B k;
     bs \<leftarrow> unwrap res;
     inner \<leftarrow> parse_seq C bs (read_u8 (\<lambda>_. read_octets (\<lambda>b. read_end b)));
     b \<leftarrow> unwrap inner;
     calc_key_id C b
   }"

subsection \<open>Key generation\<close>

text \<open>
  What one call of \<open>generate_keys\<close> draws: \<open>x\<close> and the coefficients of its sharing, the exponent of
  \<open>g_bar\<close>, and for RSA the candidates of the two primes, the base of \<open>v\<close> and the candidates of
  \<open>u\<close>.
\<close>

record key_draws =
  kd_x :: int
  kd_rnd :: "nat \<Rightarrow> int"
  kd_t :: int
  kd_pcands :: "int list"
  kd_qcands :: "int list"
  kd_v :: int
  kd_us :: "int list"

definition wrap_keys ::
  "('a \<Rightarrow> 'b) \<Rightarrow> (scheme_error + 'a list) may_panic \<Rightarrow> (scheme_error + 'b list) may_panic" where
  "wrap_keys f = map_option (map_sum (\<lambda>e. e) (map f))"

definition generate_keys ::
  "codec \<Rightarrow> 'p curve_backend \<Rightarrow> (int \<Rightarrow> bool) \<Rightarrow> nat \<Rightarrow> nat \<Rightarrow> threshold_scheme \<Rightarrow> group \<Rightarrow>
   int option \<Rightarrow> key_draws \<Rightarrow> (scheme_error + 'p private_key_share list) may_panic" where
  "generate_keys C B is_prime_test k n scheme g params dr =
     (if n < k \<or> n < 1 then Some (Err (InvalidParams None))
      else case scheme of
        Bz03 \<Rightarrow> wrap_keys SkBz03 (bz03_generate_keys C B k n g (kd_x dr) (kd_rnd dr))
      | Sg02 \<Rightarrow> wrap_keys SkSg02 (sg02_generate_keys C B k n g (kd_x dr) (kd_rnd dr) (kd_t dr))
      | Bls04 \<Rightarrow> wrap_keys SkBls04 (bls04_generate_keys C B k n g (kd_x dr) (kd_rnd dr))
      | Cks05 \<Rightarrow> wrap_keys SkCks05 (cks05_generate_keys C B k n g (kd_x dr) (kd_rnd dr))
      | Frost \<Rightarrow> wrap_keys SkFrost (frost_generate_keys C B k n g (kd_x dr) (kd_rnd dr))
      | Sh00 \<Rightarrow> wrap_keys SkSh00 (sh00_generate_keys C is_prime_test k n g params
                  (kd_pcands dr) (kd_qcands dr) (kd_v dr) (kd_rnd dr) (kd_us dr)))"

end
