(* ===== verification/QC_KeyCodec.thy ===== *)
theory QC_KeyCodec
  imports QC_Keys
begin

text \<open>
  Encodings of generated keys: every key that \<open>generate_keys\<close> returns can be written, read back
  unchanged, and carries the identifier that \<open>key2id\<close> computes for it.
\<close>

subsection \<open>Keys of the discrete-log schemes\<close>

lemma mod_in_range:
  fixes a q b :: int
  assumes "0 < q" "q \<le> b"
  shows "0 \<le> a mod q" "a mod q < b"
  using assms pos_mod_bound [of q a] by (simp, linarith)

lemma dl_generated_keys_codec:
  fixes B :: "'p curve_backend"
  assumes ok: "curve_ok B g 0" "curve_ok B g yi" "codec_ok C" "point_codec_ok B g 0" "point_codec_ok B g yi"
    and kn: "0 < k" "n \<le> 65535" "cb_order B g \<le> 256 ^ modbytes g"
    and draws: "draws_ok (cb_order B g) rnd" "0 \<le> x" "x < cb_order B g"
    and ix: "bi = Some yi \<or> yi = 0 \<and> bi = None" "vi = None \<or> vi = Some 0"
    and keys: "dl_make_keys C B k n g x rnd (gpow B g yi x) = Some keys" "sk \<in> set keys"
  shows "\<exists>b pb. dl_sk_to_bytes C B sk = Some (Ok b) \<and> dl_sk_from_bytes C B bi vi b = Some (Ok sk)
    \<and> dl_pk_to_bytes C B (dlsk_pubkey sk) = Some (Ok pb)
    \<and> dl_pk_from_bytes C B bi vi pb = Some (Ok (dlsk_pubkey sk))
    \<and> calc_key_id C pb = Some (dlpk_id (dlsk_pubkey sk))"
proof -
  let ?f = "shamir_poly x k rnd"
  obtain pk pb where pk: "keys = map (party_key B ?f pk) [0..<n]" "dl_key_ok B g yi ?f n pk"
      "dlpk_n pk = of_nat n" "dl_pk_to_bytes C B pk = Some (Ok pb)" "calc_key_id C pb = Some (dlpk_id pk)"
    using dl_make_keys_ok [OF ok(1-3) kn(1) draws, of n] keys(1) by auto
  obtain i where sk: "sk = party_key B ?f pk i" using keys(2) pk(1) by auto
  have n: "n = unat (dlpk_n pk)" using pk(3) kn(2) by (simp add: unat_of_nat)
  have xi: "0 \<le> ?f (int i + 1) mod cb_order B g" "?f (int i + 1) mod cb_order B g < 256 ^ modbytes g"
    by (rule mod_in_range [OF curve_ok_pos [OF ok(1)] kn(3)])+
  have g: "dlpk_group pk = g" using pk(2) by (simp add: dl_key_ok_def)
  have p: "dlsk_pubkey sk = pk" and e: "dlsk_xi sk = SBI g (?f (int i + 1) mod cb_order B g)" by (simp_all add: sk g)
  from dl_sk_roundtrip [where sk = sk, unfolded p, OF ok(1,2) pk(2) ok(3-5) n ix pk(4,5) e xi]
    dl_pk_roundtrip [OF ok(1,2) pk(2) ok(3-5) n ix pk(4,5)] pk(4,5)
  show ?thesis unfolding p by blast
qed

subsection \<open>Keys of SG02\<close>

lemma sg02_pk_codec:
  fixes B :: "'p curve_backend"
  assumes ok: "curve_ok B g 0" "sg02_key_ok B g f n pk" "codec_ok C" "point_codec_ok B g 0"
    "n = unat (sg02pk_n pk)"
    and pb: "sg02_pk_to_bytes C B pk = Some (Ok pb)" "calc_key_id C pb = Some (sg02pk_id pk)"
  shows "sg02_pk_from_bytes C B pb = Some (Ok pk)"
proof -
  note es = sg02_pk_elements_ok [OF ok(1,2)]
  obtain t where key: "sg02pk_group pk = g" "sg02pk_y pk = gpow B g 0 (f 0)" "sg02pk_g_bar pk = gpow B g 0 t"
    "sg02pk_verification_key pk = vk_of B g f n" using ok(2) by (auto simp: sg02_key_ok_def)
  have "AMalformed \<notin> set (the (sg02_pk_elements B pk))" using es by auto
  then have parse: "asn_parse C pb = the (sg02_pk_elements B pk)"
    using pb(1) es by (elim write_seq_okE [OF ok(3)]) (auto simp: sg02_pk_to_bytes_def)
  have r: "ge_from_bytes B (cb_tobytes B g 0 (ge_val (gpow B g 0 a))) g None = Some (gpow B g 0 a)" for a
    using ge_from_to_bytes_gpow(2) [OF ok(1,4)] by simp
  have v: "ge_from_bytes B (cb_tobytes B g 0 (ge_val v)) g None = Some v" if "v \<in> set (vk_of B g f n)" for v
    using that r by (auto dest!: vk_ofD)
  have "read_many (unat (sg02pk_n pk)) (\<lambda>b. ge_from_bytes B b g None) q
      (map (\<lambda>v. AOctets (cb_tobytes B g 0 (ge_val v))) (vk_of B g f n) @ rest) = q (vk_of B g f n) rest"
    for q :: "'p group_element list \<Rightarrow> 'p sg02_public_key reader" and rest
    using read_many_map [of "vk_of B g f n" "\<lambda>b. ge_from_bytes B b g None"
        "\<lambda>v. cb_tobytes B g 0 (ge_val v)" q rest] v ok(5) by simp
  then show ?thesis using parse es key pb(2) r
    by (simp add: sg02_pk_from_bytes_def parse_seq_def)
qed

lemma sg02_generated_keys_codec:
  fixes B :: "'p curve_backend"
  assumes ok: "curve_ok B g 0" "codec_ok C" "point_codec_ok B g 0"
    and kn: "0 < k" "0 < n" "n \<le> 65535" "cb_order B g \<le> 256 ^ modbytes g"
    and draws: "draws_ok (cb_order B g) rnd" "0 \<le> x" "x < cb_order B g" "0 \<le> t"
    and keys: "sg02_generate_keys C B k n g x rnd t = Some (Ok keys)" "sk \<in> set keys"
  shows "\<exists>b pb. sg02_sk_to_bytes C B sk = Some (Ok b) \<and> sg02_sk_from_bytes C B b = Some (Ok sk)
    \<and> sg02_pk_to_bytes C B (sg02sk_pubkey sk) = Some (Ok pb)
    \<and> sg02_pk_from_bytes C B pb = Some (Ok (sg02sk_pubkey sk))
    \<and> calc_key_id C pb = Some (sg02pk_id (sg02sk_pubkey sk))"
proof -
  let ?f = "shamir_poly x k rnd"
  obtain pk where pk: "keys = map (\<lambda>i. sg02_sk_new (of_nat (i + 1)) (SBI g (?f (int (i + 1)) mod cb_order B g)) pk) [0..<n]"
      "sg02_key_ok B g ?f n pk" "sg02pk_n pk = of_nat n"
      "\<exists>pb. sg02_pk_to_bytes C B pk = Some (Ok pb) \<and> calc_key_id C pb = Some (sg02pk_id pk)"
    using sg02_generate_keys_ok [OF ok(1,2) kn(1-3) draws] keys(1) by auto
  obtain pb where pb: "sg02_pk_to_bytes C B pk = Some (Ok pb)" "calc_key_id C pb = Some (sg02pk_id pk)"
    using pk(4) by blast
  obtain i where sk: "sk = sg02_sk_new (of_nat (i + 1)) (SBI g (?f (int (i + 1)) mod cb_order B g)) pk"
    using keys(2) pk(1) by auto
  let ?xi = "?f (int (i + 1)) mod cb_order B g"
  have n: "n = unat (sg02pk_n pk)" using pk(3) kn(3) by (simp add: unat_of_nat)
  have xi: "0 \<le> ?xi" "?xi < 256 ^ modbytes g"
    by (rule mod_in_range [OF curve_ok_pos [OF ok(1)] kn(4)])+
  have rt: "sg02_pk_from_bytes C B pb = Some (Ok pk)"
    by (rule sg02_pk_codec [OF ok(1) pk(2) ok(2,3) n pb])
  let ?es = "[AU16 (sg02sk_id sk), AOctets (sb_to_bytes (SBI g ?xi)), AOctets pb]"
  obtain b where b: "write_seq C ?es = Ok b" "asn_parse C b = ?es"
    using write_seq_okE [OF ok(2), of ?es] by auto
  have "sb_from_bytes g (sb_to_bytes (SBI g ?xi)) = Some (SBI g ?xi)"
    using sb_bytes_roundtrip [OF _ xi] curve_ok_dl [OF ok(1)] by simp
  then have "sg02_sk_to_bytes C B sk = Some (Ok b) \<and> sg02_sk_from_bytes C B b = Some (Ok sk)"
    using b pb(1) rt pk(2)
    by (simp add: sk sg02_sk_new_def sg02_sk_to_bytes_def write_seq_nested_def sg02_sk_from_bytes_def
        parse_seq_def sg02_key_ok_def)
  then show ?thesis using pb rt by (auto simp: sk sg02_sk_new_def)
qed

subsection \<open>Keys of SH00\<close>

lemma be_value_nat_bytes: "be_value (nat_bytes v) = int v"
proof (induction v rule: nat_bytes.induct)
  case (1 v)
  show ?case
  proof (cases "v = 0")
    case False
    have "uint (of_nat (v mod 256) :: u8) = int (v mod 256)" by (simp add: unsigned_of_nat take_bit_nat_eq_self)
    moreover have "int (v div 256) * 256 + int (v mod 256) = int v" by (simp add: of_nat_div of_nat_mod)
    ultimately show ?thesis using 1 False by (simp add: nat_bytes.simps [of v] be_value_snoc del: of_nat_mod)
  qed (simp add: nat_bytes.simps be_value_def)
qed

lemma bi_bytes_roundtrip [simp]: "0 \<le> x \<Longrightarrow> bi_from_bytes (bi_to_bytes x) = x"
  by (simp add: bi_from_bytes_def bi_to_bytes_def be_value_nat_bytes)

lemma read_u64_nat: "m < 2 ^ 64 \<Longrightarrow> read_u64 k (AInteger (int m) # es) = k (int m) es"
  by (simp add: read_u64.simps(1))

definition sh00_vk_nonneg :: "sh00_verification_key \<Rightarrow> bool" where
  "sh00_vk_nonneg vk = (0 \<le> sh00vk_v vk \<and> 0 \<le> sh00vk_u vk \<and> (\<forall>x\<in>set (sh00vk_vi vk). 0 \<le> x)
     \<and> length (sh00vk_vi vk) \<le> 65535)"

definition sh00_pk_nonneg :: "sh00_public_key \<Rightarrow> bool" where
  "sh00_pk_nonneg pk = (sh00_vk_nonneg (sh00pk_verification_key pk) \<and> 0 \<le> sh00pk_N pk \<and> 0 \<le> sh00pk_e pk
     \<and> 0 \<le> sh00pk_delta pk \<and> mb2group (sh00pk_modbits pk) = Some (sh00pk_group pk))"

lemma sh00_vk_codec:
  assumes "codec_ok C" "sh00_vk_nonneg vk" "sh00_vk_to_bytes C vk = Ok vb"
  shows "sh00_vk_from_bytes C vb = Some (Ok vk)"
proof -
  obtain vb' where vb': "sh00_vk_to_bytes C vk = Ok vb'"
    "asn_parse C vb' = [ABig (sh00vk_v vk), AInteger (int (length (sh00vk_vi vk)))]
      @ map ABig (sh00vk_vi vk) @ [ABig (sh00vk_u vk)]" using sh00_vk_to_bytes_ok [OF assms(1)] .
  have len: "length (sh00vk_vi vk) < 2 ^ 64" "unat (word_of_int (int (length (sh00vk_vi vk))) :: u16) = length (sh00vk_vi vk)"
    using assms(2) by (simp_all add: sh00_vk_nonneg_def unat_of_nat)
  have "read_many (length (sh00vk_vi vk)) (\<lambda>b. Some (bi_from_bytes b)) q (map ABig (sh00vk_vi vk) @ rest)
      = q (sh00vk_vi vk) rest" for q :: "int list \<Rightarrow> sh00_verification_key reader" and rest
    using read_many_map [of "sh00vk_vi vk" "\<lambda>b. Some (bi_from_bytes b)" bi_to_bytes q rest] assms(2)
    by (simp add: sh00_vk_nonneg_def)
  then show ?thesis using vb' assms(2,3) len
    by (simp add: sh00_vk_from_bytes_def parse_seq_def read_u64_nat sh00_vk_nonneg_def)
qed

lemma mb2group_bound: "mb2group m = Some g \<Longrightarrow> m < 2 ^ 64"
  by (auto simp: mb2group_def split: if_splits)

lemma sh00_pk_codec:
  assumes "codec_ok C" "sh00_pk_nonneg pk" "sh00_pk_to_bytes C pk = Ok pb" "calc_key_id C pb = Some (sh00pk_id pk)"
  shows "sh00_pk_from_bytes C pb = Some (Ok pk)"
proof -
  obtain bs vb where bs: "sh00_pk_to_bytes C pk = Ok bs" "sh00_vk_to_bytes C (sh00pk_verification_key pk) = Ok vb"
    "asn_parse C bs = [AU16 (sh00pk_n pk), AU16 (sh00pk_t pk), ABig (sh00pk_N pk), ABig (sh00pk_e pk),
      AOctets vb, ABig (sh00pk_delta pk), AInteger (int (sh00pk_modbits pk))]"
    using sh00_pk_to_bytes_ok [OF assms(1)] .
  have "sh00_vk_from_bytes C vb = Some (Ok (sh00pk_verification_key pk))"
    using sh00_vk_codec [OF assms(1) _ bs(2)] assms(2) by (simp add: sh00_pk_nonneg_def)
  moreover have "sh00pk_modbits pk < 2 ^ 64" using assms(2) mb2group_bound by (auto simp: sh00_pk_nonneg_def)
  ultimately show ?thesis using bs(1,3) assms(2-4)
    by (simp add: sh00_pk_from_bytes_def parse_seq_def read_u64_nat sh00_pk_nonneg_def)
qed

lemma sh00_sk_codec:
  assumes "codec_ok C" "sh00_pk_nonneg (sh00sk_pubkey sk)" "0 \<le> sh00sk_m sk" "0 \<le> sh00sk_si sk"
    "sh00_pk_to_bytes C (sh00sk_pubkey sk) = Ok pb" "calc_key_id C pb = Some (sh00pk_id (sh00sk_pubkey sk))"
  shows "\<exists>b. sh00_sk_to_bytes C sk = Ok b \<and> sh00_sk_from_bytes C b = Some (Ok sk)"
proof -
  let ?es = "[AU16 (sh00sk_id sk), ABig (sh00sk_m sk), ABig (sh00sk_si sk), AOctets pb]"
  obtain b where b: "write_seq C ?es = Ok b" "asn_parse C b = ?es"
    using write_seq_okE [OF assms(1), of ?es] by auto
  then show ?thesis using assms sh00_pk_codec [OF assms(1,2,5,6)]
    by (simp add: sh00_sk_to_bytes_def write_seq_nested_def sh00_sk_from_bytes_def parse_seq_def)
qed

lemma bi_rmod_nonneg: "bi_rmod x m = Some y \<Longrightarrow> 0 \<le> y"
  by (auto simp: bi_rmod_def split: if_splits)

lemma bi_pow_mod_nonneg: "bi_pow_mod x e m = Some y \<Longrightarrow> 0 \<le> y"
  by (auto simp: bi_pow_mod_def bind_eq_Some_conv dest: bi_rmod_nonneg split: if_splits)

lemma gen_strong_prime_nonneg:
  assumes "\<forall>c\<in>set cands. 0 \<le> c" "gen_strong_prime t e p0 cands = Some (p1, p)"
  shows "0 \<le> p1 \<and> 0 \<le> p"
  using assms
proof (induction cands arbitrary: p0)
  case (Cons c cands)
  obtain a b ok where r: "strong_prime_round t e p0 c = Some (a, b, ok)"
    using Cons(3) by (auto simp: bind_eq_Some_conv)
  show ?case
  proof (cases ok)
    case True
    then have "p1 = a" "p = b" using Cons(3) r by auto
    then show ?thesis using r True Cons(2)
      by (auto simp: strong_prime_round_def Let_def bind_eq_Some_conv split: if_splits)
  next
    case False
    then show ?thesis using Cons r by auto
  qed
qed simp

lemma mapM_SomeD: "mapM f xs = Some ys \<Longrightarrow> length ys = length xs \<and> (\<forall>y\<in>set ys. \<exists>x\<in>set xs. f x = Some y)"
  by (induction xs arbitrary: ys) (fastforce simp: bind_eq_Some_conv)+

lemma shamir_share_rsa_nonneg:
  assumes "shamir_share_rsa d k n N m v rnd = Some (xi, vi)"
  shows "length vi = n \<and> length xi = n \<and> (\<forall>x\<in>set vi. 0 \<le> x) \<and> (\<forall>i<n. 0 \<le> snd (xi ! i))"
proof -
  obtain di ds where ds: "mapM (\<lambda>i. do {
       t \<leftarrow> foldM (shamir_rsa_term m (d # map rnd [1..<k]) (int i + 1)) 0 [0..<k];
       bi_mul_mod t di m }) [0..<n] = Some ds" "mapM (\<lambda>s. bi_pow_mod v s N) ds = Some vi"
      "xi = zip (map (\<lambda>i. of_nat (i + 1)) [0..<n]) ds"
    using assms by (auto simp: shamir_share_rsa_def Let_def bind_eq_Some_conv)
  have len: "length ds = n" "length vi = n" using mapM_SomeD [OF ds(1)] mapM_SomeD [OF ds(2)] by auto
  have "\<forall>y\<in>set ds. 0 \<le> y" using mapM_SomeD [OF ds(1)]
    by (auto simp: bind_eq_Some_conv bi_mul_mod_def dest!: bi_rmod_nonneg)
  moreover have "\<forall>y\<in>set vi. 0 \<le> y" using mapM_SomeD [OF ds(2)] by (auto dest: bi_pow_mod_nonneg)
  ultimately show ?thesis using len ds(3) by simp
qed

lemma sh00_pk_new_SomeD:
  assumes "sh00_pk_new C n t N e vk delta modbits = Some pk"
  shows "\<exists>g i pb. mb2group modbits = Some g
    \<and> pk = \<lparr>sh00pk_id = i, sh00pk_t = t, sh00pk_n = n, sh00pk_N = N, sh00pk_e = e,
        sh00pk_verification_key = vk, sh00pk_delta = delta, sh00pk_modbits = modbits, sh00pk_group = g\<rparr>
    \<and> sh00_pk_to_bytes C pk = Ok pb \<and> calc_key_id C pb = Some i"
proof -
  let ?k = "\<lambda>g i. \<lparr>sh00pk_id = i, sh00pk_t = t, sh00pk_n = n, sh00pk_N = N, sh00pk_e = e,
        sh00pk_verification_key = vk, sh00pk_delta = delta, sh00pk_modbits = modbits, sh00pk_group = g\<rparr>"
  obtain g bs i where *: "mb2group modbits = Some g" "sh00_pk_to_bytes C (?k g []) = Ok bs"
      "calc_key_id C bs = Some i" "pk = ?k g i"
    using assms by (auto simp: sh00_pk_new_def Let_def bind_eq_Some_conv unwrap_Some_iff)
  moreover have "sh00_pk_to_bytes C (?k g i) = sh00_pk_to_bytes C (?k g [])"
    by (cases "sh00_vk_to_bytes C vk") (simp_all add: sh00_pk_to_bytes_def)
  ultimately show ?thesis by auto
qed

lemma sh00_generated_keys_codec:
  assumes ok: "codec_ok C" and n: "n \<le> 65535"
    and draws: "\<forall>c\<in>set pcands. 0 \<le> c" "\<forall>c\<in>set qcands. 0 \<le> c" "\<forall>u\<in>set us. 0 \<le> u"
      "\<forall>e. params = Some e \<longrightarrow> 0 \<le> e"
    and keys: "sh00_generate_keys C is_prime_test k n g params pcands qcands v0 rnd us = Some (Ok keys)" "sk \<in> set keys"
  shows "\<exists>b pb. sh00_sk_to_bytes C sk = Ok b \<and> sh00_sk_from_bytes C b = Some (Ok sk)
    \<and> sh00_pk_to_bytes C (sh00sk_pubkey sk) = Ok pb
    \<and> sh00_pk_from_bytes C pb = Some (Ok (sh00sk_pubkey sk))
    \<and> calc_key_id C pb = Some (sh00pk_id (sh00sk_pubkey sk))"
proof -
  let ?e = "case params of None \<Rightarrow> 65537 | Some e' \<Rightarrow> e'"
  obtain modsize p1 p q1 q where pq: "gen_strong_prime is_prime_test ?e 0 pcands = Some (p1, p)"
      "gen_strong_prime is_prime_test ?e 0 qcands = Some (q1, q)"
      "sh00_make_keys C k n modsize ?e (p1, p) (q1, q) v0 rnd us = Some keys"
    using keys(1) by (auto simp: sh00_generate_keys_def Let_def bind_eq_Some_conv split: if_splits option.splits)
  obtain v d xi vi u pk where mk: "bi_rmod (v0\<^sup>2) (p * q) = Some v"
      "shamir_share_rsa d k n (p * q) (p1 * q1) v rnd = Some (xi, vi)" "sh00_find_u p1 p q1 q us = Some u"
      "sh00_pk_new C (of_nat n) (of_nat k) (p * q) ?e \<lparr>sh00vk_v = v, sh00vk_vi = vi, sh00vk_u = u\<rparr>
             (fac (int n)) modsize = Some pk"
      "keys = map (\<lambda>i. sh00_sk_new (fst (xi ! i)) (p1 * q1) (snd (xi ! i)) pk) [0..<n]"
    using pq(3) by (auto simp: sh00_make_keys_def Let_def bind_eq_Some_conv)
  have u: "u \<in> set us" using mk(3) by (induction us) (auto simp: bind_eq_Some_conv split: if_splits)
  have e: "0 \<le> ?e" using draws(4) by (simp split: option.splits)
  note nn = gen_strong_prime_nonneg [OF draws(1) pq(1)] gen_strong_prime_nonneg [OF draws(2) pq(2)]
    shamir_share_rsa_nonneg [OF mk(2)] bi_rmod_nonneg [OF mk(1)]
  obtain pb where pk: "sh00_pk_nonneg pk" "sh00_pk_to_bytes C pk = Ok pb" "calc_key_id C pb = Some (sh00pk_id pk)"
    using sh00_pk_new_SomeD [OF mk(4)] nn u draws(3) e n
    by (auto simp: sh00_pk_nonneg_def sh00_vk_nonneg_def fac_fact)
  obtain i where sk: "i < n" "sk = sh00_sk_new (fst (xi ! i)) (p1 * q1) (snd (xi ! i)) pk"
    using keys(2) mk(5) by auto
  have "\<exists>b. sh00_sk_to_bytes C sk = Ok b \<and> sh00_sk_from_bytes C b = Some (Ok sk)"
    using sh00_sk_codec [OF ok, of sk pb] pk nn sk by (simp add: sh00_sk_new_def)
  then show ?thesis using pk sh00_pk_codec [OF ok pk] by (auto simp: sk sh00_sk_new_def)
qed

subsection \<open>Property\<close>

text \<open>
  The draws of a call: each is below the bound it is asked for, so it is not negative.
\<close>

definition key_draws_ok :: "'p curve_backend \<Rightarrow> threshold_scheme \<Rightarrow> group \<Rightarrow> int option \<Rightarrow> key_draws \<Rightarrow> bool" where
  "key_draws_ok B scheme g params dr =
     (if scheme = Sh00
      then (\<forall>c\<in>set (kd_pcands dr @ kd_qcands dr @ kd_us dr). 0 \<le> c) \<and> (\<forall>e. params = Some e \<longrightarrow> 0 \<le> e)
      else draws_ok (cb_order B g) (kd_rnd dr) \<and> 0 \<le> kd_x dr \<and> kd_x dr < cb_order B g \<and> 0 \<le> kd_t dr)"

text \<open>What the keys of a group need of the curve backend.\<close>

definition group_backend_ok :: "'p curve_backend \<Rightarrow> threshold_scheme \<Rightarrow> group \<Rightarrow> bool" where
  "group_backend_ok B scheme g =
     (scheme \<noteq> Sh00 \<longrightarrow> curve_ok B g 0 \<and> point_codec_ok B g 0 \<and> cb_order B g \<le> 256 ^ modbytes g
        \<and> (scheme = Bz03 \<longrightarrow> curve_ok B g 1 \<and> point_codec_ok B g 1))"

lemma wrap_keys_OkD: "wrap_keys f r = Some (Ok ks) \<Longrightarrow> \<exists>ks'. r = Some (Ok ks') \<and> ks = map f ks'"
  unfolding wrap_keys_def by (cases r) (auto elim: sum.exhaust simp: map_sum_def split: sum.splits)

definition key_encodes :: "codec \<Rightarrow> 'p curve_backend \<Rightarrow> 'p private_key_share \<Rightarrow> bool" where
  "key_encodes C B sk = (\<exists>b pb. sk_inner_to_bytes C B sk = Some (Ok b)
     \<and> sk_inner_from_bytes C B (sk_get_scheme sk) b = Some (Ok sk)
     \<and> pk_inner_to_bytes C B (sk_get_public_key sk) = Some (Ok pb)
     \<and> pk_inner_from_bytes C B (sk_get_scheme sk) pb = Some (Ok (sk_get_public_key sk))
     \<and> calc_key_id C pb = Some (sk_get_key_id sk))"

lemma generated_key_encodes:
  fixes B :: "'p curve_backend"
  assumes ok: "codec_ok C" "group_backend_ok B scheme g" and kn: "0 < k" "n \<le> 65535"
    and draws: "key_draws_ok B scheme g params dr"
    and keys: "generate_keys C B is_prime_test k n scheme g params dr = Some (Ok keys)" "sk \<in> set keys"
  shows "key_encodes C B sk"
proof -
  have n0: "0 < n" using keys(1) by (auto simp: generate_keys_def split: if_splits)
  have dl: "curve_ok B g 0" "point_codec_ok B g 0" "cb_order B g \<le> 256 ^ modbytes g" "draws_ok (cb_order B g) (kd_rnd dr)"
      "0 \<le> kd_x dr" "kd_x dr < cb_order B g" "0 \<le> kd_t dr" if "scheme \<noteq> Sh00"
    using that ok(2) draws by (auto simp: group_backend_ok_def key_draws_ok_def)
  note codec0 = dl_generated_keys_codec [OF dl(1) dl(1) ok(1) dl(2) dl(2) kn(1,2) dl(3-6)]
  show ?thesis
  proof (cases scheme)
    case Bz03
    then have g1: "curve_ok B g 1" "point_codec_ok B g 1" and d: "scheme \<noteq> Sh00"
      using ok(2) by (auto simp: group_backend_ok_def)
    obtain ks where ks: "keys = map SkBz03 ks" "dl_make_keys C B k n g (kd_x dr) (kd_rnd dr) (gpow B g 1 (kd_x dr)) = Some ks"
      using keys(1) Bz03 g1(1) dl(5) [OF d]
      by (auto simp: generate_keys_def bz03_generate_keys_def bind_eq_Some_conv ge_simps dest!: wrap_keys_OkD split: if_splits)
    then show ?thesis using keys(2) dl_generated_keys_codec [OF dl(1) g1(1) ok(1) dl(2) g1(2) kn(1,2) dl(3-6) _ _ ks(2),
        OF d d d d d d, of "Some 1" None]
      by (fastforce simp: key_encodes_def sk_get_key_id_def wrap_key_def bz03_sk_from_bytes_def bz03_pk_from_bytes_def)
  next
    case Sg02
    then have d: "scheme \<noteq> Sh00" by simp
    obtain ks where ks: "keys = map SkSg02 ks" "sg02_generate_keys C B k n g (kd_x dr) (kd_rnd dr) (kd_t dr) = Some (Ok ks)"
      using keys(1) Sg02 by (auto simp: generate_keys_def dest!: wrap_keys_OkD split: if_splits)
    then show ?thesis using keys(2) sg02_generated_keys_codec [OF dl(1) ok(1) dl(2) kn(1) n0 kn(2) dl(3-7) ks(2), OF d d d d d d d]
      by (fastforce simp: key_encodes_def sk_get_key_id_def wrap_key_def)
  next
    case Bls04
    then have d: "scheme \<noteq> Sh00" by simp
    obtain ks where ks: "keys = map SkBls04 ks" "dl_make_keys C B k n g (kd_x dr) (kd_rnd dr) (gpow B g 0 (kd_x dr)) = Some ks"
      using keys(1) Bls04 dl(1,5) [OF d]
      by (auto simp: generate_keys_def bls04_generate_keys_def bind_eq_Some_conv ge_simps dest!: wrap_keys_OkD split: if_splits)
    then show ?thesis using keys(2) codec0 [OF d d d d d d d d _ _ ks(2), of None "Some 0"]
      by (fastforce simp: key_encodes_def sk_get_key_id_def wrap_key_def bls04_sk_from_bytes_def bls04_pk_from_bytes_def)
  next
    case Cks05
    then have d: "scheme \<noteq> Sh00" by simp
    obtain ks where ks: "keys = map SkCks05 ks" "dl_make_keys C B k n g (kd_x dr) (kd_rnd dr) (gpow B g 0 (kd_x dr)) = Some ks"
      using keys(1) Cks05 dl(1,5) [OF d]
      by (auto simp: generate_keys_def cks05_generate_keys_def bind_eq_Some_conv ge_simps dest!: wrap_keys_OkD split: if_splits)
    then show ?thesis using keys(2) codec0 [OF d d d d d d d d _ _ ks(2), of None None]
      by (fastforce simp: key_encodes_def sk_get_key_id_def wrap_key_def cks05_sk_from_bytes_def cks05_pk_from_bytes_def)
  next
    case Frost
    then have d: "scheme \<noteq> Sh00" by simp
    obtain ks where ks: "keys = map SkFrost ks" "dl_make_keys C B k n g (kd_x dr) (kd_rnd dr) (gpow B g 0 (kd_x dr)) = Some ks"
      using keys(1) Frost dl(1,5) [OF d]
      by (auto simp: generate_keys_def frost_generate_keys_def bind_eq_Some_conv ge_simps dest!: wrap_keys_OkD split: if_splits)
    then show ?thesis using keys(2) codec0 [OF d d d d d d d d _ _ ks(2), of None None]
      by (fastforce simp: key_encodes_def sk_get_key_id_def wrap_key_def frost_sk_from_bytes_def frost_pk_from_bytes_def)
  next
    case Sh00
    obtain ks where ks: "keys = map SkSh00 ks" "sh00_generate_keys C is_prime_test k n g params
        (kd_pcands dr) (kd_qcands dr) (kd_v dr) (kd_rnd dr) (kd_us dr) = Some (Ok ks)"
      using keys(1) Sh00 by (auto simp: generate_keys_def dest!: wrap_keys_OkD split: if_splits)
    then show ?thesis using keys(2) sh00_generated_keys_codec [OF ok(1) kn(2) _ _ _ _ ks(2)] draws Sh00
      by (fastforce simp: key_encodes_def sk_get_key_id_def wrap_key_def key_draws_ok_def)
  qed
qed

lemma scheme_id_roundtrip [simp]: "scheme_from_id (scheme_get_id s) = Some s"
  by (cases s) (simp_all add: scheme_from_id_def scheme_get_id_def scheme_from_i32_def)

lemma pk_scheme_of_sk [simp]: "pk_get_scheme (sk_get_public_key sk) = sk_get_scheme sk"
  by (cases sk) simp_all

lemma key_encodes_outer:
  assumes C: "codec_ok C" and sk: "key_encodes C B sk"
  shows "\<exists>b pb. sk_to_bytes C B sk = Some (Ok b) \<and> sk_from_bytes C B b = Some (Ok sk)
    \<and> pk_to_bytes C B (sk_get_public_key sk) = Some (Ok pb)
    \<and> pk_from_bytes C B pb = Some (Ok (sk_get_public_key sk))
    \<and> key2id C B (sk_get_public_key sk) = Some (sk_get_key_id sk)"
proof -
  let ?i = "AU8 (scheme_get_id (sk_get_scheme sk))"
  obtain b pb where i: "sk_inner_to_bytes C B sk = Some (Ok b)"
     "sk_inner_from_bytes C B (sk_get_scheme sk) b = Some (Ok sk)"
     "pk_inner_to_bytes C B (sk_get_public_key sk) = Some (Ok pb)"
     "pk_inner_from_bytes C B (sk_get_scheme sk) pb = Some (Ok (sk_get_public_key sk))"
     "calc_key_id C pb = Some (sk_get_key_id sk)" using sk by (auto simp: key_encodes_def)
  obtain ob where ob: "write_seq C [?i, AOctets b] = Ok ob" "asn_parse C ob = [?i, AOctets b]"
    by (rule write_seq_okE [OF C, of "[?i, AOctets b]"]) auto
  obtain opb where opb: "write_seq C [?i, AOctets pb] = Ok opb" "asn_parse C opb = [?i, AOctets pb]"
    by (rule write_seq_okE [OF C, of "[?i, AOctets pb]"]) auto
  have "sk_to_bytes C B sk = Some (Ok ob)" "sk_from_bytes C B ob = Some (Ok sk)"
    using i ob by (simp_all add: sk_to_bytes_def write_seq_nested_def sk_from_bytes_def parse_seq_def)
  moreover have "pk_to_bytes C B (sk_get_public_key sk) = Some (Ok opb)"
      "pk_from_bytes C B opb = Some (Ok (sk_get_public_key sk))"
    using i opb by (simp_all add: pk_to_bytes_def write_seq_nested_def pk_from_bytes_def parse_seq_def)
  moreover from this have "key2id C B (sk_get_public_key sk) = Some (sk_get_key_id sk)"
    using i opb by (simp add: key2id_def parse_seq_def)
  ultimately show ?thesis by blast
qed

text \<open>
  C11.  Generated keys survive storage.  Every key share that \<open>generate_keys\<close> returns, whatever the
  scheme, is written by \<open>pem\<close> and read back unchanged by \<open>from_pem\<close>; so is its public key; and
  \<open>key2id\<close> computes from the encoding of the public key the identifier that the key carries.
\<close>

theorem generated_keys_roundtrip:
  fixes B :: "'p curve_backend"
  assumes "codec_ok C" "group_backend_ok B scheme g" "0 < k" "n \<le> 65535" "key_draws_ok B scheme g params dr"
    "generate_keys C B is_prime_test k n scheme g params dr = Some (Ok keys)" "sk \<in> set keys"
  shows "\<exists>pem ppem. sk_pem C B sk = Some (Ok pem) \<and> sk_from_pem C B pem = Some (Ok sk)
    \<and> pk_pem C B (sk_get_public_key sk) = Some (Ok ppem)
    \<and> pk_from_pem C B ppem = Some (Ok (sk_get_public_key sk))
    \<and> key2id C B (sk_get_public_key sk) = Some (sk_get_key_id sk)"
proof -
  have "b64_decode C (b64_url C b) = Some b" for b using assms(1) by (simp add: codec_ok_def)
  then show ?thesis using key_encodes_outer [OF assms(1) generated_key_encodes [OF assms]]
    by (auto simp: sk_pem_def pk_pem_def sk_from_pem_def pk_from_pem_def)
qed

lemma order_11_bound:
  assumes "is_dl g"
  shows "(11::int) \<le> 256 ^ modbytes g"
proof -
  have "0 < modbytes g" using assms by (cases g) simp_all
  then have "(256::int) ^ 1 \<le> 256 ^ modbytes g" by (intro power_increasing) simp_all
  then show ?thesis by simp
qed

lemma toy_group_backend_ok:
  assumes "is_dl g" "scheme = Bz03 \<longrightarrow> supports_pairings g"
  shows "group_backend_ok z11_backend scheme g"
  using assms order_11_bound [OF assms(1)] by (simp add: group_backend_ok_def z11_ok)

definition toy_draws :: key_draws where
  "toy_draws = \<lparr>kd_x = 5, kd_rnd = (\<lambda>_. 3), kd_t = 4, kd_pcands = [598, 592], kd_qcands = [718],
     kd_v = 2, kd_us = [2]\<rparr>"

lemma toy_draws_ok: "key_draws_ok z11_backend scheme g None toy_draws"
  by (simp add: key_draws_ok_def toy_draws_def draws_ok_def)

theorem generated_keys_roundtrip_witness:
  "\<exists>keys. generate_keys unary_codec z11_backend is_prime 2 3 Bz03 Bn254 None toy_draws = Some (Ok keys)
    \<and> length keys = 3
    \<and> (\<exists>pem ppem. sk_pem unary_codec z11_backend (keys ! 1) = Some (Ok pem)
        \<and> sk_from_pem unary_codec z11_backend pem = Some (Ok (keys ! 1))
        \<and> pk_pem unary_codec z11_backend (sk_get_public_key (keys ! 1)) = Some (Ok ppem)
        \<and> pk_from_pem unary_codec z11_backend ppem = Some (Ok (sk_get_public_key (keys ! 1)))
        \<and> key2id unary_codec z11_backend (sk_get_public_key (keys ! 1)) = Some (sk_get_key_id (keys ! 1)))"
proof -
  have c: "curve_ok z11_backend Bn254 0" "curve_ok z11_backend Bn254 1" by (simp_all add: z11_ok)
  have d: "draws_ok (cb_order z11_backend Bn254) (\<lambda>_. 3)" by (simp add: draws_ok_def)
  obtain pk where "bz03_generate_keys unary_codec z11_backend 2 3 Bn254 5 (\<lambda>_. 3)
      = Some (Ok (map (party_key z11_backend (shamir_poly 5 2 (\<lambda>_. 3)) pk) [0..<3]))"
    using bz03_generate_keys_ok [OF c unary_codec_ok _ d, of 2 5 3] by auto
  then have g: "generate_keys unary_codec z11_backend is_prime 2 3 Bz03 Bn254 None toy_draws
      = Some (Ok (map (\<lambda>i. SkBz03 (party_key z11_backend (shamir_poly 5 2 (\<lambda>_. 3)) pk i)) [0..<3]))"
    (is "_ = Some (Ok ?keys)")
    by (simp add: generate_keys_def wrap_keys_def toy_draws_def comp_def)
  have "?keys ! 1 \<in> set ?keys" by (rule nth_mem) simp
  from generated_keys_roundtrip [OF unary_codec_ok toy_group_backend_ok _ _ toy_draws_ok g this] g
  show ?thesis by (intro exI [of _ ?keys]) simp
qed

end
