(* ===== verification/QC_KeyStore.thy ===== *)
theory QC_KeyStore
  imports QC_KeyCodec
begin

text \<open>
  The key store (\<open>keys/key_store.rs\<close>).

  The map of entries is an association list with distinct keys; its order stands for the order in
  which \<open>HashMap\<close> iterates, which the code does not rely on except to list entries.  Operations on
  \<open>&mut self\<close> return the new store; \<open>None\<close> is a panic of \<open>key2id\<close> or \<open>pem\<close>.  Reading
  the file and its JSON text is the parameter \<open>read_entries\<close>: \<open>ks_serialize\<close> and \<open>ks_from\<close> are the
  conversions to and from the entries of the file.
\<close>

record 'p key_entry =
  ke_id :: bytes
  ke_is_default :: bool
  ke_sk :: "'p private_key_share option"
  ke_pk :: "'p public_key"

record 'p key_store =
  ks_key_entries :: "(bytes \<times> 'p key_entry) list"
  ks_filename :: "string option"

datatype key_store_error = DuplicateEntry bytes | IdMismatch | KeyIdNotFound bytes

record serialized_key_entry =
  ske_id :: bytes
  ske_key_type :: string
  ske_group :: string
  ske_scheme :: string
  ske_operation :: string
  ske_key :: bytes

record public_key_entry =
  pke_id :: bytes
  pke_operation :: threshold_operation
  pke_scheme :: threshold_scheme
  pke_group :: group
  pke_key :: bytes

fun operation_str_name :: "threshold_operation \<Rightarrow> string" where
  "operation_str_name Encryption = ''Encryption''"
| "operation_str_name Signature = ''Signature''"
| "operation_str_name Coin = ''Coin''"

definition ks_new :: "'p key_store" where
  "ks_new = \<lparr>ks_key_entries = [], ks_filename = None\<rparr>"

subsection \<open>Insertion\<close>

definition has_sk_of :: "threshold_operation \<Rightarrow> bytes \<times> 'p key_entry \<Rightarrow> bool" where
  "has_sk_of op e =
     (case ke_sk (snd e) of None \<Rightarrow> False | Some sk \<Rightarrow> get_operation (sk_get_scheme sk) = op)"

definition clear_default :: "threshold_operation \<Rightarrow> bytes \<times> 'p key_entry \<Rightarrow> bytes \<times> 'p key_entry" where
  "clear_default op e = (if has_sk_of op e then (fst e, (snd e)\<lparr>ke_is_default := False\<rparr>) else e)"

definition ks_put :: "'p key_store \<Rightarrow> bytes \<Rightarrow> 'p key_entry \<Rightarrow> 'p key_store" where
  "ks_put ks i e =
     ks\<lparr>ks_key_entries := filter (\<lambda>x. fst x \<noteq> i) (ks_key_entries ks) @ [(i, e)]\<rparr>"

definition insert_private_key ::
  "codec \<Rightarrow> 'p curve_backend \<Rightarrow> 'p key_store \<Rightarrow> 'p private_key_share \<Rightarrow>
   ('p key_store \<times> (key_store_error + bytes)) may_panic" where
  "insert_private_key C B ks key = do {
     key_id \<leftarrow> key2id C B (sk_get_public_key key);
     if key_id \<noteq> sk_get_key_id key then Some (ks, Err IdMismatch)
     else if \<exists>e\<in>set (ks_key_entries ks). fst e = key_id \<and> ke_sk (snd e) \<noteq> None
       then Some (ks, Err (DuplicateEntry key_id))
     else let op = get_operation (sk_get_scheme key);
              is_default = (\<forall>e\<in>set (ks_key_entries ks). \<not> has_sk_of op e);
              ks' = ks\<lparr>ks_key_entries := map (clear_default op) (ks_key_entries ks)\<rparr>
       in Some (ks_put ks' key_id \<lparr>ke_id = key_id, ke_is_default = is_default, ke_sk = Some key,
                                   ke_pk = sk_get_public_key key\<rparr>, Ok key_id)
   }"

definition insert_public_key ::
  "codec \<Rightarrow> 'p curve_backend \<Rightarrow> 'p key_store \<Rightarrow> 'p public_key \<Rightarrow>
   ('p key_store \<times> (key_store_error + bytes)) may_panic" where
  "insert_public_key C B ks key = do {
     key_id \<leftarrow> key2id C B key;
     if key_id \<noteq> pk_get_key_id key then Some (ks, Err IdMismatch)
     else if \<exists>e\<in>set (ks_key_entries ks). fst e = key_id then Some (ks, Err (DuplicateEntry key_id))
     else let op = get_operation (pk_get_scheme key);
              is_default = (\<forall>e\<in>set (ks_key_entries ks). pk_get_operation (ke_pk (snd e)) \<noteq> op)
       in Some (ks_put ks key_id \<lparr>ke_id = key_id, ke_is_default = is_default, ke_sk = None, ke_pk = key\<rparr>,
                Ok key_id)
   }"

subsection \<open>Lookup\<close>

definition get_key_by_id :: "'p key_store \<Rightarrow> bytes \<Rightarrow> key_store_error + 'p key_entry" where
  "get_key_by_id ks i =
     (case map_of (ks_key_entries ks) i of None \<Rightarrow> Err (KeyIdNotFound i) | Some e \<Rightarrow> Ok e)"

definition get_key_by_scheme_and_group ::
  "'p key_store \<Rightarrow> threshold_scheme \<Rightarrow> group \<Rightarrow> string + 'p key_entry" where
  "get_key_by_scheme_and_group ks scheme g =
     (let m = filter (\<lambda>e. pk_get_scheme (ke_pk e) = scheme \<and> g = pk_get_group (ke_pk e))
                (map snd (ks_key_entries ks)) in
      case m of
        [] \<Rightarrow> Err ''No key matches the given scheme and group.''
      | [e] \<Rightarrow> Ok e
      | _ \<Rightarrow> (case filter ke_is_default m of
          [] \<Rightarrow> Err ''Could not find a default key for this scheme. Please specify a key id.''
        | [e] \<Rightarrow> Ok e
        | _ \<Rightarrow> Err ''Could not select a default key for this scheme. Please specify a key id.''))"

definition get_keys_by_operation :: "'p key_store \<Rightarrow> threshold_operation \<Rightarrow> 'p key_entry list" where
  "get_keys_by_operation ks op =
     filter (\<lambda>e. get_operation (pk_get_scheme (ke_pk e)) = op) (map snd (ks_key_entries ks))"

definition get_encryption_keys :: "'p key_store \<Rightarrow> 'p key_entry list" where
  "get_encryption_keys ks = get_keys_by_operation ks Encryption"

definition get_signing_keys :: "'p key_store \<Rightarrow> 'p key_entry list" where
  "get_signing_keys ks = get_keys_by_operation ks Signature"

definition get_coin_keys :: "'p key_store \<Rightarrow> 'p key_entry list" where
  "get_coin_keys ks = get_keys_by_operation ks Coin"

definition list_public_keys ::
  "codec \<Rightarrow> 'p curve_backend \<Rightarrow> 'p key_store \<Rightarrow> public_key_entry list may_panic" where
  "list_public_keys C B ks = mapM (\<lambda>e. do {
     res \<leftarrow> pk_to_bytes C B (ke_pk e);
     b \<leftarrow> unwrap res;
     Some \<lparr>pke_id = ke_id e, pke_operation = pk_get_operation (ke_pk e), pke_scheme = pk_get_scheme (ke_pk e),
           pke_group = pk_get_group (ke_pk e), pke_key = b\<rparr> }) (map snd (ks_key_entries ks))"

subsection \<open>Import, saving and loading\<close>

fun import_public_keys ::
  "codec \<Rightarrow> 'p curve_backend \<Rightarrow> 'p key_store \<Rightarrow> public_key_entry list \<Rightarrow>
   ('p key_store \<times> (scheme_error + unit)) may_panic" where
  "import_public_keys C B ks [] = Some (ks, Ok ())"
| "import_public_keys C B ks (e # es) = do {
     r \<leftarrow> pk_from_bytes C B (pke_key e);
     case r of
       Inl err \<Rightarrow> Some (ks, Err err)
     | Inr key \<Rightarrow> do { (ks', _) \<leftarrow> insert_public_key C B ks key; import_public_keys C B ks' es }
   }"

definition ks_load_entry ::
  "codec \<Rightarrow> 'p curve_backend \<Rightarrow> 'p key_store \<Rightarrow> serialized_key_entry \<Rightarrow> 'p key_store may_panic" where
  "ks_load_entry C B ks e =
     (if ske_key_type e = ''secret''
      then do {
        r \<leftarrow> sk_from_pem C B (ske_key e);
        case r of Inl _ \<Rightarrow> Some ks | Inr key \<Rightarrow> map_option fst (insert_private_key C B ks key) }
      else do {
        r \<leftarrow> pk_from_pem C B (ske_key e);
        case r of Inl _ \<Rightarrow> Some ks | Inr key \<Rightarrow> map_option fst (insert_public_key C B ks key) })"

definition ks_from ::
  "codec \<Rightarrow> 'p curve_backend \<Rightarrow> serialized_key_entry list \<Rightarrow> 'p key_store may_panic" where
  "ks_from C B es = foldM (ks_load_entry C B) ks_new es"

definition ks_load ::
  "codec \<Rightarrow> 'p curve_backend \<Rightarrow> (string \<Rightarrow> 'e + serialized_key_entry list) \<Rightarrow> 'p key_store \<Rightarrow> string \<Rightarrow>
   ('p key_store \<times> ('e + unit)) may_panic" where
  "ks_load C B read_entries ks filename =
     (case read_entries filename of
        Inl e \<Rightarrow> Some (ks, Err e)
      | Inr es \<Rightarrow> do {
          k \<leftarrow> ks_from C B es;
          Some (ks\<lparr>ks_key_entries := ks_key_entries k, ks_filename := Some filename\<rparr>, Ok ()) })"

definition ks_from_file ::
  "codec \<Rightarrow> 'p curve_backend \<Rightarrow> (string \<Rightarrow> 'e + serialized_key_entry list) \<Rightarrow> string \<Rightarrow>
   ('e + 'p key_store) may_panic" where
  "ks_from_file C B read_entries filename =
     (case read_entries filename of Inl e \<Rightarrow> Some (Err e) | Inr es \<Rightarrow> map_option Ok (ks_from C B es))"

definition ks_save_entry ::
  "codec \<Rightarrow> 'p curve_backend \<Rightarrow> bytes \<times> 'p key_entry \<Rightarrow> serialized_key_entry may_panic" where
  "ks_save_entry C B e = do {
     res \<leftarrow> (case ke_sk (snd e) of Some sk \<Rightarrow> sk_pem C B sk | None \<Rightarrow> pk_pem C B (ke_pk (snd e)));
     pem \<leftarrow> unwrap res;
     Some \<lparr>ske_id = fst e, ske_key_type = (if ke_sk (snd e) \<noteq> None then ''secret'' else ''public''),
           ske_group = group_str_name (pk_get_group (ke_pk (snd e))),
           ske_scheme = scheme_str_name (pk_get_scheme (ke_pk (snd e))),
           ske_operation = operation_str_name (pk_get_operation (ke_pk (snd e))), ske_key = pem\<rparr>
   }"

definition ks_serialize ::
  "codec \<Rightarrow> 'p curve_backend \<Rightarrow> 'p key_store \<Rightarrow> serialized_key_entry list may_panic" where
  "ks_serialize C B ks = mapM (ks_save_entry C B) (ks_key_entries ks)"

subsection \<open>Invariant\<close>

text \<open>
  Entries are filed under the identifier of their public key, a secret key belongs to the public key
  beside it, and a secret key is the default of its operation exactly when it is the only one.
\<close>

definition entry_ok :: "codec \<Rightarrow> 'p curve_backend \<Rightarrow> bytes \<times> 'p key_entry \<Rightarrow> bool" where
  "entry_ok C B e =
     (ke_id (snd e) = fst e \<and> key2id C B (ke_pk (snd e)) = Some (fst e)
      \<and> pk_get_key_id (ke_pk (snd e)) = fst e
      \<and> (\<forall>sk. ke_sk (snd e) = Some sk \<longrightarrow> sk_get_public_key sk = ke_pk (snd e)))"

definition default_ok :: "(bytes \<times> 'p key_entry) list \<Rightarrow> bool" where
  "default_ok es = (\<forall>op. \<forall>e\<in>set es. has_sk_of op e \<longrightarrow>
     (ke_is_default (snd e) \<longleftrightarrow> (\<forall>e'\<in>set es. has_sk_of op e' \<longrightarrow> e' = e)))"

definition ks_inv :: "codec \<Rightarrow> 'p curve_backend \<Rightarrow> 'p key_store \<Rightarrow> bool" where
  "ks_inv C B ks = (distinct (map fst (ks_key_entries ks)) \<and> (\<forall>e\<in>set (ks_key_entries ks). entry_ok C B e)
     \<and> default_ok (ks_key_entries ks))"

text \<open>The keys of a store, without the default marks.\<close>

definition ks_abs :: "'p key_store \<Rightarrow> bytes \<Rightarrow> ('p public_key \<times> 'p private_key_share option) option" where
  "ks_abs ks i = map_option (\<lambda>e. (ke_pk e, ke_sk e)) (map_of (ks_key_entries ks) i)"

inductive ks_reachable :: "codec \<Rightarrow> 'p curve_backend \<Rightarrow> 'p key_store \<Rightarrow> bool" for C B where
  ks_reach_new: "ks_reachable C B ks_new"
| ks_reach_private: "ks_reachable C B ks \<Longrightarrow> insert_private_key C B ks key = Some (ks', r) \<Longrightarrow> ks_reachable C B ks'"
| ks_reach_public: "ks_reachable C B ks \<Longrightarrow> insert_public_key C B ks pk = Some (ks', r) \<Longrightarrow> ks_reachable C B ks'"

subsection \<open>Insertion refines the update of a map\<close>

lemma map_of_filter_neq: "map_of (filter (\<lambda>x. fst x \<noteq> i) es) k = (if k = i then None else map_of es k)"
  by (induction es) auto

lemma fst_clear_default [simp]: "fst (clear_default op e) = fst e"
  by (simp add: clear_default_def)

lemma snd_clear_default [simp]:
  "ke_sk (snd (clear_default op e)) = ke_sk (snd e)" "ke_pk (snd (clear_default op e)) = ke_pk (snd e)"
  "ke_id (snd (clear_default op e)) = ke_id (snd e)"
  by (simp_all add: clear_default_def)

lemma has_sk_of_clear_default [simp]: "has_sk_of op (clear_default op' e) = has_sk_of op e"
  by (simp add: has_sk_of_def)

lemma entry_ok_clear_default [simp]: "entry_ok C B (clear_default op e) = entry_ok C B e"
  by (simp add: entry_ok_def)

lemma ks_abs_put: "ks_abs (ks_put ks i e) = (ks_abs ks)(i \<mapsto> (ke_pk e, ke_sk e))"
  by (rule ext) (simp add: ks_abs_def ks_put_def map_add_def map_of_filter_neq split: option.splits)

lemma ks_abs_clear_default:
  "ks_abs (ks\<lparr>ks_key_entries := map (clear_default op) (ks_key_entries ks)\<rparr>) = ks_abs ks"
proof -
  have "map_option (\<lambda>e. (ke_pk e, ke_sk e)) (map_of (map (clear_default op) es) i)
      = map_option (\<lambda>e. (ke_pk e, ke_sk e)) (map_of es i)" for es :: "(bytes \<times> 'a key_entry) list" and i
  proof (induction es)
    case (Cons e es)
    then show ?case by (cases e) (simp add: clear_default_def)
  qed simp
  then show ?thesis by (simp add: ks_abs_def fun_eq_iff)
qed

lemma ks_abs_Some_iff:
  "ks_abs ks i = Some (pk, sko) \<longleftrightarrow> (\<exists>e. map_of (ks_key_entries ks) i = Some e \<and> ke_pk e = pk \<and> ke_sk e = sko)"
  by (auto simp: ks_abs_def)

lemma ks_abs_None_iff: "ks_abs ks i = None \<longleftrightarrow> (\<forall>e\<in>set (ks_key_entries ks). fst e \<noteq> i)"
  by (auto simp: ks_abs_def map_of_eq_None_iff)

lemma ks_has_sk_iff:
  assumes "distinct (map fst (ks_key_entries ks))"
  shows "(\<exists>e\<in>set (ks_key_entries ks). fst e = i \<and> ke_sk (snd e) \<noteq> None)
     \<longleftrightarrow> (\<exists>pk sk. ks_abs ks i = Some (pk, Some sk))"
  using assms by (force simp: ks_abs_Some_iff map_of_eq_Some_iff)

subsection \<open>The invariant is kept\<close>

lemma distinct_ks_put:
  "distinct (map fst (ks_key_entries ks)) \<Longrightarrow> distinct (map fst (ks_key_entries (ks_put ks i e)))"
  by (auto simp: ks_put_def distinct_map_filter)

lemma set_ks_put: "set (ks_key_entries (ks_put ks i e)) = insert (i, e) {x \<in> set (ks_key_entries ks). fst x \<noteq> i}"
  by (auto simp: ks_put_def)

lemma default_ok_add_public:
  assumes "default_ok es" "\<forall>e\<in>set es. fst e \<noteq> i" "ke_sk e = None"
  shows "default_ok (es @ [(i, e)])"
proof -
  have "\<not> has_sk_of op (i, e)" for op using assms(3) by (simp add: has_sk_of_def)
  then show ?thesis using assms(1) by (auto simp: default_ok_def)
qed

lemma has_sk_of_unique: "has_sk_of op e \<Longrightarrow> has_sk_of op' e \<Longrightarrow> op = op'"
  by (auto simp: has_sk_of_def split: option.splits)

lemma default_ok_add_secret:
  assumes inv: "default_ok es" and nosk: "\<forall>e\<in>set es. fst e = i \<longrightarrow> ke_sk (snd e) = None"
    and e: "ke_sk e = Some sk" "op = get_operation (sk_get_scheme sk)"
      "ke_is_default e = (\<forall>x\<in>set es. \<not> has_sk_of op x)"
  shows "default_ok (filter (\<lambda>x. fst x \<noteq> i) (map (clear_default op) es) @ [(i, e)])" (is "default_ok ?es")
  unfolding default_ok_def
proof (intro allI ballI impI)
  fix o' x
  assume x: "x \<in> set ?es" "has_sk_of o' x"
  have new: "has_sk_of o'' (i, e) \<longleftrightarrow> o'' = op" for o'' using e(1,2) by (auto simp: has_sk_of_def)
  have other: "fst y \<noteq> i" if "y \<in> set es" "has_sk_of o'' y" for y o''
    using nosk that by (auto simp: has_sk_of_def)
  have old: "clear_default op y \<in> set ?es" if "y \<in> set es" "has_sk_of o'' y" for y o''
    using that other [OF that] by auto
  show "ke_is_default (snd x) \<longleftrightarrow> (\<forall>e'\<in>set ?es. has_sk_of o' e' \<longrightarrow> e' = x)"
  proof (cases "x = (i, e)")
    case True
    then have "o' = op" using x(2) new by simp
    moreover have "(\<forall>y\<in>set es. \<not> has_sk_of op y) \<longleftrightarrow> (\<forall>z\<in>set ?es. has_sk_of op z \<longrightarrow> z = (i, e))"
    proof
      assume "\<forall>y\<in>set es. \<not> has_sk_of op y"
      then show "\<forall>z\<in>set ?es. has_sk_of op z \<longrightarrow> z = (i, e)" by auto
    next
      assume only: "\<forall>z\<in>set ?es. has_sk_of op z \<longrightarrow> z = (i, e)"
      show "\<forall>y\<in>set es. \<not> has_sk_of op y"
      proof (intro ballI notI)
        fix y assume y: "y \<in> set es" "has_sk_of op y"
        then have "clear_default op y = (i, e)" by (intro only [rule_format] old) simp_all
        then show False using other [OF y] by (metis fst_clear_default fst_conv)
      qed
    qed
    ultimately show ?thesis using True e(3) by simp
  next
    case False
    then obtain y where y: "x = clear_default op y" "y \<in> set es" "has_sk_of o' y" using x by auto
    show ?thesis
    proof (cases "o' = op")
      case True
      then show ?thesis using y False new [of op] by (auto simp: clear_default_def)
    next
      case neq: False
      then have nop: "\<not> has_sk_of op y'" if "has_sk_of o' y'" for y' using that has_sk_of_unique by blast
      then have id: "clear_default op y' = y'" if "has_sk_of o' y'" for y' using nop [OF that] by (simp add: clear_default_def)
      have same: "z \<in> set ?es \<and> has_sk_of o' z \<longleftrightarrow> z \<in> set es \<and> has_sk_of o' z" for z
      proof
        assume z: "z \<in> set ?es \<and> has_sk_of o' z"
        then obtain y' where "z = clear_default op y'" "y' \<in> set es" using neq new [of o'] by auto
        then show "z \<in> set es \<and> has_sk_of o' z" using z id [of y'] by simp
      next
        assume z: "z \<in> set es \<and> has_sk_of o' z"
        then show "z \<in> set ?es \<and> has_sk_of o' z" using old [of z o'] id [of z] by simp
      qed
      have "x = y" using y(1) id [OF y(3)] by simp
      then have "ke_is_default (snd x) \<longleftrightarrow> (\<forall>e'\<in>set es. has_sk_of o' e' \<longrightarrow> e' = x)"
        using inv y(2,3) unfolding default_ok_def by blast
      then show ?thesis using same by blast
    qed
  qed
qed

lemma ks_inv_new: "ks_inv C B ks_new"
  by (simp add: ks_inv_def ks_new_def default_ok_def)

lemma insert_private_key_inv:
  assumes "ks_inv C B ks" "insert_private_key C B ks key = Some (ks', r)"
  shows "ks_inv C B ks'"
proof -
  let ?i = "sk_get_key_id key" and ?op = "get_operation (sk_get_scheme key)" and ?es = "ks_key_entries ks"
  consider "ks' = ks"
    | "key2id C B (sk_get_public_key key) = Some ?i" "\<forall>e\<in>set ?es. fst e = ?i \<longrightarrow> ke_sk (snd e) = None"
      "ks' = ks_put (ks\<lparr>ks_key_entries := map (clear_default ?op) ?es\<rparr>) ?i
         \<lparr>ke_id = ?i, ke_is_default = (\<forall>e\<in>set ?es. \<not> has_sk_of ?op e), ke_sk = Some key,
          ke_pk = sk_get_public_key key\<rparr>"
    using assms(2) by (auto simp: insert_private_key_def Let_def bind_eq_Some_conv split: if_splits)
  then show ?thesis
  proof cases
    case 2
    let ?e = "\<lparr>ke_id = ?i, ke_is_default = (\<forall>e\<in>set ?es. \<not> has_sk_of ?op e), ke_sk = Some key,
          ke_pk = sk_get_public_key key\<rparr>"
    have "default_ok (ks_key_entries ks')"
      using default_ok_add_secret [of ?es ?i ?e key ?op] assms(1) 2(2) unfolding 2(3)
      by (simp add: ks_inv_def ks_put_def)
    moreover have "distinct (map fst (ks_key_entries ks'))"
      unfolding 2(3) using assms(1) by (intro distinct_ks_put) (simp add: ks_inv_def comp_def)
    moreover have "entry_ok C B (?i, ?e)" using 2(1) by (simp add: entry_ok_def sk_get_key_id_def)
    then have "\<forall>e\<in>set (ks_key_entries ks'). entry_ok C B e"
      using assms(1) unfolding 2(3) set_ks_put ks_inv_def
      by (intro ballI) (elim insertE CollectE conjE, simp, force)
    ultimately show ?thesis by (simp add: ks_inv_def)
  qed (use assms(1) in simp)
qed

lemma insert_public_key_inv:
  assumes "ks_inv C B ks" "insert_public_key C B ks pk = Some (ks', r)"
  shows "ks_inv C B ks'"
proof -
  let ?i = "pk_get_key_id pk" and ?es = "ks_key_entries ks"
  consider "ks' = ks"
    | d where "key2id C B pk = Some ?i" "\<forall>e\<in>set ?es. fst e \<noteq> ?i"
      "ks' = ks_put ks ?i \<lparr>ke_id = ?i, ke_is_default = d, ke_sk = None, ke_pk = pk\<rparr>"
    using assms(2) by (auto simp: insert_public_key_def Let_def bind_eq_Some_conv split: if_splits)
  then show ?thesis
  proof cases
    case 2
    have f: "filter (\<lambda>x. fst x \<noteq> ?i) ?es = ?es" using 2(2) by (simp add: filter_id_conv)
    have "default_ok (ks_key_entries ks')"
      using default_ok_add_public [OF _ 2(2)] assms(1) unfolding 2(3) by (simp add: ks_inv_def ks_put_def f)
    moreover have "distinct (map fst (ks_key_entries ks'))"
      unfolding 2(3) using assms(1) by (intro distinct_ks_put) (simp add: ks_inv_def)
    moreover have "\<forall>e\<in>set (ks_key_entries ks'). entry_ok C B e"
      using assms(1) 2(1) by (auto simp: 2(3) set_ks_put ks_inv_def entry_ok_def)
    ultimately show ?thesis by (simp add: ks_inv_def)
  qed (use assms(1) in simp)
qed

text \<open>
  C12.  The key store invariant.  After any sequence of insertions, successful or refused, into a
  new store: identifiers are distinct, every entry is filed under the identifier computed from its
  public key, every secret key sits beside its own public key, and a secret key is marked as default
  exactly when it is the only secret key of its operation.  The last part is what the code does and not
  what the comment above \<open>insert_private_key\<close> says, by which the first key of an operation is its default:
  once a second one has been inserted, the operation has no default key at all.
\<close>

theorem key_store_invariant: "ks_reachable C B ks \<Longrightarrow> ks_inv C B ks"
  by (induction rule: ks_reachable.induct) (auto intro: ks_inv_new insert_private_key_inv insert_public_key_inv)

text \<open>A key share of a sharing among three parties, on which the witnesses run.\<close>

lemma toy_key:
  obtains key :: "int private_key_share" where "key_encodes unary_codec z11_backend key"
    "sk_get_scheme key = Bz03" "key2id unary_codec z11_backend (sk_get_public_key key) = Some (sk_get_key_id key)"
    "\<exists>pem. sk_pem unary_codec z11_backend key = Some (Ok pem) \<and> sk_from_pem unary_codec z11_backend pem = Some (Ok key)"
    "sk_get_key_id key \<noteq> []"
proof -
  have c: "curve_ok z11_backend Bn254 0" "curve_ok z11_backend Bn254 1" by (simp_all add: z11_ok)
  have d: "draws_ok (cb_order z11_backend Bn254) (\<lambda>_. 3)" by (simp add: draws_ok_def)
  obtain pk where "bz03_generate_keys unary_codec z11_backend 2 3 Bn254 5 (\<lambda>_. 3)
      = Some (Ok (map (party_key z11_backend (shamir_poly 5 2 (\<lambda>_. 3)) pk) [0..<3]))"
    using bz03_generate_keys_ok [OF c unary_codec_ok _ d, of 2 5 3] by auto
  then have g: "generate_keys unary_codec z11_backend is_prime 2 3 Bz03 Bn254 None toy_draws
      = Some (Ok (map (\<lambda>i. SkBz03 (party_key z11_backend (shamir_poly 5 2 (\<lambda>_. 3)) pk i)) [0..<3]))"
    (is "_ = Some (Ok ?keys)")
    by (simp add: generate_keys_def wrap_keys_def toy_draws_def comp_def)
  let ?key = "SkBz03 (party_key z11_backend (shamir_poly 5 2 (\<lambda>_. 3)) pk 0)"
  have "?key \<in> set ?keys" by auto
  then have e: "key_encodes unary_codec z11_backend ?key"
    by (intro generated_key_encodes [OF unary_codec_ok toy_group_backend_ok _ _ toy_draws_ok g]) simp_all
  then obtain pb where "unary_numbers (map unat (sha pb)) = sk_get_key_id ?key"
    by (auto simp: key_encodes_def calc_key_id_eq unary_codec_def)
  moreover have "sha pb \<noteq> []" by (metis length_sha list.size(3) zero_neq_numeral)
  ultimately have "sk_get_key_id ?key \<noteq> []" by (cases "sha pb") (auto simp: unary_numbers_def)
  with e show ?thesis using that [of ?key] key_encodes_outer [OF unary_codec_ok e]
    by (auto simp: sk_pem_def sk_from_pem_def unary_codec_def comp_def)
qed

theorem key_store_invariant_witness:
  "\<exists>key ks i. insert_private_key unary_codec z11_backend ks_new key = Some (ks, Ok i) \<and> ks_inv unary_codec z11_backend ks"
proof -
  obtain key :: "int private_key_share" where key:
    "key2id unary_codec z11_backend (sk_get_public_key key) = Some (sk_get_key_id key)"
    using toy_key by blast
  let ?ks = "fst (the (insert_private_key unary_codec z11_backend ks_new key))"
  have i: "insert_private_key unary_codec z11_backend ks_new key = Some (?ks, Ok (sk_get_key_id key))"
    using key by (simp add: insert_private_key_def ks_new_def Let_def)
  from key_store_invariant [OF ks_reach_private [OF ks_reach_new i]] i show ?thesis by blast
qed

subsection \<open>Insertion as the update of a map\<close>

lemma insert_private_key_abs:
  assumes "ks_inv C B ks" "key2id C B (sk_get_public_key key) = Some i"
  shows "\<exists>ks' r. insert_private_key C B ks key = Some (ks', r) \<and>
    (if i \<noteq> sk_get_key_id key then ks' = ks \<and> r = Err IdMismatch
     else if \<exists>pk sk. ks_abs ks i = Some (pk, Some sk) then ks' = ks \<and> r = Err (DuplicateEntry i)
     else ks_abs ks' = (ks_abs ks)(i \<mapsto> (sk_get_public_key key, Some key)) \<and> r = Ok i)"
  using ks_has_sk_iff [of ks i] assms
  by (auto simp: insert_private_key_def Let_def ks_inv_def ks_abs_put ks_abs_clear_default)

lemma insert_public_key_abs:
  assumes "key2id C B pk = Some i"
  shows "\<exists>ks' r. insert_public_key C B ks pk = Some (ks', r) \<and>
    (if i \<noteq> pk_get_key_id pk then ks' = ks \<and> r = Err IdMismatch
     else if ks_abs ks i \<noteq> None then ks' = ks \<and> r = Err (DuplicateEntry i)
     else ks_abs ks' = (ks_abs ks)(i \<mapsto> (pk, None)) \<and> r = Ok i)"
  using assms by (auto simp: insert_public_key_def Let_def ks_abs_put ks_abs_None_iff)

subsection \<open>Loading a list of entries\<close>

text \<open>
  A store that accepts a fresh entry: the contract that loading relies on.  Entries with distinct
  keys, none of them present, are all accepted, and the store then holds exactly them in addition.
\<close>

locale fresh_store =
  fixes inv :: "'s \<Rightarrow> bool" and look :: "'s \<Rightarrow> 'k \<Rightarrow> 'v option" and put :: "'s \<Rightarrow> 'x \<Rightarrow> 's may_panic"
    and key :: "'x \<Rightarrow> 'k" and val :: "'x \<Rightarrow> 'v" and ok :: "'x \<Rightarrow> bool"
  assumes put_fresh: "inv s \<Longrightarrow> ok x \<Longrightarrow> look s (key x) = None \<Longrightarrow>
    \<exists>s'. put s x = Some s' \<and> inv s' \<and> look s' = (look s)(key x \<mapsto> val x)"
begin

lemma put_all:
  assumes "inv s" "\<forall>x\<in>set xs. ok x \<and> look s (key x) = None" "distinct (map key xs)"
  shows "\<exists>s'. foldM put s xs = Some s' \<and> inv s' \<and> look s' = look s ++ map_of (map (\<lambda>x. (key x, val x)) xs)"
  using assms
proof (induction xs arbitrary: s)
  case (Cons x xs)
  obtain s1 where s1: "put s x = Some s1" "inv s1" "look s1 = (look s)(key x \<mapsto> val x)"
    using put_fresh [of s x] Cons(2,3) by auto
  have nx: "key x \<notin> key ` set xs" using Cons(4) by simp
  then have "\<forall>y\<in>set xs. ok y \<and> look s1 (key y) = None" using Cons(3) s1(3) by (auto simp: image_iff)
  then obtain s' where s': "foldM put s1 xs = Some s'" "inv s'"
      "look s' = look s1 ++ map_of (map (\<lambda>x. (key x, val x)) xs)"
    using Cons(1) [OF s1(2)] Cons(4) by auto
  moreover have "key x \<notin> dom (map_of (map (\<lambda>x. (key x, val x)) xs))"
    using nx by (simp add: dom_map_of_conv_image_fst image_image)
  ultimately show ?case using s1(1,3) by (simp add: map_add_upd_left) (simp add: map_add_def fun_eq_iff)
qed simp

end

definition entry_encodes :: "codec \<Rightarrow> 'p curve_backend \<Rightarrow> bytes \<times> 'p key_entry \<Rightarrow> bool" where
  "entry_encodes C B e =
     (case ke_sk (snd e) of
        Some sk \<Rightarrow> (\<exists>pem. sk_pem C B sk = Some (Ok pem) \<and> sk_from_pem C B pem = Some (Ok sk))
      | None \<Rightarrow> (\<exists>pem. pk_pem C B (ke_pk (snd e)) = Some (Ok pem) \<and> pk_from_pem C B pem = Some (Ok (ke_pk (snd e)))))"

definition ks_reload :: "codec \<Rightarrow> 'p curve_backend \<Rightarrow> 'p key_store \<Rightarrow> bytes \<times> 'p key_entry \<Rightarrow> 'p key_store may_panic" where
  "ks_reload C B ks e = do { s \<leftarrow> ks_save_entry C B e; ks_load_entry C B ks s }"

lemma ks_reload_fresh:
  assumes inv: "ks_inv C B ks" and e: "entry_ok C B e" "entry_encodes C B e" and fresh: "ks_abs ks (fst e) = None"
  shows "\<exists>ks'. ks_reload C B ks e = Some ks' \<and> ks_inv C B ks'
    \<and> ks_abs ks' = (ks_abs ks)(fst e \<mapsto> (ke_pk (snd e), ke_sk (snd e)))"
proof (cases "ke_sk (snd e)")
  case None
  then obtain pem where pem: "pk_pem C B (ke_pk (snd e)) = Some (Ok pem)" "pk_from_pem C B pem = Some (Ok (ke_pk (snd e)))"
    using e(2) by (auto simp: entry_encodes_def)
  obtain ks' r where ks': "insert_public_key C B ks (ke_pk (snd e)) = Some (ks', r)"
      "ks_abs ks' = (ks_abs ks)(fst e \<mapsto> (ke_pk (snd e), None))"
    using insert_public_key_abs [of C B "ke_pk (snd e)" "fst e" ks] e(1) fresh by (auto simp: entry_ok_def)
  then show ?thesis using None pem insert_public_key_inv [OF inv ks'(1)]
    by (simp add: ks_reload_def ks_save_entry_def ks_load_entry_def)
next
  case (Some sk)
  then obtain pem where pem: "sk_pem C B sk = Some (Ok pem)" "sk_from_pem C B pem = Some (Ok sk)"
    using e(2) by (auto simp: entry_encodes_def)
  have pk: "sk_get_public_key sk = ke_pk (snd e)" using e(1) Some by (simp add: entry_ok_def)
  obtain ks' r where ks': "insert_private_key C B ks sk = Some (ks', r)"
      "ks_abs ks' = (ks_abs ks)(fst e \<mapsto> (ke_pk (snd e), Some sk))"
    using insert_private_key_abs [OF inv, of sk "fst e"] e(1) fresh
    by (auto simp: entry_ok_def pk sk_get_key_id_def)
  then show ?thesis using Some pem insert_private_key_inv [OF inv ks'(1)]
    by (simp add: ks_reload_def ks_save_entry_def ks_load_entry_def)
qed

interpretation ks_loading: fresh_store "ks_inv C B" ks_abs "ks_reload C B" fst
    "\<lambda>e. (ke_pk (snd e), ke_sk (snd e))" "\<lambda>e. entry_ok C B e \<and> entry_encodes C B e"
  for C :: codec and B :: "'p curve_backend"
  by unfold_locales (use ks_reload_fresh in blast)

lemma foldM_mapM:
  assumes "mapM f xs = Some ys"
  shows "foldM g s ys = foldM (\<lambda>s x. do { y \<leftarrow> f x; g s y }) s xs"
  using assms by (induction xs arbitrary: s ys) (auto simp: bind_eq_Some_conv)

lemma ks_abs_map_of: "ks_abs ks = map_of (map (\<lambda>e. (fst e, ke_pk (snd e), ke_sk (snd e))) (ks_key_entries ks))"
proof -
  have "map_option (\<lambda>e. (ke_pk e, ke_sk e)) (map_of es i) = map_of (map (\<lambda>e. (fst e, ke_pk (snd e), ke_sk (snd e))) es) i"
    for es :: "(bytes \<times> 'a key_entry) list" and i by (induction es) auto
  then show ?thesis by (auto simp: ks_abs_def)
qed

text \<open>
  C13.  Saving and loading a key store.  For a store in which every key has an encoding that reads
  back, writing its entries succeeds, loading them gives a store that satisfies the invariant and
  holds the same public and secret keys under the same identifiers.
\<close>

theorem key_store_save_load:
  fixes B :: "'p curve_backend"
  assumes "ks_inv C B ks" "\<forall>e\<in>set (ks_key_entries ks). entry_encodes C B e"
  shows "\<exists>ses ks'. ks_serialize C B ks = Some ses \<and> ks_from C B ses = Some ks' \<and> ks_inv C B ks'
    \<and> ks_abs ks' = ks_abs ks"
proof -
  let ?es = "ks_key_entries ks"
  have "\<exists>s. ks_save_entry C B e = Some s \<and> True" if "e \<in> set ?es" for e
    using that assms(2) by (force simp: entry_encodes_def ks_save_entry_def split: option.splits)
  then obtain ses where ses: "mapM (ks_save_entry C B) ?es = Some ses"
    using mapM_obtain [of ?es "ks_save_entry C B" "\<lambda>_ _. True"] by blast
  have e0: "ks_abs (ks_new :: 'p key_store) i = None" for i by (simp add: ks_abs_def ks_new_def)
  have a: "\<forall>x\<in>set ?es. (entry_ok C B x \<and> entry_encodes C B x) \<and> ks_abs (ks_new :: 'p key_store) (fst x) = None"
    using assms e0 by (simp add: ks_inv_def)
  obtain ks' where "foldM (ks_reload C B) ks_new ?es = Some ks'" "ks_inv C B ks'"
      "ks_abs ks' = ks_abs (ks_new :: 'p key_store) ++ map_of (map (\<lambda>e. (fst e, ke_pk (snd e), ke_sk (snd e))) ?es)"
    using ks_loading.put_all [OF ks_inv_new a] assms(1) unfolding ks_inv_def by blast
  moreover have "ks_from C B ses = foldM (ks_reload C B) ks_new ?es"
    using foldM_mapM [OF ses] by (simp add: ks_from_def ks_reload_def [abs_def])
  moreover have "ks_abs (ks_new :: 'p key_store) = Map.empty" using e0 by auto
  ultimately show ?thesis using ses by (simp add: ks_serialize_def ks_abs_map_of [of ks])
qed

subsection \<open>Two secret keys of one operation\<close>

lemma get_key_by_scheme_and_group_no_default:
  assumes "e1 \<in> set (ks_key_entries ks)" "e2 \<in> set (ks_key_entries ks)" "e1 \<noteq> e2"
    "distinct (map fst (ks_key_entries ks))"
    "\<forall>e\<in>{e1, e2}. pk_get_scheme (ke_pk (snd e)) = scheme \<and> pk_get_group (ke_pk (snd e)) = g"
    "\<forall>e\<in>set (ks_key_entries ks). pk_get_scheme (ke_pk (snd e)) = scheme \<longrightarrow>
       pk_get_group (ke_pk (snd e)) = g \<longrightarrow> \<not> ke_is_default (snd e)"
  shows "get_key_by_scheme_and_group ks scheme g
    = Err ''Could not find a default key for this scheme. Please specify a key id.''"
proof -
  let ?P = "\<lambda>e. pk_get_scheme (ke_pk e) = scheme \<and> g = pk_get_group (ke_pk e)"
  let ?m = "filter ?P (map snd (ks_key_entries ks))"
  have m: "?m = map snd (filter (\<lambda>e. ?P (snd e)) (ks_key_entries ks))" by (simp add: filter_map comp_def)
  have "{e1, e2} \<subseteq> set (filter (\<lambda>e. ?P (snd e)) (ks_key_entries ks))" using assms(1,2,5) by auto
  from card_mono [OF finite_set this]
  have "card {e1, e2} \<le> length (filter (\<lambda>e. ?P (snd e)) (ks_key_entries ks))"
    by (rule order_trans) (rule card_length)
  then have "2 \<le> length ?m" using assms(3) m by simp
  then obtain a b c where abc: "?m = a # b # c" by (cases ?m; cases "tl ?m") (auto simp del: filter_map)
  have "filter ke_is_default ?m = []" using assms(6) by (auto simp: filter_empty_conv)
  then show ?thesis unfolding get_key_by_scheme_and_group_def Let_def abc by simp
qed

text \<open>
  A second secret key leaves no default.  When a store holds a secret key of the same scheme
  and group under another identifier, inserting a secret key unmarks every secret key of the
  operation and does not mark the new one, so that a request that names only the scheme and the
  group is refused as long as no entry of them is public only.
\<close>

theorem second_secret_key_without_default:
  fixes B :: "'p curve_backend"
  assumes ids: "distinct (map fst (ks_key_entries ks))"
    and old: "(j, e) \<in> set (ks_key_entries ks)" "ke_sk e = Some sk'" "sk_get_public_key sk' = ke_pk e"
      "pk_get_scheme (ke_pk e) = sk_get_scheme key" "pk_get_group (ke_pk e) = sk_get_group key"
    and new: "insert_private_key C B ks key = Some (ks', Ok i)" "j \<noteq> i"
    and secret: "\<forall>x\<in>set (ks_key_entries ks). pk_get_scheme (ke_pk (snd x)) = sk_get_scheme key \<longrightarrow>
       (\<exists>sk. ke_sk (snd x) = Some sk \<and> sk_get_public_key sk = ke_pk (snd x))"
  shows "get_key_by_scheme_and_group ks' (sk_get_scheme key) (sk_get_group key)
    = Err ''Could not find a default key for this scheme. Please specify a key id.''"
proof -
  let ?op = "get_operation (sk_get_scheme key)" and ?es = "ks_key_entries ks"
  have op: "has_sk_of ?op x" if x: "x \<in> set ?es" "pk_get_scheme (ke_pk (snd x)) = sk_get_scheme key" for x
  proof -
    obtain sk where "ke_sk (snd x) = Some sk" "sk_get_public_key sk = ke_pk (snd x)" using secret x by blast
    then show ?thesis using x(2) pk_scheme_of_sk [of sk] by (simp add: has_sk_of_def)
  qed
  let ?e = "\<lparr>ke_id = i, ke_is_default = False, ke_sk = Some key, ke_pk = sk_get_public_key key\<rparr>"
  have "has_sk_of ?op (j, e)" using op [OF old(1)] old(4) by simp
  then have nd: "(\<forall>e\<in>set ?es. \<not> has_sk_of ?op e) = False" using old(1) by blast
  then have ks': "ks' = ks_put (ks\<lparr>ks_key_entries := map (clear_default ?op) ?es\<rparr>) i ?e"
    using new(1) by (auto simp: insert_private_key_def Let_def bind_eq_Some_conv nd simp del: bex_simps ball_simps
        split: if_splits)
  let ?e1 = "clear_default ?op (j, e)" and ?e2 = "(i, ?e)"
  show ?thesis
  proof (rule get_key_by_scheme_and_group_no_default)
    show "?e1 \<in> set (ks_key_entries ks')" "?e2 \<in> set (ks_key_entries ks')"
      using old(1) new(2) by (auto simp: ks' set_ks_put)
    show "?e1 \<noteq> ?e2" using new(2) by (metis fst_clear_default fst_conv)
    show "distinct (map fst (ks_key_entries ks'))"
      unfolding ks' using ids by (intro distinct_ks_put) (simp add: comp_def)
    show "\<forall>e\<in>{?e1, ?e2}. pk_get_scheme (ke_pk (snd e)) = sk_get_scheme key
        \<and> pk_get_group (ke_pk (snd e)) = sk_get_group key"
      using old(4,5) by (simp add: sk_get_group_def)
    show "\<forall>e\<in>set (ks_key_entries ks'). pk_get_scheme (ke_pk (snd e)) = sk_get_scheme key \<longrightarrow>
        pk_get_group (ke_pk (snd e)) = sk_get_group key \<longrightarrow> \<not> ke_is_default (snd e)"
    proof (intro ballI impI)
      fix x assume x: "x \<in> set (ks_key_entries ks')" "pk_get_scheme (ke_pk (snd x)) = sk_get_scheme key"
      then consider "x = ?e2" | y where "x = clear_default ?op y" "y \<in> set ?es" by (auto simp: ks' set_ks_put)
      then show "\<not> ke_is_default (snd x)"
      proof cases
        case 2
        then have "has_sk_of ?op y" using op [of y] x(2) by simp
        then show ?thesis using 2(1) by (simp add: clear_default_def)
      qed simp
    qed
  qed
qed

theorem key_store_save_load_witness:
  "\<exists>ks ses ks' i. ks_abs ks i \<noteq> None \<and> ks_serialize unary_codec z11_backend ks = Some ses
    \<and> ks_from unary_codec z11_backend ses = Some ks' \<and> ks_inv unary_codec z11_backend ks' \<and> ks_abs ks' = ks_abs ks"
proof -
  obtain key :: "int private_key_share" where key:
    "key2id unary_codec z11_backend (sk_get_public_key key) = Some (sk_get_key_id key)"
    "\<exists>pem. sk_pem unary_codec z11_backend key = Some (Ok pem) \<and> sk_from_pem unary_codec z11_backend pem = Some (Ok key)"
    using toy_key by blast
  let ?ks = "fst (the (insert_private_key unary_codec z11_backend ks_new key))"
  have i: "insert_private_key unary_codec z11_backend ks_new key = Some (?ks, Ok (sk_get_key_id key))"
    using key by (simp add: insert_private_key_def ks_new_def Let_def)
  have inv: "ks_inv unary_codec z11_backend ?ks" using insert_private_key_inv [OF ks_inv_new i] .
  have es: "\<forall>e\<in>set (ks_key_entries ?ks). ke_sk (snd e) = Some key" "ks_abs ?ks (sk_get_key_id key) \<noteq> None"
    using key by (simp_all add: insert_private_key_def ks_new_def Let_def ks_put_def ks_abs_def)
  have "\<forall>e\<in>set (ks_key_entries ?ks). entry_encodes unary_codec z11_backend e"
    using es(1) key(2) by (simp add: entry_encodes_def)
  from key_store_save_load [OF inv this] es(2) show ?thesis by blast
qed

theorem second_secret_key_without_default_witness:
  "\<exists>key e ks'. ke_sk e = Some key \<and>
    insert_private_key unary_codec z11_backend (ks_new\<lparr>ks_key_entries := [([], e)]\<rparr>) key = Some (ks', Ok (sk_get_key_id key))
    \<and> get_key_by_scheme_and_group ks' (sk_get_scheme key) (sk_get_group key)
      = Err ''Could not find a default key for this scheme. Please specify a key id.''"
proof -
  obtain key :: "int private_key_share" where key: "sk_get_scheme key = Bz03"
    "key2id unary_codec z11_backend (sk_get_public_key key) = Some (sk_get_key_id key)"
    "sk_get_key_id key \<noteq> []"
    using toy_key by blast
  let ?e = "\<lparr>ke_id = [], ke_is_default = True, ke_sk = Some key, ke_pk = sk_get_public_key key\<rparr>"
  let ?ks = "ks_new\<lparr>ks_key_entries := [([], ?e)]\<rparr>"
  have ne: "[] \<noteq> sk_get_key_id key" using key(3) by simp
  obtain ks' where i: "insert_private_key unary_codec z11_backend ?ks key = Some (ks', Ok (sk_get_key_id key))"
    using key(2) ne by (simp add: insert_private_key_def Let_def)
  have "get_key_by_scheme_and_group ks' (sk_get_scheme key) (sk_get_group key)
      = Err ''Could not find a default key for this scheme. Please specify a key id.''"
    by (rule second_secret_key_without_default [OF _ _ _ _ _ _ i ne, of ?e key])
      (simp_all add: sk_get_group_def)
  then show ?thesis using i by (intro exI [of _ key] exI [of _ ?e] exI [of _ ks']) simp
qed

end
