(* ===== verification/QC_Interface.thy ===== *)
theory QC_Interface
  imports QC_Keys
begin

text \<open>
  The scheme-independent interface (\<open>schemes/src/interface.rs\<close>): the enumerations of ciphertexts,
  shares and signatures with their getters and encodings, and the three dispatchers
  \<open>ThresholdCoin\<close>, \<open>ThresholdCipher\<close> and \<open>ThresholdSignature\<close>.

  A dispatcher draws nothing itself; the numbers its schemes draw are its last arguments.  A value of
  the wrong scheme is answered by \<open>WrongKeyProvided\<close> or \<open>WrongScheme\<close> before any arithmetic.
\<close>

datatype 'p coin_share = CoinCks05 "'p cks05_coin_share"

datatype 'p ciphertext = CtSg02 "'p sg02_ciphertext" | CtBz03 "'p bz03_ciphertext"

datatype 'p decryption_share = DsSg02 "'p sg02_decryption_share" | DsBz03 "'p bz03_decryption_share"

datatype 'p signature_share =
    ShBls04 "'p bls04_signature_share" | ShSh00 sh00_signature_share | ShFrost frost_signature_share

datatype 'p signature = SigBls04 "'p bls04_signature" | SigSh00 sh00_signature | SigFrost "'p frost_signature"

text \<open>The macro \<open>unwrap_enum_vec\<close>: all elements of one variant, or the given error.\<close>

fun unwrap_enum_vec :: "('a \<Rightarrow> 'b option) \<Rightarrow> 'e \<Rightarrow> 'a list \<Rightarrow> 'e + 'b list" where
  "unwrap_enum_vec sel e [] = Ok []"
| "unwrap_enum_vec sel e (x # xs) =
     (case sel x of None \<Rightarrow> Err e | Some y \<Rightarrow> map_sum (\<lambda>e. e) ((#) y) (unwrap_enum_vec sel e xs))"

fun ds_sg02 :: "'p decryption_share \<Rightarrow> 'p sg02_decryption_share option" where
  "ds_sg02 (DsSg02 s) = Some s" | "ds_sg02 (DsBz03 s) = None"

fun ds_bz03 :: "'p decryption_share \<Rightarrow> 'p bz03_decryption_share option" where
  "ds_bz03 (DsBz03 s) = Some s" | "ds_bz03 (DsSg02 s) = None"

fun coin_cks05 :: "'p coin_share \<Rightarrow> 'p cks05_coin_share option" where
  "coin_cks05 (CoinCks05 s) = Some s"

fun sh_bls04 :: "'p signature_share \<Rightarrow> 'p bls04_signature_share option" where
  "sh_bls04 (ShBls04 s) = Some s" | "sh_bls04 (ShSh00 s) = None" | "sh_bls04 (ShFrost s) = None"

fun sh_sh00 :: "'p signature_share \<Rightarrow> sh00_signature_share option" where
  "sh_sh00 (ShSh00 s) = Some s" | "sh_sh00 (ShBls04 s) = None" | "sh_sh00 (ShFrost s) = None"

subsection \<open>Getters\<close>

fun coin_get_id :: "'p coin_share \<Rightarrow> u16" where
  "coin_get_id (CoinCks05 s) = cks05sh_id s"

fun coin_get_group :: "'p coin_share \<Rightarrow> group" where
  "coin_get_group (CoinCks05 s) = ge_group (cks05sh_data s)"

fun coin_get_scheme :: "'p coin_share \<Rightarrow> threshold_scheme" where
  "coin_get_scheme (CoinCks05 s) = Cks05"

fun coin_get_data :: "'p coin_share \<Rightarrow> 'p group_element" where
  "coin_get_data (CoinCks05 s) = cks05sh_data s"

fun ct_get_ctxt :: "'p ciphertext \<Rightarrow> bytes" where
  "ct_get_ctxt (CtSg02 ct) = sg02ct_ctxt ct" | "ct_get_ctxt (CtBz03 ct) = bz03ct_ctxt ct"

fun ct_get_ck :: "'p ciphertext \<Rightarrow> bytes" where
  "ct_get_ck (CtSg02 ct) = sg02ct_c_k ct" | "ct_get_ck (CtBz03 ct) = bz03ct_c_k ct"

fun ct_get_scheme :: "'p ciphertext \<Rightarrow> threshold_scheme" where
  "ct_get_scheme (CtSg02 ct) = Sg02" | "ct_get_scheme (CtBz03 ct) = Bz03"

fun ct_get_group :: "'p ciphertext \<Rightarrow> group" where
  "ct_get_group (CtSg02 ct) = sb_group (sg02ct_e ct)" | "ct_get_group (CtBz03 ct) = ge_group (bz03ct_u ct)"

fun ct_get_label :: "'p ciphertext \<Rightarrow> bytes" where
  "ct_get_label (CtSg02 ct) = sg02ct_label ct" | "ct_get_label (CtBz03 ct) = bz03ct_label ct"

fun ct_get_key_id :: "'p ciphertext \<Rightarrow> bytes" where
  "ct_get_key_id (CtSg02 ct) = sg02ct_key_id ct" | "ct_get_key_id (CtBz03 ct) = bz03ct_key_id ct"

fun ds_get_id :: "'p decryption_share \<Rightarrow> u16" where
  "ds_get_id (DsSg02 s) = sg02sh_id s" | "ds_get_id (DsBz03 s) = bz03sh_id s"

fun ds_get_label :: "'p decryption_share \<Rightarrow> bytes" where
  "ds_get_label (DsSg02 s) = sg02sh_label s" | "ds_get_label (DsBz03 s) = bz03sh_label s"

fun ds_get_data :: "'p decryption_share \<Rightarrow> 'p group_element" where
  "ds_get_data (DsSg02 s) = sg02sh_data s" | "ds_get_data (DsBz03 s) = bz03sh_data s"

definition ds_get_group :: "'p decryption_share \<Rightarrow> group" where
  "ds_get_group s = ge_group (ds_get_data s)"

fun ds_get_scheme :: "'p decryption_share \<Rightarrow> threshold_scheme" where
  "ds_get_scheme (DsSg02 s) = Sg02" | "ds_get_scheme (DsBz03 s) = Bz03"

fun sh_get_id :: "'p signature_share \<Rightarrow> u16" where
  "sh_get_id (ShBls04 s) = bls04sh_id s" | "sh_get_id (ShSh00 s) = sh00sh_id s"
| "sh_get_id (ShFrost s) = frostsh_id s"

fun sh_get_label :: "'p signature_share \<Rightarrow> bytes may_panic" where
  "sh_get_label (ShBls04 s) = Some (bls04sh_label s)" | "sh_get_label (ShSh00 s) = Some (sh00sh_label s)"
| "sh_get_label (ShFrost s) = None"

fun sh_get_group :: "'p signature_share \<Rightarrow> group" where
  "sh_get_group (ShBls04 s) = ge_group (bls04sh_data s)" | "sh_get_group (ShSh00 s) = sh00sh_group s"
| "sh_get_group (ShFrost s) = sb_group (frostsh_data s)"

fun sh_get_scheme :: "'p signature_share \<Rightarrow> threshold_scheme" where
  "sh_get_scheme (ShBls04 s) = Bls04" | "sh_get_scheme (ShSh00 s) = Sh00" | "sh_get_scheme (ShFrost s) = Frost"

fun sh_get_data :: "'p signature_share \<Rightarrow> 'p group_element may_panic" where
  "sh_get_data (ShBls04 s) = Some (bls04sh_data s)" | "sh_get_data (ShSh00 s) = None"
| "sh_get_data (ShFrost s) = None"

text \<open>The scheme a signature is tagged with when it is written.\<close>

fun sig_scheme :: "'p signature \<Rightarrow> threshold_scheme" where
  "sig_scheme (SigBls04 s) = Bls04" | "sig_scheme (SigSh00 s) = Sh00" | "sig_scheme (SigFrost s) = Frost"

subsection \<open>Encodings\<close>

text \<open>All five enumerations write the scheme's identifier and the octets of the variant.\<close>

definition tagged_to_bytes ::
  "codec \<Rightarrow> threshold_scheme \<Rightarrow> (scheme_error + bytes) may_panic \<Rightarrow> (scheme_error + bytes) may_panic" where
  "tagged_to_bytes C scheme inner = map_option (write_seq_nested C [AU8 (scheme_get_id scheme)]) inner"

definition tagged_from_bytes ::
  "codec \<Rightarrow> (threshold_scheme \<Rightarrow> bytes \<Rightarrow> (scheme_error + 'a) may_panic) \<Rightarrow> bytes \<Rightarrow>
   (scheme_error + 'a) may_panic" where
  "tagged_from_bytes C inner bs = parse_seq C bs
     (read_u8 (\<lambda>i. read_octets (\<lambda>b.
      case scheme_from_id (word_of_int i) of None \<Rightarrow> read_fail | Some s \<Rightarrow>
      read_call (inner s b) (\<lambda>r. case r of Inl _ \<Rightarrow> read_fail | Inr x \<Rightarrow> read_end x))))"

fun coin_inner_to_bytes ::
  "codec \<Rightarrow> 'p curve_backend \<Rightarrow> 'p coin_share \<Rightarrow> (scheme_error + bytes) may_panic" where
  "coin_inner_to_bytes C B (CoinCks05 s) = cks05_share_to_bytes C B s"

fun coin_inner_from_bytes ::
  "codec \<Rightarrow> 'p curve_backend \<Rightarrow> threshold_scheme \<Rightarrow> bytes \<Rightarrow> (scheme_error + 'p coin_share) may_panic" where
  "coin_inner_from_bytes C B Cks05 b = wrap_key CoinCks05 (cks05_share_from_bytes C B b)"
| "coin_inner_from_bytes C B _ b = Some (Err DeserializationFailed)"

definition coin_to_bytes :: "codec \<Rightarrow> 'p curve_backend \<Rightarrow> 'p coin_share \<Rightarrow> (scheme_error + bytes) may_panic" where
  "coin_to_bytes C B s = tagged_to_bytes C (coin_get_scheme s) (coin_inner_to_bytes C B s)"

definition coin_from_bytes :: "codec \<Rightarrow> 'p curve_backend \<Rightarrow> bytes \<Rightarrow> (scheme_error + 'p coin_share) may_panic" where
  "coin_from_bytes C B = tagged_from_bytes C (coin_inner_from_bytes C B)"

fun ct_inner_to_bytes ::
  "codec \<Rightarrow> 'p curve_backend \<Rightarrow> 'p ciphertext \<Rightarrow> (scheme_error + bytes) may_panic" where
  "ct_inner_to_bytes C B (CtSg02 ct) = sg02_ct_to_bytes C B ct"
| "ct_inner_to_bytes C B (CtBz03 ct) = bz03_ct_to_bytes C B ct"

fun ct_inner_from_bytes ::
  "codec \<Rightarrow> 'p curve_backend \<Rightarrow> threshold_scheme \<Rightarrow> bytes \<Rightarrow> (scheme_error + 'p ciphertext) may_panic" where
  "ct_inner_from_bytes C B Sg02 b = wrap_key CtSg02 (sg02_ct_from_bytes C B b)"
| "ct_inner_from_bytes C B Bz03 b = wrap_key CtBz03 (bz03_ct_from_bytes C B b)"
| "ct_inner_from_bytes C B _ b = Some (Err DeserializationFailed)"

definition ct_to_bytes :: "codec \<Rightarrow> 'p curve_backend \<Rightarrow> 'p ciphertext \<Rightarrow> (scheme_error + bytes) may_panic" where
  "ct_to_bytes C B ct = tagged_to_bytes C (ct_get_scheme ct) (ct_inner_to_bytes C B ct)"

definition ct_from_bytes :: "codec \<Rightarrow> 'p curve_backend \<Rightarrow> bytes \<Rightarrow> (scheme_error + 'p ciphertext) may_panic" where
  "ct_from_bytes C B = tagged_from_bytes C (ct_inner_from_bytes C B)"

fun ds_inner_to_bytes ::
  "codec \<Rightarrow> 'p curve_backend \<Rightarrow> 'p decryption_share \<Rightarrow> (scheme_error + bytes) may_panic" where
  "ds_inner_to_bytes C B (DsSg02 s) = sg02_share_to_bytes C B s"
| "ds_inner_to_bytes C B (DsBz03 s) = bz03_share_to_bytes C B s"

fun ds_inner_from_bytes ::
  "codec \<Rightarrow> 'p curve_backend \<Rightarrow> threshold_scheme \<Rightarrow> bytes \<Rightarrow> (scheme_error + 'p decryption_share) may_panic" where
  "ds_inner_from_bytes C B Sg02 b = wrap_key DsSg02 (sg02_share_from_bytes C B b)"
| "ds_inner_from_bytes C B Bz03 b = wrap_key DsBz03 (bz03_share_from_bytes C B b)"
| "ds_inner_from_bytes C B _ b = Some (Err DeserializationFailed)"

definition ds_to_bytes :: "codec \<Rightarrow> 'p curve_backend \<Rightarrow> 'p decryption_share \<Rightarrow> (scheme_error + bytes) may_panic" where
  "ds_to_bytes C B s = tagged_to_bytes C (ds_get_scheme s) (ds_inner_to_bytes C B s)"

definition ds_from_bytes :: "codec \<Rightarrow> 'p curve_backend \<Rightarrow> bytes \<Rightarrow> (scheme_error + 'p decryption_share) may_panic" where
  "ds_from_bytes C B = tagged_from_bytes C (ds_inner_from_bytes C B)"

fun sh_inner_to_bytes ::
  "codec \<Rightarrow> 'p curve_backend \<Rightarrow> 'p signature_share \<Rightarrow> (scheme_error + bytes) may_panic" where
  "sh_inner_to_bytes C B (ShBls04 s) = bls04_share_to_bytes C B s"
| "sh_inner_to_bytes C B (ShFrost s) = Some (frost_share_to_bytes C s)"
| "sh_inner_to_bytes C B (ShSh00 s) = Some (sh00_share_to_bytes C s)"

fun sh_inner_from_bytes ::
  "codec \<Rightarrow> 'p curve_backend \<Rightarrow> threshold_scheme \<Rightarrow> bytes \<Rightarrow> (scheme_error + 'p signature_share) may_panic" where
  "sh_inner_from_bytes C B Bls04 b = wrap_key ShBls04 (bls04_share_from_bytes C B b)"
| "sh_inner_from_bytes C B Frost b = wrap_key ShFrost (frost_share_from_bytes C b)"
| "sh_inner_from_bytes C B Sh00 b = wrap_key ShSh00 (sh00_share_from_bytes C b)"
| "sh_inner_from_bytes C B _ b = Some (Err DeserializationFailed)"

definition sh_to_bytes :: "codec \<Rightarrow> 'p curve_backend \<Rightarrow> 'p signature_share \<Rightarrow> (scheme_error + bytes) may_panic" where
  "sh_to_bytes C B s = tagged_to_bytes C (sh_get_scheme s) (sh_inner_to_bytes C B s)"

definition sh_from_bytes :: "codec \<Rightarrow> 'p curve_backend \<Rightarrow> bytes \<Rightarrow> (scheme_error + 'p signature_share) may_panic" where
  "sh_from_bytes C B = tagged_from_bytes C (sh_inner_from_bytes C B)"

fun sig_inner_to_bytes ::
  "codec \<Rightarrow> 'p curve_backend \<Rightarrow> 'p signature \<Rightarrow> (scheme_error + bytes) may_panic" where
  "sig_inner_to_bytes C B (SigBls04 s) = bls04_sig_to_bytes C B s"
| "sig_inner_to_bytes C B (SigFrost s) = frost_sig_to_bytes C B s"
| "sig_inner_to_bytes C B (SigSh00 s) = Some (sh00_sig_to_bytes C s)"

fun sig_inner_from_bytes ::
  "codec \<Rightarrow> 'p curve_backend \<Rightarrow> threshold_scheme \<Rightarrow> bytes \<Rightarrow> (scheme_error + 'p signature) may_panic" where
  "sig_inner_from_bytes C B Bls04 b = wrap_key SigBls04 (bls04_sig_from_bytes C B b)"
| "sig_inner_from_bytes C B Frost b = wrap_key SigFrost (frost_sig_from_bytes C B b)"
| "sig_inner_from_bytes C B Sh00 b = wrap_key SigSh00 (sh00_sig_from_bytes C b)"
| "sig_inner_from_bytes C B _ b = Some (Err DeserializationFailed)"

definition sig_to_bytes :: "codec \<Rightarrow> 'p curve_backend \<Rightarrow> 'p signature \<Rightarrow> (scheme_error + bytes) may_panic" where
  "sig_to_bytes C B s = tagged_to_bytes C (sig_scheme s) (sig_inner_to_bytes C B s)"

definition sig_from_bytes :: "codec \<Rightarrow> 'p curve_backend \<Rightarrow> bytes \<Rightarrow> (scheme_error + 'p signature) may_panic" where
  "sig_from_bytes C B = tagged_from_bytes C (sig_inner_from_bytes C B)"

subsection \<open>ThresholdCoin\<close>

fun coin_create_share ::
  "'p curve_backend \<Rightarrow> bytes \<Rightarrow> 'p private_key_share \<Rightarrow> int \<Rightarrow> (scheme_error + 'p coin_share) may_panic" where
  "coin_create_share B name (SkCks05 sk) s = map_option (\<lambda>sh. Ok (CoinCks05 sh)) (cks05_create_share B name sk s)"
| "coin_create_share B name _ s = Some (Err WrongKeyProvided)"

fun coin_verify_share ::
  "'p curve_backend \<Rightarrow> 'p coin_share \<Rightarrow> bytes \<Rightarrow> 'p public_key \<Rightarrow> (scheme_error + bool) may_panic" where
  "coin_verify_share B (CoinCks05 sh) name (PkCks05 pk) = map_option Ok (cks05_verify_share B sh name pk)"
| "coin_verify_share B sh name _ = Some (Err WrongKeyProvided)"

definition coin_assemble :: "'p curve_backend \<Rightarrow> 'p coin_share list \<Rightarrow> (scheme_error + u8) may_panic" where
  "coin_assemble B shares =
     (case unwrap_enum_vec coin_cks05 WrongScheme shares of
        Inl e \<Rightarrow> Some (Err e)
      | Inr v \<Rightarrow> map_option Ok (cks05_assemble B v))"

subsection \<open>ThresholdCipher\<close>

text \<open>The draws of one encryption: the exponent, the symmetric key and, for SG02, the nonce of the proof.\<close>

record enc_draws =
  ed_r :: int
  ed_symm_key :: bytes
  ed_s :: int

fun tc_encrypt ::
  "'p curve_backend \<Rightarrow> aead \<Rightarrow> bytes \<Rightarrow> bytes \<Rightarrow> 'p public_key \<Rightarrow> enc_draws \<Rightarrow>
   (scheme_error + 'p ciphertext) may_panic" where
  "tc_encrypt B A msg label (PkSg02 key) d =
     map_option (\<lambda>ct. Ok (CtSg02 ct)) (sg02_encrypt B A msg label key (ed_r d) (ed_symm_key d) (ed_s d))"
| "tc_encrypt B A msg label (PkBz03 key) d =
     map_option (\<lambda>ct. Ok (CtBz03 ct)) (bz03_encrypt B A msg label key (ed_r d) (ed_symm_key d))"
| "tc_encrypt B A msg label _ d = Some (Err WrongKeyProvided)"

fun tc_verify_ciphertext ::
  "'p curve_backend \<Rightarrow> 'p ciphertext \<Rightarrow> 'p public_key \<Rightarrow> (scheme_error + bool) may_panic" where
  "tc_verify_ciphertext B (CtSg02 ct) (PkSg02 key) = map_option Ok (sg02_verify_ciphertext B ct key)"
| "tc_verify_ciphertext B (CtBz03 ct) (PkBz03 key) = bz03_verify_ciphertext B ct key"
| "tc_verify_ciphertext B ct _ = Some (Err WrongKeyProvided)"

fun tc_verify_share ::
  "'p curve_backend \<Rightarrow> 'p decryption_share \<Rightarrow> 'p ciphertext \<Rightarrow> 'p public_key \<Rightarrow>
   (scheme_error + bool) may_panic" where
  "tc_verify_share B sh (CtSg02 ct) pubkey =
     (case sh of
        DsSg02 s \<Rightarrow> (case pubkey of PkSg02 key \<Rightarrow> map_option Ok (sg02_verify_share B s ct key)
                     | _ \<Rightarrow> Some (Err WrongKeyProvided))
      | _ \<Rightarrow> Some (Err WrongScheme))"
| "tc_verify_share B sh (CtBz03 ct) pubkey =
     (case sh of
        DsBz03 s \<Rightarrow> (case pubkey of PkBz03 key \<Rightarrow> bz03_verify_share B s ct key
                     | _ \<Rightarrow> Some (Err WrongKeyProvided))
      | _ \<Rightarrow> Some (Err WrongScheme))"

fun tc_partial_decrypt ::
  "'p curve_backend \<Rightarrow> 'p ciphertext \<Rightarrow> 'p private_key_share \<Rightarrow> int \<Rightarrow>
   (scheme_error + 'p decryption_share) may_panic" where
  "tc_partial_decrypt B (CtSg02 ct) (SkSg02 key) s =
     map_option (\<lambda>sh. Ok (DsSg02 sh)) (sg02_partial_decrypt B ct key s)"
| "tc_partial_decrypt B (CtBz03 ct) (SkBz03 key) s =
     map_option (\<lambda>sh. Ok (DsBz03 sh)) (bz03_partial_decrypt B ct key)"
| "tc_partial_decrypt B ct _ s = Some (Err WrongKeyProvided)"

fun tc_assemble ::
  "'p curve_backend \<Rightarrow> aead \<Rightarrow> 'p decryption_share list \<Rightarrow> 'p ciphertext \<Rightarrow>
   (scheme_error + bytes) may_panic" where
  "tc_assemble B A shares (CtSg02 ct) =
     (case unwrap_enum_vec ds_sg02 WrongScheme shares of
        Inl e \<Rightarrow> Some (Err e) | Inr v \<Rightarrow> sg02_assemble B A v ct)"
| "tc_assemble B A shares (CtBz03 ct) =
     (case unwrap_enum_vec ds_bz03 WrongScheme shares of
        Inl e \<Rightarrow> Some (Err e) | Inr v \<Rightarrow> bz03_assemble B A v ct)"

subsection \<open>ThresholdSignature\<close>

fun ts_verify ::
  "'p curve_backend \<Rightarrow> 'p signature \<Rightarrow> 'p public_key \<Rightarrow> bytes \<Rightarrow> (scheme_error + bool) may_panic" where
  "ts_verify B (SigBls04 s) (PkBls04 key) msg = bls04_verify B s key msg"
| "ts_verify B (SigSh00 s) (PkSh00 key) msg = map_option Ok (sh00_verify s key msg)"
| "ts_verify B (SigFrost s) (PkFrost key) msg = map_option Ok (frost_verify B s key msg)"
| "ts_verify B s _ msg = Some (Err WrongKeyProvided)"

fun ts_partial_sign ::
  "'p curve_backend \<Rightarrow> (int \<Rightarrow> int \<Rightarrow> int) \<Rightarrow> bytes \<Rightarrow> bytes \<Rightarrow> 'p private_key_share \<Rightarrow> int \<Rightarrow>
   (scheme_error + 'p signature_share) may_panic" where
  "ts_partial_sign B jac msg label (SkBls04 sk) r =
     map_option (\<lambda>s. Ok (ShBls04 s)) (bls04_partial_sign B msg label sk)"
| "ts_partial_sign B jac msg label (SkSh00 sk) r =
     map_option (\<lambda>s. Ok (ShSh00 s)) (sh00_partial_sign jac msg label sk r)"
| "ts_partial_sign B jac msg label _ r = Some (Err WrongKeyProvided)"

fun ts_verify_share ::
  "'p curve_backend \<Rightarrow> (int \<Rightarrow> int \<Rightarrow> int) \<Rightarrow> 'p signature_share \<Rightarrow> bytes \<Rightarrow> 'p public_key \<Rightarrow>
   (scheme_error + bool) may_panic" where
  "ts_verify_share B jac (ShBls04 s) msg pubkey =
     (case pubkey of PkBls04 key \<Rightarrow> bls04_verify_share B s msg key | _ \<Rightarrow> Some (Err WrongKeyProvided))"
| "ts_verify_share B jac (ShSh00 s) msg pubkey =
     (case pubkey of PkSh00 key \<Rightarrow> map_option Ok (sh00_verify_share jac s msg key)
      | _ \<Rightarrow> Some (Err WrongKeyProvided))"
| "ts_verify_share B jac (ShFrost s) msg pubkey = Some (Err WrongScheme)"

definition ts_assemble ::
  "'p curve_backend \<Rightarrow> (int \<Rightarrow> int \<Rightarrow> int) \<Rightarrow> 'p signature_share list \<Rightarrow> bytes \<Rightarrow> 'p public_key \<Rightarrow>
   (scheme_error + 'p signature) may_panic" where
  "ts_assemble B jac shares msg pubkey =
     (case pubkey of
        PkBls04 key \<Rightarrow>
          (case unwrap_enum_vec sh_bls04 WrongScheme shares of
             Inl e \<Rightarrow> Some (Err e)
           | Inr v \<Rightarrow> map_option (\<lambda>s. Ok (SigBls04 s)) (bls04_assemble B v msg key))
      | PkSh00 key \<Rightarrow>
          (case unwrap_enum_vec sh_sh00 WrongScheme shares of
             Inl e \<Rightarrow> Some (Err e)
           | Inr v \<Rightarrow> map_option (\<lambda>s. Ok (SigSh00 s)) (sh00_assemble jac v msg key))
      | _ \<Rightarrow> Some (Err WrongKeyProvided))"

end
