(* ===== verification/QC_WireCodec.thy ===== *)
theory QC_WireCodec
  imports QC_Interface QC_KeyCodec
begin

text \<open>
  Encodings of what the parties send each other and hand to their clients (\<open>Serializable\<close> of
  \<open>Ciphertext\<close>, \<open>DecryptionShare\<close>, \<open>SignatureShare\<close>, \<open>Signature\<close> and \<open>CoinShare\<close> in
  \<open>interface.rs\<close>): well-formed values read back as they were written, and an encoding with a scalar
  that is too short makes the reader panic instead of returning an error.
\<close>

definition point_ok :: "'p curve_backend \<Rightarrow> group \<Rightarrow> nat \<Rightarrow> 'p group_element \<Rightarrow> bool" where
  "point_ok B g i P = (curve_ok B g i \<and> point_codec_ok B g i \<and> (\<exists>a. P = gpow B g i a))"

definition scalar_ok :: "group \<Rightarrow> sized_big_int \<Rightarrow> bool" where
  "scalar_ok g s = (is_dl g \<and> sb_group s = g \<and> 0 \<le> sb_val s \<and> sb_val s < 256 ^ modbytes g)"

fun ct_wf :: "'p curve_backend \<Rightarrow> 'p ciphertext \<Rightarrow> bool" where
  "ct_wf B (CtSg02 ct) = (let g = sb_group (sg02ct_e ct) in
     point_ok B g 0 (sg02ct_u ct) \<and> point_ok B g 0 (sg02ct_u_bar ct) \<and> scalar_ok g (sg02ct_e ct)
     \<and> scalar_ok g (sg02ct_f ct) \<and> utf8_valid (sg02ct_key_id ct))"
| "ct_wf B (CtBz03 ct) = (let g = ge_group (bz03ct_u ct) in
     point_ok B g 1 (bz03ct_u ct) \<and> point_ok B g 0 (bz03ct_hr ct) \<and> utf8_valid (bz03ct_key_id ct))"

fun ds_wf :: "'p curve_backend \<Rightarrow> 'p decryption_share \<Rightarrow> bool" where
  "ds_wf B (DsSg02 s) = (let g = ge_group (sg02sh_data s) in
     point_ok B g 0 (sg02sh_data s) \<and> scalar_ok g (sg02sh_ei s) \<and> scalar_ok g (sg02sh_fi s))"
| "ds_wf B (DsBz03 s) = point_ok B (bz03sh_group s) 1 (bz03sh_data s)"

fun sh_wf :: "'p curve_backend \<Rightarrow> 'p signature_share \<Rightarrow> bool" where
  "sh_wf B (ShBls04 s) = point_ok B (bls04sh_group s) 1 (bls04sh_data s)"
| "sh_wf B (ShSh00 s) = (0 \<le> sh00sh_xi s \<and> 0 \<le> sh00sh_z s \<and> 0 \<le> sh00sh_c s)"
| "sh_wf B (ShFrost s) = scalar_ok (sb_group (frostsh_data s)) (frostsh_data s)"

fun sig_wf :: "'p curve_backend \<Rightarrow> 'p signature \<Rightarrow> bool" where
  "sig_wf B (SigBls04 s) = point_ok B (bls04sig_group s) 1 (bls04sig_sig s)"
| "sig_wf B (SigSh00 s) = (0 \<le> sh00sig_sig s)"
| "sig_wf B (SigFrost s) = (let g = ge_group (frostsig_R s) in
     point_ok B g 0 (frostsig_R s) \<and> scalar_ok g (frostsig_z s))"

fun coin_wf :: "'p curve_backend \<Rightarrow> 'p coin_share \<Rightarrow> bool" where
  "coin_wf B (CoinCks05 s) = (let g = ge_group (cks05sh_data s) in
     point_ok B g 0 (cks05sh_data s) \<and> scalar_ok g (cks05sh_c s) \<and> scalar_ok g (cks05sh_z s))"

subsection \<open>Points and scalars\<close>

lemma point_okE:
  assumes "point_ok B g i P"
  obtains a where "P = gpow B g i a" "ge_to_bytes B P = Some (cb_tobytes B g i (ge_val P))"
    "ge_group P = g" "ge_from_bytes B (cb_tobytes B g i (ge_val P)) g (Some i) = Some P"
    "i = 0 \<Longrightarrow> ge_from_bytes B (cb_tobytes B g i (ge_val P)) g None = Some P"
proof -
  obtain a where a: "curve_ok B g i" "point_codec_ok B g i" "P = gpow B g i a"
    using assms by (auto simp: point_ok_def)
  show thesis using that [of a] a ge_from_to_bytes_gpow [OF a(1,2), of a] by (simp add: ge_simps)
qed

lemma scalar_ok_roundtrip: "scalar_ok g s \<Longrightarrow> sb_from_bytes g (sb_to_bytes s) = Some s"
  using sb_bytes_roundtrip [of g "sb_val s"] by (cases s) (simp add: scalar_ok_def)

lemma scalar_ok_group: "scalar_ok g s \<Longrightarrow> sb_group s = g"
  by (simp add: scalar_ok_def)

text \<open>Scalars that are read, hashed or reduced fit the width of the group.\<close>

lemma sb_from_bytes_ok: "sb_from_bytes g b = Some s \<Longrightarrow> scalar_ok g s"
  using be_value_less [of "take (modbytes g) b"] be_value_nonneg
  by (auto simp: sb_from_bytes_def scalar_ok_def min_def split: if_splits)

lemma hash_to_big_ok: "hash_to_big g buf = Some s \<Longrightarrow> scalar_ok g s"
  by (auto simp: hash_to_big_def bind_eq_Some_conv intro: sb_from_bytes_ok)

lemma sb_rmod_ok:
  assumes "sb_rmod x q = Some s" "is_dl (sb_group q)" "0 < sb_val q" "sb_val q \<le> 256 ^ modbytes (sb_group q)"
  shows "scalar_ok (sb_group q) s"
proof -
  have "0 \<le> sb_val x mod sb_val q" using assms(3) by simp
  moreover have "sb_val x mod sb_val q < 256 ^ modbytes (sb_group q)"
    by (rule order.strict_trans2 [OF pos_mod_bound [OF assms(3)] assms(4)])
  ultimately show ?thesis using assms(1,2) by (auto simp: sb_rmod_def scalar_ok_def split: if_splits)
qed

lemma tagged_roundtrip:
  assumes "codec_ok C" "inner = Some (Ok b)" "from scheme b = Some (Ok x)"
  shows "\<exists>bs. tagged_to_bytes C scheme inner = Some (Ok bs) \<and> tagged_from_bytes C from bs = Some (Ok x)"
proof -
  let ?es = "[AU8 (scheme_get_id scheme), AOctets b]"
  obtain bs where "write_seq C ?es = Ok bs" "asn_parse C bs = ?es"
    by (rule write_seq_okE [OF assms(1), of ?es]) auto
  then show ?thesis using assms(2,3)
    by (simp add: tagged_to_bytes_def tagged_from_bytes_def write_seq_nested_def parse_seq_def)
qed

subsection \<open>The inner encodings\<close>

lemma sg02_ct_roundtrip:
  assumes C: "codec_ok C" and wf: "ct_wf B (CtSg02 ct)"
  shows "\<exists>b. sg02_ct_to_bytes C B ct = Some (Ok b) \<and> sg02_ct_from_bytes C B b = Some (Ok ct)"
proof -
  let ?g = "sb_group (sg02ct_e ct)"
  let ?t = "\<lambda>P. cb_tobytes B ?g 0 (ge_val P)"
  let ?es = "[AGroup ?g, AOctets (sg02ct_label ct), AOctets (sg02ct_ctxt ct), AOctets (?t (sg02ct_u ct)),
    AOctets (?t (sg02ct_u_bar ct)), AOctets (sb_to_bytes (sg02ct_e ct)), AOctets (sb_to_bytes (sg02ct_f ct)),
    AOctets (sg02ct_c_k ct), AOctets (sg02ct_key_id ct)]"
  have p: "point_ok B ?g 0 (sg02ct_u ct)" "point_ok B ?g 0 (sg02ct_u_bar ct)"
      "scalar_ok ?g (sg02ct_e ct)" "scalar_ok ?g (sg02ct_f ct)" "utf8_valid (sg02ct_key_id ct)"
    using wf by (simp_all add: Let_def)
  obtain b where b: "write_seq C ?es = Ok b" "asn_parse C b = ?es"
    by (rule write_seq_okE [OF C, of ?es]) auto
  show ?thesis
    using b p by (auto elim!: point_okE simp: sg02_ct_to_bytes_def sg02_ct_from_bytes_def parse_seq_def
        scalar_ok_roundtrip)
qed

lemma bz03_ct_roundtrip:
  assumes C: "codec_ok C" and wf: "ct_wf B (CtBz03 ct)"
  shows "\<exists>b. bz03_ct_to_bytes C B ct = Some (Ok b) \<and> bz03_ct_from_bytes C B b = Some (Ok ct)"
proof -
  let ?g = "ge_group (bz03ct_u ct)"
  let ?es = "[AGroup ?g, AOctets (bz03ct_label ct), AOctets (bz03ct_ctxt ct),
    AOctets (cb_tobytes B ?g 1 (ge_val (bz03ct_u ct))), AOctets (cb_tobytes B ?g 0 (ge_val (bz03ct_hr ct))),
    AOctets (bz03ct_c_k ct), AOctets (bz03ct_key_id ct)]"
  have p: "point_ok B ?g 1 (bz03ct_u ct)" "point_ok B ?g 0 (bz03ct_hr ct)" "utf8_valid (bz03ct_key_id ct)"
    using wf by (simp_all add: Let_def)
  obtain b where b: "write_seq C ?es = Ok b" "asn_parse C b = ?es"
    by (rule write_seq_okE [OF C, of ?es]) auto
  show ?thesis
    by (rule point_okE [OF p(1)], rule point_okE [OF p(2)])
      (use b p(3) in \<open>simp add: bz03_ct_to_bytes_def bz03_ct_from_bytes_def parse_seq_def\<close>)
qed

lemma sg02_share_roundtrip:
  assumes C: "codec_ok C" and wf: "ds_wf B (DsSg02 s)"
  shows "\<exists>b. sg02_share_to_bytes C B s = Some (Ok b) \<and> sg02_share_from_bytes C B b = Some (Ok s)"
proof -
  let ?g = "ge_group (sg02sh_data s)"
  let ?es = "[AU16 (sg02sh_id s), AGroup ?g, AOctets (sg02sh_label s),
    AOctets (cb_tobytes B ?g 0 (ge_val (sg02sh_data s))), AOctets (sb_to_bytes (sg02sh_ei s)),
    AOctets (sb_to_bytes (sg02sh_fi s))]"
  have p: "point_ok B ?g 0 (sg02sh_data s)" "scalar_ok ?g (sg02sh_ei s)" "scalar_ok ?g (sg02sh_fi s)"
    using wf by (simp_all add: Let_def)
  obtain b where b: "write_seq C ?es = Ok b" "asn_parse C b = ?es"
    by (rule write_seq_okE [OF C, of ?es]) auto
  show ?thesis
    by (rule point_okE [OF p(1)])
      (use b p(2,3) in \<open>simp add: sg02_share_to_bytes_def sg02_share_from_bytes_def parse_seq_def scalar_ok_roundtrip\<close>)
qed

lemma bz03_share_roundtrip:
  assumes C: "codec_ok C" and wf: "ds_wf B (DsBz03 s)"
  shows "\<exists>b. bz03_share_to_bytes C B s = Some (Ok b) \<and> bz03_share_from_bytes C B b = Some (Ok s)"
proof -
  let ?g = "bz03sh_group s"
  let ?es = "[AU16 (bz03sh_id s), AGroup ?g, AOctets (bz03sh_label s),
    AOctets (cb_tobytes B ?g 1 (ge_val (bz03sh_data s)))]"
  have p: "point_ok B ?g 1 (bz03sh_data s)" using wf by simp
  obtain b where b: "write_seq C ?es = Ok b" "asn_parse C b = ?es"
    by (rule write_seq_okE [OF C, of ?es]) auto
  show ?thesis
    by (rule point_okE [OF p]) (use b in \<open>simp add: bz03_share_to_bytes_def bz03_share_from_bytes_def parse_seq_def\<close>)
qed

lemma bls04_share_roundtrip:
  assumes C: "codec_ok C" and wf: "sh_wf B (ShBls04 s)"
  shows "\<exists>b. bls04_share_to_bytes C B s = Some (Ok b) \<and> bls04_share_from_bytes C B b = Some (Ok s)"
proof -
  let ?g = "bls04sh_group s"
  let ?es = "[AU16 (bls04sh_id s), AGroup ?g, AOctets (bls04sh_label s),
    AOctets (cb_tobytes B ?g 1 (ge_val (bls04sh_data s)))]"
  have p: "point_ok B ?g 1 (bls04sh_data s)" using wf by simp
  obtain b where b: "write_seq C ?es = Ok b" "asn_parse C b = ?es"
    by (rule write_seq_okE [OF C, of ?es]) auto
  show ?thesis
    by (rule point_okE [OF p]) (use b in \<open>simp add: bls04_share_to_bytes_def bls04_share_from_bytes_def parse_seq_def\<close>)
qed

lemma bls04_sig_roundtrip:
  assumes C: "codec_ok C" and wf: "sig_wf B (SigBls04 s)"
  shows "\<exists>b. bls04_sig_to_bytes C B s = Some (Ok b) \<and> bls04_sig_from_bytes C B b = Some (Ok s)"
proof -
  let ?es = "[AGroup (bls04sig_group s), AOctets (cb_tobytes B (bls04sig_group s) 1 (ge_val (bls04sig_sig s)))]"
  have p: "point_ok B (bls04sig_group s) 1 (bls04sig_sig s)" using wf by simp
  obtain b where b: "write_seq C ?es = Ok b" "asn_parse C b = ?es"
    by (rule write_seq_okE [OF C, of ?es]) auto
  show ?thesis
    by (rule point_okE [OF p]) (use b in \<open>simp add: bls04_sig_to_bytes_def bls04_sig_from_bytes_def parse_seq_def\<close>)
qed

lemma frost_sig_roundtrip:
  assumes C: "codec_ok C" and wf: "sig_wf B (SigFrost s)"
  shows "\<exists>b. frost_sig_to_bytes C B s = Some (Ok b) \<and> frost_sig_from_bytes C B b = Some (Ok s)"
proof -
  let ?g = "ge_group (frostsig_R s)"
  let ?es = "[AGroup ?g, AOctets (cb_tobytes B ?g 0 (ge_val (frostsig_R s))), AOctets (sb_to_bytes (frostsig_z s))]"
  have p: "point_ok B ?g 0 (frostsig_R s)" "scalar_ok ?g (frostsig_z s)" using wf by (simp_all add: Let_def)
  obtain b where b: "write_seq C ?es = Ok b" "asn_parse C b = ?es"
    by (rule write_seq_okE [OF C, of ?es]) auto
  show ?thesis
    by (rule point_okE [OF p(1)])
      (use b p(2) in \<open>simp add: frost_sig_to_bytes_def frost_sig_from_bytes_def parse_seq_def scalar_ok_roundtrip\<close>)
qed

lemma frost_share_roundtrip:
  assumes C: "codec_ok C" and wf: "sh_wf B (ShFrost s)"
  shows "\<exists>b. frost_share_to_bytes C s = Ok b \<and> frost_share_from_bytes C b = Some (Ok s)"
proof -
  let ?es = "[AU16 (frostsh_id s), AGroup (sb_group (frostsh_data s)), AOctets (sb_to_bytes (frostsh_data s))]"
  obtain b where b: "write_seq C ?es = Ok b" "asn_parse C b = ?es"
    by (rule write_seq_okE [OF C, of ?es]) auto
  then show ?thesis using wf
    by (simp add: frost_share_to_bytes_def frost_share_from_bytes_def parse_seq_def scalar_ok_roundtrip)
qed

lemma sh00_share_roundtrip:
  assumes C: "codec_ok C" and wf: "sh_wf B (ShSh00 s)"
  shows "\<exists>b. sh00_share_to_bytes C s = Ok b \<and> sh00_share_from_bytes C b = Some (Ok s)"
proof -
  let ?es = "[AU16 (sh00sh_id s), AGroup (sh00sh_group s), AOctets (sh00sh_label s), ABig (sh00sh_xi s),
      ABig (sh00sh_z s), ABig (sh00sh_c s)]"
  obtain b where b: "write_seq C ?es = Ok b" "asn_parse C b = ?es"
    by (rule write_seq_okE [OF C, of ?es]) auto
  then show ?thesis using wf by (simp add: sh00_share_to_bytes_def sh00_share_from_bytes_def parse_seq_def)
qed

lemma sh00_sig_roundtrip:
  assumes C: "codec_ok C" and wf: "sig_wf B (SigSh00 s)"
  shows "\<exists>b. sh00_sig_to_bytes C s = Ok b \<and> sh00_sig_from_bytes C b = Some (Ok s)"
proof -
  obtain b where b: "write_seq C [ABig (sh00sig_sig s)] = Ok b" "asn_parse C b = [ABig (sh00sig_sig s)]"
    by (rule write_seq_okE [OF C, of "[ABig (sh00sig_sig s)]"]) auto
  then show ?thesis using wf by (simp add: sh00_sig_to_bytes_def sh00_sig_from_bytes_def parse_seq_def)
qed

lemma cks05_share_roundtrip:
  assumes C: "codec_ok C" and wf: "coin_wf B (CoinCks05 s)"
  shows "\<exists>b. cks05_share_to_bytes C B s = Some (Ok b) \<and> cks05_share_from_bytes C B b = Some (Ok s)"
proof -
  let ?g = "ge_group (cks05sh_data s)"
  let ?es = "[AU16 (cks05sh_id s), AGroup ?g, AOctets (cb_tobytes B ?g 0 (ge_val (cks05sh_data s))),
    AOctets (sb_to_bytes (cks05sh_c s)), AOctets (sb_to_bytes (cks05sh_z s))]"
  have p: "point_ok B ?g 0 (cks05sh_data s)" "scalar_ok ?g (cks05sh_c s)" "scalar_ok ?g (cks05sh_z s)"
    using wf by (simp_all add: Let_def)
  obtain b where b: "write_seq C ?es = Ok b" "asn_parse C b = ?es"
    by (rule write_seq_okE [OF C, of ?es]) auto
  show ?thesis
    by (rule point_okE [OF p(1)])
      (use b p(2,3) in \<open>simp add: cks05_share_to_bytes_def cks05_share_from_bytes_def parse_seq_def scalar_ok_roundtrip\<close>)
qed

lemma wrap_key_Ok [simp]: "wrap_key f (Some (Ok x)) = Some (Ok (f x))"
  by (simp add: wrap_key_def)

subsection \<open>The tagged encodings\<close>

lemma ct_roundtrip:
  assumes "codec_ok C" "ct_wf B ct"
  shows "\<exists>b. ct_to_bytes C B ct = Some (Ok b) \<and> ct_from_bytes C B b = Some (Ok ct)"
proof -
  obtain b where "ct_inner_to_bytes C B ct = Some (Ok b)"
      "ct_inner_from_bytes C B (ct_get_scheme ct) b = Some (Ok ct)"
  proof (cases ct)
    case (CtSg02 x)
    then show thesis using sg02_ct_roundtrip [OF assms(1), of B x] assms(2) that
      by (auto simp del: ct_wf.simps)
  next
    case (CtBz03 x)
    then show thesis using bz03_ct_roundtrip [OF assms(1), of B x] assms(2) that
      by (auto simp del: ct_wf.simps)
  qed
  then show ?thesis unfolding ct_to_bytes_def ct_from_bytes_def by (rule tagged_roundtrip [OF assms(1)])
qed

lemma ds_roundtrip:
  assumes "codec_ok C" "ds_wf B s"
  shows "\<exists>b. ds_to_bytes C B s = Some (Ok b) \<and> ds_from_bytes C B b = Some (Ok s)"
proof -
  obtain b where "ds_inner_to_bytes C B s = Some (Ok b)"
      "ds_inner_from_bytes C B (ds_get_scheme s) b = Some (Ok s)"
  proof (cases s)
    case (DsSg02 x)
    then show thesis using sg02_share_roundtrip [OF assms(1), of B x] assms(2) that
      by (auto simp del: ds_wf.simps)
  next
    case (DsBz03 x)
    then show thesis using bz03_share_roundtrip [OF assms(1), of B x] assms(2) that
      by (auto simp del: ds_wf.simps)
  qed
  then show ?thesis unfolding ds_to_bytes_def ds_from_bytes_def by (rule tagged_roundtrip [OF assms(1)])
qed

lemma sh_roundtrip:
  assumes "codec_ok C" "sh_wf B s"
  shows "\<exists>b. sh_to_bytes C B s = Some (Ok b) \<and> sh_from_bytes C B b = Some (Ok s)"
proof -
  obtain b where "sh_inner_to_bytes C B s = Some (Ok b)"
      "sh_inner_from_bytes C B (sh_get_scheme s) b = Some (Ok s)"
  proof (cases s)
    case (ShBls04 x)
    then show thesis using bls04_share_roundtrip [OF assms(1), of B x] assms(2) that
      by (auto simp del: sh_wf.simps)
  next
    case (ShSh00 x)
    then show thesis using sh00_share_roundtrip [OF assms(1), of B x] assms(2) that
      by (auto simp del: sh_wf.simps)
  next
    case (ShFrost x)
    then show thesis using frost_share_roundtrip [OF assms(1), of B x] assms(2) that
      by (auto simp del: sh_wf.simps)
  qed
  then show ?thesis unfolding sh_to_bytes_def sh_from_bytes_def by (rule tagged_roundtrip [OF assms(1)])
qed

lemma sig_roundtrip:
  assumes "codec_ok C" "sig_wf B s"
  shows "\<exists>b. sig_to_bytes C B s = Some (Ok b) \<and> sig_from_bytes C B b = Some (Ok s)"
proof -
  obtain b where "sig_inner_to_bytes C B s = Some (Ok b)"
      "sig_inner_from_bytes C B (sig_scheme s) b = Some (Ok s)"
  proof (cases s)
    case (SigBls04 x)
    then show thesis using bls04_sig_roundtrip [OF assms(1), of B x] assms(2) that
      by (auto simp del: sig_wf.simps)
  next
    case (SigSh00 x)
    then show thesis using sh00_sig_roundtrip [OF assms(1), of B x] assms(2) that
      by (auto simp del: sig_wf.simps)
  next
    case (SigFrost x)
    then show thesis using frost_sig_roundtrip [OF assms(1), of B x] assms(2) that
      by (auto simp del: sig_wf.simps)
  qed
  then show ?thesis unfolding sig_to_bytes_def sig_from_bytes_def by (rule tagged_roundtrip [OF assms(1)])
qed

lemma coin_roundtrip:
  assumes "codec_ok C" "coin_wf B s"
  shows "\<exists>b. coin_to_bytes C B s = Some (Ok b) \<and> coin_from_bytes C B b = Some (Ok s)"
proof -
  obtain b where "coin_inner_to_bytes C B s = Some (Ok b)"
      "coin_inner_from_bytes C B (coin_get_scheme s) b = Some (Ok s)"
  proof (cases s)
    case (CoinCks05 x)
    then show thesis using cks05_share_roundtrip [OF assms(1), of B x] assms(2) that
      by (auto simp del: coin_wf.simps)
  qed
  then show ?thesis unfolding coin_to_bytes_def coin_from_bytes_def by (rule tagged_roundtrip [OF assms(1)])
qed

text \<open>
  C15.  Everything that crosses the network survives it.  Ciphertexts, decryption shares, signature
  shares, signatures and coin shares whose points lie in the group and whose scalars fit the width of
  the group are written by \<open>to_bytes\<close> and read back unchanged by \<open>from_bytes\<close>, for every scheme.
\<close>

theorem wire_roundtrip:
  assumes "codec_ok C"
  shows "(ct_wf B ct \<longrightarrow> (\<exists>b. ct_to_bytes C B ct = Some (Ok b) \<and> ct_from_bytes C B b = Some (Ok ct)))
    \<and> (ds_wf B ds \<longrightarrow> (\<exists>b. ds_to_bytes C B ds = Some (Ok b) \<and> ds_from_bytes C B b = Some (Ok ds)))
    \<and> (sh_wf B sh \<longrightarrow> (\<exists>b. sh_to_bytes C B sh = Some (Ok b) \<and> sh_from_bytes C B b = Some (Ok sh)))
    \<and> (sig_wf B sig \<longrightarrow> (\<exists>b. sig_to_bytes C B sig = Some (Ok b) \<and> sig_from_bytes C B b = Some (Ok sig)))
    \<and> (coin_wf B coin \<longrightarrow> (\<exists>b. coin_to_bytes C B coin = Some (Ok b) \<and> coin_from_bytes C B b = Some (Ok coin)))"
  using ct_roundtrip [OF assms] ds_roundtrip [OF assms] sh_roundtrip [OF assms] sig_roundtrip [OF assms]
    coin_roundtrip [OF assms] by blast

definition toy_ct :: "int ciphertext" where
  "toy_ct = CtBz03 \<lparr>bz03ct_label = [1], bz03ct_ctxt = [2, 3], bz03ct_c_k = [4],
     bz03ct_u = gpow z11_backend Bn254 1 6, bz03ct_hr = gpow z11_backend Bn254 0 7, bz03ct_key_id = [65]\<rparr>"

definition toy_ds :: "int decryption_share" where
  "toy_ds = DsSg02 \<lparr>sg02sh_id = 2, sg02sh_label = [1], sg02sh_data = gpow z11_backend Bn254 0 9,
     sg02sh_ei = SBI Bn254 3, sg02sh_fi = SBI Bn254 10\<rparr>"

definition toy_sig :: "int signature" where
  "toy_sig = SigFrost \<lparr>frostsig_R = gpow z11_backend Ed25519 0 4, frostsig_z = SBI Ed25519 8\<rparr>"

definition toy_sh :: "int signature_share" where
  "toy_sh = ShSh00 \<lparr>sh00sh_group = Rsa512, sh00sh_id = 3, sh00sh_label = [], sh00sh_xi = 300,
     sh00sh_z = 5, sh00sh_c = 0\<rparr>"

definition toy_coin :: "int coin_share" where
  "toy_coin = CoinCks05 \<lparr>cks05sh_id = 1, cks05sh_data = gpow z11_backend Bls12381 0 2,
     cks05sh_c = SBI Bls12381 1, cks05sh_z = SBI Bls12381 255\<rparr>"

lemma toy_wire_wf: "ct_wf z11_backend toy_ct" "ds_wf z11_backend toy_ds" "sh_wf z11_backend toy_sh"
    "sig_wf z11_backend toy_sig" "coin_wf z11_backend toy_coin"
  by (auto simp: toy_ct_def toy_ds_def toy_sh_def toy_sig_def toy_coin_def point_ok_def scalar_ok_def z11_ok
      Let_def ge_simps)

theorem wire_roundtrip_witness:
  "(\<exists>b. ct_to_bytes unary_codec z11_backend toy_ct = Some (Ok b) \<and> ct_from_bytes unary_codec z11_backend b = Some (Ok toy_ct))
   \<and> (\<exists>b. ds_to_bytes unary_codec z11_backend toy_ds = Some (Ok b) \<and> ds_from_bytes unary_codec z11_backend b = Some (Ok toy_ds))
   \<and> (\<exists>b. sh_to_bytes unary_codec z11_backend toy_sh = Some (Ok b) \<and> sh_from_bytes unary_codec z11_backend b = Some (Ok toy_sh))
   \<and> (\<exists>b. sig_to_bytes unary_codec z11_backend toy_sig = Some (Ok b) \<and> sig_from_bytes unary_codec z11_backend b = Some (Ok toy_sig))
   \<and> (\<exists>b. coin_to_bytes unary_codec z11_backend toy_coin = Some (Ok b) \<and> coin_from_bytes unary_codec z11_backend b = Some (Ok toy_coin))"
  using wire_roundtrip [OF unary_codec_ok, of z11_backend toy_ct toy_ds toy_sh toy_sig toy_coin] toy_wire_wf
  by blast

text \<open>
  C16.  A malformed share panics its reader.  There is an encoding, well formed as a sequence of ASN.1
  elements and tagged as an SG02 share of any discrete-log group, on which \<open>from_bytes\<close> neither
  returns a share nor an error: a scalar of fewer bytes than the group's modulus is indexed past its
  end.
\<close>

theorem short_scalar_panics:
  fixes B :: "'p curve_backend"
  assumes C: "codec_ok C" and short: "length e < modbytes g"
  shows "\<exists>inner bs. asn_parse C inner = [AU16 i, AGroup g, AOctets label, AOctets d, AOctets e, AOctets f]
    \<and> asn_parse C bs = [AU8 (scheme_get_id Sg02), AOctets inner] \<and> ds_from_bytes C B bs = None"
proof -
  let ?es = "[AU16 i, AGroup g, AOctets label, AOctets d, AOctets e, AOctets f]"
  obtain b where b: "asn_parse C b = ?es"
    by (rule write_seq_okE [OF C, of ?es]) auto
  have "sb_from_bytes g e = None" using short by (simp add: sb_from_bytes_def)
  then have "sg02_share_from_bytes C B b = None" using b
    by (cases "ge_from_bytes B d g None") (simp_all add: sg02_share_from_bytes_def parse_seq_def)
  moreover obtain bs where bs: "asn_parse C bs = [AU8 (scheme_get_id Sg02), AOctets b]"
    by (rule write_seq_okE [OF C, of "[AU8 (scheme_get_id Sg02), AOctets b]"]) auto
  ultimately have "ds_from_bytes C B bs = None"
    by (simp add: ds_from_bytes_def tagged_from_bytes_def parse_seq_def wrap_key_def)
  then show ?thesis using b bs by blast
qed

theorem short_scalar_panics_witness:
  "\<exists>bs. ds_from_bytes unary_codec z11_backend bs = None"
  using short_scalar_panics [OF unary_codec_ok, of "[1, 2]" Ed25519 1 "[]" "replicate 65 0" "[]" z11_backend] by auto

end
