(* ===== verification/QC_FrostProtocol.thy ===== *)
theory QC_FrostProtocol
  imports QC_RoundProtocol QC_WireCodec "HOL-Library.AList" "HOL-Library.Multiset"
begin

text \<open>
  The FROST protocol (\<open>protocols/src/frost\<close>): signer groups, precomputations, messages, the state of
  \<open>FrostProtocol\<close> and its methods.  A \<open>HashMap\<close> is an association list in the order of insertion; the
  order in which Rust iterates over it is a parameter, as is the generator that \<open>SignerGroup::new\<close>
  seeds from the message.  The draws of a round are the random octets of each \<open>commit\<close>.  Whether
  arithmetic overflow panics or wraps depends on the build and is a parameter too.
\<close>

subsection \<open>Loops that need not end\<close>

text \<open>
  The one loop of the program that need not end returns an \<open>'a may_hang\<close>: \<open>None\<close> when it runs for
  ever, otherwise what it returns or that it panics.  To the code after it both are the same.
\<close>

type_synonym 'a may_hang = "'a may_panic option"

definition returned :: "'a may_hang \<Rightarrow> 'a may_panic" where
  "returned r = (case r of None \<Rightarrow> None | Some x \<Rightarrow> x)"

lemma returned_simps [simp]: "returned None = None" "returned (Some x) = x"
  by (simp_all add: returned_def)

lemma returned_eq: "returned r = Some x \<longleftrightarrow> r = Some (Some x)" "returned r = None \<longleftrightarrow> r = None \<or> r = Some None"
  by (auto simp: returned_def split: option.splits)

subsection \<open>Hash maps\<close>

text \<open>
  What the language leaves open: the order in which each hash map or set is iterated, and whether the
  build checks arithmetic for overflow (a debug build does; a release build, as in the \<open>Dockerfile\<close>,
  wraps).
\<close>

record hash_orders =
  ho_commitments :: "u16 list \<Rightarrow> u16 list"
  ho_shares :: "u16 list \<Rightarrow> u16 list"
  ho_group :: "u16 list \<Rightarrow> u16 list"
  ho_overflow_checks :: bool

definition orders_ok :: "hash_orders \<Rightarrow> bool" where
  "orders_ok H = (\<forall>xs. mset (ho_commitments H xs) = mset xs \<and> mset (ho_shares H xs) = mset xs
     \<and> mset (ho_group H xs) = mset xs)"

definition hm_contains_key :: "(u16 \<times> 'v) list \<Rightarrow> u16 \<Rightarrow> bool" where
  "hm_contains_key m i = (i \<in> set (map fst m))"

definition hm_values :: "(u16 list \<Rightarrow> u16 list) \<Rightarrow> (u16 \<times> 'v) list \<Rightarrow> 'v list" where
  "hm_values ord m = List.map_filter (map_of m) (ord (map fst m))"

subsection \<open>Signer groups\<close>

record signer_group =
  sg_signer_identifiers :: "u16 list"

text \<open>The loop ends when enough different identifiers have been drawn.\<close>

partial_function (option) signer_loop :: "(nat \<Rightarrow> u16) \<Rightarrow> nat \<Rightarrow> nat \<Rightarrow> u16 list \<Rightarrow> u16 list option" where
  "signer_loop draw t i ids =
     (if length ids < t then signer_loop draw t (Suc i) (List.insert (draw i) ids) else Some ids)"

text \<open>
  The arithmetic on the threshold panics on overflow or wraps.  \<open>gen_range(1..=n)\<close> panics on the empty
  range, which the first pass of the loop meets when \<open>n\<close> has wrapped to \<open>0\<close>.
\<close>

definition signer_group_new ::
  "hash_orders \<Rightarrow> (bytes \<Rightarrow> u16 \<Rightarrow> nat \<Rightarrow> u16) \<Rightarrow> u16 \<Rightarrow> bytes \<Rightarrow> signer_group may_hang" where
  "signer_group_new H rng t msg =
     (if ho_overflow_checks H \<and> (t = 0 \<or> 65535 < 3 * unat (t - 1) + 1) then Some None
      else let f = t - 1; n = 3 * f + 1 in
        if 0 < t \<and> n = 0 then Some None
        else map_option (\<lambda>ids. Some \<lparr>sg_signer_identifiers = ho_group H ids\<rparr>) (signer_loop (rng msg n) (unat t) 0 []))"

definition sg_from_vec :: "u16 list \<Rightarrow> signer_group" where
  "sg_from_vec ids = \<lparr>sg_signer_identifiers = ids\<rparr>"

definition sg_include :: "signer_group \<Rightarrow> u16 \<Rightarrow> signer_group" where
  "sg_include g i = g\<lparr>sg_signer_identifiers := sg_signer_identifiers g @ [i]\<rparr>"

definition sg_exclude :: "signer_group \<Rightarrow> u16 \<Rightarrow> signer_group" where
  "sg_exclude g i = g\<lparr>sg_signer_identifiers := filter (\<lambda>v. v \<noteq> i) (sg_signer_identifiers g)\<rparr>"

definition sg_contains :: "signer_group \<Rightarrow> u16 \<Rightarrow> bool" where
  "sg_contains g i = (i \<in> set (sg_signer_identifiers g))"

definition sg_get_vec :: "signer_group \<Rightarrow> u16 list" where
  "sg_get_vec g = sg_signer_identifiers g"

subsection \<open>Precomputations and messages\<close>

record 'p frost_precomputation =
  fpc_group :: signer_group
  fpc_nonce :: nonce
  fpc_commitments :: "(u16 \<times> 'p public_commitment) list"

definition fpc_new ::
  "signer_group \<Rightarrow> u16 \<Rightarrow> nonce \<Rightarrow> 'p public_commitment \<Rightarrow> 'p frost_precomputation" where
  "fpc_new g i nc c = \<lparr>fpc_group = g, fpc_nonce = nc, fpc_commitments = [(i, c)]\<rparr>"

definition fpc_insert ::
  "u16 \<Rightarrow> 'p public_commitment \<Rightarrow> 'p frost_precomputation \<Rightarrow> 'p frost_precomputation" where
  "fpc_insert i c p = p\<lparr>fpc_commitments := AList.update i c (fpc_commitments p)\<rparr>"

datatype 'p frost_data =
    FdCommitment "'p public_commitment"
  | FdShare frost_signature_share
  | FdPrecomputation "'p public_commitment list"
  | FdDefault

record 'p frost_message =
  fm_id :: u16
  fm_data :: "'p frost_data"

datatype frost_data_wire = WCommitment bytes | WShare bytes | WPrecomputation "bytes list" | WFrostDefault

record frost_wire =
  wf_id :: u16
  wf_data :: frost_data_wire

fun fm_is_default :: "'p frost_message \<Rightarrow> bool" where
  "fm_is_default m = (case fm_data m of FdDefault \<Rightarrow> True | _ \<Rightarrow> False)"

fun fd_to_wire :: "codec \<Rightarrow> 'p curve_backend \<Rightarrow> 'p frost_data \<Rightarrow> frost_data_wire may_panic" where
  "fd_to_wire C B (FdCommitment c) = do { r \<leftarrow> commitment_to_bytes C B c; b \<leftarrow> unwrap r; Some (WCommitment b) }"
| "fd_to_wire C B (FdShare sh) = do { b \<leftarrow> unwrap (frost_share_to_bytes C sh); Some (WShare b) }"
| "fd_to_wire C B (FdPrecomputation cs) = do {
     bs \<leftarrow> mapM (\<lambda>c. do { r \<leftarrow> commitment_to_bytes C B c; unwrap r }) cs;
     Some (WPrecomputation bs) }"
| "fd_to_wire C B FdDefault = Some WFrostDefault"

definition fm_to_wire :: "codec \<Rightarrow> 'p curve_backend \<Rightarrow> 'p frost_message \<Rightarrow> frost_wire may_panic" where
  "fm_to_wire C B m = do { d \<leftarrow> fd_to_wire C B (fm_data m); Some \<lparr>wf_id = fm_id m, wf_data = d\<rparr> }"

text \<open>Reading a list of commitments stops at the first one that cannot be read.\<close>

fun commitments_from_bytes ::
  "codec \<Rightarrow> 'p curve_backend \<Rightarrow> bytes list \<Rightarrow> (scheme_error + 'p public_commitment list) may_panic" where
  "commitments_from_bytes C B [] = Some (Ok [])"
| "commitments_from_bytes C B (b # bs) = do {
     r \<leftarrow> commitment_from_bytes C B b;
     case r of
       Inl e \<Rightarrow> Some (Err e)
     | Inr c \<Rightarrow> map_option (map_sum (\<lambda>e. e) ((#) c)) (commitments_from_bytes C B bs)
   }"

fun fd_from_wire :: "codec \<Rightarrow> 'p curve_backend \<Rightarrow> frost_data_wire \<Rightarrow> (scheme_error + 'p frost_data) may_panic" where
  "fd_from_wire C B (WCommitment b) = map_option (map_sum (\<lambda>e. e) FdCommitment) (commitment_from_bytes C B b)"
| "fd_from_wire C B (WShare b) = map_option (map_sum (\<lambda>e. e) FdShare) (frost_share_from_bytes C b)"
| "fd_from_wire C B (WPrecomputation bs) = map_option (map_sum (\<lambda>e. e) FdPrecomputation) (commitments_from_bytes C B bs)"
| "fd_from_wire C B WFrostDefault = Some (Ok FdDefault)"

definition fm_from_wire ::
  "codec \<Rightarrow> 'p curve_backend \<Rightarrow> frost_wire \<Rightarrow> (scheme_error + 'p frost_message) may_panic" where
  "fm_from_wire C B w = map_option (map_sum (\<lambda>e. e) (\<lambda>d. \<lparr>fm_id = wf_id w, fm_data = d\<rparr>)) (fd_from_wire C B (wf_data w))"

subsection \<open>The protocol\<close>

record 'p frost_protocol =
  fp_round :: u8
  fp_key :: "'p frost_private_key"
  fp_label :: bytes
  fp_msg :: bytes
  fp_nonce :: "nonce option"
  fp_commitment :: "'p public_commitment option"
  fp_commitment_list :: "(u16 \<times> 'p public_commitment) list"
  fp_precomputation_list :: "'p frost_precomputation list"
  fp_group_commitment :: "'p group_element option"
  fp_share :: "frost_signature_share option"
  fp_shares :: "(u16 \<times> frost_signature_share) list"
  fp_not_verified_shares :: "u16 set"
  fp_finished :: bool
  fp_options :: frost_options
  fp_signer_group :: signer_group

definition fp_new ::
  "hash_orders \<Rightarrow> (bytes \<Rightarrow> u16 \<Rightarrow> nat \<Rightarrow> u16) \<Rightarrow> 'p private_key_share \<Rightarrow> bytes \<Rightarrow> bytes \<Rightarrow> frost_options \<Rightarrow>
   'p frost_precomputation option \<Rightarrow> 'p frost_protocol may_hang" where
  "fp_new H rng key msg label opts precomputation =
     (case key of
        SkFrost k \<Rightarrow> map_option (map_option (\<lambda>g.
          let s = \<lparr>fp_round = 0, fp_key = k, fp_label = label, fp_msg = msg, fp_nonce = None,
            fp_commitment = None, fp_commitment_list = [], fp_precomputation_list = [],
            fp_group_commitment = None, fp_share = None, fp_shares = [], fp_not_verified_shares = {},
            fp_finished = False, fp_options = opts, fp_signer_group = g\<rparr>
          in case precomputation of
              None \<Rightarrow> s
            | Some p \<Rightarrow> s\<lparr>fp_round := 1, fp_nonce := Some (fpc_nonce p),
                fp_commitment := map_of (fpc_commitments p) (sk_get_share_id key),
                fp_commitment_list := fpc_commitments p\<rparr>))
          (signer_group_new H rng (sk_get_threshold key) msg)
      | _ \<Rightarrow> Some None)"

definition fp_commitments :: "hash_orders \<Rightarrow> 'p frost_protocol \<Rightarrow> 'p public_commitment list" where
  "fp_commitments H s = hm_values (ho_commitments H) (fp_commitment_list s)"

definition fp_update_commitment ::
  "hash_orders \<Rightarrow> 'p curve_backend \<Rightarrow> 'p frost_protocol \<Rightarrow> u16 \<Rightarrow> 'p public_commitment \<Rightarrow>
   ('p frost_protocol \<times> (protocol_error + unit)) may_panic" where
  "fp_update_commitment H B s i c =
     (if fp_options s = PrecomputeOnly then Some (s, Ok ())
      else if sg_contains (fp_signer_group s) i \<and> \<not> hm_contains_key (fp_commitment_list s) i then
        let s' = s\<lparr>fp_commitment_list := AList.update i c (fp_commitment_list s)\<rparr> in
        (case map_of (fp_shares s') i of
           None \<Rightarrow> Some (s', Ok ())
         | Some share \<Rightarrow> do {
             (_, r) \<leftarrow> frost_verify_share B share (dlsk_pubkey (fp_key s)) (fp_msg s) (fp_commitments H s');
             case r of
               Inl e \<Rightarrow> Some (s', Err InvalidShareP)
             | Inr _ \<Rightarrow> Some (s'\<lparr>fp_shares := AList.update i share (fp_shares s'),
                 fp_not_verified_shares := fp_not_verified_shares s' - {i}\<rparr>, Ok ())
           })
      else Some (s, Ok ()))"

definition fp_update_share ::
  "hash_orders \<Rightarrow> 'p curve_backend \<Rightarrow> 'p frost_protocol \<Rightarrow> u16 \<Rightarrow> frost_signature_share \<Rightarrow>
   ('p frost_protocol \<times> (protocol_error + unit)) may_panic" where
  "fp_update_share H B s i share =
     (if sg_contains (fp_signer_group s) i \<and> \<not> hm_contains_key (fp_shares s) i then
        if \<not> hm_contains_key (fp_commitment_list s) i then
          Some (s\<lparr>fp_not_verified_shares := insert i (fp_not_verified_shares s),
                  fp_shares := AList.update i share (fp_shares s)\<rparr>, Ok ())
        else do {
          (_, r) \<leftarrow> frost_verify_share B share (dlsk_pubkey (fp_key s)) (fp_msg s) (fp_commitments H s);
          case r of
            Inl e \<Rightarrow> Some (s, Err InvalidShareP)
          | Inr _ \<Rightarrow> Some (s\<lparr>fp_shares := AList.update i share (fp_shares s)\<rparr>, Ok ())
        }
      else Some (s, Ok ()))"

text \<open>The commitments of a precomputation go to the entries of the list, as far as both reach.\<close>

fun spread_precomputations ::
  "u16 \<Rightarrow> 'p public_commitment list \<Rightarrow> 'p frost_precomputation list \<Rightarrow> 'p frost_precomputation list" where
  "spread_precomputations i (c # cs) (p # ps) = fpc_insert i c p # spread_precomputations i cs ps"
| "spread_precomputations i [] ps = ps"
| "spread_precomputations i cs [] = []"

definition fp_update_precomputation ::
  "'p frost_protocol \<Rightarrow> u16 \<Rightarrow> 'p public_commitment list \<Rightarrow> 'p frost_protocol \<times> (protocol_error + unit)" where
  "fp_update_precomputation s i precomputations =
     (if precomputations = [] then (s, Err InvalidShareP)
      else if sg_contains (fp_signer_group s) i then
        let (s', p) =
          if fp_options s = Precomputation
          then (s\<lparr>fp_commitment_list := AList.update i (last precomputations) (fp_commitment_list s)\<rparr>,
                butlast precomputations)
          else (s, precomputations)
        in (s'\<lparr>fp_precomputation_list := spread_precomputations i p (fp_precomputation_list s')\<rparr>, Ok ())
      else (s, Ok ()))"

definition fp_update ::
  "hash_orders \<Rightarrow> 'p curve_backend \<Rightarrow> 'p frost_protocol \<Rightarrow> 'p frost_message \<Rightarrow>
   ('p frost_protocol \<times> (protocol_error + unit)) may_panic" where
  "fp_update H B s m =
     (case fm_data m of
        FdCommitment c \<Rightarrow> fp_update_commitment H B s (fm_id m) c
      | FdShare sh \<Rightarrow> fp_update_share H B s (fm_id m) sh
      | FdPrecomputation cs \<Rightarrow> Some (fp_update_precomputation s (fm_id m) cs)
      | FdDefault \<Rightarrow> Some (s, Err InternalError))"

definition fp_is_ready_for_next_round :: "'p frost_protocol \<Rightarrow> bool" where
  "fp_is_ready_for_next_round s =
     (let k = unat (dlpk_k (dlsk_pubkey (fp_key s))); ids = sg_get_vec (fp_signer_group s) in
      if fp_round s = 1 then
        k \<le> length (fp_commitment_list s) \<and> find (\<lambda>f. \<not> hm_contains_key (fp_commitment_list s) f) ids = None
      else if fp_round s = 2 then
        k \<le> length (fp_shares s) \<and> fp_not_verified_shares s = {}
        \<and> find (\<lambda>f. \<not> hm_contains_key (fp_shares s) f) ids = None
      else False)"

definition fp_precompute ::
  "'p curve_backend \<Rightarrow> (nat \<Rightarrow> bytes \<times> bytes) \<Rightarrow> 'p frost_protocol \<Rightarrow>
   ('p frost_protocol \<times> 'p frost_data) may_panic" where
  "fp_precompute B rb s = do {
     cns \<leftarrow> mapM (\<lambda>i. frost_commit B (fp_key s) (fst (rb i)) (snd (rb i))) [0..<NUM_PRECOMPUTATIONS];
     Some (s\<lparr>fp_precomputation_list := fp_precomputation_list s @
             map (\<lambda>(c, nc). fpc_new (fp_signer_group s) (dlsk_id (fp_key s)) nc c) cns\<rparr>,
           FdPrecomputation (map fst cns))
   }"

definition fp_round_0 ::
  "'p curve_backend \<Rightarrow> (nat \<Rightarrow> bytes \<times> bytes) \<Rightarrow> 'p frost_protocol \<Rightarrow>
   ('p frost_protocol \<times> (protocol_error + 'p frost_message)) may_panic" where
  "fp_round_0 B rb s = do {
     let own = dlsk_id (fp_key s);
     (s', data) \<leftarrow>
       (if fp_options s \<noteq> NoPrecomputation then fp_precompute B rb s
        else if sg_contains (fp_signer_group s) own \<and> \<not> hm_contains_key (fp_commitment_list s) own then do {
          (c, nc) \<leftarrow> frost_commit B (fp_key s) (fst (rb 0)) (snd (rb 0));
          Some (s\<lparr>fp_nonce := Some nc, fp_commitment := Some c,
                  fp_commitment_list := AList.update own c (fp_commitment_list s)\<rparr>, FdCommitment c)
        }
        else Some (s, FdDefault));
     Some (s'\<lparr>fp_round := fp_round s' + 1\<rparr>, Ok \<lparr>fm_id = own, fm_data = data\<rparr>)
   }"

definition fp_round_1 ::
  "hash_orders \<Rightarrow> 'p curve_backend \<Rightarrow> 'p frost_protocol \<Rightarrow>
   ('p frost_protocol \<times> (protocol_error + 'p frost_message)) may_panic" where
  "fp_round_1 H B s =
     (let own = dlsk_id (fp_key s) in
      if sg_contains (fp_signer_group s) own \<and> \<not> hm_contains_key (fp_shares s) own then do {
        nc \<leftarrow> fp_nonce s;
        (_, res) \<leftarrow> frost_partial_sign B nc (fp_commitments H s) (fp_msg s) (fp_key s) own;
        case res of
          Inl e \<Rightarrow> Some (s, Err (SchemeError e))
        | Inr (share, gc) \<Rightarrow>
            Some (s\<lparr>fp_round := fp_round s + 1, fp_group_commitment := Some gc,
                    fp_shares := AList.update own share (fp_shares s)\<rparr>,
                  Ok \<lparr>fm_id = own, fm_data = FdShare share\<rparr>)
      }
      else Some (s\<lparr>fp_round := fp_round s + 1\<rparr>, Ok \<lparr>fm_id = own, fm_data = FdDefault\<rparr>))"

definition fp_do_round ::
  "hash_orders \<Rightarrow> 'p curve_backend \<Rightarrow> (nat \<Rightarrow> bytes \<times> bytes) \<Rightarrow> 'p frost_protocol \<Rightarrow>
   ('p frost_protocol \<times> (protocol_error + 'p frost_message)) may_panic" where
  "fp_do_round H B rb s =
     (if fp_round s = 0 then fp_round_0 B rb s
      else if fp_round s = 1 then fp_round_1 H B s
      else Some (s, Err InvalidRoundP))"

definition fp_is_ready_to_finalize :: "'p frost_protocol \<Rightarrow> bool" where
  "fp_is_ready_to_finalize s =
     (length (fp_shares s) = unat (dlpk_k (dlsk_pubkey (fp_key s))) \<and> fp_not_verified_shares s = {}
      \<and> find (\<lambda>i. \<not> hm_contains_key (fp_shares s) i) (sg_signer_identifiers (fp_signer_group s)) = None)"

definition fp_finalize ::
  "codec \<Rightarrow> hash_orders \<Rightarrow> 'p curve_backend \<Rightarrow> 'p frost_protocol \<Rightarrow>
   ('p frost_protocol \<times> (protocol_error + bytes)) may_panic" where
  "fp_finalize C H B s = do {
     (_, gc) \<leftarrow> get_group_commitment B (fp_commitments H s) (fp_msg s) (fp_key s);
     case gc of
       Inl e \<Rightarrow> Some (s, Err (SchemeError e))
     | Inr group_commitment \<Rightarrow> do {
         sig \<leftarrow> frost_assemble B group_commitment (fp_key s) (hm_values (ho_shares H) (fp_shares s));
         r \<leftarrow> sig_to_bytes C B (SigFrost sig);
         b \<leftarrow> unwrap r;
         Some (s\<lparr>fp_finished := True\<rparr>, Ok b)
       }
   }"

definition fp_set_label :: "'p frost_protocol \<Rightarrow> bytes \<Rightarrow> 'p frost_protocol" where
  "fp_set_label s label = s\<lparr>fp_label := label\<rparr>"

definition fp_set_commitment :: "'p frost_protocol \<Rightarrow> 'p public_commitment \<Rightarrow> 'p frost_protocol" where
  "fp_set_commitment s c = s\<lparr>fp_commitment := Some c\<rparr>"

definition fp_get_precomputations :: "'p frost_protocol \<Rightarrow> scheme_error + 'p frost_precomputation list" where
  "fp_get_precomputations s =
     (if 1 < length (fp_precomputation_list s) \<and> fp_finished s then Ok (fp_precomputation_list s) else Err WrongState)"

definition frost_round_protocol ::
  "codec \<Rightarrow> hash_orders \<Rightarrow> 'p curve_backend \<Rightarrow> frost_wire json \<Rightarrow>
   ('p frost_protocol, 'p frost_message, nat \<Rightarrow> bytes \<times> bytes) round_protocol" where
  "frost_round_protocol C H B J =
     \<lparr>rp_unwrap = unwrap_net J (fm_from_wire C B), rp_wrap = wrap_net J (fm_to_wire C B),
      rp_is_default = fm_is_default, rp_do_round = fp_do_round H B,
      rp_is_ready_for_next_round = fp_is_ready_for_next_round,
      rp_is_ready_to_finalize = fp_is_ready_to_finalize,
      rp_finalize = fp_finalize C H B, rp_update = fp_update H B\<rparr>"

subsection \<open>Facts on hash maps\<close>

lemma update_new: "i \<notin> set (map fst m) \<Longrightarrow> AList.update i v m = m @ [(i, v)]"
  by (induction m) auto

lemma update_same: "map_of m i = Some v \<Longrightarrow> AList.update i v m = m"
  by (induction m) auto

lemma map_of_tagged: "map_of (map (\<lambda>i. (i, h i)) ks) i = (if i \<in> set ks then Some (h i) else None)"
  by (induction ks) auto

lemma hm_values_tagged:
  assumes "mset (ord ks) = mset ks"
  shows "hm_values ord (map (\<lambda>i. (i, h i)) ks) = map h (ord ks)"
proof -
  have "List.map_filter (map_of (map (\<lambda>i. (i, h i)) ks)) is = map h is" if "set is \<subseteq> set ks" for "is"
    using that by (induction "is") (auto simp: List.map_filter_simps map_of_tagged)
  moreover have "set (ord ks) = set ks" using assms by (metis set_mset_mset)
  ultimately show ?thesis by (simp add: hm_values_def comp_def)
qed

subsection \<open>Signer groups\<close>

lemma signer_loop_ends:
  assumes "distinct ids" "length ids \<le> t" "t \<le> card (set ids \<union> draw ` {i..<i + m})"
  shows "\<exists>r. signer_loop draw t i ids = Some r \<and> distinct r \<and> length r = t \<and> set r \<subseteq> set ids \<union> range draw"
  using assms
proof (induction m arbitrary: i ids)
  case 0
  then show ?case by (subst signer_loop.simps) (simp add: distinct_card)
next
  case (Suc m)
  show ?case
  proof (cases "length ids < t")
    case True
    have "{i..<i + Suc m} = insert i {Suc i..<Suc i + m}" by auto
    then have s: "set (List.insert (draw i) ids) \<union> draw ` {Suc i..<Suc i + m} = set ids \<union> draw ` {i..<i + Suc m}"
      by simp
    have "length (List.insert (draw i) ids) \<le> t" using True by (simp add: List.insert_def)
    with Suc.IH [of "List.insert (draw i) ids" "Suc i"] Suc.prems(1,3)
    obtain r where "signer_loop draw t (Suc i) (List.insert (draw i) ids) = Some r" "distinct r" "length r = t"
        "set r \<subseteq> set (List.insert (draw i) ids) \<union> range draw"
      unfolding s by auto
    then show ?thesis using True by (subst signer_loop.simps) auto
  next
    case False
    then show ?thesis using Suc.prems by (subst signer_loop.simps) simp
  qed
qed

lemma signer_loop_shape:
  assumes "signer_loop draw t i ids = Some r" "distinct ids" "length ids \<le> t"
  shows "distinct r \<and> length r = t \<and> set r \<subseteq> set ids \<union> range draw"
  using assms(2,3)
proof (induction rule: signer_loop.raw_induct [OF _ assms(1), rotated])
  case (1 loop draw t i ids r)
  show ?case
  proof (cases "length ids < t")
    case True
    then have "loop draw t (Suc i) (List.insert (draw i) ids) = Some r" using "1"(2) by simp
    moreover have "length (List.insert (draw i) ids) \<le> t" using True by (simp add: List.insert_def)
    ultimately show ?thesis using "1"(1) [of draw t "Suc i" "List.insert (draw i) ids" r] "1"(3) by auto
  next
    case False
    then show ?thesis using "1"(2-4) by simp
  qed
qed

definition rng_ok :: "(bytes \<Rightarrow> u16 \<Rightarrow> nat \<Rightarrow> u16) \<Rightarrow> bool" where
  "rng_ok rng = (\<forall>msg n i. 0 < n \<longrightarrow> 0 < rng msg n i \<and> rng msg n i \<le> n)"

lemma orders_ok_set:
  assumes "orders_ok H"
  shows "set (ho_group H xs) = set xs" "length (ho_group H xs) = length xs" "distinct (ho_group H xs) = distinct xs"
proof -
  have "mset (ho_group H xs) = mset xs" using assms by (simp add: orders_ok_def)
  then show "set (ho_group H xs) = set xs" "length (ho_group H xs) = length xs" "distinct (ho_group H xs) = distinct xs"
    by (metis mset_eq_setD, metis mset_eq_length, metis mset_eq_imp_distinct_iff)
qed

lemma unat_group_size:
  fixes t :: u16
  assumes "0 < t"
  shows "unat (3 * (t - 1) + 1) = (3 * (unat t - 1) + 1) mod 65536"
proof -
  have g: "unat (3 * f + 1) = (3 * unat f + 1) mod 65536" for f :: u16 by (simp add: unat_word_ariths mod_simps)
  have "t \<noteq> 0" using assms by auto
  then show ?thesis using g [of "t - 1"] unat_minus_one by metis
qed

lemma signer_group_newE:
  assumes "signer_group_new H rng t msg = Some (Some g)"
  obtains ids where "signer_loop (rng msg (3 * (t - 1) + 1)) (unat t) 0 [] = Some ids"
    "sg_signer_identifiers g = ho_group H ids" "0 < t \<longrightarrow> 0 < 3 * (t - 1) + 1"
  using assms by (auto simp: signer_group_new_def Let_def word_gt_0 split: if_splits)

lemma signer_group_new_shape:
  assumes "signer_group_new H rng t msg = Some (Some g)" "orders_ok H" "rng_ok rng"
  shows "distinct (sg_signer_identifiers g)" "length (sg_signer_identifiers g) = unat t"
    "\<forall>i\<in>set (sg_signer_identifiers g). 0 < unat i \<and> unat i \<le> unat (3 * (t - 1) + 1)"
proof -
  obtain ids where ids: "signer_loop (rng msg (3 * (t - 1) + 1)) (unat t) 0 [] = Some ids" "sg_signer_identifiers g = ho_group H ids"
      "0 < t \<longrightarrow> 0 < 3 * (t - 1) + 1"
    using assms(1) by (rule signer_group_newE)
  note r = signer_loop_shape [OF ids(1)]
  have rng: "0 < unat i \<and> unat i \<le> unat (3 * (t - 1) + 1)" if i: "i \<in> set ids" for i
  proof -
    have "unat t \<noteq> 0" using length_pos_if_in_set [OF i] r by simp
    then have "0 < t" by (auto simp: word_gt_0)
    moreover obtain m where "i = rng msg (3 * (t - 1) + 1) m" using r i by auto
    ultimately have "0 < i \<and> i \<le> 3 * (t - 1) + 1" using assms(3) ids(3) by (simp only: rng_ok_def)
    then show ?thesis by (simp only: word_le_nat_alt word_less_nat_alt) simp
  qed
  show "distinct (sg_signer_identifiers g)" "length (sg_signer_identifiers g) = unat t"
    "\<forall>i\<in>set (sg_signer_identifiers g). 0 < unat i \<and> unat i \<le> unat (3 * (t - 1) + 1)"
    using r rng by (simp_all add: ids(2) orders_ok_set [OF assms(2)])
qed

text \<open>With fewer identifiers than the threshold asks for, the loop never ends.\<close>

lemma signer_loop_hangs:
  fixes n :: u16
  assumes "\<And>i. 0 < draw i \<and> draw i \<le> n" "unat n < t"
  shows "signer_loop draw t 0 [] = None"
proof (rule ccontr)
  assume "signer_loop draw t 0 [] \<noteq> None"
  then obtain r where "signer_loop draw t 0 [] = Some r" by blast
  from signer_loop_shape [OF this] have r: "distinct r" "length r = t" "set r \<subseteq> range draw" by simp_all
  have "unat ` set r \<subseteq> {1..unat n}"
  proof
    fix x assume "x \<in> unat ` set r"
    then obtain i where "x = unat (draw i)" using r(3) by auto
    then show "x \<in> {1..unat n}" using assms(1) [of i] by (simp add: word_le_nat_alt word_less_nat_alt)
  qed
  from card_mono [OF _ this] have "card (unat ` set r) \<le> unat n" by simp
  moreover have "inj_on unat (set r)" by (rule inj_onI) (simp add: word_unat_eq_iff)
  then have "card (unat ` set r) = t" using r(1,2) by (simp only: card_image distinct_card)
  ultimately show False using assms(2) by simp
qed

text \<open>How the assumed number of parties compares with the threshold after wrapping.\<close>

lemma wrapped_size_cases:
  fixes t :: nat
  assumes "0 < t" "t < 65536"
  defines "n \<equiv> (3 * (t - 1) + 1) mod 65536"
  shows "n = 0 \<longleftrightarrow> t = 21846" "n < t \<longleftrightarrow> 21846 \<le> t \<and> t \<le> 32768 \<or> 43692 \<le> t"
    "t \<le> 21845 \<Longrightarrow> n = 3 * (t - 1) + 1"
proof -
  let ?m = "3 * (t - 1) + 1"
  consider "t \<le> 21845" | "21846 \<le> t" "t \<le> 43691" | "43692 \<le> t" by linarith
  then have c: "t \<le> 21845 \<and> n = ?m \<or> 21846 \<le> t \<and> t \<le> 43691 \<and> n = ?m - 65536 \<or> 43692 \<le> t \<and> n = ?m - 131072"
  proof cases
    case 1
    then have "?m < 65536" by linarith
    then show ?thesis using 1 by (simp add: n_def)
  next
    case 2
    then have "65536 \<le> ?m" "?m - 65536 < 65536" by linarith+
    then have "?m mod 65536 = ?m - 65536" by (subst le_mod_geq) simp_all
    then show ?thesis using 2 by (simp add: n_def)
  next
    case 3
    then have "131072 \<le> ?m" "?m - 131072 < 65536" using assms(2) by linarith+
    then have "?m mod 65536 = ?m - 131072" by (subst le_mod_geq, simp, subst le_mod_geq) simp_all
    then show ?thesis using 3 by (simp add: n_def)
  qed
  show "n = 0 \<longleftrightarrow> t = 21846" using c assms(1,2) by linarith
  show "n < t \<longleftrightarrow> 21846 \<le> t \<and> t \<le> 32768 \<or> 43692 \<le> t" using c assms(1,2) by linarith
  show "t \<le> 21845 \<Longrightarrow> n = 3 * (t - 1) + 1" using c by linarith
qed

text \<open>
  C24.  Drawing the signer group.  Let the seeded generator produce \<open>t\<close> different identifiers at some
  time, if that many exist in its range.  For a threshold \<open>t\<close> between \<open>1\<close> and \<open>21845\<close>,
  \<open>SignerGroup::new\<close> returns exactly \<open>t\<close> different identifiers between \<open>1\<close> and
  \<open>3 (t - 1) + 1\<close>.  For the other thresholds that number does not fit 16 bits: a build with overflow
  checks panics; a build without them, such as a release build, returns an empty group for \<open>0\<close>, panics on an
  empty range for \<open>21846\<close>, draws from a wrapped range between \<open>32769\<close> and \<open>43691\<close>, and otherwise never
  returns, because the wrapped range holds fewer than \<open>t\<close> identifiers.
\<close>

theorem signer_group_drawn:
  fixes t :: u16
  defines "n \<equiv> 3 * (t - 1) + 1"
  assumes "orders_ok H" "rng_ok rng" and fair: "unat t \<le> unat n \<longrightarrow> unat t \<le> card (rng msg n ` {..<m})"
  shows "if ho_overflow_checks H \<and> (unat t = 0 \<or> 21845 < unat t) then signer_group_new H rng t msg = Some None
    else if unat t = 21846 then signer_group_new H rng t msg = Some None
    else if 21846 < unat t \<and> unat t \<le> 32768 \<or> 43691 < unat t then signer_group_new H rng t msg = None
    else \<exists>g. signer_group_new H rng t msg = Some (Some g) \<and> distinct (sg_signer_identifiers g)
      \<and> length (sg_signer_identifiers g) = unat t
      \<and> (\<forall>i\<in>set (sg_signer_identifiers g). 0 < unat i \<and> unat i \<le> unat n)
      \<and> (0 < unat t \<and> unat t \<le> 21845 \<longrightarrow> unat n = 3 * (unat t - 1) + 1)"
proof (cases "unat t = 0")
  case True
  then have t: "t = 0" by (simp add: unat_eq_0)
  have "signer_loop (rng msg n) 0 0 [] = Some []" by (subst signer_loop.simps) simp
  then have "\<not> ho_overflow_checks H \<Longrightarrow> \<exists>g. signer_group_new H rng t msg = Some (Some g)"
    by (simp add: signer_group_new_def t n_def)
  moreover have "ho_overflow_checks H \<Longrightarrow> signer_group_new H rng t msg = Some None"
    by (simp add: signer_group_new_def t)
  ultimately show ?thesis using signer_group_new_shape [OF _ assms(2,3), of t msg] True by (auto simp: n_def)
next
  case False
  then have t: "t \<noteq> 0" "0 < t" by (auto simp: word_gt_0)
  have T: "0 < unat t" "unat t < 65536" using False unsigned_less [of t] by simp_all
  have n: "unat n = (3 * (unat t - 1) + 1) mod 65536" unfolding n_def by (rule unat_group_size [OF t(2)])
  note w = wrapped_size_cases [OF T, folded n]
  have ov: "65535 < 3 * unat (t - 1) + 1 \<longleftrightarrow> 21845 < unat t" using unat_minus_one [OF t(1)] T by arith
  have n0: "n = 0 \<longleftrightarrow> unat t = 21846" using w(1) by (simp add: unat_eq_0)
  have new: "signer_group_new H rng t msg = (if ho_overflow_checks H \<and> 21845 < unat t then Some None
      else if unat t = 21846 then Some None
      else map_option (\<lambda>ids. Some \<lparr>sg_signer_identifiers = ho_group H ids\<rparr>) (signer_loop (rng msg n) (unat t) 0 []))"
    using t ov n0 by (simp add: signer_group_new_def Let_def n_def)
  have hang: "signer_loop (rng msg n) (unat t) 0 [] = None" if "unat n < unat t" "n \<noteq> 0"
    using that assms(3) by (intro signer_loop_hangs [of _ n]) (auto simp: rng_ok_def word_gt_0)
  show ?thesis
  proof (cases "ho_overflow_checks H \<and> 21845 < unat t \<or> unat t = 21846")
    case True
    then show ?thesis using new T by auto
  next
    case ok: False
    show ?thesis
    proof (cases "unat n < unat t")
      case True
      then have "21846 < unat t \<and> unat t \<le> 32768 \<or> 43691 < unat t" using w(2) ok by auto
      then show ?thesis using hang [OF True] new ok n0 T by simp
    next
      case enough: False
      then obtain g where g: "signer_group_new H rng t msg = Some (Some g)"
        using signer_loop_ends [of "[]" "unat t" "rng msg n" 0 m] fair ok by (auto simp: lessThan_atLeast0 new)
      have "\<not> (21846 < unat t \<and> unat t \<le> 32768 \<or> 43691 < unat t)" using w(2) enough by auto
      then show ?thesis using ok T(1) w(3) signer_group_new_shape [OF g assms(2,3), folded n_def]
        by (simp only: g) simp
    qed
  qed
qed

definition counting_rng :: "bytes \<Rightarrow> u16 \<Rightarrow> nat \<Rightarrow> u16" where
  "counting_rng msg n i = (if i < unat n then of_nat i + 1 else 1)"

definition insertion_orders :: hash_orders where
  "insertion_orders = \<lparr>ho_commitments = (\<lambda>xs. xs), ho_shares = rev, ho_group = rev, ho_overflow_checks = False\<rparr>"

lemma insertion_orders_ok: "orders_ok insertion_orders"
  by (simp add: orders_ok_def insertion_orders_def)

lemma counting_rng_ok: "rng_ok counting_rng"
proof -
  have "0 < counting_rng msg n i \<and> counting_rng msg n i \<le> n" if n: "0 < n" for msg n i
  proof (cases "i < unat n")
    case True
    have "unat n < 65536" using unsigned_less [of n] by simp
    moreover have "unat (of_nat (Suc i) :: u16) = Suc i mod 65536" by (simp only: unat_of_nat) simp
    moreover have "of_nat (Suc i) = (of_nat i + 1 :: u16)" by simp
    ultimately have "unat (of_nat i + 1 :: u16) = i + 1" using True by (simp add: add.commute)
    then show ?thesis using True by (simp add: counting_rng_def word_le_nat_alt word_less_nat_alt)
  next
    case False
    then show ?thesis using n by (simp add: counting_rng_def word_le_nat_alt word_less_nat_alt)
  qed
  then show ?thesis by (simp add: rng_ok_def)
qed

text \<open>A normal threshold, one for which a release build hangs, and one for which a debug build panics.\<close>

theorem signer_group_drawn_witness:
  "(\<exists>g. signer_group_new insertion_orders counting_rng 2 [7] = Some (Some g) \<and> length (sg_signer_identifiers g) = 2
     \<and> distinct (sg_signer_identifiers g))
   \<and> signer_group_new insertion_orders counting_rng 21847 [7] = None
   \<and> signer_group_new (insertion_orders\<lparr>ho_overflow_checks := True\<rparr>) counting_rng 21847 [7] = Some None
   \<and> signer_group_new insertion_orders counting_rng 21846 [7] = Some None"
proof -
  have c: "\<not> ho_overflow_checks insertion_orders" "orders_ok (insertion_orders\<lparr>ho_overflow_checks := True\<rparr>)"
    using insertion_orders_ok by (simp_all add: insertion_orders_def orders_ok_def)
  have "{..<2::nat} = {0, 1}" by auto
  then have "unat (2::u16) \<le> card (counting_rng [7] (3 * (2 - 1) + 1) ` {..<2})"
    by (simp add: counting_rng_def)
  with signer_group_drawn [OF insertion_orders_ok counting_rng_ok, of 2 "[7]" 2]
  have "\<exists>g. signer_group_new insertion_orders counting_rng 2 [7] = Some (Some g) \<and> length (sg_signer_identifiers g) = 2
      \<and> distinct (sg_signer_identifiers g)" by auto
  moreover have "signer_group_new insertion_orders counting_rng 21847 [7] = None"
    using signer_group_drawn [OF insertion_orders_ok counting_rng_ok, of 21847 "[7]" 0] c(1) by simp
  moreover have "signer_group_new (insertion_orders\<lparr>ho_overflow_checks := True\<rparr>) counting_rng 21847 [7] = Some None"
    using signer_group_drawn [OF c(2) counting_rng_ok, of 21847 "[7]" 0] by simp
  moreover have "signer_group_new insertion_orders counting_rng 21846 [7] = Some None"
    using signer_group_drawn [OF insertion_orders_ok counting_rng_ok, of 21846 "[7]" 0] c(1) by simp
  ultimately show ?thesis by blast
qed

end
