(* ===== verification/QC_KeyManager.thy ===== *)
theory QC_KeyManager
  imports QC_KeyStore QC_FrostProtocol
begin

text \<open>
  The key manager (\<open>orchestration/src/key_manager\<close>): a task that owns the key store and the FROST
  precomputations and answers the commands of its channel, one after the other.  A command's
  responder becomes the reply of \<open>km_step\<close>; the receiving ends of the responders stay open.  The key
  store's map entries are listed in the order of insertion, and the text of an error is the parameter
  \<open>show_err\<close>.
\<close>

record 'p key_manager =
  km_keystore :: "'p key_store"
  km_frost_precomputes :: "(bytes \<times> 'p frost_precomputation list) list"

datatype 'p key_manager_command =
    ListAvailableKeys
  | GetKeyById bytes
  | GetKeyBySchemeAndGroup threshold_scheme group
  | PopFrostPrecomputation bytes
  | PushFrostPrecomputations bytes "'p frost_precomputation list"

datatype 'p key_manager_reply =
    KmKeys "public_key_entry list"
  | KmEntry "string + 'p key_entry"
  | KmPrecomputation "'p frost_precomputation option"
  | KmSilent

definition km_new ::
  "codec \<Rightarrow> 'p curve_backend \<Rightarrow> (string \<Rightarrow> 'e + serialized_key_entry list) \<Rightarrow> string \<Rightarrow> 'p key_manager may_panic" where
  "km_new C B read_entries keychain_path = do {
     (ks, _) \<leftarrow> ks_load C B read_entries ks_new keychain_path;
     Some \<lparr>km_keystore = ks, km_frost_precomputes = []\<rparr>
   }"

definition num_precomputations :: "'p key_manager \<Rightarrow> nat" where
  "num_precomputations km = length (km_frost_precomputes km)"

definition append_precomputations ::
  "'p key_manager \<Rightarrow> bytes \<Rightarrow> 'p frost_precomputation list \<Rightarrow> 'p key_manager" where
  "append_precomputations km key_id precomputations =
     (case map_of (km_frost_precomputes km) key_id of
        None \<Rightarrow> km\<lparr>km_frost_precomputes := AList.update key_id precomputations (km_frost_precomputes km)\<rparr>
      | Some current \<Rightarrow>
          km\<lparr>km_frost_precomputes := AList.update key_id (precomputations @ current) (km_frost_precomputes km)\<rparr>)"

definition pop_precomputation ::
  "'p key_manager \<Rightarrow> bytes \<Rightarrow> 'p key_manager \<times> 'p frost_precomputation option" where
  "pop_precomputation km key_id =
     (case map_of (km_frost_precomputes km) key_id of
        None \<Rightarrow> (km, None)
      | Some v \<Rightarrow>
          if v = [] then (km, None)
          else (km\<lparr>km_frost_precomputes := AList.update key_id (butlast v) (km_frost_precomputes km)\<rparr>, Some (last v)))"

definition km_step ::
  "codec \<Rightarrow> 'p curve_backend \<Rightarrow> (key_store_error \<Rightarrow> string) \<Rightarrow> 'p key_manager \<Rightarrow> 'p key_manager_command \<Rightarrow>
   ('p key_manager \<times> 'p key_manager_reply) may_panic" where
  "km_step C B show_err km cmd =
     (case cmd of
        ListAvailableKeys \<Rightarrow> do { ks \<leftarrow> list_public_keys C B (km_keystore km); Some (km, KmKeys ks) }
      | PopFrostPrecomputation key_id \<Rightarrow>
          let (km', r) = pop_precomputation km key_id in Some (km', KmPrecomputation r)
      | PushFrostPrecomputations key_id ps \<Rightarrow> Some (append_precomputations km key_id ps, KmSilent)
      | GetKeyById i \<Rightarrow> Some (km, KmEntry (map_sum show_err (\<lambda>e. e) (get_key_by_id (km_keystore km) i)))
      | GetKeyBySchemeAndGroup s g \<Rightarrow> Some (km, KmEntry (get_key_by_scheme_and_group (km_keystore km) s g)))"

text \<open>The loop of \<open>run\<close> on the commands of the channel: the replies in their order.\<close>

fun km_run ::
  "codec \<Rightarrow> 'p curve_backend \<Rightarrow> (key_store_error \<Rightarrow> string) \<Rightarrow> 'p key_manager \<Rightarrow> 'p key_manager_command list \<Rightarrow>
   ('p key_manager \<times> 'p key_manager_reply list) may_panic" where
  "km_run C B show_err km [] = Some (km, [])"
| "km_run C B show_err km (cmd # cmds) = do {
     (km', r) \<leftarrow> km_step C B show_err km cmd;
     (km'', rs) \<leftarrow> km_run C B show_err km' cmds;
     Some (km'', r # rs)
   }"

subsection \<open>Precomputations are a queue\<close>

definition km_queue :: "'p key_manager \<Rightarrow> bytes \<Rightarrow> 'p frost_precomputation list" where
  "km_queue km key_id = (case map_of (km_frost_precomputes km) key_id of None \<Rightarrow> [] | Some v \<Rightarrow> rev v)"

lemma km_queue_append:
  "km_queue (append_precomputations km k ps) i = km_queue km i @ (if i = k then rev ps else [])"
  by (auto simp: km_queue_def append_precomputations_def update_conv' split: option.splits)

lemma km_queue_pop:
  assumes "pop_precomputation km k = (km', r)"
  shows "km_queue km i = (if i = k then (case r of None \<Rightarrow> [] | Some p \<Rightarrow> [p]) else []) @ km_queue km' i"
proof (cases "map_of (km_frost_precomputes km) k")
  case None
  then show ?thesis using assms by (auto simp: pop_precomputation_def)
next
  case (Some v)
  then show ?thesis using assms
    by (cases v rule: rev_cases) (auto simp: pop_precomputation_def km_queue_def update_conv')
qed

fun pushed :: "bytes \<Rightarrow> 'p key_manager_command list \<Rightarrow> 'p frost_precomputation list" where
  "pushed k [] = []"
| "pushed k (PushFrostPrecomputations i ps # cmds) = (if i = k then rev ps else []) @ pushed k cmds"
| "pushed k (cmd # cmds) = pushed k cmds"

fun popped :: "bytes \<Rightarrow> 'p key_manager_command list \<Rightarrow> 'p key_manager_reply list \<Rightarrow> 'p frost_precomputation list" where
  "popped k (PopFrostPrecomputation i # cmds) (KmPrecomputation (Some p) # rs) = (if i = k then [p] else []) @ popped k cmds rs"
| "popped k (cmd # cmds) (r # rs) = popped k cmds rs"
| "popped k _ _ = []"

lemma km_run_queue:
  assumes "km_run C B show_err km cmds = Some (km', rs)"
  shows "km_queue km k @ pushed k cmds = popped k cmds rs @ km_queue km' k"
  using assms
proof (induction cmds arbitrary: km rs)
  case (Cons cmd cmds)
  obtain km1 r rs1 where r: "km_step C B show_err km cmd = Some (km1, r)" "km_run C B show_err km1 cmds = Some (km', rs1)" "rs = r # rs1"
    using Cons.prems by (auto simp: bind_eq_Some_conv)
  note IH = Cons.IH [OF r(2)]
  show ?case
  proof (cases cmd)
    case (PopFrostPrecomputation i)
    then obtain q where q: "pop_precomputation km i = (km1, q)" "r = KmPrecomputation q" using r(1) by (auto simp: km_step_def split: prod.splits)
    from km_queue_pop [OF q(1), of k] IH show ?thesis using PopFrostPrecomputation q(2) r(3) by (cases q) auto
  next
    case (PushFrostPrecomputations i ps)
    then have "km1 = append_precomputations km i ps" using r(1) by (simp add: km_step_def)
    then show ?thesis using IH r(3) PushFrostPrecomputations by (auto simp: km_queue_append split: if_splits)
  qed (use r IH in \<open>auto simp: km_step_def bind_eq_Some_conv\<close>)
qed simp

text \<open>
  C28.  No FROST nonce is handed out twice.  Whatever commands the key manager receives after it was
  created, the precomputations it hands out for a key are, in order, an initial part of the ones pushed for
  that key (each batch from its end), and the rest is what it still holds: every precomputation is
  handed out at most once and oldest batch first, and a request is only turned down when none is left.
\<close>

theorem precomputations_fifo:
  assumes "km_new C B read_entries path = Some km" "km_run C B show_err km cmds = Some (km', rs)"
  shows "pushed k cmds = popped k cmds rs @ km_queue km' k
    \<and> (snd (pop_precomputation km' k) = None \<longleftrightarrow> km_queue km' k = [])"
proof -
  have "km_queue km k = []" using assms(1) by (auto simp: km_new_def km_queue_def bind_eq_Some_conv)
  then show ?thesis using km_run_queue [OF assms(2), of k]
    by (auto simp: pop_precomputation_def km_queue_def split: option.splits)
qed

definition toy_precomputation :: "int \<Rightarrow> int frost_precomputation" where
  "toy_precomputation d = \<lparr>fpc_group = sg_from_vec [1], fpc_nonce = \<lparr>nonce_hiding = SBI Ed25519 d, nonce_binding = SBI Ed25519 1\<rparr>,
     fpc_commitments = []\<rparr>"

theorem precomputations_fifo_witness:
  "\<exists>km km' rs. km_new unary_codec z11_backend (\<lambda>_. Ok [] :: unit + _) ''keys'' = Some km
   \<and> km_run unary_codec z11_backend (\<lambda>_. '''') km
       [PushFrostPrecomputations [1] [toy_precomputation 5, toy_precomputation 6], PopFrostPrecomputation [1]] = Some (km', rs)
   \<and> rs = [KmSilent, KmPrecomputation (Some (toy_precomputation 6))] \<and> km_queue km' [1] = [toy_precomputation 5]"
proof -
  let ?cmds = "[PushFrostPrecomputations [1] [toy_precomputation 5, toy_precomputation 6], PopFrostPrecomputation [1]]"
  obtain km where km: "km_new unary_codec z11_backend (\<lambda>_. Ok [] :: unit + _) ''keys'' = Some km" "km_frost_precomputes km = []"
    by (simp add: km_new_def ks_load_def ks_from_def)
  obtain km' where r: "km_run unary_codec z11_backend (\<lambda>_. '''') km ?cmds
      = Some (km', [KmSilent, KmPrecomputation (Some (toy_precomputation 6))])"
    using km(2) by (simp add: km_step_def append_precomputations_def pop_precomputation_def)
  have "km_queue km' [1] = [toy_precomputation 5]" using precomputations_fifo [OF km(1) r, of "[1]"] by simp
  with km(1) r show ?thesis by (intro exI conjI) (assumption | rule refl)+
qed

end
