(* ===== verification/QC_ShareCollector.thy ===== *)
theory QC_ShareCollector
  imports QC_RoundProtocol
begin

text \<open>
  Collecting shares.  The non-interactive protocols (decryption, signature, coin) all work the same
  way: \<open>do_round\<close> makes the party's own share, \<open>update\<close> drops a share whose identifier was seen
  before, records the identifier, verifies the share and keeps it when it is valid, and \<open>finalize\<close>
  assembles once as many shares as the threshold are kept.  The locale \<open>share_collector\<close> states this
  contract; what follows from it for the executor is proved here once.
\<close>

fun accepted_shares :: "('sh \<Rightarrow> u16) \<Rightarrow> ('sh \<Rightarrow> bool) \<Rightarrow> u16 set \<Rightarrow> 'sh list \<Rightarrow> 'sh list" where
  "accepted_shares ident ok R [] = []"
| "accepted_shares ident ok R (sh # shs) =
     (if ident sh \<in> R then accepted_shares ident ok R shs
      else (if ok sh then [sh] else []) @ accepted_shares ident ok (insert (ident sh) R) shs)"

lemma accepted_sharesD:
  "sh \<in> set (accepted_shares ident ok R shs) \<Longrightarrow> sh \<in> set shs \<and> ok sh \<and> ident sh \<notin> R"
  by (induction shs arbitrary: R) (auto split: if_splits)

lemma distinct_accepted_shares: "distinct (map ident (accepted_shares ident ok R shs))"
  by (induction shs arbitrary: R) (auto dest: accepted_sharesD)

lemma accepted_shares_ids:
  assumes "\<forall>sh\<in>set shs. ok sh"
  shows "ident ` set (accepted_shares ident ok R shs) = ident ` set shs - R"
  using assms by (induction shs arbitrary: R) auto

lemma length_accepted_shares:
  assumes "\<forall>sh\<in>set shs. ok sh"
  shows "length (accepted_shares ident ok R shs) = card (ident ` set shs - R)"
  using distinct_card [OF distinct_accepted_shares, of ident ok R shs] accepted_shares_ids [of shs ok ident R] assms
  by simp

lemma accepted_shares_first:
  assumes "ident sh \<notin> R" "ident sh \<notin> ident ` set pre" "ok sh"
  shows "sh \<in> set (accepted_shares ident ok R (pre @ sh # post))"
  using assms by (induction pre arbitrary: R) auto

lemma accepted_shares_later:
  assumes "x \<in> set (accepted_shares ident ok R (pre @ sh # post))" "ident x = ident sh"
    "ident sh \<notin> ident ` set pre"
  shows "x = sh \<and> ok sh"
  using assms
proof (induction pre arbitrary: R)
  case Nil
  then show ?case using accepted_sharesD [of x ident ok "insert (ident sh) R" post]
    accepted_sharesD [of x ident ok R post]
    by (auto split: if_splits)
next
  case (Cons y ys)
  then show ?case by (auto split: if_splits)
qed

locale share_collector =
  fixes P :: "('s, 'm, 'd) round_protocol"
    and ctx :: "'s \<Rightarrow> 'c"
    and share_of :: "'m \<Rightarrow> 'sh option"
    and shares :: "'s \<Rightarrow> 'sh list"
    and received :: "'s \<Rightarrow> u16 set"
    and finished :: "'s \<Rightarrow> bool"
    and ident :: "'sh \<Rightarrow> u16"
    and threshold :: "'c \<Rightarrow> nat"
    and check :: "'c \<Rightarrow> 'sh \<Rightarrow> (scheme_error + bool) may_panic"
    and produce :: "'c \<Rightarrow> 'd \<Rightarrow> (protocol_error + 'sh) may_panic"
    and result :: "'c \<Rightarrow> 'sh list \<Rightarrow> (protocol_error + bytes) may_panic"
  assumes ready: "rp_is_ready_to_finalize P s \<longleftrightarrow> threshold (ctx s) \<le> length (shares s)"
    and next_ready: "rp_is_ready_for_next_round P s \<longleftrightarrow> threshold (ctx s) \<le> length (shares s)"
    and default_message: "share_of m = None \<Longrightarrow> rp_update P s m = None"
    and ignored: "share_of m = Some sh \<Longrightarrow> finished s \<or> ident sh \<in> received s \<Longrightarrow> rp_update P s m = Some (s, Ok ())"
    and check_panics: "share_of m = Some sh \<Longrightarrow> \<not> finished s \<Longrightarrow> ident sh \<notin> received s \<Longrightarrow> check (ctx s) sh = None
      \<Longrightarrow> rp_update P s m = None"
    and collects: "share_of m = Some sh \<Longrightarrow> \<not> finished s \<Longrightarrow> ident sh \<notin> received s \<Longrightarrow> check (ctx s) sh = Some r
      \<Longrightarrow> \<exists>s'. rp_update P s m = Some (s', Ok ()) \<and> ctx s' = ctx s \<and> \<not> finished s'
        \<and> shares s' = shares s @ (if r = Ok True then [sh] else []) \<and> received s' = insert (ident sh) (received s)"
    and own_panics: "produce (ctx s) d = None \<Longrightarrow> rp_do_round P d s = None"
    and own_fails: "produce (ctx s) d = Some (Err e) \<Longrightarrow> rp_do_round P d s = Some (s, Err e)"
    and own_share: "produce (ctx s) d = Some (Ok sh)
      \<Longrightarrow> \<exists>s' m. rp_do_round P d s = Some (s', Ok m) \<and> share_of m = Some sh \<and> \<not> rp_is_default P m \<and> ctx s' = ctx s
        \<and> finished s' = finished s \<and> shares s' = shares s @ [sh] \<and> received s' = insert (ident sh) (received s)"
    and finalizes: "map_option snd (rp_finalize P s) = result (ctx s) (shares s)"
begin

definition fresh :: "'c \<Rightarrow> 's \<Rightarrow> bool" where
  "fresh c s = (ctx s = c \<and> \<not> finished s \<and> shares s = [] \<and> received s = {})"

definition inv :: "'c \<Rightarrow> ('sh \<Rightarrow> bool) \<Rightarrow> 's \<Rightarrow> bool" where
  "inv c adm s = (ctx s = c \<and> distinct (map ident (shares s)) \<and> ident ` set (shares s) \<subseteq> received s
     \<and> (\<forall>sh\<in>set (shares s). adm sh \<and> check c sh = Some (Ok True) \<or> (\<exists>d. produce c d = Some (Ok sh))))"

definition allows :: "('sh \<Rightarrow> bool) \<Rightarrow> 'm \<Rightarrow> bool" where
  "allows adm m = (\<forall>sh. share_of m = Some sh \<longrightarrow> adm sh)"

definition good :: "'c \<Rightarrow> 's \<Rightarrow> bytes \<Rightarrow> bool" where
  "good c s v = (threshold c \<le> length (shares s) \<and> result c (shares s) = Some (Ok v))"

lemma first_round_inv:
  assumes "fresh c s" "rp_do_round P d s = Some (s', Ok m)"
  shows "inv c adm s'"
proof (cases "produce (ctx s) d")
  case None
  then show ?thesis using own_panics [of s d] assms(2) by simp
next
  case (Some p)
  then show ?thesis using own_fails [of s d] own_share [of s d] assms
    by (cases p) (auto simp: fresh_def inv_def)
qed

lemma update_keeps_inv:
  assumes "inv c adm s" "allows adm m" "rp_update P s m = Some (s', u)"
  shows "inv c adm s'"
proof (cases "share_of m")
  case None
  then show ?thesis using default_message assms(3) by simp
next
  case (Some sh)
  show ?thesis
  proof (cases "finished s \<or> ident sh \<in> received s")
    case True
    then show ?thesis using ignored [OF Some] assms by auto
  next
    case False
    then have nf: "\<not> finished s" "ident sh \<notin> received s" by auto
    have "check (ctx s) sh \<noteq> None" using check_panics [OF Some nf] assms(3) by auto
    then obtain r where r: "check (ctx s) sh = Some r" by auto
    have "ident sh \<notin> ident ` set (shares s)" using nf(2) assms(1) by (auto simp: inv_def)
    then show ?thesis using collects [OF Some nf r] r assms Some by (cases "r = Ok True") (auto simp: inv_def allows_def)
  qed
qed

end

sublocale share_collector \<subseteq> rc: round_contract P "fresh c0" "inv c0 adm" "allows adm" "good c0" for c0 adm
proof unfold_locales
  show "inv c0 adm s'" if "fresh c0 s" "rp_do_round P d s = Some (s', Ok m)" for s s' d m
    using that by (rule first_round_inv)
  show "inv c0 adm s'" if "rp_is_ready_for_next_round P s" "\<not> rp_is_ready_to_finalize P s" for s s' d m
    using that ready next_ready by blast
  show "inv c0 adm s'" if "inv c0 adm s" "allows adm m" "rp_update P s m = Some (s', u)" for s s' m u
    using that by (rule update_keeps_inv)
  show "good c0 s v" if "inv c0 adm s" "rp_is_ready_to_finalize P s" "rp_finalize P s = Some (s', Ok v)" for s s' v
    using that finalizes [of s] ready [of s] by (auto simp: good_def inv_def)
qed

context share_collector
begin

text \<open>Whatever arrives, a result is assembled from enough distinct shares, each verified or own.\<close>

lemma run_result:
  assumes "fresh c s" "executor_run P draws iid s inbox closed = Some (ex, Returned (Ok v))"
    "\<And>t m sh. t \<in> set inbox \<Longrightarrow> rp_unwrap P t = Some (Ok m) \<Longrightarrow> share_of m = Some sh \<Longrightarrow> adm sh"
  shows "\<exists>shs. threshold c \<le> length shs \<and> distinct (map ident shs) \<and> result c shs = Some (Ok v)
    \<and> (\<forall>sh\<in>set shs. adm sh \<and> check c sh = Some (Ok True) \<or> (\<exists>d. produce c d = Some (Ok sh)))"
proof -
  have "\<forall>t\<in>set inbox. rc.clean adm t" using assms(3) by (auto simp: rc.clean_def allows_def)
  from rc.run_good [OF assms(2,1) this] show ?thesis by (auto simp: inv_def good_def)
qed

definition carries :: "net_message \<Rightarrow> 'sh \<Rightarrow> bool" where
  "carries t sh = (\<exists>m. rp_unwrap P t = Some (Ok m) \<and> share_of m = Some sh)"

definition ok :: "'c \<Rightarrow> 'sh \<Rightarrow> bool" where
  "ok c sh = (check c sh = Some (Ok True))"

text \<open>One share: the state collects it, then the executor finalizes or goes on waiting.\<close>

lemma update_step:
  assumes "share_of m = Some sh" "\<not> finished s" "ctx s = c" "check c sh \<noteq> None"
  shows "\<exists>s'. rp_update P s m = Some (s', Ok ()) \<and> ctx s' = c \<and> \<not> finished s'
    \<and> shares s' = shares s @ accepted_shares ident (ok c) (received s) [sh]
    \<and> received s' = insert (ident sh) (received s)"
proof (cases "ident sh \<in> received s")
  case True
  then show ?thesis using ignored [OF assms(1)] assms(2,3) by (auto simp: insert_absorb)
next
  case False
  obtain r where "check c sh = Some r" using assms(4) by auto
  then show ?thesis using collects [OF assms(1,2) False, of r] assms(3) False by (auto simp: ok_def)
qed

lemma deliver_step:
  assumes "carries t sh" "\<not> finished (ex_protocol ex)" "ctx (ex_protocol ex) = c" "check c sh \<noteq> None"
  defines "vs \<equiv> shares (ex_protocol ex) @ accepted_shares ident (ok c) (received (ex_protocol ex)) [sh]"
  shows "\<exists>ex'. ctx (ex_protocol ex') = c \<and> \<not> finished (ex_protocol ex') \<and> shares (ex_protocol ex') = vs
    \<and> received (ex_protocol ex') = insert (ident sh) (received (ex_protocol ex))
    \<and> (length vs < threshold c \<longrightarrow> ex_deliver P draws ex t = Some (ex', Waiting))
    \<and> (threshold c \<le> length vs \<longrightarrow> map_option snd (ex_deliver P draws ex t) = map_option Returned (result c vs))"
proof -
  obtain m where m: "rp_unwrap P t = Some (Ok m)" "share_of m = Some sh" using assms(1) by (auto simp: carries_def)
  obtain s' where s': "rp_update P (ex_protocol ex) m = Some (s', Ok ())" "ctx s' = c" "\<not> finished s'"
      "shares s' = vs" "received s' = insert (ident sh) (received (ex_protocol ex))"
    using update_step [OF m(2) assms(2-4)] vs_def by auto
  have "ex_deliver P draws ex t = Some (ex\<lparr>ex_protocol := s'\<rparr>, Waiting)" if "length vs < threshold c"
    using that m s' by (simp add: ex_deliver_def ready next_ready)
  moreover have "map_option snd (ex_deliver P draws ex t) = map_option Returned (result c vs)"
    if "threshold c \<le> length vs"
    using that m s' finalizes [of s', symmetric]
    by (cases "rp_finalize P s'") (auto simp: ex_deliver_def ready Let_def ex_fail_def split: sum.split)
  ultimately show ?thesis using s' by (intro exI [of _ "ex\<lparr>ex_protocol := s'\<rparr>"]) simp
qed

text \<open>
  The whole inbox.  Too few acceptable shares leave the instance waiting; enough of them end it with
  what \<open>finalize\<close> makes of the shares accepted up to the one that completes the threshold.
\<close>

lemma loop_waits:
  assumes "list_all2 carries ts shs" "\<not> finished (ex_protocol ex)" "ctx (ex_protocol ex) = c"
    "\<forall>sh\<in>set shs. check c sh \<noteq> None"
    "length (shares (ex_protocol ex)) + length (accepted_shares ident (ok c) (received (ex_protocol ex)) shs) < threshold c"
  shows "\<exists>ex'. ex_loop P draws False ex ts = Some (ex', Waiting)"
  using assms
proof (induction ts shs arbitrary: ex rule: list_all2_induct)
  case Nil
  then show ?case by simp
next
  case (Cons t ts sh shs)
  let ?vs = "shares (ex_protocol ex) @ accepted_shares ident (ok c) (received (ex_protocol ex)) [sh]"
  obtain ex' where ex': "ctx (ex_protocol ex') = c" "\<not> finished (ex_protocol ex')" "shares (ex_protocol ex') = ?vs"
      "received (ex_protocol ex') = insert (ident sh) (received (ex_protocol ex))"
      "length ?vs < threshold c \<longrightarrow> ex_deliver P draws ex t = Some (ex', Waiting)"
    using deliver_step [OF Cons.hyps(1) Cons.prems(1,2), of draws] Cons.prems(3) by auto
  have "length ?vs + length (accepted_shares ident (ok c) (insert (ident sh) (received (ex_protocol ex))) shs) < threshold c"
    using Cons.prems(4) by (auto simp: insert_absorb split: if_splits)
  then show ?case using Cons.IH [OF ex'(2,1)] Cons.prems(3) ex' by simp
qed

lemma loop_completes:
  assumes "list_all2 carries ts shs" "\<not> finished (ex_protocol ex)" "ctx (ex_protocol ex) = c"
    "\<forall>sh\<in>set shs. check c sh \<noteq> None" "shs \<noteq> []"
    "threshold c \<le> length (shares (ex_protocol ex)) + length (accepted_shares ident (ok c) (received (ex_protocol ex)) shs)"
  shows "\<exists>pre. prefix pre shs \<and> (let vs = shares (ex_protocol ex) @ accepted_shares ident (ok c) (received (ex_protocol ex)) pre in
    threshold c \<le> length vs \<and> map_option snd (ex_loop P draws closed ex ts) = map_option Returned (result c vs))"
  using assms
proof (induction ts shs arbitrary: ex rule: list_all2_induct)
  case Nil
  then show ?case by simp
next
  case (Cons t ts sh shs)
  let ?R = "received (ex_protocol ex)" and ?acc = "accepted_shares ident (ok c)"
  let ?vs = "shares (ex_protocol ex) @ ?acc ?R [sh]"
  obtain ex' where ex': "ctx (ex_protocol ex') = c" "\<not> finished (ex_protocol ex')" "shares (ex_protocol ex') = ?vs"
      "received (ex_protocol ex') = insert (ident sh) ?R"
      "length ?vs < threshold c \<longrightarrow> ex_deliver P draws ex t = Some (ex', Waiting)"
      "threshold c \<le> length ?vs \<longrightarrow> map_option snd (ex_deliver P draws ex t) = map_option Returned (result c ?vs)"
    using deliver_step [OF Cons.hyps(1) Cons.prems(1,2), of draws] Cons.prems(3) by auto
  show ?case
  proof (cases "threshold c \<le> length ?vs")
    case True
    then have "map_option snd (ex_loop P draws closed ex (t # ts)) = map_option Returned (result c ?vs)"
      using ex'(6) by (cases "ex_deliver P draws ex t"; cases "result c ?vs") (auto split: prod.split)
    then show ?thesis using True by (intro exI [of _ "[sh]"]) (simp add: Let_def)
  next
    case False
    have acc: "?acc ?R (sh # pre) = ?acc ?R [sh] @ ?acc (insert (ident sh) ?R) pre" for pre
      by (auto simp: insert_absorb)
    have "threshold c \<le> length ?vs + length (?acc (insert (ident sh) ?R) shs)"
      using Cons.prems(5) acc [of shs] by simp
    moreover from this False have "shs \<noteq> []" by auto
    ultimately obtain pre where "prefix pre shs" "threshold c \<le> length (?vs @ ?acc (insert (ident sh) ?R) pre)"
        "map_option snd (ex_loop P draws closed ex' ts) = map_option Returned (result c (?vs @ ?acc (insert (ident sh) ?R) pre))"
      using Cons.IH [OF ex'(2,1)] Cons.prems(3) ex'(3,4) by (auto simp: Let_def)
    then show ?thesis using ex'(5) False acc [of pre] by (intro exI [of _ "sh # pre"]) (simp add: Let_def)
  qed
qed

text \<open>A run: the own share first, then the inbox.\<close>

lemma run_start:
  assumes "fresh c s" "produce c (draws 0) = Some (Ok own)"
    "\<And>m. share_of m = Some own \<Longrightarrow> \<exists>n. rp_wrap P iid m = Some (Ok n)"
  shows "\<exists>ex. executor_run P draws iid s inbox closed = ex_loop P draws closed ex inbox
    \<and> ctx (ex_protocol ex) = c \<and> \<not> finished (ex_protocol ex) \<and> shares (ex_protocol ex) = [own]
    \<and> received (ex_protocol ex) = {ident own}"
proof -
  obtain s' m where s': "rp_do_round P (draws 0) s = Some (s', Ok m)" "share_of m = Some own" "\<not> rp_is_default P m"
      "ctx s' = c" "\<not> finished s'" "shares s' = [own]" "received s' = {ident own}"
    using own_share [of s "draws 0" own] assms(1,2) by (auto simp: fresh_def)
  obtain n where "rp_wrap P iid m = Some (Ok n)" using assms(3) [OF s'(2)] by blast
  then show ?thesis using s'
    by (intro exI [of _ "(ex_emit (StartedInstance iid) (executor_new iid s))\<lparr>ex_protocol := s', ex_rounds := 1, ex_sent := [n]\<rparr>"])
      (simp add: executor_run_def ex_do_round_def executor_new_def)
qed

lemma run_completes:
  assumes "fresh c s" "produce c (draws 0) = Some (Ok own)"
    "\<And>m. share_of m = Some own \<Longrightarrow> \<exists>n. rp_wrap P iid m = Some (Ok n)"
    "list_all2 carries inbox shs" "\<forall>sh\<in>set shs. check c sh \<noteq> None" "shs \<noteq> []"
    "threshold c \<le> Suc (length (accepted_shares ident (ok c) {ident own} shs))"
  shows "\<exists>vs. threshold c \<le> length vs \<and> distinct (map ident vs) \<and> (\<forall>sh\<in>set vs. sh = own \<or> sh \<in> set shs \<and> ok c sh)
    \<and> map_option snd (executor_run P draws iid s inbox closed) = map_option Returned (result c vs)"
proof -
  obtain ex where ex: "executor_run P draws iid s inbox closed = ex_loop P draws closed ex inbox"
      "ctx (ex_protocol ex) = c" "\<not> finished (ex_protocol ex)" "shares (ex_protocol ex) = [own]"
      "received (ex_protocol ex) = {ident own}"
    using run_start [of c s draws own iid, OF assms(1-3)] by blast
  let ?vs = "\<lambda>pre. own # accepted_shares ident (ok c) {ident own} pre"
  obtain pre where pre: "prefix pre shs" "threshold c \<le> length (?vs pre)"
      "map_option snd (ex_loop P draws closed ex inbox) = map_option Returned (result c (?vs pre))"
    using loop_completes [OF assms(4) ex(3,2) assms(5,6), of draws closed] assms(7) ex(4,5)
    by (auto simp: Let_def)
  have "set pre \<subseteq> set shs" using pre(1) set_mono_prefix by blast
  then have "\<forall>sh\<in>set (?vs pre). sh = own \<or> sh \<in> set shs \<and> ok c sh" "distinct (map ident (?vs pre))"
    using distinct_accepted_shares by (auto dest: accepted_sharesD)
  then show ?thesis using pre ex(1) by (intro exI [of _ "?vs pre"] conjI) simp_all
qed

lemma run_waits:
  assumes "fresh c s" "produce c (draws 0) = Some (Ok own)"
    "\<And>m. share_of m = Some own \<Longrightarrow> \<exists>n. rp_wrap P iid m = Some (Ok n)"
    "list_all2 carries inbox shs" "\<forall>sh\<in>set shs. check c sh \<noteq> None"
    "shs = [] \<or> Suc (length (accepted_shares ident (ok c) {ident own} shs)) < threshold c"
  shows "\<exists>ex. executor_run P draws iid s inbox False = Some (ex, Waiting)"
proof -
  obtain ex where ex: "executor_run P draws iid s inbox False = ex_loop P draws False ex inbox"
      "ctx (ex_protocol ex) = c" "\<not> finished (ex_protocol ex)" "shares (ex_protocol ex) = [own]"
      "received (ex_protocol ex) = {ident own}"
    using run_start [of c s draws own iid, OF assms(1-3)] by blast
  show ?thesis using loop_waits [OF assms(4) ex(3,2) assms(5), of draws] assms(4,6) ex
    by (cases "shs = []") auto
qed

text \<open>
  Identifiers are recorded before shares are verified: a rejected first share uses up its identifier.
\<close>

lemma run_blocked:
  assumes "fresh c s" "produce c (draws 0) = Some (Ok own)"
    "\<And>m. share_of m = Some own \<Longrightarrow> \<exists>n. rp_wrap P iid m = Some (Ok n)"
    "list_all2 carries inbox shs" "\<forall>sh\<in>set shs. check c sh \<noteq> None"
    and U: "finite U" "ident own \<in> U" "\<forall>sh\<in>set shs. ident sh \<in> U"
    and I: "I \<subseteq> U" "ident own \<notin> I" "card U < threshold c + card I"
      "\<forall>i\<in>I. \<exists>pre sh post. shs = pre @ sh # post \<and> ident sh = i \<and> i \<notin> ident ` set pre \<and> \<not> ok c sh"
  shows "\<exists>ex. executor_run P draws iid s inbox False = Some (ex, Waiting)"
proof -
  let ?acc = "accepted_shares ident (ok c) {ident own} shs"
  have "ident x \<in> U - insert (ident own) I" if "x \<in> set ?acc" for x
  proof -
    have "ident x \<notin> I"
    proof
      assume "ident x \<in> I"
      then obtain pre sh post where "shs = pre @ sh # post" "ident sh = ident x" "ident x \<notin> ident ` set pre" "\<not> ok c sh"
        using I(4) by blast
      then show False using accepted_shares_later [of x ident "ok c" "{ident own}" pre sh post] that by simp
    qed
    then show ?thesis using U(3) accepted_sharesD [OF that] by auto
  qed
  then have "ident ` set ?acc \<subseteq> U - insert (ident own) I" by auto
  then have "card (ident ` set ?acc) \<le> card (U - insert (ident own) I)" using U(1) by (intro card_mono) auto
  moreover have "card (ident ` set ?acc) = length ?acc"
    using distinct_card [OF distinct_accepted_shares, of ident "ok c" "{ident own}" shs] by simp
  moreover have fI: "finite I" using I(1) U(1) finite_subset by auto
  moreover have "card (U - insert (ident own) I) = card U - Suc (card I)"
    using U(2) I(1,2) fI by (subst card_Diff_subset) auto
  moreover have "Suc (card I) \<le> card U"
    using card_mono [of U "insert (ident own) I"] U(1,2) I(1,2) fI by auto
  ultimately have "Suc (length ?acc) < threshold c" using I(3) by linarith
  then show ?thesis using run_waits [of c s draws own iid inbox shs, OF assms(1-5)] by blast
qed

end

end
