(* ===== verification/QC_CipherProtocol.thy ===== *)
theory QC_CipherProtocol
  imports QC_ShareCollector QC_WireCodec
begin

text \<open>
  The threshold decryption protocol (\<open>protocols/src/threshold_cipher\<close>): its messages, its state and
  the methods of \<open>ThresholdRoundProtocol\<close>.  The draw of \<open>do_round\<close> is the nonce of the proof in an
  SG02 share.  It is a \<open>share_collector\<close>; with the robustness of BZ03 this shows what a run of the
  executor returns against arbitrary messages.
\<close>

record 'p decryption_share_message =
  dsm_share :: "'p decryption_share"
  dsm_sender_id :: u16

datatype 'p decryption_message = DecShareMessage "'p decryption_share_message" | DecDefault

datatype decryption_wire = WDecShare bytes u16 | WDecDefault

definition dsm_new :: "'p decryption_share \<Rightarrow> 'p decryption_share_message" where
  "dsm_new sh = \<lparr>dsm_share = sh, dsm_sender_id = 0\<rparr>"

fun dm_is_default :: "'p decryption_message \<Rightarrow> bool" where
  "dm_is_default DecDefault = True" | "dm_is_default (DecShareMessage m) = False"

fun dm_to_wire :: "codec \<Rightarrow> 'p curve_backend \<Rightarrow> 'p decryption_message \<Rightarrow> decryption_wire may_panic" where
  "dm_to_wire C B (DecShareMessage m) = do {
     r \<leftarrow> ds_to_bytes C B (dsm_share m);
     b \<leftarrow> unwrap r;
     Some (WDecShare b (dsm_sender_id m)) }"
| "dm_to_wire C B DecDefault = Some WDecDefault"

fun dm_from_wire ::
  "codec \<Rightarrow> 'p curve_backend \<Rightarrow> decryption_wire \<Rightarrow> (scheme_error + 'p decryption_message) may_panic" where
  "dm_from_wire C B (WDecShare b i) = map_option
     (map_sum (\<lambda>e. e) (\<lambda>sh. DecShareMessage \<lparr>dsm_share = sh, dsm_sender_id = i\<rparr>)) (ds_from_bytes C B b)"
| "dm_from_wire C B WDecDefault = Some (Ok DecDefault)"

record 'p cipher_protocol =
  cp_private_key :: "'p private_key_share"
  cp_ciphertext :: "'p ciphertext"
  cp_instance_id :: bytes
  cp_valid_shares :: "'p decryption_share list"
  cp_decrypted :: bool
  cp_decrypted_plaintext :: bytes
  cp_received_share_ids :: "u16 set"

definition cp_new :: "'p private_key_share \<Rightarrow> 'p ciphertext \<Rightarrow> bytes \<Rightarrow> 'p cipher_protocol" where
  "cp_new sk ct iid = \<lparr>cp_private_key = sk, cp_ciphertext = ct, cp_instance_id = iid, cp_valid_shares = [],
     cp_decrypted = False, cp_decrypted_plaintext = [], cp_received_share_ids = {}\<rparr>"

definition cp_is_ready :: "'p cipher_protocol \<Rightarrow> bool" where
  "cp_is_ready s = (unat (sk_get_threshold (cp_private_key s)) \<le> length (cp_valid_shares s))"

definition cp_finalize ::
  "'p curve_backend \<Rightarrow> aead \<Rightarrow> 'p cipher_protocol \<Rightarrow> ('p cipher_protocol \<times> (protocol_error + bytes)) may_panic" where
  "cp_finalize B A s = do {
     r \<leftarrow> tc_assemble B A (cp_valid_shares s) (cp_ciphertext s);
     case r of
       Inl e \<Rightarrow> Some (s, Err (SchemeError e))
     | Inr v \<Rightarrow> Some (s\<lparr>cp_decrypted_plaintext := v, cp_decrypted := True\<rparr>, Ok v)
   }"

fun cp_update ::
  "'p curve_backend \<Rightarrow> 'p cipher_protocol \<Rightarrow> 'p decryption_message \<Rightarrow>
   ('p cipher_protocol \<times> (protocol_error + unit)) may_panic" where
  "cp_update B s (DecShareMessage m) =
     (let share = dsm_share m in
      if cp_decrypted s then Some (s, Ok ())
      else if ds_get_id share \<in> cp_received_share_ids s then Some (s, Ok ())
      else
        let s' = s\<lparr>cp_received_share_ids := insert (ds_get_id share) (cp_received_share_ids s)\<rparr> in
        do {
          r \<leftarrow> tc_verify_share B share (cp_ciphertext s) (sk_get_public_key (cp_private_key s));
          case r of
            Inl e \<Rightarrow> Some (s', Ok ())
          | Inr is_valid \<Rightarrow>
              if \<not> is_valid then Some (s', Ok ())
              else Some (s'\<lparr>cp_valid_shares := cp_valid_shares s @ [share]\<rparr>, Ok ())
        })"
| "cp_update B s DecDefault = None"

definition cp_do_round ::
  "'p curve_backend \<Rightarrow> int \<Rightarrow> 'p cipher_protocol \<Rightarrow> ('p cipher_protocol \<times> (protocol_error + 'p decryption_message)) may_panic" where
  "cp_do_round B d s = do {
     r \<leftarrow> tc_verify_ciphertext B (cp_ciphertext s) (sk_get_public_key (cp_private_key s));
     case r of
       Inl e \<Rightarrow> Some (s, Err (SchemeError e))
     | Inr valid_ctxt \<Rightarrow>
         if \<not> valid_ctxt then Some (s, Err InvalidCiphertext)
         else do {
           r \<leftarrow> tc_partial_decrypt B (cp_ciphertext s) (cp_private_key s) d;
           case r of
             Inl e \<Rightarrow> Some (s, Err (SchemeError e))
           | Inr share \<Rightarrow>
               Some (s\<lparr>cp_received_share_ids := insert (ds_get_id share) (cp_received_share_ids s),
                       cp_valid_shares := cp_valid_shares s @ [share]\<rparr>,
                     Ok (DecShareMessage (dsm_new share)))
         }
   }"

definition cipher_round_protocol ::
  "codec \<Rightarrow> 'p curve_backend \<Rightarrow> aead \<Rightarrow> decryption_wire json \<Rightarrow>
   ('p cipher_protocol, 'p decryption_message, int) round_protocol" where
  "cipher_round_protocol C B A J =
     \<lparr>rp_unwrap = unwrap_net J (dm_from_wire C B), rp_wrap = wrap_net J (dm_to_wire C B),
      rp_is_default = dm_is_default, rp_do_round = cp_do_round B,
      rp_is_ready_for_next_round = cp_is_ready, rp_is_ready_to_finalize = cp_is_ready,
      rp_finalize = cp_finalize B A, rp_update = cp_update B\<rparr>"

subsection \<open>The protocol collects shares\<close>

type_synonym 'p cipher_ctx = "'p private_key_share \<times> 'p ciphertext"

definition cp_ctx :: "'p cipher_protocol \<Rightarrow> 'p cipher_ctx" where
  "cp_ctx s = (cp_private_key s, cp_ciphertext s)"

fun dm_share :: "'p decryption_message \<Rightarrow> 'p decryption_share option" where
  "dm_share (DecShareMessage m) = Some (dsm_share m)" | "dm_share DecDefault = None"

definition cp_threshold :: "'p cipher_ctx \<Rightarrow> nat" where
  "cp_threshold c = unat (sk_get_threshold (fst c))"

definition cp_check :: "'p curve_backend \<Rightarrow> 'p cipher_ctx \<Rightarrow> 'p decryption_share \<Rightarrow> (scheme_error + bool) may_panic" where
  "cp_check B c sh = tc_verify_share B sh (snd c) (sk_get_public_key (fst c))"

definition cp_produce :: "'p curve_backend \<Rightarrow> 'p cipher_ctx \<Rightarrow> int \<Rightarrow> (protocol_error + 'p decryption_share) may_panic" where
  "cp_produce B c d = do {
     r \<leftarrow> tc_verify_ciphertext B (snd c) (sk_get_public_key (fst c));
     case r of
       Inl e \<Rightarrow> Some (Err (SchemeError e))
     | Inr v \<Rightarrow> if v then map_option (map_sum SchemeError (\<lambda>x. x)) (tc_partial_decrypt B (snd c) (fst c) d)
                else Some (Err InvalidCiphertext) }"

definition cp_result :: "'p curve_backend \<Rightarrow> aead \<Rightarrow> 'p cipher_ctx \<Rightarrow> 'p decryption_share list \<Rightarrow> (protocol_error + bytes) may_panic" where
  "cp_result B A c shs = map_option (map_sum SchemeError (\<lambda>x. x)) (tc_assemble B A shs (snd c))"

lemmas cp_defs [proto_defs] = cipher_round_protocol_def cp_ctx_def cp_threshold_def cp_check_def cp_produce_def cp_result_def
  cp_is_ready_def cp_finalize_def cp_do_round_def dsm_new_def

lemma dm_share_SomeD: "dm_share m = Some sh \<Longrightarrow> \<exists>x. m = DecShareMessage x \<and> dsm_share x = sh"
  by (cases m) auto

lemma dm_share_NoneD: "dm_share m = None \<Longrightarrow> m = DecDefault"
  by (cases m) auto

lemma cp_do_round_eq:
  "cp_do_round B d s = map_option (\<lambda>p. case p of Inl e \<Rightarrow> (s, Err e)
     | Inr sh \<Rightarrow> (s\<lparr>cp_received_share_ids := insert (ds_get_id sh) (cp_received_share_ids s),
                    cp_valid_shares := cp_valid_shares s @ [sh]\<rparr>, Ok (DecShareMessage (dsm_new sh))))
     (cp_produce B (cp_ctx s) d)"
  by (auto simp: cp_do_round_def cp_produce_def cp_ctx_def map_sum_def map_option_case
      split: Option.bind_split option.split sum.split)

interpretation cipher: share_collector "cipher_round_protocol C B A J" cp_ctx dm_share cp_valid_shares
  cp_received_share_ids cp_decrypted ds_get_id cp_threshold "cp_check B" "cp_produce B" "cp_result B A"
  for C :: codec and B :: "'p curve_backend" and A :: aead and J :: "decryption_wire json"
proof (unfold_locales, goal_cases)
  case (6 m sh s r)
  then show ?case by (cases r) (auto simp: proto_defs Let_def dest!: dm_share_SomeD)
next
  case (10 s)
  then show ?case
    by (cases "tc_assemble B A (cp_valid_shares s) (cp_ciphertext s)") (auto simp: proto_defs split: sum.split)
qed (auto simp: cp_do_round_eq cipher_round_protocol_def cp_is_ready_def cp_ctx_def cp_threshold_def cp_check_def dsm_new_def
    Let_def dest!: dm_share_SomeD dm_share_NoneD)

subsection \<open>Runs of the protocol with BZ03\<close>

text \<open>A message of the inbox and the share it carries.\<close>

definition carries_share ::
  "codec \<Rightarrow> 'p curve_backend \<Rightarrow> decryption_wire json \<Rightarrow> net_message \<Rightarrow> 'p decryption_share \<Rightarrow> bool" where
  "carries_share C B J t sh = (\<exists>m. unwrap_net J (dm_from_wire C B) t = Some (Ok m) \<and> dm_share m = Some sh)"

lemma carries_cipher: "cipher.carries C B A J t sh = carries_share C B J t sh"
  unfolding cipher.carries_def carries_share_def by (simp add: cipher_round_protocol_def)

text \<open>
  What the properties say of the shares a message may carry.  A BZ03 share that is tagged with
  another group than the key's makes \<open>verify_share\<close> panic (\<open>share_tag_ok\<close> excludes it), and so does
  one whose identifier is not a party's (\<open>share_id_in_range\<close>).  The point of a BZ03 share may be
  outside the subgroup of the generator (\<open>share_in_subgroup\<close> fails), which the code does not check.
  Of a share of the other scheme nothing is said.
\<close>

fun share_tag_ok :: "group \<Rightarrow> 'p decryption_share \<Rightarrow> bool" where
  "share_tag_ok g (DsBz03 s) = (bz03sh_group s = g \<and> ge_group (bz03sh_data s) = g)"
| "share_tag_ok g (DsSg02 s) = True"

fun share_in_subgroup :: "'p curve_backend \<Rightarrow> group \<Rightarrow> 'p decryption_share \<Rightarrow> bool" where
  "share_in_subgroup B g (DsBz03 s) = in_subgroup B g 1 (bz03sh_data s)"
| "share_in_subgroup B g (DsSg02 s) = True"

fun share_id_in_range :: "nat \<Rightarrow> 'p decryption_share \<Rightarrow> bool" where
  "share_id_in_range n sh = (0 < uint (ds_get_id sh) \<and> uint (ds_get_id sh) \<le> int n)"

lemma unwrap_bz03:
  assumes "\<forall>sh\<in>set shs. \<exists>s. sh = DsBz03 s"
  obtains ss where "shs = map DsBz03 ss" "unwrap_enum_vec ds_bz03 e shs = Ok ss"
proof -
  have "\<exists>ss. shs = map DsBz03 ss \<and> unwrap_enum_vec ds_bz03 e shs = Ok ss" using assms
  proof (induction shs)
    case (Cons sh shs)
    then obtain ss s where "shs = map DsBz03 ss" "unwrap_enum_vec ds_bz03 e shs = Ok ss" "sh = DsBz03 s" by auto
    then show ?case by (intro exI [of _ "s # ss"]) simp
  qed simp
  then show thesis using that by blast
qed

text \<open>The facts of a BZ03 deployment that the properties of runs use.\<close>

definition bz03_deployment ::
  "codec \<Rightarrow> 'p curve_backend \<Rightarrow> aead \<Rightarrow> group \<Rightarrow> nat \<Rightarrow> nat \<Rightarrow> int \<Rightarrow> (nat \<Rightarrow> int) \<Rightarrow> 'p bz03_private_key list \<Rightarrow> bool" where
  "bz03_deployment C B A g k n x rnd keys =
     (curve_ok B g 0 \<and> curve_ok B g 1 \<and> pairing_ok B g \<and> codec_ok C \<and> aead_ok A \<and> point_codec_ok B g 1
      \<and> 0 < k \<and> k \<le> n \<and> n \<le> 65535 \<and> int n < cb_order B g
      \<and> draws_ok (cb_order B g) rnd \<and> 0 \<le> x \<and> x < cb_order B g
      \<and> bz03_generate_keys C B k n g x rnd = Some (Ok keys))"

lemma bz03_deploymentE:
  assumes "bz03_deployment C B A g k n x rnd keys"
  obtains pk where "dl_key_ok B g 1 (shamir_poly x k rnd) n pk" "dlpk_k pk = of_nat k"
    "keys = map (party_key B (shamir_poly x k rnd) pk) [0..<n]"
  using bz03_generate_keys_ok [of B g C k rnd x n] assms that by (auto simp: bz03_deployment_def)

definition enc_ok :: "bytes \<Rightarrow> enc_draws \<Rightarrow> bool" where
  "enc_ok msg d = (0 \<le> ed_r d \<and> length (ed_symm_key d) = 32 \<and> length msg < 2 ^ 36)"

lemma bz03_party_facts:
  assumes dep: "bz03_deployment C B A g k n x rnd keys" and j: "j < n" and enc: "enc_ok msg d"
    and ct: "tc_encrypt B A msg label (PkBz03 (dlsk_pubkey (keys ! j))) d = Some (Ok ct)"
  obtains pk ct' where "ct = CtBz03 ct'" "dl_key_ok B g 1 (shamir_poly x k rnd) n pk" "dlsk_pubkey (keys ! j) = pk"
    "dlpk_k pk = of_nat k" "keys ! j = party_key B (shamir_poly x k rnd) pk j"
    "bz03_verify_ciphertext B ct' pk = Some (Ok True)" "bz03ct_u ct' = gpow B g 1 (ed_r d)"
    "\<And>shares. k \<le> length shares \<Longrightarrow> distinct (map bz03sh_id shares) \<Longrightarrow>
       \<forall>sh\<in>set shares. in_subgroup B g 1 (bz03sh_data sh)
         \<and> bz03_verify_share B sh ct' pk = Some (Ok True) \<Longrightarrow> bz03_assemble B A shares ct' = Some (Ok msg)"
proof -
  obtain pk where pk: "dl_key_ok B g 1 (shamir_poly x k rnd) n pk" "dlpk_k pk = of_nat k"
    "keys = map (party_key B (shamir_poly x k rnd) pk) [0..<n]" using bz03_deploymentE [OF dep] .
  then have kj: "keys ! j = party_key B (shamir_poly x k rnd) pk j" using j by simp
  have d: "curve_ok B g 0" "curve_ok B g 1" "pairing_ok B g" "aead_ok A" "0 < k" "int n < cb_order B g"
    using dep by (simp_all add: bz03_deployment_def)
  obtain ct' where ct': "bz03_encrypt B A msg label pk (ed_r d) (ed_symm_key d) = Some ct'"
      "bz03_verify_ciphertext B ct' pk = Some (Ok True)" "bz03ct_u ct' = gpow B g 1 (ed_r d)"
      "\<forall>shares. k \<le> length shares \<and> distinct (map bz03sh_id shares)
         \<and> (\<forall>sh\<in>set shares. in_subgroup B g 1 (bz03sh_data sh)
              \<and> bz03_verify_share B sh ct' pk = Some (Ok True))
        \<longrightarrow> bz03_assemble B A shares ct' = Some (Ok msg)"
    using bz03_cipher_core [OF d pk(1), of "ed_r d" "ed_symm_key d" msg label] enc unfolding enc_ok_def by blast
  then have "ct = CtBz03 ct'" using ct kj by simp
  from that [OF this pk(1) _ pk(2) kj ct'(2,3)] ct'(4) kj show thesis by simp
qed

lemma cp_new_fresh: "cipher.fresh (sk, ct) (cp_new sk ct iid)"
  unfolding cipher.fresh_def by (simp add: cp_new_def cp_ctx_def)

text \<open>Shares that assemble to the message: verified and in the subgroup.\<close>

fun good_share :: "'p curve_backend \<Rightarrow> group \<Rightarrow> 'p bz03_ciphertext \<Rightarrow> 'p bz03_public_key \<Rightarrow> 'p decryption_share \<Rightarrow> bool" where
  "good_share B g ct pk (DsBz03 s) = (in_subgroup B g 1 (bz03sh_data s)
     \<and> bz03_verify_share B s ct pk = Some (Ok True))"
| "good_share B g ct pk (DsSg02 s) = False"

lemma good_shareI:
  "share_in_subgroup B g sh \<Longrightarrow> cp_check B (SkBz03 sk, CtBz03 ct) sh = Some (Ok True) \<Longrightarrow> good_share B g ct (dlsk_pubkey sk) sh"
  by (cases sh) (auto simp: cp_check_def)

lemma bz03_run_facts:
  assumes dep: "bz03_deployment C B A g k n x rnd keys" and j: "j < n" and enc: "enc_ok msg d"
    and ct: "tc_encrypt B A msg label (PkBz03 (dlsk_pubkey (keys ! j))) d = Some (Ok ct)"
  obtains ct' own where "ct = CtBz03 ct'"
    "\<And>d. cp_produce B (SkBz03 (keys ! j), ct) d = Some (Ok own)" "ds_get_id own = of_nat (j + 1)"
    "good_share B g ct' (dlsk_pubkey (keys ! j)) own"
    "\<And>m. dm_share m = Some own \<Longrightarrow> \<exists>n. rp_wrap (cipher_round_protocol C B A J) iid m = Some (Ok n)"
    "cp_threshold (SkBz03 (keys ! j), ct) = k"
    "\<And>shs. k \<le> length shs \<Longrightarrow> distinct (map ds_get_id shs) \<Longrightarrow>
       \<forall>sh\<in>set shs. good_share B g ct' (dlsk_pubkey (keys ! j)) sh \<Longrightarrow>
       cp_result B A (SkBz03 (keys ! j), ct) shs = Some (Ok msg)"
    "\<And>sh. share_tag_ok g sh \<Longrightarrow> share_id_in_range n sh \<Longrightarrow> cp_check B (SkBz03 (keys ! j), ct) sh \<noteq> None"
proof -
  obtain pk ct' where p: "ct = CtBz03 ct'" "dl_key_ok B g 1 (shamir_poly x k rnd) n pk" "dlsk_pubkey (keys ! j) = pk"
    "dlpk_k pk = of_nat k" "keys ! j = party_key B (shamir_poly x k rnd) pk j"
    "bz03_verify_ciphertext B ct' pk = Some (Ok True)" "bz03ct_u ct' = gpow B g 1 (ed_r d)"
    and asm: "\<And>shares. k \<le> length shares \<Longrightarrow> distinct (map bz03sh_id shares) \<Longrightarrow>
       \<forall>sh\<in>set shares. in_subgroup B g 1 (bz03sh_data sh)
         \<and> bz03_verify_share B sh ct' pk = Some (Ok True) \<Longrightarrow> bz03_assemble B A shares ct' = Some (Ok msg)"
    using bz03_party_facts [OF dep j enc ct] by metis
  let ?c = "(SkBz03 (keys ! j), ct)"
  have d: "curve_ok B g 0" "curve_ok B g 1" "pairing_ok B g" "codec_ok C" "point_codec_ok B g 1" "n \<le> 65535" "k \<le> n"
    using dep by (simp_all add: bz03_deployment_def)
  obtain own where own: "bz03_partial_decrypt B ct' (party_key B (shamir_poly x k rnd) pk j) = Some own"
      "bz03_verify_share B own ct' pk = Some (Ok True)" "bz03sh_id own = of_nat (j + 1)" "bz03sh_group own = g"
      "in_subgroup B g 1 (bz03sh_data own)"
    using bz03_honest_share [OF d(1-3) p(2) d(6) j p(7)] by blast
  have "ds_wf B (DsBz03 own)" using own(4,5) d by (auto simp: point_ok_def in_subgroup_def)
  then obtain b where b: "ds_to_bytes C B (DsBz03 own) = Some (Ok b)" using ds_roundtrip [OF d(4)] by blast
  show thesis
  proof (rule that [of ct' "DsBz03 own"])
    show "ct = CtBz03 ct'" by fact
    show "cp_produce B ?c d = Some (Ok (DsBz03 own))" for d
      using own(1) p by (simp add: cp_produce_def)
    show "ds_get_id (DsBz03 own) = of_nat (j + 1)" using own(3) by simp
    show "good_share B g ct' (dlsk_pubkey (keys ! j)) (DsBz03 own)" using own p(3) by simp
    show "\<exists>n. rp_wrap (cipher_round_protocol C B A J) iid m = Some (Ok n)" if "dm_share m = Some (DsBz03 own)" for m
      using dm_share_SomeD [OF that] b by (auto simp: cipher_round_protocol_def wrap_net_def)
    show "cp_threshold ?c = k" using d(6,7) p(3,4) by (simp add: cp_threshold_def sk_get_threshold_def unat_of_nat)
    show "cp_result B A ?c shs = Some (Ok msg)" if "k \<le> length shs" "distinct (map ds_get_id shs)"
      "\<forall>sh\<in>set shs. good_share B g ct' (dlsk_pubkey (keys ! j)) sh" for shs
    proof -
      have "\<forall>sh\<in>set shs. \<exists>s. sh = DsBz03 s" using that(3) good_share.elims(2) by metis
      then obtain ss where ss: "shs = map DsBz03 ss" "unwrap_enum_vec ds_bz03 WrongScheme shs = Ok ss"
        by (rule unwrap_bz03)
      have "bz03_assemble B A ss ct' = Some (Ok msg)"
        using that p(3) by (intro asm) (auto simp: ss(1) comp_def)
      then show ?thesis using ss p(1) by (simp add: cp_result_def)
    qed
    show "cp_check B ?c sh \<noteq> None" if "share_tag_ok g sh" "share_id_in_range n sh" for sh
      using that bz03_verify_share_total [OF d(1,3) p(2,7)] p(1,3) by (cases sh) (auto simp: cp_check_def)
  qed
qed

lemma bz03_run_returns:
  assumes dep: "bz03_deployment C B A g k n x rnd keys" and j: "j < n" and enc: "enc_ok msg d"
    and ct: "tc_encrypt B A msg label (PkBz03 (dlsk_pubkey (keys ! j))) d = Some (Ok ct)"
    and inbox: "list_all2 (cipher.carries C B A J) inbox shs" "shs \<noteq> []"
      "\<forall>sh\<in>set shs. share_tag_ok g sh \<and> share_id_in_range n sh"
    and enough: "k \<le> Suc (length (accepted_shares ds_get_id
      (cipher.ok B (SkBz03 (keys ! j), ct)) {of_nat (j + 1)} shs))"
  shows "(\<exists>ex. executor_run (cipher_round_protocol C B A J) draws iid (cp_new (SkBz03 (keys ! j)) ct iid) inbox closed
      = Some (ex, Returned (Ok msg)))
    \<or> (\<exists>sh\<in>set shs. tc_verify_share B sh ct (PkBz03 (dlsk_pubkey (keys ! j))) = Some (Ok True) \<and> \<not> share_in_subgroup B g sh)"
    (is "_ \<or> ?outside")
proof -
  let ?c = "(SkBz03 (keys ! j), ct)"
  obtain ct' own where f: "ct = CtBz03 ct'" "\<And>d. cp_produce B ?c d = Some (Ok own)" "ds_get_id own = of_nat (j + 1)"
    "good_share B g ct' (dlsk_pubkey (keys ! j)) own"
    "\<And>m. dm_share m = Some own \<Longrightarrow> \<exists>n. rp_wrap (cipher_round_protocol C B A J) iid m = Some (Ok n)" "cp_threshold ?c = k"
    and asm: "\<And>shs. k \<le> length shs \<Longrightarrow> distinct (map ds_get_id shs) \<Longrightarrow>
       \<forall>sh\<in>set shs. good_share B g ct' (dlsk_pubkey (keys ! j)) sh \<Longrightarrow> cp_result B A ?c shs = Some (Ok msg)"
    and chk: "\<And>sh. share_tag_ok g sh \<Longrightarrow> share_id_in_range n sh \<Longrightarrow> cp_check B ?c sh \<noteq> None"
    by (rule bz03_run_facts [OF dep j enc ct]) blast
  have en: "cp_threshold ?c \<le> Suc (length (accepted_shares ds_get_id (cipher.ok B ?c) {ds_get_id own} shs))"
    using enough f(3,6) by simp
  have c: "\<forall>sh\<in>set shs. cp_check B ?c sh \<noteq> None" using inbox(3) chk by blast
  from cipher.run_completes [of ?c "cp_new (SkBz03 (keys ! j)) ct iid" B draws own C A J iid inbox shs closed,
      OF cp_new_fresh f(2,5) inbox(1) c inbox(2) en]
  obtain vs where vs: "k \<le> length vs" "distinct (map ds_get_id vs)" "\<forall>sh\<in>set vs. sh = own \<or> sh \<in> set shs \<and> cipher.ok B ?c sh"
      "map_option snd (executor_run (cipher_round_protocol C B A J) draws iid (cp_new (SkBz03 (keys ! j)) ct iid) inbox closed)
        = map_option Returned (cp_result B A ?c vs)"
    using f(6) by auto
  have "good_share B g ct' (dlsk_pubkey (keys ! j)) sh" if "sh \<in> set vs" "\<not> ?outside" for sh
  proof (cases "sh = own")
    case False
    then have "sh \<in> set shs" "cp_check B ?c sh = Some (Ok True)" using vs(3) that unfolding cipher.ok_def by auto
    then show ?thesis using that(2) unfolding f(1) by (intro good_shareI) (auto simp: cp_check_def)
  qed (use f(4) in simp)
  then have "\<not> ?outside \<Longrightarrow> \<forall>sh\<in>set vs. good_share B g ct' (dlsk_pubkey (keys ! j)) sh" by blast
  from asm [OF vs(1,2) this] vs(4) show ?thesis by auto
qed

lemma bz03_run_plaintext:
  assumes dep: "bz03_deployment C B A g k n x rnd keys" and j: "j < n" and enc: "enc_ok msg d"
    and ct: "tc_encrypt B A msg label (PkBz03 (dlsk_pubkey (keys ! j))) d = Some (Ok ct)"
    and run: "executor_run (cipher_round_protocol C B A J) draws iid (cp_new (SkBz03 (keys ! j)) ct iid) inbox closed
      = Some (ex, Returned (Ok v))"
  shows "v = msg \<or> (\<exists>t\<in>set inbox. \<exists>sh. carries_share C B J t sh
    \<and> tc_verify_share B sh ct (PkBz03 (dlsk_pubkey (keys ! j))) = Some (Ok True) \<and> \<not> share_in_subgroup B g sh)"
    (is "_ \<or> ?outside")
proof -
  let ?c = "(SkBz03 (keys ! j), ct)"
  obtain ct' own where f: "ct = CtBz03 ct'" "\<And>d. cp_produce B ?c d = Some (Ok own)"
    "good_share B g ct' (dlsk_pubkey (keys ! j)) own" "cp_threshold ?c = k"
    and asm: "\<And>shs. k \<le> length shs \<Longrightarrow> distinct (map ds_get_id shs) \<Longrightarrow>
       \<forall>sh\<in>set shs. good_share B g ct' (dlsk_pubkey (keys ! j)) sh \<Longrightarrow> cp_result B A ?c shs = Some (Ok msg)"
    by (rule bz03_run_facts [OF dep j enc ct]) blast
  have "\<exists>t\<in>set inbox. carries_share C B J t sh" if "t \<in> set inbox" "rp_unwrap (cipher_round_protocol C B A J) t = Some (Ok m)"
      "dm_share m = Some sh" for t m sh
    using that by (auto simp: carries_share_def cipher_round_protocol_def)
  from cipher.run_result [OF cp_new_fresh run this]
  obtain shs where shs: "cp_threshold ?c \<le> length shs" "distinct (map ds_get_id shs)" "cp_result B A ?c shs = Some (Ok v)"
      "\<forall>sh\<in>set shs. (\<exists>t\<in>set inbox. carries_share C B J t sh) \<and> cp_check B ?c sh = Some (Ok True) \<or> sh = own"
    using f(2) by fastforce
  have "good_share B g ct' (dlsk_pubkey (keys ! j)) sh" if "sh \<in> set shs" "\<not> ?outside" for sh
  proof (cases "sh = own")
    case False
    then have s: "\<exists>t\<in>set inbox. carries_share C B J t sh" "cp_check B ?c sh = Some (Ok True)" using shs(4) that(1) by auto
    then have "share_in_subgroup B g sh" using that(2) by (auto simp: cp_check_def)
    then show ?thesis using s(2) unfolding f(1) by (rule good_shareI)
  qed (use f(3) in simp)
  then show ?thesis using asm shs f(4) by fastforce
qed

text \<open>
  C18.  Decryption yields no wrong plaintext but through a point outside the subgroup.  Whatever the
  network delivers to a party that runs the decryption of a BZ03 ciphertext of \<open>msg\<close> (forged,
  replayed, reordered, foreign or malformed messages, shares of other groups), a result that the
  executor returns is \<open>msg\<close>, or some message of the inbox carries a share that \<open>verify_share\<close>
  accepts although its point is outside the subgroup of the generator.
\<close>

theorem cipher_run_plaintext:
  assumes dep: "bz03_deployment C B A g k n x rnd keys" and j: "j < n" and enc: "enc_ok msg d"
    and ct: "tc_encrypt B A msg label (PkBz03 (dlsk_pubkey (keys ! j))) d = Some (Ok ct)"
    and run: "executor_run (cipher_round_protocol C B A J) draws iid (cp_new (SkBz03 (keys ! j)) ct iid) inbox closed
      = Some (ex, Returned (Ok v))"
  shows "v = msg \<or> (\<exists>t\<in>set inbox. \<exists>sh. carries_share C B J t sh
    \<and> tc_verify_share B sh ct (PkBz03 (dlsk_pubkey (keys ! j))) = Some (Ok True) \<and> \<not> share_in_subgroup B g sh)"
  by (rule bz03_run_plaintext [OF assms])

text \<open>
  C19.  Decryption completes once enough valid shares arrive.  Let at least one message arrive (a
  party whose own share suffices finalizes only then), and let each message carry a share that names
  the key's group and a party's identifier (any other makes the task panic).  When the shares that come
  first under their identifier contain \<open>k - 1\<close> that \<open>verify_share\<close> accepts beside the party's own, the
  executor returns the message: it neither waits nor fails, unless an accepted share carries a point
  outside the subgroup of the generator.
\<close>

theorem cipher_run_completes:
  assumes dep: "bz03_deployment C B A g k n x rnd keys" and j: "j < n" and enc: "enc_ok msg d"
    and ct: "tc_encrypt B A msg label (PkBz03 (dlsk_pubkey (keys ! j))) d = Some (Ok ct)"
    and inbox: "list_all2 (carries_share C B J) inbox shs" "shs \<noteq> []"
      "\<forall>sh\<in>set shs. share_tag_ok g sh \<and> share_id_in_range n sh"
    and enough: "k \<le> Suc (length (accepted_shares ds_get_id
      (\<lambda>sh. tc_verify_share B sh ct (PkBz03 (dlsk_pubkey (keys ! j))) = Some (Ok True)) {of_nat (j + 1)} shs))"
  shows "(\<exists>ex. executor_run (cipher_round_protocol C B A J) draws iid (cp_new (SkBz03 (keys ! j)) ct iid) inbox closed
      = Some (ex, Returned (Ok msg)))
    \<or> (\<exists>sh\<in>set shs. tc_verify_share B sh ct (PkBz03 (dlsk_pubkey (keys ! j))) = Some (Ok True) \<and> \<not> share_in_subgroup B g sh)"
proof (rule bz03_run_returns [OF dep j enc ct _ inbox(2,3)])
  show "list_all2 (cipher.carries C B A J) inbox shs" using inbox(1) by (simp add: carries_cipher list_all2_mono)
  have "cipher.ok B (SkBz03 (keys ! j), ct) = (\<lambda>sh. tc_verify_share B sh ct (PkBz03 (dlsk_pubkey (keys ! j))) = Some (Ok True))"
    unfolding cipher.ok_def by (simp add: cp_check_def)
  then show "k \<le> Suc (length (accepted_shares ds_get_id (cipher.ok B (SkBz03 (keys ! j), ct)) {of_nat (j + 1)} shs))"
    using enough by simp
qed

lemma unat_in_range:
  fixes w :: u16
  assumes "0 < uint w" "uint w \<le> int n"
  shows "unat w \<in> {1..n}"
proof -
  have "uint w = int (unat w)" by simp
  then have "0 < int (unat w)" "int (unat w) \<le> int n" using assms by metis+
  then have "0 < unat w" "unat w \<le> n" unfolding of_nat_0_less_iff of_nat_le_iff .
  then show ?thesis by simp
qed

text \<open>Identifiers as words: different ones stay different, and the first share under an identifier is the first under its word.\<close>

lemma u16_ids:
  assumes "n \<le> 65535"
  shows "inj_on (of_nat :: nat \<Rightarrow> u16) {1..n}" "I \<subseteq> {1..n} \<Longrightarrow> card ((of_nat :: nat \<Rightarrow> u16) ` I) = card I"
proof -
  show inj: "inj_on (of_nat :: nat \<Rightarrow> u16) {1..n}" by (rule inj_onI) (use assms in \<open>auto simp: word_unat_eq_iff unat_of_nat\<close>)
  show "card ((of_nat :: nat \<Rightarrow> u16) ` I) = card I" if "I \<subseteq> {1..n}" by (intro card_image inj_on_subset [OF inj] that)
qed

lemma first_under_word:
  fixes h :: "'s \<Rightarrow> u16"
  assumes "\<forall>i\<in>I. \<exists>pre sh post. shs = pre @ sh # post \<and> unat (h sh) = i \<and> i \<notin> (unat \<circ> h) ` set pre \<and> P sh"
  shows "\<forall>i\<in>of_nat ` I. \<exists>pre sh post. shs = pre @ sh # post \<and> h sh = i \<and> i \<notin> h ` set pre \<and> P sh"
proof
  fix i :: u16 assume "i \<in> of_nat ` I"
  then obtain i' where i': "i' \<in> I" "i = of_nat i'" by auto
  from assms [rule_format, OF i'(1)] obtain pre sh post where
    p: "shs = pre @ sh # post" "unat (h sh) = i'" "i' \<notin> (unat \<circ> h) ` set pre" "P sh" by blast
  have e: "h sh = i" unfolding i'(2) p(2) [symmetric] by simp
  have "i \<notin> h ` set pre" using p(2,3) unfolding e [symmetric] by auto
  then show "\<exists>pre sh post. shs = pre @ sh # post \<and> h sh = i \<and> i \<notin> h ` set pre \<and> P sh" using p(1,4) e by blast
qed

text \<open>
  C20.  Forged shares can block a decryption for good.  A party records the identifier of a share
  before verifying it and ignores later shares with that identifier.  When for more than \<open>n - k\<close>
  identifiers the first share to arrive is invalid, the instance waits for ever on an open channel,
  even if every honest party's share arrives too.
\<close>

theorem forged_shares_block:
  assumes dep: "bz03_deployment C B A g k n x rnd keys" and j: "j < n" and enc: "enc_ok msg d"
    and ct: "tc_encrypt B A msg label (PkBz03 (dlsk_pubkey (keys ! j))) d = Some (Ok ct)"
    and inbox: "list_all2 (carries_share C B J) inbox shs"
      "\<forall>sh\<in>set shs. share_tag_ok g sh \<and> share_id_in_range n sh"
    and forged: "I \<subseteq> {1..n} - {j + 1}" "n < k + card I"
      "\<forall>i\<in>I. \<exists>pre sh post. shs = pre @ sh # post \<and> unat (ds_get_id sh) = i \<and> i \<notin> (unat \<circ> ds_get_id) ` set pre
         \<and> tc_verify_share B sh ct (PkBz03 (dlsk_pubkey (keys ! j))) \<noteq> Some (Ok True)"
  shows "\<exists>ex. executor_run (cipher_round_protocol C B A J) draws iid (cp_new (SkBz03 (keys ! j)) ct iid) inbox False
      = Some (ex, Waiting)"
proof -
  let ?c = "(SkBz03 (keys ! j), ct)" and ?w = "of_nat :: nat \<Rightarrow> u16"
  obtain ct' own where f: "\<And>d. cp_produce B ?c d = Some (Ok own)" "ds_get_id own = of_nat (j + 1)"
    "\<And>m. dm_share m = Some own \<Longrightarrow> \<exists>n. rp_wrap (cipher_round_protocol C B A J) iid m = Some (Ok n)" "cp_threshold ?c = k"
    and chk: "\<And>sh. share_tag_ok g sh \<Longrightarrow> share_id_in_range n sh \<Longrightarrow> cp_check B ?c sh \<noteq> None"
    by (rule bz03_run_facts [OF dep j enc ct]) blast
  have car: "list_all2 (cipher.carries C B A J) inbox shs" using inbox(1) by (simp add: carries_cipher list_all2_mono)
  have c: "\<forall>sh\<in>set shs. cp_check B ?c sh \<noteq> None" using inbox(2) chk by blast
  have n: "n \<le> 65535" using dep by (simp add: bz03_deployment_def)
  note inj = u16_ids(1) [OF n]
  have unw: "?w (unat w) = w" for w by simp
  show ?thesis
  proof (rule cipher.run_blocked [of ?c "cp_new (SkBz03 (keys ! j)) ct iid" B draws own C A J iid inbox shs "?w ` {1..n}" "?w ` I",
        OF cp_new_fresh f(1,3) car c])
    show "finite (?w ` {1..n})" by simp
    show "ds_get_id own \<in> ?w ` {1..n}" using j f(2) by (intro image_eqI [of _ _ "j + 1"]) simp_all
    show "\<forall>sh\<in>set shs. ds_get_id sh \<in> ?w ` {1..n}"
    proof
      fix sh assume "sh \<in> set shs"
      then have "0 < uint (ds_get_id sh)" "uint (ds_get_id sh) \<le> int n" using inbox(2) by auto
      then have "unat (ds_get_id sh) \<in> {1..n}" by (rule unat_in_range)
      then show "ds_get_id sh \<in> ?w ` {1..n}" using unw image_eqI by metis
    qed
    show "?w ` I \<subseteq> ?w ` {1..n}" using forged(1) by auto
    show "ds_get_id own \<notin> ?w ` I"
    proof
      assume "ds_get_id own \<in> ?w ` I"
      then obtain i where i: "i \<in> I" "?w (j + 1) = ?w i" unfolding f(2) by auto
      have "j + 1 \<in> {1..n}" "i \<in> {1..n}" using j i(1) forged(1) by auto
      from inj_onD [OF inj i(2) this] show False using i(1) forged(1) by auto
    qed
    have "card (?w ` I) = card I" using forged(1) by (intro u16_ids(2) [OF n]) auto
    moreover have "card (?w ` {1..n}) = n" using card_image [OF inj] by simp
    ultimately show "card (?w ` {1..n}) < cp_threshold ?c + card (?w ` I)" using forged(2) f(4) by simp
    show "\<forall>i\<in>?w ` I. \<exists>pre sh post. shs = pre @ sh # post \<and> ds_get_id sh = i \<and> i \<notin> ds_get_id ` set pre
        \<and> \<not> cipher.ok B ?c sh"
      using first_under_word [OF forged(3)] unfolding cipher.ok_def by (simp add: cp_check_def)
  qed
qed

text \<open>
  A threshold of one is noticed only with a message.  With \<open>k = 1\<close> a party's own share suffices and its protocol
  is ready to finalize, but the executor asks only after a message has arrived: without one the
  instance waits, and when the channel closes it fails with \<open>NotFinished\<close>.  In the whole system the
  network manager returns the party's own message to it, which is that message.
\<close>

theorem single_share_not_finalized:
  assumes dep: "bz03_deployment C B A g 1 n x rnd keys" and j: "j < n" and enc: "enc_ok msg d"
    and ct: "tc_encrypt B A msg label (PkBz03 (dlsk_pubkey (keys ! j))) d = Some (Ok ct)"
  shows "\<exists>ex ex'. executor_run (cipher_round_protocol C B A J) draws iid (cp_new (SkBz03 (keys ! j)) ct iid) [] False
      = Some (ex, Waiting) \<and> cp_is_ready (ex_protocol ex)
    \<and> executor_run (cipher_round_protocol C B A J) draws iid (cp_new (SkBz03 (keys ! j)) ct iid) [] True
      = Some (ex', Returned (Err NotFinished))"
proof -
  let ?c = "(SkBz03 (keys ! j), ct)"
  obtain ct' own where f: "\<And>d. cp_produce B ?c d = Some (Ok own)"
    "\<And>m. dm_share m = Some own \<Longrightarrow> \<exists>n. rp_wrap (cipher_round_protocol C B A J) iid m = Some (Ok n)" "cp_threshold ?c = 1"
    by (rule bz03_run_facts [OF dep j enc ct]) blast
  note start = cipher.run_start [of ?c "cp_new (SkBz03 (keys ! j)) ct iid" B draws own C A J iid "[]", OF cp_new_fresh f(1,2)]
  from start [of False] start [of True] show ?thesis using f(3)
    by (auto simp: cp_is_ready_def cp_threshold_def cp_ctx_def)
qed

subsection \<open>A deployment of three parties\<close>

lemma toy_deployment:
  assumes "0 < k" "k \<le> 3"
  obtains keys ct where "bz03_deployment unary_codec z11_backend plain_aead Bn254 k 3 5 (\<lambda>_. 3) keys"
    "enc_ok [104, 105] \<lparr>ed_r = 4, ed_symm_key = replicate 32 7, ed_s = 0\<rparr>"
    "tc_encrypt z11_backend plain_aead [104, 105] [1] (PkBz03 (dlsk_pubkey (keys ! 0)))
       \<lparr>ed_r = 4, ed_symm_key = replicate 32 7, ed_s = 0\<rparr> = Some (Ok (CtBz03 ct))"
    "\<exists>own. bz03_partial_decrypt z11_backend ct (keys ! 2) = Some own \<and> bz03sh_id own = 3 \<and> bz03sh_group own = Bn254
       \<and> in_subgroup z11_backend Bn254 1 (bz03sh_data own)
       \<and> bz03_verify_share z11_backend own ct (dlsk_pubkey (keys ! 0)) = Some (Ok True)"
proof -
  let ?f = "shamir_poly 5 k (\<lambda>_. 3)"
  have c: "curve_ok z11_backend Bn254 0" "curve_ok z11_backend Bn254 1" "pairing_ok z11_backend Bn254"
    by (simp_all add: z11_ok)
  have d: "draws_ok (cb_order z11_backend Bn254) (\<lambda>_. 3)" by (simp add: draws_ok_def)
  obtain pk where pk: "bz03_generate_keys unary_codec z11_backend k 3 Bn254 5 (\<lambda>_. 3)
      = Some (Ok (map (party_key z11_backend ?f pk) [0..<3]))" "dl_key_ok z11_backend Bn254 1 ?f 3 pk"
    using bz03_generate_keys_ok [OF c(1,2) unary_codec_ok assms(1) d, of 5 3] by auto
  obtain ct where ct: "bz03_encrypt z11_backend plain_aead [104, 105] [1] pk 4 (replicate 32 7) = Some ct"
      "bz03ct_u ct = gpow z11_backend Bn254 1 4"
    using bz03_cipher_core [OF c plain_aead_ok assms(1) _ pk(2), of 4 "replicate 32 7" "[104, 105]" "[1]"] by auto
  have kk: "map (party_key z11_backend ?f pk) [0..<3] ! 2 = party_key z11_backend ?f pk 2"
    "dlsk_pubkey (map (party_key z11_backend ?f pk) [0..<3] ! 0) = pk" by simp_all
  show thesis
  proof (rule that)
    show "bz03_deployment unary_codec z11_backend plain_aead Bn254 k 3 5 (\<lambda>_. 3) (map (party_key z11_backend ?f pk) [0..<3])"
      using c d pk assms unary_codec_ok plain_aead_ok z11_ok by (simp add: bz03_deployment_def)
    show "\<exists>own. bz03_partial_decrypt z11_backend ct (map (party_key z11_backend ?f pk) [0..<3] ! 2) = Some own \<and> bz03sh_id own = 3
       \<and> bz03sh_group own = Bn254 \<and> in_subgroup z11_backend Bn254 1 (bz03sh_data own)
       \<and> bz03_verify_share z11_backend own ct (dlsk_pubkey (map (party_key z11_backend ?f pk) [0..<3] ! 0)) = Some (Ok True)"
      using bz03_honest_share [OF c pk(2) _ _ ct(2), of 2] unfolding kk by auto
  qed (use ct(1) in \<open>simp_all add: enc_ok_def\<close>)
qed

text \<open>A channel on which every message carries the share encoded as \<open>b\<close>.\<close>

definition same_json :: "bytes \<Rightarrow> bytes \<Rightarrow> decryption_wire json" where
  "same_json b b' = \<lparr>js_write = (\<lambda>_. []), js_parse = (\<lambda>x. Some (WDecShare (if x = [] then b else b') 0))\<rparr>"

definition data_message :: "bytes \<Rightarrow> net_message" where
  "data_message b = \<lparr>nm_instance_id = [1], nm_metadata = metadata_new Gossip, nm_message_data = b\<rparr>"

lemma same_json_carries:
  assumes "ds_from_bytes C B b = Some (Ok sh)" "ds_from_bytes C B b' = Some (Ok sh')"
  shows "carries_share C B (same_json b b') (data_message []) sh"
    "carries_share C B (same_json b b') (data_message [50]) sh'"
  using assms by (auto simp: carries_share_def unwrap_net_def same_json_def data_message_def)

lemma toy_cipher_run:
  obtains keys ct own b where "bz03_deployment unary_codec z11_backend plain_aead Bn254 2 3 5 (\<lambda>_. 3) keys"
    "enc_ok [104, 105] \<lparr>ed_r = 4, ed_symm_key = replicate 32 7, ed_s = 0\<rparr>"
    "tc_encrypt z11_backend plain_aead [104, 105] [1] (PkBz03 (dlsk_pubkey (keys ! 0)))
       \<lparr>ed_r = 4, ed_symm_key = replicate 32 7, ed_s = 0\<rparr> = Some (Ok ct)"
    "list_all2 (carries_share unary_codec z11_backend (same_json b b)) [data_message []] [own]"
    "\<forall>sh\<in>set [own]. share_tag_ok Bn254 sh \<and> share_in_subgroup z11_backend Bn254 sh \<and> share_id_in_range 3 sh"
    "2 \<le> Suc (length (accepted_shares ds_get_id
       (\<lambda>sh. tc_verify_share z11_backend sh ct (PkBz03 (dlsk_pubkey (keys ! 0))) = Some (Ok True)) {of_nat (0 + 1)} [own]))"
proof (rule toy_deployment [of 2])
  fix keys ct
  assume d: "bz03_deployment unary_codec z11_backend plain_aead Bn254 2 3 5 (\<lambda>_. 3) keys"
    "enc_ok [104, 105] \<lparr>ed_r = 4, ed_symm_key = replicate 32 7, ed_s = 0\<rparr>"
    "tc_encrypt z11_backend plain_aead [104, 105] [1] (PkBz03 (dlsk_pubkey (keys ! 0)))
       \<lparr>ed_r = 4, ed_symm_key = replicate 32 7, ed_s = 0\<rparr> = Some (Ok (CtBz03 ct))"
    "\<exists>own. bz03_partial_decrypt z11_backend ct (keys ! 2) = Some own \<and> bz03sh_id own = 3 \<and> bz03sh_group own = Bn254
       \<and> in_subgroup z11_backend Bn254 1 (bz03sh_data own)
       \<and> bz03_verify_share z11_backend own ct (dlsk_pubkey (keys ! 0)) = Some (Ok True)"
  then obtain own where o: "bz03sh_id own = 3" "bz03sh_group own = Bn254" "in_subgroup z11_backend Bn254 1 (bz03sh_data own)"
    "bz03_verify_share z11_backend own ct (dlsk_pubkey (keys ! 0)) = Some (Ok True)" by blast
  have "ds_wf z11_backend (DsBz03 own)" using o(2,3) by (auto simp: point_ok_def z11_ok in_subgroup_def)
  then obtain b where b: "ds_from_bytes unary_codec z11_backend b = Some (Ok (DsBz03 own))"
    using ds_roundtrip [OF unary_codec_ok] by blast
  show thesis
    by (rule that [OF d(1-3), of b "DsBz03 own"]) (use same_json_carries [OF b b] o in \<open>auto dest: in_subgroup_sel\<close>)
qed auto

theorem cipher_run_completes_witness:
  "\<exists>keys ct J ex. bz03_deployment unary_codec z11_backend plain_aead Bn254 2 3 5 (\<lambda>_. 3) keys
   \<and> executor_run (cipher_round_protocol unary_codec z11_backend plain_aead J) (\<lambda>_. 0) [9]
       (cp_new (SkBz03 (keys ! 0)) ct [9]) [data_message []] False = Some (ex, Returned (Ok [104, 105]))"
proof (rule toy_cipher_run)
  fix keys ct own b
  assume d: "bz03_deployment unary_codec z11_backend plain_aead Bn254 2 3 5 (\<lambda>_. 3) keys"
    "enc_ok [104, 105] \<lparr>ed_r = 4, ed_symm_key = replicate 32 7, ed_s = 0\<rparr>"
    "tc_encrypt z11_backend plain_aead [104, 105] [1] (PkBz03 (dlsk_pubkey (keys ! 0)))
       \<lparr>ed_r = 4, ed_symm_key = replicate 32 7, ed_s = 0\<rparr> = Some (Ok ct)"
    "list_all2 (carries_share unary_codec z11_backend (same_json b b)) [data_message []] [own]"
    "\<forall>sh\<in>set [own]. share_tag_ok Bn254 sh \<and> share_in_subgroup z11_backend Bn254 sh \<and> share_id_in_range 3 sh"
    "2 \<le> Suc (length (accepted_shares ds_get_id
       (\<lambda>sh. tc_verify_share z11_backend sh ct (PkBz03 (dlsk_pubkey (keys ! 0))) = Some (Ok True)) {of_nat (0 + 1)} [own]))"
  have z: "(0::nat) < 3" "[own] \<noteq> []" "\<forall>sh\<in>set [own]. share_tag_ok Bn254 sh \<and> share_id_in_range 3 sh"
    using d(5) by simp_all
  from cipher_run_completes [OF d(1) z(1) d(2-4) z(2,3) d(6), of "\<lambda>_. 0" "[9]" False] d(1,5) show ?thesis by auto
qed

theorem cipher_run_plaintext_witness:
  "\<exists>keys ct J ex v. bz03_deployment unary_codec z11_backend plain_aead Bn254 2 3 5 (\<lambda>_. 3) keys
   \<and> executor_run (cipher_round_protocol unary_codec z11_backend plain_aead J) (\<lambda>_. 0) [9]
       (cp_new (SkBz03 (keys ! 0)) ct [9]) [data_message []] False = Some (ex, Returned (Ok v)) \<and> v = [104, 105]"
proof (rule toy_cipher_run)
  fix keys ct own b
  let ?J = "same_json b b"
  assume d: "bz03_deployment unary_codec z11_backend plain_aead Bn254 2 3 5 (\<lambda>_. 3) keys"
    "enc_ok [104, 105] \<lparr>ed_r = 4, ed_symm_key = replicate 32 7, ed_s = 0\<rparr>"
    "tc_encrypt z11_backend plain_aead [104, 105] [1] (PkBz03 (dlsk_pubkey (keys ! 0)))
       \<lparr>ed_r = 4, ed_symm_key = replicate 32 7, ed_s = 0\<rparr> = Some (Ok ct)"
    "list_all2 (carries_share unary_codec z11_backend ?J) [data_message []] [own]"
    "\<forall>sh\<in>set [own]. share_tag_ok Bn254 sh \<and> share_in_subgroup z11_backend Bn254 sh \<and> share_id_in_range 3 sh"
    "2 \<le> Suc (length (accepted_shares ds_get_id
       (\<lambda>sh. tc_verify_share z11_backend sh ct (PkBz03 (dlsk_pubkey (keys ! 0))) = Some (Ok True)) {of_nat (0 + 1)} [own]))"
  have z: "(0::nat) < 3" "[own] \<noteq> []" "\<forall>sh\<in>set [own]. share_tag_ok Bn254 sh \<and> share_id_in_range 3 sh"
    using d(5) by simp_all
  have car: "list_all2 (cipher.carries unary_codec z11_backend plain_aead ?J) [data_message []] [own]"
    using d(4) by (simp add: carries_cipher)
  have "2 \<le> Suc (length (accepted_shares ds_get_id (cipher.ok z11_backend (SkBz03 (keys ! 0), ct)) {of_nat (0 + 1)} [own]))"
    using d(6) unfolding cipher.ok_def by (simp add: cp_check_def)
  from bz03_run_returns [OF d(1) z(1) d(2,3) car z(2,3) this, of "\<lambda>_. 0" "[9]" False] d(5)
  obtain ex v where run: "executor_run (cipher_round_protocol unary_codec z11_backend plain_aead ?J) (\<lambda>_. 0) [9]
       (cp_new (SkBz03 (keys ! 0)) ct [9]) [data_message []] False = Some (ex, Returned (Ok v))" by auto
  have "share_in_subgroup z11_backend Bn254 sh" if "carries_share unary_codec z11_backend ?J (data_message []) sh" for sh
    using that d(4,5) by (auto simp: carries_share_def)
  then have "v = [104, 105]" using cipher_run_plaintext [OF d(1) z(1) d(2,3) run] by auto
  then show ?thesis using d(1) run by blast
qed

theorem single_share_not_finalized_witness:
  "\<exists>keys ct ex ex'. bz03_deployment unary_codec z11_backend plain_aead Bn254 1 3 5 (\<lambda>_. 3) keys
   \<and> executor_run (cipher_round_protocol unary_codec z11_backend plain_aead (same_json [] [])) (\<lambda>_. 0) [9]
       (cp_new (SkBz03 (keys ! 0)) ct [9]) [] False = Some (ex, Waiting) \<and> cp_is_ready (ex_protocol ex)
   \<and> executor_run (cipher_round_protocol unary_codec z11_backend plain_aead (same_json [] [])) (\<lambda>_. 0) [9]
       (cp_new (SkBz03 (keys ! 0)) ct [9]) [] True = Some (ex', Returned (Err NotFinished))"
proof (rule toy_deployment [of 1])
  fix keys ct
  assume d: "bz03_deployment unary_codec z11_backend plain_aead Bn254 1 3 5 (\<lambda>_. 3) keys"
    "enc_ok [104, 105] \<lparr>ed_r = 4, ed_symm_key = replicate 32 7, ed_s = 0\<rparr>"
    "tc_encrypt z11_backend plain_aead [104, 105] [1] (PkBz03 (dlsk_pubkey (keys ! 0)))
       \<lparr>ed_r = 4, ed_symm_key = replicate 32 7, ed_s = 0\<rparr> = Some (Ok (CtBz03 ct))"
  have "(0::nat) < 3" by simp
  from single_share_not_finalized [OF d(1) this d(2,3)] d(1) show ?thesis by blast
qed auto

text \<open>Two shares of the wrong scheme that claim to come from parties 2 and 3.\<close>

definition forged_share :: "u16 \<Rightarrow> int decryption_share" where
  "forged_share i = DsSg02 \<lparr>sg02sh_id = i, sg02sh_label = [], sg02sh_data = gpow z11_backend Bn254 0 1,
     sg02sh_ei = SBI Bn254 0, sg02sh_fi = SBI Bn254 0\<rparr>"

theorem forged_shares_block_witness:
  "\<exists>keys ct J ex. bz03_deployment unary_codec z11_backend plain_aead Bn254 2 3 5 (\<lambda>_. 3) keys
   \<and> list_all2 (carries_share unary_codec z11_backend J) [data_message [], data_message [50]] [forged_share 2, forged_share 3]
   \<and> executor_run (cipher_round_protocol unary_codec z11_backend plain_aead J) (\<lambda>_. 0) [9]
       (cp_new (SkBz03 (keys ! 0)) ct [9]) [data_message [], data_message [50]] False = Some (ex, Waiting)"
proof (rule toy_deployment [of 2])
  fix keys ct
  assume d: "bz03_deployment unary_codec z11_backend plain_aead Bn254 2 3 5 (\<lambda>_. 3) keys"
    "enc_ok [104, 105] \<lparr>ed_r = 4, ed_symm_key = replicate 32 7, ed_s = 0\<rparr>"
    "tc_encrypt z11_backend plain_aead [104, 105] [1] (PkBz03 (dlsk_pubkey (keys ! 0)))
       \<lparr>ed_r = 4, ed_symm_key = replicate 32 7, ed_s = 0\<rparr> = Some (Ok (CtBz03 ct))"
  have "ds_wf z11_backend (forged_share i)" for i
    by (auto simp: forged_share_def point_ok_def scalar_ok_def z11_ok ge_simps Let_def)
  then obtain b b' where "ds_from_bytes unary_codec z11_backend b = Some (Ok (forged_share 2))"
      "ds_from_bytes unary_codec z11_backend b' = Some (Ok (forged_share 3))"
    using ds_roundtrip [OF unary_codec_ok] by blast
  from same_json_carries [OF this]
  have car: "list_all2 (carries_share unary_codec z11_backend (same_json b b')) [data_message [], data_message [50]]
      [forged_share 2, forged_share 3]" by simp
  have r: "\<forall>sh\<in>set [forged_share 2, forged_share 3]. share_tag_ok Bn254 sh \<and> share_id_in_range 3 sh"
    by (simp add: forged_share_def)
  let ?bad = "\<lambda>sh. tc_verify_share z11_backend sh (CtBz03 ct) (PkBz03 (dlsk_pubkey (keys ! 0))) \<noteq> Some (Ok True)"
  have bad: "?bad (forged_share i)" for i by (simp add: forged_share_def)
  have "\<exists>pre sh post. [forged_share 2, forged_share 3] = pre @ sh # post \<and> unat (ds_get_id sh) = i
      \<and> i \<notin> (unat \<circ> ds_get_id) ` set pre \<and> ?bad sh" if "i \<in> {2, 3}" for i
  proof (cases "i = 2")
    case True
    then show ?thesis using bad [of 2] by (intro exI [of _ "[]"] exI [of _ "forged_share 2"] exI [of _ "[forged_share 3]"])
      (simp add: forged_share_def)
  next
    case False
    then show ?thesis using bad [of 3] that by (intro exI [of _ "[forged_share 2]"] exI [of _ "forged_share 3"] exI [of _ "[]"])
      (simp add: forged_share_def)
  qed
  then have f: "\<forall>i\<in>{2, 3}. \<exists>pre sh post. [forged_share 2, forged_share 3] = pre @ sh # post \<and> unat (ds_get_id sh) = i
      \<and> i \<notin> (unat \<circ> ds_get_id) ` set pre \<and> ?bad sh" by blast
  have s: "(0::nat) < 3" "{2, 3} \<subseteq> {1..3} - {0 + 1 :: nat}" "3 < 2 + card {2, 3 :: nat}" by auto
  from forged_shares_block [OF d(1) s(1) d(2,3) car r s(2,3) f] d(1) car show ?thesis by blast
qed auto

end
