(* ===== verification/QC_CoinProtocol.thy ===== *)
theory QC_CoinProtocol
  imports QC_ShareCollector QC_WireCodec
begin

text \<open>
  The threshold coin protocol (\<open>protocols/src/threshold_coin\<close>): messages, state and methods.  The draw
  of \<open>do_round\<close> is the nonce of the proof in a CKS05 share.  Like decryption it collects shares; all
  parties that collect honest shares obtain the same coin.
\<close>

datatype 'p coin_message = CoinShareMessage "'p coin_share" | CoinDefault

datatype coin_wire = WCoinShare bytes | WCoinDefault

fun cm_is_default :: "'p coin_message \<Rightarrow> bool" where
  "cm_is_default CoinDefault = True" | "cm_is_default (CoinShareMessage s) = False"

fun cm_to_wire :: "codec \<Rightarrow> 'p curve_backend \<Rightarrow> 'p coin_message \<Rightarrow> coin_wire may_panic" where
  "cm_to_wire C B (CoinShareMessage s) = do { r \<leftarrow> coin_to_bytes C B s; b \<leftarrow> unwrap r; Some (WCoinShare b) }"
| "cm_to_wire C B CoinDefault = Some WCoinDefault"

fun cm_from_wire ::
  "codec \<Rightarrow> 'p curve_backend \<Rightarrow> coin_wire \<Rightarrow> (scheme_error + 'p coin_message) may_panic" where
  "cm_from_wire C B (WCoinShare b) = map_option (map_sum (\<lambda>e. e) CoinShareMessage) (coin_from_bytes C B b)"
| "cm_from_wire C B WCoinDefault = Some (Ok CoinDefault)"

record 'p coin_protocol =
  cop_private_key :: "'p private_key_share"
  cop_name :: bytes
  cop_valid_shares :: "'p coin_share list"
  cop_finished :: bool
  cop_coin :: "u8 option"
  cop_received_share_ids :: "u16 set"

definition cop_new :: "'p private_key_share \<Rightarrow> bytes \<Rightarrow> 'p coin_protocol" where
  "cop_new sk name = \<lparr>cop_private_key = sk, cop_name = name, cop_valid_shares = [], cop_finished = False,
     cop_coin = None, cop_received_share_ids = {}\<rparr>"

definition cop_do_round ::
  "'p curve_backend \<Rightarrow> int \<Rightarrow> 'p coin_protocol \<Rightarrow> ('p coin_protocol \<times> (protocol_error + 'p coin_message)) may_panic" where
  "cop_do_round B d s = do {
     r \<leftarrow> coin_create_share B (cop_name s) (cop_private_key s) d;
     case r of
       Inl e \<Rightarrow> Some (s, Err (SchemeError e))
     | Inr share \<Rightarrow>
         Some (s\<lparr>cop_received_share_ids := insert (coin_get_id share) (cop_received_share_ids s),
                 cop_valid_shares := cop_valid_shares s @ [share]\<rparr>, Ok (CoinShareMessage share))
   }"

definition cop_is_ready :: "'p coin_protocol \<Rightarrow> bool" where
  "cop_is_ready s = (unat (sk_get_threshold (cop_private_key s)) \<le> length (cop_valid_shares s))"

definition cop_finalize ::
  "'p curve_backend \<Rightarrow> 'p coin_protocol \<Rightarrow> ('p coin_protocol \<times> (protocol_error + bytes)) may_panic" where
  "cop_finalize B s = do {
     r \<leftarrow> coin_assemble B (cop_valid_shares s);
     case r of
       Inl e \<Rightarrow> Some (s, Err (SchemeError e))
     | Inr v \<Rightarrow> Some (s\<lparr>cop_coin := Some v, cop_finished := True\<rparr>, Ok [v])
   }"

fun cop_update ::
  "'p curve_backend \<Rightarrow> 'p coin_protocol \<Rightarrow> 'p coin_message \<Rightarrow> ('p coin_protocol \<times> (protocol_error + unit)) may_panic" where
  "cop_update B s (CoinShareMessage share) =
     (if cop_finished s then Some (s, Ok ())
      else if coin_get_id share \<in> cop_received_share_ids s then Some (s, Ok ())
      else
        let s' = s\<lparr>cop_received_share_ids := insert (coin_get_id share) (cop_received_share_ids s)\<rparr> in
        do {
          r \<leftarrow> coin_verify_share B share (cop_name s) (sk_get_public_key (cop_private_key s));
          case r of
            Inl e \<Rightarrow> Some (s', Ok ())
          | Inr is_valid \<Rightarrow>
              if \<not> is_valid then Some (s', Ok ())
              else Some (s'\<lparr>cop_valid_shares := cop_valid_shares s @ [share]\<rparr>, Ok ())
        })"
| "cop_update B s CoinDefault = None"

definition coin_round_protocol ::
  "codec \<Rightarrow> 'p curve_backend \<Rightarrow> coin_wire json \<Rightarrow> ('p coin_protocol, 'p coin_message, int) round_protocol" where
  "coin_round_protocol C B J =
     \<lparr>rp_unwrap = unwrap_net J (cm_from_wire C B), rp_wrap = wrap_net J (cm_to_wire C B),
      rp_is_default = cm_is_default, rp_do_round = cop_do_round B,
      rp_is_ready_for_next_round = cop_is_ready, rp_is_ready_to_finalize = cop_is_ready,
      rp_finalize = cop_finalize B, rp_update = cop_update B\<rparr>"

subsection \<open>The protocol collects shares\<close>

type_synonym 'p coin_ctx = "'p private_key_share \<times> bytes"

definition cop_ctx :: "'p coin_protocol \<Rightarrow> 'p coin_ctx" where
  "cop_ctx s = (cop_private_key s, cop_name s)"

fun cm_share :: "'p coin_message \<Rightarrow> 'p coin_share option" where
  "cm_share (CoinShareMessage s) = Some s" | "cm_share CoinDefault = None"

definition cop_threshold :: "'p coin_ctx \<Rightarrow> nat" where
  "cop_threshold c = unat (sk_get_threshold (fst c))"

definition cop_check :: "'p curve_backend \<Rightarrow> 'p coin_ctx \<Rightarrow> 'p coin_share \<Rightarrow> (scheme_error + bool) may_panic" where
  "cop_check B c sh = coin_verify_share B sh (snd c) (sk_get_public_key (fst c))"

definition cop_produce :: "'p curve_backend \<Rightarrow> 'p coin_ctx \<Rightarrow> int \<Rightarrow> (protocol_error + 'p coin_share) may_panic" where
  "cop_produce B c d = map_option (map_sum SchemeError (\<lambda>x. x)) (coin_create_share B (snd c) (fst c) d)"

definition cop_result :: "'p curve_backend \<Rightarrow> 'p coin_ctx \<Rightarrow> 'p coin_share list \<Rightarrow> (protocol_error + bytes) may_panic" where
  "cop_result B c shs = map_option (map_sum SchemeError (\<lambda>b. [b])) (coin_assemble B shs)"

lemma cm_share_SomeD: "cm_share m = Some sh \<Longrightarrow> m = CoinShareMessage sh"
  by (cases m) auto

lemma cm_share_NoneD: "cm_share m = None \<Longrightarrow> m = CoinDefault"
  by (cases m) auto

lemma cop_do_round_eq:
  "cop_do_round B d s = map_option (\<lambda>p. case p of Inl e \<Rightarrow> (s, Err e)
     | Inr sh \<Rightarrow> (s\<lparr>cop_received_share_ids := insert (coin_get_id sh) (cop_received_share_ids s),
                    cop_valid_shares := cop_valid_shares s @ [sh]\<rparr>, Ok (CoinShareMessage sh)))
     (cop_produce B (cop_ctx s) d)"
  by (auto simp: cop_do_round_def cop_produce_def cop_ctx_def map_sum_def map_option_case
      split: Option.bind_split option.split sum.split)

interpretation coin: share_collector "coin_round_protocol C B J" cop_ctx cm_share cop_valid_shares
  cop_received_share_ids cop_finished coin_get_id cop_threshold "cop_check B" "cop_produce B" "cop_result B"
  for C :: codec and B :: "'p curve_backend" and J :: "coin_wire json"
proof (unfold_locales, goal_cases)
  case (6 m sh s r)
  then show ?case
    by (cases r) (auto simp: coin_round_protocol_def cop_ctx_def cop_check_def Let_def dest!: cm_share_SomeD)
next
  case (10 s)
  then show ?case
    by (cases "coin_assemble B (cop_valid_shares s)")
      (auto simp: coin_round_protocol_def cop_finalize_def cop_result_def split: sum.split)
qed (auto simp: cop_do_round_eq coin_round_protocol_def cop_is_ready_def cop_ctx_def cop_threshold_def cop_check_def
    dest!: cm_share_SomeD cm_share_NoneD)

subsection \<open>Runs with CKS05\<close>

definition carries_coin ::
  "codec \<Rightarrow> 'p curve_backend \<Rightarrow> coin_wire json \<Rightarrow> net_message \<Rightarrow> 'p coin_share \<Rightarrow> bool" where
  "carries_coin C B J t sh = (\<exists>m. unwrap_net J (cm_from_wire C B) t = Some (Ok m) \<and> cm_share m = Some sh)"

lemma carries_coin_iff: "coin.carries C B J t sh = carries_coin C B J t sh"
  unfolding coin.carries_def carries_coin_def by (simp add: coin_round_protocol_def)

definition cks05_deployment ::
  "codec \<Rightarrow> 'p curve_backend \<Rightarrow> group \<Rightarrow> nat \<Rightarrow> nat \<Rightarrow> int \<Rightarrow> (nat \<Rightarrow> int) \<Rightarrow> 'p cks05_private_key list \<Rightarrow> bool" where
  "cks05_deployment C B g k n x rnd keys =
     (curve_ok B g 0 \<and> codec_ok C \<and> 0 < k \<and> k \<le> n \<and> n \<le> 65535 \<and> int n < cb_order B g
      \<and> draws_ok (cb_order B g) rnd \<and> 0 \<le> x \<and> x < cb_order B g
      \<and> cks05_generate_keys C B k n g x rnd = Some (Ok keys))"

definition honest_coin :: "'p curve_backend \<Rightarrow> bytes \<Rightarrow> 'p cks05_private_key list \<Rightarrow> 'p coin_share \<Rightarrow> bool" where
  "honest_coin B name keys sh = (\<exists>i s. i < length keys \<and> 0 \<le> s
     \<and> coin_create_share B name (SkCks05 (keys ! i)) s = Some (Ok sh))"

text \<open>A share of party \<open>i\<close> as \<open>assemble\<close> needs it.\<close>

fun coin_of_party :: "'p curve_backend \<Rightarrow> group \<Rightarrow> bytes \<Rightarrow> (int \<Rightarrow> int) \<Rightarrow> nat \<Rightarrow> 'p coin_share \<Rightarrow> bool" where
  "coin_of_party B g name f n (CoinCks05 s) = (0 < uint (cks05sh_id s) \<and> uint (cks05sh_id s) \<le> int n
     \<and> cks05sh_data s = gpow B g 0 (hash_big g name * f (uint (cks05sh_id s))))"

lemma cks05_share_facts:
  assumes "curve_ok B g 0" "dl_key_ok B g 0 f n pk" "n \<le> 65535" "i < n" "0 \<le> s"
  obtains sh where "coin_create_share B name (SkCks05 (party_key B f pk i)) s = Some (Ok (CoinCks05 sh))"
    "cks05_verify_share B sh name pk = Some True" "cks05sh_id sh = of_nat (i + 1)"
    "coin_of_party B g name f n (CoinCks05 sh)"
proof -
  obtain sh where sh: "cks05_create_share B name (party_key B f pk i) s = Some sh"
      "cks05_verify_share B sh name pk = Some True" "cks05sh_id sh = of_nat (i + 1)"
      "cks05sh_data sh = gpow B g 0 (hash_big g name * f (int i + 1))"
    using cks05_create_share_eq [OF assms] by blast
  have "uint (cks05sh_id sh) = int i + 1" using sh(3) uint_share_id [OF assms(4,3)] by simp
  then show thesis using that [of sh] sh assms(4) by simp
qed

lemma cks05_share_wf:
  assumes ok: "curve_ok B g 0" "point_codec_ok B g 0" "cb_order B g \<le> 256 ^ modbytes g" "dl_key_ok B g 0 f n pk"
    and sh: "coin_create_share B name (SkCks05 (party_key B f pk i)) s = Some (Ok (CoinCks05 sh))"
      "coin_of_party B g name f n (CoinCks05 sh)"
  shows "coin_wf B (CoinCks05 sh)"
proof -
  let ?q = "ge_get_order B (gpow B g 0 (f 0))"
  have q: "sb_group ?q = g" "sb_val ?q = cb_order B g" using ok(1) by (simp_all add: ge_get_order_def ge_simps)
  have pk: "dlpk_group pk = g" "dlpk_y pk = gpow B g 0 (f 0)" using ok(4) by (simp_all add: dl_key_ok_def)
  have dl: "is_dl g" using curve_ok_dl [OF ok(1)] by simp
  obtain gen vk h c_bar d h_bar z0 where c: "ge_new B g = Some gen" "cks05_H1 B gen vk h c_bar d h_bar = Some (cks05sh_c sh)"
      and z: "sb_rmod z0 ?q = Some (cks05sh_z sh)"
    using sh(1) pk by (auto simp: cks05_create_share_def Let_def bind_eq_Some_conv)
  have "ge_group gen = g" using c(1) dl by (auto simp: ge_new_def)
  then have "scalar_ok g (cks05sh_c sh)" using c(2) by (auto simp: cks05_H1_def bind_eq_Some_conv intro: hash_to_big_ok)
  moreover have "scalar_ok g (cks05sh_z sh)" using sb_rmod_ok [OF z] q dl ok(3) curve_ok_pos [OF ok(1)] by simp
  ultimately show ?thesis using ok(1,2) sh(2) by (auto simp: point_ok_def Let_def ge_simps)
qed

lemma unwrap_coins: "\<exists>ss. shs = map CoinCks05 ss \<and> unwrap_enum_vec coin_cks05 e shs = Ok ss"
proof (induction shs)
  case (Cons sh shs)
  then obtain ss s where "shs = map CoinCks05 ss" "unwrap_enum_vec coin_cks05 e shs = Ok ss" "sh = CoinCks05 s"
    by (cases sh) auto
  then show ?case by (intro exI [of _ "s # ss"]) simp
qed simp

lemma honest_coin_good:
  assumes "curve_ok B g 0" "dl_key_ok B g 0 f n pk" "n \<le> 65535" "keys = map (party_key B f pk) [0..<n]"
    "honest_coin B name keys sh"
  shows "coin_of_party B g name f n sh \<and> coin_verify_share B sh name (PkCks05 pk) = Some (Ok True)"
proof -
  obtain i s where i: "i < length keys" "0 \<le> s" "coin_create_share B name (SkCks05 (keys ! i)) s = Some (Ok sh)"
    using assms(5) unfolding honest_coin_def by blast
  then have "i < n" "keys ! i = party_key B f pk i" by (simp_all add: assms(4))
  obtain sh' where "coin_create_share B name (SkCks05 (party_key B f pk i)) s = Some (Ok (CoinCks05 sh'))"
      "cks05_verify_share B sh' name pk = Some True" "coin_of_party B g name f n (CoinCks05 sh')"
    using cks05_share_facts [OF assms(1-3) \<open>i < n\<close> i(2), of name] by metis
  then show ?thesis using i(3) \<open>keys ! i = _\<close> by auto
qed

lemma coin_wrap_ok:
  assumes C: "codec_ok C" and ok: "curve_ok B g 0" "coin_of_party B g name f n (CoinCks05 own)"
    and m: "cm_share m = Some (CoinCks05 own)"
  shows "\<exists>t. rp_wrap (coin_round_protocol C B J) iid m = Some (Ok t)"
proof -
  let ?es = "[AU16 (cks05sh_id own), AGroup g, AOctets (cb_tobytes B g 0 (ge_val (cks05sh_data own))),
    AOctets (sb_to_bytes (cks05sh_c own)), AOctets (sb_to_bytes (cks05sh_z own))]"
  obtain b1 where b1: "write_seq C ?es = Ok b1" by (rule write_seq_okE [OF C, of ?es]) auto
  obtain b2 where b2: "write_seq C [AU8 (scheme_get_id Cks05), AOctets b1] = Ok b2"
    by (rule write_seq_okE [OF C, of "[AU8 (scheme_get_id Cks05), AOctets b1]"]) auto
  have "coin_to_bytes C B (CoinCks05 own) = Some (Ok b2)" using b1 b2 ok
    by (simp add: coin_to_bytes_def tagged_to_bytes_def cks05_share_to_bytes_def ge_simps write_seq_nested_def)
  then show ?thesis using cm_share_SomeD [OF m] by (simp add: coin_round_protocol_def wrap_net_def)
qed

text \<open>A party whose inbox carries honest shares of enough parties returns the coin on which all sets of parties agree.\<close>

lemma coin_party_run:
  assumes d: "curve_ok B g 0" "codec_ok C" "k \<le> n" "n \<le> 65535"
    and pk: "dl_key_ok B g 0 (shamir_poly x k rnd) n pk" "dlpk_k pk = of_nat k" "keys = map (party_key B (shamir_poly x k rnd) pk) [0..<n]"
    and asm: "\<And>shares. k \<le> length shares \<Longrightarrow> distinct (map cks05sh_id shares) \<Longrightarrow>
      \<forall>sh\<in>set shares. coin_of_party B g name (shamir_poly x k rnd) n (CoinCks05 sh) \<Longrightarrow> cks05_assemble B shares = Some b"
    and j: "j < n" "0 \<le> draws 0" and box: "list_all2 (carries_coin C B J) inbox shs" "shs \<noteq> []"
    and hon: "\<forall>sh\<in>set shs. honest_coin B name keys sh"
    and enough: "k \<le> card (insert (of_nat (j + 1)) (coin_get_id ` set shs))"
  shows "\<exists>ex. executor_run (coin_round_protocol C B J) draws iid (cop_new (SkCks05 (keys ! j)) name) inbox closed
    = Some (ex, Returned (Ok [b]))"
proof -
  let ?f = "shamir_poly x k rnd"
  let ?c = "(SkCks05 (keys ! j), name)"
  have kj: "keys ! j = party_key B ?f pk j" using pk(3) j(1) by simp
  obtain own where own: "coin_create_share B name (SkCks05 (keys ! j)) (draws 0) = Some (Ok (CoinCks05 own))"
      "cks05sh_id own = of_nat (j + 1)" "coin_of_party B g name ?f n (CoinCks05 own)"
    using cks05_share_facts [OF d(1) pk(1) d(4) j(1,2), of name] unfolding kj by metis
  have good: "coin_of_party B g name ?f n sh \<and> cop_check B ?c sh = Some (Ok True)" if "sh \<in> set shs" for sh
    using honest_coin_good [OF d(1) pk(1) d(4) pk(3)] hon that kj by (simp add: cop_check_def)
  have wrap: "\<exists>m. rp_wrap (coin_round_protocol C B J) iid m' = Some (Ok m)" if "cm_share m' = Some (CoinCks05 own)" for m'
    using coin_wrap_ok [OF d(2,1) own(3) that] .
  have fresh: "coin.fresh ?c (cop_new (SkCks05 (keys ! j)) name)"
    unfolding coin.fresh_def by (simp add: cop_new_def cop_ctx_def)
  have prod: "cop_produce B ?c (draws 0) = Some (Ok (CoinCks05 own))" using own(1) by (simp add: cop_produce_def)
  have car: "list_all2 (coin.carries C B J) inbox shs" using box(1) by (simp add: carries_coin_iff list_all2_mono)
  have chk: "\<forall>sh\<in>set shs. cop_check B ?c sh \<noteq> None" using good by auto
  have thr: "cop_threshold ?c = k"
    using d(3,4) pk(2) kj by (simp add: cop_threshold_def sk_get_threshold_def unat_of_nat)
  have "\<forall>sh\<in>set shs. coin.ok B ?c sh" using good unfolding coin.ok_def by blast
  note len = length_accepted_shares [OF this, of coin_get_id "{coin_get_id (CoinCks05 own)}"]
  have "card (insert (of_nat (j + 1)) (coin_get_id ` set shs)) = Suc (card (coin_get_id ` set shs - {of_nat (j + 1)}))"
    by (rule card.insert_remove) simp
  then have en: "cop_threshold ?c \<le> Suc (length (accepted_shares coin_get_id (coin.ok B ?c) {coin_get_id (CoinCks05 own)} shs))"
    using enough len thr own(2) by simp
  obtain vs where vs: "k \<le> length vs" "distinct (map coin_get_id vs)"
      "\<forall>sh\<in>set vs. sh = CoinCks05 own \<or> sh \<in> set shs \<and> coin.ok B ?c sh"
      "map_option snd (executor_run (coin_round_protocol C B J) draws iid (cop_new (SkCks05 (keys ! j)) name) inbox closed)
         = map_option Returned (cop_result B ?c vs)"
    using coin.run_completes [of ?c "cop_new (SkCks05 (keys ! j)) name" B draws "CoinCks05 own" C J iid inbox shs closed,
        OF fresh prod wrap car chk box(2) en] unfolding thr by blast
  obtain ss where ss: "vs = map CoinCks05 ss" "unwrap_enum_vec coin_cks05 WrongScheme vs = Ok ss"
    using unwrap_coins [of vs WrongScheme] by blast
  have "cks05_assemble B ss = Some b"
  proof (rule asm)
    show "k \<le> length ss" "distinct (map cks05sh_id ss)" using vs(1,2) by (simp_all add: ss(1) comp_def)
    have "coin_of_party B g name ?f n sh" if "sh \<in> set vs" for sh
      using vs(3) own(3) good [of sh] that by (cases "sh = CoinCks05 own") (auto simp del: coin_of_party.simps)
    then show "\<forall>sh\<in>set ss. coin_of_party B g name ?f n (CoinCks05 sh)" unfolding ss(1) by (auto simp del: coin_of_party.simps)
  qed
  then show ?thesis using vs(4) ss(2) by (auto simp: cop_result_def coin_assemble_def)
qed

text \<open>
  C22.  All parties that flip a coin see the same side.  For every name there is one bit such that
  each party whose inbox carries shares of honest parties, \<open>k\<close> different ones with its own, ends the
  protocol and returns that bit, whatever the order, the repetitions and the number of the messages.
\<close>

theorem coin_run_agreement:
  assumes dep: "cks05_deployment C B g k n x rnd keys"
  shows "\<exists>b. (b = 0 \<or> b = 1) \<and> (\<forall>j draws iid J inbox shs closed. j < n \<and> 0 \<le> draws 0
     \<and> list_all2 (carries_coin C B J) inbox shs \<and> shs \<noteq> [] \<and> (\<forall>sh\<in>set shs. honest_coin B name keys sh)
     \<and> k \<le> card (insert (of_nat (j + 1)) (coin_get_id ` set shs))
     \<longrightarrow> (\<exists>ex. executor_run (coin_round_protocol C B J) draws iid (cop_new (SkCks05 (keys ! j)) name) inbox closed
           = Some (ex, Returned (Ok [b]))))"
proof -
  let ?f = "shamir_poly x k rnd"
  have d: "curve_ok B g 0" "codec_ok C" "0 < k" "k \<le> n" "n \<le> 65535" "int n < cb_order B g"
    using dep by (simp_all add: cks05_deployment_def)
  obtain pk where pk: "dl_key_ok B g 0 ?f n pk" "dlpk_k pk = of_nat k" "keys = map (party_key B ?f pk) [0..<n]"
    using cks05_generate_keys_ok [of B g C k rnd x n] dep by (auto simp: cks05_deployment_def)
  obtain b where b: "b = 0 \<or> b = 1" and asm: "\<And>shares. k \<le> length shares \<Longrightarrow> distinct (map cks05sh_id shares) \<Longrightarrow>
      \<forall>sh\<in>set shares. coin_of_party B g name ?f n (CoinCks05 sh) \<Longrightarrow> cks05_assemble B shares = Some b"
    using cks05_assemble_core [OF d(1,3,6), of name x rnd] by auto
  have run: "\<exists>ex. executor_run (coin_round_protocol C B J) draws iid (cop_new (SkCks05 (keys ! j)) name) inbox closed = Some (ex, Returned (Ok [b]))"
    if "j < n" "0 \<le> draws 0" "list_all2 (carries_coin C B J) inbox shs" "shs \<noteq> []" "\<forall>sh\<in>set shs. honest_coin B name keys sh"
      "k \<le> card (insert (of_nat (j + 1)) (coin_get_id ` set shs))" for j draws iid J inbox shs closed
    by (rule coin_party_run [of B g C k n x rnd pk keys name b j draws, OF d(1,2,4,5) pk asm that])
  show ?thesis
  proof (intro exI [of _ b] conjI b allI impI)
    fix j and draws :: "nat \<Rightarrow> int" and iid J inbox shs closed
    assume "j < n \<and> 0 \<le> draws 0 \<and> list_all2 (carries_coin C B J) inbox shs \<and> shs \<noteq> [] \<and> (\<forall>sh\<in>set shs. honest_coin B name keys sh)
      \<and> k \<le> card (insert (of_nat (j + 1)) (coin_get_id ` set shs))"
    then show "\<exists>ex. executor_run (coin_round_protocol C B J) draws iid (cop_new (SkCks05 (keys ! j)) name) inbox closed = Some (ex, Returned (Ok [b]))"
      using run [of j draws J inbox shs iid closed] by simp
  qed
qed

text \<open>A deployment of three parties, and a channel that carries the share of the third.\<close>

definition coin_json :: "bytes \<Rightarrow> coin_wire json" where
  "coin_json b = \<lparr>js_write = (\<lambda>_. []), js_parse = (\<lambda>_. Some (WCoinShare b))\<rparr>"

lemma coin_json_carries:
  "coin_from_bytes C B b = Some (Ok sh) \<Longrightarrow> carries_coin C B (coin_json b) empty_message sh"
  by (simp add: carries_coin_def unwrap_net_def coin_json_def empty_message_def)

theorem coin_run_agreement_witness:
  "\<exists>keys J b ex. cks05_deployment unary_codec z11_backend Ed25519 2 3 5 (\<lambda>_. 3) keys \<and> (b = 0 \<or> b = 1)
   \<and> executor_run (coin_round_protocol unary_codec z11_backend J) (\<lambda>_. 7) [9] (cop_new (SkCks05 (keys ! 0)) [110])
       [empty_message] False = Some (ex, Returned (Ok [b]))"
proof -
  have c: "curve_ok z11_backend Ed25519 0" "point_codec_ok z11_backend Ed25519 0" by (simp_all add: z11_ok)
  have d: "draws_ok (cb_order z11_backend Ed25519) (\<lambda>_. 3)" by (simp add: draws_ok_def)
  let ?f = "shamir_poly 5 2 (\<lambda>_. 3)"
  obtain pk where pk: "dl_key_ok z11_backend Ed25519 0 ?f 3 pk" "cks05_generate_keys unary_codec z11_backend 2 3 Ed25519 5 (\<lambda>_. 3)
      = Some (Ok (map (party_key z11_backend ?f pk) [0..<3]))"
    using cks05_generate_keys_ok [OF c(1) unary_codec_ok _ d, of 2 5 3] by auto
  let ?keys = "map (party_key z11_backend ?f pk) [0..<3]"
  have dep: "cks05_deployment unary_codec z11_backend Ed25519 2 3 5 (\<lambda>_. 3) ?keys"
    using c d pk(2) unary_codec_ok by (simp add: cks05_deployment_def)
  have k2: "?keys ! 2 = party_key z11_backend ?f pk 2" by simp
  obtain sh where sh: "coin_create_share z11_backend [110] (SkCks05 (?keys ! 2)) 6 = Some (Ok (CoinCks05 sh))" "cks05sh_id sh = 3"
      "coin_of_party z11_backend Ed25519 [110] ?f 3 (CoinCks05 sh)"
    unfolding k2 by (rule cks05_share_facts [OF c(1) pk(1), of 2 6 "[110]"]) auto
  have hon: "honest_coin z11_backend [110] ?keys (CoinCks05 sh)" unfolding honest_coin_def
    using sh(1) by (intro exI [of _ 2] exI [of _ 6]) simp
  have "coin_wf z11_backend (CoinCks05 sh)"
    using cks05_share_wf [OF c _ pk(1) sh(1) [unfolded k2] sh(3)] order_11_bound [of Ed25519] by simp
  then obtain e where "coin_from_bytes unary_codec z11_backend e = Some (Ok (CoinCks05 sh))"
    using coin_roundtrip [OF unary_codec_ok] by blast
  note car = coin_json_carries [OF this]
  obtain b where b: "b = 0 \<or> b = 1" "\<forall>j draws iid J inbox shs closed. j < 3 \<and> 0 \<le> draws 0
     \<and> list_all2 (carries_coin unary_codec z11_backend J) inbox shs \<and> shs \<noteq> [] \<and> (\<forall>sh\<in>set shs. honest_coin z11_backend [110] ?keys sh)
     \<and> 2 \<le> card (insert (of_nat (j + 1)) (coin_get_id ` set shs))
     \<longrightarrow> (\<exists>ex. executor_run (coin_round_protocol unary_codec z11_backend J) draws iid (cop_new (SkCks05 (?keys ! j)) [110]) inbox closed
           = Some (ex, Returned (Ok [b])))"
    using coin_run_agreement [OF dep, of "[110]"] by blast
  have "\<exists>ex. executor_run (coin_round_protocol unary_codec z11_backend (coin_json e)) (\<lambda>_. 7) [9] (cop_new (SkCks05 (?keys ! 0)) [110])
      [empty_message] False = Some (ex, Returned (Ok [b]))"
    using b(2) [rule_format, of 0 "\<lambda>_. 7" "coin_json e" "[empty_message]" "[CoinCks05 sh]" "[9]" False] car hon sh(2) by simp
  then show ?thesis using dep b(1) by blast
qed

end
