(* ===== verification/QC_SignatureProtocol.thy ===== *)
theory QC_SignatureProtocol
  imports QC_ShareCollector QC_WireCodec
begin

text \<open>
  The threshold signature protocol (\<open>protocols/src/threshold_signature\<close>) of the non-interactive schemes
  BLS04 and SH00: messages, state and methods.  The draw of \<open>do_round\<close> is the nonce of the proof in an
  SH00 share, and GMP's Jacobi symbol is the parameter \<open>jac\<close>.  The message is optional in the state;
  the methods that need it panic without it.
\<close>

datatype 'p signature_message = SigShareMessage "'p signature_share" | SigDefault

datatype signature_wire = WSigShare bytes | WSigDefault

fun sm_is_default :: "'p signature_message \<Rightarrow> bool" where
  "sm_is_default SigDefault = True" | "sm_is_default (SigShareMessage s) = False"

fun sm_to_wire :: "codec \<Rightarrow> 'p curve_backend \<Rightarrow> 'p signature_message \<Rightarrow> signature_wire may_panic" where
  "sm_to_wire C B (SigShareMessage s) = do { r \<leftarrow> sh_to_bytes C B s; b \<leftarrow> unwrap r; Some (WSigShare b) }"
| "sm_to_wire C B SigDefault = Some WSigDefault"

fun sm_from_wire ::
  "codec \<Rightarrow> 'p curve_backend \<Rightarrow> signature_wire \<Rightarrow> (scheme_error + 'p signature_message) may_panic" where
  "sm_from_wire C B (WSigShare b) = map_option (map_sum (\<lambda>e. e) SigShareMessage) (sh_from_bytes C B b)"
| "sm_from_wire C B WSigDefault = Some (Ok SigDefault)"

record 'p signature_protocol =
  sp_private_key :: "'p private_key_share"
  sp_message :: "bytes option"
  sp_label :: bytes
  sp_valid_shares :: "'p signature_share list"
  sp_finished :: bool
  sp_signature :: "'p signature option"
  sp_received_share_ids :: "u16 set"

definition sp_new :: "'p private_key_share \<Rightarrow> bytes option \<Rightarrow> bytes \<Rightarrow> 'p signature_protocol" where
  "sp_new sk msg label = \<lparr>sp_private_key = sk, sp_message = msg, sp_label = label, sp_valid_shares = [],
     sp_finished = False, sp_signature = None, sp_received_share_ids = {}\<rparr>"

definition sp_do_round ::
  "'p curve_backend \<Rightarrow> (int \<Rightarrow> int \<Rightarrow> int) \<Rightarrow> int \<Rightarrow> 'p signature_protocol \<Rightarrow>
   ('p signature_protocol \<times> (protocol_error + 'p signature_message)) may_panic" where
  "sp_do_round B jac d s = do {
     msg \<leftarrow> sp_message s;
     r \<leftarrow> ts_partial_sign B jac msg (sp_label s) (sp_private_key s) d;
     case r of
       Inl e \<Rightarrow> Some (s, Err (SchemeError e))
     | Inr share \<Rightarrow>
         Some (s\<lparr>sp_received_share_ids := insert (sh_get_id share) (sp_received_share_ids s),
                 sp_valid_shares := sp_valid_shares s @ [share]\<rparr>, Ok (SigShareMessage share))
   }"

definition sp_is_ready :: "'p signature_protocol \<Rightarrow> bool" where
  "sp_is_ready s = (unat (sk_get_threshold (sp_private_key s)) \<le> length (sp_valid_shares s))"

definition sp_finalize ::
  "codec \<Rightarrow> 'p curve_backend \<Rightarrow> (int \<Rightarrow> int \<Rightarrow> int) \<Rightarrow> 'p signature_protocol \<Rightarrow>
   ('p signature_protocol \<times> (protocol_error + bytes)) may_panic" where
  "sp_finalize C B jac s = do {
     msg \<leftarrow> sp_message s;
     r \<leftarrow> ts_assemble B jac (sp_valid_shares s) msg (sk_get_public_key (sp_private_key s));
     case r of
       Inl e \<Rightarrow> Some (s, Err (SchemeError e))
     | Inr sig \<Rightarrow> do {
         w \<leftarrow> sig_to_bytes C B sig;
         b \<leftarrow> unwrap w;
         Some (s\<lparr>sp_signature := Some sig, sp_finished := True\<rparr>, Ok b)
       }
   }"

fun sp_update ::
  "'p curve_backend \<Rightarrow> (int \<Rightarrow> int \<Rightarrow> int) \<Rightarrow> 'p signature_protocol \<Rightarrow> 'p signature_message \<Rightarrow>
   ('p signature_protocol \<times> (protocol_error + unit)) may_panic" where
  "sp_update B jac s (SigShareMessage share) =
     (if sp_finished s then Some (s, Ok ())
      else if sh_get_id share \<in> sp_received_share_ids s then Some (s, Ok ())
      else
        let s' = s\<lparr>sp_received_share_ids := insert (sh_get_id share) (sp_received_share_ids s)\<rparr> in
        do {
          msg \<leftarrow> sp_message s;
          r \<leftarrow> ts_verify_share B jac share msg (sk_get_public_key (sp_private_key s));
          case r of
            Inl e \<Rightarrow> Some (s', Ok ())
          | Inr is_valid \<Rightarrow>
              if \<not> is_valid then Some (s', Ok ())
              else Some (s'\<lparr>sp_valid_shares := sp_valid_shares s @ [share]\<rparr>, Ok ())
        })"
| "sp_update B jac s SigDefault = None"

definition signature_round_protocol ::
  "codec \<Rightarrow> 'p curve_backend \<Rightarrow> (int \<Rightarrow> int \<Rightarrow> int) \<Rightarrow> signature_wire json \<Rightarrow>
   ('p signature_protocol, 'p signature_message, int) round_protocol" where
  "signature_round_protocol C B jac J =
     \<lparr>rp_unwrap = unwrap_net J (sm_from_wire C B), rp_wrap = wrap_net J (sm_to_wire C B),
      rp_is_default = sm_is_default, rp_do_round = sp_do_round B jac,
      rp_is_ready_for_next_round = sp_is_ready, rp_is_ready_to_finalize = sp_is_ready,
      rp_finalize = sp_finalize C B jac, rp_update = sp_update B jac\<rparr>"

subsection \<open>The protocol collects shares\<close>

type_synonym 'p signature_ctx = "'p private_key_share \<times> bytes option \<times> bytes"

definition sp_ctx :: "'p signature_protocol \<Rightarrow> 'p signature_ctx" where
  "sp_ctx s = (sp_private_key s, sp_message s, sp_label s)"

fun sm_share :: "'p signature_message \<Rightarrow> 'p signature_share option" where
  "sm_share (SigShareMessage s) = Some s" | "sm_share SigDefault = None"

definition sp_threshold :: "'p signature_ctx \<Rightarrow> nat" where
  "sp_threshold c = unat (sk_get_threshold (fst c))"

definition sp_check ::
  "'p curve_backend \<Rightarrow> (int \<Rightarrow> int \<Rightarrow> int) \<Rightarrow> 'p signature_ctx \<Rightarrow> 'p signature_share \<Rightarrow> (scheme_error + bool) may_panic" where
  "sp_check B jac c sh = do { msg \<leftarrow> fst (snd c); ts_verify_share B jac sh msg (sk_get_public_key (fst c)) }"

definition sp_produce ::
  "'p curve_backend \<Rightarrow> (int \<Rightarrow> int \<Rightarrow> int) \<Rightarrow> 'p signature_ctx \<Rightarrow> int \<Rightarrow> (protocol_error + 'p signature_share) may_panic" where
  "sp_produce B jac c d = do {
     msg \<leftarrow> fst (snd c);
     map_option (map_sum SchemeError (\<lambda>x. x)) (ts_partial_sign B jac msg (snd (snd c)) (fst c) d) }"

definition sp_result ::
  "codec \<Rightarrow> 'p curve_backend \<Rightarrow> (int \<Rightarrow> int \<Rightarrow> int) \<Rightarrow> 'p signature_ctx \<Rightarrow> 'p signature_share list \<Rightarrow>
   (protocol_error + bytes) may_panic" where
  "sp_result C B jac c shs = do {
     msg \<leftarrow> fst (snd c);
     r \<leftarrow> ts_assemble B jac shs msg (sk_get_public_key (fst c));
     case r of Inl e \<Rightarrow> Some (Err (SchemeError e))
     | Inr sig \<Rightarrow> do { w \<leftarrow> sig_to_bytes C B sig; b \<leftarrow> unwrap w; Some (Ok b) } }"

lemma sm_share_SomeD: "sm_share m = Some sh \<Longrightarrow> m = SigShareMessage sh"
  by (cases m) auto

lemma sm_share_NoneD: "sm_share m = None \<Longrightarrow> m = SigDefault"
  by (cases m) auto

lemma sp_do_round_eq:
  "sp_do_round B jac d s = map_option (\<lambda>p. case p of Inl e \<Rightarrow> (s, Err e)
     | Inr sh \<Rightarrow> (s\<lparr>sp_received_share_ids := insert (sh_get_id sh) (sp_received_share_ids s),
                    sp_valid_shares := sp_valid_shares s @ [sh]\<rparr>, Ok (SigShareMessage sh)))
     (sp_produce B jac (sp_ctx s) d)"
  by (auto simp: sp_do_round_def sp_produce_def sp_ctx_def map_sum_def map_option_case
      split: Option.bind_split option.split sum.split)

interpretation signing: share_collector "signature_round_protocol C B jac J" sp_ctx sm_share sp_valid_shares
  sp_received_share_ids sp_finished sh_get_id sp_threshold "sp_check B jac" "sp_produce B jac" "sp_result C B jac"
  for C :: codec and B :: "'p curve_backend" and jac :: "int \<Rightarrow> int \<Rightarrow> int" and J :: "signature_wire json"
proof (unfold_locales, goal_cases)
  case (5 m sh s)
  then show ?case
    by (cases "sp_message s") (auto simp: signature_round_protocol_def sp_ctx_def sp_check_def Let_def dest!: sm_share_SomeD)
next
  case (6 m sh s r)
  then show ?case
    by (cases r) (auto simp: signature_round_protocol_def sp_ctx_def sp_check_def Let_def bind_eq_Some_conv dest!: sm_share_SomeD)
next
  case (10 s)
  then show ?case
    by (auto simp: signature_round_protocol_def sp_finalize_def sp_result_def sp_ctx_def map_option_case
        split: Option.bind_split option.split sum.split)
qed (auto simp: sp_do_round_eq signature_round_protocol_def sp_is_ready_def sp_ctx_def sp_threshold_def sp_check_def
    bind_eq_None_conv dest!: sm_share_SomeD sm_share_NoneD)

subsection \<open>Runs with BLS04\<close>

definition carries_sig ::
  "codec \<Rightarrow> 'p curve_backend \<Rightarrow> signature_wire json \<Rightarrow> net_message \<Rightarrow> 'p signature_share \<Rightarrow> bool" where
  "carries_sig C B J t sh = (\<exists>m. unwrap_net J (sm_from_wire C B) t = Some (Ok m) \<and> sm_share m = Some sh)"

lemma carries_sig_iff: "signing.carries C B jac J t sh = carries_sig C B J t sh"
  unfolding signing.carries_def carries_sig_def by (simp add: signature_round_protocol_def)

text \<open>
  The point of a BLS04 share may be outside the subgroup of the generator, which the code does not
  check; of the shares of the other schemes nothing is said.
\<close>

fun sig_share_in_subgroup :: "'p curve_backend \<Rightarrow> group \<Rightarrow> 'p signature_share \<Rightarrow> bool" where
  "sig_share_in_subgroup B g (ShBls04 s) = in_subgroup B g 1 (bls04sh_data s)"
| "sig_share_in_subgroup B g (ShSh00 s) = True"
| "sig_share_in_subgroup B g (ShFrost s) = True"

fun good_sig_share :: "'p curve_backend \<Rightarrow> group \<Rightarrow> bytes \<Rightarrow> 'p bls04_public_key \<Rightarrow> 'p signature_share \<Rightarrow> bool" where
  "good_sig_share B g msg pk (ShBls04 s) =
     (in_subgroup B g 1 (bls04sh_data s) \<and> bls04_verify_share B s msg pk = Some (Ok True))"
| "good_sig_share B g msg pk _ = False"

definition bls04_deployment ::
  "codec \<Rightarrow> 'p curve_backend \<Rightarrow> group \<Rightarrow> nat \<Rightarrow> nat \<Rightarrow> int \<Rightarrow> (nat \<Rightarrow> int) \<Rightarrow> 'p bls04_private_key list \<Rightarrow> bool" where
  "bls04_deployment C B g k n x rnd keys =
     (curve_ok B g 0 \<and> curve_ok B g 1 \<and> pairing_ok B g \<and> codec_ok C \<and> point_codec_ok B g 1
      \<and> 0 < k \<and> k \<le> n \<and> n \<le> 65535 \<and> int n < cb_order B g
      \<and> draws_ok (cb_order B g) rnd \<and> 0 \<le> x \<and> x < cb_order B g
      \<and> bls04_generate_keys C B k n g x rnd = Some (Ok keys))"

lemma bls04_deploymentE:
  assumes "bls04_deployment C B g k n x rnd keys"
  obtains pk where "dl_key_ok B g 0 (shamir_poly x k rnd) n pk" "dlpk_k pk = of_nat k"
    "keys = map (party_key B (shamir_poly x k rnd) pk) [0..<n]"
  using bls04_generate_keys_ok [of B g C k rnd x n] assms that curve_ok_dl [of B g 1]
  by (auto simp: bls04_deployment_def)

lemma unwrap_bls04:
  assumes "\<forall>sh\<in>set shs. good_sig_share B g msg pk sh"
  shows "\<exists>ss. shs = map ShBls04 ss \<and> unwrap_enum_vec sh_bls04 e shs = Ok ss"
  using assms
proof (induction shs)
  case (Cons sh shs)
  then obtain ss s where "shs = map ShBls04 ss" "unwrap_enum_vec sh_bls04 e shs = Ok ss" "sh = ShBls04 s"
    by (cases sh) auto
  then show ?case by (intro exI [of _ "s # ss"]) simp
qed simp

text \<open>What \<open>finalize\<close> makes of good shares, and the party's own share.\<close>

lemma bls04_run_facts:
  assumes dep: "bls04_deployment C B g k n x rnd keys" and j: "j < n"
  obtains own where "\<And>d. sp_produce B jac (SkBls04 (keys ! j), Some msg, label) d = Some (Ok own)"
    "sh_get_id own = of_nat (j + 1)" "good_sig_share B g msg (dlsk_pubkey (keys ! j)) own" "sh_wf B own"
    "\<And>m. sm_share m = Some own \<Longrightarrow> \<exists>n. rp_wrap (signature_round_protocol C B jac J) iid m = Some (Ok n)"
    "sp_threshold (SkBls04 (keys ! j), Some msg, label) = k"
    "\<And>shs. k \<le> length shs \<Longrightarrow> distinct (map sh_get_id shs) \<Longrightarrow>
       \<forall>sh\<in>set shs. good_sig_share B g msg (dlsk_pubkey (keys ! j)) sh \<Longrightarrow>
       \<exists>sig b. sp_result C B jac (SkBls04 (keys ! j), Some msg, label) shs = Some (Ok b)
         \<and> sig_from_bytes C B b = Some (Ok sig) \<and> ts_verify B sig (PkBls04 (dlsk_pubkey (keys ! j))) msg = Some (Ok True)"
proof -
  let ?f = "shamir_poly x k rnd" and ?c = "(SkBls04 (keys ! j), Some msg, label)"
  obtain pk where pk: "dl_key_ok B g 0 ?f n pk" "dlpk_k pk = of_nat k" "keys = map (party_key B ?f pk) [0..<n]"
    using bls04_deploymentE [OF dep] .
  have d: "curve_ok B g 0" "curve_ok B g 1" "pairing_ok B g" "codec_ok C" "point_codec_ok B g 1" "0 < k" "int n < cb_order B g"
    "n \<le> 65535" "k \<le> n" using dep by (simp_all add: bls04_deployment_def)
  have kj: "keys ! j = party_key B ?f pk j" "dlsk_pubkey (keys ! j) = pk" using pk(3) j by simp_all
  obtain own where own: "bls04_partial_sign B msg label (party_key B ?f pk j) = Some own"
      "bls04_verify_share B own msg pk = Some (Ok True)" "bls04sh_id own = of_nat (j + 1)"
      "bls04sh_data own = gpow B g 1 (hash_big g msg * ?f (int j + 1))"
    using bls04_honest_share [OF d(1-3) pk(1) d(8) j, of msg label] by blast
  have "bls04sh_group own = ge_group (bls04sh_data own)" using own(1) by (auto simp: bls04_partial_sign_def bind_eq_Some_conv)
  then have "bls04sh_group own = g" using own(4) by simp
  then have wf: "sh_wf B (ShBls04 own)" using own(4) d by (auto simp: point_ok_def)
  then obtain b where b: "sh_to_bytes C B (ShBls04 own) = Some (Ok b)" using sh_roundtrip [OF d(4)] by blast
  show thesis
  proof (rule that [of "ShBls04 own"])
    show "sp_produce B jac ?c d = Some (Ok (ShBls04 own))" for d using own(1) kj by (simp add: sp_produce_def)
    show "sh_get_id (ShBls04 own) = of_nat (j + 1)" using own(3) by simp
    show "good_sig_share B g msg (dlsk_pubkey (keys ! j)) (ShBls04 own)" using own(2,4) kj by auto
    show "sh_wf B (ShBls04 own)" by (rule wf)
    show "\<exists>n. rp_wrap (signature_round_protocol C B jac J) iid m = Some (Ok n)" if "sm_share m = Some (ShBls04 own)" for m
      using sm_share_SomeD [OF that] b by (simp add: signature_round_protocol_def wrap_net_def)
    show "sp_threshold ?c = k" using d(8,9) pk(2) kj by (simp add: sp_threshold_def sk_get_threshold_def unat_of_nat)
    show "\<exists>sig b. sp_result C B jac ?c shs = Some (Ok b) \<and> sig_from_bytes C B b = Some (Ok sig)
        \<and> ts_verify B sig (PkBls04 (dlsk_pubkey (keys ! j))) msg = Some (Ok True)"
      if s: "k \<le> length shs" "distinct (map sh_get_id shs)" "\<forall>sh\<in>set shs. good_sig_share B g msg (dlsk_pubkey (keys ! j)) sh" for shs
    proof -
      obtain ss where ss: "shs = map ShBls04 ss" "unwrap_enum_vec sh_bls04 WrongScheme shs = Ok ss"
        using unwrap_bls04 [OF s(3), where e = WrongScheme] by (elim exE conjE)
      have len: "k \<le> length ss" using s(1) ss(1) by simp
      have dist: "distinct (map bls04sh_id ss)" using s(2) ss(1) by (simp add: comp_def)
      have good: "\<forall>sh\<in>set ss. in_subgroup B g 1 (bls04sh_data sh) \<and> bls04_verify_share B sh msg pk = Some (Ok True)"
        using s(3) unfolding ss(1) kj(2) by (simp only: set_map ball_simps good_sig_share.simps)
      obtain sig where sig: "bls04_assemble B ss msg pk = Some sig" "bls04_verify B sig pk msg = Some (Ok True)"
          "bls04sig_group sig = g" "in_subgroup B g 1 (bls04sig_sig sig)"
        using bls04_assemble_core [OF d(1-3,6,7) pk(1) len dist good] by blast
      have "sig_wf B (SigBls04 sig)" using sig(3,4) d(2,5) by (auto simp: point_ok_def in_subgroup_def)
      then obtain b where "sig_to_bytes C B (SigBls04 sig) = Some (Ok b)" "sig_from_bytes C B b = Some (Ok (SigBls04 sig))"
        using sig_roundtrip [OF d(4)] by blast
      then show ?thesis using sig ss kj by (auto simp: sp_result_def ts_assemble_def)
    qed
  qed
qed

lemma sp_new_fresh: "signing.fresh (sk, msg, label) (sp_new sk msg label)"
  unfolding signing.fresh_def by (simp add: sp_new_def sp_ctx_def)

text \<open>
  C23.  Signing yields no bad signature but through a point outside the subgroup.  Whatever the
  network delivers to a party that runs the BLS04 signing of \<open>msg\<close> (forged, replayed, foreign or
  malformed messages, shares of other schemes and groups), a result that the executor returns is the
  encoding of a signature that \<open>verify\<close> accepts for \<open>msg\<close>, or some message of the inbox carries a
  share that \<open>verify_share\<close> accepts although its point is outside the subgroup of the generator.
\<close>

theorem signature_run_verifies:
  assumes dep: "bls04_deployment C B g k n x rnd keys" and j: "j < n"
    and run: "executor_run (signature_round_protocol C B jac J) draws iid (sp_new (SkBls04 (keys ! j)) (Some msg) label) inbox closed
      = Some (ex, Returned (Ok v))"
  shows "(\<exists>sig. sig_from_bytes C B v = Some (Ok sig) \<and> ts_verify B sig (PkBls04 (dlsk_pubkey (keys ! j))) msg = Some (Ok True))
    \<or> (\<exists>t\<in>set inbox. \<exists>sh. carries_sig C B J t sh
        \<and> ts_verify_share B jac sh msg (PkBls04 (dlsk_pubkey (keys ! j))) = Some (Ok True) \<and> \<not> sig_share_in_subgroup B g sh)"
    (is "_ \<or> ?outside")
proof -
  let ?c = "(SkBls04 (keys ! j), Some msg, label)"
  obtain own where f: "\<And>d. sp_produce B jac ?c d = Some (Ok own)" "good_sig_share B g msg (dlsk_pubkey (keys ! j)) own" "sp_threshold ?c = k"
    and asm: "\<And>shs. k \<le> length shs \<Longrightarrow> distinct (map sh_get_id shs) \<Longrightarrow>
       \<forall>sh\<in>set shs. good_sig_share B g msg (dlsk_pubkey (keys ! j)) sh \<Longrightarrow>
       \<exists>sig b. sp_result C B jac ?c shs = Some (Ok b)
         \<and> sig_from_bytes C B b = Some (Ok sig) \<and> ts_verify B sig (PkBls04 (dlsk_pubkey (keys ! j))) msg = Some (Ok True)"
    by (rule bls04_run_facts [OF dep j]) blast
  have "\<exists>t\<in>set inbox. carries_sig C B J t sh" if "t \<in> set inbox" "rp_unwrap (signature_round_protocol C B jac J) t = Some (Ok m)"
      "sm_share m = Some sh" for t m sh
    using that by (auto simp: carries_sig_def signature_round_protocol_def)
  from signing.run_result [OF sp_new_fresh run this]
  obtain shs where shs: "sp_threshold ?c \<le> length shs" "distinct (map sh_get_id shs)" "sp_result C B jac ?c shs = Some (Ok v)"
      "\<forall>sh\<in>set shs. (\<exists>t\<in>set inbox. carries_sig C B J t sh) \<and> sp_check B jac ?c sh = Some (Ok True) \<or> sh = own"
    using f(1) by fastforce
  have "good_sig_share B g msg (dlsk_pubkey (keys ! j)) sh" if "sh \<in> set shs" "\<not> ?outside" for sh
  proof (cases "sh = own")
    case False
    then have s: "\<exists>t\<in>set inbox. carries_sig C B J t sh" "sp_check B jac ?c sh = Some (Ok True)" using shs(4) that(1) by auto
    then have "sig_share_in_subgroup B g sh" using that(2) by (auto simp: sp_check_def)
    then show ?thesis using s(2) by (cases sh) (auto simp: sp_check_def)
  qed (use f(2) in simp)
  then have "\<not> ?outside \<Longrightarrow> \<forall>sh\<in>set shs. good_sig_share B g msg (dlsk_pubkey (keys ! j)) sh" by blast
  from asm [OF _ shs(2) this] shs(1,3) f(3) show ?thesis by auto
qed

text \<open>
  Three parties with threshold two.  A share of another scheme that claims to come from party 2, then
  the share of party 3, reach party 1.
\<close>

definition sig_json :: "bytes \<Rightarrow> bytes \<Rightarrow> signature_wire json" where
  "sig_json b b' = \<lparr>js_write = (\<lambda>_. []), js_parse = (\<lambda>x. Some (WSigShare (if x = [] then b else b')))\<rparr>"

definition stray_share :: "int signature_share" where
  "stray_share = ShFrost \<lparr>frostsh_id = 2, frostsh_data = SBI Ed25519 8\<rparr>"

definition second_message :: net_message where
  "second_message = empty_message\<lparr>nm_message_data := [50]\<rparr>"

lemma sig_json_carries:
  assumes "sh_from_bytes C B b = Some (Ok sh)" "sh_from_bytes C B b' = Some (Ok sh')"
  shows "carries_sig C B (sig_json b b') empty_message x \<longleftrightarrow> x = sh"
    "carries_sig C B (sig_json b b') second_message x \<longleftrightarrow> x = sh'"
  using assms by (auto simp: carries_sig_def unwrap_net_def sig_json_def empty_message_def second_message_def)

lemma toy_bls04_deployment:
  obtains keys where "bls04_deployment unary_codec z11_backend Bn254 2 3 5 (\<lambda>_. 3) keys"
    "dlsk_pubkey (keys ! 2) = dlsk_pubkey (keys ! 0)"
proof -
  have c: "curve_ok z11_backend Bn254 0" "curve_ok z11_backend Bn254 1" "pairing_ok z11_backend Bn254"
    "point_codec_ok z11_backend Bn254 1" by (simp_all add: z11_ok)
  have d: "draws_ok (cb_order z11_backend Bn254) (\<lambda>_. 3)" by (simp add: draws_ok_def)
  obtain keys where "bls04_generate_keys unary_codec z11_backend 2 3 Bn254 5 (\<lambda>_. 3) = Some (Ok keys)"
    using bls04_generate_keys_ok [OF c(1) _ unary_codec_ok _ d, of 2 5 3] by auto
  then have dep: "bls04_deployment unary_codec z11_backend Bn254 2 3 5 (\<lambda>_. 3) keys"
    using c d unary_codec_ok by (simp add: bls04_deployment_def)
  moreover have "dlsk_pubkey (keys ! 2) = dlsk_pubkey (keys ! 0)" using bls04_deploymentE [OF dep] by force
  ultimately show thesis by (rule that)
qed

theorem signature_run_verifies_witness:
  "\<exists>keys J ex v sig. bls04_deployment unary_codec z11_backend Bn254 2 3 5 (\<lambda>_. 3) keys
   \<and> executor_run (signature_round_protocol unary_codec z11_backend unit_symbol J) (\<lambda>_. 7) [9]
       (sp_new (SkBls04 (keys ! 0)) (Some [1, 2]) []) [empty_message, second_message] False = Some (ex, Returned (Ok v))
   \<and> sig_from_bytes unary_codec z11_backend v = Some (Ok sig)
   \<and> ts_verify z11_backend sig (PkBls04 (dlsk_pubkey (keys ! 0))) [1, 2] = Some (Ok True)"
proof (rule toy_bls04_deployment)
  fix keys
  let ?C = unary_codec and ?B = "z11_backend" and ?jac = unit_symbol
  assume dep: "bls04_deployment ?C ?B Bn254 2 3 5 (\<lambda>_. 3) keys" and pk: "dlsk_pubkey (keys ! 2) = dlsk_pubkey (keys ! 0)"
  have j: "(0::nat) < 3" "(2::nat) < 3" by simp_all
  let ?c = "(SkBls04 (keys ! 0), Some [1, 2], [])" and ?s = "sp_new (SkBls04 (keys ! 0)) (Some [1, 2]) []"
  obtain other where other: "good_sig_share ?B Bn254 [1, 2] (dlsk_pubkey (keys ! 0)) other" "sh_wf ?B other" "sh_get_id other = 3"
    by (rule bls04_run_facts [OF dep j(2), where msg = "[1, 2]"], rule that) (simp_all add: pk)
  have "sh_wf ?B stray_share" by (simp add: stray_share_def scalar_ok_def)
  then obtain b b' where b: "sh_from_bytes ?C ?B b = Some (Ok stray_share)" "sh_from_bytes ?C ?B b' = Some (Ok other)"
    using sh_roundtrip [OF unary_codec_ok] other(2) by meson
  note car = sig_json_carries [OF b]
  let ?P = "signature_round_protocol ?C ?B ?jac (sig_json b b')" and ?shs = "[stray_share, other]"
  obtain own where f: "\<And>d. sp_produce ?B ?jac ?c d = Some (Ok own)" "good_sig_share ?B Bn254 [1, 2] (dlsk_pubkey (keys ! 0)) own"
    "\<And>m. sm_share m = Some own \<Longrightarrow> \<exists>n. rp_wrap ?P [9] m = Some (Ok n)" "sp_threshold ?c = 2" "sh_get_id own = 1"
    and asm: "\<And>shs. 2 \<le> length shs \<Longrightarrow> distinct (map sh_get_id shs) \<Longrightarrow>
       \<forall>sh\<in>set shs. good_sig_share ?B Bn254 [1, 2] (dlsk_pubkey (keys ! 0)) sh \<Longrightarrow>
       \<exists>sig b. sp_result ?C ?B ?jac ?c shs = Some (Ok b)
         \<and> sig_from_bytes ?C ?B b = Some (Ok sig) \<and> ts_verify ?B sig (PkBls04 (dlsk_pubkey (keys ! 0))) [1, 2] = Some (Ok True)"
    by (rule bls04_run_facts [OF dep j(1), where msg = "[1, 2]" and label = "[]" and jac = ?jac and J = "sig_json b b'" and iid = "[9]"],
        rule that) simp_all
  obtain o' where o': "other = ShBls04 o'" using other(1) by (cases other) auto
  have ok: "\<not> signing.ok ?B ?jac ?c stray_share" "signing.ok ?B ?jac ?c other"
    unfolding signing.ok_def using other(1) by (simp_all add: sp_check_def stray_share_def o')
  have "list_all2 (signing.carries ?C ?B ?jac (sig_json b b')) [empty_message, second_message] ?shs"
    using car by (simp add: carries_sig_iff)
  moreover have "\<forall>sh\<in>set ?shs. sp_check ?B ?jac ?c sh \<noteq> None"
    using ok(2) unfolding signing.ok_def by (simp add: sp_check_def stray_share_def)
  moreover have "sp_threshold ?c \<le> Suc (length (accepted_shares sh_get_id (signing.ok ?B ?jac ?c) {sh_get_id own} ?shs))"
    using f(4,5) ok other(3) by (simp add: stray_share_def)
  ultimately obtain vs where vs: "2 \<le> length vs" "distinct (map sh_get_id vs)"
      "\<forall>sh\<in>set vs. sh = own \<or> sh \<in> set ?shs \<and> signing.ok ?B ?jac ?c sh"
      "map_option snd (executor_run ?P (\<lambda>_. 7) [9] ?s [empty_message, second_message] False) = map_option Returned (sp_result ?C ?B ?jac ?c vs)"
    using signing.run_completes [of ?c ?s ?B ?jac "\<lambda>_. 7" own ?C "sig_json b b'" "[9]" "[empty_message, second_message]" ?shs False,
        OF sp_new_fresh f(1,3)] unfolding f(4) by blast
  have "\<forall>sh\<in>set vs. good_sig_share ?B Bn254 [1, 2] (dlsk_pubkey (keys ! 0)) sh" using vs(3) f(2) other(1) ok(1) by fastforce
  from asm [OF vs(1,2) this] vs(4) obtain ex v where
    run: "executor_run ?P (\<lambda>_. 7) [9] ?s [empty_message, second_message] False = Some (ex, Returned (Ok v))" by auto
  have "sig_share_in_subgroup ?B Bn254 stray_share" "sig_share_in_subgroup ?B Bn254 other"
    using other(1) by (simp_all add: stray_share_def o')
  then have "\<exists>sig. sig_from_bytes ?C ?B v = Some (Ok sig) \<and> ts_verify ?B sig (PkBls04 (dlsk_pubkey (keys ! 0))) [1, 2] = Some (Ok True)"
    using signature_run_verifies [OF dep j(1) run] car by auto
  then show ?thesis using dep run by blast
qed

end
