(* ===== verification/QC_InstanceManager.thy ===== *)
theory QC_InstanceManager
  imports QC_InstanceCache QC_KeyManager QC_CipherProtocol QC_CoinProtocol QC_SignatureProtocol
begin

text \<open>
  The instance manager (\<open>orchestration/src/instance_manager\<close>): the manager
  that starts protocols, routes network messages to them, keeps early messages in a backlog and
  answers its clients.  The tasks the manager spawns are part of the state: a task holds the protocol
  it was started with and the messages sent to its channel so far, and ends when the executor's run on
  them returns or panics.  The channel to the manager is a queue of commands; channels are unbounded, and
  the backlog of an instance is sent at once.  Responders are numbers, and what is sent to them is
  recorded.  \<open>None\<close> says that the manager's own task panics or, in the constructor of a FROST protocol,
  never comes back.
\<close>

subsection \<open>Requests\<close>

datatype 'p start_instance_request =
    ReqDecryption "'p ciphertext"
  | ReqSignature bytes bytes threshold_scheme group "bytes option"
  | ReqCoin bytes threshold_scheme group "bytes option"

record instance_status =
  is_scheme :: threshold_scheme
  is_group :: group
  is_finished :: bool
  is_result :: "prot_result option"

text \<open>
  A request for the status also carries whether its client has gone by the time the manager handles it
  (a cancelled call drops the receiver); the manager looks at the result of \<open>send\<close> only there.
\<close>

datatype 'p instance_manager_command =
    CreateInstance "'p start_instance_request" nat
  | CreateInstanceSync "'p start_instance_request" nat nat
  | GetInstanceStatus bytes nat bool
  | StoreResult bytes prot_result
  | UpdateInstanceStatus bytes string "protocol_error option"

datatype manager_reply =
    CreatedReply nat prot_result
  | SyncReply nat prot_result
  | StatusReply nat "instance_status option"

subsection \<open>Tasks\<close>

text \<open>What a node is built with: the libraries it calls and the encodings of its messages.\<close>

record 'p node_env =
  ne_codec :: codec
  ne_backend :: "'p curve_backend"
  ne_aead :: aead
  ne_jac :: "int \<Rightarrow> int \<Rightarrow> int"
  ne_hex :: "bytes \<Rightarrow> bytes"
  ne_orders :: hash_orders
  ne_rng :: "bytes \<Rightarrow> u16 \<Rightarrow> nat \<Rightarrow> u16"
  ne_show_err :: "key_store_error \<Rightarrow> string"
  ne_decryption_json :: "decryption_wire json"
  ne_coin_json :: "coin_wire json"
  ne_signature_json :: "signature_wire json"
  ne_frost_json :: "frost_wire json"

datatype 'p protocol =
    PrCipher "'p cipher_protocol"
  | PrCoin "'p coin_protocol"
  | PrSignature "'p signature_protocol"
  | PrFrost "'p frost_protocol"

record task_draws =
  td_scalars :: "nat \<Rightarrow> int"
  td_octets :: "nat \<Rightarrow> nat \<Rightarrow> bytes \<times> bytes"

fun run_protocol ::
  "'p node_env \<Rightarrow> task_draws \<Rightarrow> bytes \<Rightarrow> 'p protocol \<Rightarrow> net_message list \<Rightarrow> bool \<Rightarrow> outcome may_panic" where
  "run_protocol E d i (PrCipher s) inbox closed = map_option snd (executor_run
     (cipher_round_protocol (ne_codec E) (ne_backend E) (ne_aead E) (ne_decryption_json E)) (td_scalars d) i s inbox closed)"
| "run_protocol E d i (PrCoin s) inbox closed = map_option snd (executor_run
     (coin_round_protocol (ne_codec E) (ne_backend E) (ne_coin_json E)) (td_scalars d) i s inbox closed)"
| "run_protocol E d i (PrSignature s) inbox closed = map_option snd (executor_run
     (signature_round_protocol (ne_codec E) (ne_backend E) (ne_jac E) (ne_signature_json E)) (td_scalars d) i s inbox closed)"
| "run_protocol E d i (PrFrost s) inbox closed = map_option snd (executor_run
     (frost_round_protocol (ne_codec E) (ne_orders E) (ne_backend E) (ne_frost_json E)) (td_octets d) i s inbox closed)"

record 'p task =
  tk_instance_id :: bytes
  tk_protocol :: "'p protocol"
  tk_inbox :: "net_message list"

text \<open>What \<open>execute_protocol\<close> sends to the manager when the run returns.\<close>

fun execute_protocol :: "bytes \<Rightarrow> prot_result \<Rightarrow> 'p instance_manager_command" where
  "execute_protocol i (Inr v) = StoreResult i (Ok v)"
| "execute_protocol i (Inl e) = UpdateInstanceStatus i ''Failed'' (Some e)"

subsection \<open>The manager\<close>

record backlog_data =
  bl_messages :: "net_message list"
  bl_checked :: bool

text \<open>
  The list \<open>im_panicked\<close> names the instances whose task has panicked.  It is not a field of the struct:
  no operation reads it, and it records what became of tasks that are gone.
\<close>

record 'p instance_manager =
  im_key_manager :: "'p key_manager"
  im_instances :: instance_cache
  im_backlog :: "(bytes \<times> backlog_data) list"
  im_commands :: "'p instance_manager_command list"
  im_tasks :: "'p task list"
  im_replies :: "manager_reply list"
  im_panicked :: "bytes list"

definition im_new :: "'p key_manager \<Rightarrow> 'p instance_manager" where
  "im_new km = \<lparr>im_key_manager = km, im_instances = ic_new None, im_backlog = [], im_commands = [],
     im_tasks = [], im_replies = [], im_panicked = []\<rparr>"

fun assign_instance_id :: "'p node_env \<Rightarrow> 'p start_instance_request \<Rightarrow> bytes may_panic" where
  "assign_instance_id E (ReqDecryption ct) =
     map_option (ne_hex E \<circ> fst) (hash (process_array hash_init (ct_get_ck ct)))"
| "assign_instance_id E (ReqSignature message label scheme g key_id) =
     (let d1 = process_array hash_init label;
          d2 = process_array d1 (ascii (scheme_str_name scheme));
          d3 = process_array d2 (ascii (group_str_name g));
          d4 = (case key_id of None \<Rightarrow> d3 | Some k \<Rightarrow> process_array d3 k)
      in map_option (ne_hex E \<circ> fst) (hash d4))"
| "assign_instance_id E (ReqCoin name scheme g key_id) =
     (let d1 = process_array hash_init name;
          d2 = (case key_id of None \<Rightarrow> d1 | Some k \<Rightarrow> process_array d1 k)
      in map_option (ne_hex E \<circ> fst) (hash d2))"

definition im_get_key ::
  "'p node_env \<Rightarrow> 'p instance_manager \<Rightarrow> 'p key_manager_command \<Rightarrow> string + 'p key_entry" where
  "im_get_key E im cmd =
     (case km_step (ne_codec E) (ne_backend E) (ne_show_err E) (im_key_manager im) cmd of
        Some (_, KmEntry r) \<Rightarrow> r
      | _ \<Rightarrow> Err ''Got no response from key manager'')"

datatype status = AlreadyExists | InvalidArgument string

definition setup_instance ::
  "'p node_env \<Rightarrow> 'p instance_manager \<Rightarrow> threshold_scheme \<Rightarrow> group \<Rightarrow> bytes \<Rightarrow> bytes option \<Rightarrow>
   status + 'p private_key_share" where
  "setup_instance E im scheme g i key_id =
     (if ic_contains_key (im_instances im) i then Err AlreadyExists
      else
        let key_result = im_get_key E im (case key_id of Some kid \<Rightarrow> GetKeyById kid | None \<Rightarrow> GetKeyBySchemeAndGroup scheme g)
        in case key_result of
             Inl err \<Rightarrow> Err (InvalidArgument err)
           | Inr key \<Rightarrow> (case ke_sk key of None \<Rightarrow> Err (InvalidArgument ''private key not found'') | Some sk \<Rightarrow> Ok sk))"

definition send_to_task :: "bytes \<Rightarrow> net_message list \<Rightarrow> 'p task list \<Rightarrow> 'p task list" where
  "send_to_task i ts = map (\<lambda>tk. if tk_instance_id tk = i then tk\<lparr>tk_inbox := tk_inbox tk @ ts\<rparr> else tk)"

definition forward_backlogged_messages :: "bytes \<Rightarrow> 'p instance_manager \<Rightarrow> 'p instance_manager" where
  "forward_backlogged_messages i im =
     (case ic_get (im_instances im) i of
        None \<Rightarrow> im
      | Some inst \<Rightarrow> (case map_of (im_backlog im) i of
          None \<Rightarrow> im
        | Some bl \<Rightarrow>
            (if in_message_channel_sender inst
             then im\<lparr>im_tasks := send_to_task i (bl_messages bl) (im_tasks im)\<rparr> else im)
              \<lparr>im_backlog := AList.delete i (im_backlog im)\<rparr>))"

text \<open>The end of each arm of \<open>start\<close>: store the instance, spawn its task, send it the backlog.\<close>

definition im_spawn ::
  "'p instance_manager \<Rightarrow> bytes \<Rightarrow> instance_data \<Rightarrow> 'p protocol \<Rightarrow> ('p instance_manager \<times> prot_result) may_panic" where
  "im_spawn im i inst prot = do {
     c \<leftarrow> ic_insert (im_instances im) i inst;
     let im' = im\<lparr>im_instances := c, im_tasks := im_tasks im @ [\<lparr>tk_instance_id = i, tk_protocol = prot, tk_inbox = []\<rparr>]\<rparr>;
     Some (forward_backlogged_messages i im', Ok i)
   }"

definition setup_failed :: "'p instance_manager \<Rightarrow> bytes \<Rightarrow> status \<Rightarrow> 'p instance_manager \<times> prot_result" where
  "setup_failed im i e = (case e of
       AlreadyExists \<Rightarrow> (im, Ok i)
     | InvalidArgument _ \<Rightarrow> (im, Err (SchemeError (Aborted ''key not found''))))"

definition im_start ::
  "'p node_env \<Rightarrow> 'p instance_manager \<Rightarrow> 'p start_instance_request \<Rightarrow> nat option \<Rightarrow>
   ('p instance_manager \<times> prot_result) may_panic" where
  "im_start E im request sync_responder = do {
     i \<leftarrow> assign_instance_id E request;
     case request of
       ReqDecryption ct \<Rightarrow>
         (case setup_instance E im (ct_get_scheme ct) (ct_get_group ct) i (Some (ct_get_key_id ct)) of
            Inl e \<Rightarrow> Some (setup_failed im i e)
          | Inr key \<Rightarrow> im_spawn im i (instance_new i (ct_get_scheme ct) (ct_get_group ct) True sync_responder)
              (PrCipher (cp_new key ct i)))
     | ReqSignature message label scheme g key_id \<Rightarrow>
         (case setup_instance E im scheme g i key_id of
            Inl e \<Rightarrow> Some (setup_failed im i e)
          | Inr key \<Rightarrow>
              let inst = instance_new i scheme g True sync_responder in
              if scheme = Frost then do {
                prot \<leftarrow> returned (fp_new (ne_orders E) (ne_rng E) key message (ascii ''label'') NoPrecomputation None);
                im_spawn im i inst (PrFrost prot)
              }
              else im_spawn im i inst (PrSignature (sp_new key (Some message) label)))
     | ReqCoin name scheme g key_id \<Rightarrow>
         (case setup_instance E im scheme g i key_id of
            Inl e \<Rightarrow> Some (setup_failed im i e)
          | Inr key \<Rightarrow> im_spawn im i (instance_new i scheme g True sync_responder) (PrCoin (cop_new key name)))
   }"

definition im_reply :: "manager_reply \<Rightarrow> 'p instance_manager \<Rightarrow> 'p instance_manager" where
  "im_reply r im = im\<lparr>im_replies := im_replies im @ [r]\<rparr>"

definition im_terminate ::
  "bytes \<Rightarrow> (instance_data \<Rightarrow> instance_data) \<Rightarrow> 'p instance_manager \<Rightarrow> 'p instance_manager may_panic" where
  "im_terminate i upd im =
     (case ic_get (im_instances im) i of
        None \<Rightarrow> Some im
      | Some inst \<Rightarrow> do {
          (c, sent) \<leftarrow> inform_of_termination (ic_put (im_instances im) i (upd inst)) i;
          let im' = im\<lparr>im_instances := c\<rparr>;
          Some (case sent of None \<Rightarrow> im' | Some (s, r) \<Rightarrow> im_reply (SyncReply s r) im')
        })"

definition status_of :: "instance_data \<Rightarrow> instance_status" where
  "status_of inst = \<lparr>is_scheme = in_scheme inst, is_group = in_group inst, is_finished = in_finished inst,
     is_result = in_result inst\<rparr>"

fun im_command ::
  "'p node_env \<Rightarrow> 'p instance_manager \<Rightarrow> 'p instance_manager_command \<Rightarrow> 'p instance_manager may_panic" where
  "im_command E im (CreateInstance request responder) = do {
     (im', result) \<leftarrow> im_start E im request None;
     Some (case result of Inl _ \<Rightarrow> im' | Inr i \<Rightarrow> im_reply (CreatedReply responder (Ok i)) im')
   }"
| "im_command E im (CreateInstanceSync request responder sync_responder) = do {
     (im', result) \<leftarrow> im_start E im request (Some sync_responder);
     Some (im_reply (CreatedReply responder result) im')
   }"
| "im_command E im (GetInstanceStatus i responder gone) =
     (if gone then None
      else Some (im_reply (StatusReply responder (map_option status_of (ic_get (im_instances im) i))) im))"
| "im_command E im (StoreResult i result) = im_terminate i (set_result result) im"
| "im_command E im (UpdateInstanceStatus i status error) =
     (case error of
        Some e \<Rightarrow> im_terminate i (set_result (Err e) \<circ> set_status status) im
      | None \<Rightarrow> Some (case ic_get (im_instances im) i of
          None \<Rightarrow> im
        | Some inst \<Rightarrow> im\<lparr>im_instances := ic_put (im_instances im) i (set_status status inst)\<rparr>))"

definition im_receive :: "net_message \<Rightarrow> 'p instance_manager \<Rightarrow> 'p instance_manager" where
  "im_receive t im =
     (let i = nm_instance_id t in
      case ic_get (im_instances im) i of
        Some inst \<Rightarrow>
          if \<not> in_finished inst \<and> in_message_channel_sender inst
          then im\<lparr>im_tasks := send_to_task i [t] (im_tasks im)\<rparr> else im
      | None \<Rightarrow> (case map_of (im_backlog im) i of
          Some bl \<Rightarrow> im\<lparr>im_backlog := AList.update i (bl\<lparr>bl_messages := bl_messages bl @ [t]\<rparr>) (im_backlog im)\<rparr>
        | None \<Rightarrow> im\<lparr>im_backlog := AList.update i \<lparr>bl_messages = [t], bl_checked = False\<rparr> (im_backlog im)\<rparr>))"

definition im_tick :: "'p instance_manager \<Rightarrow> 'p instance_manager" where
  "im_tick im = im\<lparr>im_backlog := map (\<lambda>(i, v). (i, v\<lparr>bl_checked := True\<rparr>))
     (filter (\<lambda>(i, v). bl_checked v = False) (im_backlog im))\<rparr>"

text \<open>A task whose run returned sends its command and ends.\<close>

definition im_task_done :: "bytes \<Rightarrow> prot_result \<Rightarrow> 'p instance_manager \<Rightarrow> 'p instance_manager" where
  "im_task_done i r im = im\<lparr>im_tasks := filter (\<lambda>tk. tk_instance_id tk \<noteq> i) (im_tasks im),
     im_commands := im_commands im @ [execute_protocol i r]\<rparr>"

text \<open>
  A task that panics is gone: \<open>tokio::spawn\<close> catches the panic and nobody awaits the handle.  Its
  instance stays in the cache, and what is sent to its channel from then on is an ignored error.
\<close>

definition im_task_panicked :: "bytes \<Rightarrow> 'p instance_manager \<Rightarrow> 'p instance_manager" where
  "im_task_panicked i im = im\<lparr>im_tasks := filter (\<lambda>tk. tk_instance_id tk \<noteq> i) (im_tasks im),
     im_panicked := im_panicked im @ [i]\<rparr>"

text \<open>The commands clients send, when their requests are among \<open>Q\<close>.\<close>

fun client_command :: "('p start_instance_request \<Rightarrow> bool) \<Rightarrow> 'p instance_manager_command \<Rightarrow> bool" where
  "client_command Q (CreateInstance request responder) = Q request"
| "client_command Q (CreateInstanceSync request responder sync_responder) = Q request"
| "client_command Q (GetInstanceStatus i responder gone) = True"
| "client_command Q (StoreResult i r) = False"
| "client_command Q (UpdateInstanceStatus i s e) = False"

text \<open>
  The turns of the manager's \<open>select!\<close> loop, the clients and the tasks, in any order.  \<open>Q\<close> are the
  requests the clients make and \<open>M\<close> the messages the network delivers.
\<close>

inductive im_step ::
  "'p node_env \<Rightarrow> ('p start_instance_request \<Rightarrow> bool) \<Rightarrow> (net_message \<Rightarrow> bool) \<Rightarrow>
   'p instance_manager \<Rightarrow> 'p instance_manager \<Rightarrow> bool" for E Q M where
  request: "client_command Q cmd \<Longrightarrow> im_step E Q M im (im\<lparr>im_commands := im_commands im @ [cmd]\<rparr>)"
| command: "im_commands im = cmd # cmds \<Longrightarrow> im_command E (im\<lparr>im_commands := cmds\<rparr>) cmd = Some im' \<Longrightarrow> im_step E Q M im im'"
| message: "M t \<Longrightarrow> im_step E Q M im (im_receive t im)"
| tick: "im_step E Q M im (im_tick im)"
| task: "tk \<in> set (im_tasks im) \<Longrightarrow> run_protocol E d (tk_instance_id tk) (tk_protocol tk) (tk_inbox tk) False = Some (Returned r)
    \<Longrightarrow> im_step E Q M im (im_task_done (tk_instance_id tk) r im)"
| task_panics: "tk \<in> set (im_tasks im) \<Longrightarrow> run_protocol E d (tk_instance_id tk) (tk_protocol tk) (tk_inbox tk) False = None
    \<Longrightarrow> im_step E Q M im (im_task_panicked (tk_instance_id tk) im)"

inductive im_reachable ::
  "'p node_env \<Rightarrow> ('p start_instance_request \<Rightarrow> bool) \<Rightarrow> (net_message \<Rightarrow> bool) \<Rightarrow> 'p key_manager \<Rightarrow>
   'p instance_manager \<Rightarrow> bool" for E Q M km where
  start: "im_reachable E Q M km (im_new km)"
| step: "im_reachable E Q M km im \<Longrightarrow> im_step E Q M im im' \<Longrightarrow> im_reachable E Q M km im'"

inductive_cases im_stepE: "im_step E Q M im im'"

end
