(* ===== verification/QC_InstanceInvariant.thy ===== *)
theory QC_InstanceInvariant
  imports QC_InstanceManager
begin

text \<open>
  What holds in every reachable state of the instance manager: its cache is consistent, every instance
  without a result has exactly one task, one result on its way or a task that has panicked, messages only
  ever reach the task of their instance, and every result was returned by a run of a protocol that some
  request started with a key of the key store.
\<close>

subsection \<open>Starting an instance, uniformly in the request\<close>

fun request_scheme :: "'p start_instance_request \<Rightarrow> threshold_scheme" where
  "request_scheme (ReqDecryption ct) = ct_get_scheme ct"
| "request_scheme (ReqSignature message label scheme g key_id) = scheme"
| "request_scheme (ReqCoin name scheme g key_id) = scheme"

fun request_group :: "'p start_instance_request \<Rightarrow> group" where
  "request_group (ReqDecryption ct) = ct_get_group ct"
| "request_group (ReqSignature message label scheme g key_id) = g"
| "request_group (ReqCoin name scheme g key_id) = g"

fun request_key_id :: "'p start_instance_request \<Rightarrow> bytes option" where
  "request_key_id (ReqDecryption ct) = Some (ct_get_key_id ct)"
| "request_key_id (ReqSignature message label scheme g key_id) = key_id"
| "request_key_id (ReqCoin name scheme g key_id) = key_id"

text \<open>The secret key the key store has for a request.\<close>

definition request_sk :: "'p key_manager \<Rightarrow> 'p start_instance_request \<Rightarrow> 'p private_key_share option" where
  "request_sk km request =
     (case request_key_id request of
        Some kid \<Rightarrow> (case get_key_by_id (km_keystore km) kid of Inl _ \<Rightarrow> None | Inr e \<Rightarrow> ke_sk e)
      | None \<Rightarrow> (case get_key_by_scheme_and_group (km_keystore km) (request_scheme request) (request_group request) of
          Inl _ \<Rightarrow> None | Inr e \<Rightarrow> ke_sk e))"

fun request_protocol :: "'p node_env \<Rightarrow> bytes \<Rightarrow> 'p start_instance_request \<Rightarrow> 'p private_key_share \<Rightarrow> 'p protocol may_panic" where
  "request_protocol E i (ReqDecryption ct) key = Some (PrCipher (cp_new key ct i))"
| "request_protocol E i (ReqSignature message label scheme g key_id) key =
     (if scheme = Frost
      then map_option PrFrost (returned (fp_new (ne_orders E) (ne_rng E) key message (ascii ''label'') NoPrecomputation None))
      else Some (PrSignature (sp_new key (Some message) label)))"
| "request_protocol E i (ReqCoin name scheme g key_id) key = Some (PrCoin (cop_new key name))"

lemma assign_instance_id_total: "\<exists>i. assign_instance_id E request = Some i"
proof -
  have "\<exists>d s'. hash (process_array s b) = Some (d, s')" if "hash_wf s" for s b
    using hash_total [OF process_array_wf [OF that]] by blast
  moreover note process_array_wf hash_init_wf
  ultimately show ?thesis
    by (cases request) (fastforce simp: Let_def split: option.splits)+
qed

lemma setup_instance_cases:
  assumes "scheme = request_scheme request" "g = request_group request" "key_id = request_key_id request"
  shows "setup_instance E im scheme g i key_id = Err AlreadyExists \<and> ic_get (im_instances im) i \<noteq> None
    \<or> (\<exists>m. setup_instance E im scheme g i key_id = Err (InvalidArgument m)) \<and> ic_get (im_instances im) i = None
        \<and> request_sk (im_key_manager im) request = None
    \<or> (\<exists>key. setup_instance E im scheme g i key_id = Ok key \<and> ic_get (im_instances im) i = None
        \<and> request_sk (im_key_manager im) request = Some key)"
  unfolding assms setup_instance_def im_get_key_def km_step_def request_sk_def ic_contains_key_iff Let_def
  by (cases "ic_get (im_instances im) i"; cases "request_key_id request")
    (auto split: option.splits sum.splits)

lemma im_start_eq:
  "im_start E im request s = do {
     i \<leftarrow> assign_instance_id E request;
     if ic_get (im_instances im) i \<noteq> None then Some (im, Ok i)
     else case request_sk (im_key_manager im) request of
       None \<Rightarrow> Some (im, Err (SchemeError (Aborted ''key not found'')))
     | Some key \<Rightarrow> do {
         prot \<leftarrow> request_protocol E i request key;
         im_spawn im i (instance_new i (request_scheme request) (request_group request) True s) prot
       }
   }"
proof (cases "assign_instance_id E request")
  case (Some i)
  show ?thesis using Some setup_instance_cases [OF refl refl refl, of E im request i]
    by (cases request) (auto simp: im_start_def setup_failed_def Let_def bind_map_option comp_def simp del: assign_instance_id.simps)
qed (simp add: im_start_def)


subsection \<open>The invariant\<close>

definition started :: "'p node_env \<Rightarrow> ('p start_instance_request \<Rightarrow> bool) \<Rightarrow> 'p key_manager \<Rightarrow> bytes \<Rightarrow> 'p protocol \<Rightarrow> bool" where
  "started E Q km i prot \<longleftrightarrow> (\<exists>request key. Q request \<and> assign_instance_id E request = Some i \<and> request_sk km request = Some key
     \<and> request_protocol E i request key = Some prot)"

definition produced :: "'p node_env \<Rightarrow> ('p start_instance_request \<Rightarrow> bool) \<Rightarrow> (net_message \<Rightarrow> bool) \<Rightarrow> 'p key_manager \<Rightarrow> bytes \<Rightarrow> prot_result \<Rightarrow> bool" where
  "produced E Q M km i r \<longleftrightarrow> (\<exists>prot inbox d. started E Q km i prot \<and> (\<forall>t\<in>set inbox. M t \<and> nm_instance_id t = i)
     \<and> run_protocol E d i prot inbox False = Some (Returned r))"

text \<open>The same for a run that panicked.\<close>

definition panicked :: "'p node_env \<Rightarrow> ('p start_instance_request \<Rightarrow> bool) \<Rightarrow> (net_message \<Rightarrow> bool) \<Rightarrow> 'p key_manager \<Rightarrow> bytes \<Rightarrow> bool" where
  "panicked E Q M km i \<longleftrightarrow> (\<exists>prot inbox d. started E Q km i prot \<and> (\<forall>t\<in>set inbox. M t \<and> nm_instance_id t = i)
     \<and> run_protocol E d i prot inbox False = None)"

text \<open>The instances for which a result is on its way to the manager.\<close>

fun pending :: "'p instance_manager_command \<Rightarrow> bytes list" where
  "pending (StoreResult i r) = [i]"
| "pending (UpdateInstanceStatus i s e) = [i]"
| "pending _ = []"

text \<open>The unfinished instances: with a task, with a result on its way, and with a task that panicked.\<close>

definition im_open :: "'p instance_manager \<Rightarrow> bytes list" where
  "im_open im = map tk_instance_id (im_tasks im) @ concat (map pending (im_commands im)) @ im_panicked im"

fun command_ok :: "'p node_env \<Rightarrow> ('p start_instance_request \<Rightarrow> bool) \<Rightarrow> (net_message \<Rightarrow> bool) \<Rightarrow> 'p key_manager \<Rightarrow> 'p instance_manager_command \<Rightarrow> bool" where
  "command_ok E Q M km (StoreResult i r) = produced E Q M km i r"
| "command_ok E Q M km (UpdateInstanceStatus i s e) = (case e of None \<Rightarrow> False | Some err \<Rightarrow> produced E Q M km i (Err err))"
| "command_ok E Q M km (CreateInstance request responder) = Q request"
| "command_ok E Q M km (CreateInstanceSync request responder sync_responder) = Q request"
| "command_ok E Q M km (GetInstanceStatus i responder gone) = True"

definition record_ok :: "'p node_env \<Rightarrow> ('p start_instance_request \<Rightarrow> bool) \<Rightarrow> (net_message \<Rightarrow> bool) \<Rightarrow> 'p key_manager \<Rightarrow> bytes \<Rightarrow> instance_data \<Rightarrow> bool" where
  "record_ok E Q M km i x \<longleftrightarrow> in_id x = i \<and> in_finished x = (in_result x \<noteq> None)
     \<and> in_message_channel_sender x = (\<not> in_finished x) \<and> (\<forall>r. in_result x = Some r \<longrightarrow> produced E Q M km i r)"

definition task_ok :: "'p node_env \<Rightarrow> ('p start_instance_request \<Rightarrow> bool) \<Rightarrow> (net_message \<Rightarrow> bool) \<Rightarrow> 'p key_manager \<Rightarrow> 'p task \<Rightarrow> bool" where
  "task_ok E Q M km tk \<longleftrightarrow> started E Q km (tk_instance_id tk) (tk_protocol tk)
     \<and> (\<forall>t\<in>set (tk_inbox tk). M t \<and> nm_instance_id t = tk_instance_id tk)"

definition backlog_ok :: "(net_message \<Rightarrow> bool) \<Rightarrow> (bytes \<times> backlog_data) list \<Rightarrow> bool" where
  "backlog_ok M b \<longleftrightarrow> (\<forall>i bl. map_of b i = Some bl \<longrightarrow> (\<forall>t\<in>set (bl_messages bl). M t \<and> nm_instance_id t = i))"

definition im_ok :: "'p node_env \<Rightarrow> ('p start_instance_request \<Rightarrow> bool) \<Rightarrow> (net_message \<Rightarrow> bool) \<Rightarrow> 'p key_manager \<Rightarrow> 'p instance_manager \<Rightarrow> bool" where
  "im_ok E Q M km im \<longleftrightarrow> ic_ok (im_instances im) \<and> distinct (im_open im)
     \<and> set (im_open im) = ic.running (im_instances im)
     \<and> (\<forall>i x. ic_get (im_instances im) i = Some x \<longrightarrow> record_ok E Q M km i x)
     \<and> (\<forall>tk\<in>set (im_tasks im). task_ok E Q M km tk) \<and> (\<forall>cmd\<in>set (im_commands im). command_ok E Q M km cmd)
     \<and> backlog_ok M (im_backlog im) \<and> distinct (map fst (im_backlog im)) \<and> im_key_manager im = km
     \<and> (\<forall>s r. SyncReply s r \<in> set (im_replies im) \<longrightarrow> (\<exists>i. produced E Q M km i r))
     \<and> (\<forall>i\<in>set (im_panicked im). panicked E Q M km i)"

lemma send_to_task_ids [simp]: "map tk_instance_id (send_to_task i ts tks) = map tk_instance_id tks"
  by (simp add: send_to_task_def comp_def cong: if_cong)

lemma send_to_task_other: "i \<notin> set (map tk_instance_id tks) \<Longrightarrow> send_to_task i ts tks = tks"
  unfolding send_to_task_def by (rule map_idI) auto

lemma send_to_task_ok:
  assumes "\<forall>tk\<in>set tks. task_ok E Q M km tk" "\<forall>t\<in>set ts. M t \<and> nm_instance_id t = i"
  shows "\<forall>tk\<in>set (send_to_task i ts tks). task_ok E Q M km tk"
  using assms by (auto simp: send_to_task_def task_ok_def)

lemma im_ok_new: "im_ok E Q M km (im_new km)"
  by (simp add: im_ok_def im_new_def im_open_def ic_new_ok ic.running_def backlog_ok_def)
    (simp add: ic_get_def ic_new_def)

lemma im_ok_reply:
  assumes "im_ok E Q M km im" "\<And>s r. rep = SyncReply s r \<Longrightarrow> \<exists>i. produced E Q M km i r"
  shows "im_ok E Q M km (im_reply rep im)"
  using assms unfolding im_ok_def im_reply_def im_open_def by auto

lemma im_ok_request:
  assumes "im_ok E Q M km im" "client_command Q cmd"
  shows "im_ok E Q M km (im\<lparr>im_commands := im_commands im @ [cmd]\<rparr>)"
  using assms by (cases cmd) (auto simp: im_ok_def im_open_def)

lemma im_ok_tick:
  assumes "im_ok E Q M km im"
  shows "im_ok E Q M km (im_tick im)"
proof -
  let ?f = "\<lambda>(i, v). (i, v\<lparr>bl_checked := True\<rparr>)" and ?b = "filter (\<lambda>(i, v). bl_checked v = False) (im_backlog im)"
  have b: "backlog_ok M (im_backlog im)" "distinct (map fst (im_backlog im))" using assms by (auto simp: im_ok_def)
  have fst: "map fst (map ?f ?b) = map fst ?b" by (simp add: comp_def split_def)
  have "distinct (map fst ?b)" using b(2) by (rule distinct_map_filter)
  moreover have "backlog_ok M (map ?f ?b)" unfolding backlog_ok_def
  proof (intro allI impI)
    fix i bl assume "map_of (map ?f ?b) i = Some bl"
    then obtain v where "(i, v) \<in> set (im_backlog im)" "bl_messages bl = bl_messages v" by (auto dest!: map_of_SomeD)
    then show "\<forall>t\<in>set (bl_messages bl). M t \<and> nm_instance_id t = i" using b by (auto simp: backlog_ok_def)
  qed
  moreover have "distinct (map fst (map ?f ?b))" using calculation(1) by (simp only: fst)
  ultimately show ?thesis using assms unfolding im_ok_def im_tick_def im_open_def by simp
qed

lemma im_ok_receive:
  assumes "im_ok E Q M km im" "M t"
  shows "im_ok E Q M km (im_receive t im)"
proof -
  have b: "backlog_ok M (im_backlog im)" "distinct (map fst (im_backlog im))" and tk: "\<forall>tk\<in>set (im_tasks im). task_ok E Q M km tk"
    using assms by (auto simp: im_ok_def)
  have upd: "im_ok E Q M km (im\<lparr>im_backlog := AList.update (nm_instance_id t) bl (im_backlog im)\<rparr>)"
    if "\<forall>u\<in>set (bl_messages bl). M u \<and> nm_instance_id u = nm_instance_id t" for bl
    using assms b that by (auto simp: im_ok_def im_open_def backlog_ok_def update_conv' distinct_update)
  have send: "im_ok E Q M km (im\<lparr>im_tasks := send_to_task (nm_instance_id t) [t] (im_tasks im)\<rparr>)"
    using assms send_to_task_ok [OF tk _, of "[t]" "nm_instance_id t"] by (simp add: im_ok_def im_open_def)
  show ?thesis
  proof (cases "ic_get (im_instances im) (nm_instance_id t)")
    case None
    show ?thesis
    proof (cases "map_of (im_backlog im) (nm_instance_id t)")
      case (Some bl)
      then show ?thesis using None b(1) assms(2) by (simp add: im_receive_def) (rule upd, auto simp: backlog_ok_def)
    next
      case empty: None
      have "im_ok E Q M km (im\<lparr>im_backlog := AList.update (nm_instance_id t) \<lparr>bl_messages = [t], bl_checked = False\<rparr> (im_backlog im)\<rparr>)"
        by (rule upd) (simp add: assms(2))
      then show ?thesis using None empty by (simp add: im_receive_def)
    qed
  qed (use assms send in \<open>simp add: im_receive_def\<close>)
qed

lemma im_ok_task_done:
  assumes "im_ok E Q M km im" "tk \<in> set (im_tasks im)"
    "run_protocol E d (tk_instance_id tk) (tk_protocol tk) (tk_inbox tk) False = Some (Returned r)"
  shows "im_ok E Q M km (im_task_done (tk_instance_id tk) r im)"
proof -
  let ?i = "tk_instance_id tk"
  have tk: "task_ok E Q M km tk" using assms(1,2) by (auto simp: im_ok_def)
  then have "produced E Q M km ?i r" using assms(3) unfolding produced_def task_ok_def by blast
  then have "command_ok E Q M km (execute_protocol ?i r)" by (cases r) simp_all
  moreover have "pending (execute_protocol ?i r) = [?i]" by (cases r) simp_all
  moreover have "map tk_instance_id (filter (\<lambda>tk. tk_instance_id tk \<noteq> ?i) (im_tasks im))
      = filter (\<lambda>j. j \<noteq> ?i) (map tk_instance_id (im_tasks im))" by (simp add: filter_map comp_def)
  ultimately have "im_open (im_task_done ?i r im)
      = filter (\<lambda>j. j \<noteq> ?i) (map tk_instance_id (im_tasks im)) @ concat (map pending (im_commands im)) @ [?i] @ im_panicked im"
    and cmds: "\<forall>cmd\<in>set (im_commands (im_task_done ?i r im)). command_ok E Q M km cmd"
    using assms(1) by (auto simp: im_open_def im_task_done_def im_ok_def)
  moreover have "distinct (im_open im)" "?i \<in> set (map tk_instance_id (im_tasks im))" using assms(1,2) by (auto simp: im_ok_def)
  ultimately have "distinct (im_open (im_task_done ?i r im))" "set (im_open (im_task_done ?i r im)) = set (im_open im)"
    by (auto simp: im_open_def)
  with assms(1) cmds show ?thesis by (simp add: im_ok_def im_task_done_def)
qed

lemma im_ok_task_panicked:
  assumes "im_ok E Q M km im" "tk \<in> set (im_tasks im)"
    "run_protocol E d (tk_instance_id tk) (tk_protocol tk) (tk_inbox tk) False = None"
  shows "im_ok E Q M km (im_task_panicked (tk_instance_id tk) im)"
proof -
  let ?i = "tk_instance_id tk"
  have tk: "task_ok E Q M km tk" using assms(1,2) by (auto simp: im_ok_def)
  then have "panicked E Q M km ?i" using assms(3) unfolding panicked_def task_ok_def by blast
  moreover have "map tk_instance_id (filter (\<lambda>tk. tk_instance_id tk \<noteq> ?i) (im_tasks im))
      = filter (\<lambda>j. j \<noteq> ?i) (map tk_instance_id (im_tasks im))" by (simp add: filter_map comp_def)
  then have "im_open (im_task_panicked ?i im)
      = filter (\<lambda>j. j \<noteq> ?i) (map tk_instance_id (im_tasks im)) @ concat (map pending (im_commands im)) @ im_panicked im @ [?i]"
    by (simp add: im_open_def im_task_panicked_def)
  moreover have "distinct (im_open im)" "?i \<in> set (map tk_instance_id (im_tasks im))" using assms(1,2) by (auto simp: im_ok_def)
  ultimately have "distinct (im_open (im_task_panicked ?i im))" "set (im_open (im_task_panicked ?i im)) = set (im_open im)"
      "panicked E Q M km ?i"
    by (auto simp: im_open_def)
  with assms(1) show ?thesis by (auto simp: im_ok_def im_task_panicked_def)
qed

definition backlogged :: "'p instance_manager \<Rightarrow> bytes \<Rightarrow> net_message list" where
  "backlogged im i = (case map_of (im_backlog im) i of None \<Rightarrow> [] | Some bl \<Rightarrow> bl_messages bl)"

definition im_spawned :: "'p instance_manager \<Rightarrow> bytes \<Rightarrow> 'p protocol \<Rightarrow> instance_cache \<Rightarrow> 'p instance_manager" where
  "im_spawned im i prot c = im\<lparr>im_instances := c,
     im_tasks := im_tasks im @ [\<lparr>tk_instance_id = i, tk_protocol = prot, tk_inbox = backlogged im i\<rparr>],
     im_backlog := AList.delete i (im_backlog im)\<rparr>"

lemma im_ok_fresh:
  assumes "im_ok E Q M km im" "ic_get (im_instances im) i = None"
  shows "i \<notin> set (im_open im)"
  using assms by (auto simp: im_ok_def ic.running_def)

lemma im_spawn_eq:
  assumes ok: "im_ok E Q M km im" and new: "ic_get (im_instances im) i = None"
    and c: "ic_insert (im_instances im) i inst = Some c" "ic_get c i = Some inst" "in_message_channel_sender inst"
  shows "im_spawn im i inst prot = Some (im_spawned im i prot c, Ok i)"
proof -
  have "i \<notin> set (map tk_instance_id (im_tasks im))" using im_ok_fresh [OF ok new] by (simp add: im_open_def)
  note other = send_to_task_other [OF this]
  show ?thesis
  proof (cases "map_of (im_backlog im) i")
    case None
    then have "i \<notin> fst ` set (im_backlog im)" by (simp add: map_of_eq_None_iff)
    then show ?thesis using None c by (simp add: im_spawn_def forward_backlogged_messages_def im_spawned_def backlogged_def delete_id)
  next
    case (Some bl)
    have "send_to_task i ts (im_tasks im @ [\<lparr>tk_instance_id = i, tk_protocol = prot, tk_inbox = []\<rparr>])
        = im_tasks im @ [\<lparr>tk_instance_id = i, tk_protocol = prot, tk_inbox = ts\<rparr>]" for ts
      using other [of ts] by (simp add: send_to_task_def)
    then show ?thesis using Some c
      by (simp add: im_spawn_def forward_backlogged_messages_def im_spawned_def backlogged_def)
  qed
qed

lemma im_ok_spawned:
  assumes ok: "im_ok E Q M km im" and new: "ic_get (im_instances im) i = None" and st: "started E Q km i prot"
    and inst: "record_ok E Q M km i inst" "\<not> in_finished inst" and c: "ic_insert (im_instances im) i inst = Some c"
  shows "im_ok E Q M km (im_spawned im i prot c)"
proof -
  have icok: "ic_ok (im_instances im)" using ok by (simp add: im_ok_def)
  note ins = ic.insert_new [OF icok new inst(2)] ic.running_insert_new [OF icok new inst(2) c]
  have "set (im_open (im_spawned im i prot c)) = insert i (set (im_open im))"
    and "distinct (im_open (im_spawned im i prot c))"
    using ok im_ok_fresh [OF ok new] by (auto simp: im_open_def im_spawned_def im_ok_def)
  moreover have "record_ok E Q M km j y" if "ic_get c j = Some y" for j y
    using ic.insert_new_lookup [OF icok new inst(2) c that] ok inst(1) by (auto simp: im_ok_def)
  moreover have "\<forall>t\<in>set (backlogged im i). M t \<and> nm_instance_id t = i"
    using ok by (auto simp: backlogged_def im_ok_def backlog_ok_def split: option.splits)
  moreover have "backlog_ok M (AList.delete i (im_backlog im))" "distinct (map fst (AList.delete i (im_backlog im)))"
    using ok by (auto simp: im_ok_def backlog_ok_def delete_conv' distinct_delete)
  ultimately show ?thesis using ok ins c st by (auto simp: im_ok_def im_spawned_def task_ok_def)
qed

lemma record_ok_new: "record_ok E Q M km i (instance_new i s g True rs)"
  by (simp add: record_ok_def instance_new_def)

text \<open>
  Starting an instance: the request is known, has no key, does not come back from the protocol's
  constructor, or runs.
\<close>

lemma im_start_cases:
  assumes ok: "im_ok E Q M km im" and Q: "Q request" and i: "assign_instance_id E request = Some i"
  shows "ic_get (im_instances im) i \<noteq> None \<and> im_start E im request s = Some (im, Ok i)
    \<or> ic_get (im_instances im) i = None \<and> request_sk km request = None
        \<and> im_start E im request s = Some (im, Err (SchemeError (Aborted ''key not found'')))
    \<or> ic_get (im_instances im) i = None \<and> (\<exists>key. request_sk km request = Some key \<and> request_protocol E i request key = None)
        \<and> im_start E im request s = None
    \<or> ic_get (im_instances im) i = None \<and> (\<exists>key prot c. request_sk km request = Some key \<and> request_protocol E i request key = Some prot
        \<and> ic_insert (im_instances im) i (instance_new i (request_scheme request) (request_group request) True s) = Some c
        \<and> im_start E im request s = Some (im_spawned im i prot c, Ok i) \<and> im_ok E Q M km (im_spawned im i prot c))"
proof (cases "ic_get (im_instances im) i")
  case None
  have km: "im_key_manager im = km" and icok: "ic_ok (im_instances im)" using ok by (simp_all add: im_ok_def)
  note start = im_start_eq [of E im request s, unfolded i km]
  show ?thesis
  proof (cases "request_sk km request")
    case None': None
    then show ?thesis using start None by simp
  next
    case key: (Some key)
    show ?thesis
    proof (cases "request_protocol E i request key")
      case None': None
      then show ?thesis using start None key by simp
    next
      case prot: (Some prot)
      let ?inst = "instance_new i (request_scheme request) (request_group request) True s"
      have inst: "\<not> in_finished ?inst" "in_message_channel_sender ?inst" by (simp_all add: instance_new_def)
      obtain c where c: "ic_insert (im_instances im) i ?inst = Some c" "ic_get c i = Some ?inst"
        using ic.insert_new [OF icok None inst(1)] by blast
      have "started E Q km i prot" using Q i key prot unfolding started_def by blast
      then have "im_ok E Q M km (im_spawned im i prot c)" by (rule im_ok_spawned [OF ok None _ record_ok_new inst(1) c(1)])
      then show ?thesis using start None key prot c(1) im_spawn_eq [OF ok None c inst(2)] by simp
    qed
  qed
qed (use i in \<open>simp add: im_start_eq\<close>)

lemma im_ok_start:
  assumes "im_ok E Q M km im" "Q request" "im_start E im request s = Some (im', r)"
  shows "im_ok E Q M km im'"
proof -
  obtain i where i: "assign_instance_id E request = Some i" using assign_instance_id_total by blast
  from im_start_cases [OF assms(1,2) i, of s] assms show ?thesis by (elim disjE exE conjE) simp_all
qed

text \<open>A result that arrives is stored in its instance, which was still running, and answered.\<close>

definition im_answered ::
  "'p instance_manager \<Rightarrow> 'p instance_manager_command list \<Rightarrow> instance_cache \<Rightarrow> nat option \<Rightarrow> prot_result \<Rightarrow> 'p instance_manager" where
  "im_answered im cmds c sender r =
     (let im' = im\<lparr>im_commands := cmds, im_instances := c\<rparr> in
      case sender of None \<Rightarrow> im' | Some s \<Rightarrow> im_reply (SyncReply s r) im')"

lemma im_terminate_cases:
  assumes ok: "im_ok E Q M km im" and cmd: "im_commands im = cmd # cmds" "pending cmd = [i]" and r: "produced E Q M km i r"
    and upd: "\<And>x. in_finished (upd x) \<and> in_result (upd x) = Some r \<and> \<not> in_message_channel_sender (upd x)
      \<and> in_id (upd x) = in_id x \<and> in_result_sender (upd x) = in_result_sender x"
  shows "\<exists>x c. ic_get (im_instances im) i = Some x \<and> \<not> in_finished x
    \<and> ic_get c = (ic_get (im_instances im))(i \<mapsto> (upd x)\<lparr>in_result_sender := None\<rparr>)
    \<and> im_terminate i upd (im\<lparr>im_commands := cmds\<rparr>) = Some (im_answered im cmds c (in_result_sender x) r)
    \<and> im_ok E Q M km (im_answered im cmds c (in_result_sender x) r)"
proof -
  have icok: "ic_ok (im_instances im)" using ok by (simp add: im_ok_def)
  have "i \<in> set (im_open im)" using cmd by (simp add: im_open_def)
  then obtain x where x: "ic_get (im_instances im) i = Some x" "\<not> in_finished x"
    using ok by (auto simp: im_ok_def ic.running_def)
  have u: "in_finished (upd x)" "in_result (upd x) = Some r" using upd by simp_all
  obtain c where c: "ic_finish (im_instances im) i (upd x) = Some (c, map_option (\<lambda>s. (s, r)) (in_result_sender (upd x)))" "ic_ok c"
      "ic_get c = (ic_get (im_instances im))(i \<mapsto> (upd x)\<lparr>in_result_sender := None\<rparr>)"
    using ic.finish [OF icok x u] by blast
  have run: "ic.running c = ic.running (im_instances im) - {i}" by (rule ic.running_finish [OF icok x u c(1)])
  have "im_terminate i upd (im\<lparr>im_commands := cmds\<rparr>) = Some (im_answered im cmds c (in_result_sender x) r)"
    using x c(1) upd [of x] by (cases "in_result_sender x") (simp_all add: im_terminate_def ic_finish_def im_answered_def)
  moreover have "im_ok E Q M km (im\<lparr>im_commands := cmds, im_instances := c\<rparr>)"
  proof -
    have "im_open im = map tk_instance_id (im_tasks im) @ i # concat (map pending cmds) @ im_panicked im"
      using cmd by (simp add: im_open_def)
    then have "distinct (im_open (im\<lparr>im_commands := cmds, im_instances := c\<rparr>))"
        "set (im_open (im\<lparr>im_commands := cmds, im_instances := c\<rparr>)) = ic.running c"
      using ok run by (auto simp: im_ok_def im_open_def)
    moreover have "record_ok E Q M km j y" if "ic_get c j = Some y" for j y
      using that ok upd [of x] x r by (auto simp: c(3) im_ok_def record_ok_def split: if_splits)
    ultimately show ?thesis using ok c(2) cmd(1) by (simp add: im_ok_def)
  qed
  moreover have "im_ok E Q M km (im_answered im cmds c (in_result_sender x) r)"
    using calculation(2) r by (cases "in_result_sender x") (auto simp: im_answered_def intro: im_ok_reply)
  ultimately show ?thesis using x c(3) by blast
qed

lemma set_result_upd:
  "in_finished (set_result r x) \<and> in_result (set_result r x) = Some r \<and> \<not> in_message_channel_sender (set_result r x)
    \<and> in_id (set_result r x) = in_id x \<and> in_result_sender (set_result r x) = in_result_sender x"
  "in_finished ((set_result r \<circ> set_status s) x) \<and> in_result ((set_result r \<circ> set_status s) x) = Some r
    \<and> \<not> in_message_channel_sender ((set_result r \<circ> set_status s) x)
    \<and> in_id ((set_result r \<circ> set_status s) x) = in_id x \<and> in_result_sender ((set_result r \<circ> set_status s) x) = in_result_sender x"
  by (simp_all add: set_result_def set_status_def)

lemma im_ok_pop:
  assumes "im_ok E Q M km im" "im_commands im = cmd # cmds" "pending cmd = []"
  shows "im_ok E Q M km (im\<lparr>im_commands := cmds\<rparr>)"
  using assms by (auto simp: im_ok_def im_open_def)

lemma im_ok_command:
  assumes ok: "im_ok E Q M km im" and cmd: "im_commands im = cmd # cmds"
    and step: "im_command E (im\<lparr>im_commands := cmds\<rparr>) cmd = Some im'"
  shows "im_ok E Q M km im'"
proof (cases cmd)
  case (CreateInstance request responder)
  then obtain im1 r where s: "im_start E (im\<lparr>im_commands := cmds\<rparr>) request None = Some (im1, r)"
      "im' = (case r of Inl _ \<Rightarrow> im1 | Inr i \<Rightarrow> im_reply (CreatedReply responder (Ok i)) im1)"
    using step by (auto simp: bind_eq_Some_conv)
  from im_ok_start [OF im_ok_pop [OF ok cmd] _ s(1)] s(2) CreateInstance ok cmd show ?thesis
    by (cases r) (auto simp: im_ok_def [of E Q M km im] intro: im_ok_reply)
next
  case (CreateInstanceSync request responder sr)
  then obtain im1 r where s: "im_start E (im\<lparr>im_commands := cmds\<rparr>) request (Some sr) = Some (im1, r)"
      "im' = im_reply (CreatedReply responder r) im1"
    using step by (auto simp: bind_eq_Some_conv)
  from im_ok_start [OF im_ok_pop [OF ok cmd] _ s(1)] s(2) CreateInstanceSync ok cmd show ?thesis
    by (auto simp: im_ok_def [of E Q M km im] intro: im_ok_reply)
next
  case (GetInstanceStatus i responder gone)
  then show ?thesis using step im_ok_pop [OF ok cmd] by (auto intro: im_ok_reply split: if_splits)
next
  case (StoreResult i r)
  then have "produced E Q M km i r" using ok cmd by (auto simp: im_ok_def)
  from im_terminate_cases [OF ok cmd _ this set_result_upd(1)] StoreResult step show ?thesis by auto
next
  case (UpdateInstanceStatus i st e)
  then obtain err where err: "e = Some err" "produced E Q M km i (Err err)" using ok cmd by (cases e) (auto simp: im_ok_def)
  from im_terminate_cases [OF ok cmd _ err(2), of "set_result (Err err) \<circ> set_status st", OF _ set_result_upd(2)] UpdateInstanceStatus err(1) step show ?thesis by auto
qed

lemma im_ok_step: "im_step E Q M im im' \<Longrightarrow> im_ok E Q M km im \<Longrightarrow> im_ok E Q M km im'"
  by (erule im_stepE) (auto intro: im_ok_request im_ok_command im_ok_receive im_ok_tick im_ok_task_done im_ok_task_panicked)

lemma im_reachable_ok: "im_reachable E Q M km im \<Longrightarrow> im_ok E Q M km im"
  by (induction rule: im_reachable.induct) (auto intro: im_ok_new im_ok_step)

end
