(* ===== verification/QC_InstanceService.thy ===== *)
theory QC_InstanceService
  imports QC_InstanceInvariant
begin

text \<open>
  What the instance manager does for its clients: its invariant, where results come from, that a
  decryption never yields another plaintext, and how a request in an idle node is served.
\<close>

subsection \<open>The invariant and the origin of results\<close>

lemma im_panicked_simps [simp]:
  "im_panicked (forward_backlogged_messages i im) = im_panicked im" "im_panicked (im_reply rep im) = im_panicked im"
  "im_panicked (im_receive t im) = im_panicked im" "im_panicked (im_tick im) = im_panicked im"
  "im_panicked (im_task_done i r im) = im_panicked im" "im_panicked (im_task_panicked i im) = im_panicked im @ [i]"
  by (simp_all add: forward_backlogged_messages_def im_reply_def im_receive_def im_tick_def im_task_done_def
      im_task_panicked_def Let_def split: option.split)

lemma im_start_panicked:
  assumes "im_start E im request s = Some (im', r)"
  shows "im_panicked im' = im_panicked im"
proof -
  obtain i where i: "assign_instance_id E request = Some i" using assign_instance_id_total by blast
  show ?thesis using assms unfolding im_start_eq i
    by (cases "ic_get (im_instances im) i"; cases "request_sk (im_key_manager im) request")
      (auto simp: im_spawn_def bind_eq_Some_conv Let_def)
qed

lemma im_command_panicked:
  assumes "im_command E im cmd = Some im'"
  shows "im_panicked im' = im_panicked im"
proof (cases cmd)
  case (CreateInstance request responder)
  then obtain im1 r where "im_start E im request None = Some (im1, r)"
      "im' = (case r of Inl _ \<Rightarrow> im1 | Inr i \<Rightarrow> im_reply (CreatedReply responder (Ok i)) im1)"
    using assms by (auto simp: bind_eq_Some_conv)
  then show ?thesis by (cases r) (auto dest: im_start_panicked)
next
  case (CreateInstanceSync request responder sr)
  then show ?thesis using assms by (auto simp: bind_eq_Some_conv dest: im_start_panicked)
next
  case (UpdateInstanceStatus i st e)
  then show ?thesis using assms
    by (cases e; cases "ic_get (im_instances im) i") (auto simp: im_terminate_def bind_eq_Some_conv Let_def split: option.splits)
qed (use assms in \<open>auto simp: im_terminate_def bind_eq_Some_conv Let_def split: option.splits if_splits\<close>)

lemma im_panicked_step: "im_step E Q M im im' \<Longrightarrow> i \<in> set (im_panicked im) \<Longrightarrow> i \<in> set (im_panicked im')"
  by (erule im_stepE) (auto dest!: im_command_panicked)

text \<open>
  C29.  The manager's books are consistent.  In every reachable state, identifiers are stored once;
  the cache's queue of terminated instances holds exactly the instances with a result, each once; every
  instance without a result has exactly one task that runs it, one result on its way or a task that has
  panicked, and nobody else has; a task only gets messages that carry its instance's identifier; and a
  task that has panicked did so in a run of a requested protocol on messages the network delivered for it.
  Nothing finishes the instances of panicked tasks: they are neither answered nor ejected.
\<close>

theorem instance_manager_invariant:
  assumes "im_reachable E Q M km im"
  shows "distinct (map fst (ic_instance_data (im_instances im))) \<and> distinct (ic_terminated_instances (im_instances im))
    \<and> (\<forall>i. i \<in> set (ic_terminated_instances (im_instances im)) \<longleftrightarrow> (\<exists>x. ic_get (im_instances im) i = Some x \<and> in_result x \<noteq> None))
    \<and> distinct (im_open im)
    \<and> (\<forall>i. i \<in> set (im_open im) \<longleftrightarrow> (\<exists>x. ic_get (im_instances im) i = Some x \<and> in_result x = None))
    \<and> (\<forall>tk\<in>set (im_tasks im). \<forall>t\<in>set (tk_inbox tk). nm_instance_id t = tk_instance_id tk)
    \<and> (\<forall>i\<in>set (im_panicked im). panicked E Q M km i)
    \<and> (\<forall>i im'. im_step E Q M im im' \<and> i \<in> set (im_panicked im) \<longrightarrow> i \<in> set (im_panicked im'))"
proof -
  have ok: "im_ok E Q M km im" by (rule im_reachable_ok [OF assms])
  then have fin: "in_finished x = (in_result x \<noteq> None)" if "ic_get (im_instances im) i = Some x" for i x
    using that by (auto simp: im_ok_def record_ok_def)
  have run: "i \<in> ic.running (im_instances im) \<longleftrightarrow> (\<exists>x. ic_get (im_instances im) i = Some x \<and> in_result x = None)" for i
    unfolding ic.running_def using fin by auto
  have "i \<in> set (ic_terminated_instances (im_instances im)) \<longleftrightarrow> (\<exists>x. ic_get (im_instances im) i = Some x \<and> in_result x \<noteq> None)" for i
    using ok fin unfolding im_ok_def ic_ok_def by metis
  moreover have "\<forall>i im'. im_step E Q M im im' \<and> i \<in> set (im_panicked im) \<longrightarrow> i \<in> set (im_panicked im')"
    using im_panicked_step by blast
  ultimately show ?thesis using ok run by (simp add: im_ok_def ic_ok_def task_ok_def)
qed

text \<open>
  C30.  Results are earned.  Every result the manager stores or sends to the client of a synchronous
  request was returned by a run of the executor on messages the network delivered for that instance, with the
  protocol and the secret key of a request that a client made under that identifier.
\<close>

theorem results_produced:
  assumes "im_reachable E Q M km im"
  shows "(\<forall>i x r. ic_get (im_instances im) i = Some x \<and> in_result x = Some r \<longrightarrow> produced E Q M km i r)
    \<and> (\<forall>s r. SyncReply s r \<in> set (im_replies im) \<longrightarrow> (\<exists>i. produced E Q M km i r))"
  using im_reachable_ok [OF assms] by (simp add: im_ok_def record_ok_def)

subsection \<open>Serving a request\<close>

lemma fold_im_receive_steps:
  "\<forall>t\<in>set ts. M t \<Longrightarrow> (im_step E Q M)\<^sup>*\<^sup>* im (fold im_receive ts im)"
  by (induction ts arbitrary: im) (auto intro: converse_rtranclp_into_rtranclp im_step.message)

lemma im_reachable_steps:
  "(im_step E Q M)\<^sup>*\<^sup>* im im' \<Longrightarrow> im_reachable E Q M km im \<Longrightarrow> im_reachable E Q M km im'"
  by (induction rule: rtranclp_induct) (auto intro: im_reachable.step)

lemma execute_protocol_command:
  obtains upd where "\<And>im'. im_command E im' (execute_protocol i r) = im_terminate i upd im'"
    "\<And>x. in_finished (upd x) \<and> in_result (upd x) = Some r \<and> \<not> in_message_channel_sender (upd x)
      \<and> in_id (upd x) = in_id x \<and> in_result_sender (upd x) = in_result_sender x"
proof (cases r)
  case (Inl e)
  show thesis by (rule that [of "set_result (Err e) \<circ> set_status ''Failed''"]) (simp_all only: Inl execute_protocol.simps im_command.simps option.case set_result_upd(2) simp_thms)
next
  case (Inr v)
  show thesis by (rule that [of "set_result (Ok v)"]) (simp_all only: Inr execute_protocol.simps im_command.simps set_result_upd(1) simp_thms)
qed

text \<open>A task that ended in an idle manager: its result is stored and sent to the waiting client.\<close>

lemma task_result_stored:
  assumes ok: "im_ok E Q M km im" and idle: "im_commands im = []" and tk: "tk \<in> set (im_tasks im)" "tk_instance_id tk = i"
    and inst: "ic_get (im_instances im) i = Some x" "in_result_sender x = Some s"
    and run: "run_protocol E d i (tk_protocol tk) (tk_inbox tk) False = Some (Returned r)"
  shows "\<exists>im' x. (im_step E Q M)\<^sup>*\<^sup>* im im' \<and> im_replies im' = im_replies im @ [SyncReply s r]
    \<and> ic_get (im_instances im') i = Some x \<and> in_result x = Some r"
proof -
  let ?im = "im_task_done i r im"
  have step: "im_step E Q M im ?im" using im_step.task [OF tk(1), of E d r Q M] run tk(2) by simp
  have ok': "im_ok E Q M km ?im" by (rule im_ok_step [OF step ok])
  have cmds: "im_commands ?im = [execute_protocol i r]" using idle by (simp add: im_task_done_def)
  obtain upd where upd: "\<And>im'. im_command E im' (execute_protocol i r) = im_terminate i upd im'"
      "\<And>x. in_finished (upd x) \<and> in_result (upd x) = Some r \<and> \<not> in_message_channel_sender (upd x)
        \<and> in_id (upd x) = in_id x \<and> in_result_sender (upd x) = in_result_sender x"
    by (rule execute_protocol_command [of E i r]) blast
  have p: "pending (execute_protocol i r) = [i]" "produced E Q M km i r"
    using ok' cmds by (cases r; simp add: im_ok_def)+
  have get: "ic_get (im_instances ?im) i = Some x" using inst(1) by (simp add: im_task_done_def)
  obtain y c where yc: "ic_get (im_instances ?im) i = Some y" "ic_get c = (ic_get (im_instances ?im))(i \<mapsto> (upd y)\<lparr>in_result_sender := None\<rparr>)"
      "im_terminate i upd (?im\<lparr>im_commands := []\<rparr>) = Some (im_answered ?im [] c (in_result_sender y) r)"
    using im_terminate_cases [OF ok' cmds p upd(2)] by blast
  then have c: "ic_get c i = Some ((upd x)\<lparr>in_result_sender := None\<rparr>)"
      "im_terminate i upd (?im\<lparr>im_commands := []\<rparr>) = Some (im_answered ?im [] c (Some s) r)"
    using get inst(2) by simp_all
  have "im_step E Q M ?im (im_answered ?im [] c (Some s) r)"
    by (rule im_step.command [OF cmds]) (use c(2) upd(1) in simp)
  note rtranclp.rtrancl_into_rtrancl [OF r_into_rtranclp [of "im_step E Q M", OF step] this]
  moreover have "im_replies (im_answered ?im [] c (Some s) r) = im_replies im @ [SyncReply s r]"
      "im_instances (im_answered ?im [] c (Some s) r) = c"
    by (simp_all add: im_answered_def im_reply_def im_task_done_def)
  ultimately show ?thesis using c(1) upd(2) by auto
qed

text \<open>A synchronous request in an idle manager starts an instance that waits for its messages.\<close>

lemma request_started:
  assumes ok: "im_ok E Q M km im" and idle: "im_commands im = []" and Q: "Q request"
    and i: "assign_instance_id E request = Some i" "ic_get (im_instances im) i = None"
    and key: "request_sk km request = Some key" "request_protocol E i request key = Some prot"
  shows "\<exists>im' x. im_step E Q M (im\<lparr>im_commands := [CreateInstanceSync request a s]\<rparr>) im' \<and> im_ok E Q M km im' \<and> im_commands im' = []
    \<and> im_command E im (CreateInstanceSync request a s) = Some im'
    \<and> im_replies im' = im_replies im @ [CreatedReply a (Ok i)]
    \<and> im_tasks im' = im_tasks im @ [\<lparr>tk_instance_id = i, tk_protocol = prot, tk_inbox = backlogged im i\<rparr>]
    \<and> ic_get (im_instances im') i = Some x \<and> \<not> in_finished x \<and> in_message_channel_sender x \<and> in_result_sender x = Some s"
proof -
  let ?cmd = "CreateInstanceSync request a s" and ?inst = "instance_new i (request_scheme request) (request_group request) True (Some s)"
  obtain c where c: "ic_insert (im_instances im) i ?inst = Some c" "im_ok E Q M km (im_spawned im i prot c)"
      "im_start E im request (Some s) = Some (im_spawned im i prot c, Ok i)"
    using im_start_cases [OF ok Q i(1), of "Some s"] i(2) key by auto
  let ?im = "im_reply (CreatedReply a (Ok i)) (im_spawned im i prot c)"
  have cmd: "im_command E im ?cmd = Some ?im" using c(3) by simp
  have "im\<lparr>im_commands := []\<rparr> = im" using idle by (cases im) simp
  then have "im_command E (im\<lparr>im_commands := [?cmd], im_commands := []\<rparr>) ?cmd = Some ?im" using c(3) by simp
  then have "im_step E Q M (im\<lparr>im_commands := [?cmd]\<rparr>) ?im" by (intro im_step.command [of _ ?cmd "[]"]) simp_all
  moreover have "im_ok E Q M km ?im" by (rule im_ok_reply [OF c(2)]) simp
  moreover have icok: "ic_ok (im_instances im)" "\<not> in_finished ?inst" using ok by (simp_all add: im_ok_def instance_new_def)
  have "ic_get c i = Some ?inst" using ic.insert_new [OF icok(1) i(2) icok(2)] c(1) by auto
  ultimately show ?thesis using idle cmd
    by (intro exI [of _ ?im] exI [of _ ?inst]) (simp add: im_reply_def im_spawned_def instance_new_def)
qed

text \<open>
  C31.  A node reports no wrong plaintext but through a point outside the subgroup.  A client asks for
  the decryption of a BZ03 ciphertext of \<open>msg\<close> whose key the node holds, and no other request in use has the
  same instance identifier.  Whatever clients, network, timers and tasks do in whatever order, a value
  stored as the result of that instance is \<open>msg\<close>, or the network delivers for that instance a message with a
  share that \<open>verify_share\<close> accepts although its point is outside the subgroup of the generator.
\<close>

theorem decryption_service_sound:
  assumes dep: "bz03_deployment (ne_codec E) (ne_backend E) (ne_aead E) g k n x rnd keys" "j < n" "enc_ok msg d"
    and ct: "tc_encrypt (ne_backend E) (ne_aead E) msg label (PkBz03 (dlsk_pubkey (keys ! j))) d = Some (Ok ct)"
    and key: "request_sk km (ReqDecryption ct) = Some (SkBz03 (keys ! j))"
    and unique: "\<forall>request. Q request \<and> assign_instance_id E request = Some i \<longrightarrow> request = ReqDecryption ct"
    and reach: "im_reachable E Q M km im" "ic_get (im_instances im) i = Some inst" "in_result inst = Some (Ok v)"
  shows "v = msg \<or> (\<exists>t sh. M t \<and> nm_instance_id t = i \<and> carries_share (ne_codec E) (ne_backend E) (ne_decryption_json E) t sh
    \<and> tc_verify_share (ne_backend E) sh ct (PkBz03 (dlsk_pubkey (keys ! j))) = Some (Ok True)
    \<and> \<not> share_in_subgroup (ne_backend E) g sh)"
proof -
  have "produced E Q M km i (Ok v)" using im_reachable_ok [OF reach(1)] reach(2,3) by (simp add: im_ok_def record_ok_def)
  then obtain prot inbox dr where p: "started E Q km i prot" "\<forall>t\<in>set inbox. M t \<and> nm_instance_id t = i"
      "run_protocol E dr i prot inbox False = Some (Returned (Ok v))"
    unfolding produced_def by blast
  from p(1) have "prot = PrCipher (cp_new (SkBz03 (keys ! j)) ct i)"
    using unique key unfolding started_def by fastforce
  with p(3) obtain ex where ex: "executor_run (cipher_round_protocol (ne_codec E) (ne_backend E) (ne_aead E) (ne_decryption_json E))
      (td_scalars dr) i (cp_new (SkBz03 (keys ! j)) ct i) inbox False = Some (ex, Returned (Ok v))" by auto
  from bz03_run_plaintext [OF dep ct ex] show ?thesis using p(2) by blast
qed

subsection \<open>Interleavings\<close>

text \<open>
  What may happen around a running instance: messages of this and other instances and ticks, in any
  order.  Its task gets its own messages in the order of their arrival, and nothing else of it changes.
\<close>

fun im_event :: "net_message option \<Rightarrow> 'p instance_manager \<Rightarrow> 'p instance_manager" where
  "im_event None im = im_tick im"
| "im_event (Some t) im = im_receive t im"

definition messages_for :: "bytes \<Rightarrow> net_message option list \<Rightarrow> net_message list" where
  "messages_for i evs = filter (\<lambda>t. nm_instance_id t = i) (List.map_filter (\<lambda>ev. ev) evs)"

definition tasks_of :: "bytes \<Rightarrow> 'p instance_manager \<Rightarrow> 'p task list" where
  "tasks_of i im = filter (\<lambda>tk. tk_instance_id tk = i) (im_tasks im)"

lemma im_event_fields:
  "im_instances (im_event ev im) = im_instances im" "im_commands (im_event ev im) = im_commands im"
  "im_replies (im_event ev im) = im_replies im"
  by (cases ev; simp add: im_tick_def im_receive_def Let_def split: option.splits)+

lemma tasks_of_event:
  assumes "tasks_of i im = [tk]" "ic_get (im_instances im) i = Some x" "\<not> in_finished x" "in_message_channel_sender x"
  shows "tasks_of i (im_event ev im) = [tk\<lparr>tk_inbox := tk_inbox tk @ messages_for i [ev]\<rparr>]"
proof (cases ev)
  case None
  then show ?thesis using assms(1) by (simp add: tasks_of_def im_tick_def messages_for_def List.map_filter_simps)
next
  case (Some t)
  have send: "filter (\<lambda>tk. tk_instance_id tk = i) (send_to_task j ts tks)
      = map (\<lambda>tk. if j = i then tk\<lparr>tk_inbox := tk_inbox tk @ ts\<rparr> else tk) (filter (\<lambda>tk. tk_instance_id tk = i) tks)" for j ts and tks :: "'a task list"
    by (induction tks) (auto simp: send_to_task_def)
  show ?thesis
  proof (cases "nm_instance_id t = i")
    case True
    then show ?thesis using assms Some send [of i "[t]" "im_tasks im"]
      by (simp add: tasks_of_def im_receive_def messages_for_def List.map_filter_simps)
  next
    case False
    then show ?thesis using assms(1) Some send [of "nm_instance_id t" "[t]" "im_tasks im"]
      by (auto simp: tasks_of_def im_receive_def messages_for_def List.map_filter_simps Let_def split: option.splits)
  qed
qed

lemma messages_for_Cons: "messages_for i (ev # evs) = messages_for i [ev] @ messages_for i evs"
  by (cases ev) (simp_all add: messages_for_def List.map_filter_simps)

lemma tasks_of_events:
  assumes "tasks_of i im = [tk]" "ic_get (im_instances im) i = Some x" "\<not> in_finished x" "in_message_channel_sender x"
  shows "tasks_of i (fold im_event evs im) = [tk\<lparr>tk_inbox := tk_inbox tk @ messages_for i evs\<rparr>]
    \<and> im_instances (fold im_event evs im) = im_instances im \<and> im_commands (fold im_event evs im) = im_commands im
    \<and> im_replies (fold im_event evs im) = im_replies im"
  using assms
proof (induction evs arbitrary: im tk)
  case (Cons ev evs)
  have "messages_for i (ev # evs) = messages_for i [ev] @ messages_for i evs" by (rule messages_for_Cons)
  with Cons.IH [OF tasks_of_event [OF Cons.prems]] Cons.prems show ?case by (simp add: im_event_fields)
qed (simp add: messages_for_def List.map_filter_simps)

lemma im_event_steps:
  "\<forall>t. Some t \<in> set evs \<longrightarrow> M t \<Longrightarrow> (im_step E Q M)\<^sup>*\<^sup>* im (fold im_event evs im)"
proof (induction evs arbitrary: im)
  case (Cons ev evs)
  have "im_step E Q M im (im_event ev im)"
    using Cons.prems by (cases ev) (auto intro: im_step.message im_step.tick)
  then show ?case using Cons by (auto intro: converse_rtranclp_into_rtranclp)
qed simp

lemma im_ok_steps: "(im_step E Q M)\<^sup>*\<^sup>* im im' \<Longrightarrow> im_ok E Q M km im \<Longrightarrow> im_ok E Q M km im'"
  by (induction rule: rtranclp_induct) (auto intro: im_ok_step)

text \<open>
  A synchronous request in an idle manager that has the key: whatever happens around it, when the messages
  that have come are enough for the task to return \<open>r\<close> whatever it draws, \<open>r\<close> reaches the client.
\<close>

lemma request_served:
  assumes ok: "im_ok E Q M km im" and idle: "im_commands im = []" and Q: "Q request"
    and i: "assign_instance_id E request = Some i" "ic_get (im_instances im) i = None"
    and key: "request_sk km request = Some key" "request_protocol E i request key = Some prot"
  shows "\<exists>im1. im_step E Q M (im\<lparr>im_commands := [CreateInstanceSync request a s]\<rparr>) im1
    \<and> im_command E im (CreateInstanceSync request a s) = Some im1
    \<and> (\<forall>evs r. (\<forall>t. Some t \<in> set evs \<longrightarrow> M t)
        \<and> (\<forall>d. run_protocol E d i prot (backlogged im i @ messages_for i evs) False = Some (Returned r)) \<longrightarrow>
        (\<exists>tk. tasks_of i (fold im_event evs im1) = [tk] \<and> (\<forall>d. run_protocol E d i (tk_protocol tk) (tk_inbox tk) False = Some (Returned r)))
        \<and> (\<exists>im2 x. (im_step E Q M)\<^sup>*\<^sup>* (fold im_event evs im1) im2
          \<and> im_replies im2 = im_replies im @ [CreatedReply a (Ok i), SyncReply s r]
          \<and> ic_get (im_instances im2) i = Some x \<and> in_result x = Some r))"
proof -
  obtain im1 x where s1: "im_step E Q M (im\<lparr>im_commands := [CreateInstanceSync request a s]\<rparr>) im1" and ok1: "im_ok E Q M km im1"
    and c1: "im_command E im (CreateInstanceSync request a s) = Some im1" and im1: "im_commands im1 = []"
      "im_replies im1 = im_replies im @ [CreatedReply a (Ok i)]"
      "im_tasks im1 = im_tasks im @ [\<lparr>tk_instance_id = i, tk_protocol = prot, tk_inbox = backlogged im i\<rparr>]"
    and x: "ic_get (im_instances im1) i = Some x" "\<not> in_finished x" "in_message_channel_sender x" "in_result_sender x = Some s"
    using request_started [OF ok idle Q i key, of a s] by blast
  have "i \<notin> set (map tk_instance_id (im_tasks im))" using im_ok_fresh [OF ok i(2)] by (simp add: im_open_def)
  then have t1: "tasks_of i im1 = [\<lparr>tk_instance_id = i, tk_protocol = prot, tk_inbox = backlogged im i\<rparr>]"
    by (auto simp: tasks_of_def im1(3) filter_empty_conv)
  have "(\<exists>tk. tasks_of i (fold im_event evs im1) = [tk] \<and> (\<forall>d. run_protocol E d i (tk_protocol tk) (tk_inbox tk) False = Some (Returned r)))
      \<and> (\<exists>im2 x. (im_step E Q M)\<^sup>*\<^sup>* (fold im_event evs im1) im2
        \<and> im_replies im2 = im_replies im @ [CreatedReply a (Ok i), SyncReply s r] \<and> ic_get (im_instances im2) i = Some x \<and> in_result x = Some r)"
    if evs: "\<forall>t. Some t \<in> set evs \<longrightarrow> M t" and run: "\<forall>d. run_protocol E d i prot (backlogged im i @ messages_for i evs) False = Some (Returned r)" for evs r
  proof -
    let ?im = "fold im_event evs im1" and ?tk = "\<lparr>tk_instance_id = i, tk_protocol = prot, tk_inbox = backlogged im i @ messages_for i evs\<rparr>"
    have e: "tasks_of i ?im = [?tk]" "im_instances ?im = im_instances im1" "im_commands ?im = []" "im_replies ?im = im_replies im1"
      using tasks_of_events [OF t1 x(1-3), of evs] im1(1) by simp_all
    have ok2: "im_ok E Q M km ?im" by (rule im_ok_steps [OF im_event_steps [OF evs] ok1])
    have "?tk \<in> set (tasks_of i ?im)" using e(1) by simp
    then have tk: "?tk \<in> set (im_tasks ?im)" by (simp add: tasks_of_def)
    have "ic_get (im_instances ?im) i = Some x" using x(1) e(2) by simp
    from task_result_stored [OF ok2 e(3) tk _ this x(4), of undefined r] run e(4) im1(2)
    obtain im2 y where "(im_step E Q M)\<^sup>*\<^sup>* ?im im2" "im_replies im2 = im_replies im @ [CreatedReply a (Ok i), SyncReply s r]"
        "ic_get (im_instances im2) i = Some y" "in_result y = Some r" by auto
    moreover have "\<exists>tk. tasks_of i ?im = [tk] \<and> (\<forall>d. run_protocol E d i (tk_protocol tk) (tk_inbox tk) False = Some (Returned r))"
      using e(1) run by (intro exI [of _ ?tk]) simp
    ultimately show ?thesis by blast
  qed
  with s1 c1 show ?thesis by blast
qed

text \<open>The same for a decryption: enough valid shares make the task return the message, whatever it draws.\<close>

lemma decryption_task_returns:
  assumes dep: "bz03_deployment (ne_codec E) (ne_backend E) (ne_aead E) g k n x rnd keys" "j < n" "enc_ok msg d"
    and ct: "tc_encrypt (ne_backend E) (ne_aead E) msg label (PkBz03 (dlsk_pubkey (keys ! j))) d = Some (Ok ct)"
    and ts: "list_all2 (carries_share (ne_codec E) (ne_backend E) (ne_decryption_json E)) ts shs" "shs \<noteq> []"
      "\<forall>sh\<in>set shs. share_tag_ok g sh \<and> share_id_in_range n sh"
    and enough: "k \<le> Suc (length (accepted_shares ds_get_id
      (\<lambda>sh. tc_verify_share (ne_backend E) sh ct (PkBz03 (dlsk_pubkey (keys ! j))) = Some (Ok True)) {of_nat (j + 1)} shs))"
    and inside: "\<forall>sh\<in>set shs. tc_verify_share (ne_backend E) sh ct (PkBz03 (dlsk_pubkey (keys ! j))) = Some (Ok True)
      \<longrightarrow> share_in_subgroup (ne_backend E) g sh"
  shows "\<forall>dr. run_protocol E dr i (PrCipher (cp_new (SkBz03 (keys ! j)) ct i)) ts False = Some (Returned (Ok msg))"
proof
  fix dr :: task_draws
  have ok: "cipher.ok (ne_backend E) (SkBz03 (keys ! j), ct)
      = (\<lambda>sh. tc_verify_share (ne_backend E) sh ct (PkBz03 (dlsk_pubkey (keys ! j))) = Some (Ok True))"
    unfolding cipher.ok_def by (simp add: cp_check_def)
  have car: "list_all2 (cipher.carries (ne_codec E) (ne_backend E) (ne_aead E) (ne_decryption_json E)) ts shs"
    using ts(1) by (simp add: carries_cipher list_all2_mono)
  from bz03_run_returns [OF dep ct car ts(2,3), unfolded ok, OF enough, of "td_scalars dr" i False] inside
  have "\<exists>ex. executor_run (cipher_round_protocol (ne_codec E) (ne_backend E) (ne_aead E) (ne_decryption_json E))
      (td_scalars dr) i (cp_new (SkBz03 (keys ! j)) ct i) ts False = Some (ex, Returned (Ok msg))" by blast
  then show "run_protocol E dr i (PrCipher (cp_new (SkBz03 (keys ! j)) ct i)) ts False = Some (Returned (Ok msg))" by auto
qed

definition served_by ::
  "'p node_env \<Rightarrow> ('p start_instance_request \<Rightarrow> bool) \<Rightarrow> (net_message \<Rightarrow> bool) \<Rightarrow> 'p instance_manager \<Rightarrow>
   'p instance_manager \<Rightarrow> bytes \<Rightarrow> prot_result \<Rightarrow> manager_reply list \<Rightarrow> bool" where
  "served_by E Q M im im' i r replies \<longleftrightarrow>
     (\<exists>tk. tasks_of i im' = [tk] \<and> (\<forall>dr. run_protocol E dr i (tk_protocol tk) (tk_inbox tk) False = Some (Returned r)))
     \<and> (\<exists>im2 x. (im_step E Q M)\<^sup>*\<^sup>* im' im2 \<and> im_replies im2 = im_replies im @ replies
       \<and> ic_get (im_instances im2) i = Some x \<and> in_result x = Some r)"

lemma decryption_served:
  assumes dep: "bz03_deployment (ne_codec E) (ne_backend E) (ne_aead E) g k n x rnd keys" "j < n" "enc_ok msg d"
    and ct: "tc_encrypt (ne_backend E) (ne_aead E) msg label (PkBz03 (dlsk_pubkey (keys ! j))) d = Some (Ok ct)"
    and key: "request_sk km (ReqDecryption ct) = Some (SkBz03 (keys ! j))" and Q: "Q (ReqDecryption ct)"
    and reach: "im_reachable E Q M km im" "im_commands im = []"
    and i: "assign_instance_id E (ReqDecryption ct) = Some i" "ic_get (im_instances im) i = None"
  shows "\<exists>im1. im_step E Q M (im\<lparr>im_commands := [CreateInstanceSync (ReqDecryption ct) a s]\<rparr>) im1
    \<and> im_command E im (CreateInstanceSync (ReqDecryption ct) a s) = Some im1
    \<and> (\<forall>evs shs. (\<forall>t. Some t \<in> set evs \<longrightarrow> M t)
        \<and> list_all2 (carries_share (ne_codec E) (ne_backend E) (ne_decryption_json E)) (backlogged im i @ messages_for i evs) shs
        \<and> shs \<noteq> [] \<and> (\<forall>sh\<in>set shs. share_tag_ok g sh \<and> share_id_in_range n sh)
        \<and> k \<le> Suc (length (accepted_shares ds_get_id
            (\<lambda>sh. tc_verify_share (ne_backend E) sh ct (PkBz03 (dlsk_pubkey (keys ! j))) = Some (Ok True)) {of_nat (j + 1)} shs)) \<longrightarrow>
        served_by E Q M im (fold im_event evs im1) i (Ok msg) [CreatedReply a (Ok i), SyncReply s (Ok msg)]
        \<or> (\<exists>sh\<in>set shs. tc_verify_share (ne_backend E) sh ct (PkBz03 (dlsk_pubkey (keys ! j))) = Some (Ok True)
             \<and> \<not> share_in_subgroup (ne_backend E) g sh))"
proof -
  let ?prot = "PrCipher (cp_new (SkBz03 (keys ! j)) ct i)" and ?cmd = "CreateInstanceSync (ReqDecryption ct) a s"
  have "request_protocol E i (ReqDecryption ct) (SkBz03 (keys ! j)) = Some ?prot" by simp
  from request_served [OF im_reachable_ok [OF reach(1)] reach(2) Q i key this, of a s]
  obtain im1 where im1: "im_step E Q M (im\<lparr>im_commands := [?cmd]\<rparr>) im1" "im_command E im ?cmd = Some im1"
    and served: "\<And>evs r. \<forall>t. Some t \<in> set evs \<longrightarrow> M t \<Longrightarrow>
      \<forall>d. run_protocol E d i ?prot (backlogged im i @ messages_for i evs) False = Some (Returned r) \<Longrightarrow>
      served_by E Q M im (fold im_event evs im1) i r [CreatedReply a (Ok i), SyncReply s r]"
    unfolding served_by_def by blast
  show ?thesis
  proof (intro exI [of _ im1] conjI allI impI disjCI im1, elim conjE)
    fix evs shs
    assume "\<not> (\<exists>sh\<in>set shs. tc_verify_share (ne_backend E) sh ct (PkBz03 (dlsk_pubkey (keys ! j))) = Some (Ok True)
             \<and> \<not> share_in_subgroup (ne_backend E) g sh)"
    then have inside: "\<forall>sh\<in>set shs. tc_verify_share (ne_backend E) sh ct (PkBz03 (dlsk_pubkey (keys ! j))) = Some (Ok True)
        \<longrightarrow> share_in_subgroup (ne_backend E) g sh" by blast
    assume "\<forall>t. Some t \<in> set evs \<longrightarrow> M t"
      and "list_all2 (carries_share (ne_codec E) (ne_backend E) (ne_decryption_json E)) (backlogged im i @ messages_for i evs) shs"
        "shs \<noteq> []" "\<forall>sh\<in>set shs. share_tag_ok g sh \<and> share_id_in_range n sh"
        "k \<le> Suc (length (accepted_shares ds_get_id
          (\<lambda>sh. tc_verify_share (ne_backend E) sh ct (PkBz03 (dlsk_pubkey (keys ! j))) = Some (Ok True)) {of_nat (j + 1)} shs))"
    from served [OF this(1) decryption_task_returns [OF dep ct this(2-5) inside]]
    show "served_by E Q M im (fold im_event evs im1) i (Ok msg) [CreatedReply a (Ok i), SyncReply s (Ok msg)]" .
  qed
qed

subsection \<open>A node with one key\<close>

definition toy_node :: "decryption_wire json \<Rightarrow> int node_env" where
  "toy_node J = \<lparr>ne_codec = unary_codec, ne_backend = z11_backend, ne_aead = plain_aead, ne_jac = unit_symbol,
     ne_hex = (\<lambda>_. [1]), ne_orders = insertion_orders, ne_rng = counting_rng, ne_show_err = (\<lambda>_. ''''),
     ne_decryption_json = J, ne_coin_json = \<lparr>js_write = (\<lambda>_. []), js_parse = (\<lambda>_. None)\<rparr>,
     ne_signature_json = \<lparr>js_write = (\<lambda>_. []), js_parse = (\<lambda>_. None)\<rparr>,
     ne_frost_json = \<lparr>js_write = (\<lambda>_. []), js_parse = (\<lambda>_. None)\<rparr>\<rparr>"

definition toy_key_manager :: "bytes \<Rightarrow> int private_key_share \<Rightarrow> int key_manager" where
  "toy_key_manager i sk = \<lparr>km_keystore = \<lparr>ks_key_entries = [(i, \<lparr>ke_id = i, ke_is_default = True, ke_sk = Some sk,
     ke_pk = sk_get_public_key sk\<rparr>)], ks_filename = None\<rparr>, km_frost_precomputes = []\<rparr>"

abbreviation toy_requests :: "int ciphertext \<Rightarrow> int start_instance_request \<Rightarrow> bool" where
  "toy_requests ct \<equiv> \<lambda>request. request = ReqDecryption ct"

abbreviation toy_network :: "net_message \<Rightarrow> bool" where
  "toy_network \<equiv> \<lambda>t. t = data_message []"

lemma toy_node_sel [simp]:
  "ne_codec (toy_node J) = unary_codec" "ne_backend (toy_node J) = z11_backend" "ne_aead (toy_node J) = plain_aead"
  "ne_decryption_json (toy_node J) = J" "ne_hex (toy_node J) = (\<lambda>_. [1])"
  by (simp_all add: toy_node_def)

lemma toy_instance_id: "assign_instance_id (toy_node J) (ReqDecryption ct) = Some [1]"
  using assign_instance_id_total [of "toy_node J" "ReqDecryption ct"] by auto

lemma toy_request_sk:
  "request_sk (toy_key_manager (ct_get_key_id ct) sk) (ReqDecryption ct) = Some sk"
  by (simp add: request_sk_def toy_key_manager_def get_key_by_id_def)

lemma toy_new:
  "im_reachable E Q M km (im_new km)" "im_commands (im_new km) = []" "ic_get (im_instances (im_new km)) i = None"
  "backlogged (im_new km) i = []" "im_replies (im_new km) = []"
  by (rule im_reachable.start) (simp_all add: im_new_def ic_get_def ic_new_def backlogged_def)

lemma toy_service:
  obtains keys ct J shs where "bz03_deployment unary_codec z11_backend plain_aead Bn254 2 3 5 (\<lambda>_. 3) keys"
    "enc_ok [104, 105] \<lparr>ed_r = 4, ed_symm_key = replicate 32 7, ed_s = 0\<rparr>"
    "tc_encrypt z11_backend plain_aead [104, 105] [1] (PkBz03 (dlsk_pubkey (keys ! 0)))
       \<lparr>ed_r = 4, ed_symm_key = replicate 32 7, ed_s = 0\<rparr> = Some (Ok ct)"
    "list_all2 (carries_share unary_codec z11_backend J) [data_message []] shs" "shs \<noteq> []"
    "\<forall>sh\<in>set shs. share_tag_ok Bn254 sh \<and> share_in_subgroup z11_backend Bn254 sh \<and> share_id_in_range 3 sh"
    "2 \<le> Suc (length (accepted_shares ds_get_id
       (\<lambda>sh. tc_verify_share z11_backend sh ct (PkBz03 (dlsk_pubkey (keys ! 0))) = Some (Ok True)) {of_nat (0 + 1)} shs))"
    "\<forall>t sh. toy_network t \<and> carries_share unary_codec z11_backend J t sh \<longrightarrow> share_in_subgroup z11_backend Bn254 sh"
proof (rule toy_cipher_run)
  fix keys ct own b
  assume d: "bz03_deployment unary_codec z11_backend plain_aead Bn254 2 3 5 (\<lambda>_. 3) keys"
    "enc_ok [104, 105] \<lparr>ed_r = 4, ed_symm_key = replicate 32 7, ed_s = 0\<rparr>"
    "tc_encrypt z11_backend plain_aead [104, 105] [1] (PkBz03 (dlsk_pubkey (keys ! 0)))
       \<lparr>ed_r = 4, ed_symm_key = replicate 32 7, ed_s = 0\<rparr> = Some (Ok ct)"
    "list_all2 (carries_share unary_codec z11_backend (same_json b b)) [data_message []] [own]"
    "\<forall>sh\<in>set [own]. share_tag_ok Bn254 sh \<and> share_in_subgroup z11_backend Bn254 sh \<and> share_id_in_range 3 sh"
    "2 \<le> Suc (length (accepted_shares ds_get_id
       (\<lambda>sh. tc_verify_share z11_backend sh ct (PkBz03 (dlsk_pubkey (keys ! 0))) = Some (Ok True)) {of_nat (0 + 1)} [own]))"
  have "\<forall>t sh. toy_network t \<and> carries_share unary_codec z11_backend (same_json b b) t sh \<longrightarrow> share_in_subgroup z11_backend Bn254 sh"
    using d(4,5) by (auto simp: carries_share_def)
  from that [OF d(1-4) _ d(5,6) this] show thesis by simp
qed

text \<open>The node has served one decryption request.\<close>

lemma toy_served:
  assumes d: "bz03_deployment unary_codec z11_backend plain_aead Bn254 2 3 5 (\<lambda>_. 3) keys"
    "enc_ok [104, 105] \<lparr>ed_r = 4, ed_symm_key = replicate 32 7, ed_s = 0\<rparr>"
    "tc_encrypt z11_backend plain_aead [104, 105] [1] (PkBz03 (dlsk_pubkey (keys ! 0)))
       \<lparr>ed_r = 4, ed_symm_key = replicate 32 7, ed_s = 0\<rparr> = Some (Ok ct)"
    "list_all2 (carries_share unary_codec z11_backend J) [data_message []] shs" "shs \<noteq> []"
    "\<forall>sh\<in>set shs. share_tag_ok Bn254 sh \<and> share_in_subgroup z11_backend Bn254 sh \<and> share_id_in_range 3 sh"
    "2 \<le> Suc (length (accepted_shares ds_get_id
       (\<lambda>sh. tc_verify_share z11_backend sh ct (PkBz03 (dlsk_pubkey (keys ! 0))) = Some (Ok True)) {of_nat (0 + 1)} shs))"
  shows "\<exists>im x. im_reachable (toy_node J) (toy_requests ct) toy_network (toy_key_manager (ct_get_key_id ct) (SkBz03 (keys ! 0))) im
    \<and> im_replies im = [CreatedReply 7 (Ok [1]), SyncReply 8 (Ok [104, 105])]
    \<and> ic_get (im_instances im) [1] = Some x \<and> in_result x = Some (Ok [104, 105])"
proof -
  let ?E = "toy_node J" and ?km = "toy_key_manager (ct_get_key_id ct) (SkBz03 (keys ! 0))"
    and ?cmd = "CreateInstanceSync (ReqDecryption ct) 7 8"
  let ?evs = "[None, Some (data_message [])]"
  have e: "messages_for [1] ?evs = [data_message []]"
    by (simp add: messages_for_def List.map_filter_simps data_message_def)
  from decryption_served [where E = ?E and Q = "toy_requests ct" and M = toy_network and a = 7 and s = 8, unfolded toy_node_sel,
      OF d(1) zero_less_numeral d(2,3) toy_request_sk refl toy_new(1,2) toy_instance_id toy_new(3)]
  obtain im1 where im1: "im_step ?E (toy_requests ct) toy_network ((im_new ?km)\<lparr>im_commands := [?cmd]\<rparr>) im1"
    and served: "served_by ?E (toy_requests ct) toy_network (im_new ?km) (fold im_event ?evs im1) [1] (Ok [104, 105])
      [CreatedReply 7 (Ok [1]), SyncReply 8 (Ok [104, 105])]"
    using d(4-7) e
    by (elim exE conjE) (drule spec [of _ ?evs], drule spec [of _ shs], auto simp: toy_new(4) simp del: im_command.simps)
  from served obtain im x where st: "(im_step ?E (toy_requests ct) toy_network)\<^sup>*\<^sup>* (fold im_event ?evs im1) im"
    and im: "im_replies im = [CreatedReply 7 (Ok [1]), SyncReply 8 (Ok [104, 105])]"
      "ic_get (im_instances im) [1] = Some x" "in_result x = Some (Ok [104, 105])"
    unfolding served_by_def by (auto simp: toy_new(5))
  have "(im_step ?E (toy_requests ct) toy_network)\<^sup>*\<^sup>* im1 (fold im_event ?evs im1)" by (rule im_event_steps) simp
  with im1 st have st: "(im_step ?E (toy_requests ct) toy_network)\<^sup>*\<^sup>* ((im_new ?km)\<lparr>im_commands := [?cmd]\<rparr>) im" by simp
  have "im_step ?E (toy_requests ct) toy_network (im_new ?km) ((im_new ?km)\<lparr>im_commands := [?cmd]\<rparr>)"
    using im_step.request [of "toy_requests ct" ?cmd ?E toy_network "im_new ?km"] by (simp add: toy_new(2))
  from im_reachable_steps [OF st im_reachable.step [OF toy_new(1) this]] im show ?thesis by blast
qed

lemma toy_manager:
  obtains keys ct J im x where "bz03_deployment unary_codec z11_backend plain_aead Bn254 2 3 5 (\<lambda>_. 3) keys"
    "im_reachable (toy_node J) (toy_requests ct) toy_network (toy_key_manager (ct_get_key_id ct) (SkBz03 (keys ! 0))) im"
    "im_replies im = [CreatedReply 7 (Ok [1]), SyncReply 8 (Ok [104, 105])]"
    "ic_get (im_instances im) [1] = Some x" "in_result x = Some (Ok [104, 105])"
proof (rule toy_service)
  fix keys ct J shs
  assume d: "bz03_deployment unary_codec z11_backend plain_aead Bn254 2 3 5 (\<lambda>_. 3) keys"
    "enc_ok [104, 105] \<lparr>ed_r = 4, ed_symm_key = replicate 32 7, ed_s = 0\<rparr>"
    "tc_encrypt z11_backend plain_aead [104, 105] [1] (PkBz03 (dlsk_pubkey (keys ! 0)))
       \<lparr>ed_r = 4, ed_symm_key = replicate 32 7, ed_s = 0\<rparr> = Some (Ok ct)"
    "list_all2 (carries_share unary_codec z11_backend J) [data_message []] shs" "shs \<noteq> []"
    "\<forall>sh\<in>set shs. share_tag_ok Bn254 sh \<and> share_in_subgroup z11_backend Bn254 sh \<and> share_id_in_range 3 sh"
    "2 \<le> Suc (length (accepted_shares ds_get_id
       (\<lambda>sh. tc_verify_share z11_backend sh ct (PkBz03 (dlsk_pubkey (keys ! 0))) = Some (Ok True)) {of_nat (0 + 1)} shs))"
  from toy_served [OF d] show thesis by (elim exE conjE) (rule that [OF d(1)])
qed

text \<open>A message that cannot be parsed panics the task of its instance.\<close>

definition deaf_json :: "decryption_wire json" where
  "deaf_json = \<lparr>js_write = (\<lambda>_. []), js_parse = (\<lambda>_. None)\<rparr>"

lemma toy_panic_run:
  assumes "bz03_deployment unary_codec z11_backend plain_aead Bn254 2 3 5 (\<lambda>_. 3) keys"
    "enc_ok [104, 105] \<lparr>ed_r = 4, ed_symm_key = replicate 32 7, ed_s = 0\<rparr>"
    "tc_encrypt z11_backend plain_aead [104, 105] [1] (PkBz03 (dlsk_pubkey (keys ! 0)))
       \<lparr>ed_r = 4, ed_symm_key = replicate 32 7, ed_s = 0\<rparr> = Some (Ok ct)"
  shows "run_protocol (toy_node deaf_json) d [1] (PrCipher (cp_new (SkBz03 (keys ! 0)) ct [1])) [data_message []] False = None"
proof -
  let ?c = "(SkBz03 (keys ! 0), ct)" and ?s = "cp_new (SkBz03 (keys ! 0)) ct [1]"
  let ?P = "cipher_round_protocol unary_codec z11_backend plain_aead deaf_json"
  obtain own where f: "\<And>d. cp_produce z11_backend ?c d = Some (Ok own)"
    "\<And>m. dm_share m = Some own \<Longrightarrow> \<exists>n. rp_wrap ?P [1] m = Some (Ok n)"
    by (rule bz03_run_facts [OF assms(1) zero_less_numeral assms(2,3)]) blast
  obtain ex where "executor_run ?P (td_scalars d) [1] ?s [data_message []] False = ex_loop ?P (td_scalars d) False ex [data_message []]"
    using cipher.run_start [of ?c ?s z11_backend "td_scalars d" own unary_codec plain_aead deaf_json "[1]" "[data_message []]" False,
        OF cp_new_fresh f] by blast
  moreover have "ex_loop ?P (td_scalars d) False ex [data_message []] = None"
    by (simp add: ex_deliver_def cipher_round_protocol_def unwrap_net_def deaf_json_def)
  ultimately show ?thesis by simp
qed

lemma toy_panicked:
  obtains ct km im where "im_reachable (toy_node deaf_json) (toy_requests ct) toy_network km im" "im_panicked im = [[1]]"
proof (rule toy_deployment [of 2])
  fix keys :: "int bz03_private_key list" and ct' :: "int bz03_ciphertext"
  let ?ct = "CtBz03 ct'"
  let ?E = "toy_node deaf_json" and ?km = "toy_key_manager (ct_get_key_id ?ct) (SkBz03 (keys ! 0))" and ?prot = "PrCipher (cp_new (SkBz03 (keys ! 0)) ?ct [1])"
  let ?cmd = "CreateInstanceSync (ReqDecryption ?ct) 7 8"
  assume d: "bz03_deployment unary_codec z11_backend plain_aead Bn254 2 3 5 (\<lambda>_. 3) keys"
    "enc_ok [104, 105] \<lparr>ed_r = 4, ed_symm_key = replicate 32 7, ed_s = 0\<rparr>"
    "tc_encrypt z11_backend plain_aead [104, 105] [1] (PkBz03 (dlsk_pubkey (keys ! 0)))
       \<lparr>ed_r = 4, ed_symm_key = replicate 32 7, ed_s = 0\<rparr> = Some (Ok ?ct)"
  have prot: "request_protocol ?E [1] (ReqDecryption ?ct) (SkBz03 (keys ! 0)) = Some ?prot" by simp
  have r0: "im_reachable ?E (toy_requests ?ct) toy_network ?km ((im_new ?km)\<lparr>im_commands := [?cmd]\<rparr>)"
    using im_reachable.step [OF toy_new(1) im_step.request [of "toy_requests ?ct" ?cmd ?E toy_network "im_new ?km"]] by (simp add: toy_new(2))
  obtain im1 x where s1: "im_step ?E (toy_requests ?ct) toy_network ((im_new ?km)\<lparr>im_commands := [?cmd]\<rparr>) im1"
    and c1: "im_command ?E (im_new ?km) ?cmd = Some im1"
    and t1: "im_tasks im1 = im_tasks (im_new ?km) @ [\<lparr>tk_instance_id = [1], tk_protocol = ?prot, tk_inbox = backlogged (im_new ?km) [1]\<rparr>]"
    and x: "ic_get (im_instances im1) [1] = Some x" "\<not> in_finished x" "in_message_channel_sender x"
    using request_started [OF im_ok_new [of ?E "toy_requests ?ct" toy_network ?km] toy_new(2) refl toy_instance_id toy_new(3)
        toy_request_sk prot, of 7 8] by blast
  let ?im2 = "im_event (Some (data_message [])) im1"
  have "im_tasks (im_new ?km) = []" by (simp add: im_new_def)
  then have "tasks_of [1] im1 = [\<lparr>tk_instance_id = [1], tk_protocol = ?prot, tk_inbox = []\<rparr>]"
    using t1 by (simp add: tasks_of_def toy_new(4))
  from tasks_of_event [OF this x, of "Some (data_message [])"]
  have "tasks_of [1] ?im2 = [\<lparr>tk_instance_id = [1], tk_protocol = ?prot, tk_inbox = [data_message []]\<rparr>]"
    by (simp add: messages_for_def List.map_filter_simps data_message_def)
  then have tk: "\<lparr>tk_instance_id = [1], tk_protocol = ?prot, tk_inbox = [data_message []]\<rparr> \<in> set (im_tasks ?im2)"
    by (metis (no_types) filter_is_subset list.set_intros(1) subsetD tasks_of_def)
  have r2: "im_reachable ?E (toy_requests ?ct) toy_network ?km ?im2"
    using im_reachable.step [OF im_reachable.step [OF r0 s1] im_step.message [of toy_network "data_message []"]] by simp
  have p: "im_panicked ?im2 = []" using im_command_panicked [OF c1] by (simp add: im_new_def)
  show thesis
    by (rule that [OF im_reachable.step [OF r2 im_step.task_panics [OF tk]]])
      (use toy_panic_run [OF d] p in simp_all)
qed auto

theorem instance_manager_invariant_witness:
  "(\<exists>J ct km im. im_reachable (toy_node J) (toy_requests ct) toy_network km im
     \<and> [1] \<in> set (ic_terminated_instances (im_instances im)) \<and> [1] \<notin> set (im_open im))
   \<and> (\<exists>ct km im x. im_reachable (toy_node deaf_json) (toy_requests ct) toy_network km im \<and> im_panicked im = [[1]]
     \<and> im_tasks im = [] \<and> ic_get (im_instances im) [1] = Some x \<and> in_result x = None)"
proof (intro conjI)
  show "\<exists>ct km im x. im_reachable (toy_node deaf_json) (toy_requests ct) toy_network km im \<and> im_panicked im = [[1]]
     \<and> im_tasks im = [] \<and> ic_get (im_instances im) [1] = Some x \<and> in_result x = None"
  proof (rule toy_panicked)
    fix ct km im
    assume im: "im_reachable (toy_node deaf_json) (toy_requests ct) toy_network km im" "im_panicked im = [[1]]"
    note inv = instance_manager_invariant [OF im(1)]
    have "[1] \<in> set (im_open im)" "distinct (im_open im)" using inv im(2) by (simp_all add: im_open_def)
    then obtain x where x: "ic_get (im_instances im) [1] = Some x" "in_result x = None" using inv by blast
    have "tk_instance_id tk = [1]" if "tk \<in> set (im_tasks im)" for tk
    proof -
      have "started (toy_node deaf_json) (toy_requests ct) km (tk_instance_id tk) (tk_protocol tk)"
        using im_reachable_ok [OF im(1)] that by (auto simp: im_ok_def task_ok_def)
      then show ?thesis by (auto simp: started_def toy_instance_id simp del: assign_instance_id.simps)
    qed
    then have "im_tasks im = []" using \<open>distinct (im_open im)\<close> im(2) by (cases "im_tasks im") (auto simp: im_open_def)
    then show ?thesis using im x by blast
  qed
  show "\<exists>J ct km im. im_reachable (toy_node J) (toy_requests ct) toy_network km im
     \<and> [1] \<in> set (ic_terminated_instances (im_instances im)) \<and> [1] \<notin> set (im_open im)"
  proof (rule toy_manager)
    fix keys ct J im x
    assume im: "im_reachable (toy_node J) (toy_requests ct) toy_network (toy_key_manager (ct_get_key_id ct) (SkBz03 (keys ! 0))) im"
      "ic_get (im_instances im) [1] = Some x" "in_result x = Some (Ok [104, 105])"
    from instance_manager_invariant [OF im(1)] im(2,3)
    have "[1] \<in> set (ic_terminated_instances (im_instances im))" "[1] \<notin> set (im_open im)" by simp_all
    with im(1) show ?thesis by blast
  qed
qed

theorem results_produced_witness:
  "\<exists>J ct km im. im_reachable (toy_node J) (toy_requests ct) toy_network km im
   \<and> SyncReply 8 (Ok [104, 105]) \<in> set (im_replies im) \<and> produced (toy_node J) (toy_requests ct) toy_network km [1] (Ok [104, 105])"
proof (rule toy_manager)
  fix keys ct J im x
  assume im: "im_reachable (toy_node J) (toy_requests ct) toy_network (toy_key_manager (ct_get_key_id ct) (SkBz03 (keys ! 0))) im"
    "im_replies im = [CreatedReply 7 (Ok [1]), SyncReply 8 (Ok [104, 105])]"
    "ic_get (im_instances im) [1] = Some x" "in_result x = Some (Ok [104, 105])"
  from results_produced [OF im(1)] im(3,4)
  have "produced (toy_node J) (toy_requests ct) toy_network (toy_key_manager (ct_get_key_id ct) (SkBz03 (keys ! 0))) [1] (Ok [104, 105])"
    by blast
  with im(1,2) show ?thesis by fastforce
qed

theorem decryption_service_sound_witness:
  "\<exists>J ct km im x v. im_reachable (toy_node J) (toy_requests ct) toy_network km im
   \<and> ic_get (im_instances im) [1] = Some x \<and> in_result x = Some (Ok v) \<and> v = [104, 105]"
proof (rule toy_service)
  fix keys ct J shs
  assume d: "bz03_deployment unary_codec z11_backend plain_aead Bn254 2 3 5 (\<lambda>_. 3) keys"
    "enc_ok [104, 105] \<lparr>ed_r = 4, ed_symm_key = replicate 32 7, ed_s = 0\<rparr>"
    "tc_encrypt z11_backend plain_aead [104, 105] [1] (PkBz03 (dlsk_pubkey (keys ! 0)))
       \<lparr>ed_r = 4, ed_symm_key = replicate 32 7, ed_s = 0\<rparr> = Some (Ok ct)"
    "list_all2 (carries_share unary_codec z11_backend J) [data_message []] shs" "shs \<noteq> []"
    "\<forall>sh\<in>set shs. share_tag_ok Bn254 sh \<and> share_in_subgroup z11_backend Bn254 sh \<and> share_id_in_range 3 sh"
    "2 \<le> Suc (length (accepted_shares ds_get_id
       (\<lambda>sh. tc_verify_share z11_backend sh ct (PkBz03 (dlsk_pubkey (keys ! 0))) = Some (Ok True)) {of_nat (0 + 1)} shs))"
    "\<forall>t sh. toy_network t \<and> carries_share unary_codec z11_backend J t sh \<longrightarrow> share_in_subgroup z11_backend Bn254 sh"
  from toy_served [OF d(1-7)] obtain im x v where
    im: "im_reachable (toy_node J) (toy_requests ct) toy_network (toy_key_manager (ct_get_key_id ct) (SkBz03 (keys ! 0))) im"
      "ic_get (im_instances im) [1] = Some x" "in_result x = Some (Ok v)" by blast
  have u: "\<forall>request. toy_requests ct request \<and> assign_instance_id (toy_node J) request = Some [1] \<longrightarrow> request = ReqDecryption ct" by simp
  from decryption_service_sound [where E = "toy_node J", unfolded toy_node_sel, OF d(1) _ d(2,3) toy_request_sk u im] d(8)
  have "v = [104, 105]" by auto
  with im show ?thesis by blast
qed

end
