(* ===== verification/QC_InstanceLimits.thy ===== *)
theory QC_InstanceLimits
  imports QC_InstanceService
begin

text \<open>
  The edges of the instance manager: when its task panics, requests with equal identifiers, messages
  that arrive before their instance starts, and what the cache keeps at capacity.
\<close>

subsection \<open>What stops the manager\<close>

text \<open>The constructor of a FROST protocol panics on the key of another scheme, and panics or hangs with \<open>SignerGroup::new\<close>.\<close>

lemma fp_new_returned:
  "returned (fp_new H rng key msg label opts precomputation) = None \<longleftrightarrow>
     (\<forall>k. key \<noteq> SkFrost k) \<or> signer_group_new H rng (sk_get_threshold key) msg = Some None
     \<or> signer_group_new H rng (sk_get_threshold key) msg = None"
  by (cases key) (auto simp: fp_new_def returned_eq)

lemma request_protocol_None:
  "request_protocol E i request key = None \<longleftrightarrow> (\<exists>message label g key_id. request = ReqSignature message label Frost g key_id
     \<and> ((\<forall>k. key \<noteq> SkFrost k) \<or> signer_group_new (ne_orders E) (ne_rng E) (sk_get_threshold key) message = Some None
        \<or> signer_group_new (ne_orders E) (ne_rng E) (sk_get_threshold key) message = None))"
  by (cases request) (auto simp: fp_new_returned)

lemma im_start_None:
  assumes ok: "im_ok E Q M km im" and Q: "Q request"
  shows "im_start E im request s = None \<longleftrightarrow> (\<exists>i key message label g key_id. assign_instance_id E request = Some i
    \<and> ic_get (im_instances im) i = None \<and> request_sk km request = Some key
    \<and> request = ReqSignature message label Frost g key_id
    \<and> ((\<forall>k. key \<noteq> SkFrost k) \<or> signer_group_new (ne_orders E) (ne_rng E) (sk_get_threshold key) message = Some None
       \<or> signer_group_new (ne_orders E) (ne_rng E) (sk_get_threshold key) message = None))"
proof -
  obtain i where i: "assign_instance_id E request = Some i" using assign_instance_id_total by blast
  have "im_start E im request s = None \<longleftrightarrow>
      ic_get (im_instances im) i = None \<and> (\<exists>key. request_sk km request = Some key \<and> request_protocol E i request key = None)"
    using im_start_cases [OF ok Q i, of s] by (elim disjE exE conjE) simp_all
  then show ?thesis unfolding request_protocol_None using i by (simp del: assign_instance_id.simps)
qed

text \<open>
  C33.  What can bring the manager down.  In a reachable state, the manager does not get past a command in
  exactly two cases.  The command asks for a status and its client has gone: the \<open>expect\<close> on the answer
  panics.  Or the command starts a FROST signature under a new identifier, and the key found for it is
  the key of another scheme, which panics in the constructor, or its threshold makes \<open>SignerGroup::new\<close>
  panic or never return.  The \<open>unwrap\<close>s of \<open>attempt_eject\<close> and \<open>inform_of_termination\<close> never fail.
\<close>

theorem manager_panics_iff:
  assumes "im_reachable E Q M km im" "im_commands im = cmd # cmds"
  shows "im_command E (im\<lparr>im_commands := cmds\<rparr>) cmd = None \<longleftrightarrow>
    (\<exists>i a. cmd = GetInstanceStatus i a True)
    \<or> (\<exists>request i key message label g key_id a s. (cmd = CreateInstance request a \<or> cmd = CreateInstanceSync request a s)
     \<and> assign_instance_id E request = Some i \<and> ic_get (im_instances im) i = None \<and> request_sk km request = Some key
     \<and> request = ReqSignature message label Frost g key_id
     \<and> ((\<forall>k. key \<noteq> SkFrost k) \<or> signer_group_new (ne_orders E) (ne_rng E) (sk_get_threshold key) message = Some None
        \<or> signer_group_new (ne_orders E) (ne_rng E) (sk_get_threshold key) message = None))"
proof -
  have ok: "im_ok E Q M km im" by (rule im_reachable_ok [OF assms(1)])
  have cok: "command_ok E Q M km cmd" using ok assms(2) by (simp add: im_ok_def)
  note start = im_start_None [OF im_ok_pop [OF ok assms(2)], simplified]
  show ?thesis
  proof (cases cmd)
    case (CreateInstance request a)
    then show ?thesis using start [of request None] cok by (auto simp: bind_eq_None_conv split: sum.splits)
  next
    case (CreateInstanceSync request a s)
    then show ?thesis using start [of request "Some s"] cok by (auto simp: bind_eq_None_conv)
  next
    case (StoreResult i r)
    with im_terminate_cases [OF ok assms(2) _ _ set_result_upd(1), of i r] cok show ?thesis by auto
  next
    case (UpdateInstanceStatus i st e)
    then obtain err where err: "e = Some err" "produced E Q M km i (Err err)" using cok by (cases e) auto
    from im_terminate_cases [OF ok assms(2) _ err(2), of "set_result (Err err) \<circ> set_status st", OF _ set_result_upd(2)]
      UpdateInstanceStatus err(1) show ?thesis by auto
  qed simp
qed

subsection \<open>Requests with equal identifiers\<close>

text \<open>
  C34.  Requests are confused.  The identifier of a signing request does not depend on the message: once an
  instance for a label, scheme, group and key exists, a synchronous request to sign another message under
  them is told that instance's identifier, starts nothing, and its result responder is dropped.  The
  identifiers of the operations are not separated either: a coin named like a ciphertext's first
  component has the identifier of its decryption.
\<close>

theorem requests_confused:
  assumes "assign_instance_id E (ReqSignature m label scheme g key_id) = Some i" "ic_get (im_instances im) i \<noteq> None"
  shows "im_command E im (CreateInstanceSync (ReqSignature m' label scheme g key_id) a s) = Some (im_reply (CreatedReply a (Ok i)) im)
    \<and> assign_instance_id E (ReqCoin (ct_get_ck ct) scheme' g' None) = assign_instance_id E (ReqDecryption ct)"
proof -
  have "assign_instance_id E (ReqSignature m' label scheme g key_id) = Some i" using assms(1) by simp
  then show ?thesis using assms(2) im_start_eq [of E im "ReqSignature m' label scheme g key_id" "Some s"]
    by (simp del: assign_instance_id.simps(2))
qed

subsection \<open>Early messages\<close>

lemma map_of_tick:
  "distinct (map fst b) \<Longrightarrow> map_of (map (\<lambda>(i, v). (i, v\<lparr>bl_checked := True\<rparr>)) (filter (\<lambda>(i, v). bl_checked v = False) b)) i
    = (case map_of b i of None \<Rightarrow> None | Some v \<Rightarrow> if bl_checked v then None else Some (v\<lparr>bl_checked := True\<rparr>))"
proof (induction b)
  case (Cons p b)
  have "map_of b (fst p) = None" using Cons.prems by (simp add: map_of_eq_None_iff)
  with Cons show ?case by (cases p) (auto split: option.splits)
qed simp

lemma backlog_receive:
  assumes "ic_get (im_instances im) i = None" "\<forall>t\<in>set ts. nm_instance_id t = i" "distinct (map fst (im_backlog im))"
  shows "\<exists>b. fold im_receive ts im = im\<lparr>im_backlog := b\<rparr> \<and> distinct (map fst b)
    \<and> map_of b i = (case map_of (im_backlog im) i of
        None \<Rightarrow> (if ts = [] then None else Some \<lparr>bl_messages = ts, bl_checked = False\<rparr>)
      | Some v \<Rightarrow> Some (v\<lparr>bl_messages := bl_messages v @ ts\<rparr>))"
  using assms
proof (induction ts arbitrary: im)
  case Nil
  then show ?case by (auto intro!: exI [of _ "im_backlog im"] split: option.splits)
next
  case (Cons t ts)
  let ?v = "case map_of (im_backlog im) i of None \<Rightarrow> \<lparr>bl_messages = [t], bl_checked = False\<rparr>
    | Some v \<Rightarrow> v\<lparr>bl_messages := bl_messages v @ [t]\<rparr>"
  let ?im = "im\<lparr>im_backlog := AList.update i ?v (im_backlog im)\<rparr>"
  have "im_receive t im = ?im"
    using Cons.prems by (cases "map_of (im_backlog im) i") (simp_all add: im_receive_def)
  moreover have "map_of (im_backlog ?im) i = Some ?v" by (simp add: update_conv')
  moreover have "distinct (map fst (im_backlog ?im))" using Cons.prems(3) by (simp add: distinct_update)
  ultimately show ?case using Cons.IH [of ?im] Cons.prems(1,2) by (cases "map_of (im_backlog im) i") auto
qed

lemma backlogged_after:
  assumes new: "ic_get (im_instances im) i = None" "map_of (im_backlog im) i = None" "distinct (map fst (im_backlog im))"
    and ts: "\<forall>t\<in>set (ts @ us). nm_instance_id t = i" "ts \<noteq> []"
  defines "im1 \<equiv> fold im_receive us (im_tick (fold im_receive ts im))"
  shows "im_tasks im1 = im_tasks im" "im_instances im1 = im_instances im" "backlogged im1 i = ts @ us"
    "backlogged (im_tick im1) i = []"
proof -
  obtain b where b: "fold im_receive ts im = im\<lparr>im_backlog := b\<rparr>" "distinct (map fst b)"
      "map_of b i = Some \<lparr>bl_messages = ts, bl_checked = False\<rparr>"
    using backlog_receive [OF new(1) _ new(3), of ts] ts new(2) by auto
  let ?t = "\<lambda>b. map (\<lambda>(i, v). (i, v\<lparr>bl_checked := True\<rparr>)) (filter (\<lambda>(i, v). bl_checked v = False) b)"
  have "distinct (map fst (filter (\<lambda>(i, v). bl_checked v = False) b))" by (rule distinct_map_filter [OF b(2)])
  moreover have "map fst (?t b) = map fst (filter (\<lambda>(i, v). bl_checked v = False) b)" by (simp add: comp_def split_def)
  ultimately have d: "distinct (map fst (?t b))" by metis
  have v: "map_of (?t b) i = Some \<lparr>bl_messages = ts, bl_checked = True\<rparr>" unfolding map_of_tick [OF b(2)] b(3) by simp
  let ?im = "im\<lparr>im_backlog := ?t b\<rparr>"
  have tick: "im_tick (fold im_receive ts im) = ?im" by (simp add: im_tick_def b(1))
  have "ic_get (im_instances ?im) i = None" "\<forall>t\<in>set us. nm_instance_id t = i" "distinct (map fst (im_backlog ?im))"
    using new(1) ts(1) d by simp_all
  from backlog_receive [OF this] v obtain c where c: "im1 = ?im\<lparr>im_backlog := c\<rparr>" "distinct (map fst c)"
      "map_of c i = Some \<lparr>bl_messages = ts @ us, bl_checked = True\<rparr>"
    unfolding im1_def tick by auto
  show "im_tasks im1 = im_tasks im" "im_instances im1 = im_instances im" by (simp_all add: c(1))
  show "backlogged im1 i = ts @ us" by (simp add: c(1,3) backlogged_def)
  show "backlogged (im_tick im1) i = []" unfolding backlogged_def im_tick_def using map_of_tick [OF c(2), of i] c(3) by (simp add: c(1))
qed

text \<open>
  C35.  Early messages wait in order, for one tick.  Messages for an instance that has not started are
  handed to its task in the order of their arrival when it starts before the second tick of the backlog's
  timer.  At the second tick the whole entry is dropped, with the messages that came after the first
  tick and have not waited for a full interval.
\<close>

theorem early_messages:
  assumes reach: "im_reachable E Q M km im" and Q: "Q request" and i: "assign_instance_id E request = Some i"
    and new: "ic_get (im_instances im) i = None" "map_of (im_backlog im) i = None"
    and key: "request_sk km request = Some key" "request_protocol E i request key = Some prot"
    and ts: "\<forall>t\<in>set (ts @ us). M t \<and> nm_instance_id t = i" "ts \<noteq> []"
  defines "im1 \<equiv> fold im_receive us (im_tick (fold im_receive ts im))"
  shows "(\<exists>im'. im_start E im1 request s = Some (im', Ok i)
      \<and> im_tasks im' = im_tasks im @ [\<lparr>tk_instance_id = i, tk_protocol = prot, tk_inbox = ts @ us\<rparr>])
    \<and> (\<exists>im'. im_start E (im_tick im1) request s = Some (im', Ok i)
      \<and> im_tasks im' = im_tasks im @ [\<lparr>tk_instance_id = i, tk_protocol = prot, tk_inbox = []\<rparr>])"
proof -
  have "distinct (map fst (im_backlog im))" using im_reachable_ok [OF reach] by (simp add: im_ok_def)
  note b = backlogged_after [OF new this _ ts(2), of us, folded im1_def]
  have ids: "\<forall>t\<in>set (ts @ us). nm_instance_id t = i" using ts(1) by blast
  have "im_reachable E Q M km (im_tick (fold im_receive ts im))"
    using im_reachable_steps [OF fold_im_receive_steps reach] ts(1) by (auto intro: im_reachable.step im_step.tick)
  from im_reachable_steps [OF fold_im_receive_steps this, of us] have "im_reachable E Q M km im1" using ts(1) by (simp add: im1_def)
  then have ok: "im_ok E Q M km im1" "im_ok E Q M km (im_tick im1)" by (auto intro: im_reachable_ok im_ok_tick)
  have t: "im_tasks (im_tick im1) = im_tasks im1" "im_instances (im_tick im1) = im_instances im1" by (simp_all add: im_tick_def)
  show ?thesis using im_start_cases [OF ok(1) Q i, of s] im_start_cases [OF ok(2) Q i, of s] new(1) key
    by (auto simp: t b [OF ids] im_spawned_def)
qed

subsection \<open>The size of the cache\<close>

lemma ic_size:
  assumes "ic_ok c"
  shows "length (ic_instance_data c) = card (ic.running c) + length (ic_terminated_instances c)"
proof -
  have get: "ic_get c i = Some x \<longleftrightarrow> (i, x) \<in> set (ic_instance_data c)" for i x
    using assms by (simp add: ic_ok_def ic_get_def)
  have "fst ` set (ic_instance_data c) = ic.running c \<union> set (ic_terminated_instances c)"
    using assms unfolding ic_ok_def ic.running_def get by force
  moreover have "ic.running c \<inter> set (ic_terminated_instances c) = {}" using assms by (auto simp: ic_ok_def ic.running_def)
  moreover have "finite (fst ` set (ic_instance_data c))" by simp
  ultimately have "card (fst ` set (ic_instance_data c)) = card (ic.running c) + card (set (ic_terminated_instances c))"
    by (simp add: card_Un_disjoint)
  then show ?thesis using assms distinct_card [of "map fst (ic_instance_data c)"] distinct_card [of "ic_terminated_instances c"]
    by (simp add: ic_ok_def)
qed

lemma ic_capacity_put [simp]: "ic_capacity (ic_put c i x) = ic_capacity c"
  by (simp add: ic_put_def)

lemma ic_insert_size:
  assumes ok: "ic_ok c" and new: "ic_get c i = None" "\<not> in_finished x" and ins: "ic_insert c i x = Some c'"
  shows "ic_capacity c' = ic_capacity c
    \<and> ic_terminated_instances c' = (if ic_capacity c \<le> length (ic_instance_data c)
        then drop INSTANCE_CACHE_CLEANUP_SCAN_LENGTH (ic_terminated_instances c) else ic_terminated_instances c)
    \<and> (\<forall>j. ic_get c' j = (if j = i then Some x
         else if ic_capacity c \<le> length (ic_instance_data c) \<and> j \<in> set (take INSTANCE_CACHE_CLEANUP_SCAN_LENGTH (ic_terminated_instances c))
         then None else ic_get c j))"
proof (cases "ic_capacity c \<le> length (ic_instance_data c)")
  case True
  then show ?thesis using attempt_eject_spec [OF ok] ins by (auto simp: ic_insert_def)
qed (use ins in \<open>auto simp: ic_insert_def\<close>)

text \<open>
  An insertion at capacity forgets many results.  The cache then drops the first 5000 terminated
  instances, not just the oldest one, and with fewer all of them; every other instance is kept, and the size
  changes accordingly.
\<close>

theorem insertion_at_capacity:
  assumes ok: "ic_ok c" and new: "ic_get c i = None" "\<not> in_finished x" and full: "ic_capacity c \<le> length (ic_instance_data c)"
  shows "\<exists>c'. ic_insert c i x = Some c'
    \<and> length (ic_instance_data c') + min 5000 (length (ic_terminated_instances c)) = length (ic_instance_data c) + 1
    \<and> (\<forall>j. ic_get c' j = (if j = i then Some x else if j \<in> set (take 5000 (ic_terminated_instances c)) then None else ic_get c j))"
proof -
  obtain c' where c': "ic_insert c i x = Some c'" "ic_ok c'" using ic.insert_new [OF ok new] by blast
  note s = ic_insert_size [OF ok new c'(1)]
  have "i \<notin> ic.running c" "finite (ic.running c)"
    using new ok finite_subset [of "ic.running c" "fst ` set (ic_instance_data c)"]
    by (force simp: ic.running_def ic_get_def dest: map_of_SomeD)+
  then have "card (ic.running c') = card (ic.running c) + 1" using ic.running_insert_new [OF ok new c'(1)] by simp
  then show ?thesis using s full c' ic_size [OF ok] ic_size [OF c'(2)] by (auto simp: INSTANCE_CACHE_CLEANUP_SCAN_LENGTH_def)
qed

text \<open>The manager's cache: one entry per task, result on its way, panicked task or terminated instance.\<close>

lemma im_cache_size:
  assumes "im_ok E Q M km im"
  shows "length (ic_instance_data (im_instances im)) = length (im_open im) + length (ic_terminated_instances (im_instances im))"
  using assms ic_size [of "im_instances im"] distinct_card [of "im_open im"] by (simp add: im_ok_def)

lemma ic_size_dom:
  assumes "ic_ok c"
  shows "length (ic_instance_data c) = card (dom (ic_get c))"
proof -
  have "ic_get c = map_of (ic_instance_data c)" by (simp add: fun_eq_iff ic_get_def)
  then show ?thesis using assms distinct_card [of "map fst (ic_instance_data c)"]
    by (simp add: ic_ok_def dom_map_of_conv_image_fst)
qed

lemma im_terminate_capacity:
  "im_terminate i upd im = Some im' \<Longrightarrow> ic_capacity (im_instances im') = ic_capacity (im_instances im)"
  by (auto simp: im_terminate_def inform_of_termination_def get_result_sender_def im_reply_def bind_eq_Some_conv Let_def
      split: option.splits prod.splits)

text \<open>How one step changes the size of the cache.\<close>

definition cache_step :: "'p instance_manager \<Rightarrow> 'p instance_manager \<Rightarrow> bool" where
  "cache_step im im' \<longleftrightarrow> ic_capacity (im_instances im') = ic_capacity (im_instances im)
     \<and> length (ic_instance_data (im_instances im'))
         \<le> max (length (ic_instance_data (im_instances im))) (max (ic_capacity (im_instances im)) (length (im_open im')))"

lemma cache_step_same: "im_instances im' = im_instances im \<Longrightarrow> cache_step im im'"
  by (simp add: cache_step_def)

lemma cache_step_reply [simp]: "cache_step im (im_reply r im') = cache_step im im'"
  by (simp add: cache_step_def im_reply_def im_open_def)

lemma cache_step_start:
  assumes ok: "im_ok E Q M km im" and Q: "Q request" and start: "im_start E im request s = Some (im', r)"
  shows "cache_step im im'"
proof -
  obtain i where i: "assign_instance_id E request = Some i" using assign_instance_id_total by blast
  let ?inst = "instance_new i (request_scheme request) (request_group request) True s"
  have "im' = im \<or> ic_get (im_instances im) i = None \<and> (\<exists>prot c. ic_insert (im_instances im) i ?inst = Some c
      \<and> im' = im_spawned im i prot c \<and> im_ok E Q M km (im_spawned im i prot c))"
    using im_start_cases [OF ok Q i, of s]
  proof (elim disjE conjE)
    assume new: "ic_get (im_instances im) i = None"
      "\<exists>key prot c. request_sk km request = Some key \<and> request_protocol E i request key = Some prot
        \<and> ic_insert (im_instances im) i ?inst = Some c \<and> im_start E im request s = Some (im_spawned im i prot c, Ok i)
        \<and> im_ok E Q M km (im_spawned im i prot c)"
    from new(2) show ?thesis
      by (elim exE conjE, intro disjI2 conjI [OF new(1)] exI conjI) (use start in simp_all)
  qed (use start in simp_all)
  then consider "im' = im" | prot c where "ic_get (im_instances im) i = None" "ic_insert (im_instances im) i ?inst = Some c"
      "im' = im_spawned im i prot c" "im_ok E Q M km im'"
    by (elim disjE exE conjE) simp_all
  then show ?thesis
  proof cases
    case 2
    have "ic_ok (im_instances im)" "\<not> in_finished ?inst" using ok by (simp_all add: im_ok_def instance_new_def)
    note s = ic_insert_size [OF this(1) 2(1) this(2) 2(2)]
    have "length (im_open im') = Suc (length (im_open im))" by (simp add: 2(3) im_open_def im_spawned_def)
    then show ?thesis using s im_cache_size [OF ok] im_cache_size [OF 2(4)] 2(3)
      by (auto simp: cache_step_def im_spawned_def INSTANCE_CACHE_CLEANUP_SCAN_LENGTH_def)
  qed (simp add: cache_step_same)
qed

lemma cache_step_terminate:
  assumes ok: "im_ok E Q M km im" and cmd: "im_commands im = cmd # cmds" "pending cmd = [i]" "produced E Q M km i r"
    and upd: "\<And>x. in_finished (upd x) \<and> in_result (upd x) = Some r \<and> \<not> in_message_channel_sender (upd x)
      \<and> in_id (upd x) = in_id x \<and> in_result_sender (upd x) = in_result_sender x"
    and step: "im_terminate i upd (im\<lparr>im_commands := cmds\<rparr>) = Some im'"
  shows "cache_step im im'"
proof -
  obtain x c where x: "ic_get (im_instances im) i = Some x" "ic_get c = (ic_get (im_instances im))(i \<mapsto> (upd x)\<lparr>in_result_sender := None\<rparr>)"
      "im' = im_answered im cmds c (in_result_sender x) r" "im_ok E Q M km im'"
    using im_terminate_cases [OF ok cmd upd] step by (elim exE conjE) simp
  have c: "im_instances im' = c" by (cases "in_result_sender x") (simp_all add: x(3) im_answered_def im_reply_def)
  have "dom (ic_get c) = dom (ic_get (im_instances im))" using x(1,2) by auto
  moreover have "ic_ok (im_instances im)" "ic_ok c" using ok x(4) c by (simp_all add: im_ok_def)
  ultimately show ?thesis using im_terminate_capacity [OF step] c by (simp add: cache_step_def ic_size_dom)
qed

lemma cache_step_command:
  assumes ok: "im_ok E Q M km im" and cmd: "im_commands im = cmd # cmds"
    and step: "im_command E (im\<lparr>im_commands := cmds\<rparr>) cmd = Some im'"
  shows "cache_step im im'"
proof -
  have cok: "command_ok E Q M km cmd" using ok cmd by (simp add: im_ok_def)
  have pop: "cache_step (im\<lparr>im_commands := cmds\<rparr>) im' \<Longrightarrow> cache_step im im'" by (simp add: cache_step_def)
  show ?thesis
  proof (cases cmd)
    case (CreateInstance request a)
    then obtain im1 r where s: "im_start E (im\<lparr>im_commands := cmds\<rparr>) request None = Some (im1, r)"
        "im' = (case r of Inl _ \<Rightarrow> im1 | Inr i \<Rightarrow> im_reply (CreatedReply a (Ok i)) im1)"
      using step by (auto simp: bind_eq_Some_conv)
    have "cache_step (im\<lparr>im_commands := cmds\<rparr>) im1"
      using cache_step_start [OF im_ok_pop [OF ok cmd] _ s(1)] CreateInstance cok by simp
    then show ?thesis using s(2) by (intro pop) (simp split: sum.splits)
  next
    case (CreateInstanceSync request a sr)
    then obtain im1 r where s: "im_start E (im\<lparr>im_commands := cmds\<rparr>) request (Some sr) = Some (im1, r)"
        "im' = im_reply (CreatedReply a r) im1"
      using step by (auto simp: bind_eq_Some_conv)
    have "cache_step (im\<lparr>im_commands := cmds\<rparr>) im1"
      using cache_step_start [OF im_ok_pop [OF ok cmd] _ s(1)] CreateInstanceSync cok by simp
    then show ?thesis using s(2) by (intro pop) simp
  next
    case (GetInstanceStatus i a gone)
    then have "im' = im_reply (StatusReply a (map_option status_of (ic_get (im_instances im) i))) (im\<lparr>im_commands := cmds\<rparr>)"
      using step by (simp split: if_splits)
    then show ?thesis by (simp add: cache_step_same)
  next
    case (StoreResult i r)
    then show ?thesis using cache_step_terminate [OF ok cmd _ _ set_result_upd(1)] cok step by simp
  next
    case (UpdateInstanceStatus i st e)
    then obtain err where err: "e = Some err" "produced E Q M km i (Err err)" using cok by (cases e) auto
    show ?thesis
      by (rule cache_step_terminate [OF ok cmd _ err(2), of "set_result (Err err) \<circ> set_status st", OF _ set_result_upd(2)])
        (use UpdateInstanceStatus err(1) step in simp_all)
  qed
qed

lemma im_receive_instances [simp]: "im_instances (im_receive t im) = im_instances im"
  by (simp add: im_receive_def Let_def split: option.splits)

lemma im_step_cache: "im_step E Q M im im' \<Longrightarrow> im_ok E Q M km im \<Longrightarrow> cache_step im im'"
  by (erule im_stepE) (auto elim: cache_step_command simp: cache_step_same im_tick_def im_task_done_def im_task_panicked_def)

text \<open>
  C37.  The cache is bounded.  If the number of instances that run, have a result on its way or whose task
  has panicked never exceeds \<open>R\<close>, the cache never holds more than \<open>R\<close> or 10000 instances, whichever is
  larger.
\<close>

theorem cache_bounded:
  assumes "(\<lambda>im im'. im_step E Q M im im' \<and> length (im_open im') \<le> R)\<^sup>*\<^sup>* (im_new km) im"
  shows "length (ic_instance_data (im_instances im)) \<le> max 10000 R"
proof -
  have "im_ok E Q M km im \<and> ic_capacity (im_instances im) = 10000 \<and> length (ic_instance_data (im_instances im)) \<le> max 10000 R"
    using assms
  proof (induction rule: rtranclp_induct)
    case base
    then show ?case by (simp add: im_ok_new) (simp add: im_new_def ic_new_def DEFAULT_INSTANCE_CACHE_SIZE_def)
  next
    case (step im im')
    then have "im_ok E Q M km im'" "cache_step im im'" using im_ok_step im_step_cache by blast+
    then show ?case using step by (auto simp: cache_step_def)
  qed
  then show ?thesis by blast
qed

subsection \<open>Instances of the properties\<close>

theorem manager_panics_iff_witness:
  "\<exists>J km im. im_reachable (toy_node J) (\<lambda>_. True) toy_network km im
   \<and> im_commands im = [CreateInstance (ReqSignature [5] [6] Frost Ed25519 (Some [2])) 7]
   \<and> im_command (toy_node J) (im\<lparr>im_commands := []\<rparr>) (CreateInstance (ReqSignature [5] [6] Frost Ed25519 (Some [2])) 7) = None"
proof (rule toy_manager)
  fix keys :: "int bz03_private_key list" and J
  let ?E = "toy_node J" and ?km = "toy_key_manager [2] (SkBz03 (keys ! 0))"
  let ?req = "ReqSignature [5] [6] Frost Ed25519 (Some [2]) :: int start_instance_request"
  let ?im = "(im_new ?km)\<lparr>im_commands := im_commands (im_new ?km) @ [CreateInstance ?req 7]\<rparr>"
  have r: "im_reachable ?E (\<lambda>_. True) toy_network ?km ?im"
    by (rule im_reachable.step [OF im_reachable.start im_step.request]) simp
  have c: "im_commands ?im = [CreateInstance ?req 7]" by (simp add: toy_new(2))
  obtain i where i: "assign_instance_id ?E ?req = Some i" using assign_instance_id_total by blast
  have new: "ic_get (im_instances ?im) i = None" using toy_new(3) by simp
  have sk: "request_sk ?km ?req = Some (SkBz03 (keys ! 0))"
    by (simp add: request_sk_def toy_key_manager_def get_key_by_id_def)
  have "\<forall>k. SkBz03 (keys ! 0) \<noteq> SkFrost k" by simp
  then have "im_command ?E (?im\<lparr>im_commands := []\<rparr>) (CreateInstance ?req 7) = None"
    unfolding manager_panics_iff [OF r c] using i new sk by blast
  with r c show ?thesis by blast
qed

theorem requests_confused_witness:
  "\<exists>(E :: int node_env) im i. assign_instance_id E (ReqSignature [5] [6] Bls04 Bn254 None) = Some i \<and> length i = 32
   \<and> im_command E im (CreateInstanceSync (ReqSignature [9] [6] Bls04 Bn254 None) 7 8) = Some (im_reply (CreatedReply 7 (Ok i)) im)"
proof -
  let ?E = "(toy_node (same_json [] []))\<lparr>ne_hex := (\<lambda>x. x)\<rparr>"
  have wf: "hash_wf (process_array (process_array (process_array hash_init [6]) (ascii (scheme_str_name Bls04))) (ascii (group_str_name Bn254)))"
    by (intro process_array_wf hash_init_wf)
  from hash_total [OF this]
  obtain i where i: "assign_instance_id ?E (ReqSignature [5] [6] Bls04 Bn254 None) = Some i" "length i = 32"
    by (auto simp del: process_array_def)
  let ?im = "(im_new \<lparr>km_keystore = ks_new, km_frost_precomputes = []\<rparr> :: int instance_manager)\<lparr>im_instances := ic_put (ic_new None) i (instance_new i Bls04 Bn254 True None)\<rparr>"
  have "ic_get (im_instances ?im) i \<noteq> None" by simp
  from requests_confused [OF i(1) this] i show ?thesis by blast
qed

theorem early_messages_witness:
  "\<exists>J (ct :: int ciphertext) km im' prot. im_start (toy_node J) (fold im_receive [data_message []] (im_tick (fold im_receive [data_message []] (im_new km))))
      (ReqDecryption ct) None = Some (im', Ok [1])
   \<and> im_tasks im' = [\<lparr>tk_instance_id = [1], tk_protocol = prot, tk_inbox = [data_message [], data_message []]\<rparr>]"
proof (rule toy_manager)
  fix keys :: "int bz03_private_key list" and ct :: "int ciphertext" and J
  let ?km = "toy_key_manager (ct_get_key_id ct) (SkBz03 (keys ! 0))"
  have ts: "\<forall>t\<in>set ([data_message []] @ [data_message []]). toy_network t \<and> nm_instance_id t = [1]"
    by (simp add: data_message_def)
  have p: "request_protocol (toy_node J) [1] (ReqDecryption ct) (SkBz03 (keys ! 0)) = Some (PrCipher (cp_new (SkBz03 (keys ! 0)) ct [1]))"
    by simp
  have b: "map_of (im_backlog (im_new ?km)) [1] = None" "im_tasks (im_new ?km) = []" by (simp_all add: im_new_def)
  have ne: "[data_message []] \<noteq> []" by simp
  from early_messages [of "toy_node J" "toy_requests ct", OF toy_new(1) refl toy_instance_id toy_new(3) b(1) toy_request_sk p ts ne, of None,
      unfolded b(2)]
  show ?thesis by (elim exE conjE, intro exI conjI) simp_all
qed

theorem insertion_at_capacity_witness:
  "\<exists>c c'. ic_get c [3] \<noteq> None \<and> ic_insert c [4] (instance_new [4] Bz03 Bn254 True None) = Some c' \<and> ic_get c' [3] = None
   \<and> ic_get c' [4] \<noteq> None"
proof -
  let ?y = "set_result (Ok []) (instance_new [3] Bz03 Bn254 True None)" and ?x = "instance_new [4] Bz03 Bn254 True None"
  let ?c = "\<lparr>ic_instance_data = [([3], ?y)], ic_capacity = 1, ic_terminated_instances = [[3]]\<rparr>"
  have c: "ic_ok ?c" "ic_get ?c [4] = None" "\<not> in_finished ?x" "ic_capacity ?c \<le> length (ic_instance_data ?c)" "ic_get ?c [3] \<noteq> None"
    by (simp_all add: ic_ok_def ic_get_def set_result_def instance_new_def)
  from insertion_at_capacity [OF c(1-4)]
  obtain c' where c': "ic_insert ?c [4] ?x = Some c'"
      "\<forall>j. ic_get c' j = (if j = [4] then Some ?x else if j \<in> set (take 5000 (ic_terminated_instances ?c)) then None else ic_get ?c j)"
    by blast
  have "ic_get c' [3] = None" "ic_get c' [4] \<noteq> None" using c'(2) by simp_all
  with c' c(5) show ?thesis by blast
qed

text \<open>With one request, at most one instance is open at any time.\<close>

lemma toy_open:
  assumes "im_ok (toy_node J) (toy_requests ct) M km im"
  shows "length (im_open im) \<le> 1"
proof -
  have s: "i = [1]" if "started (toy_node J) (toy_requests ct) km i prot" for i prot
    using that toy_instance_id [of J ct] by (auto simp: started_def simp del: assign_instance_id.simps)
  have "i = [1]" if i: "i \<in> set (im_open im)" for i
  proof -
    consider tk where "tk \<in> set (im_tasks im)" "i = tk_instance_id tk"
      | cmd where "cmd \<in> set (im_commands im)" "i \<in> set (pending cmd)"
      | "i \<in> set (im_panicked im)"
      using i unfolding im_open_def by auto
    then show ?thesis
    proof cases
      case 2
      then have "command_ok (toy_node J) (toy_requests ct) M km cmd" using assms by (simp add: im_ok_def)
      with 2(2) show ?thesis by (cases cmd) (auto simp: produced_def split: option.splits intro: s)
    qed (use assms in \<open>auto simp: im_ok_def task_ok_def panicked_def intro: s\<close>)
  qed
  then have "set (im_open im) \<subseteq> {[1]}" by blast
  moreover have "distinct (im_open im)" using assms by (simp add: im_ok_def)
  ultimately show ?thesis using card_mono [of "{[1]}" "set (im_open im)"] by (simp add: distinct_card)
qed

lemma toy_bounded:
  "im_reachable (toy_node J) (toy_requests ct) M km im
   \<Longrightarrow> (\<lambda>im im'. im_step (toy_node J) (toy_requests ct) M im im' \<and> length (im_open im') \<le> 1)\<^sup>*\<^sup>* (im_new km) im"
proof (induction rule: im_reachable.induct)
  case (step im im')
  have "length (im_open im') \<le> 1" by (rule toy_open [OF im_reachable_ok [OF im_reachable.step [OF step.hyps]]])
  with step show ?case by (intro rtranclp.rtrancl_into_rtrancl [OF step.IH]) simp
qed simp

theorem cache_bounded_witness:
  "\<exists>J ct km im. (\<lambda>im im'. im_step (toy_node J) (toy_requests ct) toy_network im im' \<and> length (im_open im') \<le> 1)\<^sup>*\<^sup>* (im_new km) im
   \<and> ic_get (im_instances im) [1] \<noteq> None \<and> length (ic_instance_data (im_instances im)) \<le> 10000"
proof (rule toy_manager)
  fix keys ct J im x
  assume im: "im_reachable (toy_node J) (toy_requests ct) toy_network (toy_key_manager (ct_get_key_id ct) (SkBz03 (keys ! 0))) im"
    "ic_get (im_instances im) [1] = Some x"
  from cache_bounded [OF toy_bounded [OF im(1)]] have "length (ic_instance_data (im_instances im)) \<le> 10000" by simp
  with toy_bounded [OF im(1)] im(2) show ?thesis by blast
qed

end
