(* ===== verification/QC_FrostSession.thy ===== *)
theory QC_FrostSession
  imports QC_FrostProtocol
begin

text \<open>
  One signing session of the FROST protocol.  A \<open>frost_session\<close> fixes the keys, the signers, their
  nonces and the scalars their shares carry; \<open>frost_inv\<close> is the state of a party that has received
  only messages of the session.  Every update keeps it, and a run on messages of the session goes
  through both rounds and returns the signature of the session.
\<close>

record 'p frost_session =
  fs_backend :: "'p curve_backend"
  fs_poly :: "int \<Rightarrow> int"
  fs_pk :: "'p frost_public_key"
  fs_n :: nat
  fs_group :: "u16 list"
  fs_msg :: bytes
  fs_hiding :: "u16 \<Rightarrow> int"
  fs_binding :: "u16 \<Rightarrow> int"
  fs_data :: "u16 \<Rightarrow> int"
  fs_party :: nat

definition fs_comm :: "'p frost_session \<Rightarrow> u16 \<Rightarrow> 'p public_commitment" where
  "fs_comm S = comm (fs_backend S) Ed25519 (fs_hiding S) (fs_binding S)"

definition fs_nonce :: "'p frost_session \<Rightarrow> u16 \<Rightarrow> nonce" where
  "fs_nonce S i = \<lparr>nonce_hiding = SBI Ed25519 (fs_hiding S i), nonce_binding = SBI Ed25519 (fs_binding S i)\<rparr>"

definition fs_share :: "'p frost_session \<Rightarrow> u16 \<Rightarrow> frost_signature_share" where
  "fs_share S i = \<lparr>frostsh_id = i, frostsh_data = SBI Ed25519 (fs_data S i)\<rparr>"

definition fs_key :: "'p frost_session \<Rightarrow> 'p frost_private_key" where
  "fs_key S = party_key (fs_backend S) (fs_poly S) (fs_pk S) (fs_party S)"

definition fs_own :: "'p frost_session \<Rightarrow> u16" where
  "fs_own S = of_nat (fs_party S + 1)"

lemma fs_key_sel [simp]: "dlsk_id (fs_key S) = fs_own S" "dlsk_pubkey (fs_key S) = fs_pk S"
  by (simp_all add: fs_key_def fs_own_def)

definition session_ok :: "'p frost_session \<Rightarrow> bool" where
  "session_ok S = (curve_ok (fs_backend S) Ed25519 0 \<and> point_codec_ok (fs_backend S) Ed25519 0
     \<and> cb_order (fs_backend S) Ed25519 \<le> 256 ^ modbytes Ed25519
     \<and> dl_key_ok (fs_backend S) Ed25519 0 (fs_poly S) (fs_n S) (fs_pk S)
     \<and> polyfun (length (fs_group S)) (fs_poly S) \<and> fs_group S \<noteq> [] \<and> unat (dlpk_k (fs_pk S)) = length (fs_group S)
     \<and> fs_n S \<le> 65535 \<and> int (fs_n S) < cb_order (fs_backend S) Ed25519 \<and> fs_party S < fs_n S
     \<and> distinct (fs_group S) \<and> (\<forall>i\<in>set (fs_group S). 0 < uint i \<and> uint i \<le> int (fs_n S))
     \<and> (\<forall>i. 0 \<le> fs_data S i))"

text \<open>What the signers compute, whatever the order in which the commitments are listed.\<close>

lemma sort_key_unat: "map unat (sort_key unat (xs :: u16 list)) = sort (map unat xs)"
proof (induction xs)
  case (Cons a xs)
  then show ?case using insort_key_map [of "\<lambda>x. x" unat a "sort_key unat xs"] by simp
qed simp

lemma sort_key_unat_cong:
  fixes xs ys :: "u16 list"
  assumes "mset xs = mset ys"
  shows "sort_key unat xs = sort_key unat ys"
proof -
  have "mset (map unat xs) = mset (map unat ys)" using assms by simp
  then have "map unat (sort_key unat xs) = map unat (sort_key unat ys)"
    unfolding sort_key_unat by (metis sorted_list_of_multiset_mset)
  moreover have "inj (unat :: u16 \<Rightarrow> nat)" by (simp add: inj_def word_unat_eq_iff)
  ultimately show ?thesis by (simp only: inj_map_eq_map)
qed

lemma compute_binding_factors_perm:
  assumes "mset xs = mset ys"
  shows "compute_binding_factors B pk (map (comm B g d e) xs) msg g'
    = compute_binding_factors B pk (map (comm B g d e) ys) msg g'"
  by (simp add: compute_binding_factors_def sort_commitments_comm sort_key_unat_cong [OF assms])

definition sound_exponents ::
  "'p frost_session \<Rightarrow> (u16 \<Rightarrow> int) \<Rightarrow> 'p group_element \<Rightarrow> bool" where
  "sound_exponents S z R =
     (\<forall>ids. mset ids = mset (fs_group S) \<longrightarrow>
        (\<forall>j < fs_n S. of_nat (j + 1) \<in> set (fs_group S) \<longrightarrow> (\<exists>cl. frost_partial_sign (fs_backend S)
            (fs_nonce S (of_nat (j + 1))) (map (fs_comm S) ids) (fs_msg S)
            (party_key (fs_backend S) (fs_poly S) (fs_pk S) j) (of_nat (j + 1))
          = Some (cl, Ok (\<lparr>frostsh_id = of_nat (j + 1), frostsh_data = SBI Ed25519 (z (of_nat (j + 1)))\<rparr>, R))))
      \<and> (\<exists>cl. get_group_commitment (fs_backend S) (map (fs_comm S) ids) (fs_msg S) (fs_key S) = Some (cl, Ok R)))"

lemma sound_sign:
  assumes "sound_exponents S z R" "mset ids = mset (fs_group S)" "fs_party S < fs_n S" "fs_own S \<in> set (fs_group S)"
  shows "\<exists>cl. frost_partial_sign (fs_backend S) (fs_nonce S (fs_own S)) (map (fs_comm S) ids) (fs_msg S) (fs_key S) (fs_own S)
    = Some (cl, Ok (\<lparr>frostsh_id = fs_own S, frostsh_data = SBI Ed25519 (z (fs_own S))\<rparr>, R))"
  using assms unfolding fs_own_def fs_key_def sound_exponents_def by blast

text \<open>Assembling the shares of the signers, in any order: the scalar of the signature is the sum of theirs.\<close>

lemma session_assembles:
  fixes r :: int
  assumes S: "session_ok S" and m: "mset ids = mset (fs_group S)"
  defines "sig \<equiv> \<lparr>frostsig_R = gpow (fs_backend S) Ed25519 0 r,
    frostsig_z = SBI Ed25519 ((\<Sum>i\<in>set (fs_group S). fs_data S i) mod cb_order (fs_backend S) Ed25519)\<rparr>"
  shows "frost_assemble (fs_backend S) (gpow (fs_backend S) Ed25519 0 r) (fs_key S) (map (fs_share S) ids) = Some sig" "sig_wf (fs_backend S) (SigFrost sig)"
proof -
  let ?B = "fs_backend S" and ?G = "fs_group S" and ?g = Ed25519
  let ?q = "cb_order ?B ?g"
  have ok: "curve_ok ?B ?g 0" "point_codec_ok ?B ?g 0" "?q \<le> 256 ^ modbytes ?g" "dl_key_ok ?B ?g 0 (fs_poly S) (fs_n S) (fs_pk S)"
      "?G \<noteq> []" "unat (dlpk_k (fs_pk S)) = length ?G" "distinct ?G"
    using S unfolding session_ok_def by blast+
  have q0: "0 < ?q" using curve_ok_pos [OF ok(1)] .
  have ids: "set ids = set ?G" "distinct ids" "length ids = length ?G"
    using m ok(7) by (metis mset_eq_setD, metis mset_eq_imp_distinct_iff, metis mset_eq_length)
  have sum: "(\<Sum>i\<leftarrow>ids. fs_data S i) = (\<Sum>i\<in>set ?G. fs_data S i)" using ids by (simp add: sum_list_distinct_conv_sum_set)
  have "dlpk_group (fs_pk S) = ?g" "length ?G \<noteq> 0" using ok(4,5) by (simp_all add: dl_key_ok_def)
  then show "frost_assemble ?B (gpow ?B ?g 0 r) (fs_key S) (map (fs_share S) ids) = Some sig"
    using frost_assemble_eq [of ?g "fs_key S" "length ids" "map (\<lambda>i. (i, fs_data S i)) ids" ?B] ok(6) ids(3)
    by (simp add: frost_assemble_def sb_new_int_def fs_share_def [abs_def] fs_key_def comp_def sig_def flip: sum)
  show "sig_wf ?B (SigFrost sig)"
    using ok(1,2) q0 less_le_trans [OF pos_mod_bound [OF q0, of "\<Sum>i\<in>set ?G. fs_data S i"] ok(3)]
    by (auto simp: Let_def point_ok_def scalar_ok_def sig_def)
qed

lemma session_exponents:
  assumes "session_ok S"
  obtains z R where "\<And>i. 0 \<le> z i \<and> z i < cb_order (fs_backend S) Ed25519" "sound_exponents S z R"
    "\<And>ids. mset ids = mset (fs_group S) \<Longrightarrow> \<exists>sig.
      frost_assemble (fs_backend S) R (fs_key S) (map (fs_share S) ids) = Some sig \<and> sig_wf (fs_backend S) (SigFrost sig)
      \<and> frost_verify (fs_backend S) sig (fs_pk S) (fs_msg S)
          = Some ((\<Sum>i\<in>set (fs_group S). fs_data S i) mod cb_order (fs_backend S) Ed25519
                = (\<Sum>i\<in>set (fs_group S). z i) mod cb_order (fs_backend S) Ed25519)"
proof -
  let ?B = "fs_backend S" and ?G = "fs_group S" and ?f = "fs_poly S" and ?n = "fs_n S" and ?pk = "fs_pk S"
    and ?d = "fs_hiding S" and ?e = "fs_binding S" and ?msg = "fs_msg S" and ?g = Ed25519
  let ?q = "cb_order ?B ?g" and ?sids = "sort_key unat (fs_group S)"
  have ok: "curve_ok ?B ?g 0" "point_codec_ok ?B ?g 0" "?q \<le> 256 ^ modbytes ?g" "dl_key_ok ?B ?g 0 ?f ?n ?pk"
      "polyfun (length ?G) ?f" "?G \<noteq> []" "unat (dlpk_k ?pk) = length ?G" "?n \<le> 65535" "int ?n < ?q" "distinct ?G"
    and rng: "\<forall>i\<in>set ?G. 0 < uint i \<and> uint i \<le> int ?n" and w0: "\<forall>i. 0 \<le> fs_data S i"
    using assms unfolding session_ok_def by blast+
  have q0: "0 < ?q" using curve_ok_pos [OF ok(1)] .
  have pk: "dlpk_group ?pk = ?g" "dlpk_y ?pk = gpow ?B ?g 0 (?f 0)" using ok(4) by (simp_all add: dl_key_ok_def)
  obtain \<rho> where \<rho>: "\<forall>i. 0 \<le> \<rho> i" and bf0: "compute_binding_factors ?B ?pk (map (fs_comm S) ?G) ?msg ?g
      = Some (map (fs_comm S) ?sids, map (\<lambda>i. \<lparr>bf_id = i, bf_factor = SBI ?g (\<rho> i)\<rparr>) ?sids)"
    using compute_binding_factors_comm [OF ok(1) pk(2)] unfolding fs_comm_def by blast
  have bf: "compute_binding_factors ?B ?pk (map (comm ?B ?g ?d ?e) ids) ?msg ?g
      = Some (map (comm ?B ?g ?d ?e) ?sids, map (\<lambda>i. \<lparr>bf_id = i, bf_factor = SBI ?g (\<rho> i)\<rparr>) ?sids)"
    if "mset ids = mset ?G" for ids
    unfolding compute_binding_factors_perm [OF that] using bf0 unfolding fs_comm_def .
  let ?r = "\<Sum>i\<leftarrow>?sids. ?d i + ?e i * \<rho> i"
  let ?R = "gpow ?B ?g 0 ?r"
  obtain c where c0: "0 \<le> c" and c: "compute_challenge ?B ?R ?pk ?msg = Some (SBI ?g c)"
    using compute_challenge_total [OF ok(1) pk] by blast
  define z where "z i = frost_z ?q ?d ?e \<rho> ?f ?sids c i mod ?q" for i
  show thesis
  proof (rule that [of z ?R])
    show "0 \<le> z i \<and> z i < ?q" for i using q0 by (simp add: z_def)
    show "sound_exponents S z ?R" unfolding sound_exponents_def
    proof (intro allI impI conjI)
      fix ids assume m: "mset ids = mset ?G"
      then have s2: "set ids = set ?G" by (rule mset_eq_setD)
      then have s: "set ?sids = set ids" "set ids = set ?G" by simp_all
      show "\<exists>cl. frost_partial_sign ?B (fs_nonce S (of_nat (j + 1))) (map (fs_comm S) ids) ?msg
            (party_key ?B ?f ?pk j) (of_nat (j + 1))
          = Some (cl, Ok (\<lparr>frostsh_id = of_nat (j + 1), frostsh_data = SBI ?g (z (of_nat (j + 1)))\<rparr>, ?R))"
        if j: "j < ?n" "of_nat (j + 1) \<in> set ?G" for j
        using frost_partial_sign_eq [OF ok(1,4,8) j(1) refl _ \<rho> bf [OF m] s(1) c] j(2) s(2)
        unfolding fs_nonce_def fs_comm_def z_def by blast
      show "\<exists>cl. get_group_commitment ?B (map (fs_comm S) ids) ?msg (fs_key S) = Some (cl, Ok ?R)"
        using bf [OF m] compute_group_commitment_comm [OF ok(1) \<rho>] pk
        by (simp add: get_group_commitment_def fs_comm_def fs_key_def)
    qed
    fix ids assume m: "mset ids = mset ?G"
    then have ids: "set ids = set ?G" "distinct ids" "length ids = length ?G"
      using ok(10) by (metis mset_eq_setD, metis mset_eq_imp_distinct_iff, metis mset_eq_length)
    let ?sig = "\<lparr>frostsig_R = ?R, frostsig_z = SBI ?g ((\<Sum>i\<in>set ?G. fs_data S i) mod ?q)\<rparr>"
    note asm = session_assembles [OF assms m, of ?r]
    have sum: "(\<Sum>i\<leftarrow>ids. h i) = (\<Sum>i\<in>set ?G. h i)" for h :: "u16 \<Rightarrow> int"
      using ids by (simp add: sum_list_distinct_conv_sum_set)
    have "(\<Sum>i\<leftarrow>ids. z i) mod ?q = (\<Sum>i\<leftarrow>ids. frost_z ?q ?d ?e \<rho> ?f ?sids c i) mod ?q"
      unfolding z_def by (rule sum_list_mod)
    also have "\<dots> = (?r + ?f 0 * c) mod ?q"
      using ok(5,9,10) rng ids by (intro frost_z_sum [OF curve_ok_prime [OF ok(1)]]) (auto dest!: bspec)
    finally have z: "(\<Sum>i\<in>set ?G. z i) mod ?q = (?r + ?f 0 * c) mod ?q" by (simp only: sum)
    have "frost_verify ?B ?sig ?pk ?msg = Some ((\<Sum>i\<in>set ?G. fs_data S i) mod ?q = (?r + ?f 0 * c) mod ?q)"
      using ok(1) pk c c0 q0 by (simp add: frost_verify_def ge_simps gpow_eq_iff sum)
    then show "\<exists>sig. frost_assemble ?B ?R (fs_key S) (map (fs_share S) ids) = Some sig \<and> sig_wf ?B (SigFrost sig)
      \<and> frost_verify ?B sig ?pk ?msg = Some ((\<Sum>i\<in>set ?G. fs_data S i) mod ?q = (\<Sum>i\<in>set ?G. z i) mod ?q)"
      unfolding z using asm by blast
  qed
qed

subsection \<open>The invariant\<close>

definition fs_allowed :: "'p frost_session \<Rightarrow> 'p frost_message \<Rightarrow> bool" where
  "fs_allowed S m = (if fm_id m \<in> set (fs_group S)
     then fm_data m = FdCommitment (fs_comm S (fm_id m)) \<or> fm_data m = FdShare (fs_share S (fm_id m))
     else fm_data m \<noteq> FdDefault \<and> fm_data m \<noteq> FdPrecomputation [])"

definition fp_cids :: "'p frost_protocol \<Rightarrow> u16 list" where
  "fp_cids s = map fst (fp_commitment_list s)"

definition fp_shids :: "'p frost_protocol \<Rightarrow> u16 list" where
  "fp_shids s = map fst (fp_shares s)"

definition frost_inv :: "hash_orders \<Rightarrow> 'p frost_session \<Rightarrow> 'p frost_protocol \<Rightarrow> bool" where
  "frost_inv H S s = (session_ok S \<and> orders_ok H \<and> fp_key s = fs_key S \<and> fp_msg s = fs_msg S
     \<and> fp_options s = NoPrecomputation \<and> sg_signer_identifiers (fp_signer_group s) = fs_group S
     \<and> fp_commitment_list s = map (\<lambda>i. (i, fs_comm S i)) (fp_cids s) \<and> distinct (fp_cids s)
     \<and> set (fp_cids s) \<subseteq> set (fs_group S)
     \<and> fp_shares s = map (\<lambda>i. (i, fs_share S i)) (fp_shids s) \<and> distinct (fp_shids s)
     \<and> set (fp_shids s) \<subseteq> set (fs_group S)
     \<and> fp_not_verified_shares s = set (fp_shids s) - set (fp_cids s)
     \<and> (fp_round s = 1 \<or> fp_round s = 2)
     \<and> (fp_round s = 2 \<longrightarrow> set (fs_group S) \<subseteq> set (fp_cids s)
         \<and> (fs_own S \<in> set (fs_group S) \<longrightarrow> fs_own S \<in> set (fp_shids s)))
     \<and> (fs_own S \<in> set (fs_group S) \<longrightarrow> fs_own S \<in> set (fp_cids s) \<and> fp_nonce s = Some (fs_nonce S (fs_own S))))"

definition commit_ids :: "'p frost_session \<Rightarrow> 'p frost_message \<Rightarrow> u16 set" where
  "commit_ids S m = (case fm_data m of FdCommitment c \<Rightarrow> {fm_id m} \<inter> set (fs_group S) | _ \<Rightarrow> {})"

definition share_ids :: "'p frost_session \<Rightarrow> 'p frost_message \<Rightarrow> u16 set" where
  "share_ids S m = (case fm_data m of FdShare sh \<Rightarrow> {fm_id m} \<inter> set (fs_group S) | _ \<Rightarrow> {})"

lemma frost_invD:
  assumes "frost_inv H S s"
  shows "session_ok S" "orders_ok H" "fp_key s = fs_key S" "fp_msg s = fs_msg S" "fp_options s = NoPrecomputation"
    "sg_signer_identifiers (fp_signer_group s) = fs_group S"
    "fp_commitment_list s = map (\<lambda>i. (i, fs_comm S i)) (fp_cids s)" "distinct (fp_cids s)"
    "set (fp_cids s) \<subseteq> set (fs_group S)"
    "fp_shares s = map (\<lambda>i. (i, fs_share S i)) (fp_shids s)" "distinct (fp_shids s)"
    "set (fp_shids s) \<subseteq> set (fs_group S)"
    "fp_not_verified_shares s = set (fp_shids s) - set (fp_cids s)"
    "fp_round s = 1 \<or> fp_round s = 2"
    "fs_own S \<in> set (fs_group S) \<Longrightarrow> fs_own S \<in> set (fp_cids s) \<and> fp_nonce s = Some (fs_nonce S (fs_own S))"
    "fp_round s = 2 \<Longrightarrow> set (fs_group S) \<subseteq> set (fp_cids s)
         \<and> (fs_own S \<in> set (fs_group S) \<longrightarrow> fs_own S \<in> set (fp_shids s))"
  using assms unfolding frost_inv_def by blast+

lemma fp_commitments_eq:
  assumes "frost_inv H S s"
  shows "fp_commitments H s = map (fs_comm S) (ho_commitments H (fp_cids s))"
    "hm_values (ho_shares H) (fp_shares s) = map (fs_share S) (ho_shares H (fp_shids s))"
proof -
  have m: "mset (ho_commitments H (fp_cids s)) = mset (fp_cids s)" "mset (ho_shares H (fp_shids s)) = mset (fp_shids s)"
    using frost_invD(2) [OF assms] by (simp_all add: orders_ok_def)
  show "fp_commitments H s = map (fs_comm S) (ho_commitments H (fp_cids s))"
    unfolding fp_commitments_def by (subst frost_invD(7) [OF assms]) (rule hm_values_tagged [of "ho_commitments H" "fp_cids s", OF m(1)])
  show "hm_values (ho_shares H) (fp_shares s) = map (fs_share S) (ho_shares H (fp_shids s))"
    by (subst frost_invD(10) [OF assms]) (rule hm_values_tagged [of "ho_shares H" "fp_shids s", OF m(2)])
qed

text \<open>Against honest commitments \<open>verify_share\<close> never fails, so no share of a signer is refused.\<close>

lemma fs_verify_share:
  assumes "session_ok S" "i \<in> set ids" "i \<in> set (fs_group S)"
  shows "\<exists>cl b. frost_verify_share (fs_backend S) (fs_share S i) (dlsk_pubkey (fs_key S)) (fs_msg S) (map (fs_comm S) ids)
    = Some (cl, Ok b)"
proof -
  let ?B = "fs_backend S" and ?pk = "fs_pk S" and ?g = Ed25519
  have ok: "curve_ok ?B ?g 0" "dl_key_ok ?B ?g 0 (fs_poly S) (fs_n S) ?pk" "0 < uint i" "uint i \<le> int (fs_n S)"
      "0 \<le> fs_data S i"
    using assms(1,3) unfolding session_ok_def by blast+
  have pk: "dlpk_group ?pk = ?g" "dlpk_y ?pk = gpow ?B ?g 0 (fs_poly S 0)" using ok(2) by (simp_all add: dl_key_ok_def)
  obtain \<rho> where \<rho>: "\<forall>i. 0 \<le> \<rho> i" and bf: "compute_binding_factors ?B ?pk (map (comm ?B ?g (fs_hiding S) (fs_binding S)) ids) (fs_msg S) ?g
      = Some (map (comm ?B ?g (fs_hiding S) (fs_binding S)) (sort_key unat ids),
          map (\<lambda>i. \<lparr>bf_id = i, bf_factor = SBI ?g (\<rho> i)\<rparr>) (sort_key unat ids))"
    using compute_binding_factors_comm [OF ok(1) pk(2)] by blast
  obtain c where c: "compute_challenge ?B (gpow ?B ?g 0 (\<Sum>i\<leftarrow>sort_key unat ids. fs_hiding S i + fs_binding S i * \<rho> i)) ?pk (fs_msg S)
      = Some (SBI ?g c)"
    using compute_challenge_total [OF ok(1) pk] by blast
  have "set (sort_key unat ids) = set ids" by simp
  from frost_verify_share_eq [OF ok(1-4) assms(2) \<rho> bf this c ok(5)] show ?thesis
    by (simp add: fs_share_def fs_comm_def fs_key_def)
qed

lemma fp_ids_update [simp]:
  "fp_cids (s\<lparr>fp_shares := x\<rparr>) = fp_cids s" "fp_cids (s\<lparr>fp_not_verified_shares := v\<rparr>) = fp_cids s"
  "fp_cids (s\<lparr>fp_commitment_list := cl\<rparr>) = map fst cl" "fp_shids (s\<lparr>fp_commitment_list := cl\<rparr>) = fp_shids s"
  "fp_shids (s\<lparr>fp_shares := x\<rparr>) = map fst x" "fp_shids (s\<lparr>fp_not_verified_shares := v\<rparr>) = fp_shids s"
  "fp_cids (s\<lparr>fp_round := r\<rparr>) = fp_cids s" "fp_shids (s\<lparr>fp_round := r\<rparr>) = fp_shids s"
  "fp_cids (s\<lparr>fp_group_commitment := c\<rparr>) = fp_cids s" "fp_shids (s\<lparr>fp_group_commitment := c\<rparr>) = fp_shids s"
  "fp_cids (s\<lparr>fp_finished := b\<rparr>) = fp_cids s" "fp_shids (s\<lparr>fp_finished := b\<rparr>) = fp_shids s"
  "fp_cids (s\<lparr>fp_nonce := nc\<rparr>) = fp_cids s" "fp_shids (s\<lparr>fp_nonce := nc\<rparr>) = fp_shids s"
  "fp_cids (s\<lparr>fp_commitment := co\<rparr>) = fp_cids s" "fp_shids (s\<lparr>fp_commitment := co\<rparr>) = fp_shids s"
  by (simp_all add: fp_cids_def fp_shids_def)

lemma frost_inv_add_commitment:
  assumes "frost_inv H S s" "i \<in> set (fs_group S)" "i \<notin> set (fp_cids s)"
  shows "frost_inv H S (s\<lparr>fp_commitment_list := fp_commitment_list s @ [(i, fs_comm S i)],
    fp_not_verified_shares := fp_not_verified_shares s - {i}\<rparr>)"
proof -
  note d = frost_invD [OF assms(1)]
  have "map fst (fp_commitment_list s) = fp_cids s" by (simp add: fp_cids_def)
  then show ?thesis unfolding frost_inv_def using d assms(2,3) by auto
qed

lemma frost_inv_add_share:
  assumes "frost_inv H S s" "i \<in> set (fs_group S)" "i \<notin> set (fp_shids s)"
  shows "frost_inv H S (s\<lparr>fp_not_verified_shares := if i \<in> set (fp_cids s) then fp_not_verified_shares s
      else insert i (fp_not_verified_shares s), fp_shares := fp_shares s @ [(i, fs_share S i)]\<rparr>)"
proof -
  note d = frost_invD [OF assms(1)]
  have "map fst (fp_shares s) = fp_shids s" by (simp add: fp_shids_def)
  then show ?thesis unfolding frost_inv_def using d assms(2,3) by auto
qed

text \<open>What the invariant says of the two maps of the protocol.\<close>

lemma frost_inv_maps:
  assumes "frost_inv H S s"
  shows "hm_contains_key (fp_commitment_list s) i = (i \<in> set (fp_cids s))" "hm_contains_key (fp_shares s) i = (i \<in> set (fp_shids s))"
    "sg_contains (fp_signer_group s) i = (i \<in> set (fs_group S))"
    "map_of (fp_shares s) i = (if i \<in> set (fp_shids s) then Some (fs_share S i) else None)"
    "map fst (fp_commitment_list s) = fp_cids s" "map fst (fp_shares s) = fp_shids s"
proof -
  note d = frost_invD [OF assms]
  show "map_of (fp_shares s) i = (if i \<in> set (fp_shids s) then Some (fs_share S i) else None)"
    using map_of_tagged [of "fs_share S" "fp_shids s" i, folded d(10)] .
  show "hm_contains_key (fp_commitment_list s) i = (i \<in> set (fp_cids s))" "hm_contains_key (fp_shares s) i = (i \<in> set (fp_shids s))"
    "sg_contains (fp_signer_group s) i = (i \<in> set (fs_group S))" using d(6) by (simp_all add: hm_contains_key_def fp_cids_def fp_shids_def sg_contains_def)
qed (simp_all add: fp_cids_def fp_shids_def)

lemma commitment_progress:
  assumes inv: "frost_inv H S s" and com: "fm_id m \<in> set (fs_group S)" "fm_data m = FdCommitment (fs_comm S (fm_id m))"
  shows "\<exists>s'. fp_update H (fs_backend S) s m = Some (s', Ok ()) \<and> frost_inv H S s' \<and> fp_round s' = fp_round s
    \<and> set (fp_cids s') = set (fp_cids s) \<union> commit_ids S m \<and> set (fp_shids s') = set (fp_shids s) \<union> share_ids S m"
proof -
  note d = frost_invD [OF inv] and facts = frost_inv_maps [OF inv]
  note fst = facts(5,6) and mp = facts(4)
  note upd = fp_update_def fp_update_commitment_def fp_update_share_def fp_update_precomputation_def
    commit_ids_def share_ids_def facts(1-4) Let_def
  let ?i = "fm_id m"
  show ?thesis
  proof (cases "?i \<in> set (fp_cids s)")
    case False
    let ?s = "s\<lparr>fp_commitment_list := fp_commitment_list s @ [(?i, fs_comm S ?i)]\<rparr>"
    let ?t = "?s\<lparr>fp_not_verified_shares := fp_not_verified_shares s - {?i}\<rparr>"
    have inv': "frost_inv H S ?t" using frost_inv_add_commitment [OF inv com(1) False] by simp
    have up: "AList.update ?i (fs_comm S ?i) (fp_commitment_list s) = fp_commitment_list s @ [(?i, fs_comm S ?i)]"
      using False by (intro update_new) (simp add: fst)
    have "fp_update H (fs_backend S) s m = Some (?t, Ok ())"
    proof (cases "?i \<in> set (fp_shids s)")
      case True
      have "mset (ho_commitments H (fp_cids ?t)) = mset (fp_cids ?t)" using d(2) by (simp add: orders_ok_def)
      then have "set (ho_commitments H (fp_cids ?t)) = set (fp_cids ?t)" by (rule mset_eq_setD)
      then have "?i \<in> set (ho_commitments H (fp_cids ?t))" by simp
      moreover have "fp_commitments H ?s = fp_commitments H ?t" by (simp add: fp_commitments_def)
      ultimately obtain cl b where "frost_verify_share (fs_backend S) (fs_share S ?i) (dlsk_pubkey (fs_key S)) (fs_msg S)
          (fp_commitments H ?s) = Some (cl, Ok b)"
        using fs_verify_share [OF d(1) _ com(1)] fp_commitments_eq(1) [OF inv'] by metis
      moreover have "AList.update ?i (fs_share S ?i) (fp_shares s) = fp_shares s"
        using True mp by (intro update_same) simp
      ultimately show ?thesis using com False True d(3-5) by (simp add: upd up)
    next
      case no: False
      then have "fp_not_verified_shares s - {?i} = fp_not_verified_shares s" using d(13) by auto
      then show ?thesis using com False no d(5) by (simp add: upd up)
    qed
    then show ?thesis using inv' com by (auto simp: commit_ids_def share_ids_def fst)
  qed (use com inv d(5) in \<open>auto simp: upd\<close>)
qed

lemma share_progress:
  assumes inv: "frost_inv H S s" and sh: "fm_id m \<in> set (fs_group S)" "fm_data m = FdShare (fs_share S (fm_id m))"
  shows "\<exists>s'. fp_update H (fs_backend S) s m = Some (s', Ok ()) \<and> frost_inv H S s' \<and> fp_round s' = fp_round s
    \<and> set (fp_cids s') = set (fp_cids s) \<union> commit_ids S m \<and> set (fp_shids s') = set (fp_shids s) \<union> share_ids S m"
proof -
  note d = frost_invD [OF inv] and facts = frost_inv_maps [OF inv]
  note fst = facts(5,6) and mp = facts(4)
  note upd = fp_update_def fp_update_commitment_def fp_update_share_def fp_update_precomputation_def
    commit_ids_def share_ids_def facts(1-4) Let_def
  let ?i = "fm_id m"
  show ?thesis
  proof (cases "?i \<in> set (fp_shids s)")
    case False
    let ?t = "s\<lparr>fp_not_verified_shares := if ?i \<in> set (fp_cids s) then fp_not_verified_shares s
        else insert ?i (fp_not_verified_shares s), fp_shares := fp_shares s @ [(?i, fs_share S ?i)]\<rparr>"
    have up: "AList.update ?i (fs_share S ?i) (fp_shares s) = fp_shares s @ [(?i, fs_share S ?i)]"
      using False by (intro update_new) (simp add: fst)
    have "fp_update H (fs_backend S) s m = Some (?t, Ok ())"
    proof (cases "?i \<in> set (fp_cids s)")
      case True
      have "mset (ho_commitments H (fp_cids s)) = mset (fp_cids s)" using d(2) by (simp add: orders_ok_def)
      then have "?i \<in> set (ho_commitments H (fp_cids s))" using True mset_eq_setD by blast
      then obtain cl b where "frost_verify_share (fs_backend S) (fs_share S ?i) (dlsk_pubkey (fs_key S)) (fs_msg S)
          (fp_commitments H s) = Some (cl, Ok b)"
        using fs_verify_share [OF d(1) _ sh(1)] fp_commitments_eq(1) [OF inv] by metis
      then show ?thesis using sh False True d(3,4) by (simp add: upd up)
    qed (use sh False in \<open>simp add: upd up\<close>)
    then show ?thesis using frost_inv_add_share [OF inv sh(1) False] sh by (auto simp: commit_ids_def share_ids_def fst)
  qed (use sh inv in \<open>auto simp: upd\<close>)
qed

lemma fp_update_progress:
  assumes inv: "frost_inv H S s" and m: "fs_allowed S m"
  shows "\<exists>s'. fp_update H (fs_backend S) s m = Some (s', Ok ()) \<and> frost_inv H S s' \<and> fp_round s' = fp_round s
    \<and> set (fp_cids s') = set (fp_cids s) \<union> commit_ids S m \<and> set (fp_shids s') = set (fp_shids s) \<union> share_ids S m"
proof -
  note upd = fp_update_def fp_update_commitment_def fp_update_share_def fp_update_precomputation_def
    commit_ids_def share_ids_def frost_inv_maps(1-4) [OF inv] Let_def
  let ?i = "fm_id m"
  consider (out) "?i \<notin> set (fs_group S)" | (com) "?i \<in> set (fs_group S)" "fm_data m = FdCommitment (fs_comm S ?i)"
    | (sh) "?i \<in> set (fs_group S)" "fm_data m = FdShare (fs_share S ?i)"
    using m by (auto simp: fs_allowed_def split: if_splits)
  then show ?thesis
  proof cases
    case out
    then show ?thesis using m inv by (auto simp: fs_allowed_def upd split: frost_data.split)
  qed (fact commitment_progress [OF inv] share_progress [OF inv])+
qed

subsection \<open>Rounds and finalisation\<close>

lemma commitment_bytes_roundtrip:
  assumes "codec_ok C" "point_ok B g 0 (pc_hiding c)" "point_ok B g 0 (pc_binding c)"
  shows "\<exists>b. commitment_to_bytes C B c = Some (Ok b) \<and> commitment_from_bytes C B b = Some (Ok c)"
proof -
  let ?es = "[AU16 (pc_id c), AGroup g, AOctets (cb_tobytes B g 0 (ge_val (pc_hiding c))), AOctets (cb_tobytes B g 0 (ge_val (pc_binding c)))]"
  obtain b where b: "write_seq C ?es = Ok b" "asn_parse C b = ?es"
    by (rule write_seq_okE [OF assms(1), of ?es]) auto
  show ?thesis
    by (rule point_okE [OF assms(2)], rule point_okE [OF assms(3)])
      (use b in \<open>simp add: commitment_to_bytes_def commitment_from_bytes_def parse_seq_def\<close>)
qed

lemma commitment_roundtrip:
  assumes "codec_ok C" "session_ok S"
  shows "\<exists>b. commitment_to_bytes C (fs_backend S) (fs_comm S i) = Some (Ok b)
    \<and> commitment_from_bytes C (fs_backend S) b = Some (Ok (fs_comm S i))"
proof (rule commitment_bytes_roundtrip [OF assms(1)])
  have "curve_ok (fs_backend S) Ed25519 0" "point_codec_ok (fs_backend S) Ed25519 0" using assms(2) by (simp_all add: session_ok_def)
  then show "point_ok (fs_backend S) Ed25519 0 (pc_hiding (fs_comm S i))" "point_ok (fs_backend S) Ed25519 0 (pc_binding (fs_comm S i))"
    by (auto simp: point_ok_def fs_comm_def)
qed

lemma group_complete:
  assumes "distinct xs" "distinct ys" "set ys \<subseteq> set xs" "set xs \<subseteq> set ys"
  shows "mset ys = mset xs" "length ys = length xs"
  using assms by (metis set_eq_iff_mset_eq_distinct subset_antisym, metis distinct_card subset_antisym)

lemma fp_ready_iff:
  assumes "frost_inv H S s"
  shows "fp_is_ready_to_finalize s \<longleftrightarrow> set (fs_group S) \<subseteq> set (fp_shids s) \<and> set (fs_group S) \<subseteq> set (fp_cids s)"
    "fp_round s = 1 \<Longrightarrow> fp_is_ready_for_next_round s \<longleftrightarrow> set (fs_group S) \<subseteq> set (fp_cids s)"
    "fp_round s = 2 \<Longrightarrow> fp_is_ready_for_next_round s \<Longrightarrow> fp_is_ready_to_finalize s"
proof -
  note d = frost_invD [OF assms]
  have k: "unat (dlpk_k (dlsk_pubkey (fp_key s))) = length (fs_group S)" "distinct (fs_group S)"
    using d(1,3) by (simp_all add: session_ok_def fs_key_def)
  have len: "length (fp_shares s) = length (fp_shids s)" "length (fp_commitment_list s) = length (fp_cids s)"
    by (simp_all add: fp_shids_def fp_cids_def)
  have f: "find (\<lambda>i. \<not> hm_contains_key (fp_shares s) i) (fs_group S) = None \<longleftrightarrow> set (fs_group S) \<subseteq> set (fp_shids s)"
    "find (\<lambda>i. \<not> hm_contains_key (fp_commitment_list s) i) (fs_group S) = None \<longleftrightarrow> set (fs_group S) \<subseteq> set (fp_cids s)"
    unfolding find_None_iff by (auto simp: hm_contains_key_def fp_shids_def fp_cids_def)
  show a: "fp_is_ready_to_finalize s \<longleftrightarrow> set (fs_group S) \<subseteq> set (fp_shids s) \<and> set (fs_group S) \<subseteq> set (fp_cids s)"
    unfolding fp_is_ready_to_finalize_def k(1) len d(6,13) f
    using group_complete(2) [OF k(2) d(11,12)] d(9,12) by auto
  show "fp_is_ready_for_next_round s \<longleftrightarrow> set (fs_group S) \<subseteq> set (fp_cids s)" if "fp_round s = 1"
    using that group_complete(2) [OF k(2) d(8,9)] by (auto simp: fp_is_ready_for_next_round_def k(1) len d(6) f sg_get_vec_def Let_def)
  show "fp_is_ready_to_finalize s" if "fp_round s = 2" "fp_is_ready_for_next_round s"
    using that d(16) unfolding a by (auto simp: fp_is_ready_for_next_round_def d(6) f sg_get_vec_def Let_def)
qed

text \<open>What a session's signature verifies to: whether the scalars of the shares add up.\<close>

definition fs_signed :: "codec \<Rightarrow> 'p frost_session \<Rightarrow> bool \<Rightarrow> bytes \<Rightarrow> bool" where
  "fs_signed C S b v = (\<exists>sig. sig_from_bytes C (fs_backend S) v = Some (Ok (SigFrost sig))
     \<and> frost_verify (fs_backend S) sig (fs_pk S) (fs_msg S) = Some b)"

definition session_exps :: "'p frost_session \<Rightarrow> (u16 \<Rightarrow> int) \<Rightarrow> 'p group_element \<Rightarrow> bool \<Rightarrow> bool" where
  "session_exps S z R b = (sound_exponents S z R
    \<and> (fs_own S \<in> set (fs_group S) \<longrightarrow> fs_data S (fs_own S) = z (fs_own S))
    \<and> (\<forall>ids. mset ids = mset (fs_group S) \<longrightarrow> (\<exists>sig.
      frost_assemble (fs_backend S) R (fs_key S) (map (fs_share S) ids) = Some sig \<and> sig_wf (fs_backend S) (SigFrost sig)
      \<and> frost_verify (fs_backend S) sig (fs_pk S) (fs_msg S) = Some b)))"

lemma fp_finalize_good:
  assumes C: "codec_ok C" and inv: "frost_inv H S s" and E: "session_exps S z R b" and ready: "fp_is_ready_to_finalize s"
  shows "\<exists>s' v. fp_finalize C H (fs_backend S) s = Some (s', Ok v) \<and> fs_signed C S b v"
proof -
  note d = frost_invD [OF inv]
  have G: "distinct (fs_group S)" using d(1) by (simp add: session_ok_def)
  have sub: "set (fs_group S) \<subseteq> set (fp_shids s)" "set (fs_group S) \<subseteq> set (fp_cids s)"
    using ready unfolding fp_ready_iff(1) [OF inv] by simp_all
  have m: "mset (ho_commitments H (fp_cids s)) = mset (fs_group S)" "mset (ho_shares H (fp_shids s)) = mset (fs_group S)"
    using group_complete(1) [OF G d(8,9) sub(2)] group_complete(1) [OF G d(11,12) sub(1)] d(2) by (simp_all add: orders_ok_def)
  obtain cl where gc: "get_group_commitment (fs_backend S) (fp_commitments H s) (fp_msg s) (fp_key s) = Some (cl, Ok R)"
    using E m(1) unfolding session_exps_def sound_exponents_def fp_commitments_eq(1) [OF inv] d(3,4) by blast
  obtain sig where sig: "frost_assemble (fs_backend S) R (fp_key s) (hm_values (ho_shares H) (fp_shares s)) = Some sig"
      "sig_wf (fs_backend S) (SigFrost sig)" "frost_verify (fs_backend S) sig (fs_pk S) (fs_msg S) = Some b"
    using E m(2) unfolding session_exps_def fp_commitments_eq(2) [OF inv] d(3) by blast
  obtain v where "sig_to_bytes C (fs_backend S) (SigFrost sig) = Some (Ok v)"
      "sig_from_bytes C (fs_backend S) v = Some (Ok (SigFrost sig))"
    using sig_roundtrip [OF C sig(2)] by blast
  then show ?thesis using gc sig by (simp add: fp_finalize_def fs_signed_def unwrap_def)
qed

lemma fp_round_1_step:
  assumes inv: "frost_inv H S s" and E: "session_exps S z R b" and r: "fp_round s = 1"
    and full: "set (fs_group S) \<subseteq> set (fp_cids s)"
  shows "\<exists>s' m. fp_do_round H (fs_backend S) rb s = Some (s', Ok m) \<and> frost_inv H S s' \<and> fp_round s' = 2
    \<and> fp_cids s' = fp_cids s \<and> set (fp_shids s) \<subseteq> set (fp_shids s')
    \<and> (fm_data m = FdDefault \<or> fm_data m = FdShare (fs_share S (fs_own S)))"
proof -
  note d = frost_invD [OF inv]
  have own: "dlsk_id (fp_key s) = fs_own S" using d(3) by simp
  have G: "distinct (fs_group S)" "fs_party S < fs_n S" using d(1) by (simp_all add: session_ok_def)
  have m: "mset (ho_commitments H (fp_cids s)) = mset (fs_group S)"
    using group_complete(1) [OF G(1) d(8,9) full] d(2) by (simp add: orders_ok_def)
  have keys: "hm_contains_key (fp_shares s) i = (i \<in> set (fp_shids s))" "sg_contains (fp_signer_group s) i = (i \<in> set (fs_group S))"
    for i using d(6) by (simp_all add: hm_contains_key_def fp_shids_def sg_contains_def)
  show ?thesis
  proof (cases "fs_own S \<in> set (fs_group S) \<and> fs_own S \<notin> set (fp_shids s)")
    case True
    obtain cl where "frost_partial_sign (fs_backend S) (fs_nonce S (fs_own S)) (fp_commitments H s) (fs_msg S) (fs_key S) (fs_own S)
        = Some (cl, Ok (fs_share S (fs_own S), R))"
      using sound_sign [OF _ m G(2), of z R] E True unfolding session_exps_def fp_commitments_eq(1) [OF inv] fs_share_def by auto
    moreover have "AList.update (fs_own S) (fs_share S (fs_own S)) (fp_shares s) = fp_shares s @ [(fs_own S, fs_share S (fs_own S))]"
      using True by (intro update_new) (simp add: fp_shids_def)
    ultimately have step: "fp_do_round H (fs_backend S) rb s = Some (s\<lparr>fp_round := 2, fp_group_commitment := Some R,
        fp_shares := fp_shares s @ [(fs_own S, fs_share S (fs_own S))]\<rparr>, Ok \<lparr>fm_id = fs_own S, fm_data = FdShare (fs_share S (fs_own S))\<rparr>)"
      using True r d(3,4,15) by (simp add: fp_do_round_def fp_round_1_def own keys Let_def)
    have "map fst (fp_shares s) = fp_shids s" by (simp add: fp_shids_def)
    then have "frost_inv H S (s\<lparr>fp_round := 2, fp_group_commitment := Some R, fp_shares := fp_shares s @ [(fs_own S, fs_share S (fs_own S))]\<rparr>)"
      unfolding frost_inv_def using d True full by auto
    then show ?thesis using step \<open>map fst (fp_shares s) = fp_shids s\<close> by auto
  next
    case False
    then have step: "fp_do_round H (fs_backend S) rb s = Some (s\<lparr>fp_round := 2\<rparr>, Ok \<lparr>fm_id = fs_own S, fm_data = FdDefault\<rparr>)"
      using r by (auto simp: fp_do_round_def fp_round_1_def own keys Let_def)
    have "frost_inv H S (s\<lparr>fp_round := 2\<rparr>)" unfolding frost_inv_def using d False full by auto
    then show ?thesis using step by auto
  qed
qed

subsection \<open>Runs\<close>

lemma ex_do_round_fine:
  assumes "rp_do_round P (draws (ex_rounds ex)) (ex_protocol ex) = Some (s, Ok m)"
    "rp_is_default P m \<or> (\<exists>n. rp_wrap P (ex_instance_id ex) m = Some (Ok n))"
  shows "\<exists>ex'. ex_do_round P draws phase ex = Some (ex', Waiting) \<and> ex_protocol ex' = s"
  using assms by (auto simp: ex_do_round_def Let_def unwrap_def)

lemma ex_loop_append:
  "ex_loop P draws closed ex (xs @ ys) = do {
     (ex', r) \<leftarrow> ex_loop P draws False ex xs;
     case r of Waiting \<Rightarrow> ex_loop P draws closed ex' ys | Returned v \<Rightarrow> Some (ex', Returned v) }"
proof (induction xs arbitrary: ex)
  case (Cons t ts)
  show ?case
  proof (cases "ex_deliver P draws ex t")
    case (Some a)
    then show ?thesis using Cons by (cases a; cases "snd a") auto
  qed simp
qed simp

lemma fs_wrap:
  assumes "codec_ok C" "session_ok S" "cb_order (fs_backend S) Ed25519 \<le> 256 ^ modbytes Ed25519"
    "fm_data m = FdDefault \<or> fm_data m = FdCommitment (fs_comm S i) \<or> fm_data m = FdShare (fs_share S i)"
  shows "rp_is_default (frost_round_protocol C H (fs_backend S) J) m
    \<or> (\<exists>n. rp_wrap (frost_round_protocol C H (fs_backend S) J) iid m = Some (Ok n))"
proof -
  obtain b where "commitment_to_bytes C (fs_backend S) (fs_comm S i) = Some (Ok b)"
    using commitment_roundtrip [OF assms(1,2)] by blast
  moreover obtain b' where "frost_share_to_bytes C (fs_share S i) = Ok b'"
    unfolding frost_share_to_bytes_def
    by (rule write_seq_okE [OF assms(1), of "[AU16 (frostsh_id (fs_share S i)), AGroup (sb_group (frostsh_data (fs_share S i))),
      AOctets (sb_to_bytes (frostsh_data (fs_share S i)))]"]) auto
  ultimately show ?thesis using assms(4)
    by (auto simp: frost_round_protocol_def wrap_net_def fm_to_wire_def unwrap_def)
qed

definition fs_settled :: "'p frost_session \<Rightarrow> 'p frost_protocol \<Rightarrow> bool" where
  "fs_settled S s = (set (fs_group S) \<subseteq> set (fp_cids s) \<longrightarrow> fp_round s = 2)"

lemma frost_deliver:
  fixes C :: codec and H :: hash_orders and S :: "'p frost_session" and J :: "frost_wire json"
  defines "P \<equiv> frost_round_protocol C H (fs_backend S) J"
  assumes C: "codec_ok C" and inv: "frost_inv H S (ex_protocol ex)" and E: "session_exps S z R b"
    and t: "unwrap_net J (fm_from_wire C (fs_backend S)) t = Some (Ok m)" "fs_allowed S m"
  obtains ex' v where "ex_deliver P draws ex t = Some (ex', Returned (Ok v))" "fs_signed C S b v"
    | ex' where "ex_deliver P draws ex t = Some (ex', Waiting)" "frost_inv H S (ex_protocol ex')" "fs_settled S (ex_protocol ex')"
      "set (fp_cids (ex_protocol ex)) \<union> commit_ids S m \<subseteq> set (fp_cids (ex_protocol ex'))"
      "set (fp_shids (ex_protocol ex)) \<union> share_ids S m \<subseteq> set (fp_shids (ex_protocol ex'))"
      "fp_round (ex_protocol ex) = 2 \<Longrightarrow> \<not> set (fs_group S) \<subseteq> set (fp_shids (ex_protocol ex'))"
proof -
  let ?B = "fs_backend S"
  obtain s where s: "fp_update H ?B (ex_protocol ex) m = Some (s, Ok ())" "frost_inv H S s" "fp_round s = fp_round (ex_protocol ex)"
    "set (fp_cids s) = set (fp_cids (ex_protocol ex)) \<union> commit_ids S m" "set (fp_shids s) = set (fp_shids (ex_protocol ex)) \<union> share_ids S m"
    using fp_update_progress [OF inv t(2)] by blast
  note d = frost_invD [OF s(2)] and rdy = fp_ready_iff [OF s(2)]
  have q: "cb_order ?B Ed25519 \<le> 256 ^ modbytes Ed25519" using d(1) unfolding session_ok_def by blast
  have P: "rp_unwrap P t = Some (Ok m)" "rp_update P = fp_update H ?B" "rp_is_ready_to_finalize P = fp_is_ready_to_finalize"
    "rp_finalize P = fp_finalize C H ?B" "rp_is_ready_for_next_round P = fp_is_ready_for_next_round" "rp_do_round P = fp_do_round H ?B"
    using t(1) by (simp_all add: P_def frost_round_protocol_def)
  show thesis
  proof (cases "fp_is_ready_to_finalize s")
    case True
    obtain s' v where "fp_finalize C H ?B s = Some (s', Ok v)" "fs_signed C S b v"
      using fp_finalize_good [OF C s(2) E True] by blast
    then show thesis using that(1) s(1) True by (simp add: ex_deliver_def P unwrap_def Let_def)
  next
    case nf: False
    show thesis
    proof (cases "fp_is_ready_for_next_round s")
      case True
      then have r1: "fp_round s = 1" using nf rdy(3) d(14) by auto
      then have full: "set (fs_group S) \<subseteq> set (fp_cids s)" using rdy(2) True by simp
      let ?ex = "ex\<lparr>ex_protocol := s\<rparr>"
      obtain s' m' where s': "fp_do_round H ?B (draws (ex_rounds ex)) s = Some (s', Ok m')" "frost_inv H S s'" "fp_round s' = 2"
          "fp_cids s' = fp_cids s" "set (fp_shids s) \<subseteq> set (fp_shids s')"
          "fm_data m' = FdDefault \<or> fm_data m' = FdShare (fs_share S (fs_own S))"
        using fp_round_1_step [OF s(2) E r1 full] by blast
      have "rp_is_default P m' \<or> (\<exists>n. rp_wrap P (ex_instance_id ?ex) m' = Some (Ok n))"
        unfolding P_def by (rule fs_wrap [OF C d(1) q]) (use s'(6) in blast)
      then obtain ex' where ex': "ex_do_round P draws ''Error during round: '' ?ex = Some (ex', Waiting)" "ex_protocol ex' = s'"
        using ex_do_round_fine [of P draws ?ex s' m' "''Error during round: ''"] s'(1) P(6) by auto
      then have "ex_deliver P draws ex t = Some (ex', Waiting)"
        using s(1) True nf by (simp add: ex_deliver_def P unwrap_def Let_def)
      then show thesis using that(2) [of ex'] ex'(2) s' s(3-5) r1 by (simp add: fs_settled_def)
    next
      case False
      then have "fs_settled S s" using rdy(2) d(14) by (auto simp: fs_settled_def)
      moreover have "\<not> set (fs_group S) \<subseteq> set (fp_shids s)" if "fp_round s = 2"
        using that nf d(16) unfolding rdy(1) by blast
      ultimately show thesis using that(2) [of "ex\<lparr>ex_protocol := s\<rparr>"] s False nf
        by (simp add: ex_deliver_def P unwrap_def Let_def)
    qed
  qed
qed

definition carries_frost ::
  "codec \<Rightarrow> 'p curve_backend \<Rightarrow> frost_wire json \<Rightarrow> net_message \<Rightarrow> 'p frost_message \<Rightarrow> bool" where
  "carries_frost C B J t m = (unwrap_net J (fm_from_wire C B) t = Some (Ok m))"

definition inbox_ids ::
  "codec \<Rightarrow> 'p curve_backend \<Rightarrow> frost_wire json \<Rightarrow> ('p frost_message \<Rightarrow> u16 set) \<Rightarrow> net_message list \<Rightarrow> u16 set" where
  "inbox_ids C B J ids ts = (\<Union>t\<in>set ts. \<Union>m\<in>{m. carries_frost C B J t m}. ids m)"

lemma inbox_ids_simps:
  "inbox_ids C B J ids [] = {}"
  "carries_frost C B J t m \<Longrightarrow> inbox_ids C B J ids (t # ts) = ids m \<union> inbox_ids C B J ids ts"
  by (auto simp: inbox_ids_def carries_frost_def)

text \<open>The state a list of messages leads to when it yields no result.\<close>

definition frost_waits ::
  "codec \<Rightarrow> hash_orders \<Rightarrow> frost_wire json \<Rightarrow> 'p frost_session \<Rightarrow> 'p frost_protocol \<Rightarrow> net_message list \<Rightarrow> 'p frost_protocol \<Rightarrow> bool" where
  "frost_waits C H J S s ts s' = (frost_inv H S s' \<and> (ts \<noteq> [] \<longrightarrow> fs_settled S s')
     \<and> set (fp_cids s) \<union> inbox_ids C (fs_backend S) J (commit_ids S) ts \<subseteq> set (fp_cids s')
     \<and> set (fp_shids s) \<union> inbox_ids C (fs_backend S) J (share_ids S) ts \<subseteq> set (fp_shids s')
     \<and> (ts \<noteq> [] \<and> fp_round s = 2 \<longrightarrow> fp_round s' = 2 \<and> \<not> set (fs_group S) \<subseteq> set (fp_shids s')))"

lemma frost_waits_Cons:
  assumes "carries_frost C (fs_backend S) J t m" "frost_inv H S s" "frost_inv H S s1" "fs_settled S s1"
    "set (fp_cids s) \<union> commit_ids S m \<subseteq> set (fp_cids s1)" "set (fp_shids s) \<union> share_ids S m \<subseteq> set (fp_shids s1)"
    "fp_round s = 2 \<Longrightarrow> \<not> set (fs_group S) \<subseteq> set (fp_shids s1)" "frost_waits C H J S s1 ts s2"
  shows "frost_waits C H J S s (t # ts) (if ts = [] then s1 else s2)"
proof -
  have "fp_round s1 = 2" if "fp_round s = 2"
    using frost_invD(16) [OF assms(2) that] assms(4,5) unfolding fs_settled_def by blast
  then show ?thesis using assms(3-8) unfolding frost_waits_def inbox_ids_simps(2) [OF assms(1)]
    by (cases "ts = []") (auto simp: inbox_ids_simps(1))
qed

lemma frost_loop:
  fixes C :: codec and H :: hash_orders and S :: "'p frost_session" and J :: "frost_wire json"
  defines "P \<equiv> frost_round_protocol C H (fs_backend S) J"
  assumes C: "codec_ok C" and E: "session_exps S z R b" and inv: "frost_inv H S (ex_protocol ex)"
    and ts: "\<forall>t\<in>set ts. \<exists>m. carries_frost C (fs_backend S) J t m \<and> fs_allowed S m"
  shows "(\<exists>ex' v. ex_loop P draws closed ex ts = Some (ex', Returned (Ok v)) \<and> fs_signed C S b v)
    \<or> (\<exists>ex'. ex_loop P draws closed ex ts = ex_loop P draws closed ex' []
        \<and> frost_waits C H J S (ex_protocol ex) ts (ex_protocol ex'))"
  using inv ts
proof (induction ts arbitrary: ex)
  case Nil
  then show ?case by (auto simp: frost_waits_def inbox_ids_simps)
next
  case (Cons t ts)
  obtain m where m: "carries_frost C (fs_backend S) J t m" "fs_allowed S m" using Cons.prems(2) by auto
  show ?case
  proof (rule frost_deliver [OF C Cons.prems(1) E m [unfolded carries_frost_def], of draws, folded P_def])
    fix ex1 assume e1: "ex_deliver P draws ex t = Some (ex1, Waiting)" "frost_inv H S (ex_protocol ex1)" "fs_settled S (ex_protocol ex1)"
      "set (fp_cids (ex_protocol ex)) \<union> commit_ids S m \<subseteq> set (fp_cids (ex_protocol ex1))"
      "set (fp_shids (ex_protocol ex)) \<union> share_ids S m \<subseteq> set (fp_shids (ex_protocol ex1))"
      "fp_round (ex_protocol ex) = 2 \<Longrightarrow> \<not> set (fs_group S) \<subseteq> set (fp_shids (ex_protocol ex1))"
    have step: "ex_loop P draws closed ex (t # ts) = ex_loop P draws closed ex1 ts" using e1(1) by simp
    have tl: "\<forall>t\<in>set ts. \<exists>m. carries_frost C (fs_backend S) J t m \<and> fs_allowed S m" using Cons.prems(2) by simp
    from Cons.IH [OF e1(2) tl] show ?thesis
    proof (elim disjE exE conjE)
      fix ex' assume h: "ex_loop P draws closed ex1 ts = ex_loop P draws closed ex' []"
        "frost_waits C H J S (ex_protocol ex1) ts (ex_protocol ex')"
      have "ex_loop P draws closed ex (t # ts) = ex_loop P draws closed (if ts = [] then ex1 else ex') []"
        unfolding step using h(1) by (cases ts) simp_all
      moreover have "frost_waits C H J S (ex_protocol ex) (t # ts) (ex_protocol (if ts = [] then ex1 else ex'))"
        using frost_waits_Cons [OF m(1) Cons.prems(1) e1(2-6) h(2)] by (simp add: if_distrib)
      ultimately show ?thesis by blast
    qed (unfold step, blast)
  qed auto
qed

definition frost_start :: "hash_orders \<Rightarrow> 'p frost_session \<Rightarrow> (nat \<Rightarrow> bytes \<times> bytes) \<Rightarrow> 'p frost_protocol \<Rightarrow> bool" where
  "frost_start H S rb s = (session_ok S \<and> orders_ok H \<and> fp_key s = fs_key S \<and> fp_msg s = fs_msg S \<and> fp_round s = 0
     \<and> fp_options s = NoPrecomputation \<and> sg_signer_identifiers (fp_signer_group s) = fs_group S
     \<and> fp_commitment_list s = [] \<and> fp_shares s = [] \<and> fp_not_verified_shares s = {}
     \<and> (fs_own S \<in> set (fs_group S) \<longrightarrow> frost_commit (fs_backend S) (fs_key S) (fst (rb 0)) (snd (rb 0))
          = Some (fs_comm S (fs_own S), fs_nonce S (fs_own S))))"

lemma fp_round_0_step:
  assumes "frost_start H S rb s"
  shows "\<exists>s' m. fp_do_round H (fs_backend S) rb s = Some (s', Ok m) \<and> frost_inv H S s' \<and> fp_round s' = 1
    \<and> set (fp_cids s') = {fs_own S} \<inter> set (fs_group S)
    \<and> (fm_data m = FdDefault \<or> fm_data m = FdCommitment (fs_comm S (fs_own S)))"
proof -
  have s: "session_ok S" "orders_ok H" "fp_key s = fs_key S" "fp_msg s = fs_msg S" "fp_round s = 0" "fp_options s = NoPrecomputation"
    "sg_signer_identifiers (fp_signer_group s) = fs_group S" "fp_commitment_list s = []" "fp_shares s = []" "fp_not_verified_shares s = {}"
    using assms by (simp_all add: frost_start_def)
  show ?thesis
  proof (cases "fs_own S \<in> set (fs_group S)")
    case True
    let ?s = "s\<lparr>fp_nonce := Some (fs_nonce S (fs_own S)), fp_commitment := Some (fs_comm S (fs_own S)),
        fp_commitment_list := [(fs_own S, fs_comm S (fs_own S))], fp_round := 1\<rparr>"
    have "fp_do_round H (fs_backend S) rb s = Some (?s, Ok \<lparr>fm_id = fs_own S, fm_data = FdCommitment (fs_comm S (fs_own S))\<rparr>)"
      using assms True s by (simp add: fp_do_round_def fp_round_0_def frost_start_def sg_contains_def hm_contains_key_def Let_def)
    moreover have "frost_inv H S ?s" using s True by (simp add: frost_inv_def fp_cids_def fp_shids_def)
    ultimately show ?thesis using True by (auto simp: fp_cids_def)
  next
    case False
    have "fp_do_round H (fs_backend S) rb s = Some (s\<lparr>fp_round := 1\<rparr>, Ok \<lparr>fm_id = fs_own S, fm_data = FdDefault\<rparr>)"
      using False s by (simp add: fp_do_round_def fp_round_0_def sg_contains_def Let_def)
    moreover have "frost_inv H S (s\<lparr>fp_round := 1\<rparr>)" using s False by (simp add: frost_inv_def fp_cids_def fp_shids_def)
    ultimately show ?thesis using False s by (auto simp: fp_cids_def)
  qed
qed

text \<open>
  A run: commitments of the other signers arrive in a first part of the inbox, their shares in the
  rest; anything of the session may come in between, early, late or repeatedly.
\<close>

lemma frost_run_session:
  fixes C :: codec and H :: hash_orders and S :: "'p frost_session" and J :: "frost_wire json"
  defines "P \<equiv> frost_round_protocol C H (fs_backend S) J"
  assumes C: "codec_ok C" and E: "session_exps S z R b" and start: "frost_start H S (draws 0) s"
    and inbox: "\<forall>t\<in>set (xs @ ys). \<exists>m. carries_frost C (fs_backend S) J t m \<and> fs_allowed S m" "xs \<noteq> []" "ys \<noteq> []"
    and coms: "set (fs_group S) - {fs_own S} \<subseteq> inbox_ids C (fs_backend S) J (commit_ids S) xs"
    and shs: "set (fs_group S) - {fs_own S} \<subseteq> inbox_ids C (fs_backend S) J (share_ids S) ys"
  shows "\<exists>ex v. executor_run P draws iid s (xs @ ys) closed = Some (ex, Returned (Ok v)) \<and> fs_signed C S b v"
proof -
  let ?ex = "ex_emit (StartedInstance iid) (executor_new iid s)"
  have ok: "session_ok S" "cb_order (fs_backend S) Ed25519 \<le> 256 ^ modbytes Ed25519"
    using start unfolding frost_start_def session_ok_def by blast+
  obtain s0 m0 where s0: "fp_do_round H (fs_backend S) (draws 0) s = Some (s0, Ok m0)" "frost_inv H S s0" "fp_round s0 = 1"
      "set (fp_cids s0) = {fs_own S} \<inter> set (fs_group S)" "fm_data m0 = FdDefault \<or> fm_data m0 = FdCommitment (fs_comm S (fs_own S))"
    using fp_round_0_step [OF start] by blast
  have "rp_is_default P m0 \<or> (\<exists>n. rp_wrap P (ex_instance_id ?ex) m0 = Some (Ok n))"
    unfolding P_def by (rule fs_wrap [OF C ok]) (use s0(5) in blast)
  moreover have "rp_do_round P (draws (ex_rounds ?ex)) (ex_protocol ?ex) = Some (s0, Ok m0)"
    using s0(1) by (simp add: P_def frost_round_protocol_def executor_new_def)
  ultimately obtain ex0 where ex0: "ex_do_round P draws ''Error during initial round: '' ?ex = Some (ex0, Waiting)" "ex_protocol ex0 = s0"
    using ex_do_round_fine [of P draws ?ex] by blast
  have run: "executor_run P draws iid s (xs @ ys) closed = ex_loop P draws closed ex0 (xs @ ys)"
    using ex0(1) by (simp add: executor_run_def Let_def)
  have inv0: "frost_inv H S (ex_protocol ex0)" using s0(2) ex0(2) by simp
  have inb: "\<forall>t\<in>set xs. \<exists>m. carries_frost C (fs_backend S) J t m \<and> fs_allowed S m"
      "\<forall>t\<in>set ys. \<exists>m. carries_frost C (fs_backend S) J t m \<and> fs_allowed S m" using inbox(1) by simp_all
  from frost_loop [OF C E inv0 inb(1), of draws False, folded P_def] show ?thesis
  proof (elim disjE exE conjE)
    fix ex' v assume "ex_loop P draws False ex0 xs = Some (ex', Returned (Ok v))" "fs_signed C S b v"
    then show ?thesis unfolding run ex_loop_append by auto
  next
    fix ex1 assume e1: "ex_loop P draws False ex0 xs = ex_loop P draws False ex1 []" and w1: "frost_waits C H J S (ex_protocol ex0) xs (ex_protocol ex1)"
    have full: "set (fs_group S) \<subseteq> set (fp_cids (ex_protocol ex1))"
      using w1 coms s0(4) ex0(2) unfolding frost_waits_def by auto
    then have r2: "fp_round (ex_protocol ex1) = 2" and i1: "frost_inv H S (ex_protocol ex1)"
      using w1 inbox(2) unfolding frost_waits_def fs_settled_def by blast+
    have rest: "ex_loop P draws closed ex0 (xs @ ys) = ex_loop P draws closed ex1 ys"
      unfolding ex_loop_append e1 by simp
    have "\<not> frost_waits C H J S (ex_protocol ex1) ys s'" for s'
      using shs frost_invD(16) [OF i1 r2] r2 inbox(3) unfolding frost_waits_def by blast
    then show ?thesis using frost_loop [OF C E i1 inb(2), of draws closed, folded P_def] unfolding run rest by blast
  qed
qed

end
