(* ===== verification/QC_FrostRun.thy ===== *)
theory QC_FrostRun
  imports QC_FrostSession
begin

text \<open>
  Runs of the FROST protocol with generated keys: what the executor returns when the signers follow
  the protocol, when one of them sends a wrong share, and with the precomputation option.
\<close>

subsection \<open>Deployments\<close>

definition frost_deployment ::
  "codec \<Rightarrow> 'p curve_backend \<Rightarrow> nat \<Rightarrow> nat \<Rightarrow> int \<Rightarrow> (nat \<Rightarrow> int) \<Rightarrow> 'p frost_private_key list \<Rightarrow> bool" where
  "frost_deployment C B k n x rnd keys =
     (curve_ok B Ed25519 0 \<and> point_codec_ok B Ed25519 0 \<and> codec_ok C \<and> cb_order B Ed25519 \<le> 256 ^ modbytes Ed25519
      \<and> 0 < k \<and> 3 * (k - 1) + 1 \<le> n \<and> n \<le> 65535 \<and> int n < cb_order B Ed25519
      \<and> draws_ok (cb_order B Ed25519) rnd \<and> 0 \<le> x \<and> x < cb_order B Ed25519
      \<and> frost_generate_keys C B k n Ed25519 x rnd = Some (Ok keys))"

text \<open>The commitments, nonces and shares of the signers when all of them follow the protocol.\<close>

definition frost_honest ::
  "'p curve_backend \<Rightarrow> 'p frost_private_key list \<Rightarrow> bytes \<Rightarrow> u16 list \<Rightarrow> (u16 \<Rightarrow> bytes \<times> bytes) \<Rightarrow>
   (u16 \<Rightarrow> 'p public_commitment) \<Rightarrow> (u16 \<Rightarrow> nonce) \<Rightarrow> (u16 \<Rightarrow> frost_signature_share) \<Rightarrow> bool" where
  "frost_honest B keys msg G rb cm nc sh = (\<forall>i\<in>set G.
     frost_commit B (keys ! (unat i - 1)) (fst (rb i)) (snd (rb i)) = Some (cm i, nc i)
     \<and> map_option (map_sum (\<lambda>e. e) fst \<circ> snd)
         (frost_partial_sign B (nc i) (map cm G) msg (keys ! (unat i - 1)) i) = Some (Ok (sh i)))"

definition frost_inbox ::
  "codec \<Rightarrow> 'p curve_backend \<Rightarrow> frost_wire json \<Rightarrow> u16 list \<Rightarrow> u16 \<Rightarrow> (u16 \<Rightarrow> 'p public_commitment) \<Rightarrow>
   (u16 \<Rightarrow> frost_signature_share) \<Rightarrow> net_message list \<Rightarrow> net_message list \<Rightarrow> bool" where
  "frost_inbox C B J G own cm sh xs ys =
     (xs \<noteq> [] \<and> ys \<noteq> []
      \<and> (\<forall>t\<in>set (xs @ ys). \<exists>i\<in>set G. carries_frost C B J t \<lparr>fm_id = i, fm_data = FdCommitment (cm i)\<rparr>
           \<or> carries_frost C B J t \<lparr>fm_id = i, fm_data = FdShare (sh i)\<rparr>)
      \<and> (\<forall>i\<in>set G - {own}. (\<exists>t\<in>set xs. carries_frost C B J t \<lparr>fm_id = i, fm_data = FdCommitment (cm i)\<rparr>)
           \<and> (\<exists>t\<in>set ys. carries_frost C B J t \<lparr>fm_id = i, fm_data = FdShare (sh i)\<rparr>)))"

lemma frost_honestD:
  assumes "frost_honest B keys msg G rb cm nc sh"
  shows "\<forall>i\<in>set G. frost_commit B (keys ! (unat i - 1)) (fst (rb i)) (snd (rb i)) = Some (cm i, nc i)"
    "i \<in> set G \<Longrightarrow> \<exists>cl. frost_partial_sign B (nc i) (map cm G) msg (keys ! (unat i - 1)) i = Some (cl, Ok (s, R)) \<Longrightarrow> sh i = s"
  using assms by (auto simp: frost_honest_def)

lemma u16_id:
  assumes "0 < unat (i :: u16)"
  shows "of_nat (unat i - 1 + 1) = i" "uint i = int (unat i - 1) + 1"
  using assms by simp_all

text \<open>The session behind a deployment in which the signers' shares carry the scalars \<open>w\<close>.\<close>

lemma frost_deployment_session:
  assumes dep: "frost_deployment C B k n x rnd keys" and j: "j < n" and G: "distinct G" "length G = k" "\<forall>i\<in>set G. 0 < unat i \<and> unat i \<le> n"
    and hon: "\<forall>i\<in>set G. frost_commit B (keys ! (unat i - 1)) (fst (rb i)) (snd (rb i)) = Some (cm i, nc i)" and w: "\<forall>i. 0 \<le> w i"
  obtains S z R where "\<And>i. 0 \<le> z i \<and> z i < cb_order B Ed25519" "session_ok S" "fs_backend S = B" "fs_group S = G" "fs_msg S = msg" "fs_own S = of_nat (j + 1)" "fs_key S = keys ! j"
    "fs_pk S = dlsk_pubkey (keys ! j)" "fs_data S = w"
    "\<And>i. i \<in> set G \<Longrightarrow> cm i = fs_comm S i" "\<And>i. i \<in> set G \<Longrightarrow> nc i = fs_nonce S i"
    "\<And>i. i \<in> set G \<Longrightarrow> \<exists>cl. frost_partial_sign B (nc i) (map cm G) msg (keys ! (unat i - 1)) i
        = Some (cl, Ok (\<lparr>frostsh_id = i, frostsh_data = SBI Ed25519 (z i)\<rparr>, R))"
    "(of_nat (j + 1) \<in> set G \<longrightarrow> w (of_nat (j + 1)) = z (of_nat (j + 1))) \<Longrightarrow>
      session_exps S z R ((\<Sum>i\<in>set G. w i) mod cb_order B Ed25519 = (\<Sum>i\<in>set G. z i) mod cb_order B Ed25519)"
proof -
  let ?f = "shamir_poly x k rnd" and ?g = Ed25519
  have c: "curve_ok B ?g 0" "point_codec_ok B ?g 0" "codec_ok C" "cb_order B ?g \<le> 256 ^ modbytes ?g" "0 < k" "n \<le> 65535"
      "int n < cb_order B ?g" "draws_ok (cb_order B ?g) rnd" "0 \<le> x" "x < cb_order B ?g" "3 * (k - 1) + 1 \<le> n"
      and gen: "frost_generate_keys C B k n ?g x rnd = Some (Ok keys)"
    using dep unfolding frost_deployment_def by blast+
  obtain pk where pk: "dl_key_ok B ?g 0 ?f n pk" "dlpk_k pk = of_nat k" and ks: "keys = map (party_key B ?f pk) [0..<n]"
    using frost_generate_keys_ok [OF c(1,3,5,8-10), of n] gen by auto
  have key: "keys ! i = party_key B ?f pk i" if "i < n" for i using that ks by simp
  have "k \<le> n" using c(11) by linarith
  then have k: "unat (dlpk_k pk) = k" using c(6) by (simp add: pk(2) unat_of_nat)
  have "\<exists>de. cm i = \<lparr>pc_id = i, pc_hiding = gpow B ?g 0 (fst de), pc_binding = gpow B ?g 0 (snd de)\<rparr>
      \<and> nc i = \<lparr>nonce_hiding = SBI ?g (fst de), nonce_binding = SBI ?g (snd de)\<rparr>" if i: "i \<in> set G" for i
  proof -
    have r: "0 < unat i" "unat i - 1 < n" using G(3) i by auto
    have "frost_commit B (keys ! (unat i - 1)) (fst (rb i)) (snd (rb i)) = Some (cm i, nc i)"
      using hon i by blast
    then have "frost_commit B (party_key B ?f pk (unat i - 1)) (fst (rb i)) (snd (rb i)) = Some (cm i, nc i)"
      unfolding key [OF r(2)] .
    then show ?thesis using frost_commit_ok [OF c(1) pk(1), of "unat i - 1" "fst (rb i)" "snd (rb i)"] u16_id(1) [OF r(1)] by auto
  qed
  then obtain de where de: "\<And>i. i \<in> set G \<Longrightarrow> cm i = \<lparr>pc_id = i, pc_hiding = gpow B ?g 0 (fst (de i)), pc_binding = gpow B ?g 0 (snd (de i))\<rparr>
      \<and> nc i = \<lparr>nonce_hiding = SBI ?g (fst (de i)), nonce_binding = SBI ?g (snd (de i))\<rparr>" by metis
  define S where "S = \<lparr>fs_backend = B, fs_poly = ?f, fs_pk = pk, fs_n = n, fs_group = G, fs_msg = msg, fs_hiding = fst \<circ> de,
      fs_binding = snd \<circ> de, fs_data = w, fs_party = j\<rparr>"
  have sel: "fs_backend S = B" "fs_poly S = ?f" "fs_pk S = pk" "fs_n S = n" "fs_group S = G" "fs_msg S = msg" "fs_data S = w"
    "fs_party S = j" "fs_hiding S = fst \<circ> de" "fs_binding S = snd \<circ> de" by (simp_all add: S_def)
  have cn: "cm i = fs_comm S i" "nc i = fs_nonce S i" if "i \<in> set G" for i
    using de [OF that] by (simp_all add: fs_comm_def fs_nonce_def comm_def sel)
  have rng: "\<forall>i\<in>set G. 0 < uint i \<and> uint i \<le> int n"
  proof
    fix i assume "i \<in> set G"
    then have "0 < unat i" "unat i \<le> n" using G(3) by auto
    then show "0 < uint i \<and> uint i \<le> int n" using u16_id(2) [of i] by linarith
  qed
  have "G \<noteq> []" using G(2) c(5) by auto
  then have S: "session_ok S"
    using c pk k G(1,2) rng j w polyfun_shamir [OF c(5)] by (simp add: session_ok_def sel)
  obtain z R where z0: "\<And>i. 0 \<le> z i \<and> z i < cb_order B ?g" and z: "sound_exponents S z R" "\<And>ids. mset ids = mset G \<Longrightarrow> \<exists>sig.
      frost_assemble B R (fs_key S) (map (fs_share S) ids) = Some sig \<and> sig_wf B (SigFrost sig)
      \<and> frost_verify B sig pk msg = Some ((\<Sum>i\<in>set G. w i) mod cb_order B ?g = (\<Sum>i\<in>set G. z i) mod cb_order B ?g)"
    by (rule session_exponents [OF S, unfolded sel]) blast
  have share: "\<exists>cl. frost_partial_sign B (nc i) (map cm G) msg (keys ! (unat i - 1)) i
        = Some (cl, Ok (\<lparr>frostsh_id = i, frostsh_data = SBI ?g (z i)\<rparr>, R))" if i: "i \<in> set G" for i
  proof -
    have r: "0 < unat i" "unat i - 1 < n" using G(3) i by auto
    have m: "map cm G = map (fs_comm S) G" using cn(1) by simp
    show ?thesis
      using z(1) r(2) i u16_id(1) [OF r(1)] unfolding m cn(2) [OF i] key [OF r(2)] sound_exponents_def sel by metis
  qed
  show thesis
  proof (rule that [of z S R])
    show "fs_key S = keys ! j" "fs_pk S = dlsk_pubkey (keys ! j)" using key [OF j] by (simp_all add: fs_key_def sel)
    show "session_exps S z R ((\<Sum>i\<in>set G. w i) mod cb_order B ?g = (\<Sum>i\<in>set G. z i) mod cb_order B ?g)"
      if "of_nat (j + 1) \<in> set G \<longrightarrow> w (of_nat (j + 1)) = z (of_nat (j + 1))"
      using z that unfolding session_exps_def by (simp add: fs_own_def sel)
  qed (use S cn share z0 in \<open>simp_all add: fs_own_def sel\<close>)
qed

lemma frost_inbox_session:
  assumes "frost_inbox C (fs_backend S) J (fs_group S) (fs_own S) cm dl xs ys"
    "\<forall>i\<in>set (fs_group S). cm i = fs_comm S i" "\<forall>i\<in>set (fs_group S). dl i = fs_share S i"
  shows "\<forall>t\<in>set (xs @ ys). \<exists>m. carries_frost C (fs_backend S) J t m \<and> fs_allowed S m"
    "set (fs_group S) - {fs_own S} \<subseteq> inbox_ids C (fs_backend S) J (commit_ids S) xs"
    "set (fs_group S) - {fs_own S} \<subseteq> inbox_ids C (fs_backend S) J (share_ids S) ys"
proof -
  show "\<forall>t\<in>set (xs @ ys). \<exists>m. carries_frost C (fs_backend S) J t m \<and> fs_allowed S m"
  proof
    fix t assume "t \<in> set (xs @ ys)"
    then obtain i where i: "i \<in> set (fs_group S)" "carries_frost C (fs_backend S) J t \<lparr>fm_id = i, fm_data = FdCommitment (cm i)\<rparr>
        \<or> carries_frost C (fs_backend S) J t \<lparr>fm_id = i, fm_data = FdShare (dl i)\<rparr>"
      using assms(1) unfolding frost_inbox_def by blast
    then have "fs_allowed S \<lparr>fm_id = i, fm_data = FdCommitment (cm i)\<rparr>" "fs_allowed S \<lparr>fm_id = i, fm_data = FdShare (dl i)\<rparr>"
      using assms(2,3) by (simp_all add: fs_allowed_def)
    then show "\<exists>m. carries_frost C (fs_backend S) J t m \<and> fs_allowed S m" using i(2) by (elim disjE) (rule exI, erule conjI, assumption)+
  qed
  have others: "\<forall>i\<in>set (fs_group S) - {fs_own S}. (\<exists>t\<in>set xs. carries_frost C (fs_backend S) J t \<lparr>fm_id = i, fm_data = FdCommitment (cm i)\<rparr>)
      \<and> (\<exists>t\<in>set ys. carries_frost C (fs_backend S) J t \<lparr>fm_id = i, fm_data = FdShare (dl i)\<rparr>)"
    using assms(1) unfolding frost_inbox_def by (elim conjE)
  have "i \<in> inbox_ids C (fs_backend S) J (commit_ids S) xs \<and> i \<in> inbox_ids C (fs_backend S) J (share_ids S) ys"
    if i: "i \<in> set (fs_group S) - {fs_own S}" for i
  proof -
    obtain t t' where "t \<in> set xs" "carries_frost C (fs_backend S) J t \<lparr>fm_id = i, fm_data = FdCommitment (cm i)\<rparr>"
        "t' \<in> set ys" "carries_frost C (fs_backend S) J t' \<lparr>fm_id = i, fm_data = FdShare (dl i)\<rparr>"
      using bspec [OF others i] by (elim conjE bexE)
    moreover have "i \<in> commit_ids S \<lparr>fm_id = i, fm_data = FdCommitment (cm i)\<rparr>" "i \<in> share_ids S \<lparr>fm_id = i, fm_data = FdShare (dl i)\<rparr>"
      using i by (simp_all add: commit_ids_def share_ids_def)
    ultimately show ?thesis unfolding inbox_ids_def by blast
  qed
  then show "set (fs_group S) - {fs_own S} \<subseteq> inbox_ids C (fs_backend S) J (commit_ids S) xs"
    "set (fs_group S) - {fs_own S} \<subseteq> inbox_ids C (fs_backend S) J (share_ids S) ys" by blast+
qed

lemma frost_new_group:
  assumes dep: "frost_deployment C B k n x rnd keys" and H: "orders_ok H" "rng_ok rng" and j: "j < n"
    and new: "fp_new H rng (SkFrost (keys ! j)) msg label opts p = Some (Some s)"
  shows "distinct (sg_signer_identifiers (fp_signer_group s))" "length (sg_signer_identifiers (fp_signer_group s)) = k"
    "\<forall>i\<in>set (sg_signer_identifiers (fp_signer_group s)). 0 < unat i \<and> unat i \<le> n"
proof -
  have C: "codec_ok C" and c: "curve_ok B Ed25519 0" "0 < k" "draws_ok (cb_order B Ed25519) rnd" "0 \<le> x" "x < cb_order B Ed25519"
      "3 * (k - 1) + 1 \<le> n" "n \<le> 65535" and gen: "frost_generate_keys C B k n Ed25519 x rnd = Some (Ok keys)"
    using dep unfolding frost_deployment_def by blast+
  obtain pk where "dlpk_k pk = of_nat k" "keys = map (party_key B (shamir_poly x k rnd) pk) [0..<n]"
    using frost_generate_keys_ok [OF c(1) C c(2-5), of n] gen by auto
  then have "dlpk_k (dlsk_pubkey (keys ! j)) = of_nat k" using j by simp
  moreover have "k < 65536" using c(6,7) by linarith
  ultimately have uk: "unat (dlpk_k (dlsk_pubkey (keys ! j))) = k" by (simp add: unat_of_nat)
  obtain g where g: "signer_group_new H rng (dlpk_k (dlsk_pubkey (keys ! j))) msg = Some (Some g)" "fp_signer_group s = g"
    using new by (auto simp: fp_new_def sk_get_threshold_def Let_def split: option.splits)
  have k0: "0 < dlpk_k (dlsk_pubkey (keys ! j))" using uk c(2) by (auto simp: word_gt_0)
  have "k \<le> 21845" using c(6,7) by linarith
  then have "unat (3 * (dlpk_k (dlsk_pubkey (keys ! j)) - 1) + 1) = 3 * (k - 1) + 1"
    using wrapped_size_cases(3) [of k] c(2) unfolding unat_group_size [OF k0] uk by linarith
  note sh = signer_group_new_shape [OF g(1) H, unfolded uk this]
  show "distinct (sg_signer_identifiers (fp_signer_group s))" "length (sg_signer_identifiers (fp_signer_group s)) = k"
    "\<forall>i\<in>set (sg_signer_identifiers (fp_signer_group s)). 0 < unat i \<and> unat i \<le> n"
    using sh c(6) unfolding g(2) by fastforce+
qed

lemma fp_new_facts:
  assumes "fp_new H rng (SkFrost key) msg label opts None = Some (Some s)"
  shows "fp_key s = key" "fp_msg s = msg" "fp_round s = 0" "fp_options s = opts" "fp_commitment_list s = []"
    "fp_shares s = []" "fp_not_verified_shares s = {}" "fp_nonce s = None"
  using assms by (auto simp: fp_new_def sk_get_threshold_def Let_def)

lemma frost_run_outcome:
  assumes dep: "frost_deployment C B k n x rnd keys" and H: "orders_ok H" "rng_ok rng" and j: "j < n"
    and new: "fp_new H rng (SkFrost (keys ! j)) msg label NoPrecomputation None = Some (Some s)"
    and G: "G = sg_signer_identifiers (fp_signer_group s)"
    and hon: "frost_honest B keys msg G rb cm nc sh" and rb: "draws 0 0 = rb (of_nat (j + 1))"
    and w: "\<forall>i. 0 \<le> w i" "\<forall>i\<in>set G. dl i = \<lparr>frostsh_id = i, frostsh_data = SBI Ed25519 (w i)\<rparr>"
      "of_nat (j + 1) \<in> set G \<Longrightarrow> dl (of_nat (j + 1)) = sh (of_nat (j + 1))"
    and inbox: "frost_inbox C B J G (of_nat (j + 1)) cm dl xs ys"
  shows "\<exists>ex v sig z. executor_run (frost_round_protocol C H B J) draws iid s (xs @ ys) closed = Some (ex, Returned (Ok v))
    \<and> sig_from_bytes C B v = Some (Ok (SigFrost sig)) \<and> (\<forall>i\<in>set G. sh i = \<lparr>frostsh_id = i, frostsh_data = SBI Ed25519 (z i)\<rparr>)
    \<and> frost_verify B sig (dlsk_pubkey (keys ! j)) msg
        = Some ((\<Sum>i\<in>set G. w i) mod cb_order B Ed25519 = (\<Sum>i\<in>set G. z i) mod cb_order B Ed25519)"
proof -
  have C: "codec_ok C" and n: "n \<le> 65535" using dep unfolding frost_deployment_def by blast+
  note nf = fp_new_facts [OF new] and gf = frost_new_group [OF dep H j new, folded G]
  show ?thesis
  proof (rule frost_deployment_session [OF dep j gf frost_honestD(1) [OF hon] w(1)])
    fix z S R assume S: "session_ok S" "fs_backend S = B" "fs_group S = G" "fs_msg S = msg" "fs_own S = of_nat (j + 1)" "fs_key S = keys ! j"
      "fs_pk S = dlsk_pubkey (keys ! j)" "fs_data S = w"
      "\<And>i. i \<in> set G \<Longrightarrow> cm i = fs_comm S i" "\<And>i. i \<in> set G \<Longrightarrow> nc i = fs_nonce S i"
      "\<And>i. i \<in> set G \<Longrightarrow> \<exists>cl. frost_partial_sign B (nc i) (map cm G) msg (keys ! (unat i - 1)) i
        = Some (cl, Ok (\<lparr>frostsh_id = i, frostsh_data = SBI Ed25519 (z i)\<rparr>, R))"
      "(of_nat (j + 1) \<in> set G \<longrightarrow> w (of_nat (j + 1)) = z (of_nat (j + 1))) \<Longrightarrow>
        session_exps S z R ((\<Sum>i\<in>set G. w i) mod cb_order B Ed25519 = (\<Sum>i\<in>set G. z i) mod cb_order B Ed25519)"
    have sh: "\<forall>i\<in>set G. sh i = \<lparr>frostsh_id = i, frostsh_data = SBI Ed25519 (z i)\<rparr>" using frost_honestD(2) [OF hon] S(11) by blast
    have "w (of_nat (j + 1)) = z (of_nat (j + 1))" if "of_nat (j + 1) \<in> set G"
      using w(3) [OF that] bspec [OF w(2) that] bspec [OF sh that] by simp
    then have E: "session_exps S z R ((\<Sum>i\<in>set G. w i) mod cb_order B Ed25519 = (\<Sum>i\<in>set G. z i) mod cb_order B Ed25519)"
      using S(12) by blast
    have dl: "\<And>i. i \<in> set G \<Longrightarrow> dl i = fs_share S i" using w(2) S(8) by (simp add: fs_share_def)
    have "frost_commit B (keys ! j) (fst (draws 0 0)) (snd (draws 0 0)) = Some (fs_comm S (fs_own S), fs_nonce S (fs_own S))"
      if "fs_own S \<in> set G"
    proof -
      have "unat (of_nat (j + 1) :: u16) - 1 = j" using j n by (simp only: unat_of_nat) simp
      then show ?thesis using hon that S(5,9,10) rb by (auto simp: frost_honest_def)
    qed
    then have start: "frost_start H S (draws 0) s" using S(1-6) H(1) nf G by (simp add: frost_start_def)
    have ne: "xs \<noteq> []" "ys \<noteq> []" using inbox by (simp_all add: frost_inbox_def)
    have inb: "frost_inbox C (fs_backend S) J (fs_group S) (fs_own S) cm dl xs ys" using inbox S(2,3,5) by simp
    have e: "\<forall>i\<in>set (fs_group S). cm i = fs_comm S i" "\<forall>i\<in>set (fs_group S). dl i = fs_share S i" using S(3,9) dl by simp_all
    note fi = frost_inbox_session [OF inb e]
    from frost_run_session [of C S z R _ H draws s xs ys J iid closed, OF C E start fi(1) ne fi(2,3)]
    show ?thesis using S(2,4,7) sh unfolding fs_signed_def by fastforce
  qed
qed

lemma frost_honest_scalars:
  assumes "frost_deployment C B k n x rnd keys" "j < n" "distinct G" "length G = k" "\<forall>i\<in>set G. 0 < unat i \<and> unat i \<le> n"
    and hon: "frost_honest B keys msg G rb cm nc sh"
  obtains z where "\<And>i. 0 \<le> z i \<and> z i < cb_order B Ed25519" "\<forall>i\<in>set G. sh i = \<lparr>frostsh_id = i, frostsh_data = SBI Ed25519 (z i)\<rparr>"
proof (rule frost_deployment_session [OF assms(1-5) frost_honestD(1) [OF hon], of "\<lambda>_. 0" msg])
  fix z R assume z: "\<And>i. 0 \<le> z i \<and> z i < cb_order B Ed25519"
    and s: "\<And>i. i \<in> set G \<Longrightarrow> \<exists>cl. frost_partial_sign B (nc i) (map cm G) msg (keys ! (unat i - 1)) i
      = Some (cl, Ok (\<lparr>frostsh_id = i, frostsh_data = SBI Ed25519 (z i)\<rparr>, R))"
  have "\<forall>i\<in>set G. sh i = \<lparr>frostsh_id = i, frostsh_data = SBI Ed25519 (z i)\<rparr>"
    using frost_honestD(2) [OF hon _ s] by simp
  with z show thesis by (rule that)
qed simp

lemma frost_honest_exists:
  assumes dep: "frost_deployment C B k n x rnd keys" and j: "j < n"
    and G: "distinct G" "length G = k" "\<forall>i\<in>set G. 0 < unat i \<and> unat i \<le> n"
  shows "\<exists>cm nc sh. frost_honest B keys msg G rb cm nc sh"
proof -
  have c: "codec_ok C" "curve_ok B Ed25519 0" "0 < k" "draws_ok (cb_order B Ed25519) rnd" "0 \<le> x" "x < cb_order B Ed25519"
      and gen: "frost_generate_keys C B k n Ed25519 x rnd = Some (Ok keys)"
    using dep unfolding frost_deployment_def by blast+
  obtain pk where pk: "dl_key_ok B Ed25519 0 (shamir_poly x k rnd) n pk" "keys = map (party_key B (shamir_poly x k rnd) pk) [0..<n]"
    using frost_generate_keys_ok [OF c(2,1,3-6), of n] gen by auto
  have "\<exists>cn. frost_commit B (keys ! (unat i - 1)) (fst (rb i)) (snd (rb i)) = Some cn" if "i \<in> set G" for i
  proof -
    have "unat i - 1 < n" using G(3) that by auto
    then have "keys ! (unat i - 1) = party_key B (shamir_poly x k rnd) pk (unat i - 1)" using pk(2) by simp
    then show ?thesis using frost_commit_ok [OF c(2) pk(1), of "unat i - 1" "fst (rb i)" "snd (rb i)"] by auto
  qed
  then obtain cn where "\<forall>i\<in>set G. frost_commit B (keys ! (unat i - 1)) (fst (rb i)) (snd (rb i)) = Some (fst (cn i), snd (cn i))"
    by (metis prod.collapse)
  then have cn: "\<forall>i\<in>set G. frost_commit B (keys ! (unat i - 1)) (fst (rb i)) (snd (rb i)) = Some ((fst \<circ> cn) i, (snd \<circ> cn) i)" by simp
  show ?thesis
  proof (rule frost_deployment_session [OF dep j G cn, of "\<lambda>_. 0" msg])
    fix z R assume "\<And>i. i \<in> set G \<Longrightarrow> \<exists>cl. frost_partial_sign B ((snd \<circ> cn) i) (map (fst \<circ> cn) G) msg (keys ! (unat i - 1)) i
        = Some (cl, Ok (\<lparr>frostsh_id = i, frostsh_data = SBI Ed25519 (z i)\<rparr>, R))"
    then have "frost_honest B keys msg G rb (fst \<circ> cn) (snd \<circ> cn) (\<lambda>i. \<lparr>frostsh_id = i, frostsh_data = SBI Ed25519 (z i)\<rparr>)"
      using cn by (fastforce simp: frost_honest_def)
    then show ?thesis by blast
  qed simp
qed

subsection \<open>Properties\<close>

text \<open>
  C25.  FROST signing completes with a valid signature.  Party \<open>j\<close>, signer or not, runs the protocol
  on messages of the signers.  Once the commitments of the other signers have arrived and their shares
  arrive after that, the executor returns a signature that \<open>verify\<close> accepts, whatever the order of the
  commitments and of the shares, however often they are repeated, even when some shares overtake
  commitments, and however the hash maps are iterated.
\<close>

theorem frost_run_signs:
  assumes "frost_deployment C B k n x rnd keys" "orders_ok H" "rng_ok rng" "j < n"
    "fp_new H rng (SkFrost (keys ! j)) msg label NoPrecomputation None = Some (Some s)"
    "frost_honest B keys msg (sg_signer_identifiers (fp_signer_group s)) rb cm nc sh" "draws 0 0 = rb (of_nat (j + 1))"
    "frost_inbox C B J (sg_signer_identifiers (fp_signer_group s)) (of_nat (j + 1)) cm sh xs ys"
  shows "\<exists>ex v sig. executor_run (frost_round_protocol C H B J) draws iid s (xs @ ys) closed = Some (ex, Returned (Ok v))
    \<and> sig_from_bytes C B v = Some (Ok (SigFrost sig)) \<and> frost_verify B sig (dlsk_pubkey (keys ! j)) msg = Some True"
proof -
  let ?G = "sg_signer_identifiers (fp_signer_group s)"
  obtain z where z: "\<And>i. 0 \<le> z i \<and> z i < cb_order B Ed25519" "\<forall>i\<in>set ?G. sh i = \<lparr>frostsh_id = i, frostsh_data = SBI Ed25519 (z i)\<rparr>"
    by (rule frost_honest_scalars [OF assms(1,4) frost_new_group [OF assms(1-5)] assms(6)]) blast
  obtain ex v sig z' where o: "executor_run (frost_round_protocol C H B J) draws iid s (xs @ ys) closed = Some (ex, Returned (Ok v))"
      "sig_from_bytes C B v = Some (Ok (SigFrost sig))" "\<forall>i\<in>set ?G. sh i = \<lparr>frostsh_id = i, frostsh_data = SBI Ed25519 (z' i)\<rparr>"
      "frost_verify B sig (dlsk_pubkey (keys ! j)) msg
        = Some ((\<Sum>i\<in>set ?G. z i) mod cb_order B Ed25519 = (\<Sum>i\<in>set ?G. z' i) mod cb_order B Ed25519)"
    using frost_run_outcome [where w = z and dl = sh and sh = sh and draws = draws and rb = rb, OF assms(1-5) refl assms(6,7) _ z(2) refl assms(8), of iid closed] z(1) by blast
  have "(\<Sum>i\<in>set ?G. z i) = (\<Sum>i\<in>set ?G. z' i)" using z(2) o(3) by (intro sum.cong) auto
  then show ?thesis using o(1,2,4) by auto
qed

text \<open>
  C26.  A bad share spoils the signature unnoticed.  The same run, but one signer \<open>i0\<close> other than the
  party sends a share whose scalar is wrong: \<open>verify_share\<close> answers \<open>Ok(false)\<close>, \<open>update\<close> only looks for
  an error, and the executor returns, as a success, a signature that \<open>verify\<close> rejects.
\<close>

theorem frost_bad_share_returned:
  assumes "frost_deployment C B k n x rnd keys" "orders_ok H" "rng_ok rng" "j < n"
    "fp_new H rng (SkFrost (keys ! j)) msg label NoPrecomputation None = Some (Some s)"
    "frost_honest B keys msg (sg_signer_identifiers (fp_signer_group s)) rb cm nc sh" "draws 0 0 = rb (of_nat (j + 1))"
    and bad: "i0 \<in> set (sg_signer_identifiers (fp_signer_group s))" "i0 \<noteq> of_nat (j + 1)" "0 \<le> w"
      "w mod cb_order B Ed25519 \<noteq> sb_val (frostsh_data (sh i0)) mod cb_order B Ed25519"
    and inbox: "frost_inbox C B J (sg_signer_identifiers (fp_signer_group s)) (of_nat (j + 1)) cm
      (sh(i0 := \<lparr>frostsh_id = i0, frostsh_data = SBI Ed25519 w\<rparr>)) xs ys"
  shows "\<exists>ex v sig. executor_run (frost_round_protocol C H B J) draws iid s (xs @ ys) closed = Some (ex, Returned (Ok v))
    \<and> sig_from_bytes C B v = Some (Ok (SigFrost sig)) \<and> frost_verify B sig (dlsk_pubkey (keys ! j)) msg = Some False"
proof -
  let ?G = "sg_signer_identifiers (fp_signer_group s)" and ?q = "cb_order B Ed25519"
  let ?dl = "sh(i0 := \<lparr>frostsh_id = i0, frostsh_data = SBI Ed25519 w\<rparr>)"
  obtain z where z: "\<And>i. 0 \<le> z i \<and> z i < cb_order B Ed25519" "\<forall>i\<in>set ?G. sh i = \<lparr>frostsh_id = i, frostsh_data = SBI Ed25519 (z i)\<rparr>"
    by (rule frost_honest_scalars [OF assms(1,4) frost_new_group [OF assms(1-5)] assms(6)]) blast
  let ?w = "z(i0 := w)"
  have w: "\<forall>i. 0 \<le> ?w i" "\<forall>i\<in>set ?G. ?dl i = \<lparr>frostsh_id = i, frostsh_data = SBI Ed25519 (?w i)\<rparr>"
    "of_nat (j + 1) \<in> set ?G \<Longrightarrow> ?dl (of_nat (j + 1)) = sh (of_nat (j + 1))" using z bad(2,3) by auto
  obtain ex v sig z' where o: "executor_run (frost_round_protocol C H B J) draws iid s (xs @ ys) closed = Some (ex, Returned (Ok v))"
      "sig_from_bytes C B v = Some (Ok (SigFrost sig))" "\<forall>i\<in>set ?G. sh i = \<lparr>frostsh_id = i, frostsh_data = SBI Ed25519 (z' i)\<rparr>"
      "frost_verify B sig (dlsk_pubkey (keys ! j)) msg = Some ((\<Sum>i\<in>set ?G. ?w i) mod ?q = (\<Sum>i\<in>set ?G. z' i) mod ?q)"
    using frost_run_outcome [where w = ?w and dl = ?dl and sh = sh and draws = draws and rb = rb, OF assms(1-5) refl assms(6,7) w inbox, of iid closed] by blast
  let ?r = "\<Sum>i\<in>set ?G - {i0}. z i"
  have "(\<Sum>i\<in>set ?G. z' i) = (\<Sum>i\<in>set ?G. z i)" using z(2) o(3) by (intro sum.cong) auto
  also have "\<dots> = z i0 + ?r" using bad(1) by (simp add: sum.remove)
  finally have h: "(\<Sum>i\<in>set ?G. z' i) = z i0 + ?r" .
  have "(\<Sum>i\<in>set ?G. ?w i) = ?w i0 + (\<Sum>i\<in>set ?G - {i0}. ?w i)" using bad(1) by (intro sum.remove) simp_all
  also have "(\<Sum>i\<in>set ?G - {i0}. ?w i) = ?r" by (intro sum.cong) auto
  finally have d: "(\<Sum>i\<in>set ?G. ?w i) = w + ?r" by simp
  have "(w + ?r) mod ?q \<noteq> (z i0 + ?r) mod ?q"
  proof
    assume "(w + ?r) mod ?q = (z i0 + ?r) mod ?q"
    then have "((w + ?r) - ?r) mod ?q = ((z i0 + ?r) - ?r) mod ?q" by (rule mod_diff_cong) simp
    then show False using bad(1,4) z(2) by simp
  qed
  then show ?thesis using o(1,2,4) unfolding h d by auto
qed

text \<open>
  Signing with a fresh precomputation cannot work.  A signer started with the option
  \<open>Precomputation\<close> stores its nonces in the precomputation list but never takes one for the current
  signature: after the first round, the second one panics as soon as the party starts it.
\<close>

theorem frost_precomputation_panics:
  assumes "fp_new H rng (SkFrost key) msg label Precomputation None = Some (Some s)"
    "dlsk_id key \<in> set (sg_signer_identifiers (fp_signer_group s))"
    "fp_do_round H B rb s = Some (s1, Ok m1)"
    "foldM (\<lambda>s m. map_option fst (fp_update H B s m)) s1 ms = Some s2" "dlsk_id key \<notin> fst ` set (fp_shares s2)"
  shows "fp_do_round H B rb' s2 = None"
proof -
  let ?I = "\<lambda>t. fp_round t = 1 \<and> fp_key t = key \<and> fp_nonce t = None \<and> fp_signer_group t = fp_signer_group s"
  note nf = fp_new_facts [OF assms(1)]
  have i1: "?I s1" using assms(3) nf
    by (auto simp: fp_do_round_def fp_round_0_def fp_precompute_def bind_eq_Some_conv Let_def)
  have up: "?I t'" if "?I t" "fp_update H B t m = Some (t', r)" for t m t' r
    using that by (auto simp: fp_update_def fp_update_commitment_def fp_update_share_def fp_update_precomputation_def Let_def
        bind_eq_Some_conv split: frost_data.splits if_splits option.splits sum.splits) (metis sum.exhaust)+
  have "?I s2" using assms(4) i1
  proof (induction ms arbitrary: s1)
    case (Cons m ms)
    obtain t r where t: "fp_update H B s1 m = Some (t, r)" "foldM (\<lambda>s m. map_option fst (fp_update H B s m)) t ms = Some s2"
      using Cons.prems(1) by (auto simp: bind_eq_Some_conv)
    show ?case by (rule Cons.IH [OF t(2) up [OF Cons.prems(2) t(1)]])
  qed simp
  then show ?thesis using assms(2,5)
    by (simp add: fp_do_round_def fp_round_1_def sg_contains_def hm_contains_key_def Let_def)
qed

subsection \<open>Witnesses\<close>

text \<open>Four parties with threshold two; parties 1 and 2 sign, and party 1 runs the protocol.\<close>

lemma toy_group:
  "signer_group_new insertion_orders counting_rng 2 [9] = Some (Some \<lparr>sg_signer_identifiers = [1, 2]\<rparr>)"
proof -
  have "signer_loop (counting_rng [9] 4) 2 0 [] = Some [2, 1]"
    by (subst signer_loop.simps, simp add: counting_rng_def, subst signer_loop.simps, simp add: counting_rng_def)
      (subst signer_loop.simps, simp)
  then show ?thesis by (simp add: signer_group_new_def Let_def insertion_orders_def)
qed

lemma frost_toy_deployment:
  obtains keys where "frost_deployment unary_codec z11_backend 2 4 5 (\<lambda>_. 3) keys"
    "dlpk_k (dlsk_pubkey (keys ! 0)) = 2" "dlsk_id (keys ! 0) = 1"
proof -
  have c: "curve_ok z11_backend Ed25519 0" "point_codec_ok z11_backend Ed25519 0" by (simp_all add: z11_ok)
  have d: "draws_ok (cb_order z11_backend Ed25519) (\<lambda>_. 3)" by (simp add: draws_ok_def)
  obtain pk where pk: "frost_generate_keys unary_codec z11_backend 2 4 Ed25519 5 (\<lambda>_. 3)
      = Some (Ok (map (party_key z11_backend (shamir_poly 5 2 (\<lambda>_. 3)) pk) [0..<4]))" "dlpk_k pk = of_nat 2"
    using frost_generate_keys_ok [OF c(1) unary_codec_ok _ d, of 2 5 4] by auto
  show thesis
    by (rule that [of "map (party_key z11_backend (shamir_poly 5 2 (\<lambda>_. 3)) pk) [0..<4]"])
      (use c d unary_codec_ok pk in \<open>simp_all add: frost_deployment_def\<close>)
qed

definition frost_json :: "bytes \<Rightarrow> bytes \<Rightarrow> frost_wire json" where
  "frost_json cb sb = \<lparr>js_write = (\<lambda>_. []),
     js_parse = (\<lambda>x. Some \<lparr>wf_id = 2, wf_data = if x = [] then WCommitment cb else WShare sb\<rparr>)\<rparr>"

definition other_message :: net_message where
  "other_message = \<lparr>nm_instance_id = [1], nm_metadata = metadata_new Gossip, nm_message_data = [65]\<rparr>"

text \<open>A share with any scalar below the order reaches party 1 after the commitment.\<close>

lemma toy_inbox:
  assumes dep: "frost_deployment unary_codec z11_backend 2 4 5 (\<lambda>_. 3) keys"
    and hon: "frost_honest z11_backend keys [9] [1, 2] rb cm nc sh"
    and dl: "dl 2 = \<lparr>frostsh_id = 2, frostsh_data = SBI Ed25519 w\<rparr>" "0 \<le> w" "w < 11"
  shows "\<exists>J. frost_inbox unary_codec z11_backend J [1, 2] 1 cm dl [empty_message] [other_message]"
proof -
  let ?C = unary_codec and ?B = "z11_backend"
  have G: "distinct [1, 2 :: u16]" "length [1, 2 :: u16] = 2" "\<forall>i\<in>set [1, 2 :: u16]. 0 < unat i \<and> unat i \<le> 4" by simp_all
  obtain S where "session_ok S" "fs_backend S = ?B" "cm 2 = fs_comm S 2"
    by (rule frost_deployment_session [OF dep _ G frost_honestD(1) [OF hon], of 0 "\<lambda>_. 0" "[9]"]) auto
  then obtain cb where cb: "commitment_from_bytes ?C ?B cb = Some (Ok (cm 2))"
    using commitment_roundtrip [OF unary_codec_ok, of S 2] by auto
  have "sh_wf ?B (ShFrost (dl 2))" using dl by (simp add: scalar_ok_def)
  then obtain sb where sb: "frost_share_from_bytes ?C sb = Some (Ok (dl 2))"
    using frost_share_roundtrip [OF unary_codec_ok] by blast
  have "carries_frost ?C ?B (frost_json cb sb) empty_message \<lparr>fm_id = 2, fm_data = FdCommitment (cm 2)\<rparr>"
    "carries_frost ?C ?B (frost_json cb sb) other_message \<lparr>fm_id = 2, fm_data = FdShare (dl 2)\<rparr>"
    using cb sb by (simp_all add: carries_frost_def unwrap_net_def frost_json_def empty_message_def other_message_def fm_from_wire_def)
  then have "frost_inbox ?C ?B (frost_json cb sb) [1, 2] 1 cm dl [empty_message] [other_message]"
    by (simp add: frost_inbox_def)
  then show ?thesis by blast
qed

lemma toy_session:
  obtains keys s cm nc sh z where "frost_deployment unary_codec z11_backend 2 4 5 (\<lambda>_. 3) keys"
    "fp_new insertion_orders counting_rng (SkFrost (keys ! 0)) [9] [] NoPrecomputation None = Some (Some s)"
    "sg_signer_identifiers (fp_signer_group s) = [1, 2]" "frost_honest z11_backend keys [9] [1, 2] (\<lambda>_. ([1], [2])) cm nc sh"
    "sh 2 = \<lparr>frostsh_id = 2, frostsh_data = SBI Ed25519 z\<rparr>" "0 \<le> z" "z < 11"
proof -
  obtain keys where k: "frost_deployment unary_codec z11_backend 2 4 5 (\<lambda>_. 3) keys" "dlpk_k (dlsk_pubkey (keys ! 0)) = 2"
    by (rule frost_toy_deployment)
  obtain s where s: "fp_new insertion_orders counting_rng (SkFrost (keys ! 0)) [9] [] NoPrecomputation None = Some (Some s)"
      "sg_signer_identifiers (fp_signer_group s) = [1, 2]"
    using toy_group k(2) by (simp add: fp_new_def sk_get_threshold_def Let_def)
  have G: "distinct [1, 2 :: u16]" "length [1, 2 :: u16] = 2" "\<forall>i\<in>set [1, 2 :: u16]. 0 < unat i \<and> unat i \<le> 4" by simp_all
  obtain cm nc sh where h: "frost_honest z11_backend keys [9] [1, 2] (\<lambda>_. ([1], [2])) cm nc sh"
    using frost_honest_exists [OF k(1) _ G, of 0 "[9]" "\<lambda>_. ([1], [2])"] by fastforce
  obtain z :: "u16 \<Rightarrow> int" where "\<And>i. 0 \<le> z i \<and> z i < cb_order z11_backend Ed25519"
      "\<forall>i\<in>set [1, 2]. sh i = \<lparr>frostsh_id = i, frostsh_data = SBI Ed25519 (z i)\<rparr>"
    by (rule frost_honest_scalars [OF k(1) zero_less_numeral G h]) blast
  then show thesis using that [OF k(1) s h, of "z 2"] by simp
qed

theorem frost_run_signs_witness:
  "\<exists>keys s J ex v sig. frost_deployment unary_codec z11_backend 2 4 5 (\<lambda>_. 3) keys
   \<and> fp_new insertion_orders counting_rng (SkFrost (keys ! 0)) [9] [] NoPrecomputation None = Some (Some s)
   \<and> executor_run (frost_round_protocol unary_codec insertion_orders z11_backend J) (\<lambda>_ _. ([1], [2])) [7] s
       [empty_message, other_message] False = Some (ex, Returned (Ok v))
   \<and> sig_from_bytes unary_codec z11_backend v = Some (Ok (SigFrost sig))
   \<and> frost_verify z11_backend sig (dlsk_pubkey (keys ! 0)) [9] = Some True"
proof -
  obtain keys s cm nc sh z where t: "frost_deployment unary_codec z11_backend 2 4 5 (\<lambda>_. 3) keys"
    "fp_new insertion_orders counting_rng (SkFrost (keys ! 0)) [9] [] NoPrecomputation None = Some (Some s)"
    "sg_signer_identifiers (fp_signer_group s) = [1, 2]" "frost_honest z11_backend keys [9] [1, 2] (\<lambda>_. ([1], [2])) cm nc sh"
    "sh 2 = \<lparr>frostsh_id = 2, frostsh_data = SBI Ed25519 z\<rparr>" "0 \<le> z" "z < 11"
    by (rule toy_session)
  obtain J where J: "frost_inbox unary_codec z11_backend J [1, 2] 1 cm sh [empty_message] [other_message]"
    using toy_inbox [OF t(1,4), of sh z] t(5-7) by blast
  have "(0::nat) < 4" by simp
  from frost_run_signs [OF t(1) insertion_orders_ok counting_rng_ok this t(2), unfolded t(3), OF t(4), of "\<lambda>_ _. ([1], [2])" J "[empty_message]" "[other_message]" "[7]" False]
  obtain ex v sig where "executor_run (frost_round_protocol unary_codec insertion_orders z11_backend J) (\<lambda>_ _. ([1], [2])) [7] s
       [empty_message, other_message] False = Some (ex, Returned (Ok v))"
      "sig_from_bytes unary_codec z11_backend v = Some (Ok (SigFrost sig))" "frost_verify z11_backend sig (dlsk_pubkey (keys ! 0)) [9] = Some True"
    using J by auto
  with t(1,2) show ?thesis by (intro exI conjI)
qed

theorem frost_bad_share_returned_witness:
  "\<exists>keys s J ex v sig. frost_deployment unary_codec z11_backend 2 4 5 (\<lambda>_. 3) keys
   \<and> fp_new insertion_orders counting_rng (SkFrost (keys ! 0)) [9] [] NoPrecomputation None = Some (Some s)
   \<and> executor_run (frost_round_protocol unary_codec insertion_orders z11_backend J) (\<lambda>_ _. ([1], [2])) [7] s
       [empty_message, other_message] False = Some (ex, Returned (Ok v))
   \<and> sig_from_bytes unary_codec z11_backend v = Some (Ok (SigFrost sig))
   \<and> frost_verify z11_backend sig (dlsk_pubkey (keys ! 0)) [9] = Some False"
proof -
  obtain keys s cm nc sh z where t: "frost_deployment unary_codec z11_backend 2 4 5 (\<lambda>_. 3) keys"
    "fp_new insertion_orders counting_rng (SkFrost (keys ! 0)) [9] [] NoPrecomputation None = Some (Some s)"
    "sg_signer_identifiers (fp_signer_group s) = [1, 2]" "frost_honest z11_backend keys [9] [1, 2] (\<lambda>_. ([1], [2])) cm nc sh"
    "sh 2 = \<lparr>frostsh_id = 2, frostsh_data = SBI Ed25519 z\<rparr>" "0 \<le> z" "z < 11"
    by (rule toy_session)
  define w where "w = (z + 1) mod 11"
  have w: "0 \<le> w" "w < 11" "w mod 11 \<noteq> z mod 11" using t(6,7) unfolding w_def by presburger+
  let ?dl = "sh(2 := \<lparr>frostsh_id = 2, frostsh_data = SBI Ed25519 w\<rparr>)"
  obtain J where J: "frost_inbox unary_codec z11_backend J [1, 2] 1 cm ?dl [empty_message] [other_message]"
    using toy_inbox [OF t(1,4), of ?dl w] w by auto
  have "(0::nat) < 4" by simp
  from frost_bad_share_returned [OF t(1) insertion_orders_ok counting_rng_ok this t(2), unfolded t(3), OF t(4), of "\<lambda>_ _. ([1], [2])" 2 w J "[empty_message]" "[other_message]" "[7]" False]
  obtain ex v sig where "executor_run (frost_round_protocol unary_codec insertion_orders z11_backend J) (\<lambda>_ _. ([1], [2])) [7] s
       [empty_message, other_message] False = Some (ex, Returned (Ok v))"
      "sig_from_bytes unary_codec z11_backend v = Some (Ok (SigFrost sig))" "frost_verify z11_backend sig (dlsk_pubkey (keys ! 0)) [9] = Some False"
    using J t(5) w by auto
  with t(1,2) show ?thesis by (intro exI conjI)
qed

theorem frost_precomputation_panics_witness:
  "\<exists>keys s s1 m1. fp_new insertion_orders counting_rng (SkFrost (keys ! 0)) [9] [] Precomputation None = Some (Some s)
   \<and> fp_do_round insertion_orders z11_backend (\<lambda>_. ([1], [2])) s = Some (s1, Ok m1)
   \<and> fp_do_round insertion_orders z11_backend (\<lambda>_. ([1], [2])) s1 = None"
proof -
  obtain keys where k: "frost_deployment unary_codec z11_backend 2 4 5 (\<lambda>_. 3) keys" "dlpk_k (dlsk_pubkey (keys ! 0)) = 2" "dlsk_id (keys ! 0) = 1"
    by (rule frost_toy_deployment)
  obtain s where s: "fp_new insertion_orders counting_rng (SkFrost (keys ! 0)) [9] [] Precomputation None = Some (Some s)"
      "sg_signer_identifiers (fp_signer_group s) = [1, 2]"
    using toy_group k(2) by (simp add: fp_new_def sk_get_threshold_def Let_def)
  note nf = fp_new_facts [OF s(1)]
  have G: "distinct [1, 2 :: u16]" "length [1, 2 :: u16] = 2" "\<forall>i\<in>set [1, 2 :: u16]. 0 < unat i \<and> unat i \<le> 4" by simp_all
  obtain cm nc sh where "frost_honest z11_backend keys [9] [1, 2] (\<lambda>_. ([1], [2])) cm nc sh"
    using frost_honest_exists [OF k(1) _ G, of 0 "[9]" "\<lambda>_. ([1], [2])"] by fastforce
  from frost_honestD(1) [OF this] have "frost_commit z11_backend (keys ! 0) [1] [2] = Some (cm 1, nc 1)" by simp
  then have "fp_do_round insertion_orders z11_backend (\<lambda>_. ([1], [2])) s
      = Some (s\<lparr>fp_precomputation_list := fp_precomputation_list s @ replicate NUM_PRECOMPUTATIONS (fpc_new (fp_signer_group s) 1 (nc 1) (cm 1)), fp_round := 1\<rparr>,
          Ok \<lparr>fm_id = 1, fm_data = FdPrecomputation (replicate NUM_PRECOMPUTATIONS (cm 1))\<rparr>)"
    using nf k(3) by (simp add: fp_do_round_def fp_round_0_def fp_precompute_def NUM_PRECOMPUTATIONS_def Let_def fp_new_def
        upt_rec numeral_eq_Suc)
  then obtain s1 m1 where r: "fp_do_round insertion_orders z11_backend (\<lambda>_. ([1], [2])) s = Some (s1, Ok m1)" "fp_shares s1 = []"
    using nf(6) by simp
  have "fp_do_round insertion_orders z11_backend (\<lambda>_. ([1], [2])) s1 = None"
    using frost_precomputation_panics [OF s(1) _ r(1), of "[]" s1] k(3) s(2) r(2) by simp
  with s(1) r(1) show ?thesis by (intro exI conjI)
qed

end
