(* ===== verification/QC_Network.thy ===== *)
theory QC_Network
  imports QC_CipherProtocol
begin

text \<open>
  The network manager (\<open>network/src/network_manager\<close>): the task between the protocols and the gossip
  component.  Its loop is a fold over what its \<open>select!\<close> returns; the gossip component (libp2p or
  the proxy) is outside, what is handed to it is recorded.  With it the parties of one decryption are put
  together: each reads the messages that its own manager passes on, its own message among them.
\<close>

subsection \<open>The manager\<close>

record network_manager =
  nw_my_id :: u32
  nw_incoming :: "net_message list"
  nw_broadcast :: "net_message list"

definition nw_new :: "u32 \<Rightarrow> network_manager" where
  "nw_new my_id = \<lparr>nw_my_id = my_id, nw_incoming = [], nw_broadcast = []\<rparr>"

text \<open>A message of the protocols, one of the gossip component (\<open>None\<close>: that channel is closed), shutdown.\<close>

datatype network_event =
    OutgoingMsg "net_message option"
  | GossipMsg "net_message option"
  | Shutdown

definition nw_send :: "net_message \<Rightarrow> network_manager \<Rightarrow> network_manager" where
  "nw_send t nw = nw\<lparr>nw_broadcast := nw_broadcast nw @ [t], nw_incoming := nw_incoming nw @ [t]\<rparr>"

definition nw_deliver :: "net_message \<Rightarrow> network_manager \<Rightarrow> network_manager may_panic" where
  "nw_deliver t nw =
     (let forward = nw\<lparr>nw_incoming := nw_incoming nw @ [t]\<rparr> in
      case md_channel (nm_metadata t) of
        Gossip \<Rightarrow> Some forward
      | TOB \<Rightarrow> None
      | PointToPoint receiver_id \<Rightarrow> Some (if nw_my_id nw \<in> set receiver_id then forward else nw))"

fun nw_loop :: "network_manager \<Rightarrow> network_event list \<Rightarrow> (network_manager \<times> (string + unit) option) may_panic" where
  "nw_loop nw [] = Some (nw, None)"
| "nw_loop nw (OutgoingMsg (Some t) # es) = nw_loop (nw_send t nw) es"
| "nw_loop nw (OutgoingMsg None # es) = Some (nw, Some (Err ''The protocol layer has closed the channel''))"
| "nw_loop nw (GossipMsg (Some t) # es) = do { nw' \<leftarrow> nw_deliver t nw; nw_loop nw' es }"
| "nw_loop nw (GossipMsg None # es) = Some (nw, Some (Err ''The gossip channel has closed''))"
| "nw_loop nw (Shutdown # es) = Some (nw, Some (Ok ()))"

definition nw_run ::
  "network_manager \<Rightarrow> string + unit \<Rightarrow> network_event list \<Rightarrow> (network_manager \<times> (string + unit) option) may_panic" where
  "nw_run nw init_result es =
     (case init_result of
        Inl e \<Rightarrow> Some (nw, Some (Err (''Error initializing the network layer: '' @ e)))
      | Inr _ \<Rightarrow> nw_loop nw es)"

subsection \<open>What it passes on\<close>

fun event_message :: "network_event \<Rightarrow> net_message option" where
  "event_message (OutgoingMsg t) = t"
| "event_message (GossipMsg t) = t"
| "event_message Shutdown = None"

lemma nw_loop_gossip:
  assumes "\<forall>e\<in>set es. \<exists>t. event_message e = Some t \<and> md_channel (nm_metadata t) = Gossip"
  shows "\<exists>nw'. nw_loop nw es = Some (nw', None) \<and> nw_incoming nw' = nw_incoming nw @ map (the \<circ> event_message) es"
  using assms
proof (induction es arbitrary: nw)
  case (Cons e es)
  then obtain t where t: "event_message e = Some t" "md_channel (nm_metadata t) = Gossip" by auto
  let ?nw = "case e of OutgoingMsg _ \<Rightarrow> nw_send t nw | _ \<Rightarrow> nw\<lparr>nw_incoming := nw_incoming nw @ [t]\<rparr>"
  have "nw_loop nw (e # es) = nw_loop ?nw es" using t by (cases e) (auto simp: nw_deliver_def)
  moreover have "nw_incoming ?nw = nw_incoming nw @ [t]" using t by (cases e) (auto simp: nw_send_def)
  ultimately show ?case using Cons.IH [of ?nw] Cons.prems t(1) by auto
qed simp

subsection \<open>The message an honest party sends\<close>

lemma bz03_same_pubkey:
  assumes "bz03_deployment C B A g k n x rnd keys" "i < n" "j < n"
  shows "dlsk_pubkey (keys ! i) = dlsk_pubkey (keys ! j)"
  using bz03_deploymentE [OF assms(1)] assms(2,3) by (metis (no_types, lifting) add_0 diff_zero length_upt nth_map nth_upt party_key_sel)

text \<open>The message party \<open>i\<close> sends when it starts the protocol on a ciphertext.\<close>

definition first_message ::
  "codec \<Rightarrow> 'p curve_backend \<Rightarrow> aead \<Rightarrow> decryption_wire json \<Rightarrow> 'p bz03_private_key list \<Rightarrow> 'p ciphertext \<Rightarrow> bytes \<Rightarrow>
   nat \<Rightarrow> net_message \<Rightarrow> bool" where
  "first_message C B A J keys ct iid i t \<longleftrightarrow> (\<exists>draws ex. executor_run (cipher_round_protocol C B A J) draws iid
     (cp_new (SkBz03 (keys ! i)) ct iid) [] False = Some (ex, Waiting) \<and> ex_sent ex = [t])"

lemma bz03_first_message:
  assumes dep: "bz03_deployment C B A g k n x rnd keys" and ij: "i < n" "j < n" and enc: "enc_ok msg d"
    and ct: "tc_encrypt B A msg label (PkBz03 (dlsk_pubkey (keys ! j))) d = Some (Ok ct)" and J: "json_ok J"
  shows "\<exists>t own. (\<forall>t'. first_message C B A J keys ct iid i t' \<longleftrightarrow> t' = t) \<and> carries_share C B J t own
    \<and> share_tag_ok g own \<and> share_in_subgroup B g own \<and> share_id_in_range n own \<and> ds_get_id own = of_nat (i + 1)
    \<and> tc_verify_share B own ct (PkBz03 (dlsk_pubkey (keys ! j))) = Some (Ok True) \<and> md_channel (nm_metadata t) = Gossip"
proof -
  have pk: "dlsk_pubkey (keys ! i) = dlsk_pubkey (keys ! j)" by (rule bz03_same_pubkey [OF dep ij])
  let ?c = "(SkBz03 (keys ! i), ct)"
  obtain ct' own where f: "ct = CtBz03 ct'" "\<And>d. cp_produce B ?c d = Some (Ok own)" "ds_get_id own = of_nat (i + 1)"
      "good_share B g ct' (dlsk_pubkey (keys ! i)) own"
    by (rule bz03_run_facts [OF dep ij(1) enc ct [folded pk]]) blast
  obtain s where s: "own = DsBz03 s" "in_subgroup B g 1 (bz03sh_data s)"
      "bz03_verify_share B s ct' (dlsk_pubkey (keys ! i)) = Some (Ok True)"
    using f(4) by (cases own) auto
  obtain f' r where k: "dl_key_ok B g 1 f' n (dlsk_pubkey (keys ! i))" "bz03ct_u ct' = gpow B g 1 r"
    by (rule bz03_party_facts [OF dep ij(1) enc ct [folded pk]]) (use f(1) in auto)
  note tag = bz03_verify_share_accepted(1,2) [OF k s(3)]
  have dd: "codec_ok C" "point_codec_ok B g 1" "curve_ok B g 1" "n \<le> 65535" using dep by (simp_all add: bz03_deployment_def)
  have "ds_wf B own" using s(2) tag dd by (auto simp: s(1) point_ok_def in_subgroup_def)
  then obtain b where b: "ds_to_bytes C B own = Some (Ok b)" "ds_from_bytes C B b = Some (Ok own)" using ds_roundtrip [OF dd(1)] by blast
  let ?t = "\<lparr>nm_instance_id = iid, nm_metadata = metadata_new Gossip, nm_message_data = js_write J (WDecShare b 0)\<rparr>"
  have "\<exists>ex. executor_run (cipher_round_protocol C B A J) draws iid (cp_new (SkBz03 (keys ! i)) ct iid) [] False
      = Some (ex, Waiting) \<and> ex_sent ex = [?t]" for draws
    using f(2) [of "draws 0"] b(1)
    by (simp add: executor_run_def ex_do_round_def executor_new_def cipher_round_protocol_def cp_do_round_eq cp_ctx_def cp_new_def
        wrap_net_def dsm_new_def)
  then have fm: "first_message C B A J keys ct iid i t' \<longleftrightarrow> t' = ?t" for t'
    unfolding first_message_def by (metis Pair_inject list.inject option.inject)
  have "carries_share C B J ?t own" using J b(2) by (simp add: carries_share_def unwrap_net_def json_ok_def)
  moreover have "unat (of_nat (i + 1) :: u16) = i + 1" using ij(1) dd(4) by (simp only: unat_of_nat) simp
  then have "uint (ds_get_id own) = int (i + 1)" unfolding f(3) by (metis of_nat_unat)
  then have "share_id_in_range n own" using ij(1) by simp
  ultimately show ?thesis using f(1,3) s tag pk fm by (intro exI [of _ ?t] exI [of _ own]) (simp add: metadata_new_def)
qed

definition party_message ::
  "codec \<Rightarrow> 'p curve_backend \<Rightarrow> decryption_wire json \<Rightarrow> group \<Rightarrow> nat \<Rightarrow> 'p ciphertext \<Rightarrow> 'p bz03_public_key \<Rightarrow>
   nat \<Rightarrow> net_message \<Rightarrow> 'p decryption_share \<Rightarrow> bool" where
  "party_message C B J g n ct pk i t own \<longleftrightarrow> carries_share C B J t own
     \<and> share_tag_ok g own \<and> share_in_subgroup B g own \<and> share_id_in_range n own
     \<and> ds_get_id own = of_nat (i + 1) \<and> tc_verify_share B own ct (PkBz03 pk) = Some (Ok True) \<and> md_channel (nm_metadata t) = Gossip"

lemma party_message_inj:
  assumes "party_message C B J g n ct pk i t own" "party_message C B J g n ct pk i' t own'" "i < n" "i' < n" "n \<le> 65535"
  shows "i = i'"
proof -
  have "own = own'" using assms(1,2) by (auto simp: party_message_def carries_share_def)
  then have "(of_nat (i + 1) :: u16) = of_nat (i' + 1)" using assms(1,2) by (auto simp: party_message_def)
  moreover have "unat (of_nat (l + 1) :: u16) = l + 1" if "l < n" for l
    using that assms(5) by (simp only: unat_of_nat) simp
  ultimately show ?thesis using assms(3,4) by (metis add_right_cancel)
qed

text \<open>An inbox of messages of the parties \<open>qs\<close>.\<close>

lemma parties_run:
  assumes dep: "bz03_deployment C B A g k n x rnd keys" and j: "j < n" and enc: "enc_ok msg d"
    and ct: "tc_encrypt B A msg label (PkBz03 (dlsk_pubkey (keys ! j))) d = Some (Ok ct)"
    and p: "\<forall>i\<in>set qs. i < n \<and> party_message C B J g n ct (dlsk_pubkey (keys ! j)) i (t i) (own i)"
    and qs: "qs \<noteq> []" "k \<le> card (insert j (set qs))"
  shows "\<exists>ex. executor_run (cipher_round_protocol C B A J) draws iid (cp_new (SkBz03 (keys ! j)) ct iid) (map t qs) closed
      = Some (ex, Returned (Ok msg))"
proof -
  let ?ok = "cipher.ok B (SkBz03 (keys ! j), ct)" and ?shs = "map own qs" and ?id = "\<lambda>i. of_nat (i + 1) :: u16"
  have okc: "?ok = (\<lambda>sh. tc_verify_share B sh ct (PkBz03 (dlsk_pubkey (keys ! j))) = Some (Ok True))"
    unfolding cipher.ok_def by (simp add: cp_check_def)
  have car: "list_all2 (cipher.carries C B A J) (map t qs) ?shs"
    using p by (auto simp: list_all2_map1 list_all2_map2 carries_cipher party_message_def intro!: list.rel_refl_strong)
  have rng: "\<forall>sh\<in>set ?shs. share_tag_ok g sh \<and> share_id_in_range n sh" "\<forall>sh\<in>set ?shs. share_in_subgroup B g sh" using p unfolding party_message_def by auto
  have ids: "ds_get_id ` set ?shs = ?id ` set qs" using p unfolding party_message_def by (auto simp: image_image intro!: image_cong)
  have u: "unat (?id i) = i + 1" if "i < n" for i
    using that dep by (simp only: unat_of_nat) (simp add: bz03_deployment_def)
  have "inj_on ?id (insert j (set qs))"
  proof (rule inj_onI)
    fix a b assume "a \<in> insert j (set qs)" "b \<in> insert j (set qs)" and e: "?id a = ?id b"
    then have "a < n" "b < n" using p j by auto
    with u e show "a = b" by (metis add_right_cancel)
  qed
  then have "card (insert j (set qs)) = card (insert (?id j) (ds_get_id ` set ?shs))" unfolding ids using card_image [of ?id "insert j (set qs)"] by simp
  also have "\<dots> = Suc (card (ds_get_id ` set ?shs - {?id j}))" by (rule card.insert_remove) simp
  also have "card (ds_get_id ` set ?shs - {?id j}) = length (accepted_shares ds_get_id ?ok {?id j} ?shs)"
    unfolding okc using p by (intro length_accepted_shares [symmetric]) (auto simp: party_message_def)
  finally have "k \<le> Suc (length (accepted_shares ds_get_id ?ok {?id j} ?shs))" using qs(2) by simp
  moreover have "?shs \<noteq> []" using qs(1) by simp
  ultimately show ?thesis using bz03_run_returns [OF dep j enc ct car _ rng(1)] rng(2) by blast
qed

text \<open>
  C21.  Honest parties decrypt.  Party \<open>j\<close> of \<open>n\<close> runs the decryption of a BZ03 ciphertext of \<open>msg\<close>.
  Whatever its network manager handles, its own message or those of other parties that gossip delivers, in any order
  and any number of times, the manager does not stop; and once messages of \<open>k\<close> different parties, its own
  share counted, have passed, the executor returns \<open>msg\<close>.
\<close>

theorem honest_parties_decrypt:
  assumes dep: "bz03_deployment C B A g k n x rnd keys" and j: "j < n" and enc: "enc_ok msg d"
    and ct: "tc_encrypt B A msg label (PkBz03 (dlsk_pubkey (keys ! j))) d = Some (Ok ct)" and J: "json_ok J"
    and es: "es \<noteq> []" "\<forall>e\<in>set es. \<exists>t. event_message e = Some t \<and> (\<exists>i<n. first_message C B A J keys ct iid i t)"
    and enough: "k \<le> card (insert j {i. i < n \<and> (\<exists>e\<in>set es. \<exists>t. event_message e = Some t \<and> first_message C B A J keys ct iid i t)})"
  shows "\<exists>nw ex. nw_run (nw_new my_id) (Ok ()) es = Some (nw, None)
    \<and> executor_run (cipher_round_protocol C B A J) draws iid (cp_new (SkBz03 (keys ! j)) ct iid) (nw_incoming nw) closed
        = Some (ex, Returned (Ok msg))"
proof -
  let ?fm = "first_message C B A J keys ct iid" and ?pm = "party_message C B J g n ct (dlsk_pubkey (keys ! j))"
  have n: "n \<le> 65535" using dep by (simp add: bz03_deployment_def)
  have "\<exists>p. (\<forall>t'. ?fm i t' \<longleftrightarrow> t' = fst p) \<and> ?pm i (fst p) (snd p)" if i: "i < n" for i
    unfolding party_message_def using bz03_first_message [OF dep i j enc ct J, of iid] by (simp only: split_paired_Ex fst_conv snd_conv)
  then have "\<forall>i\<in>{..<n}. \<exists>p. (\<forall>t'. ?fm i t' \<longleftrightarrow> t' = fst p) \<and> ?pm i (fst p) (snd p)" by simp
  from bchoice [OF this] obtain p where "\<forall>i\<in>{..<n}. (\<forall>t'. ?fm i t' \<longleftrightarrow> t' = fst (p i)) \<and> ?pm i (fst (p i)) (snd (p i))" by blast
  then have p: "(\<forall>t'. ?fm i t' \<longleftrightarrow> t' = fst (p i)) \<and> ?pm i (fst (p i)) (snd (p i))" if "i < n" for i by (rule bspec) (simp add: that)
  have "\<forall>e\<in>set es. \<exists>i. i < n \<and> event_message e = Some (fst (p i))"
  proof
    fix e assume "e \<in> set es"
    then obtain t i where "event_message e = Some t" "i < n" "?fm i t" using es(2) by blast
    then show "\<exists>i. i < n \<and> event_message e = Some (fst (p i))" using p [of i] by auto
  qed
  from bchoice [OF this] obtain q where q: "\<And>e. e \<in> set es \<Longrightarrow> q e < n" "\<And>e. e \<in> set es \<Longrightarrow> event_message e = Some (fst (p (q e)))"
    by blast
  let ?qs = "map q es"
  have "\<forall>e\<in>set es. \<exists>t. event_message e = Some t \<and> md_channel (nm_metadata t) = Gossip" using p q by (auto simp: party_message_def)
  from nw_loop_gossip [OF this, of "nw_new my_id"] obtain nw where
    nw: "nw_loop (nw_new my_id) es = Some (nw, None)" "nw_incoming nw = map (the \<circ> event_message) es" by (auto simp: nw_new_def)
  have incoming: "nw_incoming nw = map (\<lambda>i. fst (p i)) ?qs" unfolding nw(2) using q(2) by simp
  have "i \<in> set ?qs" if i: "i < n" and e: "e \<in> set es" "event_message e = Some t" "?fm i t" for i e t
  proof -
    have "fst (p i) = fst (p (q e))" using p [OF i] q(2) [OF e(1)] e(2,3) by simp
    then have "i = q e" using party_message_inj [OF _ _ i q(1) [OF e(1)] n] p [OF i] p [OF q(1) [OF e(1)]] by metis
    then show ?thesis using e(1) by simp
  qed
  then have "insert j {i. i < n \<and> (\<exists>e\<in>set es. \<exists>t. event_message e = Some t \<and> ?fm i t)} \<subseteq> insert j (set ?qs)" by auto
  from card_mono [OF _ this] have "k \<le> card (insert j (set ?qs))" using enough by simp
  moreover have "\<forall>i\<in>set ?qs. i < n \<and> ?pm i (fst (p i)) (snd (p i))" using p q(1) by auto
  moreover have "?qs \<noteq> []" using es(1) by simp
  ultimately have "\<exists>ex. executor_run (cipher_round_protocol C B A J) draws iid (cp_new (SkBz03 (keys ! j)) ct iid) (nw_incoming nw) closed
      = Some (ex, Returned (Ok msg))" unfolding incoming by (intro parties_run [OF dep j enc ct])
  with nw(1) show ?thesis by (simp add: nw_run_def)
qed


subsection \<open>Two messages of a deployment\<close>

text \<open>A message format for the example.\<close>

definition unary_json :: "decryption_wire json" where
  "unary_json = \<lparr>js_write = (\<lambda>w. case w of WDecShare b i \<Rightarrow> unary_numbers (unat i # map unat b) | WDecDefault \<Rightarrow> []),
     js_parse = (\<lambda>bs. case read_unary 0 bs of [] \<Rightarrow> Some WDecDefault | i # b \<Rightarrow> Some (WDecShare (map of_nat b) (of_nat i)))\<rparr>"

lemma unary_json_ok: "json_ok unary_json"
  by (auto simp: json_ok_def unary_json_def comp_def split: decryption_wire.splits)

theorem honest_parties_decrypt_witness:
  "\<exists>keys ct t nw ex. bz03_deployment unary_codec z11_backend plain_aead Bn254 2 3 5 (\<lambda>_. 3) keys
   \<and> first_message unary_codec z11_backend plain_aead unary_json keys ct [9] 2 t
   \<and> nw_run (nw_new 1) (Ok ()) [GossipMsg (Some t)] = Some (nw, None)
   \<and> executor_run (cipher_round_protocol unary_codec z11_backend plain_aead unary_json) (\<lambda>_. 0) [9]
       (cp_new (SkBz03 (keys ! 0)) ct [9]) (nw_incoming nw) False = Some (ex, Returned (Ok [104, 105]))"
proof (rule toy_deployment [of 2])
  fix keys ct
  assume d: "bz03_deployment unary_codec z11_backend plain_aead Bn254 2 3 5 (\<lambda>_. 3) keys"
    "enc_ok [104, 105] \<lparr>ed_r = 4, ed_symm_key = replicate 32 7, ed_s = 0\<rparr>"
    "tc_encrypt z11_backend plain_aead [104, 105] [1] (PkBz03 (dlsk_pubkey (keys ! 0)))
       \<lparr>ed_r = 4, ed_symm_key = replicate 32 7, ed_s = 0\<rparr> = Some (Ok (CtBz03 ct))"
  let ?fm = "first_message unary_codec z11_backend plain_aead unary_json keys (CtBz03 ct) [9]"
  have z: "(0::nat) < 3" "(2::nat) < 3" by simp_all
  from bz03_first_message [OF d(1) z(2,1) d(2,3) unary_json_ok, of "[9]"] obtain t where t: "?fm 2 t" by blast
  then have es: "\<forall>e\<in>set [GossipMsg (Some t)]. \<exists>t. event_message e = Some t \<and> (\<exists>i<3. ?fm i t)" using exI [of "\<lambda>i. i < 3 \<and> ?fm i t" 2] z(2) by simp
  have "{0, 2} \<subseteq> insert 0 {i. i < 3 \<and> (\<exists>e\<in>set [GossipMsg (Some t)]. \<exists>t. event_message e = Some t \<and> ?fm i t)}" using t by auto
  from card_mono [OF _ this] have
    "2 \<le> card (insert 0 {i. i < 3 \<and> (\<exists>e\<in>set [GossipMsg (Some t)]. \<exists>t. event_message e = Some t \<and> ?fm i t)})" by simp
  from honest_parties_decrypt [OF d(1) z(1) d(2,3) unary_json_ok list.simps(3) es this, of 1 "\<lambda>_. 0" False]
  obtain nw ex where "nw_run (nw_new 1) (Ok ()) [GossipMsg (Some t)] = Some (nw, None)
   \<and> executor_run (cipher_round_protocol unary_codec z11_backend plain_aead unary_json) (\<lambda>_. 0) [9]
       (cp_new (SkBz03 (keys ! 0)) (CtBz03 ct) [9]) (nw_incoming nw) False = Some (ex, Returned (Ok [104, 105]))" by (elim exE)
  with d(1) t show ?thesis by (intro exI conjI) (elim conjE, assumption)+
qed auto

end
