(* ===== verification/QC_Rpc.thy ===== *)
theory QC_Rpc
  imports QC_InstanceService
begin

text \<open>
  The RPC service (\<open>service/src/rpc_request_handler.rs\<close>).  A handler sends one command, with the
  numbers \<open>a\<close> and \<open>s\<close> as its responders, and waits for what is sent to them: it is the command and
  the answer it computes from the replies sent after it.  A responder without a reply was dropped.  The
  manager's task may have ended before the command is sent or before it is handled.  \<open>None\<close> is a panic of
  the handler.
\<close>

subsection \<open>Requests, responses and errors\<close>

datatype rpc_status = RpcAborted string | RpcNotFound string

record decrypt_request =
  dq_ciphertext :: bytes
  dq_key_id :: "bytes option"
  dq_sync :: bool

record sign_request =
  sq_message :: bytes
  sq_label :: bytes
  sq_key_id :: "bytes option"
  sq_scheme :: int
  sq_group :: int
  sq_sync :: bool

record coin_request =
  cq_name :: bytes
  cq_key_id :: "bytes option"
  cq_scheme :: int
  cq_group :: int

record decrypt_response =
  dr_instance_id :: bytes
  dr_result :: "bytes option"

record sign_response =
  sr_instance_id :: bytes
  sr_result :: "bytes option"

record coin_response =
  cr_instance_id :: bytes

record status_response =
  st_instance_id :: bytes
  st_scheme :: int
  st_group :: int
  st_is_finished :: bool
  st_result :: "bytes option"
  st_key_id :: "bytes option"

fun scheme_error_display :: "scheme_error \<Rightarrow> string" where
  "scheme_error_display WrongGroup = ''Wrong group''"
| "scheme_error_display WrongScheme = ''Wrong scheme''"
| "scheme_error_display WrongKeyProvided = ''Wrong key provided''"
| "scheme_error_display SerializationFailed = ''Serialization failed''"
| "scheme_error_display DeserializationFailed = ''Deserialization failed''"
| "scheme_error_display CurveDoesNotSupportPairings = ''Curve does not support pairings''"
| "scheme_error_display ParamsNotSet = ''Parameters not set''"
| "scheme_error_display IdNotFound = ''ID not found''"
| "scheme_error_display IncompatibleGroup = ''Incompatible group''"
| "scheme_error_display WrongState = ''Wrong state''"
| "scheme_error_display PreviousRoundNotExecuted = ''Previous round not executed''"
| "scheme_error_display InvalidRound = ''Invalid round''"
| "scheme_error_display InvalidShare = ''Invalid share''"
| "scheme_error_display ProtocolNotFinished = ''Protocol not finished''"
| "scheme_error_display NotReadyForNextRound = ''Not ready for next round''"
| "scheme_error_display MessageNotSpecified = ''Message not specified''"
| "scheme_error_display MessageAlreadySpecified = ''Message already specified''"
| "scheme_error_display (SerializationError s) = ''Serialization error: '' @ s"
| "scheme_error_display UnknownScheme = ''Unknown scheme''"
| "scheme_error_display UnknownGroupString = ''Unknown group string''"
| "scheme_error_display UnknownGroup = ''Unknown group''"
| "scheme_error_display IOError = ''I/O error''"
| "scheme_error_display (InvalidParams details) =
     (case details of Some s \<Rightarrow> ''Invalid parameters: '' @ s | None \<Rightarrow> ''Invalid parameters'')"
| "scheme_error_display (Aborted s) = ''Protocol aborted: '' @ s"
| "scheme_error_display MacFailure = ''MAC Failure''"
| "scheme_error_display KeyNotFound = ''Key not found''"
| "scheme_error_display NoMoreCommitments = ''No more commitments available''"

fun protocol_error_display :: "protocol_error \<Rightarrow> string" where
  "protocol_error_display (SchemeError e) = ''SchemeError: '' @ scheme_error_display e"
| "protocol_error_display InvalidCiphertext = ''InvalidCiphertext''"
| "protocol_error_display InstanceNotFound = ''InstanceNotFound''"
| "protocol_error_display InternalError = ''InternalError''"
| "protocol_error_display NotFinished = ''NotFinished''"
| "protocol_error_display InvalidRoundP = ''InvalidRound''"
| "protocol_error_display InvalidShareP = ''InvalidShare''"

subsection \<open>Waiting for replies\<close>

fun created_to :: "nat \<Rightarrow> manager_reply list \<Rightarrow> prot_result option" where
  "created_to a [] = None"
| "created_to a (CreatedReply b r # rs) = (if a = b then Some r else created_to a rs)"
| "created_to a (_ # rs) = created_to a rs"

fun synced_to :: "nat \<Rightarrow> manager_reply list \<Rightarrow> prot_result option" where
  "synced_to s [] = None"
| "synced_to s (SyncReply b r # rs) = (if s = b then Some r else synced_to s rs)"
| "synced_to s (_ # rs) = synced_to s rs"

fun status_to :: "nat \<Rightarrow> manager_reply list \<Rightarrow> instance_status option option" where
  "status_to a [] = None"
| "status_to a (StatusReply b r # rs) = (if a = b then Some r else status_to a rs)"
| "status_to a (_ # rs) = status_to a rs"

text \<open>
  The two waits of the synchronous requests: the instance identifier and then the result.  \<open>None\<close> is a responder
  that was dropped.  While the manager still holds a responder the call waits, which for the result of an instance
  whose task has panicked is for ever.
\<close>

definition sync_answer :: "prot_result option \<Rightarrow> prot_result option \<Rightarrow> rpc_status + bytes \<times> bytes" where
  "sync_answer created result =
     (case created of
        Some (Inr i) \<Rightarrow>
          (case result of
             Some (Inr v) \<Rightarrow> Ok (i, v)
           | Some (Inl e) \<Rightarrow> Err (RpcAborted ''Internal error'')
           | None \<Rightarrow> Err (RpcAborted ''Unable to handle the request''))
      | Some (Inl e) \<Rightarrow> Err (RpcAborted ''Internal error'')
      | None \<Rightarrow> Err (RpcAborted ''Unable to handle the request''))"

subsection \<open>The handlers\<close>

definition decrypt_command ::
  "codec \<Rightarrow> 'p curve_backend \<Rightarrow> decrypt_request \<Rightarrow> nat \<Rightarrow> nat \<Rightarrow> (rpc_status + 'p instance_manager_command) may_panic" where
  "decrypt_command C B req a s = do {
     r \<leftarrow> ct_from_bytes C B (dq_ciphertext req);
     Some (case r of
         Inl e \<Rightarrow> Err (RpcAborted ''Invalid ciphertext'')
       | Inr ct \<Rightarrow> Ok (if dq_sync req then CreateInstanceSync (ReqDecryption ct) a s else CreateInstance (ReqDecryption ct) a))
   }"

definition decrypt_answer :: "decrypt_request \<Rightarrow> nat \<Rightarrow> nat \<Rightarrow> manager_reply list \<Rightarrow> rpc_status + decrypt_response" where
  "decrypt_answer req a s rs =
     (if dq_sync req then
        (case sync_answer (created_to a rs) (synced_to s rs) of
           Inl e \<Rightarrow> Err e
         | Inr (i, v) \<Rightarrow> Ok \<lparr>dr_instance_id = i, dr_result = Some v\<rparr>)
      else
        (case created_to a rs of
           Some (Inr i) \<Rightarrow> Ok \<lparr>dr_instance_id = i, dr_result = None\<rparr>
         | Some (Inl e) \<Rightarrow> Err (RpcAborted ''Internal error'')
         | None \<Rightarrow> Err (RpcAborted ''Unable to handle the request'')))"

definition sign_command :: "sign_request \<Rightarrow> nat \<Rightarrow> nat \<Rightarrow> rpc_status + 'p instance_manager_command" where
  "sign_command req a s =
     (case scheme_from_i32 (sq_scheme req) of
        None \<Rightarrow> Err (RpcAborted ''Invalid scheme'')
      | Some scheme \<Rightarrow> (case group_from_i32 (sq_group req) of
          None \<Rightarrow> Err (RpcAborted ''Invalid group'')
        | Some g \<Rightarrow>
            let request = ReqSignature (sq_message req) (sq_label req) scheme g (sq_key_id req)
            in Ok (if sq_sync req then CreateInstanceSync request a s else CreateInstance request a)))"

definition sign_answer :: "sign_request \<Rightarrow> nat \<Rightarrow> nat \<Rightarrow> manager_reply list \<Rightarrow> rpc_status + sign_response" where
  "sign_answer req a s rs =
     (if sq_sync req then
        (case sync_answer (created_to a rs) (synced_to s rs) of
           Inl e \<Rightarrow> Err e
         | Inr (i, v) \<Rightarrow> Ok \<lparr>sr_instance_id = i, sr_result = Some v\<rparr>)
      else
        (case created_to a rs of
           Some (Inl e) \<Rightarrow> Err (RpcAborted (protocol_error_display e))
         | Some (Inr i) \<Rightarrow> Ok \<lparr>sr_instance_id = i, sr_result = None\<rparr>
         | None \<Rightarrow> Err (RpcAborted ''Error receiving response from instance manager'')))"

definition coin_command :: "coin_request \<Rightarrow> nat \<Rightarrow> rpc_status + 'p instance_manager_command" where
  "coin_command req a =
     (case scheme_from_i32 (cq_scheme req) of
        None \<Rightarrow> Err (RpcAborted ''Invalid scheme'')
      | Some scheme \<Rightarrow> (case group_from_i32 (cq_group req) of
          None \<Rightarrow> Err (RpcAborted ''Invalid group'')
        | Some g \<Rightarrow> Ok (CreateInstance (ReqCoin (cq_name req) scheme g (cq_key_id req)) a)))"

definition coin_answer :: "nat \<Rightarrow> manager_reply list \<Rightarrow> (rpc_status + coin_response) may_panic" where
  "coin_answer a rs = do {
     result \<leftarrow> created_to a rs;
     Some (case result of
         Inl e \<Rightarrow> Err (RpcAborted (protocol_error_display e))
       | Inr i \<Rightarrow> Ok \<lparr>cr_instance_id = i\<rparr>)
   }"

definition get_public_keys ::
  "'p node_env \<Rightarrow> 'p key_manager \<Rightarrow> (rpc_status + public_key_entry list) may_panic" where
  "get_public_keys E km =
     (case km_step (ne_codec E) (ne_backend E) (ne_show_err E) km ListAvailableKeys of
        Some (_, KmKeys keys) \<Rightarrow> Some (Ok keys)
      | _ \<Rightarrow> None)"

definition status_answer :: "bytes \<Rightarrow> nat \<Rightarrow> manager_reply list \<Rightarrow> (rpc_status + status_response) may_panic" where
  "status_answer i a rs = do {
     status \<leftarrow> status_to a rs;
     case status of
       None \<Rightarrow> Some (Err (RpcNotFound ''Instance not found''))
     | Some st \<Rightarrow> do {
         result \<leftarrow> (case is_result st of Some r \<Rightarrow> map_option Some (unwrap r) | None \<Rightarrow> Some None);
         Some (Ok \<lparr>st_instance_id = i, st_scheme = scheme_code (is_scheme st), st_group = group_code (is_group st),
           st_is_finished = is_finished st, st_result = result, st_key_id = None\<rparr>)
       }
   }"

text \<open>What the manager sends while it handles one command; silent if it panics.\<close>

definition command_replies :: "'p node_env \<Rightarrow> 'p instance_manager \<Rightarrow> 'p instance_manager_command \<Rightarrow> manager_reply list" where
  "command_replies E im cmd = (case im_command E im cmd of None \<Rightarrow> [] | Some im' \<Rightarrow> drop (length (im_replies im)) (im_replies im'))"

text \<open>
  What a handler meets when it sends its command: the manager's task has ended and the channel is closed,
  which all but the asynchronous \<open>sign\<close> meet with \<open>expect\<close>; the task ends with the command still in the
  channel, which drops the responders; or the task handles the command in its state.  \<open>later\<close> is what the
  manager sends after it has handled the command.
\<close>

datatype 'p manager_state = ManagerGone | ManagerStops | ManagerRuns "'p instance_manager"

fun call_replies ::
  "'p node_env \<Rightarrow> 'p manager_state \<Rightarrow> manager_reply list \<Rightarrow> bool \<Rightarrow> 'p instance_manager_command \<Rightarrow> manager_reply list may_panic" where
  "call_replies E ManagerGone later expects cmd = (if expects then None else Some [])"
| "call_replies E ManagerStops later expects cmd = Some []"
| "call_replies E (ManagerRuns im) later expects cmd = Some (command_replies E im cmd @ later)"

definition decrypt_rpc ::
  "'p node_env \<Rightarrow> 'p manager_state \<Rightarrow> manager_reply list \<Rightarrow> decrypt_request \<Rightarrow> nat \<Rightarrow> nat \<Rightarrow>
   (rpc_status + decrypt_response) may_panic" where
  "decrypt_rpc E mgr later req a s = do {
     r \<leftarrow> decrypt_command (ne_codec E) (ne_backend E) req a s;
     case r of
       Inl e \<Rightarrow> Some (Err e)
     | Inr cmd \<Rightarrow> map_option (decrypt_answer req a s) (call_replies E mgr later True cmd)
   }"

definition sign_rpc ::
  "'p node_env \<Rightarrow> 'p manager_state \<Rightarrow> manager_reply list \<Rightarrow> sign_request \<Rightarrow> nat \<Rightarrow> nat \<Rightarrow>
   (rpc_status + sign_response) may_panic" where
  "sign_rpc E mgr later req a s =
     (case sign_command req a s of
        Inl e \<Rightarrow> Some (Err e)
      | Inr cmd \<Rightarrow> map_option (sign_answer req a s) (call_replies E mgr later (sq_sync req) cmd))"

definition flip_coin ::
  "'p node_env \<Rightarrow> 'p manager_state \<Rightarrow> manager_reply list \<Rightarrow> coin_request \<Rightarrow> nat \<Rightarrow> (rpc_status + coin_response) may_panic" where
  "flip_coin E mgr later req a =
     (case coin_command req a of
        Inl e \<Rightarrow> Some (Err e)
      | Inr cmd \<Rightarrow> do { rs \<leftarrow> call_replies E mgr later True cmd; coin_answer a rs })"

text \<open>The call waits for the reply, so that its responder is open; a cancelled call has no answer.\<close>

definition get_status :: "'p node_env \<Rightarrow> 'p instance_manager \<Rightarrow> bytes \<Rightarrow> (rpc_status + status_response) may_panic" where
  "get_status E im i = status_answer i 0 (command_replies E im (GetInstanceStatus i 0 False))"


subsection \<open>A decryption through the service\<close>



subsection \<open>Asking for the status\<close>

lemma get_status_eq:
  "get_status E im i = (case ic_get (im_instances im) i of
     None \<Rightarrow> Some (Err (RpcNotFound ''Instance not found''))
   | Some x \<Rightarrow> map_option (\<lambda>result. Ok \<lparr>st_instance_id = i, st_scheme = scheme_code (in_scheme x), st_group = group_code (in_group x),
       st_is_finished = in_finished x, st_result = result, st_key_id = None\<rparr>)
       (case in_result x of Some r \<Rightarrow> map_option Some (unwrap r) | None \<Rightarrow> Some None))"
  by (simp add: get_status_def status_answer_def command_replies_def im_reply_def status_of_def map_conv_bind_option split: option.split)

text \<open>
  C14.  What a status call answers.  In every reachable state the call fails with
  \<open>not_found\<close> exactly for identifiers the node does not know, and it panics exactly when the
  instance has ended with an error, which it unwraps; otherwise it reports an instance as finished exactly when it
  returns a result, and the result is one that a run of the executor produced for that instance.
\<close>

theorem get_status_answers:
  assumes "im_reachable E Q M km im"
  shows "(get_status E im i = Some (Err (RpcNotFound ''Instance not found'')) \<longleftrightarrow> ic_get (im_instances im) i = None)
    \<and> (get_status E im i = None \<longleftrightarrow> (\<exists>x e. ic_get (im_instances im) i = Some x \<and> in_result x = Some (Err e)))
    \<and> (\<forall>st. get_status E im i = Some (Ok st) \<longrightarrow> st_instance_id st = i \<and> (st_is_finished st \<longleftrightarrow> st_result st \<noteq> None)
        \<and> (\<forall>v. st_result st = Some v \<longrightarrow> produced E Q M km i (Ok v)))"
proof (cases "ic_get (im_instances im) i")
  case None
  then show ?thesis by (simp add: get_status_eq)
next
  case (Some x)
  then have "in_finished x = (in_result x \<noteq> None)" "\<And>r. in_result x = Some r \<Longrightarrow> produced E Q M km i r"
    using im_reachable_ok [OF assms] by (simp_all add: im_ok_def record_ok_def)
  with Some show ?thesis
    by (cases "in_result x"; cases "the (in_result x)") (auto simp: get_status_eq)
qed

subsection \<open>Requests without a key\<close>

fun requested :: "'p instance_manager_command \<Rightarrow> 'p start_instance_request option" where
  "requested (CreateInstance request a) = Some request"
| "requested (CreateInstanceSync request a s) = Some request"
| "requested _ = None"

lemma created_to_append: "created_to a (xs @ ys) = (case created_to a xs of None \<Rightarrow> created_to a ys | Some r \<Rightarrow> Some r)"
  by (induction a xs rule: created_to.induct) auto

lemma replies_of_start:
  assumes "im_start E im request None = Some (im', r)" "im_replies im' = im_replies im"
  shows "created_to a (command_replies E im (CreateInstance request a)) = (case r of Inl _ \<Rightarrow> None | Inr i \<Rightarrow> Some (Ok i))"
  using assms by (auto simp: command_replies_def im_reply_def split: sum.splits)

lemma replies_of_start_sync:
  assumes "im_start E im request (Some s) = Some (im', r)" "im_replies im' = im_replies im"
  shows "created_to a (command_replies E im (CreateInstanceSync request a s)) = Some r"
  using assms by (simp add: command_replies_def im_reply_def)

text \<open>
  C27.  A missing key is reported in four ways.  For a request under a new identifier without a secret
  key that a running manager handles, the synchronous calls answer \<open>Internal error\<close>, the asynchronous decrypt
  and sign calls each another message, because the manager drops the responder instead of sending the error,
  and the handler of \<open>flip_coin\<close> panics.  A \<open>flip_coin\<close> call with a valid scheme and group panics exactly then or
  when the manager's task has ended before the command is sent or handled.
\<close>

theorem missing_key_answers:
  assumes reach: "im_reachable E Q M km im" and Q: "Q request" and i: "assign_instance_id E request = Some i"
    and once: "created_to a later = None"
  shows "(ic_get (im_instances im) i = None \<and> request_sk km request = None \<longrightarrow>
      (\<forall>req. decrypt_command (ne_codec E) (ne_backend E) req a s = Some (Ok cmd) \<and> requested cmd = Some request \<longrightarrow>
        decrypt_rpc E (ManagerRuns im) later req a s
          = Some (Err (RpcAborted (if dq_sync req then ''Internal error'' else ''Unable to handle the request''))))
    \<and> (\<forall>req. sign_command req a s = Ok cmd \<and> requested cmd = Some request \<longrightarrow>
        sign_rpc E (ManagerRuns im) later req a s
          = Some (Err (RpcAborted (if sq_sync req then ''Internal error'' else ''Error receiving response from instance manager'')))))
    \<and> (\<forall>req mgr. coin_command req a = Ok cmd \<and> requested cmd = Some request \<and> mgr \<in> {ManagerGone, ManagerStops, ManagerRuns im} \<longrightarrow>
        (flip_coin E mgr later req a = None \<longleftrightarrow>
          (mgr = ManagerRuns im \<longrightarrow> ic_get (im_instances im) i = None \<and> request_sk km request = None)))"
proof -
  have ok: "im_ok E Q M km im" by (rule im_reachable_ok [OF reach])
  note cases = im_start_cases [OF ok Q i]
  have failed: "im_start E im request r = Some (im, Err (SchemeError (Aborted ''key not found'')))"
    if "ic_get (im_instances im) i = None" "request_sk km request = None" for r
    using cases [of r] that by simp
  have silent: "created_to a (command_replies E im (CreateInstance request a)) = None"
    and told: "created_to a (command_replies E im (CreateInstanceSync request a s)) = Some (Err (SchemeError (Aborted ''key not found'')))"
    if "ic_get (im_instances im) i = None" "request_sk km request = None"
    using replies_of_start [OF failed [OF that]] replies_of_start_sync [OF failed [OF that]] by simp_all
  have dec: "cmd = (if dq_sync req then CreateInstanceSync request a s else CreateInstance request a)"
    if "decrypt_command (ne_codec E) (ne_backend E) req a s = Some (Ok cmd)" "requested cmd = Some request" for req
    using that by (auto simp: decrypt_command_def split: bind_splits sum.splits if_splits)
  have sig: "cmd = (if sq_sync req then CreateInstanceSync request a s else CreateInstance request a)"
    if "sign_command req a s = Ok cmd" "requested cmd = Some request" for req
    using that by (auto simp: sign_command_def Let_def split: option.splits if_splits)
  have coin: "coin_answer a (command_replies E im cmd @ later) = None \<longleftrightarrow> ic_get (im_instances im) i = None \<and> request_sk km request = None"
    if "coin_command req a = Ok cmd" "requested cmd = Some request" for req
  proof -
    have "\<exists>name scheme g kid. request = ReqCoin name scheme g kid \<and> cmd = CreateInstance request a"
      using that by (cases "scheme_from_i32 (cq_scheme req)"; cases "group_from_i32 (cq_group req)") (auto simp: coin_command_def)
    then obtain name scheme g kid where c: "request = ReqCoin name scheme g kid" "cmd = CreateInstance request a" by blast
    have "\<exists>im' r. im_start E im request None = Some (im', r) \<and> im_replies im' = im_replies im
        \<and> ((\<exists>e. r = Inl e) \<longleftrightarrow> ic_get (im_instances im) i = None \<and> request_sk km request = None)"
      using cases [of None] c(1) by (auto simp: im_spawned_def)
    then show ?thesis unfolding c(2) by (elim exE conjE) (auto simp: coin_answer_def created_to_append once replies_of_start split: sum.splits)
  qed
  have "decrypt_answer req a s (command_replies E im cmd @ later)
      = Err (RpcAborted (if dq_sync req then ''Internal error'' else ''Unable to handle the request''))"
    if "ic_get (im_instances im) i = None" "request_sk km request = None"
      "decrypt_command (ne_codec E) (ne_backend E) req a s = Some (Ok cmd)" "requested cmd = Some request" for req
    unfolding dec [OF that(3,4)] by (simp add: decrypt_answer_def sync_answer_def created_to_append once silent [OF that(1,2)] told [OF that(1,2)])
  moreover have "sign_answer req a s (command_replies E im cmd @ later)
      = Err (RpcAborted (if sq_sync req then ''Internal error'' else ''Error receiving response from instance manager''))"
    if "ic_get (im_instances im) i = None" "request_sk km request = None" "sign_command req a s = Ok cmd" "requested cmd = Some request" for req
    unfolding sig [OF that(3,4)] by (simp add: sign_answer_def sync_answer_def created_to_append once silent [OF that(1,2)] told [OF that(1,2)])
  moreover have "flip_coin E mgr later req a = None \<longleftrightarrow>
      (mgr = ManagerRuns im \<longrightarrow> ic_get (im_instances im) i = None \<and> request_sk km request = None)"
    if "coin_command req a = Ok cmd" "requested cmd = Some request" "mgr \<in> {ManagerGone, ManagerStops, ManagerRuns im}" for req mgr
    using that coin [OF that(1,2)] by (auto simp: flip_coin_def coin_answer_def)
  ultimately show ?thesis by (auto simp: decrypt_rpc_def sign_rpc_def)
qed

subsection \<open>Calls to the node with one key\<close>

theorem get_status_answers_witness:
  "\<exists>J (ct :: int ciphertext) km im st. im_reachable (toy_node J) (toy_requests ct) toy_network km im
   \<and> get_status (toy_node J) im [1] = Some (Ok st) \<and> st_is_finished st \<and> st_result st = Some [104, 105]
   \<and> get_status (toy_node J) (im_new km) [1] = Some (Err (RpcNotFound ''Instance not found''))"
proof (rule toy_manager)
  fix keys :: "int bz03_private_key list" and ct :: "int ciphertext" and J im x
  let ?km = "toy_key_manager (ct_get_key_id ct) (SkBz03 (keys ! 0))"
  assume im: "im_reachable (toy_node J) (toy_requests ct) toy_network ?km im"
    "ic_get (im_instances im) [1] = Some x" "in_result x = Some (Ok [104, 105])"
  let ?st = "\<lparr>st_instance_id = [1], st_scheme = scheme_code (in_scheme x), st_group = group_code (in_group x),
       st_is_finished = in_finished x, st_result = Some [104, 105], st_key_id = None\<rparr>"
  have st: "get_status (toy_node J) im [1] = Some (Ok ?st)" using im(2,3) by (simp add: get_status_eq)
  then have "st_is_finished ?st" using get_status_answers [OF im(1), of "[1]"] by simp
  moreover have "get_status (toy_node J) (im_new ?km) [1] = Some (Err (RpcNotFound ''Instance not found''))"
    using get_status_answers [OF toy_new(1) [of "toy_node J" "toy_requests ct" toy_network ?km], of "[1]"] toy_new(3) by simp
  moreover have "st_result ?st = Some [104, 105]" by simp
  ultimately show ?thesis using im(1) st by (intro exI [of _ J] exI [of _ ct] exI [of _ ?km] exI [of _ im] exI [of _ ?st] conjI)
qed

theorem missing_key_answers_witness:
  "\<exists>(E :: int node_env) Q M km im. im_reachable E Q M km im
   \<and> flip_coin E (ManagerRuns im) [] \<lparr>cq_name = [110], cq_key_id = None, cq_scheme = 3, cq_group = 2\<rparr> 7 = None
   \<and> flip_coin E ManagerStops [] \<lparr>cq_name = [110], cq_key_id = None, cq_scheme = 3, cq_group = 2\<rparr> 7 = None
   \<and> sign_rpc E (ManagerRuns im) [] \<lparr>sq_message = [1], sq_label = [], sq_key_id = None, sq_scheme = 2, sq_group = 0, sq_sync = False\<rparr> 7 8
       = Some (Err (RpcAborted ''Error receiving response from instance manager''))"
proof -
  let ?E = "toy_node (same_json [] [])" and ?km = "\<lparr>km_keystore = ks_new, km_frost_precomputes = []\<rparr> :: int key_manager"
  let ?req = "\<lparr>cq_name = [110], cq_key_id = None, cq_scheme = 3, cq_group = 2\<rparr>" and ?r = "ReqCoin [110] Cks05 Ed25519 None :: int start_instance_request"
  let ?sreq = "\<lparr>sq_message = [1], sq_label = [], sq_key_id = None, sq_scheme = 2, sq_group = 0, sq_sync = False\<rparr>"
  have c: "coin_command ?req 7 = Ok (CreateInstance ?r 7)"
    by (simp add: coin_command_def scheme_from_i32_def group_from_i32_def)
  obtain sr :: "int start_instance_request" where sc: "sign_command ?sreq 7 8 = Ok (CreateInstance sr 7)" "request_key_id sr = None"
    by (simp add: sign_command_def scheme_from_i32_def group_from_i32_def Let_def)
  have reach: "im_reachable ?E (\<lambda>_. True) toy_network ?km (im_new ?km)" by (rule toy_new(1))
  have sk: "request_sk ?km r = None" if "request_key_id r = None" for r :: "int start_instance_request"
    using that by (simp add: request_sk_def ks_new_def get_key_by_scheme_and_group_def)
  obtain i where i: "assign_instance_id ?E ?r = Some i" using assign_instance_id_total by blast
  obtain i' where i': "assign_instance_id ?E sr = Some i'" using assign_instance_id_total by blast
  have once: "created_to 7 [] = None" by simp
  have "flip_coin ?E mgr [] ?req 7 = None" if "mgr \<in> {ManagerStops, ManagerRuns (im_new ?km)}" for mgr
    using missing_key_answers [OF reach TrueI i once, of 8 "CreateInstance ?r 7"] c toy_new(3) [of ?km i] sk [of ?r] that by auto
  moreover have "sign_rpc ?E (ManagerRuns (im_new ?km)) [] ?sreq 7 8
      = Some (Err (RpcAborted ''Error receiving response from instance manager''))"
    using missing_key_answers [OF reach TrueI i' once, of 8 "CreateInstance sr 7"] sc(1) toy_new(3) [of ?km i'] sk [OF sc(2)] by auto
  ultimately show ?thesis using reach by blast
qed




end
