(* ===== verification/QC_Big.thy ===== *)
theory QC_Big
  imports QC_Group
begin

text \<open>
  Big numbers (\<open>mcore/src/bls12381/big.rs\<close> and \<open>dbig.rs\<close>; the copies for the other curves differ in two
  constants): lists of limbs in base \<open>2 ^ BASEBITS\<close>, least significant first.  A limb is an \<open>i64\<close>, here an integer;
  every operation on limbs wraps, and the lemmas show that on the values the schemes use it never does.
  \<open>BIG\<close> and \<open>DBIG\<close> share the routines that read the same in both files, on lists of \<open>NLEN\<close> and \<open>DNLEN\<close> limbs.
  \<open>b\<close> is \<open>BASEBITS\<close> throughout.
\<close>

unbundle bit_operations_syntax

subsection \<open>Limbs\<close>

fun BASEBITS :: "group \<Rightarrow> nat" where
  "BASEBITS Bls12381 = 58"
| "BASEBITS _ = 56"

definition NLEN :: "group \<Rightarrow> nat" where
  "NLEN g = 1 + (8 * modbytes g - 1) div BASEBITS g"

definition i64 :: "int \<Rightarrow> int" where
  "i64 x = signed_take_bit 63 x"

definition i128 :: "int \<Rightarrow> int" where
  "i128 x = signed_take_bit 127 x"

definition BMASK :: "nat \<Rightarrow> int" where
  "BMASK b = 2 ^ b - 1"

type_synonym big = "int list"

definition big_new :: "nat \<Rightarrow> big" where
  "big_new n = replicate n 0"

definition big_new_int :: "nat \<Rightarrow> int \<Rightarrow> big" where
  "big_new_int n x = (big_new n)[0 := x]"

definition big_add :: "big \<Rightarrow> big \<Rightarrow> big" where
  "big_add x y = map2 (\<lambda>v w. i64 (v + w)) x y"

definition big_sub :: "big \<Rightarrow> big \<Rightarrow> big" where
  "big_sub x y = map2 (\<lambda>v w. i64 (v - w)) x y"

definition big_cmove :: "big \<Rightarrow> big \<Rightarrow> int \<Rightarrow> big" where
  "big_cmove x y d = map2 (\<lambda>v w. v XOR ((v XOR w) AND i64 (- d))) x y"

text \<open>The loop of \<open>norm\<close> with the carry; the top limb is not masked.\<close>

fun norm_loop :: "nat \<Rightarrow> int \<Rightarrow> big \<Rightarrow> big" where
  "norm_loop b carry [] = []"
| "norm_loop b carry [x] = [i64 (x + carry)]"
| "norm_loop b carry (x # y # ws) =
     (let d = i64 (x + carry) in (d AND BMASK b) # norm_loop b (drop_bit b d) (y # ws))"

fun big_norm :: "nat \<Rightarrow> big \<Rightarrow> big" where
  "big_norm b [] = []"
| "big_norm b (x # ws) = (x AND BMASK b) # norm_loop b (drop_bit b x) ws"

fun big_fshr :: "nat \<Rightarrow> nat \<Rightarrow> big \<Rightarrow> big" where
  "big_fshr b k [] = []"
| "big_fshr b k [x] = [drop_bit k x]"
| "big_fshr b k (x # y # ws) = (drop_bit k x OR (i64 (push_bit (b - k) y) AND BMASK b)) # big_fshr b k (y # ws)"

text \<open>\<open>fshl\<close> from the second limb on; \<open>p\<close> is the limb before.\<close>

fun fshl_loop :: "nat \<Rightarrow> nat \<Rightarrow> int \<Rightarrow> big \<Rightarrow> big" where
  "fshl_loop b k p [] = []"
| "fshl_loop b k p [x] = [i64 (push_bit k x) OR drop_bit (b - k) p]"
| "fshl_loop b k p (x # y # ws) = ((i64 (push_bit k x) AND BMASK b) OR drop_bit (b - k) p) # fshl_loop b k x (y # ws)"

fun big_fshl :: "nat \<Rightarrow> nat \<Rightarrow> big \<Rightarrow> big" where
  "big_fshl b k [] = []"
| "big_fshl b k (x # ws) = (i64 (push_bit k x) AND BMASK b) # fshl_loop b k x ws"

text \<open>From the top limb down: \<open>gt\<close> and \<open>eq\<close> say how the limbs read so far compare.\<close>

definition comp_step :: "nat \<Rightarrow> int \<times> int \<Rightarrow> int \<times> int \<Rightarrow> int \<times> int" where
  "comp_step b = (\<lambda>(x, y) (gt, eq).
     (gt OR (drop_bit b (i64 (y - x)) AND eq), eq AND drop_bit b (i64 ((y XOR x) - 1))))"

definition big_comp :: "nat \<Rightarrow> big \<Rightarrow> big \<Rightarrow> int" where
  "big_comp b x y = (let (gt, eq) = foldr (comp_step b) (zip x y) (0, 1) in i64 (gt + gt + eq - 1))"

subsection \<open>What a list of limbs stands for\<close>

fun big_val :: "nat \<Rightarrow> big \<Rightarrow> int" where
  "big_val b [] = 0"
| "big_val b (x # ws) = x + 2 ^ b * big_val b ws"

definition limbs_ok :: "nat \<Rightarrow> big \<Rightarrow> bool" where
  "limbs_ok b ws = (\<forall>w\<in>set ws. 0 \<le> w \<and> w < 2 ^ b)"

text \<open>Limbs that additions and subtractions leave: they need not be digits, but are far from overflow.\<close>

definition limbs_loose :: "big \<Rightarrow> bool" where
  "limbs_loose ws = (\<forall>w\<in>set ws. - (2 ^ 62) < w \<and> w < 2 ^ 62)"

lemma limbs_ok_simps [simp]:
  "limbs_ok b []" "limbs_ok b (x # ws) \<longleftrightarrow> 0 \<le> x \<and> x < 2 ^ b \<and> limbs_ok b ws"
  by (auto simp: limbs_ok_def)

lemma limbs_loose_simps [simp]:
  "limbs_loose []" "limbs_loose (x # ws) \<longleftrightarrow> - (2 ^ 62) < x \<and> x < 2 ^ 62 \<and> limbs_loose ws"
  by (auto simp: limbs_loose_def)

lemma i64_id [simp]: "- (2 ^ 63) \<le> x \<Longrightarrow> x < 2 ^ 63 \<Longrightarrow> i64 x = x"
  unfolding i64_def by (simp only: signed_take_bit_int_eq_self_iff)

lemma i128_id [simp]: "- (2 ^ 127) \<le> x \<Longrightarrow> x < 2 ^ 127 \<Longrightarrow> i128 x = x"
  unfolding i128_def by (simp only: signed_take_bit_int_eq_self_iff)

text \<open>The bounds again as numerals, for linear arithmetic.\<close>

lemma i64_lin: "- 9223372036854775808 \<le> x \<Longrightarrow> x < 9223372036854775808 \<Longrightarrow> i64 x = x"
  by simp

lemma i128_lin: "- 170141183460469231731687303715884105728 \<le> x \<Longrightarrow> x < 170141183460469231731687303715884105728 \<Longrightarrow> i128 x = x"
  by simp

lemma base_lin: "b \<le> 61 \<Longrightarrow> (2::int) ^ b \<le> 2305843009213693952" "b \<le> 60 \<Longrightarrow> (2::int) ^ (2 * b) \<le> 1329227995784915872903807060280344576"
  using power_increasing [of b 61 "2::int"] power_increasing [of "2 * b" 120 "2::int"] by simp_all

lemma and_BMASK [simp]: "x AND BMASK b = x mod 2 ^ b"
  unfolding BMASK_def by (metis mask_eq_exp_minus_1 take_bit_eq_mask take_bit_eq_mod)

lemma i64_mod: "b \<le> 64 \<Longrightarrow> i64 x mod 2 ^ b = x mod 2 ^ b"
  unfolding i64_def by (simp add: take_bit_signed_take_bit flip: take_bit_eq_mod)

lemma big_val_bounds:
  assumes "limbs_ok b ws"
  shows "0 \<le> big_val b ws" "big_val b ws < 2 ^ (b * length ws)"
proof -
  have "0 \<le> big_val b ws \<and> big_val b ws < 2 ^ (b * length ws)" using assms
  proof (induction ws)
    case (Cons x ws)
    then have "big_val b ws + 1 \<le> 2 ^ (b * length ws)" by simp
    then have "2 ^ b * (big_val b ws + 1) \<le> 2 ^ b * (2 ^ (b * length ws) :: int)" by (intro mult_left_mono) simp_all
    then show ?case using Cons by (simp add: power_add algebra_simps)
  qed simp
  then show "0 \<le> big_val b ws" "big_val b ws < 2 ^ (b * length ws)" by simp_all
qed

lemma big_val_inject:
  assumes "limbs_ok b xs" "limbs_ok b ys" "length xs = length ys" "big_val b xs = big_val b ys"
  shows "xs = ys"
  using assms(3,1,2,4)
proof (induction xs ys rule: list_induct2)
  case (Cons x xs y ys)
  then have "(x + 2 ^ b * big_val b xs) mod 2 ^ b = (y + 2 ^ b * big_val b ys) mod 2 ^ b" by simp
  then have "x = y" using Cons.prems by simp
  with Cons show ?case by simp
qed simp

lemma or_disjoint:
  fixes u v :: int
  assumes "0 \<le> u" "u < 2 ^ k"
  shows "u OR (2 ^ k * v) = u + 2 ^ k * v" "(2 ^ k * v) OR u = u + 2 ^ k * v"
proof -
  have "take_bit k u AND push_bit k v = 0" by (rule bit_eqI) (simp add: bit_simps)
  moreover have "take_bit k u = u" using assms by (simp add: take_bit_eq_mod)
  ultimately have "u AND push_bit k v = 0" by simp
  then have "u AND (2 ^ k * v) = 0" by (simp add: push_bit_eq_mult mult.commute)
  then show "u OR (2 ^ k * v) = u + 2 ^ k * v" "(2 ^ k * v) OR u = u + 2 ^ k * v"
    by (simp_all add: disjunctive_add_eq_or or.commute)
qed


subsection \<open>Normalising\<close>

lemma int_div_less:
  fixes x m a :: int
  assumes "x < a * m" "0 < m"
  shows "x div m < a"
proof (rule ccontr)
  assume "\<not> x div m < a"
  then have "a * m \<le> x div m * m" using assms(2) by (intro mult_right_mono) simp_all
  moreover have "x div m * m \<le> x" using div_mult_mod_eq [of x m] pos_mod_sign [OF assms(2), of x] by linarith
  ultimately show False using assms(1) by simp
qed

lemma carry_bounds:
  fixes d m :: int
  assumes "- (2 ^ 63) \<le> d" "d < 2 ^ 63" "4 \<le> m"
  shows "- (2 ^ 62) \<le> d div m" "d div m < 2 ^ 62"
proof -
  have "d = m * (d div m) + d mod m" "0 \<le> d mod m" "d mod m < m" using assms(3) by simp_all
  then have q: "m * (d div m) \<le> d" "d < m * (d div m + 1)" unfolding distrib_left by linarith+
  show "- (2 ^ 62) \<le> d div m"
  proof (rule ccontr)
    assume "\<not> ?thesis"
    then have "d div m + 1 \<le> - (2 ^ 62)" by simp
    moreover from this have "m * (d div m + 1) \<le> 4 * (d div m + 1)" using assms(3) by (intro mult_right_mono_neg) simp_all
    moreover have "4 * (d div m + 1) \<le> 4 * (- (2 ^ 62))" using calculation(1) by (intro mult_left_mono) simp_all
    ultimately show False using q(2) assms(1) by simp
  qed
  show "d div m < 2 ^ 62"
  proof (rule ccontr)
    assume "\<not> ?thesis"
    then have "4 * 2 ^ 62 \<le> m * (d div m)" using assms(3) by (intro mult_mono) simp_all
    with q(1) assms(2) show False by simp
  qed
qed

lemma norm_loop_facts:
  assumes "2 \<le> b" "limbs_loose ws" "ws \<noteq> []" "- (2 ^ 62) \<le> c" "c < 2 ^ 62"
  shows "big_val b (norm_loop b c ws) = big_val b ws + c \<and> length (norm_loop b c ws) = length ws
    \<and> limbs_ok b (butlast (norm_loop b c ws))"
  using assms(2-)
proof (induction ws arbitrary: c rule: induct_list012)
  case (3 x y ws)
  let ?d = "x + c"
  have d: "i64 ?d = ?d" and db: "- (2 ^ 63) \<le> ?d" "?d < 2 ^ 63" using 3(3,5,6) by simp_all
  have "(2::int) ^ 2 \<le> 2 ^ b" using assms(1) by (intro power_increasing) simp_all
  then have "4 \<le> (2::int) ^ b" by simp
  note cb = carry_bounds [OF db this]
  have IH: "big_val b (norm_loop b (?d div 2 ^ b) (y # ws)) = big_val b (y # ws) + ?d div 2 ^ b
      \<and> length (norm_loop b (?d div 2 ^ b) (y # ws)) = length (y # ws) \<and> limbs_ok b (butlast (norm_loop b (?d div 2 ^ b) (y # ws)))"
    by (rule 3(2)) (use 3(3) cb in simp_all)
  then have ne: "norm_loop b (?d div 2 ^ b) (y # ws) \<noteq> []" by (metis length_0_conv list.distinct(1))
  have "norm_loop b c (x # y # ws) = (?d mod 2 ^ b) # norm_loop b (?d div 2 ^ b) (y # ws)"
    unfolding norm_loop.simps d Let_def and_BMASK drop_bit_eq_div by (rule refl)
  moreover have "?d mod 2 ^ b + 2 ^ b * (?d div 2 ^ b) = ?d" by simp
  ultimately show ?case using IH ne by (simp add: distrib_left)
qed simp_all

lemma big_norm_facts:
  assumes "2 \<le> b" "limbs_loose ws" "2 \<le> length ws"
  shows "big_val b (big_norm b ws) = big_val b ws" "length (big_norm b ws) = length ws" "limbs_ok b (butlast (big_norm b ws))"
proof -
  obtain x y zs where "ws = x # y # zs" using assms(3) by (cases ws; cases "tl ws") auto
  then obtain vs where ws: "ws = x # vs" "vs \<noteq> []" by blast
  have "(2::int) ^ 2 \<le> 2 ^ b" using assms(1) by (intro power_increasing) simp_all
  then have m: "4 \<le> (2::int) ^ b" by simp
  have x: "- (2 ^ 63) \<le> x" "x < 2 ^ 63" using assms(2) by (simp_all add: ws(1))
  have "limbs_loose vs" using assms(2) by (simp add: ws(1))
  note loop = norm_loop_facts [OF assms(1) this ws(2) carry_bounds [OF x m]]
  then have ne: "norm_loop b (x div 2 ^ b) vs \<noteq> []" using ws(2) by (metis length_0_conv)
  have eq: "big_norm b ws = (x mod 2 ^ b) # norm_loop b (x div 2 ^ b) vs" by (simp add: ws(1) drop_bit_eq_div)
  have "x mod 2 ^ b + 2 ^ b * (x div 2 ^ b) = x" by simp
  then show "big_val b (big_norm b ws) = big_val b ws" using loop unfolding eq by (simp add: ws(1) distrib_left)
  show "length (big_norm b ws) = length ws" "limbs_ok b (butlast (big_norm b ws))"
    using loop ne unfolding eq by (simp_all add: ws(1))
qed

lemma big_val_append: "big_val b (xs @ ys) = big_val b xs + 2 ^ (b * length xs) * big_val b ys"
  by (induction xs) (simp_all add: power_add algebra_simps)

text \<open>The top limb of a list whose other limbs are digits is a quotient of the value.\<close>

lemma last_limb:
  assumes "limbs_ok b (butlast ws)" "ws \<noteq> []"
  shows "last ws = big_val b ws div 2 ^ (b * (length ws - 1))"
proof -
  have "big_val b ws = big_val b (butlast ws) + 2 ^ (b * (length ws - 1)) * last ws"
    using big_val_append [of b "butlast ws" "[last ws]"] assms(2) by simp
  then show ?thesis using big_val_bounds [OF assms(1)] by simp
qed

lemma limbs_ok_last:
  assumes "limbs_ok b (butlast ws)" "ws \<noteq> []" "0 \<le> big_val b ws" "big_val b ws < 2 ^ (b * length ws)"
  shows "limbs_ok b ws"
proof -
  let ?m = "2 ^ (b * (length ws - 1)) :: int"
  obtain n where n: "length ws = Suc n" using assms(2) by (cases ws) auto
  have "big_val b ws < 2 ^ b * ?m" using assms(4) by (simp add: n power_add)
  then have "big_val b ws div ?m < 2 ^ b" by (intro int_div_less) simp_all
  then have "0 \<le> last ws \<and> last ws < 2 ^ b" unfolding last_limb [OF assms(1,2)] using assms(3) by (simp add: pos_imp_zdiv_nonneg_iff)
  then have "limbs_ok b (butlast ws @ [last ws])" using assms(1) by (simp add: limbs_ok_def)
  then show ?thesis using assms(2) by simp
qed

lemma big_norm_ok:
  assumes "2 \<le> b" "limbs_loose ws" "2 \<le> length ws" "0 \<le> big_val b ws" "big_val b ws < 2 ^ (b * length ws)"
  shows "limbs_ok b (big_norm b ws)"
proof (rule limbs_ok_last)
  note n = big_norm_facts [OF assms(1-3)]
  show "limbs_ok b (butlast (big_norm b ws))" "0 \<le> big_val b (big_norm b ws)" "big_val b (big_norm b ws) < 2 ^ (b * length (big_norm b ws))"
    using n assms(4,5) by simp_all
  show "big_norm b ws \<noteq> []" using n(2) assms(3) by auto
qed

subsection \<open>Shifting\<close>

lemma mult_split:
  fixes c v d :: int
  shows "c * v = c * (v mod d) + d * c * (v div d)"
proof -
  have "c * (v mod d + d * (v div d)) = c * (v mod d) + d * c * (v div d)" by (simp only: distrib_left mult_ac)
  then show ?thesis by simp
qed

lemma mod_pow_mult:
  fixes y :: int
  assumes "k \<le> b"
  shows "(2 ^ (b - k) * y) mod 2 ^ b = 2 ^ (b - k) * (y mod 2 ^ k)"
proof -
  have e: "(2::int) ^ b = 2 ^ (b - k) * 2 ^ k" using assms by (simp flip: power_add)
  show ?thesis by (simp only: e mult_mod_right)
qed

lemma big_fshr_facts:
  assumes "limbs_ok b ws" "k \<le> b" "b \<le> 62"
  shows "limbs_ok b (big_fshr b k ws)" "big_val b (big_fshr b k ws) = big_val b ws div 2 ^ k" "length (big_fshr b k ws) = length ws"
proof -
  have bk: "(2::int) ^ b = 2 ^ k * 2 ^ (b - k)" using assms(2) by (simp flip: power_add)
  have lt: "x div 2 ^ k < 2 ^ (b - k)" if "x < 2 ^ b" for x :: int
    by (rule int_div_less) (use that bk in \<open>simp_all add: mult.commute\<close>)
  have le: "x div 2 ^ k \<le> x" if "0 \<le> x" for x :: int using that zdiv_mono2 [of x 1 "2 ^ k"] by simp
  have "limbs_ok b (big_fshr b k ws) \<and> big_val b (big_fshr b k ws) = big_val b ws div 2 ^ k \<and> length (big_fshr b k ws) = length ws"
    using assms(1)
  proof (induction ws rule: induct_list012)
    case (2 x)
    then show ?case using lt [of x] bk by (auto simp: drop_bit_eq_div pos_imp_zdiv_nonneg_iff intro: le_less_trans [OF le])
  next
    case (3 x y ws)
    let ?v = "big_val b (y # ws)"
    have IH: "limbs_ok b (big_fshr b k (y # ws))" "big_val b (big_fshr b k (y # ws)) = ?v div 2 ^ k"
        "length (big_fshr b k (y # ws)) = length (y # ws)" using 3 by simp_all
    have x: "0 \<le> x div 2 ^ k" "x div 2 ^ k < 2 ^ (b - k)" using 3(3) lt by (simp_all add: pos_imp_zdiv_nonneg_iff)
    have "2 ^ k dvd (2::int) ^ b * big_val b ws" unfolding bk by simp
    then have y: "y mod 2 ^ k = ?v mod 2 ^ k" by (simp add: mod_add_eq [symmetric] dvd_imp_mod_0)
    have "i64 (push_bit (b - k) y) AND BMASK b = 2 ^ (b - k) * (y mod 2 ^ k)"
      using assms(2,3) by (simp add: i64_mod push_bit_eq_mult mult.commute [of y] mod_pow_mult)
    then have head: "big_fshr b k (x # y # ws) = (x div 2 ^ k + 2 ^ (b - k) * (y mod 2 ^ k)) # big_fshr b k (y # ws)"
      using or_disjoint(1) [OF x] by (simp add: drop_bit_eq_div)
    have "y mod 2 ^ k + 1 \<le> 2 ^ k" by (rule zless_imp_add1_zle) simp
    then have "2 ^ (b - k) * (y mod 2 ^ k + 1) \<le> 2 ^ (b - k) * (2 ^ k :: int)" by (intro mult_left_mono) simp_all
    then have hb: "x div 2 ^ k + 2 ^ (b - k) * (y mod 2 ^ k) < 2 ^ b" using x(2) bk by (simp add: distrib_left mult.commute)
    have "big_val b (x # y # ws) = x + 2 ^ k * (2 ^ (b - k) * ?v)" unfolding big_val.simps(2) [of b x] bk by (simp only: mult.assoc)
    then have "big_val b (x # y # ws) div 2 ^ k = x div 2 ^ k + 2 ^ (b - k) * ?v" by (simp del: big_val.simps)
    also have "\<dots> = x div 2 ^ k + 2 ^ (b - k) * (y mod 2 ^ k) + 2 ^ b * (?v div 2 ^ k)"
      unfolding y bk using mult_split [of "2 ^ (b - k)" ?v "2 ^ k"] by (simp only: add.assoc)
    finally show ?case unfolding head using IH x hb by simp
  qed simp
  then show "limbs_ok b (big_fshr b k ws)" "big_val b (big_fshr b k ws) = big_val b ws div 2 ^ k" "length (big_fshr b k ws) = length ws"
    by simp_all
qed

lemma fshl_limb:
  fixes x p :: int
  assumes "k \<le> b" "b \<le> 62" "0 \<le> x" "x < 2 ^ b" "0 \<le> p" "p < 2 ^ b"
  shows "(i64 (push_bit k x) AND BMASK b) OR drop_bit (b - k) p = 2 ^ k * (x mod 2 ^ (b - k)) + p div 2 ^ (b - k)"
    "0 \<le> 2 ^ k * (x mod 2 ^ (b - k)) + p div 2 ^ (b - k)" "2 ^ k * (x mod 2 ^ (b - k)) + p div 2 ^ (b - k) < 2 ^ b"
proof -
  have bk: "(2::int) ^ b = 2 ^ k * 2 ^ (b - k)" using assms(1) by (simp flip: power_add)
  have p: "0 \<le> p div 2 ^ (b - k)" "p div 2 ^ (b - k) < 2 ^ k"
    using assms(5,6) int_div_less [of p "2 ^ k" "2 ^ (b - k)"] by (simp_all add: pos_imp_zdiv_nonneg_iff bk)
  have "i64 (push_bit k x) AND BMASK b = 2 ^ k * (x mod 2 ^ (b - k))"
    using assms(1,2) mod_pow_mult [of "b - k" b x] by (simp add: i64_mod push_bit_eq_mult mult.commute [of x])
  then show "(i64 (push_bit k x) AND BMASK b) OR drop_bit (b - k) p = 2 ^ k * (x mod 2 ^ (b - k)) + p div 2 ^ (b - k)"
    using or_disjoint(2) [OF p] by (simp add: drop_bit_eq_div)
  show "0 \<le> 2 ^ k * (x mod 2 ^ (b - k)) + p div 2 ^ (b - k)" using p(1) by simp
  have "x mod 2 ^ (b - k) + 1 \<le> 2 ^ (b - k)" by (rule zless_imp_add1_zle) simp
  then have "2 ^ k * (x mod 2 ^ (b - k) + 1) \<le> 2 ^ k * (2 ^ (b - k) :: int)" by (intro mult_left_mono) simp_all
  then show "2 ^ k * (x mod 2 ^ (b - k)) + p div 2 ^ (b - k) < 2 ^ b" using p(2) bk by (simp add: distrib_left)
qed

lemma fshl_loop_facts:
  assumes "k \<le> b" "b \<le> 62" "limbs_ok b ws" "ws \<noteq> []" "0 \<le> p" "p < 2 ^ b" "last ws < 2 ^ (b - k)"
  shows "limbs_ok b (fshl_loop b k p ws) \<and> big_val b (fshl_loop b k p ws) = 2 ^ k * big_val b ws + p div 2 ^ (b - k)
    \<and> length (fshl_loop b k p ws) = length ws"
  using assms(3-)
proof (induction ws arbitrary: p rule: induct_list012)
  case (2 x)
  have bk: "(2::int) ^ b = 2 ^ k * 2 ^ (b - k)" using assms(1) by (simp flip: power_add)
  have x: "0 \<le> x" "x < 2 ^ b" "x mod 2 ^ (b - k) = x" using 2 by simp_all
  have "2 ^ k * x < 2 ^ b" using 2(5) bk by simp
  moreover have "(2::int) ^ b \<le> 2 ^ 62" using assms(2) by (intro power_increasing) simp_all
  moreover have "0 \<le> 2 ^ k * x" using x(1) by simp
  ultimately have "- (2 ^ 63) \<le> 2 ^ k * x" "2 ^ k * x < 2 ^ 63" "(2 ^ k * x) mod 2 ^ b = 2 ^ k * x" by simp_all
  then have "i64 (push_bit k x) = 2 ^ k * x" "(2 ^ k * x) mod 2 ^ b = 2 ^ k * x" using i64_id [of "2 ^ k * x"]
    by (simp_all add: push_bit_eq_mult mult.commute)
  then have "fshl_loop b k p [x] = [2 ^ k * x + p div 2 ^ (b - k)]"
    using fshl_limb(1) [OF assms(1,2) x(1,2) 2(3,4)] x(3) by simp
  then show ?case using fshl_limb(2,3) [OF assms(1,2) x(1,2) 2(3,4)] x(3) by simp
next
  case (3 x y ws)
  have bk: "(2::int) ^ b = 2 ^ k * 2 ^ (b - k)" using assms(1) by (simp flip: power_add)
  have x: "0 \<le> x" "x < 2 ^ b" using 3(3) by simp_all
  note l = fshl_limb [OF assms(1,2) x 3(5,6)]
  have IH: "limbs_ok b (fshl_loop b k x (y # ws)) \<and> big_val b (fshl_loop b k x (y # ws)) = 2 ^ k * big_val b (y # ws) + x div 2 ^ (b - k)
      \<and> length (fshl_loop b k x (y # ws)) = length (y # ws)" by (rule 3(2)) (use 3 in simp_all)
  have "2 ^ b * (x div 2 ^ (b - k)) + 2 ^ k * (x mod 2 ^ (b - k)) = 2 ^ k * x"
    unfolding bk by (metis distrib_left mult.assoc mult_div_mod_eq)
  then have "2 ^ k * (x mod 2 ^ (b - k)) + p div 2 ^ (b - k) + 2 ^ b * (2 ^ k * big_val b (y # ws) + x div 2 ^ (b - k))
      = 2 ^ k * big_val b (x # y # ws) + p div 2 ^ (b - k)" by (simp only: big_val.simps(2) [of b x]) (simp add: algebra_simps del: big_val.simps)
  with IH l show ?case by (simp del: and_BMASK)
qed simp

lemma big_fshl_facts:
  assumes "limbs_ok b ws" "2 \<le> length ws" "k \<le> b" "b \<le> 62" "2 ^ k * big_val b ws < 2 ^ (b * length ws)"
  shows "limbs_ok b (big_fshl b k ws)" "big_val b (big_fshl b k ws) = 2 ^ k * big_val b ws" "length (big_fshl b k ws) = length ws"
proof -
  obtain x vs where ws: "ws = x # vs" "vs \<noteq> []" using assms(2) by (cases ws; cases "tl ws") auto
  have bk: "(2::int) ^ b = 2 ^ k * 2 ^ (b - k)" using assms(3) by (simp flip: power_add)
  have x: "0 \<le> x" "x < 2 ^ b" "limbs_ok b vs" using assms(1) by (simp_all add: ws)
  have "limbs_ok b (butlast ws)" using assms(1) by (auto simp: limbs_ok_def dest: in_set_butlastD)
  then have last: "last ws = big_val b ws div 2 ^ (b * (length ws - 1))" by (rule last_limb) (simp add: ws)
  have "(2::int) ^ (b * length ws) = 2 ^ k * (2 ^ (b - k) * 2 ^ (b * (length ws - 1)))"
    using bk by (simp add: ws(1) power_add mult.assoc)
  then have "big_val b ws < 2 ^ (b - k) * 2 ^ (b * (length ws - 1))" using assms(5) by simp
  then have "last ws < 2 ^ (b - k)" unfolding last by (intro int_div_less) simp_all
  then have top: "last vs < 2 ^ (b - k)" by (simp add: ws)
  note loop = fshl_loop_facts [OF assms(3,4) x(3) ws(2) x(1,2) top]
  have eq: "big_fshl b k ws = (2 ^ k * (x mod 2 ^ (b - k))) # fshl_loop b k x vs"
    using fshl_limb(1) [OF assms(3,4) x(1,2), of 0] by (simp add: ws(1))
  have "2 ^ b * (x div 2 ^ (b - k)) + 2 ^ k * (x mod 2 ^ (b - k)) = 2 ^ k * x"
    unfolding bk by (metis distrib_left mult.assoc mult_div_mod_eq)
  then show "big_val b (big_fshl b k ws) = 2 ^ k * big_val b ws" unfolding eq using loop by (simp add: ws(1) algebra_simps)
  show "limbs_ok b (big_fshl b k ws)" "length (big_fshl b k ws) = length ws"
    unfolding eq using loop fshl_limb(2,3) [OF assms(3,4) x(1,2), of 0] by (simp_all add: ws(1))
qed

subsection \<open>Comparing, adding and selecting\<close>

lemma xor_digit:
  fixes x y :: int
  assumes "0 \<le> x" "x < 2 ^ b" "0 \<le> y" "y < 2 ^ b"
  shows "0 \<le> y XOR x" "y XOR x < 2 ^ b" "y XOR x = 0 \<longleftrightarrow> y = x"
proof -
  have "take_bit b x = x" "take_bit b y = y" using assms by (simp_all add: take_bit_eq_mod)
  then have "take_bit b (y XOR x) = y XOR x" by simp
  from this [unfolded take_bit_int_eq_self_iff] show "0 \<le> y XOR x" "y XOR x < 2 ^ b" by (rule conjunct1, rule conjunct2)
  show "y XOR x = 0 \<longleftrightarrow> y = x" by (metis xor_self_eq xor.assoc xor.right_neutral)
qed

lemma div_sign:
  fixes z :: int
  assumes "- (2 ^ b) \<le> z" "z < 2 ^ b"
  shows "z div 2 ^ b = (if z < 0 then - 1 else 0)"
proof (cases "z < 0")
  case True
  have "(z + 2 ^ b) div 2 ^ b = z div 2 ^ b + 1" by (rule div_add_self2) simp
  moreover have "(z + 2 ^ b) div 2 ^ b = 0" using True assms by (intro div_pos_pos_trivial) simp_all
  ultimately show ?thesis using True by simp
qed (use assms in simp)

lemma comp_limb:
  fixes x y :: int
  assumes "0 \<le> x" "x < 2 ^ b" "0 \<le> y" "y < 2 ^ b" "b \<le> 62"
  shows "drop_bit b (i64 (y - x)) = (if y < x then - 1 else 0)" "drop_bit b (i64 ((y XOR x) - 1)) = (if y = x then - 1 else 0)"
proof -
  have b: "(2::int) ^ b \<le> 2 ^ 62" using assms(5) by (intro power_increasing) simp_all
  note xd = xor_digit [OF assms(1-4)]
  have d: "- (2 ^ b) \<le> y - x" "y - x < 2 ^ b" "- (2 ^ b) \<le> (y XOR x) - 1" "(y XOR x) - 1 < 2 ^ b" using assms(1-4) xd(1,2) by linarith+
  then have "i64 (y - x) = y - x" "i64 ((y XOR x) - 1) = (y XOR x) - 1" using b by simp_all
  moreover have z: "(y XOR x) - 1 < 0 \<longleftrightarrow> y = x" using xd(1) unfolding xd(3) [symmetric] by linarith
  ultimately show "drop_bit b (i64 (y - x)) = (if y < x then - 1 else 0)" "drop_bit b (i64 ((y XOR x) - 1)) = (if y = x then - 1 else 0)"
    using div_sign [OF d(1,2)] div_sign [OF d(3,4)] z by (auto simp: drop_bit_eq_div)
qed

lemma big_val_Cons_less:
  fixes x y u v :: int
  assumes "0 \<le> x" "x < 2 ^ b" "0 \<le> y" "y < 2 ^ b"
  shows "x + 2 ^ b * u < y + 2 ^ b * v \<longleftrightarrow> u < v \<or> u = v \<and> x < y"
proof (cases u v rule: linorder_cases)
  case less
  then have "2 ^ b * (u + 1) \<le> 2 ^ b * v" by (intro mult_left_mono) simp_all
  then show ?thesis using less assms by (simp add: distrib_left)
next
  case greater
  then have "2 ^ b * (v + 1) \<le> 2 ^ b * u" by (intro mult_left_mono) simp_all
  then show ?thesis using greater assms by (simp add: distrib_left)
qed simp

lemma comp_fold:
  assumes "length xs = length ys" "limbs_ok b xs" "limbs_ok b ys" "b \<le> 62"
  shows "foldr (comp_step b) (zip xs ys) (0, 1)
    = (if big_val b ys < big_val b xs then 1 else 0, if big_val b ys = big_val b xs then 1 else 0)"
  using assms(1-3)
proof (induction xs ys rule: list_induct2)
  case (Cons x xs y ys)
  have d: "0 \<le> x" "x < 2 ^ b" "0 \<le> y" "y < 2 ^ b" "limbs_ok b xs" "limbs_ok b ys" using Cons.prems by simp_all
  have "x + 2 ^ b * big_val b xs = y + 2 ^ b * big_val b ys \<longleftrightarrow> x = y \<and> big_val b xs = big_val b ys"
    using big_val_Cons_less [OF d(1-4), of "big_val b xs" "big_val b ys"] big_val_Cons_less [OF d(3,4,1,2), of "big_val b ys" "big_val b xs"]
    by (smt (verit, best))
  then show ?case using Cons.IH [OF d(5,6)] comp_limb [OF d(1-4) assms(4)] big_val_Cons_less [OF d(3,4,1,2), of "big_val b ys" "big_val b xs"]
    by (auto simp: comp_step_def)
qed simp

lemma big_comp_eq:
  assumes "length xs = length ys" "limbs_ok b xs" "limbs_ok b ys" "b \<le> 62"
  shows "big_comp b xs ys = (if big_val b xs < big_val b ys then - 1 else if big_val b xs = big_val b ys then 0 else 1)"
  using comp_fold [OF assms] by (simp add: big_comp_def)

lemma big_cmove_eq:
  assumes "length xs = length ys" "d = 0 \<or> d = 1"
  shows "big_cmove xs ys d = (if d = 1 then ys else xs)"
  using assms by (induction xs ys rule: list_induct2) (auto simp: big_cmove_def xor.assoc [symmetric])

lemma big_add_facts:
  assumes "length xs = length ys" "\<forall>v\<in>set xs. \<bar>v\<bar> < 2 ^ 61" "\<forall>v\<in>set ys. \<bar>v\<bar> < 2 ^ 61"
  shows "big_val b (big_add xs ys) = big_val b xs + big_val b ys \<and> limbs_loose (big_add xs ys) \<and> length (big_add xs ys) = length xs"
    "big_val b (big_sub xs ys) = big_val b xs - big_val b ys \<and> limbs_loose (big_sub xs ys) \<and> length (big_sub xs ys) = length xs"
  using assms by (induction xs ys rule: list_induct2) (auto simp: big_add_def big_sub_def distrib_left right_diff_distrib)

lemma limbs_ok_small: "limbs_ok b ws \<Longrightarrow> b \<le> 61 \<Longrightarrow> \<forall>v\<in>set ws. \<bar>v\<bar> < 2 ^ 61"
proof
  fix v assume "limbs_ok b ws" "b \<le> 61" "v \<in> set ws"
  moreover from this have "(2::int) ^ b \<le> 2 ^ 61" by (intro power_increasing) simp_all
  ultimately show "\<bar>v\<bar> < 2 ^ 61" by (auto simp: limbs_ok_def)
qed

subsection \<open>The double-length numbers\<close>

text \<open>\<open>shl\<close> and \<open>shr\<close> of \<open>DBIG\<close>, for shifts by less than all but one limb, as everywhere in the source.\<close>

definition dbig_shl :: "nat \<Rightarrow> nat \<Rightarrow> big \<Rightarrow> big" where
  "dbig_shl b k ws =
     (let n = k mod b; m = k div b; l = length ws in
      map (\<lambda>i. if i = l - 1 then i64 (push_bit n (ws ! (l - 1 - m))) OR drop_bit (b - n) (ws ! (l - m - 2))
               else if m + 1 \<le> i then (i64 (push_bit n (ws ! (i - m))) AND BMASK b) OR drop_bit (b - n) (ws ! (i - m - 1))
               else if i = m then i64 (push_bit n (ws ! 0)) AND BMASK b
               else 0) [0..<l])"

definition dbig_shr :: "nat \<Rightarrow> nat \<Rightarrow> big \<Rightarrow> big" where
  "dbig_shr b k ws =
     (let n = k mod b; m = k div b; l = length ws in
      map (\<lambda>i. if i < l - m - 1 then drop_bit n (ws ! (m + i)) OR (i64 (push_bit (b - n) (ws ! (m + i + 1))) AND BMASK b)
               else if i = l - m - 1 then drop_bit n (ws ! (l - 1))
               else 0) [0..<l])"

definition dbig_new_scopy :: "nat \<Rightarrow> big \<Rightarrow> big" where
  "dbig_new_scopy b x = (let n = length x; top = x ! (n - 1) in
     x[n - 1 := top AND BMASK b] @ drop_bit b top # replicate (n - 1) 0)"

lemma fshl_loop_nth:
  "i < length ws \<Longrightarrow> fshl_loop b k p ws ! i =
     (if i = length ws - 1 then i64 (push_bit k (ws ! i)) else i64 (push_bit k (ws ! i)) AND BMASK b) OR drop_bit (b - k) ((p # ws) ! i)"
proof (induction ws arbitrary: p i rule: induct_list012)
  case (3 x y ws)
  show ?case
  proof (cases i)
    case (Suc j)
    then show ?thesis using 3(2) [of j x] 3(3) by simp
  qed simp
qed simp_all

lemma fshl_loop_length [simp]: "length (fshl_loop b k p ws) = length ws"
  by (induction ws arbitrary: p rule: induct_list012) simp_all

lemma dbig_shl_eq:
  assumes "k < b" "2 \<le> length ws"
  shows "dbig_shl b k ws = big_fshl b k ws"
proof -
  obtain x vs where ws: "ws = x # vs" "vs \<noteq> []" using assms(2) by (cases ws; cases "tl ws") auto
  show ?thesis
  proof (rule nth_equalityI)
    fix i assume "i < length (dbig_shl b k ws)"
    then have i: "i < Suc (length vs)" by (simp add: dbig_shl_def Let_def ws)
    show "dbig_shl b k ws ! i = big_fshl b k ws ! i"
    proof (cases i)
      case 0
      then show ?thesis using assms(1) ws(2) by (simp add: dbig_shl_def Let_def ws del: upt_Suc)
    next
      case (Suc j)
      then show ?thesis using i assms(1) fshl_loop_nth [of j vs b k x]
        by (simp add: dbig_shl_def Let_def ws nth_Cons' del: upt_Suc) (auto simp: numeral_2_eq_2)
    qed
  qed (simp add: dbig_shl_def Let_def ws)
qed

lemma big_fshr_nth:
  "i < length ws \<Longrightarrow> big_fshr b k ws ! i =
     (if i = length ws - 1 then drop_bit k (ws ! i) else drop_bit k (ws ! i) OR (i64 (push_bit (b - k) (ws ! (i + 1))) AND BMASK b))"
proof (induction ws arbitrary: i rule: induct_list012)
  case (3 x y ws)
  show ?case
  proof (cases i)
    case (Suc j)
    then show ?thesis using 3(2) [of j] 3(3) by simp
  qed simp
qed simp_all

lemma big_fshr_length [simp]: "length (big_fshr b k ws) = length ws"
  by (induction ws rule: induct_list012) simp_all

lemma dbig_shr_eq: "k < b \<Longrightarrow> dbig_shr b k ws = big_fshr b k ws"
  by (rule nth_equalityI) (auto simp: dbig_shr_def Let_def big_fshr_nth)

lemma dbig_new_scopy_eq:
  assumes "limbs_ok b x" "x \<noteq> []"
  shows "dbig_new_scopy b x = x @ replicate (length x) 0"
proof -
  have "x ! (length x - 1) \<in> set x" using assms(2) by simp
  then have "0 \<le> x ! (length x - 1)" "x ! (length x - 1) < 2 ^ b" using assms(1) by (auto simp: limbs_ok_def)
  then have "x[length x - 1 := x ! (length x - 1) AND BMASK b] = x" "drop_bit b (x ! (length x - 1)) = 0"
    by (simp_all add: drop_bit_eq_div)
  moreover have "0 # replicate (length x - 1) 0 = (replicate (length x) 0 :: big)"
    using assms(2) by (metis Suc_diff_1 length_greater_0_conv replicate_Suc)
  ultimately show ?thesis unfolding dbig_new_scopy_def Let_def by (simp only:)
qed

lemma limbs_ok_append [simp]: "limbs_ok b (xs @ ys) \<longleftrightarrow> limbs_ok b xs \<and> limbs_ok b ys"
  by (auto simp: limbs_ok_def)

lemma limbs_ok_zeros [simp]: "limbs_ok b (replicate n 0)" "big_val b (replicate n 0) = 0"
  by (induction n) simp_all

subsection \<open>Reducing\<close>

text \<open>
  The loops of \<open>rmod\<close> and \<open>dmod\<close>, which differ in the shifts they call: the modulus is doubled until it exceeds the
  number, then halved again and subtracted where possible, the sign of the top limb telling.
\<close>

partial_function (option) mod_up :: "(nat \<Rightarrow> nat \<Rightarrow> big \<Rightarrow> big) \<Rightarrow> nat \<Rightarrow> big \<Rightarrow> big \<Rightarrow> nat \<Rightarrow> (big \<times> nat) option" where
  "mod_up shl b x m k =
     (let m' = shl b 1 m in if big_comp b x m' < 0 then Some (m', k + 1) else mod_up shl b x m' (k + 1))"

fun mod_down :: "(nat \<Rightarrow> nat \<Rightarrow> big \<Rightarrow> big) \<Rightarrow> nat \<Rightarrow> nat \<Rightarrow> big \<Rightarrow> big \<Rightarrow> big" where
  "mod_down shr b 0 x m = x"
| "mod_down shr b (Suc k) x m =
     (let m' = shr b 1 m; r = big_norm b (big_sub x m')
      in mod_down shr b k (big_cmove x r (1 - (drop_bit 63 (last r) AND 1))) m')"

definition big_rmod :: "nat \<Rightarrow> big \<Rightarrow> big \<Rightarrow> big option" where
  "big_rmod b x n =
     (let x' = big_norm b x in
      if big_comp b x' n < 0 then Some x'
      else do { (m, k) \<leftarrow> mod_up big_fshl b x' n 0; Some (mod_down big_fshr b k x' m) })"

definition dbig_dmod :: "nat \<Rightarrow> big \<Rightarrow> big \<Rightarrow> big option" where
  "dbig_dmod b d c =
     (let d' = big_norm b d; m = dbig_new_scopy b c in
      if big_comp b d' m < 0 then Some (take (length c) d')
      else do { (m', k) \<leftarrow> mod_up dbig_shl b d' m 0; Some (take (length c) (mod_down dbig_shr b k d' m')) })"

text \<open>What the loops need of a pair of shifts by one bit.\<close>

locale limb_shifts =
  fixes shl shr :: "nat \<Rightarrow> nat \<Rightarrow> big \<Rightarrow> big"
  assumes shl_double: "limbs_ok b ws \<Longrightarrow> 2 \<le> length ws \<Longrightarrow> 2 \<le> b \<Longrightarrow> b \<le> 61 \<Longrightarrow> 2 * big_val b ws < 2 ^ (b * length ws) \<Longrightarrow>
      limbs_ok b (shl b 1 ws) \<and> big_val b (shl b 1 ws) = 2 * big_val b ws \<and> length (shl b 1 ws) = length ws"
    and shr_halve: "limbs_ok b ws \<Longrightarrow> 2 \<le> b \<Longrightarrow> b \<le> 61 \<Longrightarrow>
      limbs_ok b (shr b 1 ws) \<and> big_val b (shr b 1 ws) = big_val b ws div 2 \<and> length (shr b 1 ws) = length ws"
begin

lemma mod_up_ends:
  assumes b: "2 \<le> b" "b \<le> 61" "2 \<le> length x" and x: "limbs_ok b x" "2 * big_val b x < 2 ^ (b * length x)"
    and m: "limbs_ok b m" "length m = length x" "0 < big_val b m" "big_val b m \<le> big_val b x"
  shows "\<exists>m' j. mod_up shl b x m k = Some (m', k + j) \<and> limbs_ok b m' \<and> length m' = length x
    \<and> big_val b m' = 2 ^ j * big_val b m \<and> big_val b x < big_val b m'"
  using m
proof (induction "nat (big_val b x - big_val b m)" arbitrary: m k rule: less_induct)
  case less
  have s: "limbs_ok b (shl b 1 m)" "big_val b (shl b 1 m) = 2 * big_val b m" "length (shl b 1 m) = length x"
    using shl_double [of b m] less.prems b x(2) by simp_all
  have c: "big_comp b x (shl b 1 m) < 0 \<longleftrightarrow> big_val b x < 2 * big_val b m"
    using big_comp_eq [of x "shl b 1 m" b] s x(1) b(2) by simp
  show ?case
  proof (cases "big_val b x < 2 * big_val b m")
    case True
    then show ?thesis using s c by (subst mod_up.simps) (auto simp: Let_def intro!: exI [of _ 1])
  next
    case False
    then have "\<exists>m' j. mod_up shl b x (shl b 1 m) (k + 1) = Some (m', k + 1 + j) \<and> limbs_ok b m' \<and> length m' = length x
        \<and> big_val b m' = 2 ^ j * big_val b (shl b 1 m) \<and> big_val b x < big_val b m'"
      using less.prems s by (intro less.hyps) simp_all
    then obtain m' j where "mod_up shl b x (shl b 1 m) (k + 1) = Some (m', k + 1 + j)" "limbs_ok b m'" "length m' = length x"
        "big_val b m' = 2 ^ j * big_val b (shl b 1 m)" "big_val b x < big_val b m'" by blast
    then show ?thesis using False c s(2) by (subst mod_up.simps) (auto simp: Let_def intro!: exI [of _ "Suc j"])
  qed
qed

lemma mod_down_step:
  assumes b: "2 \<le> b" "b \<le> 61" "2 \<le> length x" and x: "limbs_ok b x" and m: "limbs_ok b m" "length m = length x"
  defines "r \<equiv> big_norm b (big_sub x m)"
  shows "big_cmove x r (1 - (drop_bit 63 (last r) AND 1)) = (if big_val b m \<le> big_val b x then r else x)"
    "length r = length x" "big_val b r = big_val b x - big_val b m" "big_val b m \<le> big_val b x \<Longrightarrow> limbs_ok b r"
proof -
  let ?p = "2 ^ (b * (length x - 1)) :: int"
  have sub: "big_val b (big_sub x m) = big_val b x - big_val b m" "limbs_loose (big_sub x m)" "length (big_sub x m) = length x"
    using big_add_facts(2) [of x m b] limbs_ok_small [OF x b(2)] limbs_ok_small [OF m(1) b(2)] m(2) by simp_all
  have r: "big_val b r = big_val b x - big_val b m" "length r = length x" "limbs_ok b (butlast r)"
    using big_norm_facts [OF b(1) sub(2)] sub(1,3) b(3) by (simp_all add: r_def)
  have bd: "0 \<le> big_val b x" "big_val b x < 2 ^ (b * length x)" "0 \<le> big_val b m" "big_val b m < 2 ^ (b * length x)"
    using big_val_bounds [OF x] big_val_bounds [OF m(1)] m(2) by simp_all
  have ne: "r \<noteq> []" using r(2) b(3) by auto
  obtain n where n: "length x = Suc n" using b(3) by (cases "length x") auto
  have last: "last r = (big_val b x - big_val b m) div ?p" using last_limb [OF r(3) ne] r(1,2) by simp
  have "big_val b x - big_val b m < 2 ^ b * ?p" "- (2 ^ b * ?p) \<le> big_val b x - big_val b m" using bd by (simp_all add: n power_add)
  moreover have "- (2 ^ b * ?p) div ?p = - (2 ^ b)" using nonzero_mult_div_cancel_right [of ?p "- (2 ^ b)"] by simp
  ultimately have lt: "last r < 2 ^ b" and ge: "- (2 ^ b) \<le> last r"
    unfolding last using int_div_less [of "big_val b x - big_val b m" "2 ^ b" ?p]
      zdiv_mono1 [of "- (2 ^ b * ?p)" "big_val b x - big_val b m" ?p] by simp_all
  have "(2::int) ^ b \<le> 2 ^ 61" using b(2) by (intro power_increasing) simp_all
  then have "drop_bit 63 (last r) = (if last r < 0 then - 1 else 0)" using lt ge div_sign [of 63 "last r"] by (simp add: drop_bit_eq_div)
  moreover have "last r < 0 \<longleftrightarrow> big_val b x < big_val b m" unfolding last by (simp add: pos_imp_zdiv_neg_iff)
  ultimately show "big_cmove x r (1 - (drop_bit 63 (last r) AND 1)) = (if big_val b m \<le> big_val b x then r else x)"
    using big_cmove_eq [of x r] r(2) by auto
  show "limbs_ok b r" if "big_val b m \<le> big_val b x" by (rule limbs_ok_last [OF r(3) ne]) (use r(1,2) bd that in simp_all)
  show "length r = length x" "big_val b r = big_val b x - big_val b m" by (fact r)+
qed

lemma mod_down_mod:
  assumes b: "2 \<le> b" "b \<le> 61" "2 \<le> length x" and x: "limbs_ok b x" "big_val b x < 2 ^ k * v"
    and m: "limbs_ok b m" "length m = length x" "big_val b m = 2 ^ k * v" "0 < v"
  shows "limbs_ok b (mod_down shr b k x m) \<and> big_val b (mod_down shr b k x m) = big_val b x mod v
    \<and> length (mod_down shr b k x m) = length x"
  using b(3) x m(1-3)
proof (induction k arbitrary: x m)
  case 0
  then show ?case using big_val_bounds(1) by simp
next
  case (Suc k)
  let ?m = "shr b 1 m"
  have h: "limbs_ok b ?m" "big_val b ?m = 2 ^ k * v" "length ?m = length x" using shr_halve [of b m] Suc.prems b by simp_all
  let ?r = "big_norm b (big_sub x ?m)"
  note r = mod_down_step [OF b(1,2) Suc.prems(1,2) h(1,3)]
  define y where "y = (if big_val b ?m \<le> big_val b x then ?r else x)"
  have y: "limbs_ok b y" "length y = length x" "big_val b y < 2 ^ k * v" "big_val b y mod v = big_val b x mod v"
    using r Suc.prems(2,3) h(2) mod_diff_right_eq [of "big_val b x" "2 ^ k * v" v] by (auto simp: y_def mult.commute)
  have "mod_down shr b (Suc k) x m = mod_down shr b k y ?m" using r(1) by (simp add: y_def Let_def)
  then show ?case using Suc.IH [of y ?m] y h Suc.prems(1) by simp
qed

end

interpretation big_shifts: limb_shifts big_fshl big_fshr
proof
  fix b :: nat and ws :: big
  assume "limbs_ok b ws" "2 \<le> length ws" "2 \<le> b" "b \<le> 61" "2 * big_val b ws < 2 ^ (b * length ws)"
  then show "limbs_ok b (big_fshl b 1 ws) \<and> big_val b (big_fshl b 1 ws) = 2 * big_val b ws \<and> length (big_fshl b 1 ws) = length ws"
    using big_fshl_facts [of b ws 1] by simp
next
  fix b :: nat and ws :: big
  assume "limbs_ok b ws" "2 \<le> b" "b \<le> 61"
  then show "limbs_ok b (big_fshr b 1 ws) \<and> big_val b (big_fshr b 1 ws) = big_val b ws div 2 \<and> length (big_fshr b 1 ws) = length ws"
    using big_fshr_facts [of b ws 1] by simp
qed

interpretation dbig_shifts: limb_shifts dbig_shl dbig_shr
  by unfold_locales (use big_shifts.shl_double big_shifts.shr_halve in \<open>simp_all add: dbig_shl_eq dbig_shr_eq\<close>)

lemma big_rmod_eq:
  assumes b: "2 \<le> b" "b \<le> 61" "2 \<le> length x" and x: "limbs_loose x" "0 \<le> big_val b x" "2 * big_val b x < 2 ^ (b * length x)"
    and n: "limbs_ok b n" "length n = length x" "0 < big_val b n"
  shows "\<exists>r. big_rmod b x n = Some r \<and> limbs_ok b r \<and> big_val b r = big_val b x mod big_val b n \<and> length r = length x"
proof -
  let ?x = "big_norm b x"
  have x': "limbs_ok b ?x" "big_val b ?x = big_val b x" "length ?x = length x"
    using big_norm_ok [OF b(1) x(1) b(3) x(2)] big_norm_facts [OF b(1) x(1) b(3)] x(2,3) by simp_all
  have c: "big_comp b ?x n < 0 \<longleftrightarrow> big_val b x < big_val b n" using big_comp_eq [of ?x n b] x' n b(2) by simp
  show ?thesis
  proof (cases "big_val b x < big_val b n")
    case True
    then show ?thesis using c x' x(2) by (simp add: big_rmod_def Let_def)
  next
    case False
    have "2 \<le> length ?x" "2 * big_val b ?x < 2 ^ (b * length ?x)" "length n = length ?x" "big_val b n \<le> big_val b ?x"
      using b(3) x(3) x' n(2) False by simp_all
    from big_shifts.mod_up_ends [OF b(1,2) this(1) x'(1) this(2) n(1) this(3) n(3) this(4), of 0] obtain m j where
      m: "mod_up big_fshl b ?x n 0 = Some (m, j)" "limbs_ok b m" "length m = length ?x" "big_val b m = 2 ^ j * big_val b n" "big_val b ?x < big_val b m"
      by auto
    have "2 \<le> length ?x" "big_val b ?x < 2 ^ j * big_val b n" using b(3) x'(3) m(4,5) by simp_all
    from big_shifts.mod_down_mod [OF b(1,2) this(1) x'(1) this(2) m(2,3,4) n(3)] m(1) False c x'(2,3)
    show ?thesis by (simp add: big_rmod_def Let_def)
  qed
qed

lemma big_val_take:
  assumes "limbs_ok b ws" "big_val b ws < 2 ^ (b * n)" "n \<le> length ws"
  shows "big_val b (take n ws) = big_val b ws" "limbs_ok b (take n ws)"
proof -
  have ok: "limbs_ok b (take n ws)" "limbs_ok b (drop n ws)" using assms(1) limbs_ok_append [of b "take n ws" "drop n ws"] by simp_all
  have v: "big_val b ws = big_val b (take n ws) + 2 ^ (b * n) * big_val b (drop n ws)"
    using big_val_append [of b "take n ws" "drop n ws"] assms(3) by simp
  have "big_val b (drop n ws) = 0"
  proof (rule ccontr)
    assume "big_val b (drop n ws) \<noteq> 0"
    then have "2 ^ (b * n) * 1 \<le> 2 ^ (b * n) * big_val b (drop n ws)" using big_val_bounds(1) [OF ok(2)] by (intro mult_left_mono) simp_all
    then show False using v assms(2) big_val_bounds(1) [OF ok(1)] by linarith
  qed
  then show "big_val b (take n ws) = big_val b ws" "limbs_ok b (take n ws)" using v ok(1) by simp_all
qed

lemma dbig_dmod_eq:
  assumes b: "2 \<le> b" "b \<le> 61" "1 \<le> length c" and d: "limbs_loose d" "length d = 2 * length c" "0 \<le> big_val b d" "2 * big_val b d < 2 ^ (b * length d)"
    and c: "limbs_ok b c" "0 < big_val b c"
  shows "\<exists>r. dbig_dmod b d c = Some r \<and> limbs_ok b r \<and> big_val b r = big_val b d mod big_val b c \<and> length r = length c"
proof -
  let ?d = "big_norm b d" and ?m = "dbig_new_scopy b c"
  have l: "2 \<le> length d" using b(3) d(2) by simp
  have d': "limbs_ok b ?d" "big_val b ?d = big_val b d" "length ?d = length d"
    using big_norm_ok [OF b(1) d(1) l d(3)] big_norm_facts [OF b(1) d(1) l] d(3,4) by simp_all
  have "c \<noteq> []" using b(3) by auto
  from dbig_new_scopy_eq [OF c(1) this] have m: "limbs_ok b ?m" "big_val b ?m = big_val b c" "length ?m = length ?d"
    using c(1) d(2) d'(3) by (simp_all add: big_val_append)
  have cmp: "big_comp b ?d ?m < 0 \<longleftrightarrow> big_val b d < big_val b c" using big_comp_eq [of ?d ?m b] d' m b(2) by simp
  have take: "limbs_ok b (take (length c) r) \<and> big_val b (take (length c) r) = big_val b r \<and> length (take (length c) r) = length c"
    if "limbs_ok b r" "big_val b r < big_val b c" "length r = length d" for r
    using big_val_take [OF that(1), of "length c"] that(2,3) big_val_bounds(2) [OF c(1)] d(2) by simp
  show ?thesis
  proof (cases "big_val b d < big_val b c")
    case True
    then show ?thesis using cmp d' d(3) take [of ?d] by (simp add: dbig_dmod_def Let_def)
  next
    case False
    have "2 \<le> length ?d" "2 * big_val b ?d < 2 ^ (b * length ?d)" "0 < big_val b ?m" "big_val b ?m \<le> big_val b ?d"
      using l d(4) d' m(2) c(2) False by simp_all
    from dbig_shifts.mod_up_ends [OF b(1,2) this(1) d'(1) this(2) m(1,3) this(3,4), of 0] obtain m' j where
      m': "mod_up dbig_shl b ?d ?m 0 = Some (m', j)" "limbs_ok b m'" "length m' = length ?d" "big_val b m' = 2 ^ j * big_val b c" "big_val b ?d < big_val b m'"
      using m(2) by auto
    have "2 \<le> length ?d" "big_val b ?d < 2 ^ j * big_val b c" using l d'(3) m'(4,5) by simp_all
    note r = dbig_shifts.mod_down_mod [OF b(1,2) this(1) d'(1) this(2) m'(2,3,4) c(2)]
    then have "limbs_ok b (take (length c) (mod_down dbig_shr b j ?d m'))
        \<and> big_val b (take (length c) (mod_down dbig_shr b j ?d m')) = big_val b (mod_down dbig_shr b j ?d m')
        \<and> length (take (length c) (mod_down dbig_shr b j ?d m')) = length c"
      using c(2) d'(3) by (intro take) simp_all
    then show ?thesis using r m'(1) False cmp d'(2) by (simp add: dbig_dmod_def Let_def)
  qed
qed

subsection \<open>Octets\<close>

definition big_frombytes :: "nat \<Rightarrow> nat \<Rightarrow> nat \<Rightarrow> bytes \<Rightarrow> big option" where
  "big_frombytes b n mb bs =
     (if length bs < mb then None
      else Some (foldl (\<lambda>m c. let m' = big_fshl b 8 m in m'[0 := i64 (m' ! 0 + uint c)]) (big_new n) (take mb bs)))"

fun tobytes_loop :: "nat \<Rightarrow> nat \<Rightarrow> big \<Rightarrow> bytes" where
  "tobytes_loop b 0 c = []"
| "tobytes_loop b (Suc i) c = tobytes_loop b i (big_fshr b 8 c) @ [word_of_int (c ! 0 AND 0xff)]"

definition big_tobytes :: "nat \<Rightarrow> nat \<Rightarrow> big \<Rightarrow> bytes" where
  "big_tobytes b mb x = tobytes_loop b mb (big_norm b x)"

text \<open>Shifting by \<open>k\<close> bits leaves room for \<open>k\<close> bits in the lowest limb.\<close>

lemma shift_add:
  assumes "limbs_ok b m" "2 \<le> length m" "1 \<le> k" "k \<le> b" "b \<le> 61" "2 ^ k * big_val b m < 2 ^ (b * length m)" "0 \<le> c" "c < 2 ^ k"
  defines "r \<equiv> (let m' = big_fshl b k m in m'[0 := i64 (m' ! 0 + c)])"
  shows "limbs_ok b r" "big_val b r = 2 ^ k * big_val b m + c" "length r = length m"
proof -
  have s: "limbs_ok b (big_fshl b k m)" "big_val b (big_fshl b k m) = 2 ^ k * big_val b m" "length (big_fshl b k m) = length m"
    using big_fshl_facts [of b m k] assms(1-6) by simp_all
  obtain x vs where x: "big_fshl b k m = x # vs" using s(3) assms(2) by (cases "big_fshl b k m") auto
  have bk: "(2::int) ^ b = 2 ^ k * 2 ^ (b - k)" using assms(4) by (simp flip: power_add)
  have "(x + 2 ^ b * big_val b vs) mod 2 ^ k = 0" using s(2) unfolding x by simp
  then have "x mod 2 ^ k = 0" unfolding bk by (simp add: mult.assoc mod_add_eq [symmetric] del: mod_add_eq)
  then obtain z where z: "x = 2 ^ k * z" by (metis dvd_def mod_0_imp_dvd)
  have xb: "0 \<le> x" "x < 2 ^ b" "limbs_ok b vs" using s(1) by (simp_all add: x)
  then have "z < 2 ^ (b - k)" unfolding z bk by simp
  then have "2 ^ k * (z + 1) \<le> 2 ^ k * 2 ^ (b - k)" by (intro mult_left_mono) simp_all
  then have lim: "x + c < 2 ^ b" using assms(8) unfolding z bk by (simp add: distrib_left)
  have "i64 (x + c) = x + c" by (rule i64_lin) (use base_lin(1) [OF assms(5)] lim xb(1) assms(7) in linarith)+
  then have r: "r = (x + c) # vs" by (simp add: r_def x Let_def)
  show "limbs_ok b r" "big_val b r = 2 ^ k * big_val b m + c" "length r = length m"
    using lim xb assms(7) s(2,3) unfolding r x by simp_all
qed

lemma add_octet:
  fixes c :: u8
  assumes "limbs_ok b m" "2 \<le> length m" "8 \<le> b" "b \<le> 61" "2 ^ 8 * big_val b m < 2 ^ (b * length m)"
  defines "r \<equiv> (let m' = big_fshl b 8 m in m'[0 := i64 (m' ! 0 + uint c)])"
  shows "limbs_ok b r" "big_val b r = big_val b m * 256 + uint c" "length r = length m"
proof -
  have "uint c < 2 ^ 8" using uint_bounded [of c] by simp
  from shift_add [OF assms(1,2) _ assms(3-5) _ this]
  show "limbs_ok b r" "big_val b r = big_val b m * 256 + uint c" "length r = length m" by (simp_all add: r_def)
qed

lemma frombytes_fold:
  assumes "8 \<le> b" "b \<le> 61" "2 \<le> n" "8 * length bs \<le> b * n"
  shows "limbs_ok b (foldl (\<lambda>m c. let m' = big_fshl b 8 m in m'[0 := i64 (m' ! 0 + uint c)]) (big_new n) bs)
    \<and> big_val b (foldl (\<lambda>m c. let m' = big_fshl b 8 m in m'[0 := i64 (m' ! 0 + uint c)]) (big_new n) bs) = be_value bs
    \<and> length (foldl (\<lambda>m c. let m' = big_fshl b 8 m in m'[0 := i64 (m' ! 0 + uint c)]) (big_new n) bs) = n"
  using assms(4)
proof (induction bs rule: rev_induct)
  case Nil
  then show ?case by (simp add: big_new_def be_value_def)
next
  case (snoc c bs)
  define m where "m = foldl (\<lambda>m c. let m' = big_fshl b 8 m in m'[0 := i64 (m' ! 0 + uint c)]) (big_new n) bs"
  have IH: "limbs_ok b m" "big_val b m = be_value bs" "length m = n" using snoc by (simp_all add: m_def)
  have "2 ^ 8 * be_value bs < 256 * 256 ^ length bs" using be_value_less [of bs] by simp
  also have "\<dots> = 2 ^ (8 * length (bs @ [c]))" by (simp add: power_mult power_add)
  also have "\<dots> \<le> 2 ^ (b * n)" using snoc.prems by (intro power_increasing) simp_all
  finally have "2 ^ 8 * big_val b m < 2 ^ (b * length m)" using IH by simp
  from add_octet [OF IH(1) _ assms(1,2) this, of c] IH(2,3) assms(3)
  show ?case by (simp add: be_value_snoc flip: m_def)
qed

lemma big_frombytes_eq:
  assumes "8 \<le> b" "b \<le> 61" "2 \<le> n" "8 * mb \<le> b * n" "mb \<le> length bs"
  shows "\<exists>x. big_frombytes b n mb bs = Some x \<and> limbs_ok b x \<and> big_val b x = be_value (take mb bs) \<and> length x = n"
  using frombytes_fold [OF assms(1-3), of "take mb bs"] assms(4,5) by (simp add: big_frombytes_def)

lemma tobytes_loop_eq:
  assumes "limbs_ok b c" "c \<noteq> []" "8 \<le> b" "b \<le> 61"
  shows "tobytes_loop b n c = be_bytes n (big_val b c)"
  using assms(1,2)
proof (induction n arbitrary: c)
  case (Suc n)
  obtain x vs where x: "c = x # vs" using Suc.prems(2) by (cases c) auto
  have "(2::int) ^ b = 256 * 2 ^ (b - 8)" using assms(3) power_add [of "2::int" 8 "b - 8"] by simp
  then have v: "big_val b c mod 256 = x mod 256" by (simp add: x mult.assoc)
  have "x AND 0xff = x mod 256" using and_BMASK [of x 8] by (simp add: BMASK_def)
  moreover have "word_of_int z = (word_of_int (z mod 256) :: u8)" for z by (simp add: word_of_int_eq_iff take_bit_eq_mod)
  from this [of "big_val b c"] have "word_of_int (big_val b c) = (word_of_int (x mod 256) :: u8)" unfolding v .
  ultimately have "(word_of_int (c ! 0 AND 0xff) :: u8) = word_of_int (big_val b c)" by (simp add: x)
  moreover have f: "limbs_ok b (big_fshr b 8 c)" "big_val b (big_fshr b 8 c) = big_val b c div 2 ^ 8"
    using big_fshr_facts [OF Suc.prems(1), of 8] assms(3,4) by simp_all
  have ne: "big_fshr b 8 c \<noteq> []" using x big_fshr_length [of b 8 c] by (metis length_0_conv list.distinct(1))
  have "tobytes_loop b n (big_fshr b 8 c) = be_bytes n (big_val b c div 256)"
    using Suc.IH [OF f(1) ne] f(2) by simp
  ultimately show ?case by simp
qed simp

lemma big_tobytes_eq:
  assumes "8 \<le> b" "b \<le> 61" "2 \<le> length x" "limbs_loose x" "0 \<le> big_val b x" "big_val b x < 2 ^ (b * length x)"
  shows "big_tobytes b n x = be_bytes n (big_val b x)"
proof -
  have b: "2 \<le> b" using assms(1) by simp
  note f = big_norm_facts [OF b assms(4,3)]
  have "big_norm b x \<noteq> []" using f(2) assms(3) by auto
  from tobytes_loop_eq [OF big_norm_ok [OF b assms(4,3,5,6)] this assms(1,2)] f(1) show ?thesis by (simp add: big_tobytes_def)
qed

end
