(* ===== verification/QC_BigMul.thy ===== *)
theory QC_BigMul
  imports QC_Big
begin

text \<open>
  Multiplication of big numbers (\<open>mul\<close> of \<open>big.rs\<close>): column by column, with one product per pair of indices
  instead of two.  The columns are those of the schoolbook method and no intermediate sum leaves the \<open>i128\<close> accumulator.
\<close>

unbundle bit_operations_syntax

subsection \<open>Multiplying\<close>

text \<open>The inner loop of \<open>mul\<close>: what is missing of column \<open>k\<close> when the products of equal indices have been added.\<close>

definition mul_terms :: "big \<Rightarrow> big \<Rightarrow> nat \<Rightarrow> int \<Rightarrow> nat list \<Rightarrow> int" where
  "mul_terms x y k = foldl (\<lambda>t i. i128 (t + i128 (i64 (x ! i - x ! (k - i)) * i64 (y ! (k - i) - y ! i))))"

definition mul_low :: "nat \<Rightarrow> big \<Rightarrow> big \<Rightarrow> int list \<Rightarrow> int \<times> int \<times> big \<Rightarrow> nat \<Rightarrow> int \<times> int \<times> big" where
  "mul_low b x y d = (\<lambda>(s, t, c) k.
     let s' = i128 (s + d ! k); t' = mul_terms x y k (i128 (t + s')) [1 + k div 2..<k + 1]
     in (s', drop_bit b t', c @ [i64 (t' AND BMASK b)]))"

definition mul_high :: "nat \<Rightarrow> big \<Rightarrow> big \<Rightarrow> int list \<Rightarrow> int \<times> int \<times> big \<Rightarrow> nat \<Rightarrow> int \<times> int \<times> big" where
  "mul_high b x y d = (\<lambda>(s, t, c) k.
     let s' = i128 (s - d ! (k - length x)); t' = mul_terms x y k (i128 (t + s')) [1 + k div 2..<length x]
     in (s', drop_bit b t', c @ [i64 (t' AND BMASK b)]))"

definition big_mul :: "nat \<Rightarrow> big \<Rightarrow> big \<Rightarrow> big" where
  "big_mul b x y =
     (let n = length x; d = map2 (\<lambda>v w. i128 (v * w)) x y; t = d ! 0;
          low = foldl (mul_low b x y d) (t, drop_bit b t, [i64 (t AND BMASK b)]) [1..<n];
          (s, t', c) = foldl (mul_high b x y d) low [n..<2 * n - 1]
      in c @ [i64 t'])"

text \<open>The columns of the product, and how the code computes them.\<close>

definition column :: "big \<Rightarrow> big \<Rightarrow> nat \<Rightarrow> int" where
  "column x y k = (\<Sum>i = k + 1 - length x..<Suc (k - (k + 1 - length x)). x ! i * y ! (k - i))"

lemma sum_two_ends:
  fixes f :: "nat \<Rightarrow> int"
  assumes "l < u"
  shows "(\<Sum>i = l..<Suc u. f i) = f l + f u + (\<Sum>i = Suc l..<u. f i)"
  using assms by (simp add: sum.atLeast_Suc_lessThan)

lemma karatsuba_column:
  fixes x y :: "nat \<Rightarrow> int"
  assumes "l + u = k" "l \<le> Suc u"
  shows "(\<Sum>i = l..<Suc u. x i * y (k - i)) = (\<Sum>i = l..<Suc u. x i * y i)
    + (\<Sum>i = 1 + k div 2..<Suc u. (x i - x (k - i)) * (y (k - i) - y i))"
  using assms
proof (induction "u - l" arbitrary: l u rule: less_induct)
  case less
  consider "l = Suc u" | "l = u" | "l < u" using less.prems(2) by linarith
  then show ?case
  proof cases
    case 1
    then have "1 + k div 2 = Suc u" using less.prems(1) by simp
    then show ?thesis using 1 by simp
  next
    case 2
    then have "k = 2 * u" using less.prems(1) by simp
    then show ?thesis using 2 by simp
  next
    case 3
    then obtain v where v: "u = Suc v" by (cases u) auto
    have k: "k - l = u" "k - u = l" "k div 2 < u" using less.prems(1) 3 by auto
    have IH: "(\<Sum>i = Suc l..<u. x i * y (k - i)) = (\<Sum>i = Suc l..<u. x i * y i)
        + (\<Sum>i = 1 + k div 2..<u. (x i - x (k - i)) * (y (k - i) - y i))"
      using less.hyps [of v "Suc l"] less.prems(1) 3 v by simp
    have "(\<Sum>i = 1 + k div 2..<Suc u. (x i - x (k - i)) * (y (k - i) - y i))
        = (\<Sum>i = 1 + k div 2..<u. (x i - x (k - i)) * (y (k - i) - y i)) + (x u - x l) * (y l - y u)"
      using k by simp
    then show ?thesis using IH k sum_two_ends [OF 3, of "\<lambda>i. x i * y (k - i)"] sum_two_ends [OF 3, of "\<lambda>i. x i * y i"]
      by (simp add: algebra_simps)
  qed
qed

lemma big_val_sum: "big_val b ws = (\<Sum>i<length ws. ws ! i * 2 ^ (b * i))"
proof (induction ws)
  case (Cons x ws)
  have "(\<Sum>i<length (x # ws). (x # ws) ! i * 2 ^ (b * i)) = x + (\<Sum>i<length ws. ws ! i * 2 ^ (b * Suc i))"
    by (simp only: length_Cons sum.lessThan_Suc_shift) simp
  also have "\<dots> = x + 2 ^ b * (\<Sum>i<length ws. ws ! i * 2 ^ (b * i))" by (simp add: sum_distrib_left power_add mult_ac)
  finally show ?case using Cons by simp
qed simp

lemma product_columns:
  assumes "length x = n" "length y = n" "0 < n"
  shows "big_val b x * big_val b y = (\<Sum>k<2 * n - 1. column x y k * 2 ^ (b * k))"
proof -
  let ?S = "{..<n} \<times> {..<n}" and ?h = "\<lambda>(i, j). x ! i * y ! j * 2 ^ (b * (i + j))"
  have "big_val b x * big_val b y = (\<Sum>i<n. \<Sum>j<n. x ! i * 2 ^ (b * i) * (y ! j * 2 ^ (b * j)))"
    unfolding big_val_sum assms(1,2) by (rule sum_product)
  also have "\<dots> = sum ?h ?S" by (simp add: sum.cartesian_product power_add distrib_left mult_ac)
  also have "\<dots> = (\<Sum>k<2 * n - 1. sum ?h {p \<in> ?S. fst p + snd p = k})"
    by (rule sum.group [symmetric]) (use assms(3) in auto)
  also have "\<dots> = (\<Sum>k<2 * n - 1. column x y k * 2 ^ (b * k))"
  proof (rule sum.cong [OF refl])
    fix k assume "k \<in> {..<2 * n - 1}"
    have "sum ?h {p \<in> ?S. fst p + snd p = k} = (\<Sum>i = k + 1 - n..<Suc (k - (k + 1 - n)). x ! i * y ! (k - i) * 2 ^ (b * k))"
      by (rule sum.reindex_bij_witness [where i = "\<lambda>i. (i, k - i)" and j = fst]) (use \<open>k \<in> _\<close> in auto)
    then show "sum ?h {p \<in> ?S. fst p + snd p = k} = column x y k * 2 ^ (b * k)"
      by (simp only: column_def assms(1) sum_distrib_right)
  qed
  finally show ?thesis .
qed

text \<open>Without overflow, the inner loop completes the column.\<close>

lemma digit_terms:
  assumes "limbs_ok b x" "limbs_ok b y" "b \<le> 60" "i < length x" "j < length x" "length y = length x"
  shows "i128 (i64 (x ! i - x ! j) * i64 (y ! j - y ! i)) = (x ! i - x ! j) * (y ! j - y ! i)"
    "\<bar>(x ! i - x ! j) * (y ! j - y ! i)\<bar> \<le> 2 ^ (2 * b)"
proof -
  have d: "0 \<le> w ! l \<and> w ! l < 2 ^ b" if "limbs_ok b w" "l < length w" for w l using that by (auto simp: limbs_ok_def)
  have x: "\<bar>x ! i - x ! j\<bar> \<le> 2 ^ b" and y: "\<bar>y ! j - y ! i\<bar> \<le> 2 ^ b"
    using d [OF assms(1,4)] d [OF assms(1,5)] d [OF assms(2), of i] d [OF assms(2), of j] assms(4-6) by auto
  have "\<bar>x ! i - x ! j\<bar> * \<bar>y ! j - y ! i\<bar> \<le> 2 ^ b * 2 ^ b" by (intro mult_mono x y) simp_all
  then show p: "\<bar>(x ! i - x ! j) * (y ! j - y ! i)\<bar> \<le> 2 ^ (2 * b)" by (simp add: abs_mult mult_2 power_add)
  have "b \<le> 61" using assms(3) by simp
  note b61 = base_lin(1) [OF this]
  have e: "i64 (x ! i - x ! j) = x ! i - x ! j" by (rule i64_lin) (use x b61 in linarith)+
  have e': "i64 (y ! j - y ! i) = y ! j - y ! i" by (rule i64_lin) (use y b61 in linarith)+
  show "i128 (i64 (x ! i - x ! j) * i64 (y ! j - y ! i)) = (x ! i - x ! j) * (y ! j - y ! i)"
    unfolding e e' by (rule i128_lin) (use p base_lin(2) [OF assms(3)] in linarith)+
qed

lemma mul_terms_sum:
  assumes ok: "limbs_ok b x" "limbs_ok b y" "b \<le> 60" "length y = length x"
    and js: "\<forall>i\<in>set js. i < length x \<and> k - i < length x" "\<bar>t\<bar> + int (length js) * 2 ^ (2 * b) < 170141183460469231731687303715884105728"
  shows "mul_terms x y k t js = t + (\<Sum>i\<leftarrow>js. (x ! i - x ! (k - i)) * (y ! (k - i) - y ! i))"
  using js
proof (induction js arbitrary: t)
  case Nil
  then show ?case by (simp add: mul_terms_def)
next
  case (Cons i js)
  let ?T = "(x ! i - x ! (k - i)) * (y ! (k - i) - y ! i)"
  have i: "i < length x" "k - i < length x" using Cons.prems(1) by simp_all
  note T = digit_terms [OF ok(1-3) i ok(4)]
  have "int (length (i # js)) * 2 ^ (2 * b) = 2 ^ (2 * b) + int (length js) * (2 ^ (2 * b) :: int)" by (simp add: algebra_simps)
  moreover have "0 \<le> int (length js) * (2 ^ (2 * b) :: int)" by simp
  ultimately have b: "\<bar>t + ?T\<bar> + int (length js) * 2 ^ (2 * b) < 170141183460469231731687303715884105728"
      "- 170141183460469231731687303715884105728 \<le> t + ?T" "t + ?T < 170141183460469231731687303715884105728"
    using T(2) Cons.prems(2) by linarith+
  have "mul_terms x y k t (i # js) = mul_terms x y k (t + ?T) js" using i128_lin [OF b(2,3)] by (simp add: mul_terms_def T(1))
  also have "\<dots> = t + ?T + (\<Sum>i\<leftarrow>js. (x ! i - x ! (k - i)) * (y ! (k - i) - y ! i))" using Cons.IH [OF _ b(1)] Cons.prems(1) by simp
  finally show ?case by simp
qed

definition equal_products :: "big \<Rightarrow> big \<Rightarrow> nat \<Rightarrow> int" where
  "equal_products x y k = (\<Sum>i = k - length x..<k - (k - length x). x ! i * y ! i)"

definition mul_inv :: "nat \<Rightarrow> big \<Rightarrow> big \<Rightarrow> nat \<Rightarrow> int \<times> int \<times> big \<Rightarrow> bool" where
  "mul_inv b x y k = (\<lambda>(s, t, c). s = equal_products x y k \<and> 0 \<le> t \<and> t < 2 ^ (2 * b) \<and> length c = k \<and> limbs_ok b c
     \<and> big_val b c + 2 ^ (b * k) * t = (\<Sum>j<k. column x y j * 2 ^ (b * j)))"

lemma digit_sum_bounds:
  fixes f :: "nat \<Rightarrow> int"
  assumes "\<forall>i\<in>{l..<u}. 0 \<le> f i \<and> f i \<le> m" "u - l \<le> n" "0 \<le> m"
  shows "0 \<le> (\<Sum>i = l..<u. f i)" "(\<Sum>i = l..<u. f i) \<le> int n * m"
proof -
  show "0 \<le> (\<Sum>i = l..<u. f i)" using assms(1) by (intro sum_nonneg) auto
  have "(\<Sum>i = l..<u. f i) \<le> of_nat (card {l..<u}) * m" using assms(1) by (intro sum_bounded_above) auto
  also have "\<dots> \<le> int n * m" using assms(2,3) by (intro mult_right_mono) simp_all
  finally show "(\<Sum>i = l..<u. f i) \<le> int n * m" .
qed

lemma digit_product:
  assumes "limbs_ok b x" "limbs_ok b y" "i < length x" "j < length y"
  shows "0 \<le> x ! i * y ! j \<and> x ! i * y ! j \<le> 2 ^ (2 * b)"
proof -
  have "0 \<le> x ! i" "x ! i \<le> 2 ^ b" "0 \<le> y ! j" "y ! j \<le> 2 ^ b" using assms by (auto simp: limbs_ok_def dest!: nth_mem)
  then show ?thesis using mult_mono [of "x ! i" "2 ^ b" "y ! j" "2 ^ b"] by (simp add: mult_2 power_add)
qed

lemma mul_column:
  assumes ok: "limbs_ok b x" "limbs_ok b y" "5 \<le> b" "b \<le> 60" "length y = length x" "1 \<le> length x" "length x \<le> 16"
    and k: "k < 2 * length x - 1" and inv: "mul_inv b x y k (s0, t, c)"
  defines "s \<equiv> equal_products x y (Suc k)"
  defines "t' \<equiv> mul_terms x y k (i128 (t + s)) [1 + k div 2..<Suc k - (Suc k - length x)]"
  shows "t' = t + column x y k" "mul_inv b x y (Suc k) (s, drop_bit b t', c @ [i64 (t' AND BMASK b)])" "i128 s = s"
proof -
  let ?n = "length x" and ?l = "k + 1 - length x" and ?M = "2 ^ (2 * b) :: int"
  let ?u = "k - ?l"
  have lu: "?l + ?u = k" "?l \<le> Suc ?u" "Suc ?u - ?l \<le> ?n" "Suc k - (Suc k - ?n) = Suc ?u" using k ok(6) by auto
  have idx: "i < ?n \<and> k - i < ?n" if "i \<in> {?l..<Suc ?u}" for i using that k ok(6) by auto
  have M: "0 \<le> ?M" "?M \<le> 1329227995784915872903807060280344576" "17 * 2 ^ b \<le> ?M"
  proof -
    show "?M \<le> 1329227995784915872903807060280344576" by (rule base_lin(2) [OF ok(4)])
    have "(17::int) \<le> 2 ^ 5" by simp
    also have "(2::int) ^ 5 \<le> 2 ^ b" using ok(3) by (intro power_increasing) simp_all
    finally have "17 * 2 ^ b \<le> 2 ^ b * (2 ^ b :: int)" by (intro mult_right_mono) simp_all
    then show "17 * 2 ^ b \<le> ?M" by (simp add: mult_2 power_add)
  qed simp
  have s: "s = (\<Sum>i = ?l..<Suc ?u. x ! i * y ! i)" unfolding s_def equal_products_def lu(4) by simp
  have sb: "0 \<le> s" "s \<le> int ?n * ?M" unfolding s
    by (rule digit_sum_bounds [OF _ lu(3) M(1)]; use idx digit_product [OF ok(1,2)] ok(5) in auto)+
  have cb: "0 \<le> column x y k" "column x y k \<le> int ?n * ?M" unfolding column_def
    by (rule digit_sum_bounds [OF _ lu(3) M(1)]; use idx digit_product [OF ok(1,2)] ok(5) in auto)+
  have nM: "int ?n * ?M \<le> 16 * ?M" using ok(7) M(1) by (intro mult_right_mono) simp_all
  have t: "0 \<le> t" "t < ?M" "length c = k" "limbs_ok b c" "big_val b c + 2 ^ (b * k) * t = (\<Sum>j<k. column x y j * 2 ^ (b * j))"
    using inv by (simp_all add: mul_inv_def)
  show "i128 s = s" by (rule i128_lin) (use sb nM M(2) in linarith)+
  have ts: "i128 (t + s) = t + s" by (rule i128_lin) (use t(1,2) sb nM M(2) in linarith)+
  let ?js = "[1 + k div 2..<Suc ?u]"
  have "2 * ?l \<le> Suc k" using lu(1,2) by linarith
  then have "?l \<le> 1 + k div 2" by linarith
  then have js: "\<forall>i\<in>set ?js. i < ?n \<and> k - i < ?n" using idx by auto
  have "length ?js = Suc ?u - (1 + k div 2)" by (rule length_upt)
  also have "\<dots> \<le> Suc ?u - ?l" by (rule diff_le_mono2) fact
  finally have "length ?js \<le> 16" using lu(3) ok(7) by linarith
  then have "int (length ?js) * ?M \<le> 16 * ?M" using M(1) by (intro mult_right_mono) simp_all
  then have bound: "\<bar>t + s\<bar> + int (length ?js) * ?M < 170141183460469231731687303715884105728" using t(1,2) sb nM M(2) by linarith
  have "t' = t + s + (\<Sum>i = 1 + k div 2..<Suc ?u. (x ! i - x ! (k - i)) * (y ! (k - i) - y ! i))"
    unfolding t'_def lu(4) ts mul_terms_sum [OF ok(1,2,4,5) js bound] by (simp only: interv_sum_list_conv_sum_set_nat set_upt)
  then show t': "t' = t + column x y k" unfolding s column_def karatsuba_column [OF lu(1,2), of "(!) x" "(!) y"] by simp
  have tb: "0 \<le> t'" "t' < 17 * ?M" using t' t(1,2) cb nM by linarith+
  have "t' div 2 ^ b < 17 * 2 ^ b" by (rule int_div_less) (use tb(2) in \<open>simp_all add: mult_2 power_add mult.assoc\<close>)
  then have q: "0 \<le> t' div 2 ^ b" "t' div 2 ^ b < ?M" using tb(1) M(3) by (simp add: pos_imp_zdiv_nonneg_iff, linarith)
  have "0 \<le> t' mod 2 ^ b" "t' mod 2 ^ b < 2 ^ b" "(2::int) ^ b \<le> 2305843009213693952" using base_lin(1) [of b] ok(4) by simp_all
  then have r: "i64 (t' mod 2 ^ b) = t' mod 2 ^ b" by (intro i64_lin) linarith+
  have "big_val b (c @ [t' mod 2 ^ b]) + 2 ^ (b * Suc k) * (t' div 2 ^ b) = big_val b c + 2 ^ (b * k) * t'"
    using t(3) mult_split [of "2 ^ (b * k)" t' "2 ^ b"] by (simp add: big_val_append power_add mult.assoc)
  also have "\<dots> = big_val b c + 2 ^ (b * k) * t + column x y k * 2 ^ (b * k)" by (simp add: t' algebra_simps)
  finally show "mul_inv b x y (Suc k) (s, drop_bit b t', c @ [i64 (t' AND BMASK b)])"
    unfolding mul_inv_def using t q by (simp add: s_def r drop_bit_eq_div)
qed

lemma equal_products_Suc:
  assumes "k < 2 * length x - 1"
  shows "equal_products x y (Suc k) = (if k < length x then equal_products x y k + x ! k * y ! k
    else equal_products x y k - x ! (k - length x) * y ! (k - length x))"
proof (cases "k < length x")
  case False
  then have "equal_products x y k = x ! (k - length x) * y ! (k - length x) + equal_products x y (Suc k)"
    using assms by (simp add: equal_products_def sum.atLeast_Suc_lessThan Suc_diff_le)
  then show ?thesis using False by simp
qed (simp add: equal_products_def)

text \<open>After the last column the carry is the top limb.\<close>

lemma mul_inv_final:
  assumes ok: "limbs_ok b x" "limbs_ok b y" "b \<le> 60" "length y = length x" "1 \<le> length x"
    and r: "mul_inv b x y (2 * length x - 1) (s, t, c)"
  shows "limbs_ok b (c @ [i64 t])" "big_val b (c @ [i64 t]) = big_val b x * big_val b y" "length (c @ [i64 t]) = 2 * length x"
proof -
  let ?n = "length x"
  have n0: "0 < ?n" using ok(5) by linarith
  let ?p = "2 ^ (b * (2 * ?n - 1)) :: int"
  have c: "0 \<le> t" "length c = 2 * ?n - 1" "limbs_ok b c" "big_val b c + ?p * t = big_val b x * big_val b y"
    using r product_columns [OF refl ok(4) n0, of b] by (simp_all add: mul_inv_def)
  have "big_val b x * big_val b y < 2 ^ (b * ?n) * 2 ^ (b * ?n)"
    using big_val_bounds [OF ok(1)] big_val_bounds [OF ok(2)] ok(4) by (intro mult_strict_mono) simp_all
  also have "\<dots> = ?p * 2 ^ b" using ok(5) by (simp flip: power_add) (simp add: algebra_simps)
  finally have "?p * t < ?p * 2 ^ b" using c(4) big_val_bounds(1) [OF c(3)] by linarith
  then have t: "t < 2 ^ b" by simp
  have "b \<le> 61" using ok(3) by simp
  then have eq: "i64 t = t" by (intro i64_lin) (use base_lin(1) [of b] t c(1) in linarith)+
  show "limbs_ok b (c @ [i64 t])" "length (c @ [i64 t]) = 2 * length x" using c t ok(5) by (simp_all add: eq)
  show "big_val b (c @ [i64 t]) = big_val b x * big_val b y" using c(2,4) by (simp add: eq big_val_append)
qed

lemma mul_two_pred: "1 \<le> n \<Longrightarrow> n \<le> 2 * n - (1 :: nat)"
  by simp

lemma mul_products:
  assumes ok: "limbs_ok b x" "limbs_ok b y" "b \<le> 60" "length y = length x" and i: "i < length x"
  shows "map2 (\<lambda>v w. i128 (v * w)) x y ! i = x ! i * y ! i" "i128 (x ! i * y ! i) = x ! i * y ! i"
proof -
  have "0 \<le> x ! i * y ! i" "x ! i * y ! i \<le> 2 ^ (2 * b)" using digit_product [OF ok(1,2) i, of i] i ok(4) by simp_all
  then show "i128 (x ! i * y ! i) = x ! i * y ! i" by (intro i128_lin) (use base_lin(2) [OF ok(3)] in linarith)+
  then show "map2 (\<lambda>v w. i128 (v * w)) x y ! i = x ! i * y ! i" using i ok(4) by simp
qed

text \<open>A round of either loop adds a column.\<close>

lemma mul_rounds:
  assumes ok: "limbs_ok b x" "limbs_ok b y" "5 \<le> b" "b \<le> 60" "length y = length x" "1 \<le> length x" "length x \<le> 16"
    and inv: "mul_inv b x y k st"
  defines "d \<equiv> map2 (\<lambda>v w. i128 (v * w)) x y"
  shows "k < length x \<Longrightarrow> mul_inv b x y (Suc k) (mul_low b x y d st k)"
    "length x \<le> k \<Longrightarrow> k < 2 * length x - 1 \<Longrightarrow> mul_inv b x y (Suc k) (mul_high b x y d st k)"
proof -
  let ?n = "length x"
  obtain s t c where st: "st = (s, t, c)" by (cases st)
  have s: "s = equal_products x y k" using inv by (simp add: st mul_inv_def)
  note col = mul_column [OF ok _ inv [unfolded st]] and d = mul_products(1) [OF ok(1,2,4,5), folded d_def]
  show "mul_inv b x y (Suc k) (mul_low b x y d st k)" if "k < ?n"
  proof -
    have k: "k < 2 * ?n - 1" using that by simp
    have "s + d ! k = equal_products x y (Suc k)" using equal_products_Suc [OF k, of y] that d s by simp
    then show ?thesis using col(2,3) [OF k] that by (simp add: mul_low_def st Let_def)
  qed
  show "mul_inv b x y (Suc k) (mul_high b x y d st k)" if "?n \<le> k" "k < 2 * ?n - 1"
  proof -
    have "s - d ! (k - ?n) = equal_products x y (Suc k)" using equal_products_Suc [OF that(2), of y] that d [of "k - ?n"] s by simp
    then show ?thesis using col(2,3) [OF that(2)] that by (simp add: mul_high_def st Let_def)
  qed
qed

lemma big_mul_eq:
  assumes ok: "limbs_ok b x" "limbs_ok b y" "5 \<le> b" "b \<le> 60" "length y = length x" "2 \<le> length x" "length x \<le> 16"
  shows "limbs_ok b (big_mul b x y)" "big_val b (big_mul b x y) = big_val b x * big_val b y" "length (big_mul b x y) = 2 * length x"
proof -
  let ?n = "length x"
  define d where "d = map2 (\<lambda>v w. i128 (v * w)) x y"
  have n1: "1 \<le> ?n" and n0: "0 < ?n" using ok(6) by linarith+
  note low = mul_rounds(1) [OF ok(1-5) n1 ok(7), folded d_def] and high = mul_rounds(2) [OF ok(1-5) n1 ok(7), folded d_def]
  have di: "i128 (d ! 0) = d ! 0" using mul_products [OF ok(1,2,4,5) n0] by (simp add: d_def)
  have "mul_inv b x y 0 (0, 0, [])" by (simp add: mul_inv_def equal_products_def)
  from low [OF this n0] have "mul_inv b x y 1 (mul_low b x y d (0, 0, []) 0)" by simp
  moreover have "mul_low b x y d (0, 0, []) 0 = (d ! 0, drop_bit b (d ! 0), [i64 (d ! 0 AND BMASK b)])"
    using di by (simp add: mul_low_def mul_terms_def Let_def)
  ultimately have st: "mul_inv b x y 1 (d ! 0, drop_bit b (d ! 0), [i64 (d ! 0 AND BMASK b)])" by simp
  have "mul_inv b x y k (foldl (mul_low b x y d) (d ! 0, drop_bit b (d ! 0), [i64 (d ! 0 AND BMASK b)]) [1..<k])" if "1 \<le> k" "k \<le> ?n" for k
    using that
  proof (induction k rule: nat_induct_at_least)
    case (Suc k)
    then show ?case using low [of k] by simp
  qed (use st in simp)
  from this [OF n1 order_refl] obtain z where z: "mul_inv b x y ?n z"
      "z = foldl (mul_low b x y d) (d ! 0, drop_bit b (d ! 0), [i64 (d ! 0 AND BMASK b)]) [1..<?n]" by blast
  have "mul_inv b x y k (foldl (mul_high b x y d) z [?n..<k])" if "?n \<le> k" "k \<le> 2 * ?n - 1" for k
    using that
  proof (induction k rule: nat_induct_at_least)
    case (Suc k)
    then show ?case using high [of k] by simp
  qed (use z in simp)
  moreover obtain s t c where e: "foldl (mul_high b x y d) z [?n..<2 * ?n - 1] = (s, t, c)" by (rule prod_cases3)
  ultimately have r: "mul_inv b x y (2 * ?n - 1) (s, t, c)" using n1 by (metis (no_types, lifting) mul_two_pred order_refl)
  have eq: "big_mul b x y = c @ [i64 t]" unfolding big_mul_def Let_def d_def [symmetric] z(2) [symmetric] e by simp
  show "limbs_ok b (big_mul b x y)" "big_val b (big_mul b x y) = big_val b x * big_val b y" "length (big_mul b x y) = 2 * length x"
    unfolding eq by (rule mul_inv_final [OF ok(1,2,4,5) n1 r])+
qed

end
