(* ===== verification/QC_BigSqr.thy ===== *)
theory QC_BigSqr
  imports QC_BigMul
begin

text \<open>
  Squaring of big numbers (\<open>sqr\<close> of \<open>big.rs\<close>): the columns of the product of a number with itself, each cross
  product computed once and doubled.  The columns are handled in pairs, an odd one and an even one, in two loops.
\<close>

unbundle bit_operations_syntax

subsection \<open>The algorithm\<close>

text \<open>The sum of the products \<open>x (j - i) * x i\<close> of column \<open>j\<close> with \<open>i < j - i\<close>, from the outermost pair.\<close>

definition sqr_cross :: "big \<Rightarrow> nat \<Rightarrow> nat \<Rightarrow> nat \<Rightarrow> int" where
  "sqr_cross x hi lo j = foldl (\<lambda>t i. i128 (t + i128 (x ! (j - i) * x ! i))) (i128 (x ! hi * x ! lo)) [lo + 1..<(j + 1) div 2]"

definition sqr_put :: "nat \<Rightarrow> nat \<Rightarrow> int \<Rightarrow> big \<Rightarrow> int \<times> big" where
  "sqr_put b j t c = (drop_bit b t, c[j := i64 (t AND BMASK b)])"

definition sqr_odd :: "nat \<Rightarrow> big \<Rightarrow> nat \<Rightarrow> nat \<Rightarrow> nat \<Rightarrow> int \<times> big \<Rightarrow> int \<times> big" where
  "sqr_odd b x hi lo j = (\<lambda>(co, c).
     let t = sqr_cross x hi lo j in sqr_put b j (i128 (i128 (t + t) + co)) c)"

definition sqr_even :: "nat \<Rightarrow> big \<Rightarrow> nat \<Rightarrow> nat \<Rightarrow> nat \<Rightarrow> int \<times> big \<Rightarrow> int \<times> big" where
  "sqr_even b x hi lo j = (\<lambda>(co, c).
     let t = sqr_cross x hi lo j; t = i128 (i128 (t + t) + co)
     in sqr_put b j (i128 (t + i128 (x ! (j div 2) * x ! (j div 2)))) c)"

function sqr_low :: "nat \<Rightarrow> big \<Rightarrow> nat \<Rightarrow> int \<times> big \<Rightarrow> int \<times> big" where
  "sqr_low b x j st =
     (if j < length x - 1 then sqr_low b x (j + 2) (sqr_even b x (j + 1) 0 (j + 1) (sqr_odd b x j 0 j st)) else st)"
  by pat_completeness auto
termination by (relation "measure (\<lambda>(b, x, j, st). length x - j)") auto

function sqr_high :: "nat \<Rightarrow> big \<Rightarrow> nat \<Rightarrow> int \<times> big \<Rightarrow> int \<times> big" where
  "sqr_high b x j st =
     (let n = length x in
      if j < 2 * n - 3
      then sqr_high b x (j + 2) (sqr_even b x (n - 1) (j + 2 - n) (j + 1) (sqr_odd b x (n - 1) (j + 1 - n) j st)) else st)"
  by pat_completeness auto
termination by (relation "measure (\<lambda>(b, x, j, st). 2 * length x - j)") auto

definition big_sqr :: "nat \<Rightarrow> big \<Rightarrow> big" where
  "big_sqr b x =
     (let n = length x;
          st = sqr_low b x 1 (sqr_put b 0 (i128 (x ! 0 * x ! 0)) (big_new (2 * n)));
          (co, c) = sqr_high b x (n + n mod 2 - 1) st;
          t = i128 (x ! (n - 2) * x ! (n - 1));
          (co, c) = sqr_put b (2 * n - 3) (i128 (i128 (t + t) + co)) c;
          (co, c) = sqr_put b (2 * n - 2) (i128 (i128 (x ! (n - 1) * x ! (n - 1)) + co)) c
      in c[2 * n - 1 := i64 co])"

declare sqr_low.simps [simp del] sqr_high.simps [simp del]

subsection \<open>It computes the columns of the square\<close>

lemma square_column:
  fixes x :: "nat \<Rightarrow> int"
  assumes "l + u = k" "l \<le> Suc u"
  shows "(\<Sum>i = l..<Suc u. x i * x (k - i)) = 2 * (\<Sum>i = l..<(k + 1) div 2. x (k - i) * x i) + (if even k then x (k div 2) * x (k div 2) else 0)"
  using assms
proof (induction "u - l" arbitrary: l u rule: less_induct)
  case less
  consider "l = Suc u" | "l = u" | "l < u" using less.prems(2) by linarith
  then show ?case
  proof cases
    case 1
    then have "k = 2 * u + 1" using less.prems(1) by simp
    then show ?thesis using 1 by simp
  next
    case 2
    then have "k = 2 * u" using less.prems(1) by simp
    then show ?thesis using 2 by simp
  next
    case 3
    then obtain v where v: "u = Suc v" by (cases u) auto
    have k: "k - l = u" "k - u = l" "l < (k + 1) div 2" using less.prems(1) 3 by auto
    have "(\<Sum>i = Suc l..<u. x i * x (k - i)) = 2 * (\<Sum>i = Suc l..<(k + 1) div 2. x (k - i) * x i) + (if even k then x (k div 2) * x (k div 2) else 0)"
      using less.hyps [of v "Suc l"] less.prems(1) 3 v by simp
    then show ?thesis using k sum_two_ends [OF 3, of "\<lambda>i. x i * x (k - i)"] by (simp add: sum.atLeast_Suc_lessThan algebra_simps)
  qed
qed

lemma cross_fold:
  assumes x: "limbs_ok b x" "b \<le> 60" and js: "\<forall>i\<in>set js. i < length x \<and> j - i < length x"
    and t: "0 \<le> t" "t + int (length js) * 2 ^ (2 * b) < 170141183460469231731687303715884105728"
  shows "foldl (\<lambda>t i. i128 (t + i128 (x ! (j - i) * x ! i))) t js = t + (\<Sum>i\<leftarrow>js. x ! (j - i) * x ! i)"
  using js t
proof (induction js arbitrary: t)
  case (Cons i js)
  let ?T = "x ! (j - i) * x ! i"
  have T: "0 \<le> ?T" "?T \<le> 2 ^ (2 * b)" using digit_product [OF x(1,1), of "j - i" i] Cons.prems(1) by simp_all
  have "int (length (i # js)) * 2 ^ (2 * b) = 2 ^ (2 * b) + int (length js) * (2 ^ (2 * b) :: int)" by (simp add: algebra_simps)
  moreover have "0 \<le> int (length js) * (2 ^ (2 * b) :: int)" by simp
  ultimately have bd: "t + ?T + int (length js) * 2 ^ (2 * b) < 170141183460469231731687303715884105728" "t + ?T < 170141183460469231731687303715884105728"
    using T Cons.prems(2,3) by linarith+
  have e: "i128 ?T = ?T" by (rule i128_lin) (use T base_lin(2) [OF x(2)] in linarith)+
  have e': "i128 (t + ?T) = t + ?T" by (rule i128_lin) (use T(1) Cons.prems(2) bd in linarith)+
  have "foldl (\<lambda>t i. i128 (t + i128 (x ! (j - i) * x ! i))) (t + ?T) js = t + ?T + (\<Sum>i\<leftarrow>js. x ! (j - i) * x ! i)"
    by (rule Cons.IH) (use Cons.prems T(1) bd in auto)
  then show ?case by (simp add: e e')
qed simp

lemma sqr_cross_sum:
  assumes x: "limbs_ok b x" "b \<le> 60" "length x \<le> 16"
    and j: "1 \<le> j" "j < 2 * length x - 2" "lo = j + 1 - length x" "hi = j - lo"
  shows "sqr_cross x hi lo j = (\<Sum>i = lo..<(j + 1) div 2. x ! (j - i) * x ! i)"
    "0 \<le> sqr_cross x hi lo j" "sqr_cross x hi lo j \<le> 16 * 2 ^ (2 * b)"
proof -
  let ?M = "2 ^ (2 * b) :: int" and ?js = "[lo + 1..<(j + 1) div 2]"
  have M: "0 \<le> ?M" "?M \<le> 1329227995784915872903807060280344576" using base_lin(2) [OF x(2)] by simp_all
  have idx: "i < length x \<and> j - i < length x" if "i \<in> {lo..<(j + 1) div 2}" for i using that j by auto
  have lo: "lo < (j + 1) div 2" "lo < length x" "hi < length x" using j by auto
  have T: "0 \<le> x ! hi * x ! lo" "x ! hi * x ! lo \<le> ?M" using digit_product [OF x(1,1) lo(3,2)] by simp_all
  then have e: "i128 (x ! hi * x ! lo) = x ! hi * x ! lo" using M(2) by (intro i128_lin) linarith+
  have "length ?js \<le> 15" using j x(3) by simp
  then have "int (length ?js) * ?M \<le> 15 * ?M" using M(1) by (intro mult_right_mono) simp_all
  then have b: "x ! hi * x ! lo + int (length ?js) * ?M < 170141183460469231731687303715884105728" using T(2) M(2) by linarith
  have "sqr_cross x hi lo j = x ! hi * x ! lo + (\<Sum>i\<leftarrow>?js. x ! (j - i) * x ! i)"
    unfolding sqr_cross_def e by (rule cross_fold [OF x(1,2) _ T(1) b]) (use idx in auto)
  also have "\<dots> = x ! (j - lo) * x ! lo + (\<Sum>i = lo + 1..<(j + 1) div 2. x ! (j - i) * x ! i)"
    by (simp only: interv_sum_list_conv_sum_set_nat set_upt j(4))
  also have "\<dots> = (\<Sum>i = lo..<(j + 1) div 2. x ! (j - i) * x ! i)" using lo(1) by (simp add: sum.atLeast_Suc_lessThan)
  finally show s: "sqr_cross x hi lo j = (\<Sum>i = lo..<(j + 1) div 2. x ! (j - i) * x ! i)" .
  have l: "(j + 1) div 2 - lo \<le> 16" using x(3) j by simp
  have "\<forall>i\<in>{lo..<(j + 1) div 2}. 0 \<le> x ! (j - i) * x ! i \<and> x ! (j - i) * x ! i \<le> ?M"
    using idx digit_product [OF x(1,1)] by auto
  from digit_sum_bounds [OF this l M(1)]
  show "0 \<le> sqr_cross x hi lo j" "sqr_cross x hi lo j \<le> 16 * ?M" unfolding s by simp_all
qed

definition sqr_inv :: "nat \<Rightarrow> big \<Rightarrow> nat \<Rightarrow> int \<times> big \<Rightarrow> bool" where
  "sqr_inv b x k = (\<lambda>(co, c). length c = 2 * length x \<and> mul_inv b x x k (equal_products x x k, co, take k c))"

lemma sqr_inv_put:
  assumes ok: "limbs_ok b x" "5 \<le> b" "b \<le> 60" "1 \<le> length x" "length x \<le> 16"
    and k: "k < 2 * length x - 1" and inv: "sqr_inv b x k (co, c)" and t: "t = co + column x x k"
  shows "sqr_inv b x (Suc k) (sqr_put b k t c)"
proof -
  have c: "length c = 2 * length x" "mul_inv b x x k (equal_products x x k, co, take k c)" using inv by (simp_all add: sqr_inv_def)
  note m = mul_column [OF ok(1,1-3) refl ok(4,5) k c(2)]
  have "take (Suc k) (c[k := v]) = take k c @ [v]" for v using c(1) k by (simp add: take_Suc_conv_app_nth)
  then show ?thesis using m(2) c(1) unfolding m(1) t [symmetric] by (simp add: sqr_inv_def sqr_put_def)
qed

lemma column_square:
  assumes "k < 2 * length x - 1"
  shows "column x x k = 2 * (\<Sum>i = k + 1 - length x..<(k + 1) div 2. x ! (k - i) * x ! i) + (if even k then x ! (k div 2) * x ! (k div 2) else 0)"
  unfolding column_def by (rule square_column) (use assms in auto)

lemma sqr_sum_bounds:
  assumes "b \<le> 60" "0 \<le> t" "t \<le> 16 * 2 ^ (2 * b)" "0 \<le> co" "co < 2 ^ (2 * b)" "0 \<le> s" "s \<le> 2 ^ (2 * b)"
  shows "i128 (i128 (t + t) + co) = 2 * t + co" "i128 (2 * t + co + i128 s) = 2 * t + co + s" "i128 (i128 s + co) = s + co" "i128 s = s"
proof -
  note M = base_lin(2) [OF assms(1)]
  have t: "i128 (t + t) = t + t" by (rule i128_lin) (use assms M in linarith)+
  have "i128 (t + t + co) = t + t + co" by (rule i128_lin) (use assms M in linarith)+
  then show "i128 (i128 (t + t) + co) = 2 * t + co" unfolding t by simp
  show s: "i128 s = s" by (rule i128_lin) (use assms M in linarith)+
  show "i128 (2 * t + co + i128 s) = 2 * t + co + s" unfolding s by (rule i128_lin) (use assms M in linarith)+
  show "i128 (i128 s + co) = s + co" unfolding s by (rule i128_lin) (use assms M in linarith)+
qed

lemma sqr_inv_carry: "sqr_inv b x k (co, c) \<Longrightarrow> 0 \<le> co \<and> co < 2 ^ (2 * b)"
  by (simp add: sqr_inv_def mul_inv_def)

text \<open>One column of either kind, in either loop.\<close>

lemma sqr_columns:
  assumes ok: "limbs_ok b x" "5 \<le> b" "b \<le> 60" "2 \<le> length x" "length x \<le> 16"
    and j: "1 \<le> j" "j < 2 * length x - 2" "lo = j + 1 - length x" "hi = j - lo" and inv: "sqr_inv b x j st"
  shows "odd j \<Longrightarrow> sqr_inv b x (Suc j) (sqr_odd b x hi lo j st)" "even j \<Longrightarrow> sqr_inv b x (Suc j) (sqr_even b x hi lo j st)"
proof -
  obtain co c where st: "st = (co, c)" by (cases st)
  have co: "0 \<le> co" "co < 2 ^ (2 * b)" using sqr_inv_carry [OF inv [unfolded st]] by simp_all
  have j': "j < 2 * length x - 1" "j div 2 < length x" and n1: "1 \<le> length x" using j(2) ok(4) by auto
  note cr = sqr_cross_sum [OF ok(1,3,5) j]
  have s: "0 \<le> x ! (j div 2) * x ! (j div 2)" "x ! (j div 2) * x ! (j div 2) \<le> 2 ^ (2 * b)"
    using digit_product [OF ok(1,1) j'(2,2)] by simp_all
  note b = sqr_sum_bounds [OF ok(3) cr(2,3) co s]
  note put = sqr_inv_put [OF ok(1-3) n1 ok(5) j'(1) inv [unfolded st]]
  have col: "column x x j = 2 * sqr_cross x hi lo j + (if even j then x ! (j div 2) * x ! (j div 2) else 0)"
    using column_square [OF j'(1)] unfolding cr(1) unfolding j(3) .
  show "sqr_inv b x (Suc j) (sqr_odd b x hi lo j st)" if "odd j"
    unfolding sqr_odd_def st prod.case Let_def b(1) by (rule put) (use col that in simp)
  show "sqr_inv b x (Suc j) (sqr_even b x hi lo j st)" if "even j"
    unfolding sqr_even_def st prod.case Let_def b(1,2) by (rule put) (use col that in simp)
qed

lemma sqr_low_inv:
  assumes ok: "limbs_ok b x" "5 \<le> b" "b \<le> 60" "2 \<le> length x" "length x \<le> 16"
    and j: "odd j" "j \<le> length x + length x mod 2 - 1" "sqr_inv b x j st"
  shows "sqr_inv b x (length x + length x mod 2 - 1) (sqr_low b x j st)"
  using j
proof (induction "length x - j" arbitrary: j st rule: less_induct)
  case less
  show ?case
  proof (cases "j < length x - 1")
    case True
    have j: "1 \<le> j" "j < 2 * length x - 2" "0 = j + 1 - length x" "j = j - 0" using True less.prems(1) by (auto elim: oddE)
    have j': "1 \<le> j + 1" "j + 1 < 2 * length x - 2" "0 = j + 1 + 1 - length x" "j + 1 = j + 1 - 0" using True ok(4) by auto
    have o: "sqr_inv b x (j + 1) (sqr_odd b x j 0 j st)" using sqr_columns(1) [OF ok j less.prems(3,1)] by simp
    have e: "even (j + 1)" using less.prems(1) by simp
    have s: "sqr_inv b x (j + 2) (sqr_even b x (j + 1) 0 (j + 1) (sqr_odd b x j 0 j st))" using sqr_columns(2) [OF ok j' o e] by simp
    have le: "j + 2 \<le> length x + length x mod 2 - 1"
      using True less.prems(1) by presburger
    have "sqr_inv b x (length x + length x mod 2 - 1) (sqr_low b x (j + 2) (sqr_even b x (j + 1) 0 (j + 1) (sqr_odd b x j 0 j st)))"
      by (rule less.hyps [OF _ _ le s]) (use True less.prems(1) in auto)
    then show ?thesis using True by (subst sqr_low.simps) simp
  next
    case False
    then have "j = length x + length x mod 2 - 1" using less.prems(1,2) ok(4) by (cases "even (length x)") (auto elim!: evenE oddE)
    then show ?thesis using False less.prems(3) by (subst sqr_low.simps) simp
  qed
qed

lemma sqr_high_inv:
  assumes ok: "limbs_ok b x" "5 \<le> b" "b \<le> 60" "2 \<le> length x" "length x \<le> 16"
    and j: "odd j" "length x - 1 \<le> j" "j \<le> 2 * length x - 3" "sqr_inv b x j st"
  shows "sqr_inv b x (2 * length x - 3) (sqr_high b x j st)"
  using j
proof (induction "2 * length x - j" arbitrary: j st rule: less_induct)
  case less
  let ?n = "length x"
  show ?case
  proof (cases "j < 2 * ?n - 3")
    case True
    have j: "1 \<le> j" "j < 2 * ?n - 2" "j + 1 - ?n = j + 1 - ?n" "?n - 1 = j - (j + 1 - ?n)" using True less.prems(1,2) by (auto elim: oddE)
    have j': "1 \<le> j + 1" "j + 1 < 2 * ?n - 2" "j + 2 - ?n = j + 1 + 1 - ?n" "?n - 1 = j + 1 - (j + 2 - ?n)" using True less.prems(2) by auto
    let ?o = "sqr_odd b x (?n - 1) (j + 1 - ?n) j st"
    let ?e = "sqr_even b x (?n - 1) (j + 2 - ?n) (j + 1) ?o"
    have o: "sqr_inv b x (j + 1) ?o" using sqr_columns(1) [OF ok j less.prems(4,1)] by simp
    have e: "even (j + 1)" using less.prems(1) by simp
    have s: "sqr_inv b x (j + 2) ?e" using sqr_columns(2) [OF ok j' o e] by simp
    have "odd (2 * ?n - 3)" using True by simp
    then have le: "j + 2 \<le> 2 * ?n - 3" using True less.prems(1) by presburger
    have "sqr_inv b x (2 * ?n - 3) (sqr_high b x (j + 2) ?e)"
      by (rule less.hyps [OF _ _ _ le s]) (use True less.prems(1,2) in auto)
    then show ?thesis using True by (subst sqr_high.simps) (simp add: Let_def)
  next
    case False
    then have "j = 2 * ?n - 3" using less.prems(3) by simp
    then show ?thesis using False less.prems(4) by (subst sqr_high.simps) (simp add: Let_def)
  qed
qed

lemma big_sqr_eq:
  assumes ok: "limbs_ok b x" "5 \<le> b" "b \<le> 60" "2 \<le> length x" "length x \<le> 16"
  shows "limbs_ok b (big_sqr b x)" "big_val b (big_sqr b x) = big_val b x * big_val b x" "length (big_sqr b x) = 2 * length x"
proof -
  let ?n = "length x" and ?M = "2 ^ (2 * b) :: int"
  have n1: "1 \<le> ?n" using ok(4) by simp
  note put = sqr_inv_put [OF ok(1-3) n1 ok(5)]
  have dp: "0 \<le> x ! i * x ! j \<and> x ! i * x ! j \<le> ?M" if "i < ?n" "j < ?n" for i j using digit_product [OF ok(1,1) that] .
  define st where "st = sqr_put b 0 (i128 (x ! 0 * x ! 0)) (big_new (2 * ?n))"
  have i0: "0 < ?n" "0 < 2 * ?n - 1" using ok(4) by auto
  have z: "sqr_inv b x 0 (0, big_new (2 * ?n))" by (simp add: sqr_inv_def mul_inv_def big_new_def equal_products_def)
  have "i128 (x ! 0 * x ! 0) = x ! 0 * x ! 0" by (rule i128_lin) (use dp [OF i0(1,1)] base_lin(2) [OF ok(3)] in linarith)+
  then have "i128 (x ! 0 * x ! 0) = 0 + column x x 0" using column_square [OF i0(2)] by simp
  from put [OF i0(2) z this] have "sqr_inv b x 1 st" by (simp add: st_def)
  then have "sqr_inv b x (?n + ?n mod 2 - 1) (sqr_low b x 1 st)" by (intro sqr_low_inv ok) (use ok(4) in auto)
  moreover have "odd (?n + ?n mod 2 - 1)" "?n - 1 \<le> ?n + ?n mod 2 - 1" "?n + ?n mod 2 - 1 \<le> 2 * ?n - 3" using ok(4) by presburger+
  ultimately have h: "sqr_inv b x (2 * ?n - 3) (sqr_high b x (?n + ?n mod 2 - 1) (sqr_low b x 1 st))" by (intro sqr_high_inv ok)
  obtain co c where e: "sqr_high b x (?n + ?n mod 2 - 1) (sqr_low b x 1 st) = (co, c)" by (cases "sqr_high b x (?n + ?n mod 2 - 1) (sqr_low b x 1 st)")
  have i: "2 * ?n - 3 < 2 * ?n - 1" "2 * ?n - 2 < 2 * ?n - 1" "?n - 1 < ?n" "?n - 2 < ?n" using ok(4) by auto
  have eqs: "Suc (2 * ?n - 3) = 2 * ?n - 2" "Suc (2 * ?n - 2) = 2 * ?n - 1" "2 * ?n - 3 + 1 - ?n = ?n - 2" "(2 * ?n - 3 + 1) div 2 = ?n - 1"
      "2 * ?n - 2 + 1 - ?n = ?n - 1" "(2 * ?n - 2 + 1) div 2 = ?n - 1" "(2 * ?n - 2) div 2 = ?n - 1" "2 * ?n - 3 - (?n - 2) = ?n - 1"
      "{?n - 2..<?n - 1} = {?n - 2}" "odd (2 * ?n - 3)" "even (2 * ?n - 2)" using ok(4) by auto
  let ?T = "x ! (?n - 2) * x ! (?n - 1)" and ?S = "x ! (?n - 1) * x ! (?n - 1)"
  have TS: "0 \<le> ?T" "?T \<le> ?M" "0 \<le> ?S" "?S \<le> ?M" using dp [OF i(4,3)] dp [OF i(3,3)] by simp_all
  have col: "column x x (2 * ?n - 3) = 2 * ?T" "column x x (2 * ?n - 2) = ?S"
    using column_square [OF i(1)] column_square [OF i(2)] eqs(10,11) unfolding eqs by (simp_all only: sum.insert_remove if_True if_False, simp_all add: eqs mult.commute)
  from TS(1,2) have T16: "?T \<le> 16 * ?M" by simp
  note c1 = sqr_inv_carry [OF h [unfolded e]]
  have a: "sqr_inv b x (2 * ?n - 2) (sqr_put b (2 * ?n - 3) (2 * ?T + co) c)"
    using put [OF i(1) h [unfolded e], of "2 * ?T + co"] col(1) unfolding eqs(1) by simp
  obtain co' c' where e': "sqr_put b (2 * ?n - 3) (2 * ?T + co) c = (co', c')" by (cases "sqr_put b (2 * ?n - 3) (2 * ?T + co) c")
  note c2 = sqr_inv_carry [OF a [unfolded e']]
  have a': "sqr_inv b x (2 * ?n - 1) (sqr_put b (2 * ?n - 2) (?S + co') c')"
    using put [OF i(2) a [unfolded e'], of "?S + co'"] col(2) unfolding eqs(2) by simp
  obtain co'' c'' where e'': "sqr_put b (2 * ?n - 2) (?S + co') c' = (co'', c'')" by (cases "sqr_put b (2 * ?n - 2) (?S + co') c'")
  note b1 = sqr_sum_bounds [OF ok(3) TS(1) T16 _ _ TS(1,2)] and b2 = sqr_sum_bounds [OF ok(3) TS(1) T16 _ _ TS(3,4)]
  have v: "big_sqr b x = c''[2 * ?n - 1 := i64 co'']"
    unfolding big_sqr_def Let_def st_def [symmetric] e prod.case b1(4) [OF c1 [THEN conjunct1] c1 [THEN conjunct2]]
      b1(1) [OF c1 [THEN conjunct1] c1 [THEN conjunct2]] e' b2(3) [OF c2 [THEN conjunct1] c2 [THEN conjunct2]] e'' by (rule refl)
  have f: "length c'' = 2 * ?n" "mul_inv b x x (2 * ?n - 1) (equal_products x x (2 * ?n - 1), co'', take (2 * ?n - 1) c'')"
    using a' [unfolded e''] by (simp_all add: sqr_inv_def)
  then have "big_sqr b x = take (2 * ?n - 1) c'' @ [i64 co'']" unfolding v using ok(4) take_Suc_conv_app_nth [of "2 * ?n - 1" "c''[2 * ?n - 1 := i64 co'']"]
    by (simp add: Suc_diff_Suc)
  with mul_inv_final [OF ok(1,1,3) refl n1 f(2)]
  show "limbs_ok b (big_sqr b x)" "big_val b (big_sqr b x) = big_val b x * big_val b x" "length (big_sqr b x) = 2 * length x" by simp_all
qed

end
