(* ===== verification/QC_BigInverse.thy ===== *)
theory QC_BigInverse
  imports QC_Big "HOL-Library.Signed_Division"
begin

text \<open>
  Inversion modulo an odd number (\<open>invmodp\<close> of \<open>big.rs\<close>): the binary extended Euclidean algorithm on limbs.  Its loops are partial
  functions; for a modulus coprime to the number they return the inverse.
\<close>

unbundle bit_operations_syntax

subsection \<open>The algorithm\<close>

definition big_parity :: "big \<Rightarrow> int" where
  "big_parity x = x ! 0 smod 2"

definition big_iszilch :: "nat \<Rightarrow> big \<Rightarrow> bool" where
  "big_iszilch b x = (let d = foldl (OR) 0 x in 1 AND drop_bit b (i64 (d - 1)) \<noteq> 0)"

text \<open>One of the two inner loops: halve \<open>u\<close> while it is even, and \<open>x\<close> modulo \<open>p\<close> with it.\<close>

partial_function (option) inv_halve :: "nat \<Rightarrow> big \<Rightarrow> big \<Rightarrow> big \<Rightarrow> (big \<times> big) option" where
  "inv_halve b p u x =
     (if big_parity u = 0
      then inv_halve b p (big_fshr b 1 u) (big_fshr b 1 (big_norm b (big_cmove x (big_add x p) (big_parity x))))
      else Some (u, x))"

text \<open>\<open>x - y\<close>, with \<open>p\<close> added first when \<open>x < y\<close>.\<close>

definition inv_sub :: "nat \<Rightarrow> big \<Rightarrow> big \<Rightarrow> big \<Rightarrow> big" where
  "inv_sub b p x y = big_norm b (big_sub (big_cmove x (big_add x p) (drop_bit 1 (big_comp b x y) AND 1)) y)"

partial_function (option) inv_loop :: "nat \<Rightarrow> big \<Rightarrow> big \<Rightarrow> big \<Rightarrow> big \<Rightarrow> big \<Rightarrow> (big \<times> big \<times> big) option" where
  "inv_loop b p u v x1 x2 =
     (let one = big_new_int (length p) 1 in
      if big_comp b u one \<noteq> 0 \<and> big_comp b v one \<noteq> 0 then do {
        (u, x1) \<leftarrow> inv_halve b p u x1;
        (v, x2) \<leftarrow> inv_halve b p v x2;
        if 0 \<le> big_comp b u v then inv_loop b p (big_norm b (big_sub u v)) v (inv_sub b p x1 x2) x2
        else inv_loop b p u (big_norm b (big_sub v u)) x1 (inv_sub b p x2 x1)
      }
      else Some (u, x1, x2))"

definition big_invmodp :: "nat \<Rightarrow> big \<Rightarrow> big \<Rightarrow> big option" where
  "big_invmodp b x p = do {
     x \<leftarrow> big_rmod b x p;
     if big_iszilch b x then Some x
     else do {
       (u, x1, x2) \<leftarrow> inv_loop b p x p (big_new_int (length p) 1) (big_new (length p));
       Some (big_cmove x1 x2 (big_comp b u (big_new_int (length p) 1) AND 1))
     }
   }"

subsection \<open>What the steps compute\<close>

definition big_rep :: "nat \<Rightarrow> nat \<Rightarrow> big \<Rightarrow> int \<Rightarrow> bool" where
  "big_rep b n w v = (limbs_ok b w \<and> length w = n \<and> big_val b w = v)"

lemma big_rep_bounds: "big_rep b n w v \<Longrightarrow> 0 \<le> v \<and> v < 2 ^ (b * n)"
  using big_val_bounds [of b w] by (auto simp: big_rep_def)

lemma big_rep_one: "0 < n \<Longrightarrow> 0 < b \<Longrightarrow> big_rep b n (big_new_int n 1) 1" and big_rep_zero: "big_rep b n (big_new n) 0"
proof -
  show "big_rep b n (big_new n) 0" by (simp add: big_rep_def big_new_def)
  assume "0 < n" "0 < b"
  then obtain m where "n = Suc m" by (cases n) auto
  moreover have "(1::int) < 2 ^ b" using \<open>0 < b\<close> by (simp add: one_less_power)
  ultimately show "big_rep b n (big_new_int n 1) 1" by (simp add: big_rep_def big_new_int_def big_new_def)
qed

lemma big_parity_rep:
  assumes "big_rep b n w v" "0 < n" "0 < b"
  shows "big_parity w = v mod 2"
proof -
  obtain x ws where w: "w = x # ws" using assms(1,2) by (cases w) (auto simp: big_rep_def)
  obtain c where c: "b = Suc c" using assms(3) by (cases b) auto
  have "0 \<le> x" "v = x + 2 ^ b * big_val b ws" using assms(1) by (auto simp: big_rep_def w)
  then show ?thesis by (simp add: big_parity_def w c mult.assoc signed_modulo_int_def sgn_if) 
qed

lemma foldl_or_zero:
  assumes "limbs_ok b w" "0 \<le> d" "d < 2 ^ b"
  shows "0 \<le> foldl (OR) d w \<and> foldl (OR) d w < 2 ^ b \<and> (foldl (OR) d w = 0 \<longleftrightarrow> d = 0 \<and> big_val b w = 0)"
  using assms
proof (induction w arbitrary: d)
  case (Cons x w)
  have x: "0 \<le> x" "x < 2 ^ b" "limbs_ok b w" using Cons.prems(1) by simp_all
  have "take_bit b d = d" "take_bit b x = x" using x Cons.prems by (simp_all add: take_bit_eq_mod)
  then have "take_bit b (d OR x) = d OR x" by simp
  then have o: "0 \<le> d OR x" "d OR x < 2 ^ b" unfolding take_bit_int_eq_self_iff by auto
  have z: "d OR x = 0 \<longleftrightarrow> d = 0 \<and> x = 0" by (metis or.left_neutral or_eq_0_iff)
  have "x + 2 ^ b * big_val b w = 0 \<longleftrightarrow> x = 0 \<and> big_val b w = 0"
    using x big_val_bounds(1) [OF x(3)] by (auto simp: add_nonneg_eq_0_iff)
  then show ?case using Cons.IH [OF x(3) o] z by auto
qed simp

lemma big_iszilch_rep:
  assumes "big_rep b n w v" "b \<le> 61"
  shows "big_iszilch b w \<longleftrightarrow> v = 0"
proof -
  let ?d = "foldl (OR) 0 w"
  have d: "0 \<le> ?d" "?d < 2 ^ b" "?d = 0 \<longleftrightarrow> v = 0" using foldl_or_zero [of b w 0] assms(1) by (auto simp: big_rep_def)
  have "i64 (?d - 1) = ?d - 1" by (rule i64_lin) (use d base_lin(1) [OF assms(2)] in linarith)+
  moreover have "(?d - 1) div 2 ^ b = (if ?d - 1 < 0 then - 1 else 0)" by (rule div_sign) (use d in linarith)+
  ultimately show ?thesis using d by (auto simp: big_iszilch_def Let_def drop_bit_eq_div)
qed

lemma big_comp_rep:
  assumes "big_rep b n x v" "big_rep b n y w" "b \<le> 61"
  shows "big_comp b x y = (if v < w then - 1 else if v = w then 0 else 1)"
  using big_comp_eq [of x y b] assms by (simp add: big_rep_def)

lemma big_sub_rep:
  assumes "big_rep b n x v" "big_rep b n y w" "w \<le> v" "2 \<le> b" "b \<le> 61" "2 \<le> n"
  shows "big_rep b n (big_norm b (big_sub x y)) (v - w)"
proof -
  have s: "big_val b (big_sub x y) = v - w" "limbs_loose (big_sub x y)" "length (big_sub x y) = n"
    using big_add_facts(2) [of x y b] limbs_ok_small [of b x] limbs_ok_small [of b y] assms by (simp_all add: big_rep_def)
  then have l: "2 \<le> length (big_sub x y)" "0 \<le> big_val b (big_sub x y)" "big_val b (big_sub x y) < 2 ^ (b * length (big_sub x y))"
    using assms(3,6) big_rep_bounds [OF assms(1)] big_rep_bounds [OF assms(2)] by simp_all
  show ?thesis using big_norm_ok [OF assms(4) s(2) l] big_norm_facts [OF assms(4) s(2) l(1)] s(1,3) by (simp add: big_rep_def)
qed

lemma big_norm_rep:
  assumes "limbs_loose w" "length w = n" "big_val b w = v" "0 \<le> v" "v < 2 ^ (b * n)" "2 \<le> b" "2 \<le> n"
  shows "big_rep b n (big_norm b w) v"
  using big_norm_ok [OF assms(6,1)] big_norm_facts [OF assms(6,1)] assms(2-5,7) by (simp add: big_rep_def)

lemma big_rep_add:
  assumes "big_rep b n x v" "big_rep b n y w" "b \<le> 61"
  shows "limbs_loose x" "limbs_loose (big_add x y)" "length (big_add x y) = n" "big_val b (big_add x y) = v + w" "length x = n" "big_val b x = v"
proof -
  have "\<forall>v\<in>set x. \<bar>v\<bar> < 2 ^ 61" using limbs_ok_small [of b x] assms by (simp add: big_rep_def)
  then show "limbs_loose x" by (auto simp: limbs_loose_def)
qed (use big_add_facts(1) [of x y b] limbs_ok_small [of b x] limbs_ok_small [of b y] assms in \<open>simp_all add: big_rep_def\<close>)

lemma big_add_small:
  assumes "limbs_ok b x" "limbs_ok b y" "b \<le> 60"
  shows "\<forall>v\<in>set (big_add x y). \<bar>v\<bar> < 2 ^ 61"
proof
  fix z assume "z \<in> set (big_add x y)"
  then obtain v w where z: "z = i64 (v + w)" "(v, w) \<in> set (zip x y)" by (auto simp: big_add_def)
  then have "v \<in> set x" "w \<in> set y" by (auto dest: set_zip_leftD set_zip_rightD)
  then have "0 \<le> v" "v < 2 ^ b" "0 \<le> w" "w < 2 ^ b" using assms(1,2) by (auto simp: limbs_ok_def)
  moreover have "(2::int) ^ b \<le> 1152921504606846976" using power_increasing [of b 60 "2::int"] assms(3) by simp
  ultimately show "\<bar>z\<bar> < 2 ^ 61" unfolding z(1) by (subst i64_lin) simp_all
qed

text \<open>Adding the modulus or not, and then normalising.\<close>

lemma cmove_add_rep:
  assumes "big_rep b n x v" "big_rep b n p P" "d = 0 \<or> d = 1" "2 * P \<le> 2 ^ (b * n)" "v < P" "2 \<le> b" "b \<le> 61" "2 \<le> n"
  shows "big_rep b n (big_norm b (big_cmove x (big_add x p) d)) (if d = 1 then v + P else v)"
proof -
  note a = big_rep_add [OF assms(1,2,7)]
  have "big_cmove x (big_add x p) d = (if d = 1 then big_add x p else x)" using a(3,5) assms(3) by (intro big_cmove_eq) simp_all
  moreover have "0 \<le> v" using big_rep_bounds [OF assms(1)] by simp
  ultimately show ?thesis using a assms(4-6,8) by (auto intro!: big_norm_rep)
qed

lemma big_fshr_rep: "big_rep b n x v \<Longrightarrow> 1 \<le> b \<Longrightarrow> b \<le> 61 \<Longrightarrow> big_rep b n (big_fshr b 1 x) (v div 2)"
  using big_fshr_facts [of b x 1] by (simp add: big_rep_def)

lemma halve_dvd:
  fixes P :: int
  assumes "odd P" "even u" "even y" "P dvd u - a * y"
  shows "P dvd u div 2 - a * (y div 2)"
proof -
  from assms(2,3) obtain u' y' where e: "u = 2 * u'" "y = 2 * y'" by (auto elim!: evenE)
  then have "P dvd 2 * (u' - a * y')" using assms(4) by (simp add: algebra_simps)
  moreover have "coprime P 2" using assms(1) by simp
  ultimately have "P dvd u' - a * y'" by (simp only: coprime_dvd_mult_right_iff)
  then show ?thesis by (simp add: e)
qed

text \<open>
  The invariant of one of the two pairs: \<open>u\<close> is positive and congruent to \<open>a * x\<close> modulo \<open>P\<close>.
\<close>

definition inv_pair :: "nat \<Rightarrow> nat \<Rightarrow> int \<Rightarrow> int \<Rightarrow> big \<Rightarrow> big \<Rightarrow> int \<Rightarrow> int \<Rightarrow> bool" where
  "inv_pair b n P a u x U X = (big_rep b n u U \<and> big_rep b n x X \<and> 0 < U \<and> X < P \<and> P dvd U - a * X)"

text \<open>A modulus the limbs have room to double.\<close>

definition inv_modulus :: "nat \<Rightarrow> nat \<Rightarrow> big \<Rightarrow> int \<Rightarrow> bool" where
  "inv_modulus b n p P = (big_rep b n p P \<and> odd P \<and> 1 < P \<and> 2 * P \<le> 2 ^ (b * n) \<and> 2 \<le> b \<and> b \<le> 60 \<and> 2 \<le> n)"

lemma inv_modulusD:
  assumes "inv_modulus b n p P"
  shows "big_rep b n p P" "odd P" "1 < P" "2 * P \<le> 2 ^ (b * n)" "2 \<le> b" "b \<le> 61" "2 \<le> n" "b \<le> 60"
  using assms by (simp_all add: inv_modulus_def)

lemma halve_step:
  assumes m: "inv_modulus b n p P" and i0: "inv_pair b n P a u x U X" "even U"
  shows "inv_pair b n P a (big_fshr b 1 u) (big_fshr b 1 (big_norm b (big_cmove x (big_add x p) (big_parity x))))
    (U div 2) ((if odd X then X + P else X) div 2)"
proof -
  note p = inv_modulusD(1-4) [OF m] and b = inv_modulusD(5-8) [OF m]
  have i: "big_rep b n u U" "big_rep b n x X" "0 < U" "X < P" "P dvd U - a * X" using i0(1) by (simp_all add: inv_pair_def)
  let ?Y = "if odd X then X + P else X"
  have d: "big_parity x = X mod 2" using big_parity_rep [OF i(2)] b by simp
  have "big_rep b n (big_norm b (big_cmove x (big_add x p) (big_parity x))) (if big_parity x = 1 then X + P else X)"
    by (rule cmove_add_rep [OF i(2) p(1) _ p(4) i(4) b(1,2,3)]) (auto simp: d)
  then have y: "big_rep b n (big_norm b (big_cmove x (big_add x p) (big_parity x))) ?Y" by (simp add: d odd_iff_mod_2_eq_one)
  have "P dvd U - a * ?Y"
  proof (cases "odd X")
    case True
    have "U - a * (X + P) = (U - a * X) - a * P" by (simp add: algebra_simps)
    moreover have "P dvd \<dots>" by (intro dvd_diff i(5)) simp
    ultimately have "P dvd U - a * (X + P)" by (rule ssubst)
    then show ?thesis using True by simp
  qed (use i(5) in simp)
  then have "P dvd U div 2 - a * (?Y div 2)" by (intro halve_dvd) (use p(2) i0(2) in auto)
  moreover have "?Y div 2 < P" using i(4) p(3) by auto
  moreover have "0 < U div 2" using i(3) i0(2) by (auto elim!: evenE)
  ultimately show ?thesis
    using big_fshr_rep [OF i(1)] big_fshr_rep [OF y] b by (simp add: inv_pair_def)
qed

lemma inv_halve_ends:
  assumes m: "inv_modulus b n p P" and i0: "inv_pair b n P a u x U X"
  shows "\<exists>u' x' U' X'. inv_halve b p u x = Some (u', x') \<and> inv_pair b n P a u' x' U' X' \<and> odd U' \<and> U' \<le> U \<and> U' dvd U \<and> (odd U \<longrightarrow> U' = U)"
  using i0
proof (induction "nat U" arbitrary: u x U X rule: less_induct)
  case less
  note p = inv_modulusD(1-4) [OF m] and b = inv_modulusD(5-8) [OF m]
  have "big_rep b n u U" "0 < U" using less.prems by (simp_all add: inv_pair_def)
  then have par: "big_parity u = U mod 2" using big_parity_rep b by simp
  show ?case
  proof (cases "even U")
    case True
    have lt: "nat (U div 2) < nat U" "U div 2 \<le> U" using \<open>0 < U\<close> by auto
    let ?x = "big_fshr b 1 (big_norm b (big_cmove x (big_add x p) (big_parity x)))"
    from less.hyps [OF lt(1) halve_step [OF m less.prems True]] obtain u' x' U' X' where
      r: "inv_halve b p (big_fshr b 1 u) ?x = Some (u', x')" "inv_pair b n P a u' x' U' X'" "odd U'" "U' \<le> U div 2" "U' dvd U div 2"
      by auto
    have "inv_halve b p u x = Some (u', x')" using r(1) True par by (subst inv_halve.simps) simp
    moreover have "U' dvd U" using r(5) True by (metis dvd_div_mult_self dvd_mult2)
    ultimately show ?thesis using r(2-4) lt(2) True by (auto intro!: exI)
  next
    case False
    then have "big_parity u \<noteq> 0" by (simp add: par odd_iff_mod_2_eq_one)
    then have "inv_halve b p u x = Some (u, x)" by (subst inv_halve.simps) simp
    then show ?thesis using less.prems False by (intro exI [of _ u] exI [of _ x] exI [of _ U] exI [of _ X]) simp
  qed
qed

lemma inv_sub_rep:
  assumes m: "inv_modulus b n p P" and i0: "inv_pair b n P a u x U X" "inv_pair b n P a v y V Y" "V < U"
  shows "\<exists>Z. inv_pair b n P a (big_norm b (big_sub u v)) (inv_sub b p x y) (U - V) Z"
proof -
  note p = inv_modulusD(1-4) [OF m] and b = inv_modulusD(5-8) [OF m]
  have i: "big_rep b n u U" "big_rep b n x X" "X < P" "P dvd U - a * X" "big_rep b n v V" "big_rep b n y Y" "Y < P" "P dvd V - a * Y"
    using i0(1,2) by (simp_all add: inv_pair_def)
  have bd: "0 \<le> X" "0 \<le> Y" using big_rep_bounds [OF i(2)] big_rep_bounds [OF i(6)] by simp_all
  let ?d = "drop_bit 1 (big_comp b x y) AND 1"
  have d: "?d = (if X < Y then 1 else 0)" unfolding big_comp_rep [OF i(2,6) b(2)] by (simp add: drop_bit_eq_div)
  let ?w = "big_cmove x (big_add x p) ?d" and ?W = "if X < Y then X + P else X"
  note ad = big_rep_add [OF i(2) p(1) b(2)]
  have w: "?w = (if X < Y then big_add x p else x)" using big_cmove_eq [of x "big_add x p" ?d] ad(3,5) d by simp
  have "P dvd (U - V) - a * (?W - Y)"
  proof -
    have "(U - V) - a * (?W - Y) = (U - a * X) - (V - a * Y) - a * (if X < Y then P else 0)" by (simp add: algebra_simps)
    moreover have "P dvd \<dots>" by (intro dvd_diff i(4,8)) simp
    ultimately show ?thesis by metis
  qed
  moreover have sb: "limbs_loose (big_sub (if X < Y then big_add x p else x) y) \<and> length (big_sub (if X < Y then big_add x p else x) y) = n
      \<and> big_val b (big_sub (if X < Y then big_add x p else x) y) = ?W - Y"
    using big_add_facts(2) [of "big_add x p" y b] big_add_facts(2) [of x y b] ad big_add_small [of b x p]
      limbs_ok_small [of b x] limbs_ok_small [of b y] i(2,6) p(1) b by (simp add: big_rep_def)
  moreover have "big_rep b n (inv_sub b p x y) (?W - Y)"
    unfolding inv_sub_def w by (rule big_norm_rep) (use sb i(3,7) bd big_rep_bounds [OF p(1)] p(4) b in auto)
  moreover have "?W - Y < P" using i(3) bd by simp
  moreover have "big_rep b n (big_norm b (big_sub u v)) (U - V)" by (rule big_sub_rep [OF i(1,5)]) (use i0(3) b in simp_all)
  ultimately have "inv_pair b n P a (big_norm b (big_sub u v)) (inv_sub b p x y) (U - V) (?W - Y)"
    using i0(3) by (simp add: inv_pair_def)
  then show ?thesis by (rule exI)
qed

lemma inv_loop_ends:
  assumes m: "inv_modulus b n p P" and i0: "inv_pair b n P a u x1 U X1" "inv_pair b n P a v x2 V X2" "coprime U V"
  shows "\<exists>u' y1 y2 U' Y1 V' Y2 v'. inv_loop b p u v x1 x2 = Some (u', y1, y2) \<and> inv_pair b n P a u' y1 U' Y1 \<and> inv_pair b n P a v' y2 V' Y2
    \<and> (U' = 1 \<or> V' = 1)"
  using i0
proof (induction "nat (U + V)" arbitrary: u x1 U X1 v x2 V X2 rule: less_induct)
  case less
  note p = inv_modulusD(1-4) [OF m] and b = inv_modulusD(5-8) [OF m]
  let ?one = "big_new_int n 1"
  have rep: "big_rep b n u U" "big_rep b n v V" "0 < U" "0 < V" using less.prems by (simp_all add: inv_pair_def)
  have one: "big_rep b n ?one 1" using big_rep_one b by simp
  have len: "length p = n" using p(1) by (simp add: big_rep_def)
  have c1: "big_comp b u ?one = 0 \<longleftrightarrow> U = 1" "big_comp b v ?one = 0 \<longleftrightarrow> V = 1"
    using big_comp_rep [OF rep(1) one b(2)] big_comp_rep [OF rep(2) one b(2)] by simp_all
  show ?case
  proof (cases "U = 1 \<or> V = 1")
    case True
    then have "inv_loop b p u v x1 x2 = Some (u, x1, x2)" using c1 by (subst inv_loop.simps) (auto simp: len)
    then show ?thesis using less.prems(1,2) True by blast
  next
    case False
    from inv_halve_ends [OF m less.prems(1)] obtain u' y1 U' Y1 where
      hu: "inv_halve b p u x1 = Some (u', y1)" "inv_pair b n P a u' y1 U' Y1" "U' \<le> U" "U' dvd U" "odd U \<longrightarrow> U' = U" by blast
    from inv_halve_ends [OF m less.prems(2)] obtain v' y2 V' Y2 where
      hv: "inv_halve b p v x2 = Some (v', y2)" "inv_pair b n P a v' y2 V' Y2" "V' \<le> V" "V' dvd V" "odd V \<longrightarrow> V' = V" by blast
    have r': "big_rep b n u' U'" "big_rep b n v' V'" "0 < U'" "0 < V'" using hu(2) hv(2) by (simp_all add: inv_pair_def)
    have cp: "coprime U' V'" using less.prems(3) hu(4) hv(4) by (meson coprime_divisors)
    have "odd U \<or> odd V" using less.prems(3) by (metis coprime_common_divisor odd_one)
    then have "U' \<noteq> 1 \<or> V' \<noteq> 1" using False hu(5) hv(5) by auto
    then have ne: "U' \<noteq> V'" using cp r'(3) by (auto simp: coprime_iff_gcd_eq_1)
    have step: "inv_loop b p u v x1 x2 =
        (if V' \<le> U' then inv_loop b p (big_norm b (big_sub u' v')) v' (inv_sub b p y1 y2) y2
         else inv_loop b p u' (big_norm b (big_sub v' u')) y1 (inv_sub b p y2 y1))"
      using False c1 hu(1) hv(1) big_comp_rep [OF r'(1,2) b(2)] by (subst inv_loop.simps) (simp add: len)
    show ?thesis
    proof (cases "V' \<le> U'")
      case True
      then obtain Z where z: "inv_pair b n P a (big_norm b (big_sub u' v')) (inv_sub b p y1 y2) (U' - V') Z"
        using inv_sub_rep [OF m hu(2) hv(2)] ne by auto
      have "coprime (U' - V') V'" using cp by (simp add: coprime_iff_gcd_eq_1 gcd_diff1)
      from less.hyps [OF _ z hv(2) this] show ?thesis using True step hu(3) r'(3,4) rep(3,4) by simp
    next
      case le: False
      then obtain Z where z: "inv_pair b n P a (big_norm b (big_sub v' u')) (inv_sub b p y2 y1) (V' - U') Z"
        using inv_sub_rep [OF m hv(2) hu(2)] ne by auto
      have "coprime U' (V' - U')" using cp by (metis coprime_commute coprime_iff_gcd_eq_1 gcd_diff1)
      from less.hyps [OF _ hu(2) z this] show ?thesis using le step hv(3) r'(3,4) rep(3,4) by simp
    qed
  qed
qed

lemma inv_mod_unique:
  assumes "coprime a m" "1 < m" "0 \<le> r" "r < m" "m dvd 1 - a * r"
  shows "r = inv_mod a m"
proof -
  let ?i = "inv_mod a m"
  have i: "(a * ?i) mod m = 1" "0 \<le> ?i" "?i < m" using inv_mod_mult [of m a] inv_mod_range [of m a] assms(1,2) by simp_all
  have "m dvd 1 - a * ?i" using i(1) assms(2) by (metis mod_eq_dvd_iff mod_mod_trivial)
  then have "m dvd (1 - a * ?i) - (1 - a * r)" using assms(5) by (rule dvd_diff)
  then have "m dvd a * (r - ?i)" by (simp add: algebra_simps)
  then have "m dvd r - ?i" using assms(1) by (simp add: coprime_dvd_mult_right_iff coprime_commute)
  then have "r mod m = ?i mod m" by (simp add: mod_eq_dvd_iff)
  then show ?thesis using assms(3,4) i(2,3) by simp
qed

lemma inv_mod_zero: "0 < m \<Longrightarrow> m dvd a \<Longrightarrow> inv_mod a m = 0"
  by (simp add: inv_mod_def bezw.simps)

lemma big_invmodp_eq:
  assumes b: "2 \<le> b" "b \<le> 60" "2 \<le> n" and x: "limbs_loose x" "length x = n" "0 \<le> big_val b x" "2 * big_val b x < 2 ^ (b * n)"
    and p: "big_rep b n p P" "odd P" "1 < P" "2 * P \<le> 2 ^ (b * n)" and c: "P dvd big_val b x \<or> coprime (big_val b x) P"
  shows "\<exists>r. big_invmodp b x p = Some r \<and> big_rep b n r (inv_mod (big_val b x) P)"
proof -
  have b': "b \<le> 61" using b(2) by simp
  from p(1) have pr: "limbs_ok b p" "length p = n" "big_val b p = P" by (simp_all add: big_rep_def)
  from big_rmod_eq [of b x p] obtain w where w: "big_rmod b x p = Some w" "big_rep b n w (big_val b x mod P)"
    using b x b' pr p(3) by (auto simp: big_rep_def)
  let ?a = "big_val b x mod P"
  have inv: "inv_mod (big_val b x) P = inv_mod ?a P" by (rule inv_mod_cong) simp
  show ?thesis
  proof (cases "?a = 0")
    case True
    then have "big_invmodp b x p = Some w" using w big_iszilch_rep [OF w(2) b'] by (simp add: big_invmodp_def)
    moreover have "inv_mod (big_val b x) P = ?a" using True p(3) by (simp add: inv_mod_zero mod_0_imp_dvd)
    ultimately show ?thesis using w(2) by auto
  next
    case False
    have "0 \<le> ?a" using p(3) by (intro pos_mod_sign) simp
    then have a: "0 < ?a" using False by linarith
    have "coprime (big_val b x) P" using c False by (auto simp: dvd_eq_mod_eq_0)
    then have ac: "coprime ?a P" using p(3) by (simp add: coprime_mod_left_iff)
    have m: "inv_modulus b n p P" using b p by (simp add: inv_modulus_def)
    have one: "big_rep b n (big_new_int n 1) 1" using big_rep_one b by simp
    have "inv_pair b n P ?a w (big_new_int n 1) ?a 1" "inv_pair b n P ?a p (big_new n) P 0"
      using w(2) a p(1,3) one big_rep_zero by (simp_all add: inv_pair_def)
    from inv_loop_ends [OF m this ac] obtain u y1 y2 U Y1 V Y2 v where
      l: "inv_loop b p w p (big_new_int n 1) (big_new n) = Some (u, y1, y2)" and
      i: "inv_pair b n P ?a u y1 U Y1" "inv_pair b n P ?a v y2 V Y2" "U = 1 \<or> V = 1" by blast
    have i': "big_rep b n u U" "0 < U" "big_rep b n y1 Y1" "big_rep b n y2 Y2" using i(1,2) by (simp_all add: inv_pair_def)
    have "big_comp b u (big_new_int n 1) AND 1 = (if U = 1 then 0 else 1)" using big_comp_rep [OF i'(1) one b'] i'(2) by simp
    then have "big_invmodp b x p = Some (if U = 1 then y1 else y2)"
      using w big_iszilch_rep [OF w(2) b'] False l i'(3,4) big_cmove_eq [of y1 y2] by (simp add: big_invmodp_def pr(2) big_rep_def)
    moreover have "Y = inv_mod ?a P" if "inv_pair b n P ?a t y 1 Y" for t y Y
      using that ac p(3) big_rep_bounds [of b n y Y] by (intro inv_mod_unique) (simp_all add: inv_pair_def)
    ultimately show ?thesis using i i'(3,4) unfolding inv by (cases "U = 1") auto
  qed
qed

end
