(* ===== verification/QC_BigMod.thy ===== *)
theory QC_BigMod
  imports QC_BigSqr QC_BigInverse
begin

text \<open>
  Products, squares and powers modulo a number (\<open>modmul\<close>, \<open>modsqr\<close>, \<open>powmod\<close> of \<open>big.rs\<close>).  A power is
  computed by squaring, from the lowest bit of the exponent up; the loop is a partial function that is shown to end.
\<close>

subsection \<open>The algorithms\<close>

definition big_modmul :: "nat \<Rightarrow> big \<Rightarrow> big \<Rightarrow> big \<Rightarrow> big option" where
  "big_modmul b a1 b1 m = do {
     a \<leftarrow> big_rmod b a1 m;
     c \<leftarrow> big_rmod b b1 m;
     dbig_dmod b (big_mul b a c) m
   }"

definition big_modsqr :: "nat \<Rightarrow> big \<Rightarrow> big \<Rightarrow> big option" where
  "big_modsqr b a1 m = do {
     a \<leftarrow> big_rmod b a1 m;
     dbig_dmod b (big_sqr b a) m
   }"

partial_function (option) powmod_loop :: "nat \<Rightarrow> big \<Rightarrow> big \<Rightarrow> big \<Rightarrow> big \<Rightarrow> big option" where
  "powmod_loop b m z s a =
     (let bt = big_parity z; z = big_fshr b 1 z in do {
        a \<leftarrow> (if bt = 1 then big_modmul b a s m else Some a);
        if big_iszilch b z then Some a
        else do {
          s \<leftarrow> big_modsqr b s m;
          powmod_loop b m z s a
        }
      })"

definition big_powmod :: "nat \<Rightarrow> big \<Rightarrow> big \<Rightarrow> big \<Rightarrow> big option" where
  "big_powmod b x e1 m = powmod_loop b m (big_norm b e1) (big_norm b x) (big_new_int (length x) 1)"

subsection \<open>What they compute\<close>

text \<open>The sizes of limbs and numbers the multiplication is correct for, and a modulus the limbs have room to double.\<close>

definition mod_size :: "nat \<Rightarrow> nat \<Rightarrow> big \<Rightarrow> int \<Rightarrow> bool" where
  "mod_size b n m M = (big_rep b n m M \<and> 1 < M \<and> 2 * M \<le> 2 ^ (b * n) \<and> 5 \<le> b \<and> b \<le> 60 \<and> 2 \<le> n \<and> n \<le> 16)"

lemma mod_sizeD:
  assumes "mod_size b n m M"
  shows "big_rep b n m M" "1 < M" "2 * M \<le> 2 ^ (b * n)" "5 \<le> b" "b \<le> 60" "2 \<le> n" "n \<le> 16" "2 \<le> b" "b \<le> 61"
  using assms by (simp_all add: mod_size_def)

lemma limbs_ok_loose: "limbs_ok b w \<Longrightarrow> b \<le> 61 \<Longrightarrow> limbs_loose w"
  using limbs_ok_small [of b w] by (fastforce simp: limbs_loose_def)

lemma big_rmod_rep:
  assumes m: "mod_size b n m M" and x: "limbs_loose x" "length x = n" "big_val b x = v" "0 \<le> v" "2 * v < 2 ^ (b * n)"
  shows "\<exists>r. big_rmod b x m = Some r \<and> big_rep b n r (v mod M)"
proof -
  have "limbs_ok b m" "length m = length x" "0 < big_val b m" "big_val b m = M" using mod_sizeD(1,2) [OF m] x(2) by (simp_all add: big_rep_def)
  with big_rmod_eq [of b x m] mod_sizeD(6,8,9) [OF m] x show ?thesis by (auto simp: big_rep_def)
qed

lemma big_rmod_digits:
  assumes "mod_size b n m M" "big_rep b n x v" "2 * v < 2 ^ (b * n)"
  shows "\<exists>r. big_rmod b x m = Some r \<and> big_rep b n r (v mod M)"
  using big_rmod_rep [OF assms(1), of x v] limbs_ok_loose [of b x] mod_sizeD(9) [OF assms(1)] big_rep_bounds [OF assms(2)] assms(2,3)
  by (simp add: big_rep_def)

lemma dbig_dmod_rep:
  assumes m: "mod_size b n m M" and d: "limbs_ok b d" "length d = 2 * n" "big_val b d = v" "2 * v < 2 ^ (b * (2 * n))"
  shows "\<exists>r. dbig_dmod b d m = Some r \<and> big_rep b n r (v mod M)"
proof -
  have "limbs_ok b m" "length m = n" "0 < big_val b m" "big_val b m = M" using mod_sizeD(1,2) [OF m] by (simp_all add: big_rep_def)
  with dbig_dmod_eq [of b m d] mod_sizeD(6,8,9) [OF m] d limbs_ok_loose [OF d(1)] big_val_bounds(1) [OF d(1)]
  show ?thesis by (auto simp: big_rep_def)
qed

lemma double_product:
  fixes x y :: int
  assumes "0 \<le> x" "0 \<le> y" "2 * x < 2 ^ k" "2 * y < 2 ^ k"
  shows "2 * (x * y) < 2 ^ (2 * k)"
proof -
  have "(2 * x) * (2 * y) \<le> 2 ^ k * 2 ^ k" using assms by (intro mult_mono) simp_all
  moreover have "(2::int) ^ k * 2 ^ k = 2 ^ (2 * k)" by (simp add: mult_2 power_add)
  ultimately have "4 * (x * y) \<le> 2 ^ (2 * k)" by (simp add: algebra_simps)
  moreover have "0 \<le> x * y" "(0::int) < 2 ^ (2 * k)" using assms by simp_all
  ultimately show ?thesis by linarith
qed

text \<open>A product below the square of the size, reduced.\<close>

lemma mul_dmod_rep:
  assumes m: "mod_size b n m M" and x: "big_rep b n x v" "2 * v < 2 ^ (b * n)" and y: "big_rep b n y w" "2 * w < 2 ^ (b * n)"
  shows "\<exists>r. dbig_dmod b (big_mul b x y) m = Some r \<and> big_rep b n r (v * w mod M)"
    "\<exists>r. dbig_dmod b (big_sqr b x) m = Some r \<and> big_rep b n r (v * v mod M)"
proof -
  have v: "0 \<le> v" "0 \<le> w" using big_rep_bounds [OF x(1)] big_rep_bounds [OF y(1)] by simp_all
  have e: "2 * (b * n) = b * (2 * n)" by simp
  show "\<exists>r. dbig_dmod b (big_mul b x y) m = Some r \<and> big_rep b n r (v * w mod M)"
    by (rule dbig_dmod_rep [OF m])
      (use big_mul_eq [of b x y] x(1) y(1) mod_sizeD(4-7) [OF m] double_product [OF v x(2) y(2), unfolded e] in \<open>simp_all add: big_rep_def\<close>)
  show "\<exists>r. dbig_dmod b (big_sqr b x) m = Some r \<and> big_rep b n r (v * v mod M)"
    by (rule dbig_dmod_rep [OF m])
      (use big_sqr_eq [of b x] x(1) mod_sizeD(4-7) [OF m] double_product [OF v(1,1) x(2,2), unfolded e] in \<open>simp_all add: big_rep_def\<close>)
qed

lemma mod_room: "mod_size b n m M \<Longrightarrow> 2 * (v mod M) < 2 ^ (b * n)"
  using pos_mod_bound [of M v] unfolding mod_size_def by linarith

lemma big_modmul_rep:
  assumes m: "mod_size b n m M" and x: "big_rep b n x v" "2 * v < 2 ^ (b * n)" and y: "big_rep b n y w" "2 * w < 2 ^ (b * n)"
  shows "\<exists>r. big_modmul b x y m = Some r \<and> big_rep b n r (v * w mod M)" "\<exists>r. big_modsqr b x m = Some r \<and> big_rep b n r (v * v mod M)"
proof -
  obtain x' where x': "big_rmod b x m = Some x'" "big_rep b n x' (v mod M)" using big_rmod_digits [OF m x] by blast
  obtain y' where y': "big_rmod b y m = Some y'" "big_rep b n y' (w mod M)" using big_rmod_digits [OF m y] by blast
  note r = mul_dmod_rep [OF m x'(2) mod_room [OF m] y'(2) mod_room [OF m]]
  show "\<exists>r. big_modmul b x y m = Some r \<and> big_rep b n r (v * w mod M)" "\<exists>r. big_modsqr b x m = Some r \<and> big_rep b n r (v * v mod M)"
    using r x'(1) y'(1) by (simp_all add: big_modmul_def big_modsqr_def mod_mult_eq)
qed

lemma powmod_loop_ends:
  assumes m: "mod_size b n m M" and "big_rep b n z Z" "big_rep b n s S" "2 * S < 2 ^ (b * n)" "big_rep b n a A" "A < M"
  shows "\<exists>r. powmod_loop b m z s a = Some r \<and> big_rep b n r (A * S ^ nat Z mod M)"
  using assms(2-)
proof (induction "nat Z" arbitrary: z Z s S a A rule: less_induct)
  case less
  note b = mod_sizeD [OF m]
  have Z: "0 \<le> Z" "0 \<le> A" using big_rep_bounds [OF less.prems(1)] big_rep_bounds [OF less.prems(4)] by simp_all
  have bt: "big_parity z = Z mod 2" using big_parity_rep [OF less.prems(1)] b by simp
  have z: "big_rep b n (big_fshr b 1 z) (Z div 2)" using big_fshr_rep [OF less.prems(1)] b by simp
  have zz: "big_iszilch b (big_fshr b 1 z) \<longleftrightarrow> Z div 2 = 0" by (rule big_iszilch_rep [OF z b(9)])
  let ?A = "if Z mod 2 = 1 then A * S mod M else A"
  have "2 * A < 2 ^ (b * n)" using b(3) less.prems(5) by simp
  from big_modmul_rep(1) [OF m less.prems(4) this less.prems(2,3)] less.prems(4) bt
  obtain a' where a': "(if big_parity z = 1 then big_modmul b a s m else Some a) = Some a'" "big_rep b n a' ?A"
    by (cases "Z mod 2 = 1") auto
  have A: "?A < M" using less.prems(5) pos_mod_bound [of M "A * S"] b(2) by simp
  from big_modmul_rep(2) [OF m less.prems(2,3) less.prems(2,3)] obtain s' where
    s': "big_modsqr b s m = Some s'" "big_rep b n s' (S * S mod M)" by blast
  have "nat Z = 2 * nat (Z div 2) + nat (Z mod 2)" using Z by (simp add: nat_mod_distrib nat_div_distrib)
  then have "S ^ nat Z = (S * S) ^ nat (Z div 2) * S ^ nat (Z mod 2)" by (simp add: power_add power_mult power2_eq_square)
  then have "A * S ^ nat Z = (if Z mod 2 = 1 then A * S else A) * (S * S) ^ nat (Z div 2)"
    by (cases "Z mod 2 = 1") (simp_all add: mult_ac)
  moreover have "c * (S * S mod M) ^ k mod M = c * (S * S) ^ k mod M" for c k by (metis mod_mult_right_eq power_mod)
  ultimately have pw: "A * S ^ nat Z mod M = ?A * (S * S mod M) ^ nat (Z div 2) mod M" by (simp add: mod_mult_left_eq)
  show ?case
  proof (cases "Z div 2 = 0")
    case True
    then have "powmod_loop b m z s a = Some a'" using a'(1) zz by (subst powmod_loop.simps) (simp add: Let_def)
    moreover have "A * S ^ nat Z mod M = ?A" unfolding pw using True A a'(2) big_rep_bounds [OF a'(2)] by simp
    ultimately show ?thesis using a'(2) by simp
  next
    case False
    then have "0 < Z" using Z(1) by (cases "Z = 0") auto
    then have "nat (Z div 2) < nat Z" by auto
    from less.hyps [OF this z s'(2) mod_room [OF m] a'(2) A] have
      "\<exists>r. powmod_loop b m (big_fshr b 1 z) s' a' = Some r \<and> big_rep b n r (A * S ^ nat Z mod M)" unfolding pw .
    moreover have "powmod_loop b m z s a = powmod_loop b m (big_fshr b 1 z) s' a'"
      using a'(1) zz False s'(1) by (subst powmod_loop.simps) (simp add: Let_def)
    ultimately show ?thesis by simp
  qed
qed

lemma big_rep_norm: "big_rep b n x v \<Longrightarrow> 2 \<le> b \<Longrightarrow> b \<le> 61 \<Longrightarrow> 2 \<le> n \<Longrightarrow> big_rep b n (big_norm b x) v"
  using big_norm_rep [of x n b v] limbs_ok_loose [of b x] big_rep_bounds [of b n x v] by (simp add: big_rep_def)

lemma big_powmod_rep:
  assumes m: "mod_size b n m M" and x: "big_rep b n x v" "2 * v < 2 ^ (b * n)" and e: "big_rep b n e E"
  shows "\<exists>r. big_powmod b x e m = Some r \<and> big_rep b n r (v ^ nat E mod M)"
proof -
  note b = mod_sizeD [OF m]
  have "length x = n" using x(1) by (simp add: big_rep_def)
  moreover have "big_rep b n (big_new_int n 1) 1" using big_rep_one b by simp
  ultimately show ?thesis
    using powmod_loop_ends [OF m big_rep_norm [OF e b(8,9,6)] big_rep_norm [OF x(1) b(8,9,6)] x(2) _ b(2)] by (simp add: big_powmod_def)
qed

end
