(* ===== verification/QC_BigRand.thy ===== *)
theory QC_BigRand
  imports QC_BigMod QC_Rand
begin

text \<open>
  Random big numbers (\<open>nbits\<close> and \<open>randomnum\<close> of \<open>big.rs\<close>): twice as many random bits as the bound has, reduced modulo the
  bound.  Whatever bytes the generator gives, the number is below the bound.
\<close>

unbundle bit_operations_syntax

subsection \<open>The number of bits\<close>

text \<open>How often a limb can be halved, rounding towards zero, before it is zero.\<close>

function limb_bits :: "int \<Rightarrow> nat" where
  "limb_bits c = (if c = 0 then 0 else Suc (limb_bits (c sdiv 2)))"
  by pat_completeness auto
termination by (relation "measure (\<lambda>c. nat \<bar>c\<bar>)") (auto simp: signed_divide_int_def abs_mult sgn_if)

declare limb_bits.simps [simp del]

definition big_nbits :: "nat \<Rightarrow> big \<Rightarrow> nat" where
  "big_nbits b x = (case dropWhile (\<lambda>w. w = 0) (rev (big_norm b x)) of
     [] \<Rightarrow> 0
   | c # lower \<Rightarrow> b * length lower + limb_bits c)"

lemma limb_bits_pos: "c \<noteq> 0 \<Longrightarrow> limb_bits c = Suc (limb_bits c - 1)"
  by (simp add: limb_bits.simps [of c])

lemma limb_bits_bound: "0 \<le> c \<Longrightarrow> c < 2 ^ limb_bits c \<and> (0 < c \<longrightarrow> 2 ^ (limb_bits c - 1) \<le> c)"
proof (induction c rule: limb_bits.induct)
  case (1 c)
  show ?case
  proof (cases "c = 0")
    case False
    let ?h = "c div 2"
    have h: "c sdiv 2 = ?h" "0 \<le> ?h" using 1(2) False by (simp_all add: signed_divide_int_def sgn_if)
    have e: "limb_bits c = Suc (limb_bits ?h)" using False h(1) by (subst limb_bits.simps) simp
    have IH: "?h < 2 ^ limb_bits ?h" "0 < ?h \<longrightarrow> 2 ^ (limb_bits ?h - 1) \<le> ?h" using 1(1) [OF False] h by simp_all
    have "2 ^ limb_bits ?h \<le> c"
    proof (cases "?h = 0")
      case True
      then show ?thesis using 1(2) False by (subst limb_bits.simps) simp
    next
      case h0: False
      then have "limb_bits ?h = Suc (limb_bits ?h - 1)" by (rule limb_bits_pos)
      then have "(2::int) ^ limb_bits ?h = 2 * 2 ^ (limb_bits ?h - 1)" by (metis power_Suc)
      then show ?thesis using IH(2) h(2) h0 by linarith
    qed
    then show ?thesis using IH(1) unfolding e by auto
  qed (simp add: limb_bits.simps)
qed

text \<open>\<open>nbits\<close> is the least exponent of two above the number.\<close>

lemma big_nbits_bound:
  assumes "big_rep b n x v" "2 \<le> b" "b \<le> 61" "2 \<le> n"
  shows "v < 2 ^ big_nbits b x" "0 < v \<Longrightarrow> 2 ^ (big_nbits b x - 1) \<le> v"
proof -
  have r: "big_rep b n (big_norm b x) v" by (rule big_rep_norm [OF assms])
  define ws where "ws = big_norm b x"
  define zs cs where "zs = takeWhile (\<lambda>w. w = 0) (rev ws)" and "cs = dropWhile (\<lambda>w. w = 0) (rev ws)"
  have ws: "limbs_ok b ws" "big_val b ws = v" using r by (simp_all add: big_rep_def ws_def)
  have "ws = rev cs @ rev zs" by (metis cs_def zs_def rev_append rev_rev_ident takeWhile_dropWhile_id)
  moreover have "zs = replicate (length zs) 0" using set_takeWhileD [of _ "\<lambda>w. w = 0" "rev ws"] by (intro replicate_eqI) (auto simp: zs_def)
  then have z: "big_val b (rev zs) = 0" by (metis limbs_ok_zeros(2) rev_replicate)
  ultimately have v: "v = big_val b (rev cs)" "limbs_ok b (rev cs)" using ws by (simp_all add: big_val_append)
  have nb: "big_nbits b x = (case cs of [] \<Rightarrow> 0 | c # lower \<Rightarrow> b * length lower + limb_bits c)" by (simp add: big_nbits_def cs_def ws_def)
  have "v < 2 ^ big_nbits b x \<and> (0 < v \<longrightarrow> 2 ^ (big_nbits b x - 1) \<le> v)"
  proof (cases cs)
    case Nil
    then show ?thesis using v by (simp add: nb)
  next
    case (Cons c lower)
    have "c \<noteq> 0" using Cons hd_dropWhile [of "\<lambda>w. w = 0" "rev ws"] by (simp add: cs_def)
    moreover have l: "limbs_ok b (rev lower)" "0 \<le> c" using v(2) Cons by simp_all
    ultimately have c: "0 < c" "c + 1 \<le> 2 ^ limb_bits c" "2 ^ (limb_bits c - 1) \<le> c" using limb_bits_bound [of c] by auto
    let ?p = "2 ^ (b * length lower) :: int"
    have vv: "v = big_val b (rev lower) + ?p * c" using v(1) Cons by (simp add: big_val_append)
    have lo: "0 \<le> big_val b (rev lower)" "big_val b (rev lower) < ?p" using big_val_bounds [OF l(1)] by simp_all
    have m: "?p * (c + 1) \<le> ?p * 2 ^ limb_bits c" "?p * 2 ^ (limb_bits c - 1) \<le> ?p * c" using c by (intro mult_left_mono; simp)+
    have "?p * (c + 1) = ?p * c + ?p" by (simp add: distrib_left)
    then have "v < ?p * 2 ^ limb_bits c" "?p * 2 ^ (limb_bits c - 1) \<le> v" using m lo vv by linarith+
    moreover have "limb_bits c = Suc (limb_bits c - 1)" using c(1) by (intro limb_bits_pos) simp
    then have "big_nbits b x - 1 = b * length lower + (limb_bits c - 1)" using Cons by (simp add: nb)
    ultimately show ?thesis using Cons by (simp add: nb power_add)
  qed
  then show "v < 2 ^ big_nbits b x" "0 < v \<Longrightarrow> 2 ^ (big_nbits b x - 1) \<le> v" by simp_all
qed

subsection \<open>Random numbers\<close>

text \<open>\<open>k\<close> rounds of the loop: \<open>j\<close> counts the bits taken of the byte \<open>r\<close>.  The number is shifted with \<open>shl\<close>.\<close>

fun rand_bits :: "nat \<Rightarrow> nat \<Rightarrow> nat \<Rightarrow> u8 \<Rightarrow> rng \<Rightarrow> big \<Rightarrow> (rng \<times> big) may_panic" where
  "rand_bits b 0 j r g d = Some (g, d)"
| "rand_bits b (Suc k) j r g d = do {
     (g, r) \<leftarrow> (if j = 0 then rng_getbyte g else Some (g, drop_bit 1 r));
     let d = dbig_shl b 1 d;
     rand_bits b k ((j + 1) AND 7) r g (d[0 := i64 (d ! 0 + (uint r AND 1))])
   }"

definition big_randomnum :: "nat \<Rightarrow> big \<Rightarrow> rng \<Rightarrow> (rng \<times> big) may_panic" where
  "big_randomnum b q g = do {
     (g, d) \<leftarrow> rand_bits b (2 * big_nbits b q) 0 0 g (big_new (2 * length q));
     r \<leftarrow> dbig_dmod b d q;
     Some (g, r)
   }"

lemma rand_bits_rep:
  assumes "rand_bits b k j r g d = Some (g', d')" "big_rep b l d v" "(v + 1) * 2 ^ k \<le> 2 ^ (b * l)" "2 \<le> b" "b \<le> 61" "2 \<le> l"
  shows "\<exists>v'. big_rep b l d' v' \<and> v' < (v + 1) * 2 ^ k"
  using assms(1-3)
proof (induction k arbitrary: j r g d v)
  case (Suc k)
  from Suc.prems(1) obtain g1 r1 where
    s: "rand_bits b k ((j + 1) AND 7) r1 g1 ((dbig_shl b 1 d)[0 := i64 (dbig_shl b 1 d ! 0 + (uint r1 AND 1))]) = Some (g', d')"
    by (auto simp: bind_eq_Some_conv Let_def)
  define d1 where "d1 = (dbig_shl b 1 d)[0 := i64 (dbig_shl b 1 d ! 0 + (uint r1 AND 1))]"
  have d: "limbs_ok b d" "length d = l" "big_val b d = v" "0 \<le> v" using Suc.prems(2) big_rep_bounds [OF Suc.prems(2)] by (simp_all add: big_rep_def)
  have bit: "0 \<le> uint r1 AND 1" "uint r1 AND 1 < 2 ^ 1" by (simp_all add: and_one_eq)
  have "2 * (v + 1) * 1 \<le> 2 * (v + 1) * 2 ^ k" using d(4) by (intro mult_left_mono) simp_all
  also have "\<dots> = (v + 1) * 2 ^ Suc k" by simp
  finally have room: "2 * (v + 1) \<le> 2 ^ (b * l)" using Suc.prems(3) by linarith
  have e: "dbig_shl b 1 d = big_fshl b 1 d" using dbig_shl_eq [of 1 b d] assms(4,6) d(2) by simp
  have sa: "limbs_ok b d1" "big_val b d1 = 2 * v + (uint r1 AND 1)" "length d1 = l"
    using shift_add [of b d 1 "uint r1 AND 1"] d assms(4-6) room bit unfolding d1_def e by (simp_all add: Let_def)
  then have rep: "big_rep b l d1 (2 * v + (uint r1 AND 1))" by (simp add: big_rep_def)
  have "(2 * v + (uint r1 AND 1) + 1) * 2 ^ k \<le> (2 * v + 2) * 2 ^ k" using bit by (intro mult_right_mono) simp_all
  also have "\<dots> = (v + 1) * 2 ^ Suc k" by (simp add: algebra_simps)
  finally have le: "(2 * v + (uint r1 AND 1) + 1) * 2 ^ k \<le> (v + 1) * 2 ^ Suc k" .
  with Suc.prems(3) have "(2 * v + (uint r1 AND 1) + 1) * 2 ^ k \<le> 2 ^ (b * l)" by linarith
  from Suc.IH [OF s [folded d1_def] rep this] le show ?case by (meson less_le_trans)
qed auto

lemma rand_bits_os: "\<exists>f' d'. rand_bits b k j r (RngOs f) d = Some (RngOs f', d')"
  by (induction k arbitrary: j r f d) (simp_all add: Let_def)

lemma big_randomnum_below:
  assumes q: "mod_size b n q Q" "4 * Q \<le> 2 ^ (b * n)"
  shows "big_randomnum b q g = Some (g', x) \<Longrightarrow> \<exists>v. big_rep b n x v \<and> v < Q" "\<exists>f' x. big_randomnum b q (RngOs f) = Some (RngOs f', x)"
proof -
  note b = mod_sizeD [OF q(1)]
  let ?k = "big_nbits b q"
  have len: "length q = n" using b(1) by (simp add: big_rep_def)
  have Q: "Q < 2 ^ ?k" "2 ^ (?k - 1) \<le> Q" using big_nbits_bound [OF b(1,8,9,6)] b(2) by simp_all
  have "?k \<noteq> 0" using Q(1) b(2) by (cases "?k = 0") simp_all
  then have "(2::int) ^ ?k = 2 * 2 ^ (?k - 1)" by (metis power_minus_mult mult.commute neq0_conv)
  then have "(2::int) ^ (?k + 1) \<le> 2 ^ (b * n)" using Q(2) q(2) by simp
  then have "?k + 1 \<le> b * n" by (metis numeral_1_eq_Suc_0 one_less_numeral_iff power_le_imp_le_exp semiring_norm(76))
  then have k: "2 * ?k + 1 \<le> b * (2 * n)" by simp
  have pw: "(2::int) ^ (2 * ?k + 1) \<le> 2 ^ (b * (2 * n))" by (rule power_increasing [OF k]) simp
  have z: "big_rep b (2 * n) (big_new (2 * n)) 0" by (rule big_rep_zero)
  have dm: "\<exists>r. dbig_dmod b d q = Some r \<and> (\<exists>v. big_rep b n r v \<and> v < Q)" if "rand_bits b (2 * ?k) 0 0 g (big_new (2 * n)) = Some (g', d)" for g g' d
  proof -
    from rand_bits_rep [OF that z] k b(6,8,9) obtain v where v: "big_rep b (2 * n) d v" "v < 2 ^ (2 * ?k)" by auto
    have "2 * v < 2 ^ (b * (2 * n))" using v(2) pw by simp
    with dbig_dmod_rep [OF q(1), of d v] v(1) pos_mod_bound [of Q v] b(2) show ?thesis by (force simp: big_rep_def)
  qed
  show "\<exists>v. big_rep b n x v \<and> v < Q" if "big_randomnum b q g = Some (g', x)"
    using that dm by (fastforce simp: big_randomnum_def bind_eq_Some_conv len)
  obtain f' d where "rand_bits b (2 * ?k) 0 0 (RngOs f) (big_new (2 * n)) = Some (RngOs f', d)" using rand_bits_os by blast
  with dm [OF this] show "\<exists>f' x. big_randomnum b q (RngOs f) = Some (RngOs f', x)" by (auto simp: big_randomnum_def len)
qed

end
