(* ===== verification/QC_BigInt.thy ===== *)
theory QC_BigInt
  imports QC_BigRand QC_Common
begin

text \<open>
  The implementation of \<open>SizedBigInt\<close> on limbs (the trait \<open>FixedSizeInt\<close>, which \<open>derive_big_impl\<close> implements for \<open>Bls12381BIG\<close>, \<open>Bn254BIG\<close> and \<open>Ed25519BIG\<close>).  On
  the numbers the schemes use it refines the integers of \<open>QC_Group\<close>: each operation returns, and its
  limbs are those of the result on integers.  Here \<open>None\<close> is a panic or a loop that does not end.
\<close>

unbundle bit_operations_syntax

subsection \<open>Operations\<close>

datatype fixed_size_int = FSI (fsi_group: group) (fsi_value: big)

definition fsi_new_int :: "group \<Rightarrow> int \<Rightarrow> fixed_size_int may_panic" where
  "fsi_new_int g i = (if is_dl g then Some (FSI g (big_new_int (NLEN g) i)) else None)"

definition fsi_from_bytes :: "group \<Rightarrow> bytes \<Rightarrow> fixed_size_int may_panic" where
  "fsi_from_bytes g bs = (if is_dl g then map_option (FSI g) (big_frombytes (BASEBITS g) (NLEN g) (modbytes g) bs) else None)"

definition fsi_rmod :: "fixed_size_int \<Rightarrow> fixed_size_int \<Rightarrow> fixed_size_int may_panic" where
  "fsi_rmod x y = (let g = fsi_group x in
     if fsi_group y = g then map_option (FSI g) (big_rmod (BASEBITS g) (fsi_value x) (fsi_value y)) else None)"

definition fsi_mul_mod :: "fixed_size_int \<Rightarrow> fixed_size_int \<Rightarrow> fixed_size_int \<Rightarrow> fixed_size_int may_panic" where
  "fsi_mul_mod x y m = (let g = fsi_group x in
     if fsi_group y = g \<and> fsi_group m = g
     then map_option (FSI g) (dbig_dmod (BASEBITS g) (big_mul (BASEBITS g) (fsi_value x) (fsi_value y)) (fsi_value m)) else None)"

definition fsi_add :: "fixed_size_int \<Rightarrow> fixed_size_int \<Rightarrow> fixed_size_int may_panic" where
  "fsi_add x y = (if fsi_group y = fsi_group x then Some (FSI (fsi_group x) (big_add (fsi_value x) (fsi_value y))) else None)"

definition fsi_to_bytes :: "fixed_size_int \<Rightarrow> bytes" where
  "fsi_to_bytes x = (let g = fsi_group x in big_tobytes (BASEBITS g) (modbytes g) (fsi_value x))"

definition fsi_pow_mod :: "fixed_size_int \<Rightarrow> fixed_size_int \<Rightarrow> fixed_size_int \<Rightarrow> fixed_size_int may_panic" where
  "fsi_pow_mod x y m = (let g = fsi_group x in
     if fsi_group y = g \<and> fsi_group m = g
     then map_option (FSI g) (big_powmod (BASEBITS g) (fsi_value x) (fsi_value y) (fsi_value m)) else None)"

definition fsi_inv_mod :: "fixed_size_int \<Rightarrow> fixed_size_int \<Rightarrow> fixed_size_int may_panic" where
  "fsi_inv_mod x m = (let g = fsi_group x in
     if fsi_group m = g then map_option (FSI g) (big_invmodp (BASEBITS g) (fsi_value x) (fsi_value m)) else None)"

definition fsi_sub :: "fixed_size_int \<Rightarrow> fixed_size_int \<Rightarrow> fixed_size_int may_panic" where
  "fsi_sub x y = (if fsi_group y = fsi_group x then Some (FSI (fsi_group x) (big_sub (fsi_value x) (fsi_value y))) else None)"

definition fsi_equals :: "fixed_size_int \<Rightarrow> fixed_size_int \<Rightarrow> bool" where
  "fsi_equals x y = (fsi_group y = fsi_group x \<and> big_comp (BASEBITS (fsi_group x)) (fsi_value x) (fsi_value y) = 0)"

definition fsi_cmp :: "fixed_size_int \<Rightarrow> fixed_size_int \<Rightarrow> int may_panic" where
  "fsi_cmp x y = (if fsi_group y = fsi_group x then Some (big_comp (BASEBITS (fsi_group x)) (fsi_value x) (fsi_value y)) else None)"

definition fsi_new_rand :: "fixed_size_int \<Rightarrow> rng \<Rightarrow> (rng \<times> fixed_size_int) may_panic" where
  "fsi_new_rand q g = map_option (\<lambda>(g', r). (g', FSI (fsi_group q) r)) (big_randomnum (BASEBITS (fsi_group q)) (fsi_value q) g)"

subsection \<open>The integers they stand for\<close>

definition fsi_abs :: "fixed_size_int \<Rightarrow> sized_big_int" where
  "fsi_abs x = SBI (fsi_group x) (big_val (BASEBITS (fsi_group x)) (fsi_value x))"

text \<open>Numbers as \<open>from_bytes\<close> and the reductions leave them: digits, and a value of at most \<open>MODBYTES\<close> bytes.\<close>

definition fsi_ok :: "group \<Rightarrow> fixed_size_int \<Rightarrow> bool" where
  "fsi_ok g x = (is_dl g \<and> fsi_group x = g \<and> length (fsi_value x) = NLEN g \<and> limbs_ok (BASEBITS g) (fsi_value x) \<and> sb_val (fsi_abs x) < 256 ^ modbytes g)"

text \<open>What an operation on limbs returns is the limbs of what the operation on integers returns.\<close>

definition fsi_refines :: "group \<Rightarrow> fixed_size_int may_panic \<Rightarrow> sized_big_int may_panic \<Rightarrow> bool" where
  "fsi_refines g c a = (case c of None \<Rightarrow> False | Some r \<Rightarrow> fsi_ok g r \<and> a = Some (fsi_abs r))"

lemma group_sizes:
  assumes "is_dl g"
  shows "8 \<le> BASEBITS g" "BASEBITS g \<le> 60" "2 \<le> NLEN g" "NLEN g \<le> 16" "8 * modbytes g + 2 \<le> BASEBITS g * NLEN g"
  using assms by (cases g; simp add: NLEN_def)+

lemma group_room:
  assumes "is_dl g"
  shows "4 * 256 ^ modbytes g \<le> (2::int) ^ (BASEBITS g * NLEN g)"
proof -
  have "4 * 256 ^ modbytes g = (2::int) ^ (8 * modbytes g + 2)" by (simp add: power_mult power_add)
  also have "\<dots> \<le> 2 ^ (BASEBITS g * NLEN g)" using group_sizes(5) [OF assms] by (intro power_increasing) simp_all
  finally show ?thesis .
qed

lemma fsi_ok_rep:
  "fsi_ok g x \<longleftrightarrow> is_dl g \<and> fsi_group x = g \<and> big_rep (BASEBITS g) (NLEN g) (fsi_value x) (sb_val (fsi_abs x)) \<and> sb_val (fsi_abs x) < 256 ^ modbytes g"
  by (auto simp: fsi_ok_def big_rep_def fsi_abs_def)

lemma fsi_okD:
  assumes "fsi_ok g x"
  shows "is_dl g" "fsi_group x = g" "big_rep (BASEBITS g) (NLEN g) (fsi_value x) (sb_val (fsi_abs x))" "0 \<le> sb_val (fsi_abs x)"
    "sb_val (fsi_abs x) < 256 ^ modbytes g" "2 * sb_val (fsi_abs x) < 2 ^ (BASEBITS g * NLEN g)" "sb_group (fsi_abs x) = g"
proof -
  show d: "is_dl g" "fsi_group x = g" and r: "big_rep (BASEBITS g) (NLEN g) (fsi_value x) (sb_val (fsi_abs x))" and l: "sb_val (fsi_abs x) < 256 ^ modbytes g"
    using assms by (simp_all add: fsi_ok_rep)
  show "0 \<le> sb_val (fsi_abs x)" using big_rep_bounds [OF r] by simp
  show "2 * sb_val (fsi_abs x) < 2 ^ (BASEBITS g * NLEN g)" using group_room [OF d(1)] l big_rep_bounds [OF r] by linarith
  show "sb_group (fsi_abs x) = g" by (simp add: fsi_abs_def d(2))
qed

lemma fsi_modulus:
  assumes "fsi_ok g m" "1 < sb_val (fsi_abs m)"
  shows "mod_size (BASEBITS g) (NLEN g) (fsi_value m) (sb_val (fsi_abs m))" "4 * sb_val (fsi_abs m) \<le> 2 ^ (BASEBITS g * NLEN g)"
  using fsi_okD [OF assms(1)] group_sizes [of g] group_room [of g] assms(2) by (simp_all add: mod_size_def)

lemma fsi_refinesI:
  assumes "\<exists>r. c = Some r \<and> big_rep (BASEBITS g) (NLEN g) r v" "is_dl g" "v < 256 ^ modbytes g" "a = Some (SBI g v)"
  shows "fsi_refines g (map_option (FSI g) c) a"
  using assms by (auto simp: fsi_refines_def fsi_ok_rep fsi_abs_def big_rep_def)

lemma mod_below: "1 < m \<Longrightarrow> m < k \<Longrightarrow> v mod m < (k :: int)"
  using pos_mod_bound [of m v] by linarith

lemma fsi_sum_rep:
  assumes "fsi_ok g x" "fsi_ok g y"
  shows "limbs_loose (big_add (fsi_value x) (fsi_value y))" "length (big_add (fsi_value x) (fsi_value y)) = NLEN g"
    "big_val (BASEBITS g) (big_add (fsi_value x) (fsi_value y)) = sb_val (fsi_abs x) + sb_val (fsi_abs y)"
    "2 * (sb_val (fsi_abs x) + sb_val (fsi_abs y)) < 2 ^ (BASEBITS g * NLEN g)"
    "limbs_loose (big_sub (fsi_value x) (fsi_value y))" "length (big_sub (fsi_value x) (fsi_value y)) = NLEN g"
    "big_val (BASEBITS g) (big_sub (fsi_value x) (fsi_value y)) = sb_val (fsi_abs x) - sb_val (fsi_abs y)"
proof -
  let ?b = "BASEBITS g"
  note x = fsi_okD [OF assms(1)] and y = fsi_okD [OF assms(2)]
  have "?b \<le> 61" using group_sizes(2) [OF x(1)] by simp
  then have s: "\<forall>v\<in>set (fsi_value x). \<bar>v\<bar> < 2 ^ 61" "\<forall>v\<in>set (fsi_value y). \<bar>v\<bar> < 2 ^ 61"
    using limbs_ok_small [of ?b "fsi_value x"] limbs_ok_small [of ?b "fsi_value y"] x(3) y(3) by (simp_all add: big_rep_def)
  have l: "length (fsi_value x) = length (fsi_value y)" "length (fsi_value x) = NLEN g" "big_val ?b (fsi_value x) = sb_val (fsi_abs x)"
    "big_val ?b (fsi_value y) = sb_val (fsi_abs y)" using x(3) y(3) by (simp_all add: big_rep_def)
  from big_add_facts [OF l(1) s, of ?b] l(2-) show "limbs_loose (big_add (fsi_value x) (fsi_value y))" "length (big_add (fsi_value x) (fsi_value y)) = NLEN g"
    "big_val ?b (big_add (fsi_value x) (fsi_value y)) = sb_val (fsi_abs x) + sb_val (fsi_abs y)"
    "limbs_loose (big_sub (fsi_value x) (fsi_value y))" "length (big_sub (fsi_value x) (fsi_value y)) = NLEN g"
    "big_val ?b (big_sub (fsi_value x) (fsi_value y)) = sb_val (fsi_abs x) - sb_val (fsi_abs y)" by simp_all
  show "2 * (sb_val (fsi_abs x) + sb_val (fsi_abs y)) < 2 ^ (?b * NLEN g)" 
    using group_room [OF x(1)] x(5) y(5) unfolding distrib_left by linarith
qed

lemma fsi_rmod_refines:
  assumes "fsi_ok g x" "fsi_ok g m" "1 < sb_val (fsi_abs m)"
  shows "fsi_refines g (fsi_rmod x m) (sb_rmod (fsi_abs x) (fsi_abs m))"
proof -
  note x = fsi_okD [OF assms(1)] and m = fsi_okD [OF assms(2)]
  have "fsi_refines g (map_option (FSI g) (big_rmod (BASEBITS g) (fsi_value x) (fsi_value m))) (sb_rmod (fsi_abs x) (fsi_abs m))"
    by (rule fsi_refinesI [OF big_rmod_digits [OF fsi_modulus(1) [OF assms(2,3)] x(3,6)] x(1) mod_below [OF assms(3) m(5)]]) (simp add: sb_rmod_def x m)
  then show ?thesis by (simp add: fsi_rmod_def x(2) m(2))
qed

lemma fsi_add_rmod_refines:
  assumes "fsi_ok g x" "fsi_ok g y" "fsi_ok g m" "1 < sb_val (fsi_abs m)"
  shows "fsi_refines g (do { s \<leftarrow> fsi_add x y; fsi_rmod s m }) (do { s \<leftarrow> sb_add (fsi_abs x) (fsi_abs y); sb_rmod s (fsi_abs m) })"
proof -
  note x = fsi_okD [OF assms(1)] and y = fsi_okD [OF assms(2)] and m = fsi_okD [OF assms(3)] and s = fsi_sum_rep [OF assms(1,2)]
  have "0 \<le> sb_val (fsi_abs x) + sb_val (fsi_abs y)" using x(4) y(4) by simp
  note r = big_rmod_rep [OF fsi_modulus(1) [OF assms(3,4)] s(1-3) this s(4)]
  have "fsi_refines g (map_option (FSI g) (big_rmod (BASEBITS g) (big_add (fsi_value x) (fsi_value y)) (fsi_value m)))
      (do { s \<leftarrow> sb_add (fsi_abs x) (fsi_abs y); sb_rmod s (fsi_abs m) })"
    by (rule fsi_refinesI [OF r x(1) mod_below [OF assms(4) m(5)]]) (simp add: sb_add_def sb_rmod_def x y m)
  then show ?thesis by (simp add: fsi_add_def fsi_rmod_def x(2) y(2) m(2))
qed

lemma fsi_mul_mod_refines:
  assumes "fsi_ok g x" "fsi_ok g y" "fsi_ok g m" "1 < sb_val (fsi_abs m)"
  shows "fsi_refines g (fsi_mul_mod x y m) (sb_mul_mod (fsi_abs x) (fsi_abs y) (fsi_abs m))"
    "fsi_refines g (fsi_pow_mod x y m) (sb_pow_mod (fsi_abs x) (fsi_abs y) (fsi_abs m))"
proof -
  note x = fsi_okD [OF assms(1)] and y = fsi_okD [OF assms(2)] and m = fsi_okD [OF assms(3)] and ms = fsi_modulus(1) [OF assms(3,4)]
  have "fsi_refines g (map_option (FSI g) (dbig_dmod (BASEBITS g) (big_mul (BASEBITS g) (fsi_value x) (fsi_value y)) (fsi_value m)))
      (sb_mul_mod (fsi_abs x) (fsi_abs y) (fsi_abs m))"
    by (rule fsi_refinesI [OF mul_dmod_rep(1) [OF ms x(3,6) y(3,6)] x(1) mod_below [OF assms(4) m(5)]]) (simp add: sb_mul_mod_def x y m)
  then show "fsi_refines g (fsi_mul_mod x y m) (sb_mul_mod (fsi_abs x) (fsi_abs y) (fsi_abs m))" by (simp add: fsi_mul_mod_def x(2) y(2) m(2))
  have "fsi_refines g (map_option (FSI g) (big_powmod (BASEBITS g) (fsi_value x) (fsi_value y) (fsi_value m)))
      (sb_pow_mod (fsi_abs x) (fsi_abs y) (fsi_abs m))"
    by (rule fsi_refinesI [OF big_powmod_rep [OF ms x(3,6) y(3)] x(1) mod_below [OF assms(4) m(5)]]) (simp add: sb_pow_mod_def x y m)
  then show "fsi_refines g (fsi_pow_mod x y m) (sb_pow_mod (fsi_abs x) (fsi_abs y) (fsi_abs m))" by (simp add: fsi_pow_mod_def x(2) y(2) m(2))
qed

text \<open>Limbs that stand for a number in range, digits or not, are inverted modulo an odd number.\<close>

lemma fsi_inv_mod_loose:
  assumes m: "fsi_ok g m" "1 < sb_val (fsi_abs m)" "odd (sb_val (fsi_abs m))"
    and w: "limbs_loose w" "length w = NLEN g" "big_val (BASEBITS g) w = v" "0 \<le> v" "2 * v < 2 ^ (BASEBITS g * NLEN g)"
    and c: "sb_val (fsi_abs m) dvd v \<or> coprime v (sb_val (fsi_abs m))"
  shows "fsi_refines g (fsi_inv_mod (FSI g w) m) (sb_inv_mod (SBI g v) (fsi_abs m))"
proof -
  note m' = fsi_okD [OF m(1)] and ms = fsi_modulus(1) [OF m(1,2)]
  have "\<exists>r. big_invmodp (BASEBITS g) w (fsi_value m) = Some r \<and> big_rep (BASEBITS g) (NLEN g) r (inv_mod v (sb_val (fsi_abs m)))"
    using big_invmodp_eq [OF mod_sizeD(8,5,6) [OF ms] w(1,2) _ _ mod_sizeD(1) [OF ms] m(3,2) mod_sizeD(3) [OF ms]] w(3-5) c by simp
  moreover have "inv_mod v (sb_val (fsi_abs m)) < 256 ^ modbytes g" using inv_mod_range [of "sb_val (fsi_abs m)" v] m(2) m'(5) by simp
  ultimately have "fsi_refines g (map_option (FSI g) (big_invmodp (BASEBITS g) w (fsi_value m))) (sb_inv_mod (SBI g v) (fsi_abs m))"
    by (rule fsi_refinesI [OF _ m'(1)]) (simp add: sb_inv_mod_def m')
  then show ?thesis by (simp add: fsi_inv_mod_def m'(2))
qed

lemma fsi_inv_mod_refines:
  assumes "fsi_ok g x" "fsi_ok g y" "fsi_ok g m" "1 < sb_val (fsi_abs m)" "odd (sb_val (fsi_abs m))"
  shows "sb_val (fsi_abs m) dvd sb_val (fsi_abs x) \<or> coprime (sb_val (fsi_abs x)) (sb_val (fsi_abs m))
      \<Longrightarrow> fsi_refines g (fsi_inv_mod x m) (sb_inv_mod (fsi_abs x) (fsi_abs m))"
    "sb_val (fsi_abs y) \<le> sb_val (fsi_abs x) \<Longrightarrow> coprime (sb_val (fsi_abs x) - sb_val (fsi_abs y)) (sb_val (fsi_abs m))
      \<Longrightarrow> fsi_refines g (do { s \<leftarrow> fsi_sub x y; fsi_inv_mod s m }) (do { s \<leftarrow> sb_sub (fsi_abs x) (fsi_abs y); sb_inv_mod s (fsi_abs m) })"
proof -
  note x = fsi_okD [OF assms(1)] and y = fsi_okD [OF assms(2)] and s = fsi_sum_rep [OF assms(1,2)]
  have "BASEBITS g \<le> 61" using group_sizes(2) [OF x(1)] by simp
  then have w: "limbs_loose (fsi_value x)" "length (fsi_value x) = NLEN g" "big_val (BASEBITS g) (fsi_value x) = sb_val (fsi_abs x)"
    using limbs_ok_loose x(3) by (auto simp: big_rep_def)
  have e: "FSI g (fsi_value x) = x" "SBI g (sb_val (fsi_abs x)) = fsi_abs x" using x(2,7) by (simp_all add: fsi_abs_def) (cases x, simp)
  show "fsi_refines g (fsi_inv_mod x m) (sb_inv_mod (fsi_abs x) (fsi_abs m))"
    if "sb_val (fsi_abs m) dvd sb_val (fsi_abs x) \<or> coprime (sb_val (fsi_abs x)) (sb_val (fsi_abs m))"
    using fsi_inv_mod_loose [OF assms(3-5) w x(4,6) that] unfolding e .
  assume le: "sb_val (fsi_abs y) \<le> sb_val (fsi_abs x)" and c: "coprime (sb_val (fsi_abs x) - sb_val (fsi_abs y)) (sb_val (fsi_abs m))"
  have "0 \<le> sb_val (fsi_abs x) - sb_val (fsi_abs y)" "2 * (sb_val (fsi_abs x) - sb_val (fsi_abs y)) < 2 ^ (BASEBITS g * NLEN g)"
    using le x(6) y(4) by (linarith, simp add: right_diff_distrib)
  from fsi_inv_mod_loose [OF assms(3-5) s(5-7) this] c
  show "fsi_refines g (do { s \<leftarrow> fsi_sub x y; fsi_inv_mod s m }) (do { s \<leftarrow> sb_sub (fsi_abs x) (fsi_abs y); sb_inv_mod s (fsi_abs m) })"
    by (simp add: fsi_sub_def sb_sub_def x(2,7) y(2,7))
qed

lemma fsi_bytes_refines:
  shows "is_dl g \<Longrightarrow> modbytes g \<le> length bs \<Longrightarrow> fsi_refines g (fsi_from_bytes g bs) (sb_from_bytes g bs)"
    "fsi_ok g x \<Longrightarrow> fsi_to_bytes x = sb_to_bytes (fsi_abs x)"
proof -
  assume g: "is_dl g" "modbytes g \<le> length bs"
  note z = group_sizes [OF g(1)]
  have "BASEBITS g \<le> 61" "8 * modbytes g \<le> BASEBITS g * NLEN g" using z by simp_all
  from big_frombytes_eq [OF z(1) this(1) z(3) this(2) g(2)]
  have r: "\<exists>r. big_frombytes (BASEBITS g) (NLEN g) (modbytes g) bs = Some r \<and> big_rep (BASEBITS g) (NLEN g) r (be_value (take (modbytes g) bs))"
    by (auto simp: big_rep_def)
  have "be_value (take (modbytes g) bs) < 256 ^ modbytes g" using be_value_less [of "take (modbytes g) bs"] g(2) by (simp add: min_absorb2)
  then have "fsi_refines g (map_option (FSI g) (big_frombytes (BASEBITS g) (NLEN g) (modbytes g) bs)) (sb_from_bytes g bs)"
    by (rule fsi_refinesI [OF r g(1)]) (simp add: sb_from_bytes_def g)
  then show "fsi_refines g (fsi_from_bytes g bs) (sb_from_bytes g bs)" by (simp add: fsi_from_bytes_def g(1))
next
  assume "fsi_ok g x"
  note x = fsi_okD [OF this]
  have b: "BASEBITS g \<le> 61" "8 \<le> BASEBITS g" "2 \<le> NLEN g" using group_sizes [OF x(1)] by simp_all
  have "big_tobytes (BASEBITS g) (modbytes g) (fsi_value x) = be_bytes (modbytes g) (big_val (BASEBITS g) (fsi_value x))"
    by (rule big_tobytes_eq) (use b x(3,4) limbs_ok_loose big_rep_bounds [OF x(3)] in \<open>auto simp: big_rep_def\<close>)
  then show "fsi_to_bytes x = sb_to_bytes (fsi_abs x)" by (simp add: fsi_to_bytes_def sb_to_bytes_def fsi_abs_def x(2))
qed

lemma fsi_cmp_eq:
  assumes "fsi_ok g x" "fsi_ok g y"
  shows "fsi_equals x y = sb_equals (fsi_abs x) (fsi_abs y)" "fsi_cmp x y = Some (sgn (sb_val (fsi_abs x) - sb_val (fsi_abs y)))"
proof -
  note x = fsi_okD [OF assms(1)] and y = fsi_okD [OF assms(2)]
  have "BASEBITS g \<le> 61" using group_sizes(2) [OF x(1)] by simp
  note c = big_comp_rep [OF x(3) y(3) this]
  show "fsi_equals x y = sb_equals (fsi_abs x) (fsi_abs y)" using c x y by (auto simp: fsi_equals_def sb_equals_def)
  show "fsi_cmp x y = Some (sgn (sb_val (fsi_abs x) - sb_val (fsi_abs y)))" using c x y by (auto simp: fsi_cmp_def)
qed

lemma fsi_new_rand_below:
  assumes "fsi_ok g q" "1 < sb_val (fsi_abs q)"
  shows "fsi_new_rand q rng = Some (rng', r) \<Longrightarrow> fsi_ok g r \<and> sb_val (fsi_abs r) < sb_val (fsi_abs q)"
    "\<exists>f' r. fsi_new_rand q (RngOs f) = Some (RngOs f', r)"
proof -
  note q = fsi_okD [OF assms(1)]
  note d = big_randomnum_below [OF fsi_modulus [OF assms]]
  show "fsi_ok g r \<and> sb_val (fsi_abs r) < sb_val (fsi_abs q)" if draw: "fsi_new_rand q rng = Some (rng', r)"
  proof -
    from draw obtain x where x: "big_randomnum (BASEBITS g) (fsi_value q) rng = Some (rng', x)" "r = FSI g x" by (auto simp: fsi_new_rand_def q(2))
    from d(1) [OF x(1)] q(5) show ?thesis by (auto simp: fsi_ok_rep fsi_abs_def big_rep_def x(2) q(1))
  qed
  show "\<exists>f' r. fsi_new_rand q (RngOs f) = Some (RngOs f', r)" using d(2) [of f] by (auto simp: fsi_new_rand_def q(2))
qed

text \<open>Small numbers fill one limb.\<close>

lemma fsi_new_int_refines:
  assumes "is_dl g" "0 \<le> i" "i < 2 ^ 56"
  shows "fsi_refines g (fsi_new_int g i) (sb_new_int g i)"
proof -
  obtain n where n: "NLEN g = Suc n" using group_sizes(3) [OF assms(1)] by (cases "NLEN g") auto
  have "(2::int) ^ 56 \<le> 2 ^ BASEBITS g" using assms(1) by (cases g) simp_all
  moreover have "(2::int) ^ 56 \<le> 256 ^ modbytes g" using assms(1) by (cases g) simp_all
  ultimately have "i < 2 ^ BASEBITS g" "i < 256 ^ modbytes g" using assms(3) by linarith+
  then show ?thesis using assms(1,2) limbs_ok_zeros [of "BASEBITS g" n]
    by (simp add: fsi_refines_def fsi_new_int_def sb_new_int_def fsi_ok_def fsi_abs_def n big_new_int_def big_new_def)
qed

definition fsi_small :: "group \<Rightarrow> int \<Rightarrow> fixed_size_int" where
  "fsi_small g i = FSI g (big_new_int (NLEN g) i)"

lemma fsi_small_ok:
  assumes "is_dl g" "0 \<le> i" "i < 2 ^ 56"
  shows "fsi_ok g (fsi_small g i)" "fsi_abs (fsi_small g i) = SBI g i"
  using fsi_new_int_refines [OF assms] assms(1) by (simp_all add: fsi_refines_def fsi_new_int_def sb_new_int_def fsi_small_def)

subsection \<open>The refinement\<close>

text \<open>
  C5.  On limbs as bytes and reductions leave them, and a modulus above one, the operations of the
  \<open>SizedBigInt\<close> implementation return, whatever the curve, the limbs of what the operations on integers return: small numbers, reading and writing
  bytes, reduction, sums and products modulo, powers, comparisons, and inverses modulo an odd number, also of a difference that has
  not been normalised.  No addition, shift or product of limbs overflows on the way.
\<close>

theorem limbs_refine_integers:
  assumes "fsi_ok g x" "fsi_ok g y" "fsi_ok g m" "1 < sb_val (fsi_abs m)"
  shows "(\<forall>i. 0 \<le> i \<and> i < 2 ^ 56 \<longrightarrow> fsi_refines g (fsi_new_int g i) (sb_new_int g i))
    \<and> (\<forall>bs. modbytes g \<le> length bs \<longrightarrow> fsi_refines g (fsi_from_bytes g bs) (sb_from_bytes g bs))
    \<and> fsi_to_bytes x = sb_to_bytes (fsi_abs x)
    \<and> fsi_refines g (fsi_rmod x m) (sb_rmod (fsi_abs x) (fsi_abs m))
    \<and> fsi_refines g (do { s \<leftarrow> fsi_add x y; fsi_rmod s m }) (do { s \<leftarrow> sb_add (fsi_abs x) (fsi_abs y); sb_rmod s (fsi_abs m) })
    \<and> fsi_refines g (fsi_mul_mod x y m) (sb_mul_mod (fsi_abs x) (fsi_abs y) (fsi_abs m))
    \<and> fsi_refines g (fsi_pow_mod x y m) (sb_pow_mod (fsi_abs x) (fsi_abs y) (fsi_abs m))
    \<and> (odd (sb_val (fsi_abs m)) \<and> coprime (sb_val (fsi_abs x)) (sb_val (fsi_abs m))
        \<longrightarrow> fsi_refines g (fsi_inv_mod x m) (sb_inv_mod (fsi_abs x) (fsi_abs m)))
    \<and> (odd (sb_val (fsi_abs m)) \<and> sb_val (fsi_abs y) \<le> sb_val (fsi_abs x) \<and> coprime (sb_val (fsi_abs x) - sb_val (fsi_abs y)) (sb_val (fsi_abs m))
        \<longrightarrow> fsi_refines g (do { s \<leftarrow> fsi_sub x y; fsi_inv_mod s m }) (do { s \<leftarrow> sb_sub (fsi_abs x) (fsi_abs y); sb_inv_mod s (fsi_abs m) }))
    \<and> fsi_equals x y = sb_equals (fsi_abs x) (fsi_abs y)
    \<and> fsi_cmp x y = Some (sgn (sb_val (fsi_abs x) - sb_val (fsi_abs y)))"
proof -
  note bytes = fsi_bytes_refines(1) [OF fsi_okD(1) [OF assms(1)]] fsi_bytes_refines(2) [OF assms(1)]
  note modular = fsi_rmod_refines [OF assms(1,3,4)] fsi_add_rmod_refines [OF assms] fsi_mul_mod_refines [OF assms]
  show ?thesis by (intro conjI allI impI fsi_new_int_refines fsi_okD(1) [OF assms(1)] bytes modular fsi_cmp_eq [OF assms(1,2)] fsi_inv_mod_refines [OF assms]) auto
qed

theorem limbs_refine_integers_witness:
  "fsi_refines Bls12381 (fsi_mul_mod (fsi_small Bls12381 9) (fsi_small Bls12381 5) (fsi_small Bls12381 11)) (Some (SBI Bls12381 1))
   \<and> fsi_refines Ed25519 (fsi_inv_mod (fsi_small Ed25519 9) (fsi_small Ed25519 11)) (Some (SBI Ed25519 5))"
proof -
  have g: "is_dl Bls12381" "is_dl Ed25519" by simp_all
  have c: "coprime (9::int) 11" by code_simp
  have i: "inv_mod 9 11 = 5" by code_simp
  have s: "fsi_ok g (fsi_small g 9)" "fsi_ok g (fsi_small g 5)" "fsi_ok g (fsi_small g 11)" "fsi_abs (fsi_small g 9) = SBI g 9"
    "fsi_abs (fsi_small g 5) = SBI g 5" "fsi_abs (fsi_small g 11) = SBI g 11" if "is_dl g" for g using fsi_small_ok [OF that] by simp_all
  show ?thesis
    using limbs_refine_integers [of Bls12381 "fsi_small Bls12381 9" "fsi_small Bls12381 5" "fsi_small Bls12381 11"]
      limbs_refine_integers [of Ed25519 "fsi_small Ed25519 9" "fsi_small Ed25519 5" "fsi_small Ed25519 11"]
      s [OF g(1)] s [OF g(2)] c i
    by (simp add: sb_mul_mod_def sb_inv_mod_def)
qed

subsection \<open>Random draws\<close>

text \<open>Several calls of \<open>new_rand\<close> with one bound, as the schemes make them.\<close>

fun fsi_draws :: "fixed_size_int \<Rightarrow> nat \<Rightarrow> rng \<Rightarrow> fixed_size_int list may_panic" where
  "fsi_draws q 0 rng = Some []"
| "fsi_draws q (Suc n) rng = do {
     (rng, r) \<leftarrow> fsi_new_rand q rng;
     rs \<leftarrow> fsi_draws q n rng;
     Some (r # rs)
   }"

lemma fsi_draws_all:
  assumes "fsi_ok g q" "1 < sb_val (fsi_abs q)"
  shows "fsi_draws q n rng = Some rs \<Longrightarrow> length rs = n \<and> (\<forall>r\<in>set rs. fsi_ok g r \<and> sb_val (fsi_abs r) < sb_val (fsi_abs q))"
    "\<exists>rs. fsi_draws q n (RngOs f) = Some rs"
proof -
  show "fsi_draws q n rng = Some rs \<Longrightarrow> length rs = n \<and> (\<forall>r\<in>set rs. fsi_ok g r \<and> sb_val (fsi_abs r) < sb_val (fsi_abs q))"
    by (induction n arbitrary: rng rs) (auto simp: bind_eq_Some_conv dest!: fsi_new_rand_below(1) [OF assms])
  show "\<exists>rs. fsi_draws q n (RngOs f) = Some rs"
  proof (induction n arbitrary: f)
    case (Suc n)
    obtain f' r where "fsi_new_rand q (RngOs f) = Some (RngOs f', r)" using fsi_new_rand_below(2) [OF assms] by blast
    then show ?case using Suc.IH [of f'] by auto
  qed simp
qed

text \<open>
  C3.  Whatever bytes the generator gives, the numbers a sequence of calls of \<open>new_rand\<close> returns are reduced and below
  the bound: the hypothesis \<open>draws_ok\<close> of the schemes holds of them.  With the operating system's generator every call returns.
\<close>

theorem random_draws_below:
  assumes "fsi_ok g q" "1 < sb_val (fsi_abs q)"
  shows "(\<forall>rs. fsi_draws q n rng = Some rs \<longrightarrow> length rs = n \<and> list_all (fsi_ok g) rs
        \<and> draws_ok (sb_val (fsi_abs q)) (\<lambda>i. if i < n then sb_val (fsi_abs (rs ! i)) else 0))
    \<and> (\<exists>rs. fsi_draws q n (RngOs f) = Some rs)"
proof -
  have "length rs = n \<and> list_all (fsi_ok g) rs \<and> draws_ok (sb_val (fsi_abs q)) (\<lambda>i. if i < n then sb_val (fsi_abs (rs ! i)) else 0)"
    if "fsi_draws q n rng = Some rs" for rs
  proof -
    from fsi_draws_all(1) [OF assms that] have r: "length rs = n" "\<forall>r\<in>set rs. fsi_ok g r \<and> sb_val (fsi_abs r) < sb_val (fsi_abs q)" by simp_all
    then have "0 \<le> sb_val (fsi_abs (rs ! i)) \<and> sb_val (fsi_abs (rs ! i)) < sb_val (fsi_abs q)" if "i < n" for i
      using that fsi_okD(4) nth_mem by blast
    then show ?thesis using r assms(2) by (simp add: list_all_iff draws_ok_def)
  qed
  then show ?thesis using fsi_draws_all(2) [OF assms] by blast
qed

theorem random_draws_below_witness: "\<exists>rs. fsi_draws (fsi_small Bls12381 251) 3 (RngOs (\<lambda>i. 0)) = Some rs \<and> length rs = 3"
proof -
  have "fsi_ok Bls12381 (fsi_small Bls12381 251)" "1 < sb_val (fsi_abs (fsi_small Bls12381 251))" using fsi_small_ok [of Bls12381 251] by simp_all
  from random_draws_below [OF this, of 3 "RngOs (\<lambda>i. 0)" "\<lambda>i. 0"] show ?thesis by blast
qed

end
