(* ===== verification/QC_Config.thy ===== *)
theory QC_Config
  imports QC_Prelude
begin

text \<open>
  Configuration: the files of servers and clients (\<open>utils/src/server/types.rs\<close>, \<open>utils/src/client/types.rs\<close>, the stub's
  \<open>cli/types.rs\<close>), the network's view of them (\<open>network/src/types/config.rs\<close>), the program that generates them
  (\<open>bin/confgen.rs\<close>) and how a server starts its network from one (\<open>bin/server.rs\<close>, \<open>network/src/p2p/p2p_component.rs\<close>,
  \<open>network/src/proxy/proxyp2p.rs\<close>).

  \<open>serde_json\<close> is a parameter, one \<open>json_format\<close> per type; reading a file is an argument, the files written are the result (writing succeeds).
  The parser of IP addresses and the splitting into lines are those of Rust's standard library.
\<close>

subsection \<open>IP addresses\<close>

datatype ip_addr = V4 "nat list" | V6 "nat list"

definition digit_val :: "char \<Rightarrow> nat option" where
  "digit_val c =
     (let n = of_char c :: nat in
      if 48 \<le> n \<and> n \<le> 57 then Some (n - 48)
      else if 97 \<le> n \<and> n \<le> 102 then Some (n - 87)
      else if 65 \<le> n \<and> n \<le> 70 then Some (n - 55)
      else None)"

definition is_digit :: "nat \<Rightarrow> char \<Rightarrow> bool" where
  "is_digit radix c = (case digit_val c of None \<Rightarrow> False | Some d \<Rightarrow> d < radix)"

definition digits_val :: "nat \<Rightarrow> string \<Rightarrow> nat" where
  "digits_val radix ds = foldl (\<lambda>v c. v * radix + the (digit_val c)) 0 ds"

text \<open>All digits at the front are read; too many of them, a leading zero in a decimal number, or a number that is too large are errors.\<close>

definition read_number :: "nat \<Rightarrow> nat \<Rightarrow> nat \<Rightarrow> bool \<Rightarrow> string \<Rightarrow> (nat \<times> string) option" where
  "read_number radix max_digits max_val zero_prefix s =
     (let ds = takeWhile (is_digit radix) s; v = digits_val radix ds in
      if ds = [] \<or> max_digits < length ds \<or> \<not> zero_prefix \<and> 1 < length ds \<and> digit_val (hd ds) = Some 0 \<or> max_val < v then None
      else Some (v, dropWhile (is_digit radix) s))"

definition read_separator :: "char \<Rightarrow> nat \<Rightarrow> string \<Rightarrow> string option" where
  "read_separator sep i s = (if i = 0 then Some s else case s of [] \<Rightarrow> None | c # s' \<Rightarrow> if c = sep then Some s' else None)"

fun read_ipv4_groups :: "nat \<Rightarrow> nat \<Rightarrow> string \<Rightarrow> (nat list \<times> string) option" where
  "read_ipv4_groups 0 i s = Some ([], s)"
| "read_ipv4_groups (Suc k) i s = do {
     s \<leftarrow> read_separator (CHR ''.'') i s;
     (v, s) \<leftarrow> read_number 10 3 255 False s;
     (vs, s) \<leftarrow> read_ipv4_groups k (i + 1) s;
     Some (v # vs, s)
   }"

definition read_ipv4_addr :: "string \<Rightarrow> (nat list \<times> string) option" where
  "read_ipv4_addr s = read_ipv4_groups 4 0 s"

text \<open>Groups of an IPv6 address, at most \<open>k\<close> more; an IPv4 address may take the place of the last two.\<close>

fun read_groups :: "nat \<Rightarrow> nat \<Rightarrow> string \<Rightarrow> nat list \<times> bool \<times> string" where
  "read_groups 0 i s = ([], False, s)"
| "read_groups (Suc k) i s =
     (case (if 0 < k then Option.bind (read_separator (CHR '':'') i s) read_ipv4_addr else None) of
        Some (v, r) \<Rightarrow> ([v ! 0 * 256 + v ! 1, v ! 2 * 256 + v ! 3], True, r)
      | None \<Rightarrow>
          (case Option.bind (read_separator (CHR '':'') i s) (read_number 16 4 65535 True) of
             None \<Rightarrow> ([], False, s)
           | Some (g, r) \<Rightarrow> (let (gs, v4, r) = read_groups k (i + 1) r in (g # gs, v4, r))))"

definition read_ipv6_addr :: "string \<Rightarrow> (nat list \<times> string) option" where
  "read_ipv6_addr s =
     (let (head, v4, r) = read_groups 8 0 s in
      if length head = 8 then Some (head, r)
      else if v4 then None
      else case r of
        c # c' # r' \<Rightarrow>
          if c = CHR '':'' \<and> c' = CHR '':''
          then let (tail, _, r'') = read_groups (7 - length head) 0 r'
               in Some (head @ replicate (8 - length head - length tail) 0 @ tail, r'')
          else None
      | _ \<Rightarrow> None)"

definition parse_ip :: "string \<Rightarrow> ip_addr option" where
  "parse_ip s =
     (case read_ipv4_addr s of
        Some (a, r) \<Rightarrow> if r = [] then Some (V4 a) else None
      | None \<Rightarrow> (case read_ipv6_addr s of Some (a, r) \<Rightarrow> if r = [] then Some (V6 a) else None | None \<Rightarrow> None))"

text \<open>\<open>IpAddr::from_str\<close>, with the text of its error.\<close>

definition ip_from_str :: "string \<Rightarrow> string + ip_addr" where
  "ip_from_str s = (case parse_ip s of None \<Rightarrow> Err ''invalid IP address syntax'' | Some a \<Rightarrow> Ok a)"

text \<open>Decimal notation.\<close>

fun dec :: "nat \<Rightarrow> string" where
  "dec n = (if n < 10 then [char_of (48 + n)] else dec (n div 10) @ [char_of (48 + n mod 10)])"

declare dec.simps [simp del]

subsection \<open>Configuration of servers\<close>

record peer =
  peer_id :: u32
  peer_ip :: string
  peer_p2p_port :: u16

record proxy_node =
  pxn_ip :: string
  pxn_port :: u16

record server_config =
  sc_id :: u32
  sc_listen_address :: string
  sc_rpc_port :: u16
  sc_peers :: "peer list"
  sc_proxy_node :: "proxy_node option"
  sc_event_file :: "string option"

text \<open>\<open>serde_json\<close> for one type.\<close>

record 't json_format =
  json_to_string :: "'t \<Rightarrow> string + string"
  json_from_str :: "string \<Rightarrow> string + 't"

text \<open>The check of the addresses, the same in the three configurations: the first invalid one is reported.\<close>

fun check_peer_ips :: "(u32 \<times> string) list \<Rightarrow> string + unit" where
  "check_peer_ips [] = Ok ()"
| "check_peer_ips ((i, ip) # ps) =
     (case ip_from_str ip of
        Inl e \<Rightarrow> Err (''Invalid IP for peer '' @ dec (unat i) @ '': '' @ e)
      | Inr _ \<Rightarrow> check_peer_ips ps)"

definition server_config_new ::
  "u32 \<Rightarrow> string \<Rightarrow> u16 \<Rightarrow> peer list \<Rightarrow> proxy_node option \<Rightarrow> string option \<Rightarrow> string + server_config" where
  "server_config_new i listen_address rpc_port peers proxy event_file =
     (case ip_from_str listen_address of
        Inl e \<Rightarrow> Err (''Invalid value for LISTEN_ADDRESS: '' @ e)
      | Inr _ \<Rightarrow>
          (case check_peer_ips (map (\<lambda>p. (peer_id p, peer_ip p)) peers) of
             Inl e \<Rightarrow> Err e
           | Inr _ \<Rightarrow> Ok \<lparr>sc_id = i, sc_listen_address = listen_address, sc_rpc_port = rpc_port, sc_peers = peers,
               sc_proxy_node = proxy, sc_event_file = event_file\<rparr>))"

definition server_config_from_json :: "server_config json_format \<Rightarrow> string \<Rightarrow> string + server_config" where
  "server_config_from_json S data =
     (case json_from_str S data of
        Inl e \<Rightarrow> Err (''Invalid JSON: '' @ e)
      | Inr cfg \<Rightarrow> server_config_new (sc_id cfg) (sc_listen_address cfg) (sc_rpc_port cfg) (sc_peers cfg) (sc_proxy_node cfg) (sc_event_file cfg))"

definition server_config_from_file :: "server_config json_format \<Rightarrow> string + string \<Rightarrow> string + server_config" where
  "server_config_from_file S read =
     (case read of
        Inl e \<Rightarrow> Err (''Error reading config file: '' @ e)
      | Inr data \<Rightarrow> (case server_config_from_json S data of Inl e \<Rightarrow> Err (''Error parsing config file: '' @ e) | Inr cfg \<Rightarrow> Ok cfg))"

definition self_peer :: "server_config \<Rightarrow> peer option" where
  "self_peer cfg = find (\<lambda>p. peer_id p = sc_id cfg) (sc_peers cfg)"

definition my_p2p_port :: "server_config \<Rightarrow> string + u16" where
  "my_p2p_port cfg =
     (case self_peer cfg of
        Some p \<Rightarrow> Ok (peer_p2p_port p)
      | None \<Rightarrow> Err (''Config for server with ID '' @ dec (unat (sc_id cfg)) @ '' not found in list of configured peers''))"

definition peer_ids :: "server_config \<Rightarrow> u32 list" where
  "peer_ids cfg = map peer_id (sc_peers cfg)"

definition peer_ips :: "server_config \<Rightarrow> string list" where
  "peer_ips cfg = map peer_ip (sc_peers cfg)"

definition peer_p2p_ports :: "server_config \<Rightarrow> u16 list" where
  "peer_p2p_ports cfg = map peer_p2p_port (sc_peers cfg)"

subsection \<open>Configurations of clients and of the stub\<close>

record peer_public_info =
  ppi_id :: u32
  ppi_ip :: string
  ppi_rpc_port :: u16

record client_config =
  cc_peers :: "peer_public_info list"

definition client_config_new :: "peer_public_info list \<Rightarrow> string + client_config" where
  "client_config_new peers =
     (case check_peer_ips (map (\<lambda>p. (ppi_id p, ppi_ip p)) peers) of Inl e \<Rightarrow> Err e | Inr _ \<Rightarrow> Ok \<lparr>cc_peers = peers\<rparr>)"

definition client_config_from_json :: "client_config json_format \<Rightarrow> string \<Rightarrow> string + client_config" where
  "client_config_from_json C data =
     (case json_from_str C data of Inl e \<Rightarrow> Err (''Invalid JSON: '' @ e) | Inr cfg \<Rightarrow> client_config_new (cc_peers cfg))"

definition client_config_from_file :: "client_config json_format \<Rightarrow> string + string \<Rightarrow> string + client_config" where
  "client_config_from_file C read =
     (case read of
        Inl e \<Rightarrow> Err (''Error reading config file: '' @ e)
      | Inr data \<Rightarrow> (case client_config_from_json C data of Inl e \<Rightarrow> Err (''Error parsing config file: '' @ e) | Inr cfg \<Rightarrow> Ok cfg))"

record peer_p2p_info =
  p2i_id :: u32
  p2i_ip :: string
  p2i_p2p_port :: u16

record p2p_config =
  p2c_peers :: "peer_p2p_info list"

definition p2p_config_new :: "peer_p2p_info list \<Rightarrow> string + p2p_config" where
  "p2p_config_new peers =
     (case check_peer_ips (map (\<lambda>p. (p2i_id p, p2i_ip p)) peers) of Inl e \<Rightarrow> Err e | Inr _ \<Rightarrow> Ok \<lparr>p2c_peers = peers\<rparr>)"

definition p2p_config_from_json :: "p2p_config json_format \<Rightarrow> string \<Rightarrow> string + p2p_config" where
  "p2p_config_from_json P data =
     (case json_from_str P data of Inl e \<Rightarrow> Err (''Invalid JSON: '' @ e) | Inr cfg \<Rightarrow> p2p_config_new (p2c_peers cfg))"

definition p2p_config_from_file :: "p2p_config json_format \<Rightarrow> string + string \<Rightarrow> string + p2p_config" where
  "p2p_config_from_file P read =
     (case read of
        Inl e \<Rightarrow> Err (''Error reading config file: '' @ e)
      | Inr data \<Rightarrow> (case p2p_config_from_json P data of Inl e \<Rightarrow> Err (''Error parsing config file: '' @ e) | Inr cfg \<Rightarrow> Ok cfg))"

subsection \<open>The network's view\<close>

record network_peer =
  np_id :: u32
  np_ip :: string
  np_port :: u16

record network_proxy =
  npx_ip :: string
  npx_port :: u16

record network_config =
  nc_local_peer :: network_peer
  nc_peers :: "network_peer list option"
  nc_proxy :: "network_proxy option"
  nc_base_listen_address :: string

definition network_peer_new :: "peer \<Rightarrow> network_peer" where
  "network_peer_new p = \<lparr>np_id = peer_id p, np_ip = peer_ip p, np_port = peer_p2p_port p\<rparr>"

definition network_peer_default :: network_peer where
  "network_peer_default = \<lparr>np_id = 0, np_ip = [], np_port = 0\<rparr>"

definition network_proxy_new :: "proxy_node \<Rightarrow> network_proxy" where
  "network_proxy_new p = \<lparr>npx_ip = pxn_ip p, npx_port = pxn_port p\<rparr>"

definition network_config_new :: "server_config \<Rightarrow> string + network_config" where
  "network_config_new cfg =
     (let local_peer = (case self_peer cfg of Some p \<Rightarrow> network_peer_new p | None \<Rightarrow> network_peer_default) in
      if local_peer = network_peer_default then Err ''No local information to setup the peer''
      else
        let server_peers = map network_peer_new (sc_peers cfg) in
        Ok \<lparr>nc_local_peer = local_peer, nc_peers = (if 1 < length server_peers then Some server_peers else None),
          nc_proxy = map_option network_proxy_new (sc_proxy_node cfg), nc_base_listen_address = sc_listen_address cfg\<rparr>)"

text \<open>The listening address in the notation of libp2p, whose parser is a parameter.\<close>

definition get_p2p_listen_addr :: "(string \<Rightarrow> 'addr option) \<Rightarrow> network_config \<Rightarrow> 'addr may_panic" where
  "get_p2p_listen_addr parse nc =
     parse (''/ip4/'' @ nc_base_listen_address nc @ ''/tcp/'' @ dec (unat (np_port (nc_local_peer nc))))"

text \<open>What \<open>start_server\<close> does before it spawns its tasks: the network it builds, and the port it announces.\<close>

datatype network_kind = Standalone | Proxied

definition start_network :: "server_config \<Rightarrow> (string + network_kind \<times> network_config \<times> u16) may_panic" where
  "start_network cfg =
     (case network_config_new cfg of
        Inl e \<Rightarrow> Some (Err e)
      | Inr net_cfg \<Rightarrow>
          (case my_p2p_port cfg of
             Inl _ \<Rightarrow> None
           | Inr port \<Rightarrow> Some (Ok (if sc_proxy_node cfg \<noteq> None then Proxied else Standalone, net_cfg, port))))"

text \<open>
  How the network manager's channel starts, up to its sockets: the peer-to-peer component parses its own and every peer's address as IPv4
  and needs a list of peers, the proxy listens on all interfaces.  The parser of libp2p and its \<open>push\<close> are parameters; binding succeeds.
\<close>

datatype 'addr gossip_channel = P2PChannel 'addr "'addr list" | ProxyChannel string u16

definition get_dial_addr :: "(string \<Rightarrow> 'addr option) \<Rightarrow> ('addr \<Rightarrow> u16 \<Rightarrow> 'addr) \<Rightarrow> network_peer \<Rightarrow> 'addr may_panic" where
  "get_dial_addr parse push p = do {
     dial_addr \<leftarrow> parse (''/ip4/'' @ np_ip p);
     Some (push dial_addr (np_port p))
   }"

definition p2p_init :: "(string \<Rightarrow> 'addr option) \<Rightarrow> ('addr \<Rightarrow> u16 \<Rightarrow> 'addr) \<Rightarrow> network_config \<Rightarrow> 'addr gossip_channel may_panic" where
  "p2p_init parse push nc = do {
     listen_addr \<leftarrow> get_p2p_listen_addr parse nc;
     peers \<leftarrow> nc_peers nc;
     dial_addrs \<leftarrow> mapM (get_dial_addr parse push) peers;
     Some (P2PChannel listen_addr dial_addrs)
   }"

definition proxy_init :: "network_config \<Rightarrow> 'addr gossip_channel may_panic" where
  "proxy_init nc = Some (ProxyChannel ''0.0.0.0'' (np_port (nc_local_peer nc)))"

definition gossip_init ::
  "(string \<Rightarrow> 'addr option) \<Rightarrow> ('addr \<Rightarrow> u16 \<Rightarrow> 'addr) \<Rightarrow> network_kind \<Rightarrow> network_config \<Rightarrow> 'addr gossip_channel may_panic" where
  "gossip_init parse push kind nc = (case kind of Standalone \<Rightarrow> p2p_init parse push nc | Proxied \<Rightarrow> proxy_init nc)"

subsection \<open>Generating configurations\<close>

datatype port_strategy = Consecutive | Static

text \<open>\<open>str::lines\<close>: the pieces between line feeds, each without a carriage return at its end; an empty last piece does not count.\<close>

fun split_lines :: "string \<Rightarrow> string list" where
  "split_lines [] = [[]]"
| "split_lines (c # s) = (if c = CHR 0x0A then [] # split_lines s else case split_lines s of [] \<Rightarrow> [[c]] | l # ls \<Rightarrow> (c # l) # ls)"

definition str_lines :: "string \<Rightarrow> string list" where
  "str_lines s =
     (let ls = split_lines s; ls = (if last ls = [] then butlast ls else ls)
      in map (\<lambda>l. if l \<noteq> [] \<and> last l = CHR 0x0D then butlast l else l) ls)"

fun check_ips :: "string list \<Rightarrow> string + string list" where
  "check_ips [] = Ok []"
| "check_ips (l # ls) =
     (case ip_from_str l of
        Inl e \<Rightarrow> Err (''Error reading IPs from file. '' @ l @ '' was not a valid IP: '' @ e)
      | Inr _ \<Rightarrow> (case check_ips ls of Inl e \<Rightarrow> Err e | Inr ips \<Rightarrow> Ok (l # ips)))"

definition network_targets_from_file :: "string + string \<Rightarrow> bool \<Rightarrow> string + string list" where
  "network_targets_from_file read require_ip =
     (case read of
        Inl e \<Rightarrow> Err (''Error reading IPs: '' @ e)
      | Inr input \<Rightarrow> if \<not> require_ip then Ok (str_lines input) else check_ips (str_lines input))"

text \<open>
  The port of server \<open>i\<close>, from 0.  \<open>try_from\<close> panics when \<open>i + 1\<close> does not fit; the sum panics when it overflows in a build with overflow
  checks and wraps in one without.
\<close>

fun port_for :: "bool \<Rightarrow> port_strategy \<Rightarrow> u16 \<Rightarrow> nat \<Rightarrow> u16 may_panic" where
  "port_for checks Consecutive port i =
     (if 65536 \<le> i + 1 \<or> checks \<and> 65536 \<le> unat port + (i + 1) then None else Some (port + of_nat (i + 1)))"
| "port_for checks Static port i = Some port"

definition id_for :: "nat \<Rightarrow> u32 may_panic" where
  "id_for i = (if i + 1 < 2 ^ 32 then Some (of_nat (i + 1)) else None)"

definition unwrap_ok :: "'e + 'a \<Rightarrow> 'a may_panic" where
  "unwrap_ok r = (case r of Inl _ \<Rightarrow> None | Inr x \<Rightarrow> Some x)"

record confgen_cli =
  cg_rpc_port :: u16
  cg_p2p_port :: u16
  cg_listen_address :: string
  cg_port_strategy :: port_strategy
  cg_ip_file :: string
  cg_shuffle_peers :: bool
  cg_event_file :: "string option"
  cg_outdir :: string
  cg_integration :: bool
  cg_integration_file :: "string option"
  cg_proxy_port :: "u16 option"
  cg_stub :: bool

definition gen_peers :: "bool \<Rightarrow> confgen_cli \<Rightarrow> string list \<Rightarrow> peer list may_panic" where
  "gen_peers checks cli ips = mapM (\<lambda>(i, ip). do {
     port \<leftarrow> port_for checks (cg_port_strategy cli) (cg_p2p_port cli) i;
     pid \<leftarrow> id_for i;
     Some \<lparr>peer_id = pid, peer_ip = ip, peer_p2p_port = port\<rparr>
   }) (List.enumerate 0 ips)"

text \<open>The proxy of a server: with the stub all servers have the same one, else ports follow the strategy.\<close>

definition gen_proxy :: "bool \<Rightarrow> confgen_cli \<Rightarrow> string list option \<Rightarrow> nat \<Rightarrow> string \<Rightarrow> proxy_node option may_panic" where
  "gen_proxy checks cli proxies i ip =
     (case cg_proxy_port cli of
        Some p \<Rightarrow>
          if proxies \<noteq> None then do {
            port \<leftarrow> (if cg_port_strategy cli = Consecutive \<and> cg_stub cli then Some p else port_for checks (cg_port_strategy cli) p i);
            Some (Some \<lparr>pxn_ip = ip, pxn_port = port\<rparr>)
          } else Some None
      | None \<Rightarrow> Some None)"

definition gen_server :: "bool \<Rightarrow> confgen_cli \<Rightarrow> string list option \<Rightarrow> peer list \<Rightarrow> nat \<times> string \<Rightarrow> server_config may_panic" where
  "gen_server checks cli proxies peers = (\<lambda>(i, ip). do {
     port \<leftarrow> port_for checks (cg_port_strategy cli) (cg_rpc_port cli) i;
     proxy \<leftarrow> gen_proxy checks cli proxies i ip;
     sid \<leftarrow> id_for i;
     unwrap_ok (server_config_new sid (cg_listen_address cli) port peers proxy (cg_event_file cli))
   })"

definition save_server :: "server_config json_format \<Rightarrow> server_config \<Rightarrow> (string \<times> string) may_panic" where
  "save_server S cfg = do {
     data \<leftarrow> unwrap_ok (json_to_string S cfg);
     Some (''server_'' @ dec (unat (sc_id cfg)) @ ''.json'', data)
   }"

definition create_and_save_stub_config :: "p2p_config json_format \<Rightarrow> peer_p2p_info list \<Rightarrow> (string \<times> string) may_panic" where
  "create_and_save_stub_config P peers = do {
     cfg \<leftarrow> unwrap_ok (p2p_config_new peers);
     data \<leftarrow> unwrap_ok (json_to_string P cfg);
     Some (''stub.json'', data)
   }"

definition gen_public_peers :: "bool \<Rightarrow> confgen_cli \<Rightarrow> peer list \<Rightarrow> peer_public_info list may_panic" where
  "gen_public_peers checks cli peers = mapM (\<lambda>(i, p). do {
     port \<leftarrow> port_for checks (cg_port_strategy cli) (cg_rpc_port cli) i;
     Some \<lparr>ppi_id = peer_id p, ppi_ip = peer_ip p, ppi_rpc_port = port\<rparr>
   }) (List.enumerate 0 peers)"

text \<open>The files written, in order.\<close>

definition generate_configs ::
  "bool \<Rightarrow> server_config json_format \<Rightarrow> p2p_config json_format \<Rightarrow> client_config json_format \<Rightarrow> confgen_cli \<Rightarrow> string list \<Rightarrow> string list option \<Rightarrow>
   (string \<times> string) list may_panic" where
  "generate_configs checks S P C cli ips proxies = do {
     peers \<leftarrow> gen_peers checks cli ips;
     let ip_list = (case proxies of None \<Rightarrow> ips | Some ps \<Rightarrow> ps);
     configs \<leftarrow> mapM (gen_server checks cli proxies peers) (List.enumerate 0 ip_list);
     files \<leftarrow> mapM (save_server S) configs;
     stub_file \<leftarrow> (if cg_stub cli
       then map_option (\<lambda>f. [f]) (create_and_save_stub_config P (map (\<lambda>p. \<lparr>p2i_id = peer_id p, p2i_ip = peer_ip p, p2i_p2p_port = peer_p2p_port p\<rparr>) peers))
       else Some []);
     public_peers \<leftarrow> gen_public_peers checks cli peers;
     client \<leftarrow> unwrap_ok (client_config_new public_peers);
     data \<leftarrow> unwrap_ok (json_to_string C client);
     Some (files @ stub_file @ [(''client.json'', data)])
   }"

text \<open>
  \<open>main\<close>: \<open>read\<close> gives the contents of a file or an error, \<open>outdir\<close> the result of the checks of the output directory.  The program
  exits with a code or writes files.
\<close>

definition confgen_main ::
  "bool \<Rightarrow> server_config json_format \<Rightarrow> p2p_config json_format \<Rightarrow> client_config json_format \<Rightarrow> (string \<Rightarrow> string + string) \<Rightarrow> (string \<Rightarrow> string + unit) \<Rightarrow>
   confgen_cli \<Rightarrow> (nat + (string \<times> string) list) may_panic" where
  "confgen_main checks S P C read outdir cli =
     (case network_targets_from_file (read (cg_ip_file cli)) True of
        Inl e \<Rightarrow> Some (Err 1)
      | Inr ips \<Rightarrow>
          (case (case cg_integration_file cli of
               None \<Rightarrow> Ok None
             | Some path \<Rightarrow> (case network_targets_from_file (read path) False of Inl e \<Rightarrow> Err e | Inr ps \<Rightarrow> Ok (Some ps))) of
             Inl e \<Rightarrow> Some (Err 1)
           | Inr proxies \<Rightarrow>
               (case outdir (cg_outdir cli) of
                  Inl e \<Rightarrow> Some (Err 1)
                | Inr _ \<Rightarrow> map_option Ok (generate_configs checks S P C cli ips proxies))))"

subsection \<open>What is generated\<close>

definition json_reads :: "'t json_format \<Rightarrow> 't \<Rightarrow> bool" where
  "json_reads F x = (\<exists>s. json_to_string F x = Ok s \<and> json_from_str F s = Ok x)"

fun port_of :: "port_strategy \<Rightarrow> u16 \<Rightarrow> nat \<Rightarrow> u16" where
  "port_of Consecutive port i = port + of_nat (i + 1)"
| "port_of Static port i = port"

definition ports_fit :: "bool \<Rightarrow> port_strategy \<Rightarrow> u16 \<Rightarrow> nat \<Rightarrow> bool" where
  "ports_fit checks strategy port n = (strategy = Consecutive \<longrightarrow> n < 65536 \<and> (checks \<longrightarrow> unat port + n < 65536))"

definition peers_of :: "confgen_cli \<Rightarrow> string list \<Rightarrow> peer list" where
  "peers_of cli ips = map (\<lambda>i. \<lparr>peer_id = of_nat (i + 1), peer_ip = ips ! i, peer_p2p_port = port_of (cg_port_strategy cli) (cg_p2p_port cli) i\<rparr>) [0..<length ips]"

definition config_of :: "bool \<Rightarrow> confgen_cli \<Rightarrow> string list \<Rightarrow> string list option \<Rightarrow> nat \<Rightarrow> server_config" where
  "config_of checks cli ips proxies i =
     \<lparr>sc_id = of_nat (i + 1), sc_listen_address = cg_listen_address cli, sc_rpc_port = port_of (cg_port_strategy cli) (cg_rpc_port cli) i,
      sc_peers = peers_of cli ips, sc_proxy_node = the (gen_proxy checks cli proxies i (case proxies of None \<Rightarrow> ips ! i | Some ps \<Rightarrow> ps ! i)), sc_event_file = cg_event_file cli\<rparr>"

definition client_of :: "confgen_cli \<Rightarrow> string list \<Rightarrow> client_config" where
  "client_of cli ips = \<lparr>cc_peers = map (\<lambda>i. \<lparr>ppi_id = of_nat (i + 1), ppi_ip = ips ! i, ppi_rpc_port = port_of (cg_port_strategy cli) (cg_rpc_port cli) i\<rparr>) [0..<length ips]\<rparr>"

lemma enumerate_nth: "List.enumerate 0 xs = map (\<lambda>i. (i, xs ! i)) [0..<length xs]"
  by (rule nth_equalityI) (simp_all add: nth_enumerate_eq)

lemma port_for_of: "ports_fit checks strategy port n \<Longrightarrow> i < n \<Longrightarrow> port_for checks strategy port i = Some (port_of strategy port i)"
  by (cases strategy) (auto simp: ports_fit_def)

lemma check_peer_ips_ok: "\<forall>(i, ip)\<in>set ps. parse_ip ip \<noteq> None \<Longrightarrow> check_peer_ips ps = Ok ()"
  by (induction ps rule: check_peer_ips.induct) (auto simp: ip_from_str_def)

lemma id_for_of: "i + 1 < 2 ^ 32 \<Longrightarrow> id_for i = Some (of_nat (i + 1))"
  by (simp add: id_for_def)

lemma gen_peers_eq:
  assumes "ports_fit checks (cg_port_strategy cli) (cg_p2p_port cli) (length ips)" "length ips < 2 ^ 32"
  shows "gen_peers checks cli ips = Some (peers_of cli ips)"
proof -
  have "mapM (\<lambda>(i, ip). do { port \<leftarrow> port_for checks (cg_port_strategy cli) (cg_p2p_port cli) i; pid \<leftarrow> id_for i; Some \<lparr>peer_id = pid, peer_ip = ip, peer_p2p_port = port\<rparr> })
      (map (\<lambda>i. (i, ips ! i)) [0..<length ips])
    = Some (map (\<lambda>(i, ip). \<lparr>peer_id = of_nat (i + 1), peer_ip = ip, peer_p2p_port = port_of (cg_port_strategy cli) (cg_p2p_port cli) i\<rparr>) (map (\<lambda>i. (i, ips ! i)) [0..<length ips]))"
    by (rule mapM_Some) (use port_for_of [OF assms(1)] assms(2) in \<open>auto simp: id_for_def\<close>)
  then show ?thesis by (simp add: gen_peers_def enumerate_nth peers_of_def comp_def)
qed

lemma peers_of_ips: "\<forall>ip\<in>set ips. parse_ip ip \<noteq> None \<Longrightarrow> check_peer_ips (map (\<lambda>p. (peer_id p, peer_ip p)) (peers_of cli ips)) = Ok ()"
  by (rule check_peer_ips_ok) (auto simp: peers_of_def)

lemma server_config_new_ok:
  assumes "\<forall>ip\<in>set ips. parse_ip ip \<noteq> None" "parse_ip l \<noteq> None"
  shows "server_config_new i l port (peers_of cli ips) proxy ev
    = Ok \<lparr>sc_id = i, sc_listen_address = l, sc_rpc_port = port, sc_peers = peers_of cli ips, sc_proxy_node = proxy, sc_event_file = ev\<rparr>"
  using peers_of_ips [OF assms(1)] assms(2) by (auto simp: server_config_new_def ip_from_str_def)

definition ip_list :: "string list \<Rightarrow> string list option \<Rightarrow> string list" where
  "ip_list ips proxies = (case proxies of None \<Rightarrow> ips | Some ps \<Rightarrow> ps)"

definition confgen_ok :: "bool \<Rightarrow> confgen_cli \<Rightarrow> string list \<Rightarrow> string list option \<Rightarrow> bool" where
  "confgen_ok checks cli ips proxies =
     ((\<forall>ip\<in>set ips. parse_ip ip \<noteq> None) \<and> parse_ip (cg_listen_address cli) \<noteq> None
      \<and> length ips < 2 ^ 32 \<and> length (ip_list ips proxies) < 2 ^ 32
      \<and> ports_fit checks (cg_port_strategy cli) (cg_p2p_port cli) (length ips)
      \<and> ports_fit checks (cg_port_strategy cli) (cg_rpc_port cli) (length ips)
      \<and> ports_fit checks (cg_port_strategy cli) (cg_rpc_port cli) (length (ip_list ips proxies))
      \<and> (\<forall>p. cg_proxy_port cli = Some p \<and> \<not> cg_stub cli \<longrightarrow> ports_fit checks (cg_port_strategy cli) p (length (ip_list ips proxies))))"

lemma gen_proxy_total:
  assumes ok: "confgen_ok checks cli ips proxies" and i: "i < length (ip_list ips proxies)"
  shows "\<exists>px. gen_proxy checks cli proxies i ip = Some px"
proof (cases "cg_port_strategy cli = Consecutive \<and> cg_stub cli")
  case False
  have "\<forall>p. cg_proxy_port cli = Some p \<and> \<not> cg_stub cli \<longrightarrow> ports_fit checks (cg_port_strategy cli) p (length (ip_list ips proxies))"
    using ok by (simp add: confgen_ok_def)
  with False show ?thesis using port_for_of [OF _ i]
    by (cases "cg_port_strategy cli") (auto simp: gen_proxy_def simp del: port_for.simps(1) split: option.split)
qed (auto simp: gen_proxy_def split: option.split)

lemma gen_server_eq:
  assumes ok: "confgen_ok checks cli ips proxies" and i: "i < length (ip_list ips proxies)"
  shows "gen_server checks cli proxies (peers_of cli ips) (i, ip_list ips proxies ! i) = Some (config_of checks cli ips proxies i)"
proof -
  have o: "\<forall>ip\<in>set ips. parse_ip ip \<noteq> None" "parse_ip (cg_listen_address cli) \<noteq> None" "length (ip_list ips proxies) < 2 ^ 32"
    "ports_fit checks (cg_port_strategy cli) (cg_rpc_port cli) (length (ip_list ips proxies))"
    using ok by (simp_all add: confgen_ok_def)
  have ip: "ip_list ips proxies ! i = (case proxies of None \<Rightarrow> ips ! i | Some ps \<Rightarrow> ps ! i)" by (simp add: ip_list_def split: option.split)
  have "\<exists>px. gen_proxy checks cli proxies i (ip_list ips proxies ! i) = Some px" by (rule gen_proxy_total [OF ok i])
  moreover have "id_for i = Some (of_nat (i + 1))" using i o(3) by (intro id_for_of) simp
  ultimately show ?thesis using port_for_of [OF o(4) i] server_config_new_ok [OF o(1,2)]
    by (auto simp: gen_server_def config_of_def unwrap_ok_def ip)
qed

lemma of_nat_u32_eq: "i < 2 ^ 32 \<Longrightarrow> j < 2 ^ 32 \<Longrightarrow> (of_nat i :: u32) = of_nat j \<longleftrightarrow> i = j"
  by (simp add: word_of_nat_eq_iff take_bit_nat_eq_self)

lemma self_peer_config:
  assumes "confgen_ok checks cli ips proxies" "i < length (ip_list ips proxies)"
  shows "self_peer (config_of checks cli ips proxies i) = (if i < length ips then Some (peers_of cli ips ! i) else None)"
proof -
  have l: "length ips < 2 ^ 32" "i < 2 ^ 32 - 1" using assms by (auto simp: confgen_ok_def)
  have same: "peer_id (peers_of cli ips ! j) = of_nat (i + 1) \<longleftrightarrow> j = i" if "j < length ips" for j
    using that l of_nat_u32_eq [of "j + 1" "i + 1"] by (simp add: peers_of_def)
  have n: "length (peers_of cli ips) = length ips" by (simp add: peers_of_def)
  show ?thesis
  proof (cases "i < length ips")
    case True
    then have "find (\<lambda>p. peer_id p = of_nat (i + 1)) (peers_of cli ips) = Some (peers_of cli ips ! i)"
      unfolding find_Some_iff using same n by (intro exI [of _ i]) auto
    then show ?thesis using True by (simp add: self_peer_def config_of_def)
  next
    case False
    then have "find (\<lambda>p. peer_id p = of_nat (i + 1)) (peers_of cli ips) = None"
      unfolding find_None_iff using same n by (auto simp: in_set_conv_nth)
    then show ?thesis using False by (simp add: self_peer_def config_of_def)
  qed
qed

definition network_of :: "bool \<Rightarrow> confgen_cli \<Rightarrow> string list \<Rightarrow> string list option \<Rightarrow> nat \<Rightarrow> network_config" where
  "network_of checks cli ips proxies i =
     \<lparr>nc_local_peer = network_peer_new (peers_of cli ips ! i), nc_peers = (if 1 < length ips then Some (map network_peer_new (peers_of cli ips)) else None),
      nc_proxy = map_option network_proxy_new (sc_proxy_node (config_of checks cli ips proxies i)), nc_base_listen_address = cg_listen_address cli\<rparr>"

lemma parse_ip_empty: "parse_ip [] = None"
proof -
  have "read_ipv4_groups (Suc k) 0 [] = None" for k by (simp add: read_separator_def read_number_def)
  from this [of 3] have v4: "read_ipv4_addr [] = None" by (simp add: read_ipv4_addr_def)
  have "read_groups k 0 [] = ([], False, [])" for k using v4 by (cases k) (simp_all add: read_separator_def read_number_def)
  then show ?thesis using v4 by (simp add: parse_ip_def read_ipv6_addr_def)
qed

lemma config_of_proxy:
  assumes ok: "confgen_ok checks cli ips proxies" and i: "i < length (ip_list ips proxies)"
  shows "sc_proxy_node (config_of checks cli ips proxies i) \<noteq> None \<longleftrightarrow> proxies \<noteq> None \<and> cg_proxy_port cli \<noteq> None"
proof -
  obtain px where "gen_proxy checks cli proxies i (ip_list ips proxies ! i) = Some px" using gen_proxy_total [OF assms] by blast
  moreover have "ip_list ips proxies ! i = (case proxies of None \<Rightarrow> ips ! i | Some ps \<Rightarrow> ps ! i)" by (simp add: ip_list_def split: option.split)
  ultimately show ?thesis by (auto simp: config_of_def gen_proxy_def bind_eq_Some_conv split: option.splits if_splits)
qed

lemma start_network_config:
  assumes ok: "confgen_ok checks cli ips proxies" and i: "i < length (ip_list ips proxies)"
  shows "start_network (config_of checks cli ips proxies i) = Some (if i < length ips
    then Ok (if sc_proxy_node (config_of checks cli ips proxies i) \<noteq> None then Proxied else Standalone, network_of checks cli ips proxies i, port_of (cg_port_strategy cli) (cg_p2p_port cli) i)
    else Err ''No local information to setup the peer'')"
proof (cases "i < length ips")
  case True
  then have "parse_ip (ips ! i) \<noteq> None" using ok by (auto simp: confgen_ok_def)
  then have "ips ! i \<noteq> []" using parse_ip_empty by auto
  then have "network_peer_new (peers_of cli ips ! i) \<noteq> network_peer_default" using True by (simp add: network_peer_new_def network_peer_default_def peers_of_def)
  then show ?thesis using True self_peer_config [OF ok i]
    by (simp add: start_network_def network_config_new_def my_p2p_port_def Let_def network_of_def) (simp add: config_of_def peers_of_def)
next
  case False
  then show ?thesis using self_peer_config [OF ok i] by (simp add: start_network_def network_config_new_def Let_def)
qed

lemma client_config_ok:
  assumes "confgen_ok checks cli ips proxies"
  shows "gen_public_peers checks cli (peers_of cli ips) = Some (cc_peers (client_of cli ips))" "client_config_new (cc_peers (client_of cli ips)) = Ok (client_of cli ips)"
proof -
  let ?ps = "peers_of cli ips"
  have f: "ports_fit checks (cg_port_strategy cli) (cg_rpc_port cli) (length ips)" and ips: "\<forall>ip\<in>set ips. parse_ip ip \<noteq> None"
    using assms by (simp_all add: confgen_ok_def)
  have n: "length ?ps = length ips" by (simp add: peers_of_def)
  have "mapM (\<lambda>(i, p). do { port \<leftarrow> port_for checks (cg_port_strategy cli) (cg_rpc_port cli) i; Some \<lparr>ppi_id = peer_id p, ppi_ip = peer_ip p, ppi_rpc_port = port\<rparr> })
      (map (\<lambda>i. (i, ?ps ! i)) [0..<length ips])
    = Some (map (\<lambda>(i, p). \<lparr>ppi_id = peer_id p, ppi_ip = peer_ip p, ppi_rpc_port = port_of (cg_port_strategy cli) (cg_rpc_port cli) i\<rparr>) (map (\<lambda>i. (i, ?ps ! i)) [0..<length ips]))"
    by (rule mapM_Some) (use port_for_of [OF f] in auto)
  then show "gen_public_peers checks cli ?ps = Some (cc_peers (client_of cli ips))"
    by (simp add: gen_public_peers_def enumerate_nth n client_of_def) (simp add: peers_of_def)
  have "check_peer_ips (map (\<lambda>p. (ppi_id p, ppi_ip p)) (cc_peers (client_of cli ips))) = Ok ()"
    by (rule check_peer_ips_ok) (use ips in \<open>auto simp: client_of_def\<close>)
  then show "client_config_new (cc_peers (client_of cli ips)) = Ok (client_of cli ips)" by (simp add: client_config_new_def client_of_def)
qed

definition stub_of :: "confgen_cli \<Rightarrow> string list \<Rightarrow> p2p_config" where
  "stub_of cli ips = \<lparr>p2c_peers = map (\<lambda>p. \<lparr>p2i_id = peer_id p, p2i_ip = peer_ip p, p2i_p2p_port = peer_p2p_port p\<rparr>) (peers_of cli ips)\<rparr>"

lemma stub_peers: "map (\<lambda>p. \<lparr>p2i_id = peer_id p, p2i_ip = peer_ip p, p2i_p2p_port = peer_p2p_port p\<rparr>) (peers_of cli ips) = p2c_peers (stub_of cli ips)"
  by (simp add: stub_of_def)

lemma stub_generated:
  assumes ok: "confgen_ok checks cli ips proxies" and json: "json_reads P (stub_of cli ips)"
  shows "\<exists>data. create_and_save_stub_config P (p2c_peers (stub_of cli ips)) = Some (''stub.json'', data)
    \<and> p2p_config_from_json P data = Ok (stub_of cli ips)"
proof -
  have "\<forall>ip\<in>set ips. parse_ip ip \<noteq> None" using ok by (simp add: confgen_ok_def)
  then have "check_peer_ips (map (\<lambda>p. (p2i_id p, p2i_ip p)) (p2c_peers (stub_of cli ips))) = Ok ()"
    by (intro check_peer_ips_ok) (auto simp: stub_of_def peers_of_def)
  then have n: "p2p_config_new (p2c_peers (stub_of cli ips)) = Ok (stub_of cli ips)" by (simp add: p2p_config_new_def stub_of_def)
  with json show ?thesis
    by (auto simp: json_reads_def create_and_save_stub_config_def unwrap_ok_def p2p_config_from_json_def)
qed

text \<open>What libp2p documents of its addresses: an IP address behind \<open>/ip4/\<close>, with a TCP port or without, is parsed exactly when it is one of IPv4.\<close>

definition is_v4 :: "string \<Rightarrow> bool" where
  "is_v4 a = (case parse_ip a of Some (V4 _) \<Rightarrow> True | _ \<Rightarrow> False)"

definition multiaddr_ok :: "(string \<Rightarrow> 'addr option) \<Rightarrow> bool" where
  "multiaddr_ok parse \<longleftrightarrow> (\<forall>a. parse_ip a \<noteq> None \<longrightarrow> (parse (''/ip4/'' @ a) \<noteq> None) = is_v4 a
     \<and> (\<forall>port<65536. (parse (''/ip4/'' @ a @ ''/tcp/'' @ dec port) \<noteq> None) = is_v4 a))"

lemma mapM_eq_None: "mapM f xs = None \<longleftrightarrow> (\<exists>x\<in>set xs. f x = None)"
  by (induction xs) (auto simp: bind_eq_None_conv)

lemma gossip_init_config:
  assumes ok: "confgen_ok checks cli ips proxies" and i: "i < length ips" and addr: "multiaddr_ok parse"
  shows "p2p_init parse push (network_of checks cli ips proxies i) = None
      \<longleftrightarrow> length ips = 1 \<or> \<not> is_v4 (cg_listen_address cli) \<or> (\<exists>ip\<in>set ips. \<not> is_v4 ip)"
proof -
  let ?nc = "network_of checks cli ips proxies i"
  have o: "\<forall>ip\<in>set ips. parse_ip ip \<noteq> None" "parse_ip (cg_listen_address cli) \<noteq> None" using ok by (simp_all add: confgen_ok_def)
  have "unat (np_port (nc_local_peer ?nc)) < 65536" using unsigned_less [of "np_port (nc_local_peer ?nc)"] by simp
  then have l: "get_p2p_listen_addr parse ?nc = None \<longleftrightarrow> \<not> is_v4 (cg_listen_address cli)"
    using addr [unfolded multiaddr_ok_def, rule_format, OF o(2)]
    unfolding get_p2p_listen_addr_def network_of_def network_config.select_convs by blast
  have d: "get_dial_addr parse push (network_peer_new (peers_of cli ips ! j)) = None \<longleftrightarrow> \<not> is_v4 (ips ! j)" if "j < length ips" for j
  proof -
    have "parse_ip (ips ! j) \<noteq> None" using that o(1) nth_mem by blast
    from addr [unfolded multiaddr_ok_def, rule_format, OF this]
    have "parse (''/ip4/'' @ ips ! j) = None \<longleftrightarrow> \<not> is_v4 (ips ! j)" by blast
    then show ?thesis using that by (simp add: get_dial_addr_def bind_eq_None_conv network_peer_new_def peers_of_def)
  qed
  have "mapM (get_dial_addr parse push) (map network_peer_new (peers_of cli ips)) = None
      \<longleftrightarrow> (\<exists>p\<in>set (peers_of cli ips). get_dial_addr parse push (network_peer_new p) = None)" by (simp add: mapM_eq_None)
  also have "\<dots> \<longleftrightarrow> (\<exists>ip\<in>set ips. \<not> is_v4 ip)" using d by (auto simp: set_conv_nth peers_of_def)
  finally show ?thesis using l i by (auto simp: p2p_init_def bind_eq_None_conv network_of_def)
qed

lemma servers_generated:
  assumes ok: "confgen_ok checks cli ips proxies" and json: "\<forall>i<length (ip_list ips proxies). json_reads S (config_of checks cli ips proxies i)"
  shows "\<exists>files. mapM (save_server S) (map (config_of checks cli ips proxies) [0..<length (ip_list ips proxies)]) = Some files
    \<and> length files = length (ip_list ips proxies)
    \<and> (\<forall>i<length files. fst (files ! i) = ''server_'' @ dec (i + 1) @ ''.json''
        \<and> server_config_from_json S (snd (files ! i)) = Ok (config_of checks cli ips proxies i))"
proof -
  let ?n = "length (ip_list ips proxies)"
  let ?P = "\<lambda>i f. fst f = ''server_'' @ dec (i + 1) @ ''.json'' \<and> server_config_from_json S (snd f) = Ok (config_of checks cli ips proxies i)"
  have o: "\<forall>ip\<in>set ips. parse_ip ip \<noteq> None" "parse_ip (cg_listen_address cli) \<noteq> None" "?n < 2 ^ 32" using ok by (simp_all add: confgen_ok_def)
  have "\<exists>f. save_server S (config_of checks cli ips proxies i) = Some f \<and> ?P i f" if "i \<in> set [0..<?n]" for i
  proof -
    have i: "i < ?n" using that by simp
    then obtain s where s: "json_to_string S (config_of checks cli ips proxies i) = Ok s" "json_from_str S s = Ok (config_of checks cli ips proxies i)"
      using json by (auto simp: json_reads_def)
    have "unat (of_nat (i + 1) :: u32) = i + 1" by (subst unat_of_nat) (use i o(3) in \<open>simp add: take_bit_nat_eq_self\<close>)
    then have "save_server S (config_of checks cli ips proxies i) = Some (''server_'' @ dec (i + 1) @ ''.json'', s)"
      using s(1) by (simp add: save_server_def unwrap_ok_def config_of_def)
    moreover have "server_config_from_json S s = Ok (config_of checks cli ips proxies i)"
      using s(2) server_config_new_ok [OF o(1,2)] by (simp add: server_config_from_json_def) (simp add: config_of_def)
    ultimately show ?thesis by simp
  qed
  from mapM_obtain [of "[0..<?n]" "\<lambda>i. save_server S (config_of checks cli ips proxies i)" ?P, OF this]
  obtain files where f: "mapM (\<lambda>i. save_server S (config_of checks cli ips proxies i)) [0..<?n] = Some files" "list_all2 ?P [0..<?n] files" by blast
  have "mapM (save_server S) (map (config_of checks cli ips proxies) xs) = mapM (\<lambda>i. save_server S (config_of checks cli ips proxies i)) xs" for xs
    by (induction xs) simp_all
  then show ?thesis using f by (auto simp: list_all2_conv_all_nth)
qed

text \<open>
  C36.  Let the addresses of the IP file and the listen address be valid and the ports not overflow, or wrap in a build without overflow
  checks.  Then \<open>confgen\<close> writes one file per line of the IP file, or per line of the file of proxies when it is given one, then with
  the stub its file, and the client's file.  Read back, the file of server \<open>i\<close> gives a configuration with identifier \<open>i\<close>
  and the same list of peers for all.  When there are more proxies than lines of the IP file, a server beyond those lines
  refuses to start.  Every other one builds its network with the address and port of the \<open>i\<close>-th line.  With a proxy the channel then listens
  on that port; without one its start panics exactly when there is only one line, or when the listen address or the address of some line is
  not one of IPv4, although the configuration accepted it.  The stub's and the client's file name every server.
\<close>

theorem generated_configs_start:
  assumes "confgen_ok checks cli ips proxies" "multiaddr_ok parse"
    and "\<forall>i<length (ip_list ips proxies). json_reads S (config_of checks cli ips proxies i)" "json_reads C (client_of cli ips)"
    and "cg_stub cli \<longrightarrow> json_reads P (stub_of cli ips)"
  shows "\<exists>files stub data. generate_configs checks S P C cli ips proxies = Some (files @ stub @ [(''client.json'', data)])
    \<and> length files = length (ip_list ips proxies)
    \<and> (\<forall>i<length files. fst (files ! i) = ''server_'' @ dec (i + 1) @ ''.json''
        \<and> (\<exists>cfg. server_config_from_json S (snd (files ! i)) = Ok cfg \<and> sc_id cfg = of_nat (i + 1) \<and> sc_peers cfg = peers_of cli ips
            \<and> sc_rpc_port cfg = port_of (cg_port_strategy cli) (cg_rpc_port cli) i
            \<and> (if length ips \<le> i then start_network cfg = Some (Err ''No local information to setup the peer'')
               else let nc = network_of checks cli ips proxies i; port = port_of (cg_port_strategy cli) (cg_p2p_port cli) i in
                 if proxies \<noteq> None \<and> cg_proxy_port cli \<noteq> None
                 then start_network cfg = Some (Ok (Proxied, nc, port)) \<and> gossip_init parse push Proxied nc = Some (ProxyChannel ''0.0.0.0'' port)
                 else start_network cfg = Some (Ok (Standalone, nc, port))
                   \<and> (gossip_init parse push Standalone nc = None
                       \<longleftrightarrow> length ips = 1 \<or> \<not> is_v4 (cg_listen_address cli) \<or> (\<exists>ip\<in>set ips. \<not> is_v4 ip)))))
    \<and> (if cg_stub cli then \<exists>sdata. stub = [(''stub.json'', sdata)] \<and> p2p_config_from_json P sdata = Ok (stub_of cli ips) else stub = [])
    \<and> client_config_from_json C data = Ok (client_of cli ips)"
proof -
  let ?n = "length (ip_list ips proxies)"
  have fit: "ports_fit checks (cg_port_strategy cli) (cg_p2p_port cli) (length ips)" "length ips < 2 ^ 32" using assms(1) by (simp_all add: confgen_ok_def)
  note peers = gen_peers_eq [OF fit]
  have servers: "mapM (gen_server checks cli proxies (peers_of cli ips)) (List.enumerate 0 (ip_list ips proxies)) = Some (map (config_of checks cli ips proxies) [0..<?n])"
  proof -
    have "mapM (gen_server checks cli proxies (peers_of cli ips)) (List.enumerate 0 (ip_list ips proxies))
        = Some (map (\<lambda>(i, ip). config_of checks cli ips proxies i) (List.enumerate 0 (ip_list ips proxies)))"
      by (rule mapM_Some) (use gen_server_eq [OF assms(1)] in \<open>auto simp: enumerate_nth\<close>)
    then show ?thesis by (simp add: enumerate_nth comp_def)
  qed
  from servers_generated [OF assms(1,3)] obtain files where
    files: "mapM (save_server S) (map (config_of checks cli ips proxies) [0..<?n]) = Some files" "length files = ?n"
      "\<forall>i<length files. fst (files ! i) = ''server_'' @ dec (i + 1) @ ''.json'' \<and> server_config_from_json S (snd (files ! i)) = Ok (config_of checks cli ips proxies i)"
    by blast
  have "\<exists>stub. (if cg_stub cli then map_option (\<lambda>f. [f]) (create_and_save_stub_config P (p2c_peers (stub_of cli ips))) else Some []) = Some stub
      \<and> (if cg_stub cli then \<exists>sdata. stub = [(''stub.json'', sdata)] \<and> p2p_config_from_json P sdata = Ok (stub_of cli ips) else stub = [])"
    using stub_generated [OF assms(1), of P] assms(5) by (cases "cg_stub cli") auto
  then obtain stub where stub: "(if cg_stub cli then map_option (\<lambda>f. [f]) (create_and_save_stub_config P (p2c_peers (stub_of cli ips))) else Some []) = Some stub"
      "if cg_stub cli then \<exists>sdata. stub = [(''stub.json'', sdata)] \<and> p2p_config_from_json P sdata = Ok (stub_of cli ips) else stub = []" by blast
  from assms(4) obtain data where data: "json_to_string C (client_of cli ips) = Ok data" "json_from_str C data = Ok (client_of cli ips)"
    by (auto simp: json_reads_def)
  note client = client_config_ok [OF assms(1)]
  have "generate_configs checks S P C cli ips proxies = Some (files @ stub @ [(''client.json'', data)])"
    using peers servers files(1) client data(1) stub(1) unfolding generate_configs_def Let_def ip_list_def [symmetric]
    by (cases "cg_stub cli") (auto simp: unwrap_ok_def stub_peers)
  moreover have "client_config_from_json C data = Ok (client_of cli ips)" using data(2) client(2) by (simp add: client_config_from_json_def)
  moreover have "sc_id (config_of checks cli ips proxies i) = of_nat (i + 1) \<and> sc_peers (config_of checks cli ips proxies i) = peers_of cli ips
      \<and> sc_rpc_port (config_of checks cli ips proxies i) = port_of (cg_port_strategy cli) (cg_rpc_port cli) i" for i by (simp add: config_of_def)
  moreover have "gossip_init parse push Proxied (network_of checks cli ips proxies i) = Some (ProxyChannel ''0.0.0.0'' (port_of (cg_port_strategy cli) (cg_p2p_port cli) i))"
    if "i < length ips" for i using that by (simp add: gossip_init_def proxy_init_def network_of_def network_peer_new_def peers_of_def)
  moreover have "gossip_init parse push Standalone nc = p2p_init parse push nc" for nc by (simp add: gossip_init_def)
  ultimately show ?thesis
    using files(2,3) stub(2) start_network_config [OF assms(1)] config_of_proxy [OF assms(1)] gossip_init_config [OF assms(1) _ assms(2)]
    by (intro exI [of _ files] exI [of _ stub] exI [of _ data]) (auto simp: Let_def not_le)
qed

text \<open>A format that numbers the values it knows.\<close>

definition table_json :: "'t list \<Rightarrow> 't json_format" where
  "table_json xs =
     \<lparr>json_to_string = (\<lambda>x. if x \<in> set xs then Ok (replicate (length (takeWhile (\<lambda>y. y \<noteq> x) xs)) (CHR ''1'')) else Err ''unknown''),
      json_from_str = (\<lambda>s. if length s < length xs then Ok (xs ! length s) else Err ''unknown'')\<rparr>"

lemma table_json_reads: "x \<in> set xs \<Longrightarrow> json_reads (table_json xs) x"
proof -
  assume x: "x \<in> set xs"
  let ?k = "length (takeWhile (\<lambda>y. y \<noteq> x) xs)"
  have "?k < length xs" using x by (metis (mono_tags, lifting) length_takeWhile_le le_neq_implies_less set_takeWhileD takeWhile_eq_take take_all order_refl)
  moreover from nth_length_takeWhile [OF this] have "xs ! ?k = x" by simp
  ultimately show ?thesis using x by (simp add: json_reads_def table_json_def)
qed

text \<open>The characters an address is read from are not slashes.\<close>

definition reads_plain :: "string \<Rightarrow> string \<Rightarrow> bool" where
  "reads_plain s r \<longleftrightarrow> (\<exists>pre. s = pre @ r \<and> CHR ''/'' \<notin> set pre)"

lemma reads_plain_refl [simp]: "reads_plain s s"
  by (simp add: reads_plain_def)

lemma reads_plain_trans: "reads_plain s r \<Longrightarrow> reads_plain r t \<Longrightarrow> reads_plain s t"
  unfolding reads_plain_def by (metis Un_iff append.assoc set_append)

lemma reads_plain_Cons: "c \<noteq> CHR ''/'' \<Longrightarrow> reads_plain (c # s) s"
  unfolding reads_plain_def by (rule exI [of _ "[c]"]) simp

lemma read_number_plain: "read_number radix m v z s = Some (x, r) \<Longrightarrow> reads_plain s r"
proof -
  assume "read_number radix m v z s = Some (x, r)"
  then have "r = dropWhile (is_digit radix) s" by (auto simp: read_number_def Let_def split: if_splits)
  moreover have "CHR ''/'' \<notin> set (takeWhile (is_digit radix) s)" by (auto dest!: set_takeWhileD simp: is_digit_def digit_val_def)
  ultimately show ?thesis unfolding reads_plain_def by (metis takeWhile_dropWhile_id)
qed

lemma read_separator_plain: "read_separator sep i s = Some r \<Longrightarrow> sep \<noteq> CHR ''/'' \<Longrightarrow> reads_plain s r"
  by (auto simp: read_separator_def reads_plain_Cons split: if_splits list.splits)

lemma read_ipv4_plain: "read_ipv4_groups k i s = Some (v, r) \<Longrightarrow> reads_plain s r"
proof (induction k i s arbitrary: v rule: read_ipv4_groups.induct)
  case (2 k i s)
  then obtain s1 x s2 vs where "read_separator (CHR ''.'') i s = Some s1" "read_number 10 3 255 False s1 = Some (x, s2)"
      "read_ipv4_groups k (i + 1) s2 = Some (vs, r)" by (auto simp: bind_eq_Some_conv)
  with 2(1) read_separator_plain [of "CHR ''.''" i s s1] read_number_plain [of 10 3 255 False s1 x s2] show ?case by (blast intro: reads_plain_trans)
qed simp

lemma read_groups_plain: "read_groups k i s = (g, v4, r) \<Longrightarrow> reads_plain s r"
proof (induction k arbitrary: i s g)
  case (Suc k)
  consider v where "read_separator (CHR '':'') i s \<bind> read_ipv4_addr = Some (v, r)"
    | "r = s" | x s1 gs where "read_separator (CHR '':'') i s \<bind> read_number 16 4 65535 True = Some (x, s1)"
      "read_groups k (i + 1) s1 = (gs, v4, r)"
    using Suc.prems by (auto split: option.splits if_splits prod.splits)
  then show ?case
  proof cases
    case 1
    then obtain s1 where "read_separator (CHR '':'') i s = Some s1" "read_ipv4_addr s1 = Some (v, r)" by (auto simp: bind_eq_Some_conv)
    then show ?thesis using read_separator_plain [of "CHR '':''" i s s1] read_ipv4_plain [of 4 0 s1 v r] unfolding read_ipv4_addr_def by (blast intro: reads_plain_trans)
  next
    case 3
    then obtain s2 where s: "read_separator (CHR '':'') i s = Some s2" "read_number 16 4 65535 True s2 = Some (x, s1)" by (auto simp: bind_eq_Some_conv)
    have "reads_plain s s1" using read_separator_plain [OF s(1)] read_number_plain [OF s(2)] reads_plain_trans by simp
    from reads_plain_trans [OF this Suc.IH [OF 3(2)]] show ?thesis .
  qed simp
qed simp

lemma parse_ip_plain: "parse_ip a \<noteq> None \<Longrightarrow> CHR ''/'' \<notin> set a"
proof -
  assume "parse_ip a \<noteq> None"
  then consider v where "read_ipv4_addr a = Some (v, [])" | v where "read_ipv6_addr a = Some (v, [])"
    by (auto simp: parse_ip_def split: option.splits if_splits)
  then have "reads_plain a []"
  proof cases
    case 1
    then show ?thesis by (simp add: read_ipv4_addr_def read_ipv4_plain)
  next
    case (2 v)
    obtain h v4 r where h: "read_groups 8 0 a = (h, v4, r)" by (cases "read_groups 8 0 a")
    then have p: "reads_plain a r" by (rule read_groups_plain)
    show ?thesis
    proof (cases "length h = 8")
      case True
      then show ?thesis using 2 h p by (simp add: read_ipv6_addr_def)
    next
      case False
      then obtain r' where r: "r = CHR '':'' # CHR '':'' # r'" "snd (snd (read_groups (7 - length h) 0 r')) = []"
        using 2 h by (auto simp: read_ipv6_addr_def split: if_splits list.splits prod.splits)
      have "reads_plain r' []" using read_groups_plain [of "7 - length h" 0 r'] r(2) by (metis prod.collapse)
      moreover have "reads_plain r r'" unfolding r(1) by (auto simp: reads_plain_def intro: exI [of _ "''::''"])
      ultimately show ?thesis using p reads_plain_trans by blast
    qed
  qed
  then show ?thesis by (simp add: reads_plain_def)
qed

text \<open>A parser of addresses behind \<open>/ip4/\<close>.\<close>

definition ip4_multiaddr :: "string \<Rightarrow> string option" where
  "ip4_multiaddr s = (if take 5 s = ''/ip4/'' \<and> is_v4 (takeWhile (\<lambda>c. c \<noteq> CHR ''/'') (drop 5 s)) then Some s else None)"

lemma ip4_multiaddr_ok: "multiaddr_ok ip4_multiaddr"
proof -
  have "takeWhile (\<lambda>c. c \<noteq> CHR ''/'') (a @ CHR ''/'' # t) = a" "takeWhile (\<lambda>c. c \<noteq> CHR ''/'') a = a" if "parse_ip a \<noteq> None" for a t
    using parse_ip_plain [OF that] by (auto simp: takeWhile_append takeWhile_eq_all_conv)
  then show ?thesis unfolding multiaddr_ok_def ip4_multiaddr_def by (auto simp del: takeWhile_eq_all_conv)
qed

definition example_cli :: confgen_cli where
  "example_cli = \<lparr>cg_rpc_port = 51000, cg_p2p_port = 50000, cg_listen_address = ''0.0.0.0'', cg_port_strategy = Consecutive, cg_ip_file = ''ips.txt'',
     cg_shuffle_peers = False, cg_event_file = None, cg_outdir = ''out'', cg_integration = False, cg_integration_file = None, cg_proxy_port = None, cg_stub = False\<rparr>"

lemma read_ipv4_addr_Suc: "read_ipv4_addr s = read_ipv4_groups (Suc (Suc (Suc (Suc 0)))) 0 s"
  by (simp add: read_ipv4_addr_def numeral_eq_Suc)

lemma read_groups_none: "s = [] \<or> hd s = CHR '':'' \<Longrightarrow> read_groups k 0 s = ([], False, s)"
  by (cases k; cases s) (simp_all add: read_ipv4_addr_Suc read_separator_def read_number_def is_digit_def digit_val_def)

lemma parse_ip_examples:
  "\<exists>a. parse_ip ''127.0.0.1'' = Some (V4 a)" "\<exists>a. parse_ip ''10.0.0.2'' = Some (V4 a)" "\<exists>a. parse_ip ''0.0.0.0'' = Some (V4 a)"
  "\<exists>a. parse_ip ''::'' = Some (V6 a)"
  by (simp_all add: parse_ip_def read_ipv4_addr_Suc read_ipv6_addr_def read_groups_none read_number_def read_separator_def is_digit_def digit_val_def
      digits_val_def)

theorem generated_configs_start_witness:
  "let ips = [''127.0.0.1'', ''10.0.0.2'']; cli6 = example_cli\<lparr>cg_listen_address := ''::'', cg_stub := True\<rparr>;
       S = table_json (map (config_of True example_cli ips None) [0, 1]); C = table_json [client_of example_cli ips];
       S6 = table_json (map (config_of True cli6 ips None) [0, 1]); C6 = table_json [client_of cli6 ips]; P6 = table_json [stub_of cli6 ips]
   in (\<exists>files data cfg nc. generate_configs True S (table_json []) C example_cli ips None = Some (files @ [(''client.json'', data)])
     \<and> length files = 2 \<and> server_config_from_json S (snd (files ! 1)) = Ok cfg \<and> sc_id cfg = 2
     \<and> start_network cfg = Some (Ok (Standalone, nc, 50002)) \<and> gossip_init ip4_multiaddr (\<lambda>a p. a) Standalone nc \<noteq> None)
   \<and> (\<exists>files stub data cfg nc. generate_configs True S6 P6 C6 cli6 ips None = Some (files @ stub @ [(''client.json'', data)])
     \<and> server_config_from_json S6 (snd (files ! 1)) = Ok cfg
     \<and> start_network cfg = Some (Ok (Standalone, nc, 50002)) \<and> gossip_init ip4_multiaddr (\<lambda>a p. a) Standalone nc = None)"
proof -
  let ?ips = "[''127.0.0.1'', ''10.0.0.2'']" and ?cli6 = "example_cli\<lparr>cg_listen_address := ''::'', cg_stub := True\<rparr>"
  let ?S = "\<lambda>cli. table_json (map (config_of True cli ?ips None) [0, 1])" and ?C = "\<lambda>cli. table_json [client_of cli ?ips]"
  have l: "ip_list ?ips None = ?ips" by (simp add: ip_list_def)
  have ok: "confgen_ok True example_cli ?ips None" "confgen_ok True ?cli6 ?ips None"
    using parse_ip_examples by (auto simp: confgen_ok_def l ports_fit_def example_cli_def)
  have S: "\<forall>i<length (ip_list ?ips None). json_reads (?S cli) (config_of True cli ?ips None i)" for cli
    unfolding l by (auto simp: less_Suc_eq intro!: table_json_reads)
  have C: "json_reads (?C cli) (client_of cli ?ips)" for cli by (rule table_json_reads) simp
  have P: "cg_stub example_cli \<longrightarrow> json_reads (table_json []) (stub_of example_cli ?ips)"
    "cg_stub ?cli6 \<longrightarrow> json_reads (table_json [stub_of ?cli6 ?ips]) (stub_of ?cli6 ?ips)"
    by (simp_all add: example_cli_def table_json_reads)
  have v: "(\<exists>ip\<in>set ?ips. \<not> is_v4 ip) = False" "is_v4 (cg_listen_address example_cli) = True" "is_v4 (cg_listen_address ?cli6) = False"
    using parse_ip_examples by (auto simp: is_v4_def example_cli_def)
  have st: "\<not> cg_stub example_cli" "port_of (cg_port_strategy example_cli) (cg_p2p_port example_cli) 1 = 50002"
    "port_of (cg_port_strategy ?cli6) (cg_p2p_port ?cli6) 1 = 50002" by (simp_all add: example_cli_def)
  have two: "(length ?ips \<le> 1) = False" "(length ?ips = 1) = False" "((None :: string list option) \<noteq> None \<and> b) = False" for b by simp_all
  show ?thesis
  proof (unfold Let_def, intro conjI)
    show "\<exists>files data cfg nc.
       generate_configs True (?S example_cli) (table_json []) (?C example_cli) example_cli ?ips None = Some (files @ [(''client.json'', data)])
     \<and> length files = 2 \<and> server_config_from_json (?S example_cli) (snd (files ! 1)) = Ok cfg \<and> sc_id cfg = 2
     \<and> start_network cfg = Some (Ok (Standalone, nc, 50002)) \<and> gossip_init ip4_multiaddr (\<lambda>a p. a) Standalone nc \<noteq> None"
      using generated_configs_start [OF ok(1) ip4_multiaddr_ok S C P(1), of "\<lambda>a p. a", unfolded l Let_def]
    proof (elim exE conjE, goal_cases)
      case (1 files stub data)
      note f = 1
      have "stub = []" "length files = 2" "1 < length files" using f(2,4) st(1) by simp_all
      from f(3) [rule_format, OF this(3), unfolded two st(2) v simp_thms if_False] this(1,2) f(1) show ?case
      proof (elim exE conjE, goal_cases)
        case (1 cfg)
        have "sc_id cfg = 2" using 1 by simp
        then show ?case using 1 by (intro exI conjI) (assumption | simp only: append_Nil)+
      qed
    qed
  next
    show "\<exists>files stub data cfg nc.
       generate_configs True (?S ?cli6) (table_json [stub_of ?cli6 ?ips]) (?C ?cli6) ?cli6 ?ips None = Some (files @ stub @ [(''client.json'', data)])
     \<and> server_config_from_json (?S ?cli6) (snd (files ! 1)) = Ok cfg
     \<and> start_network cfg = Some (Ok (Standalone, nc, 50002)) \<and> gossip_init ip4_multiaddr (\<lambda>a p. a) Standalone nc = None"
      using generated_configs_start [OF ok(2) ip4_multiaddr_ok S C P(2), of "\<lambda>a p. a", unfolded l Let_def]
    proof (elim exE conjE, goal_cases)
      case (1 files stub data)
      note f = 1
      have "1 < length files" using f(2) by simp
      from f(3) [rule_format, OF this, unfolded two st(3) v simp_thms if_False] f(1) show ?case
      proof (elim exE conjE, goal_cases)
        case (1 cfg)
        then show ?case by (intro exI conjI) assumption+
      qed
    qed
  qed
qed

end
