(* ===== verification/QC_Pedersen.thy ===== *)
theory QC_Pedersen
  imports QC_Group
begin

text \<open>
  Pedersen commitments (\<open>dl_schemes/commitments\<close>) with the second generator of \<open>group_generators.rs\<close>, which exists for the two pairing
  curves.  A commitment can be opened exactly to the pairs on one line; two openings give away the logarithm of the second
  generator.
\<close>

definition BLS12381_ALTERNATE_GENERATOR_BYTES :: bytes where
  "BLS12381_ALTERNATE_GENERATOR_BYTES =
     [4, 21, 146, 60, 163, 4, 4, 97, 126, 80, 128, 110, 192, 21, 242, 89, 113, 87, 183, 93, 11, 211, 66, 239, 42, 95, 193, 203, 64, 65, 232, 154,
      195, 86, 128, 111, 208, 76, 204, 11, 17, 140, 128, 63, 0, 6, 205, 148, 19, 21, 17, 242, 166, 187, 243, 246, 53, 97, 164, 29, 58, 73, 204,
      255, 80, 223, 53, 185, 173, 17, 106, 197, 57, 209, 174, 189, 252, 56, 115, 174, 181, 246, 234, 172, 173, 176, 12, 75, 54, 239, 208, 0, 144,
      75, 193, 40, 51]"

definition BN254_ALTERNATE_GENERATOR_BYTES :: bytes where
  "BN254_ALTERNATE_GENERATOR_BYTES =
     [4, 5, 104, 227, 186, 154, 221, 143, 179, 132, 36, 3, 255, 30, 125, 4, 174, 173, 190, 56, 153, 44, 44, 219, 58, 232, 245, 32, 57, 141, 251,
      246, 3, 18, 21, 170, 161, 94, 130, 250, 252, 53, 34, 3, 77, 228, 243, 254, 60, 24, 7, 90, 254, 16, 154, 65, 59, 170, 252, 71, 87, 127, 118,
      214, 64]"

fun get_alternate_generator :: "'p curve_backend \<Rightarrow> group \<Rightarrow> 'p group_element may_panic" where
  "get_alternate_generator B Bls12381 = ge_from_bytes B BLS12381_ALTERNATE_GENERATOR_BYTES Bls12381 None"
| "get_alternate_generator B Bn254 = ge_from_bytes B BN254_ALTERNATE_GENERATOR_BYTES Bn254 None"
| "get_alternate_generator B _ = None"

record pedersen_params =
  pp_x :: sized_big_int
  pp_r :: sized_big_int

datatype commitment_params = PedersenParams pedersen_params

datatype 'p commitment = PedersenCommitment "'p group_element"

definition pedersen_value :: "'p curve_backend \<Rightarrow> pedersen_params \<Rightarrow> 'p group_element may_panic" where
  "pedersen_value B params = do {
     let group = sb_group (pp_x params);
     gx \<leftarrow> ge_new_pow_big B group (pp_x params);
     h \<leftarrow> get_alternate_generator B group;
     hr \<leftarrow> ge_pow B h (pp_r params);
     ge_mul B gx hr
   }"

fun commitment_commit :: "'p curve_backend \<Rightarrow> commitment_params \<Rightarrow> 'p commitment may_panic" where
  "commitment_commit B (PedersenParams p) = map_option PedersenCommitment (pedersen_value B p)"

fun commitment_verify :: "'p curve_backend \<Rightarrow> 'p commitment \<Rightarrow> commitment_params \<Rightarrow> bool may_panic" where
  "commitment_verify B (PedersenCommitment c) (PedersenParams p) = map_option (ge_equals B c) (pedersen_value B p)"

definition pedersen_opening :: "group \<Rightarrow> int \<Rightarrow> int \<Rightarrow> commitment_params" where
  "pedersen_opening g x r = PedersenParams \<lparr>pp_x = SBI g x, pp_r = SBI g r\<rparr>"

lemma pedersen_value_gpow:
  assumes "curve_ok B g 0" "get_alternate_generator B g = Some (gpow B g 0 a)" "0 \<le> x" "0 \<le> r"
  shows "pedersen_value B \<lparr>pp_x = SBI g x, pp_r = SBI g r\<rparr> = Some (gpow B g 0 (x + a * r))"
  using assms by (simp add: pedersen_value_def ge_simps)

text \<open>
  The commitment to \<open>x\<close> with randomness \<open>r\<close> is accepted with \<open>x'\<close> and \<open>r'\<close> exactly when \<open>x + a r\<close> and \<open>x' + a r'\<close> agree modulo the
  order, where \<open>a\<close> is the logarithm of the second generator.  So it is accepted with its own parameters; it hides \<open>x\<close>, since every \<open>x'\<close> has an
  opening; and openings to two different numbers give \<open>a\<close>.  The other groups have no commitments.
\<close>

theorem pedersen_commitments:
  assumes B: "curve_ok B g 0" and h: "get_alternate_generator B g = Some (gpow B g 0 a)" "a mod cb_order B g \<noteq> 0" and x: "0 \<le> x" "0 \<le> r"
  shows "\<exists>c. commitment_commit B (pedersen_opening g x r) = Some c
    \<and> commitment_verify B c (pedersen_opening g x r) = Some True
    \<and> (\<forall>x' r'. 0 \<le> x' \<longrightarrow> 0 \<le> r' \<longrightarrow> commitment_verify B c (pedersen_opening g x' r') = Some ((x + a * r) mod cb_order B g = (x' + a * r') mod cb_order B g))
    \<and> (\<forall>x'\<ge>0. \<exists>r'\<ge>0. commitment_verify B c (pedersen_opening g x' r') = Some True)
    \<and> (\<forall>x'\<ge>0. \<forall>r'\<ge>0. commitment_verify B c (pedersen_opening g x' r') = Some True \<longrightarrow> x mod cb_order B g \<noteq> x' mod cb_order B g
        \<longrightarrow> a mod cb_order B g = (x - x') * inv_mod (r' - r) (cb_order B g) mod cb_order B g)"
proof -
  let ?q = "cb_order B g" and ?c = "PedersenCommitment (gpow B g 0 (x + a * r))"
  have q: "is_prime ?q" "0 < ?q" using curve_ok_prime [OF B] curve_ok_pos [OF B] by auto
  have c: "commitment_commit B (pedersen_opening g x r) = Some ?c" using pedersen_value_gpow [OF B h(1) x] by (simp add: pedersen_opening_def)
  have v: "commitment_verify B ?c (pedersen_opening g x' r') = Some ((x + a * r) mod ?q = (x' + a * r') mod ?q)" if "0 \<le> x'" "0 \<le> r'" for x' r'
    using pedersen_value_gpow [OF B h(1) that] gpow_eq_iff [OF B, of "x + a * r" "x' + a * r'"] B
    by (simp add: pedersen_opening_def ge_equals_def gpow_def curve_ok_def Let_def)
  have hide: "\<exists>r'\<ge>0. commitment_verify B ?c (pedersen_opening g x' r') = Some True" if "0 \<le> x'" for x'
  proof -
    let ?r = "(x + a * r - x') * inv_mod a ?q mod ?q"
    let ?d = "x + a * r - x'" and ?i = "inv_mod a ?q"
    have i: "a * ?i mod ?q = 1" using inv_mod_prime [OF q(1), of a] h(2) by (simp add: dvd_eq_mod_eq_0)
    have "a * (?d * ?i mod ?q) mod ?q = a * (?d * ?i) mod ?q" by (rule mod_mult_right_eq)
    also have "a * (?d * ?i) = ?d * (a * ?i)" by (simp only: mult_ac)
    also have "?d * (a * ?i) mod ?q = ?d * (a * ?i mod ?q) mod ?q" by (rule mod_mult_right_eq [symmetric])
    finally have "a * ?r mod ?q = ?d mod ?q" unfolding i by simp
    then have "(x' + a * ?r) mod ?q = (x' + ?d) mod ?q" by (rule mod_add_cong [OF refl])
    also have "x' + ?d = x + a * r" by simp
    finally show ?thesis using v [OF that, of ?r] q(2) by (intro exI [of _ ?r]) simp
  qed
  have bind: "a mod ?q = (x - x') * inv_mod (r' - r) ?q mod ?q"
    if "(x + a * r) mod ?q = (x' + a * r') mod ?q" "x mod ?q \<noteq> x' mod ?q" for x' r'
  proof -
    from that(1) have d: "?q dvd (x + a * r) - (x' + a * r')" by (simp add: mod_eq_dvd_iff)
    have "(x + a * r) - (x' + a * r') = (x - x') - a * (r' - r)" by (simp add: algebra_simps)
    with d have "?q dvd (x - x') - a * (r' - r)" by (simp only:)
    then have e: "(x - x') mod ?q = a * (r' - r) mod ?q" by (simp only: mod_eq_dvd_iff)
    have "(r' - r) mod ?q \<noteq> 0"
    proof
      assume "(r' - r) mod ?q = 0"
      then have "a * (r' - r) mod ?q = 0" by (metis mod_mult_right_eq mult_zero_right mod_0)
      then have "?q dvd x - x'" using e by (simp add: mod_0_imp_dvd)
      then show False using that(2) by (simp add: mod_eq_dvd_iff)
    qed
    then have i: "(r' - r) * inv_mod (r' - r) ?q mod ?q = 1" using inv_mod_prime [OF q(1), of "r' - r"] by (simp add: dvd_eq_mod_eq_0)
    have "(x - x') * inv_mod (r' - r) ?q mod ?q = a * ((r' - r) * inv_mod (r' - r) ?q) mod ?q"
      using mod_mult_cong [OF e refl, of "inv_mod (r' - r) ?q"] by (simp only: mult.assoc)
    also have "\<dots> = a mod ?q" using mod_mult_right_eq [of a "(r' - r) * inv_mod (r' - r) ?q" ?q] unfolding i by simp
    finally show ?thesis by simp
  qed
  show ?thesis using c v hide bind x by (intro exI [of _ ?c]) auto
qed

text \<open>With a backend that decodes the constant to a power of the generator the theorem applies.\<close>

theorem pedersen_commitments_witness:
  "\<exists>c. commitment_commit (z11_backend\<lparr>cb_frombytes := \<lambda>_ _ _. 3\<rparr>) (pedersen_opening Bn254 4 5) = Some c
    \<and> commitment_verify (z11_backend\<lparr>cb_frombytes := \<lambda>_ _ _. 3\<rparr>) c (pedersen_opening Bn254 4 5) = Some True"
proof -
  let ?B = "z11_backend\<lparr>cb_frombytes := \<lambda>_ _ _. 3\<rparr>"
  have "curve_ok z11_backend Bn254 0" by (rule z11_curve_ok) simp_all
  then have B: "curve_ok ?B Bn254 0" by (simp add: curve_ok_def Let_def)
  have h: "get_alternate_generator ?B Bn254 = Some (gpow ?B Bn254 0 3)"
    using point_bytes_read_le [of 0 Bn254 BN254_ALTERNATE_GENERATOR_BYTES]
    by (simp add: ge_from_bytes_def gpow_def z11_backend_def BN254_ALTERNATE_GENERATOR_BYTES_def)
  show ?thesis using pedersen_commitments [OF B h, of 4 5] by (auto simp: z11_backend_def)
qed

end
