(* ===== verification/Spec2Isabelle.thy ===== *)
theory Spec2Isabelle
  imports QC_StrongPrime QC_Rand QC_InstanceLimits QC_FrostRun QC_Network QC_Rpc QC_BigInt QC_Config QC_Pedersen
begin

text \<open>
  Quorumcrypt: a network service for threshold cryptography, written in Rust.

  \<^bold>\<open>The program.\<close>  Each of \<open>n\<close> servers holds a share of a key; \<open>k\<close> of them together decrypt, sign or
  flip a coin.  A client calls the RPC service of a server (\<open>service/\<close>).  The handler sends a command to the
  instance manager (\<open>core/orchestration\<close>), which asks the key manager for the key, creates an
  instance and spawns a task.  The task's executor drives a protocol (\<open>core/protocols\<close>): the protocol computes a
  share with a scheme (\<open>core/schemes\<close>), the executor hands it to the network manager
  (\<open>network/\<close>), which gossips it and returns it to the node itself.  Messages from the network go to the
  instance manager, which passes them to the task of their instance or keeps them for a while if the
  instance does not exist yet.  When the protocol has enough verified shares it assembles the result, and the
  instance manager stores it and answers the client.

  \<^bold>\<open>Conventions\<close> (\<open>QC_Prelude\<close>).  Rust's fixed-width integers are words.  A function that can panic returns an
  \<open>option\<close>, \<open>None\<close> being the panic; where it can also never return (\<open>SignerGroup::new\<close>) \<open>may_hang\<close> tells the two apart.
  Arithmetic that can overflow on inputs panics or wraps according to a flag, as builds with overflow checks and release builds do
  (\<open>ho_overflow_checks\<close>, the argument \<open>checks\<close> of \<open>port_for\<close>).  \<open>Result<T, E>\<close> is a sum with \<open>Err\<close> and \<open>Ok\<close>.  A method on
  \<open>&mut self\<close> returns the new state.  Structures are records, enumerations datatypes, vectors lists with Rust's
  bounds checks written out, maps association lists.  Random draws are arguments: a function from positions to
  the values drawn.  Names follow the source, with a prefix for the type a method belongs to.

  \<^bold>\<open>Parameters.\<close>  Code outside the repository, and vendored curve code, is an argument.
  \<^item> \<open>curve_backend\<close> (\<open>QC_Group\<close>): the MIRACL curve arithmetic of \<open>mcore\<close>.  \<open>curve_ok\<close>: the
    multiples of the generator form a group of prime order; elements read from bytes need not be among them, which
    \<open>in_subgroup\<close> tells; \<open>pairing_ok\<close>: the pairing is bilinear and
    non-degenerate; \<open>point_codec_ok\<close>: reading inverts writing.  \<open>z11_backend\<close> satisfies all of them.
  \<^item> \<open>codec\<close> (\<open>QC_Codec\<close>): ASN.1 and base64.  \<open>aead\<close>: ChaCha20Poly1305.  \<open>json\<close>
    (\<open>QC_RoundProtocol\<close>): \<open>serde_json\<close>.  The Jacobi symbol and the primality test of GMP, the generator
    seeded from a message and the iteration orders of hash maps in FROST, the hexadecimal encoder, the key file.
  \<^item> \<open>json_format\<close> (\<open>QC_Config\<close>): \<open>serde_json\<close> for the configurations, and libp2p's parser of addresses.

  \<^bold>\<open>Schemes.\<close>
  \<^item> \<open>QC_Types\<close>: \<open>scheme_types.proto\<close>, \<open>scheme_types_impl.rs\<close>, the error types.
  \<^item> \<open>QC_Group\<close>: \<open>group.rs\<close>, \<open>sizedint.rs\<close> and the derive macros behind them; mixing groups panics.
  \<^item> \<open>QC_Big\<close>, \<open>QC_BigMul\<close>, \<open>QC_BigSqr\<close>, \<open>QC_BigInverse\<close>, \<open>QC_BigMod\<close>, \<open>QC_BigRand\<close>, \<open>QC_BigInt\<close>: the limb arithmetic of
    \<open>mcore\<close>'s \<open>big.rs\<close> and \<open>dbig.rs\<close> behind \<open>SizedBigInt\<close>, parameterised by the two constants in which the curves differ.  It
    refines the integers the schemes are stated over, without overflow (C5), and random draws are below their bound (C3).  The locale
    \<open>limb_shifts\<close> is what the reduction loops of \<open>BIG\<close> and \<open>DBIG\<close> rely on.
  \<^item> \<open>QC_Hash256\<close>, \<open>QC_Hash512\<close>, \<open>QC_Sha3\<close>, \<open>QC_Hkdf\<close>, \<open>QC_Rand\<close>: hashes, HMAC, HKDF and random
    generators as written.  HMAC and HKDF are those of the RFCs (C38); symmetric keys have 128 bits at most, and with the
    Marsaglia-Zaman generator there are only 256 of them (C39); digests have their lengths (C40).
  \<^item> \<open>QC_Modular\<close>, \<open>QC_Common\<close>, \<open>QC_DlKeys\<close>: Lagrange interpolation and \<open>dl_schemes/common.rs\<close>.  The locale
    \<open>dl_share\<close> is the trait \<open>DlShare\<close>; each scheme interprets it.
  \<^item> \<open>QC_Sg02\<close>, \<open>QC_Bz03\<close>, \<open>QC_Bls04\<close>, \<open>QC_Cks05\<close>, \<open>QC_Frost\<close>: the discrete-logarithm schemes with their key
    generation (C1, C2, C4, C6 to C8).  Correctness for honest shares; for BZ03 and BLS04 also robustness against
    arbitrary shares that \<open>verify_share\<close> accepts, with one exception, a share with a point outside the subgroup, which
    the code never checks and about whose pairings the model says nothing (the same exception is in C18, C19, C23, C31 and C32); BLS04 signatures can be forged, because \<open>H\<close> is a known power of
    the generator (C6).
  \<^item> \<open>QC_Pedersen\<close>: the commitments of \<open>dl_schemes/commitments\<close>: to what they open, and that they hide and bind.
  \<^item> \<open>QC_RsaCommon\<close>, \<open>QC_Fermat\<close>, \<open>QC_Sh00\<close>, \<open>QC_StrongPrime\<close>: big integers, threshold RSA (C9) and the search
    for safe primes, which misses none and returns one unless GMP's test errs (C10).
  \<^item> \<open>QC_Keys\<close>, \<open>QC_KeyCodec\<close>, \<open>QC_Interface\<close>, \<open>QC_WireCodec\<close>, \<open>QC_KeyStore\<close>: the unions over the
    schemes, their encodings and round trips (C11, C15), encodings that make the reader panic (C16), and the key
    store with its invariant, in which an operation with two keys has no default (C12), and its file (C13).

  \<^bold>\<open>Protocols.\<close>
  \<^item> \<open>QC_RoundProtocol\<close>: \<open>ThresholdRoundProtocol\<close> as a record of operations, and the executor, whose events are
    well-formed (C17).
  \<^item> \<open>QC_ShareCollector\<close>: the locale \<open>share_collector\<close> states how the non-interactive protocols treat a
    message, and proves once what a run returns and when.  \<open>QC_CipherProtocol\<close>, \<open>QC_CoinProtocol\<close> and
    \<open>QC_SignatureProtocol\<close> interpret it: a decryption returns only the plaintext (C18), and does so when enough valid
    shares come (C19); forged shares can block it (C20); coins agree (C22); signatures verify (C23).
  \<^item> \<open>QC_FrostProtocol\<close>, \<open>QC_FrostSession\<close>, \<open>QC_FrostRun\<close>: the two-round FROST protocol: when the choice of signers ends, panics
    or runs for ever (C24), an honest run signs (C25), a wrong share goes unnoticed (C26).

  \<^bold>\<open>The node.\<close>
  \<^item> \<open>QC_KeyManager\<close>: the commands on keys and FROST precomputations; the latter are a queue per key (C28).
  \<^item> \<open>QC_InstanceCache\<close>: instances and the cache; the locale \<open>instance_store\<close> is what the manager relies on.
  \<^item> \<open>QC_InstanceManager\<close>: commands, messages, backlog, timer and tasks as the step relation \<open>im_step E Q M\<close>,
    where \<open>Q\<close> are the requests clients make and \<open>M\<close> the messages the network delivers, both arbitrary.
    A task ends when its run returns or panics; a panicked one leaves its instance behind (\<open>im_panicked\<close>).  A request for a status
    says whether its client has gone.
    \<open>QC_InstanceInvariant\<close> proves the invariant \<open>im_ok\<close> for all reachable states.  \<open>QC_InstanceService\<close>: the
    consistency of the books (C29), the origin of results (C30), no wrong plaintext (C31).  \<open>QC_InstanceLimits\<close>: when the
    manager stops (C33), which requests it confuses (C34), what happens to early messages (C35), ejection from the cache and its size
    (C37).
  \<^item> \<open>QC_Rpc\<close>: the five calls of \<open>rpc_request_handler.rs\<close> over the instance manager: a synchronous decrypt call is
    answered with the plaintext however its shares interleave with other messages and timers (C32), status calls (C14), missing keys and
    a manager that is gone or stops (C27).
  \<^item> \<open>QC_Config\<close>: the configuration files, the program \<open>confgen\<close> that writes them and the start of a server's network from
    one up to its sockets: which of the generated configurations start (C36).
  \<^item> \<open>QC_Network\<close>: the loop of \<open>network_manager.rs\<close>; with it the messages of honest parties are put together to a
    decryption (C21).

  \<^bold>\<open>Loops and fuel.\<close>  Loops over vectors are folds or structural recursions.  The padding loops of the hashes end when the
  length is at a block boundary; their fuel is one block and more (64 and 128 bytes for SHA-2, 400 for SHA3, whose
  rate is at most 200), and totality is proved.  \<open>signer_loop\<close>, which redraws until it has enough signers, is a
  partial function into \<open>option\<close>, and C24 says for which thresholds it returns; so are the loops of reduction, inversion and
  powers on limbs, which C5 shows to end.  \<open>gen_strong_prime\<close> runs over the list of its
  draws.  The executor runs on the messages delivered so far and then waits; C19, C21, C22, C25 and C32 say that
  enough messages make it return.

  \<^bold>\<open>Not modelled.\<close>  The curve, field and pairing arithmetic of \<open>mcore\<close>, vendored and generated per curve, with the routines of
  \<open>big.rs\<close> only it uses, and the parts of \<open>mcore\<close> that nothing calls (AES, GCM, X.509, HPKE, MPIN, ECDH, the unused functions of \<open>hmac.rs\<close>).  The
  libp2p and proxy transports behind the addresses they listen on and dial, the spawning of the server's tasks, the other command-line programs, the event emitter
  and the blockchain stub, which are I/O around libraries.  Printing for humans.  Channels are unbounded and stay open
  unless said otherwise, and time appears only as the ticks of the backlog timer.
\<close>

end
